(* ===== verification/Prelude.thy ===== *)
theory Prelude
  imports Main "HOL-Library.Word"
begin

text \<open>
  Shared base of the CrashCore development: the names of the machine types the
  C++ sources use, the decimal rendering of \<open>std::to_string\<close>, and the generic
  lemmas on lists, deques with eviction, partial maps and words that the component
  theories apply.

  Conventions of the whole development:
  \<^item> \<open>std::uint8_t\<close>, \<open>std::uint64_t\<close> and the event counters are words, so that
    their arithmetic wraps as in C++;
  \<^item> \<open>std::int64_t\<close> time stamps and \<open>int\<close> counters are \<^typ>\<open>int\<close>: signed overflow
    is undefined in C++, so only the runs without overflow have a meaning;
  \<^item> \<open>std::size_t\<close> lengths of containers are \<^typ>\<open>nat\<close> where no arithmetic on them can
    wrap, and \<^typ>\<open>64 word\<close> where the code computes with attacker-supplied lengths;
  \<^item> the wall clock is an argument (\<open>now\<close>) of every operation that reads \<open>nowMs()\<close>.
\<close>

unbundle bit_operations_syntax

section \<open>Machine types\<close>

type_synonym u8 = "8 word"
type_synonym u64 = "64 word"
type_synonym bytes = "u8 list"
type_synonym TimestampMs = int
type_synonym NanoTime = int

named_theorems key_simps \<open>rewrite rules for textual dedupe keys\<close>
named_theorems frame_simps \<open>fields an operation leaves unchanged\<close>

section \<open>Decimal rendering\<close>

fun show_nat :: "nat \<Rightarrow> string" where
  "show_nat n =
     (if n < 10 then [char_of (48 + n)]
      else show_nat (n div 10) @ [char_of (48 + n mod 10)])"

declare show_nat.simps [simp del]

definition show_int :: "int \<Rightarrow> string" where
  "show_int i = (if i < 0 then ''-'' @ show_nat (nat (- i)) else show_nat (nat i))"

definition read_nat :: "string \<Rightarrow> nat" where
  "read_nat s = foldl (\<lambda>a c. a * 10 + (of_char c - 48)) 0 s"

definition is_digit :: "char \<Rightarrow> bool" where
  "is_digit c \<longleftrightarrow> 48 \<le> (of_char c :: nat) \<and> (of_char c :: nat) \<le> 57"

lemma read_show_nat [simp]: "read_nat (show_nat n) = n"
proof (induction n rule: show_nat.induct)
  case (1 n)
  show ?case
  proof (cases "n < 10")
    case True
    then show ?thesis
      by (subst show_nat.simps) (simp add: read_nat_def)
  next
    case False
    with "1.IH" show ?thesis
      by (subst show_nat.simps) (simp add: read_nat_def)
  qed
qed

lemma show_nat_inject [simp]: "show_nat m = show_nat n \<longleftrightarrow> m = n"
  by (metis read_show_nat)

lemma show_nat_chars: "c \<in> set (show_nat n) \<Longrightarrow> 48 \<le> (of_char c :: nat) \<and> (of_char c :: nat) \<le> 57"
proof (induction n rule: show_nat.induct)
  case (1 n)
  show ?case
  proof (cases "n < 10")
    case True
    with "1.prems" show ?thesis
      by (subst (asm) show_nat.simps) (auto simp: )
  next
    case False
    with 1 show ?thesis
      by (subst (asm) (2) show_nat.simps) auto
  qed
qed

lemma colon_notin_show_nat [simp]: "CHR '':'' \<notin> set (show_nat n)"
  using show_nat_chars [of "CHR '':''" n] by auto

lemma minus_notin_show_nat [simp]: "CHR ''-'' \<notin> set (show_nat n)"
  using show_nat_chars [of "CHR ''-''" n] by auto

lemma show_nat_nonempty [simp]: "show_nat n \<noteq> []"
  by (subst show_nat.simps) simp

lemma colon_notin_show_int [simp]: "CHR '':'' \<notin> set (show_int i)"
  by (simp add: show_int_def)

lemma show_int_inject [simp]: "show_int i = show_int j \<longleftrightarrow> i = j"
proof
  assume eq: "show_int i = show_int j"
  have hd_nat: "show_nat n \<noteq> CHR ''-'' # s" for n s
    using minus_notin_show_nat [of n] by (metis list.set_intros(1))
  have "i < 0 \<longleftrightarrow> j < 0"
    using eq by (auto simp: show_int_def hd_nat hd_nat [symmetric] split: if_splits)
  with eq show "i = j"
    by (auto simp: show_int_def split: if_splits)
qed simp

section \<open>Textual keys with a separator\<close>

text \<open>
  The dedupe keys of the program are \<open>id + ":" + n + ":" + m\<close>, where the id is
  arbitrary text and the later fields are rendered numbers. A key still determines its
  fields, since the numbers hold no separator.
\<close>

lemma sep_key_inject [key_simps]:
  assumes "c \<notin> set ys" and "c \<notin> set ys'"
  shows "xs @ c # ys = xs' @ c # ys' \<longleftrightarrow> xs = xs' \<and> ys = ys'"
proof
  assume eq: "xs @ c # ys = xs' @ c # ys'"
  then have r: "rev ys @ c # rev xs = rev ys' @ c # rev xs'"
    by (metis append.assoc append_Cons append_Nil rev.simps(2) rev_append)
  have tw: "takeWhile (\<lambda>x. x \<noteq> c) (rev zs @ c # ws) = rev zs" if "c \<notin> set zs" for zs ws
    using that by (subst takeWhile_append2) auto
  have "rev ys = rev ys'"
    using tw [OF assms(1)] tw [OF assms(2)] r by metis
  with eq show "xs = xs' \<and> ys = ys'" by simp
qed simp

section \<open>Deques with eviction from the front\<close>

text \<open>
  \<open>while (d.size() > n) d.pop_front();\<close> is the eviction loop of every bounded history,
  window and key set of the program. \<open>trim n d\<close> is its result: the last \<open>n\<close> entries.
\<close>

fun trim :: "nat \<Rightarrow> 'a list \<Rightarrow> 'a list" where
  "trim n [] = []"
| "trim n (x # xs) = (if n < length (x # xs) then trim n xs else x # xs)"

lemma trim_eq_drop: "trim n xs = drop (length xs - n) xs"
proof (induction xs)
  case (Cons x xs)
  then show ?case
    by (cases "n \<le> length xs") (auto simp: Suc_diff_le)
qed simp

lemma length_trim [simp]: "length (trim n xs) = min n (length xs)"
  by (simp add: trim_eq_drop)

lemma trim_id: "length xs \<le> n \<Longrightarrow> trim n xs = xs"
  by (simp add: trim_eq_drop)

lemma set_trim_subset: "set (trim n xs) \<subseteq> set xs"
  by (simp add: trim_eq_drop set_drop_subset)

lemma distinct_trim: "distinct xs \<Longrightarrow> distinct (trim n xs)"
  by (simp add: trim_eq_drop)

lemma trim_append_last: "0 < n \<Longrightarrow> trim n (xs @ [x]) \<noteq> [] \<and> last (trim n (xs @ [x])) = x"
  by (auto simp: trim_eq_drop)

lemma trim_last_mem: "0 < n \<Longrightarrow> x \<in> set (trim n (xs @ [x]))"
  using trim_append_last [of n xs x] by (metis last_in_set)

lemma trim_trim_snoc: "trim n (trim n xs @ ys) = trim n (xs @ ys)"
  by (cases "n \<le> length xs") (auto simp: trim_eq_drop ac_simps)

section \<open>Partial maps\<close>

lemma dom_restrict_delete [simp]: "dom (m(k := None)) = dom m - {k}"
  by (auto simp: dom_def)

section \<open>Words\<close>

lemma unat_eqI: "unat v = unat w \<Longrightarrow> v = w"
  by (rule unsigned_word_eqI)

lemma unat_two_power: "k < 64 \<Longrightarrow> unat ((2 :: u64) ^ k) = 2 ^ k"
proof -
  assume k: "k < 64"
  have "unat ((2 :: u64) ^ k) = unat (word_of_nat (2 ^ k) :: u64)" by simp
  also have "\<dots> = 2 ^ k"
    using k power_strict_increasing [of k 64 "2 :: nat"] by (subst unat_of_nat) simp
  finally show ?thesis .
qed

lemma unat_plus_one: "(w :: u64) \<noteq> - 1 \<Longrightarrow> unat (w + 1) = unat w + 1"
  using unatSuc [of w] by (simp add: add.commute add_eq_0_iff)

lemma unat_less_exp_iff: "unat (w :: 'a :: len word) < 2 ^ n \<longleftrightarrow> take_bit n w = w"
proof -
  have "take_bit n w = w \<longleftrightarrow> unat (take_bit n w) = unat w" by (auto intro: unat_eqI)
  also have "\<dots> \<longleftrightarrow> take_bit n (unat w) = unat w" by (simp add: unsigned_take_bit_eq)
  finally show ?thesis by (simp add: take_bit_nat_eq_self_iff)
qed

text \<open>The two byte masks of the wire formats, bit by bit.\<close>

lemma bit_0x80 [simp]:
  "bit (0x80 :: u8) n \<longleftrightarrow> n = 7" "bit (0x80 :: u64) n \<longleftrightarrow> n = 7" "bit (0x80 :: int) n \<longleftrightarrow> n = 7"
  using bit_exp_iff [where 'a = u8, of 7 n] bit_exp_iff [where 'a = u64, of 7 n]
    bit_exp_iff [where 'a = int, of 7 n] by auto

lemma bit_0x7f [simp]:
  "bit (0x7f :: u8) n \<longleftrightarrow> n < 7" "bit (0x7f :: u64) n \<longleftrightarrow> n < 7" "bit (0x7f :: int) n \<longleftrightarrow> n < 7"
  using bit_mask_iff [where 'a = u8, of 7 n] bit_mask_iff [where 'a = u64, of 7 n]
    bit_mask_iff [where 'a = int, of 7 n] by (auto simp: mask_eq_exp_minus_1)

lemma bit_0x0f [simp]: "bit (0x0f :: u8) n \<longleftrightarrow> n < 4" "bit (0x0f :: int) n \<longleftrightarrow> n < 4"
  using bit_mask_iff [where 'a = u8, of 4 n] bit_mask_iff [where 'a = int, of 4 n]
  by (auto simp: mask_eq_exp_minus_1)

end
