(* ===== verification/Float64.thy ===== *)
theory Float64
  imports Prelude Complex_Main "HOL-Library.Log_Nat"
begin

text \<open>
  IEEE 754 binary64 as the C++ sources use it: \<open>double\<close> values, the ordered comparisons
  (all false on a NaN), and the four operations, each the exact rational result rounded
  to nearest with ties to even. A finite double is the rational number it denotes; the two
  zeros are identified (no modelled code distinguishes them). \<open>rnd\<close> is executable, so
  a literal such as \<open>0.02\<close> is the double the compiler picks for it.

  The lemmas: rounding is monotone and idempotent, exact on the integers up to \<open>2^53\<close>, and
  never moves a value across a representable one.
\<close>

section \<open>Values and comparisons\<close>

datatype double = Fin rat | PInf | NInf | NaN

fun dless :: "double \<Rightarrow> double \<Rightarrow> bool" where
  "dless (Fin a) (Fin b) = (a < b)"
| "dless NInf (Fin b) = True"
| "dless NInf PInf = True"
| "dless (Fin a) PInf = True"
| "dless _ _ = False"

fun dle :: "double \<Rightarrow> double \<Rightarrow> bool" where
  "dle (Fin a) (Fin b) = (a \<le> b)"
| "dle NInf NaN = False"
| "dle NInf _ = True"
| "dle NaN PInf = False"
| "dle _ PInf = True"
| "dle _ _ = False"

fun is_finite :: "double \<Rightarrow> bool" where
  "is_finite (Fin a) = True"
| "is_finite _ = False"

fun fin_val :: "double \<Rightarrow> rat" where
  "fin_val (Fin a) = a"
| "fin_val _ = 0"

text \<open>\<open>std::max(a, b)\<close>, \<open>std::min(a, b)\<close> and \<open>std::clamp(v, lo, hi)\<close> by their comparisons.\<close>

definition dmax :: "double \<Rightarrow> double \<Rightarrow> double" where
  "dmax a b = (if dless a b then b else a)"

definition dmin :: "double \<Rightarrow> double \<Rightarrow> double" where
  "dmin a b = (if dless b a then b else a)"

definition dclamp :: "double \<Rightarrow> double \<Rightarrow> double \<Rightarrow> double" where
  "dclamp v lo hi = (if dless v lo then lo else if dless hi v then hi else v)"

section \<open>Rounding\<close>

definition ilog2 :: "rat \<Rightarrow> int" where
  "ilog2 x =
     (let (p, q) = quotient_of x;
          e = int (floorlog 2 (nat p)) - int (floorlog 2 (nat q))
      in if x < 2 powi e then e - 1 else e)"

definition rne :: "rat \<Rightarrow> int" where
  "rne q =
     (let f = \<lfloor>q\<rfloor>; d = q - of_int f
      in if d < 1/2 then f else if 1/2 < d then f + 1 else if even f then f else f + 1)"

definition ulp_exp :: "rat \<Rightarrow> int" where
  "ulp_exp a = max (ilog2 a) (- 1022) - 52"

definition rnd_pos :: "rat \<Rightarrow> rat" where
  "rnd_pos a = of_int (rne (a / 2 powi (ulp_exp a))) * 2 powi (ulp_exp a)"

definition rnd :: "rat \<Rightarrow> double" where
  "rnd x =
     (if x = 0 then Fin 0
      else let r = rnd_pos \<bar>x\<bar>
           in if 2 ^ 1024 \<le> r then (if 0 < x then PInf else NInf)
              else Fin (sgn x * r))"

section \<open>Arithmetic\<close>

fun dneg :: "double \<Rightarrow> double" where
  "dneg (Fin a) = Fin (- a)"
| "dneg PInf = NInf"
| "dneg NInf = PInf"
| "dneg NaN = NaN"

fun dadd :: "double \<Rightarrow> double \<Rightarrow> double" where
  "dadd (Fin a) (Fin b) = rnd (a + b)"
| "dadd NaN _ = NaN"
| "dadd _ NaN = NaN"
| "dadd PInf NInf = NaN"
| "dadd NInf PInf = NaN"
| "dadd PInf _ = PInf"
| "dadd _ PInf = PInf"
| "dadd NInf _ = NInf"
| "dadd _ NInf = NInf"

definition dsub :: "double \<Rightarrow> double \<Rightarrow> double" where
  "dsub a b = dadd a (dneg b)"

definition inf_of :: "rat \<Rightarrow> double" where
  "inf_of s = (if s = 0 then NaN else if 0 < s then PInf else NInf)"

fun dmul :: "double \<Rightarrow> double \<Rightarrow> double" where
  "dmul (Fin a) (Fin b) = rnd (a * b)"
| "dmul NaN _ = NaN"
| "dmul _ NaN = NaN"
| "dmul (Fin a) PInf = inf_of a"
| "dmul (Fin a) NInf = inf_of (- a)"
| "dmul PInf (Fin b) = inf_of b"
| "dmul NInf (Fin b) = inf_of (- b)"
| "dmul PInf PInf = PInf"
| "dmul NInf NInf = PInf"
| "dmul PInf NInf = NInf"
| "dmul NInf PInf = NInf"

fun ddiv :: "double \<Rightarrow> double \<Rightarrow> double" where
  "ddiv (Fin a) (Fin b) = (if b = 0 then inf_of a else rnd (a / b))"
| "ddiv NaN _ = NaN"
| "ddiv _ NaN = NaN"
| "ddiv (Fin a) PInf = Fin 0"
| "ddiv (Fin a) NInf = Fin 0"
| "ddiv PInf (Fin b) = (if b < 0 then NInf else PInf)"
| "ddiv NInf (Fin b) = (if b < 0 then PInf else NInf)"
| "ddiv _ _ = NaN"

text \<open>Conversions: \<open>static_cast<double>\<close> of an integer, and truncation towards zero back.\<close>

definition of_integer :: "int \<Rightarrow> double" where
  "of_integer i = rnd (of_int i)"

definition trunc_rat :: "rat \<Rightarrow> int" where
  "trunc_rat x = (if x < 0 then - \<lfloor>- x\<rfloor> else \<lfloor>x\<rfloor>)"

section \<open>Comparison lemmas\<close>

lemma dle_refl: "x \<noteq> NaN \<Longrightarrow> dle x x"
  by (cases x) auto

lemma dle_trans: "dle x y \<Longrightarrow> dle y z \<Longrightarrow> dle x z"
  by (cases x; cases y; cases z) auto

lemma dless_le_trans: "dless x y \<Longrightarrow> dle y z \<Longrightarrow> dless x z"
  by (cases x; cases y; cases z) auto

lemma dle_less_trans: "dle x y \<Longrightarrow> dless y z \<Longrightarrow> dless x z"
  by (cases x; cases y; cases z) auto

lemma dless_imp_dle: "dless x y \<Longrightarrow> dle x y"
  by (cases x; cases y) auto

lemma not_dless: "x \<noteq> NaN \<Longrightarrow> y \<noteq> NaN \<Longrightarrow> \<not> dless x y \<longleftrightarrow> dle y x"
  by (cases x; cases y) auto

lemma dless_not_dle: "dless x y \<Longrightarrow> \<not> dle y x"
  by (cases x; cases y) auto

lemma dle_nan [simp]: "\<not> dle x NaN" "\<not> dle NaN x"
  by (cases x; simp)+

lemma dless_nan [simp]: "\<not> dless x NaN" "\<not> dless NaN x"
  by (cases x; simp)+

lemma dless_irrefl [simp]: "\<not> dless x x"
  by (cases x) auto

lemma dle_inf [simp]: "dle x PInf \<longleftrightarrow> x \<noteq> NaN" "dle NInf x \<longleftrightarrow> x \<noteq> NaN"
  by (cases x; simp)+

lemma dle_finD: "dle (Fin a) x \<Longrightarrow> dle x (Fin b) \<Longrightarrow> \<exists>c. x = Fin c \<and> a \<le> c \<and> c \<le> b"
  by (cases x) auto

lemma dclamp_range:
  assumes "dle lo hi" and "v \<noteq> NaN"
  shows "dle lo (dclamp v lo hi)" and "dle (dclamp v lo hi) hi"
  using assms by (cases lo; cases hi; cases v; auto simp: dclamp_def)+

section \<open>Rounding lemmas\<close>

lemma two_powi_le [simp]: "(2 :: rat) powi m \<le> 2 powi n \<longleftrightarrow> m \<le> n"
  using power_int_increasing [of m n "2 :: rat"] power_int_strict_increasing [of n m "2 :: rat"]
  by (cases "m \<le> n") auto

lemma two_powi_less [simp]: "(2 :: rat) powi m < 2 powi n \<longleftrightarrow> m < n"
  using two_powi_le [of n m] by linarith

lemma floorlog_powi:
  assumes "0 < n"
  shows "(2 :: rat) powi (int (floorlog 2 n) - 1) \<le> of_nat n"
    and "of_nat n < (2 :: rat) powi (int (floorlog 2 n))"
proof -
  have "0 < floorlog 2 n" using assms by (simp add: floorlog_def)
  then obtain k where k: "floorlog 2 n = Suc k" by (cases "floorlog 2 n") auto
  have "2 ^ k \<le> n" and "n < 2 ^ Suc k"
    using floorlog_bounds [of n 2] assms k by auto
  then have "of_nat (2 ^ k) \<le> (of_nat n :: rat)" and "(of_nat n :: rat) < of_nat (2 ^ Suc k)"
    by (simp_all only: of_nat_le_iff of_nat_less_iff)
  moreover have "int (floorlog 2 n) - 1 = int k" using k by simp
  ultimately show "(2 :: rat) powi (int (floorlog 2 n) - 1) \<le> of_nat n"
    and "of_nat n < (2 :: rat) powi (int (floorlog 2 n))"
    unfolding k by (simp_all only: power_int_of_nat of_nat_power of_nat_numeral)
qed

lemma ilog2_bounds:
  assumes "0 < x"
  shows "2 powi (ilog2 x) \<le> x" and "x < 2 powi (ilog2 x + 1)"
proof -
  obtain p q where pq: "quotient_of x = (p, q)" by fastforce
  have q: "0 < q" using pq by (rule quotient_of_denom_pos)
  have x: "x = of_int p / of_int q" using pq by (rule quotient_of_div)
  have p: "0 < p" using assms q by (simp add: x zero_less_divide_iff)
  define fp where "fp = floorlog 2 (nat p)"
  define fq where "fq = floorlog 2 (nat q)"
  have int_b: "(2 :: rat) powi (int (floorlog 2 (nat i)) - 1) \<le> of_int i"
      "of_int i < (2 :: rat) powi (int (floorlog 2 (nat i)))" if "0 < i" for i :: int
    using floorlog_powi [of "nat i"] that by simp_all
  have lo: "2 powi (int fp - int fq - 1) \<le> x"
  proof -
    have "2 powi (int fp - int fq - 1) * of_int q \<le> (2 :: rat) powi (int fp - int fq - 1) * 2 powi (int fq)"
      using int_b(2) [OF q] by (intro mult_left_mono) (auto simp: fq_def)
    also have "\<dots> = 2 powi (int fp - 1)"
      by (subst power_int_add [symmetric]) (simp_all del: power_int_of_nat)
    also have "\<dots> \<le> of_int p" using int_b(1) [OF p] by (simp add: fp_def)
    finally show ?thesis using q by (simp add: x field_simps)
  qed
  have hi: "x < 2 powi (int fp - int fq + 1)"
  proof -
    have "of_int p < (2 :: rat) powi (int fp)" using int_b(2) [OF p] by (simp add: fp_def)
    also have "\<dots> = 2 powi (int fp - int fq + 1) * 2 powi (int fq - 1)"
      by (subst power_int_add [symmetric]) (simp_all del: power_int_of_nat)
    also have "\<dots> \<le> 2 powi (int fp - int fq + 1) * of_int q"
      using int_b(1) [OF q] by (intro mult_left_mono) (auto simp: fq_def)
    finally show ?thesis using q by (simp add: x field_simps)
  qed
  have "ilog2 x = (if x < 2 powi (int fp - int fq) then int fp - int fq - 1 else int fp - int fq)"
    by (simp add: ilog2_def pq Let_def fp_def fq_def)
  with lo hi show "2 powi (ilog2 x) \<le> x" and "x < 2 powi (ilog2 x + 1)"
    by (auto split: if_splits)
qed

lemma ilog2_mono: "0 < x \<Longrightarrow> x \<le> y \<Longrightarrow> ilog2 x \<le> ilog2 y"
proof -
  assume "0 < x" "x \<le> y"
  then have "2 powi (ilog2 x) < (2 :: rat) powi (ilog2 y + 1)"
    using ilog2_bounds(1) [of x] ilog2_bounds(2) [of y] by linarith
  then show ?thesis by simp
qed

lemma rne_near: "\<lfloor>q\<rfloor> \<le> rne q" "rne q \<le> \<lfloor>q\<rfloor> + 1"
  by (auto simp: rne_def Let_def)

lemma rne_of_int [simp]: "rne (of_int k) = k"
  by (simp add: rne_def)

lemma rne_mono: "q \<le> q' \<Longrightarrow> rne q \<le> rne q'"
proof -
  assume le: "q \<le> q'"
  show ?thesis
  proof (cases "\<lfloor>q\<rfloor> = \<lfloor>q'\<rfloor>")
    case True
    with le show ?thesis by (auto simp: rne_def Let_def)
  next
    case False
    with le floor_mono [OF le] have "\<lfloor>q\<rfloor> + 1 \<le> \<lfloor>q'\<rfloor>" by linarith
    with rne_near(2) [of q] rne_near(1) [of q'] show ?thesis by linarith
  qed
qed

lemma rne_le_int: "q \<le> of_int k \<Longrightarrow> rne q \<le> k"
  using rne_mono [of q "of_int k"] by simp

lemma int_le_rne: "of_int k \<le> q \<Longrightarrow> k \<le> rne q"
  using rne_mono [of "of_int k" q] by simp

lemma two_powi_nat: "e' \<le> e \<Longrightarrow> (2 :: rat) powi e = of_int (2 ^ nat (e - e')) * 2 powi e'"
proof -
  assume "e' \<le> e"
  then have "(2 :: rat) powi e = 2 powi (e - e') * 2 powi e'" by (simp flip: power_int_add)
  with \<open>e' \<le> e\<close> show ?thesis by (simp add: power_int_def)
qed

text \<open>No rounding crosses a power of two that lies on the value's own grid.\<close>

lemma rnd_pos_le_power:
  assumes "a \<le> 2 powi e" and "ulp_exp a \<le> e"
  shows "rnd_pos a \<le> 2 powi e"
proof -
  let ?u = "(2 :: rat) powi ulp_exp a"
  have eq: "(2 :: rat) powi e = of_int (2 ^ nat (e - ulp_exp a)) * ?u"
    using assms(2) by (rule two_powi_nat)
  have "a / ?u \<le> of_int (2 ^ nat (e - ulp_exp a))"
    using assms(1) unfolding eq by (simp add: divide_le_eq)
  then have "rne (a / ?u) \<le> 2 ^ nat (e - ulp_exp a)" by (rule rne_le_int)
  then have "of_int (rne (a / ?u)) \<le> (of_int (2 ^ nat (e - ulp_exp a)) :: rat)"
    by (simp only: of_int_le_iff)
  then show ?thesis unfolding eq rnd_pos_def by (intro mult_right_mono) auto
qed

lemma power_le_rnd_pos:
  assumes "2 powi e \<le> a" and "ulp_exp a \<le> e"
  shows "2 powi e \<le> rnd_pos a"
proof -
  let ?u = "(2 :: rat) powi ulp_exp a"
  have eq: "(2 :: rat) powi e = of_int (2 ^ nat (e - ulp_exp a)) * ?u"
    using assms(2) by (rule two_powi_nat)
  have "of_int (2 ^ nat (e - ulp_exp a)) \<le> a / ?u"
    using assms(1) unfolding eq by (simp add: le_divide_eq)
  then have "2 ^ nat (e - ulp_exp a) \<le> rne (a / ?u)" by (rule int_le_rne)
  then have "of_int (2 ^ nat (e - ulp_exp a)) \<le> (of_int (rne (a / ?u)) :: rat)"
    by (simp only: of_int_le_iff)
  then show ?thesis unfolding eq rnd_pos_def by (intro mult_right_mono) auto
qed

lemma rnd_pos_mono:
  assumes "0 < a" and "a \<le> b"
  shows "rnd_pos a \<le> rnd_pos b"
proof (cases "ulp_exp a = ulp_exp b")
  case True
  have "a / 2 powi ulp_exp b \<le> b / 2 powi ulp_exp b"
    using assms(2) by (intro divide_right_mono) auto
  then have "rne (a / 2 powi ulp_exp b) \<le> rne (b / 2 powi ulp_exp b)" by (rule rne_mono)
  then show ?thesis by (simp add: rnd_pos_def True)
next
  case False
  have lt: "max (ilog2 a) (- 1022) < ilog2 b"
    using False ilog2_mono [OF assms] by (auto simp: ulp_exp_def max_def split: if_splits)
  have "a < 2 powi (ilog2 a + 1)" using assms(1) by (rule ilog2_bounds)
  also have "\<dots> \<le> (2 :: rat) powi ilog2 b" using lt by (subst two_powi_le) linarith
  finally have "rnd_pos a \<le> 2 powi ilog2 b"
    using lt by (intro rnd_pos_le_power) (auto simp: ulp_exp_def)
  also have "\<dots> \<le> rnd_pos b"
    using assms lt ilog2_bounds(1) [of b] by (intro power_le_rnd_pos) (auto simp: ulp_exp_def)
  finally show ?thesis .
qed

lemma rnd_pos_nonneg: "0 < a \<Longrightarrow> 0 \<le> rnd_pos a"
  using int_le_rne [of 0 "a / 2 powi ulp_exp a"] by (simp add: rnd_pos_def)

lemma rnd_pos_exact: "a = of_int k * 2 powi e \<Longrightarrow> ulp_exp a \<le> e \<Longrightarrow> rnd_pos a = a"
proof -
  assume a: "a = of_int k * 2 powi e" and le: "ulp_exp a \<le> e"
  have "a / 2 powi ulp_exp a = of_int (k * 2 ^ nat (e - ulp_exp a))"
    unfolding of_int_mult by (subst (1) a, subst two_powi_nat [OF le]) simp
  then have "rne (a / 2 powi ulp_exp a) = k * 2 ^ nat (e - ulp_exp a)" by (simp only: rne_of_int)
  with two_powi_nat [OF le] show ?thesis by (simp add: rnd_pos_def a)
qed

lemma rnd_pos_idem:
  assumes "0 < a" and "0 < rnd_pos a"
  shows "rnd_pos (rnd_pos a) = rnd_pos a"
proof (cases "ulp_exp (rnd_pos a) \<le> ulp_exp a")
  case True
  then show ?thesis by (rule rnd_pos_exact [rotated]) (simp add: rnd_pos_def)
next
  case False
  define m where "m = max (ilog2 a) (- 1022)"
  let ?r = "rnd_pos a"
  have gt: "m + 1 \<le> ilog2 ?r" using False by (auto simp: ulp_exp_def m_def)
  have "a \<le> 2 powi (ilog2 a + 1)" using ilog2_bounds(2) [OF assms(1)] by simp
  also have "\<dots> \<le> (2 :: rat) powi (m + 1)" by (subst two_powi_le) (simp add: m_def)
  finally have up: "?r \<le> 2 powi (m + 1)"
    by (rule rnd_pos_le_power) (simp add: ulp_exp_def m_def)
  have "(2 :: rat) powi (m + 1) \<le> 2 powi ilog2 ?r" using gt by simp
  also have "\<dots> \<le> ?r" by (rule ilog2_bounds(1) [OF assms(2)])
  finally have eq: "?r = 2 powi (m + 1)" using up by simp
  have "2 powi ilog2 ?r \<le> (2 :: rat) powi (m + 1)"
    using ilog2_bounds(1) [OF assms(2)] eq by simp
  with gt have "ilog2 ?r = m + 1" by simp
  then have "ulp_exp ?r \<le> m + 1" by (simp add: ulp_exp_def m_def)
  with eq show ?thesis by (intro rnd_pos_exact [where k = 1]) auto
qed

lemma rnd_neg: "rnd (- x) = dneg (rnd x)"
  by (auto simp: rnd_def Let_def)

lemma rnd_not_nan [simp]: "rnd x \<noteq> NaN"
  by (auto simp: rnd_def Let_def)

lemma rnd_0 [simp]: "rnd 0 = Fin 0"
  by (simp add: rnd_def)

lemma rnd_pos_eq: "0 < x \<Longrightarrow> rnd x = (if 2 ^ 1024 \<le> rnd_pos x then PInf else Fin (rnd_pos x))"
  by (simp add: rnd_def Let_def)

lemma rnd_mono_pos: "0 < x \<Longrightarrow> x \<le> y \<Longrightarrow> dle (rnd x) (rnd y)"
  using rnd_pos_mono [of x y] by (auto simp: rnd_pos_eq)

lemma dle_dneg: "dle (dneg x) (dneg y) \<longleftrightarrow> dle y x"
  by (cases x; cases y) auto

lemma rnd_nonneg: "0 \<le> x \<Longrightarrow> dle (Fin 0) (rnd x)"
  using rnd_pos_nonneg [of x] by (cases "x = 0") (auto simp: rnd_pos_eq)

lemma rnd_nonpos: "x \<le> 0 \<Longrightarrow> dle (rnd x) (Fin 0)"
  using rnd_nonneg [of "- x"] dle_dneg [of "Fin 0" "rnd x"] by (simp add: rnd_neg)

theorem rnd_mono: "x \<le> y \<Longrightarrow> dle (rnd x) (rnd y)"
proof -
  assume le: "x \<le> y"
  consider "0 < x" | "x \<le> 0" "0 \<le> y" | "y < 0" by linarith
  then show ?thesis
  proof cases
    case 1
    then show ?thesis using le by (rule rnd_mono_pos)
  next
    case 2
    then show ?thesis using rnd_nonpos rnd_nonneg dle_trans by blast
  next
    case 3
    then have "dle (rnd (- y)) (rnd (- x))" using le by (intro rnd_mono_pos) auto
    then show ?thesis by (simp add: rnd_neg dle_dneg)
  qed
qed

theorem rnd_idem: "rnd x = Fin r \<Longrightarrow> rnd r = Fin r"
proof -
  have pos: "rnd r = Fin r" if "rnd x = Fin r" "0 < x" for x r
  proof (cases "r = 0")
    case False
    from that have r: "r = rnd_pos x" "\<not> 2 ^ 1024 \<le> r" by (auto simp: rnd_pos_eq split: if_splits)
    with False rnd_pos_nonneg [OF that(2)] have "0 < r" by simp
    with r rnd_pos_idem [OF that(2)] show ?thesis by (auto simp: rnd_pos_eq)
  qed simp
  assume x: "rnd x = Fin r"
  consider "0 < x" | "x = 0" | "x < 0" by linarith
  then show ?thesis
  proof cases
    case 3
    with x have "rnd (- x) = Fin (- r)" by (simp add: rnd_neg)
    then have "rnd (- r) = Fin (- r)" using pos 3 by simp
    then have "dneg (rnd (- r)) = Fin r" by simp
    then show ?thesis by (simp flip: rnd_neg)
  qed (use x pos in auto)
qed

text \<open>A representable value bounds the rounding of everything on its side.\<close>

definition representable :: "rat \<Rightarrow> bool" where
  "representable r \<longleftrightarrow> rnd r = Fin r"

lemma representable_le_rnd: "representable r \<Longrightarrow> r \<le> x \<Longrightarrow> dle (Fin r) (rnd x)"
  using rnd_mono [of r x] by (simp add: representable_def)

lemma rnd_le_representable: "representable r \<Longrightarrow> x \<le> r \<Longrightarrow> dle (rnd x) (Fin r)"
  using rnd_mono [of x r] by (simp add: representable_def)

lemma representable_0 [simp]: "representable 0"
  by (simp add: representable_def)

lemma representable_rnd: "rnd x = Fin r \<Longrightarrow> representable r"
  by (simp add: representable_def rnd_idem)

lemma representable_int:
  assumes "\<bar>k\<bar> \<le> 2 ^ 53"
  shows "representable (of_int k)"
proof -
  have pos: "representable (of_int k)" if k: "0 < k" "k \<le> 2 ^ 53" for k :: int
  proof -
    have kr: "(of_int k :: rat) \<le> 2 ^ 53" using k(2) of_int_le_iff [of k "2 ^ 53", where 'a = rat] by (simp only: of_int_power of_int_numeral)
    have "2 powi ilog2 (of_int k) \<le> (of_int k :: rat)" using k by (intro ilog2_bounds) simp
    with kr have "2 powi ilog2 (of_int k) \<le> (2 :: rat) powi 53" by (simp add: power_int_def)
    then have le: "ilog2 (of_int k) \<le> 53" by (simp only: two_powi_le)
    have "rnd_pos (of_int k) = of_int k"
    proof (cases "ilog2 (of_int k) = 53")
      case True
      with k kr ilog2_bounds(1) [of "of_int k"] have "(of_int k :: rat) = 2 powi 53"
        by (simp add: power_int_def)
      then show ?thesis using True
        by (intro rnd_pos_exact [where k = 1 and e = 53]) (auto simp: ulp_exp_def)
    next
      case False
      with le show ?thesis by (intro rnd_pos_exact [where k = k and e = 0]) (auto simp: ulp_exp_def)
    qed
    with k kr show ?thesis by (auto simp: representable_def rnd_pos_eq)
  qed
  consider "0 < k" | "k = 0" | "k < 0" by linarith
  then show ?thesis
  proof cases
    case 3
    then have "rnd (of_int (- k)) = Fin (of_int (- k))"
      using pos [of "- k"] assms by (simp add: representable_def)
    then have "dneg (rnd (- of_int k)) = Fin (of_int k)" by simp
    then show ?thesis by (simp add: representable_def rnd_neg)
      (metis dneg.simps(1) minus_minus rnd_neg)
  qed (use pos assms in auto)
qed

text \<open>
  Evaluation of one rounding: in the binade of \<open>2 ^ e\<close> the result is the nearest
  integer of units in the last place.
\<close>

lemma ilog2_eq: "2 powi e \<le> x \<Longrightarrow> x < 2 powi (e + 1) \<Longrightarrow> ilog2 x = e"
proof -
  assume b: "2 powi e \<le> x" "x < 2 powi (e + 1)"
  then have "0 < x" using zero_less_power_int [of "2 :: rat" e] by linarith
  from ilog2_bounds [OF this] b have "(2 :: rat) powi e < 2 powi (ilog2 x + 1)" "(2 :: rat) powi (ilog2 x) < 2 powi (e + 1)"
    by (meson order.strict_trans1)+
  then show ?thesis by simp
qed

lemma rnd_eval:
  assumes b: "2 powi e \<le> x" "x < 2 powi (e + 1)" and e: "- 1022 \<le> e" "e \<le> 1022"
  shows "rnd x = Fin (of_int (rne (x / 2 powi (e - 52))) * 2 powi (e - 52))"
    and "2 powi e \<le> fin_val (rnd x)"
proof -
  have pos: "0 < x" using b(1) zero_less_power_int [of "2 :: rat" e] by linarith
  have il: "ilog2 x = e" using b by (rule ilog2_eq)
  then have u: "ulp_exp x = e - 52" using e by (simp add: ulp_exp_def)
  have "rnd_pos x \<le> 2 powi (e + 1)" using b u by (intro rnd_pos_le_power) auto
  also have "\<dots> < 2 powi 1024" using e by (subst two_powi_less) simp
  finally have lt: "rnd_pos x < 2 ^ 1024" by (simp add: power_int_def)
  then have r: "rnd x = Fin (rnd_pos x)" using pos by (simp add: rnd_pos_eq)
  then show "rnd x = Fin (of_int (rne (x / 2 powi (e - 52))) * 2 powi (e - 52))"
    by (simp add: rnd_pos_def u)
  show "2 powi e \<le> fin_val (rnd x)" using power_le_rnd_pos [of e x] b u r by simp
qed

lemma rne_near_int:
  assumes "\<bar>q - of_int k\<bar> < 1 / 2"
  shows "rne q = k"
proof (cases "of_int k \<le> q")
  case True
  then have "\<lfloor>q\<rfloor> = k" using assms by (intro floor_unique) linarith+
  with True assms show ?thesis by (simp add: rne_def Let_def)
next
  case False
  have "of_int (k - 1) \<le> q" unfolding of_int_diff of_int_1 using assms by linarith
  moreover have "q < of_int (k - 1) + 1" unfolding of_int_diff of_int_1 using False by linarith
  ultimately have "\<lfloor>q\<rfloor> = k - 1" by (rule floor_unique)
  with False assms show ?thesis by (simp add: rne_def Let_def)
qed

text \<open>The double nearest to a literal, from its 53-bit significand.\<close>

lemma rnd_literal:
  assumes "2 powi e \<le> x" "x < 2 powi (e + 1)" "- 1022 \<le> e" "e \<le> 1022"
    and "\<bar>x / 2 powi (e - 52) - of_int k\<bar> < 1 / 2"
  shows "rnd x = Fin (of_int k * 2 powi (e - 52))"
  using rnd_eval(1) [OF assms(1-4)] rne_near_int [OF assms(5)] by simp

lemma rnd_binade:
  assumes "2 powi e \<le> x" "x < 2 powi (e + 1)" and "- 1022 \<le> e" "e \<le> 1022"
  obtains q where "rnd x = Fin q" and "0 < q"
proof
  show "rnd x = Fin (fin_val (rnd x))" using rnd_eval(1) [OF assms] by simp
  show "0 < fin_val (rnd x)"
    using rnd_eval(2) [OF assms] zero_less_power_int [of "2 :: rat" e] by linarith
qed

text \<open>Dyadic fractions with at most 53 significant bits are doubles.\<close>

lemma representable_neg: "representable (- r) \<longleftrightarrow> representable r"
  using rnd_neg [of r] by (cases "rnd r") (auto simp: representable_def)

lemma representable_dyadic:
  assumes "\<bar>k\<bar> < 2 ^ 53" and e: "- 1074 \<le> e" "e \<le> 900"
  shows "representable (of_int k * 2 powi e)"
proof -
  have pos: "representable (of_int k * 2 powi e)" if k: "0 < k" "k < 2 ^ 53" for k :: int
  proof -
    let ?a = "(of_int k :: rat) * 2 powi e"
    have a0: "0 < ?a" using k by simp
    have "(of_int k :: rat) < of_int (2 ^ 53)" using k(2) by (simp only: of_int_less_iff)
    then have "(of_int k :: rat) < 2 powi 53" by (simp add: power_int_def)
    then have "?a < 2 powi 53 * 2 powi e" by simp
    then have a1: "?a < 2 powi (e + 53)" by (simp add: power_int_add mult.commute)
    have "2 powi ilog2 ?a \<le> ?a" using a0 by (rule ilog2_bounds)
    with a1 have "(2 :: rat) powi ilog2 ?a < 2 powi (e + 53)" by (rule order.strict_trans1 [rotated])
    then have "ilog2 ?a \<le> e + 52" by simp
    then have "rnd_pos ?a = ?a" using e by (intro rnd_pos_exact [OF refl]) (simp add: ulp_exp_def)
    moreover have "?a < 2 ^ 1024"
    proof -
      have "(2 :: rat) powi (e + 53) \<le> 2 powi 1024" using e by (subst two_powi_le) simp
      also have "\<dots> = 2 ^ 1024" by (simp only: power_int_numeral)
      finally show ?thesis using a1 by (rule order.strict_trans2 [rotated])
    qed
    ultimately show ?thesis using a0 by (simp add: representable_def rnd_pos_eq)
  qed
  consider "0 < k" | "k = 0" | "k < 0" by linarith
  then show ?thesis
  proof cases
    case 3
    with pos [of "- k"] assms(1) show ?thesis by (simp add: representable_neg)
  qed (use pos assms in auto)
qed

end
