(* ===== verification/Types.thy ===== *)
theory Types
  imports Float64
begin

text \<open>
  The domain types of \<open>include/common/types.hpp\<close>, \<open>errors.hpp\<close>, \<open>result.hpp\<close> and
  \<open>enums.hpp\<close>: every struct is a record with the source's fields (prefixed, since record
  fields share one name space), every enum a datatype with the source's constructors in
  their order, and a \<open>Result<T>\<close> is a sum with the error on the left. The \<open>_default\<close>
  constants are the member initialisers.
\<close>

section \<open>Errors and results\<close>

datatype ErrorCode =
    EC_Ok | EC_InvalidArgument | EC_NotFound | EC_AlreadyExists | EC_Timeout | EC_Cancelled
  | EC_ConnectionFailed | EC_ProtocolError | EC_ParseError | EC_SignatureError | EC_AuthFailed
  | EC_QueueFull | EC_QueueEmpty | EC_DatabaseError | EC_NetworkError | EC_RateLimited
  | EC_InternalError | EC_NotImplemented | EC_Shutdown | EC_StaleData | EC_Duplicate
  | EC_ValidationFailed | EC_ConfigError | EC_ResourceExhausted | EC_IoError

fun errorMessage :: "ErrorCode \<Rightarrow> string" where
  "errorMessage EC_Ok = ''ok''"
| "errorMessage EC_InvalidArgument = ''invalid argument''"
| "errorMessage EC_NotFound = ''not found''"
| "errorMessage EC_AlreadyExists = ''already exists''"
| "errorMessage EC_Timeout = ''timeout''"
| "errorMessage EC_Cancelled = ''cancelled''"
| "errorMessage EC_ConnectionFailed = ''connection failed''"
| "errorMessage EC_ProtocolError = ''protocol error''"
| "errorMessage EC_ParseError = ''parse error''"
| "errorMessage EC_SignatureError = ''signature error''"
| "errorMessage EC_AuthFailed = ''auth failed''"
| "errorMessage EC_QueueFull = ''queue full''"
| "errorMessage EC_QueueEmpty = ''queue empty''"
| "errorMessage EC_DatabaseError = ''database error''"
| "errorMessage EC_NetworkError = ''network error''"
| "errorMessage EC_RateLimited = ''rate limited''"
| "errorMessage EC_InternalError = ''internal error''"
| "errorMessage EC_NotImplemented = ''not implemented''"
| "errorMessage EC_Shutdown = ''shutdown''"
| "errorMessage EC_StaleData = ''stale data''"
| "errorMessage EC_Duplicate = ''duplicate''"
| "errorMessage EC_ValidationFailed = ''validation failed''"
| "errorMessage EC_ConfigError = ''config error''"
| "errorMessage EC_ResourceExhausted = ''resource exhausted''"
| "errorMessage EC_IoError = ''io error''"

record Error =
  err_code :: ErrorCode
  err_message :: string
  err_context :: string

definition mkError :: "ErrorCode \<Rightarrow> string \<Rightarrow> Error" where
  "mkError c msg = \<lparr>err_code = c, err_message = msg, err_context = []\<rparr>"

type_synonym 'a Result = "Error + 'a"

definition Result_ok :: "'a Result \<Rightarrow> bool" where
  "Result_ok r = (case r of Inl _ \<Rightarrow> False | Inr _ \<Rightarrow> True)"

definition Result_value_or :: "'a Result \<Rightarrow> 'a \<Rightarrow> 'a" where
  "Result_value_or r fallback = (case r of Inl _ \<Rightarrow> fallback | Inr v \<Rightarrow> v)"

definition Result_map :: "('a \<Rightarrow> 'b) \<Rightarrow> 'a Result \<Rightarrow> 'b Result" where
  "Result_map f r = (case r of Inl e \<Rightarrow> Inl e | Inr v \<Rightarrow> Inr (f v))"

lemma Result_ok_simps [simp]: "Result_ok (Inr v)" "\<not> Result_ok (Inl e)"
  by (simp_all add: Result_ok_def)

lemma Result_map_ok [simp]: "Result_ok (Result_map f r) = Result_ok r"
  by (cases r) (simp_all add: Result_map_def)

section \<open>Rounds and feed events\<close>

record CrashRound =
  cr_gameId :: string
  cr_multiplier :: double
  cr_hash :: string
  cr_salt :: string
  cr_beganAtMs :: TimestampMs
  cr_crashedAtMs :: TimestampMs
  cr_sequence :: u64
  cr_hasHash :: bool
  cr_hasSalt :: bool

datatype EventKind =
    Ev_Unknown | Ev_Progress | Ev_Start | Ev_End | Ev_Prepare | Ev_BetsOpen | Ev_BetsClosed
  | Ev_Heartbeat | Ev_Connect | Ev_Disconnect | Ev_Error

text \<open>\<open>static_cast<int>(ev.kind)\<close>: the enumerator's position.\<close>

fun EventKind_int :: "EventKind \<Rightarrow> nat" where
  "EventKind_int Ev_Unknown = 0"
| "EventKind_int Ev_Progress = 1"
| "EventKind_int Ev_Start = 2"
| "EventKind_int Ev_End = 3"
| "EventKind_int Ev_Prepare = 4"
| "EventKind_int Ev_BetsOpen = 5"
| "EventKind_int Ev_BetsClosed = 6"
| "EventKind_int Ev_Heartbeat = 7"
| "EventKind_int Ev_Connect = 8"
| "EventKind_int Ev_Disconnect = 9"
| "EventKind_int Ev_Error = 10"

lemma EventKind_int_inject [simp]: "EventKind_int a = EventKind_int b \<longleftrightarrow> a = b"
  by (cases a; cases b) simp_all

datatype EventSource =
    Src_Unknown | Src_NativeSocket | Src_SocketIo | Src_RestPoll | Src_Replay | Src_Synthetic

record CrashEvent =
  ev_kind :: EventKind
  ev_source :: EventSource
  ev_roundId :: string
  ev_gameId :: string
  ev_crashPoint :: double
  ev_currentMult :: double
  ev_beganAtMs :: TimestampMs
  ev_endedAtMs :: TimestampMs
  ev_eventTimeMs :: TimestampMs
  ev_sequence :: u64
  ev_receivedAtNs :: NanoTime
  ev_decodedAtNs :: NanoTime
  ev_routedAtNs :: NanoTime
  ev_hash :: string
  ev_rawEventName :: string
  ev_elapsedMs :: int
  ev_valid :: bool

definition CrashEvent_default :: CrashEvent where
  "CrashEvent_default =
     \<lparr>ev_kind = Ev_Unknown, ev_source = Src_Unknown, ev_roundId = [], ev_gameId = [],
      ev_crashPoint = Fin 0, ev_currentMult = Fin 0, ev_beganAtMs = 0, ev_endedAtMs = 0,
      ev_eventTimeMs = 0, ev_sequence = 0, ev_receivedAtNs = 0, ev_decodedAtNs = 0,
      ev_routedAtNs = 0, ev_hash = [], ev_rawEventName = [], ev_elapsedMs = -1,
      ev_valid = False\<rparr>"

text \<open>\<open>include/ingestion/crash_event.hpp\<close>\<close>

definition isTerminal :: "CrashEvent \<Rightarrow> bool" where
  "isTerminal e \<longleftrightarrow> ev_kind e = Ev_End"

definition isLiveProgress :: "CrashEvent \<Rightarrow> bool" where
  "isLiveProgress e \<longleftrightarrow> ev_kind e = Ev_Progress \<and> ev_valid e"

definition hasIdentity :: "CrashEvent \<Rightarrow> bool" where
  "hasIdentity e \<longleftrightarrow> ev_gameId e \<noteq> [] \<or> ev_roundId e \<noteq> []"

section \<open>Predictions and outcomes\<close>

datatype PredictionDecision = Dec_Skip | Dec_Enter | Dec_Hold

datatype PredictionOutcome =
    Out_Pending | Out_Win | Out_Loss | Out_Void | Out_Stale | Out_Duplicate

record PredictionRequest =
  rq_targetRoundId :: string
  rq_gameId :: string
  rq_requestTimeMs :: TimestampMs
  rq_requestNs :: NanoTime
  rq_sequence :: u64
  rq_currentMult :: double
  rq_correlationId :: string

record PredictionResponse =
  rs_predictionId :: string
  rs_targetRoundId :: string
  rs_decision :: PredictionDecision
  rs_confidence :: double
  rs_probability :: double
  rs_targetMult :: double
  rs_responseTimeMs :: TimestampMs
  rs_responseNs :: NanoTime
  rs_correlationId :: string
  rs_modelVersion :: string
  rs_valid :: bool

definition PredictionResponse_default :: PredictionResponse where
  "PredictionResponse_default =
     \<lparr>rs_predictionId = [], rs_targetRoundId = [], rs_decision = Dec_Skip,
      rs_confidence = Fin 0, rs_probability = Fin 0, rs_targetMult = Fin 0,
      rs_responseTimeMs = 0, rs_responseNs = 0, rs_correlationId = [],
      rs_modelVersion = [], rs_valid = False\<rparr>"

record PredictionEvent =
  pe_predictionId :: string
  pe_targetRoundId :: string
  pe_gameId :: string
  pe_decision :: PredictionDecision
  pe_confidence :: double
  pe_probability :: double
  pe_entryMult :: double
  pe_targetMult :: double
  pe_createdAtMs :: TimestampMs
  pe_createdAtNs :: NanoTime
  pe_correlationId :: string
  pe_modelVersion :: string
  pe_delivered :: bool

record Outcome =
  oc_predictionId :: string
  oc_roundId :: string
  oc_result :: PredictionOutcome
  oc_actualMult :: double
  oc_targetMult :: double
  oc_resolvedAtMs :: TimestampMs
  oc_isWin :: bool

section \<open>Signals and the outbox\<close>

datatype SignalKind = Sig_Prediction | Sig_Outcome | Sig_Heartbeat | Sig_SystemAlert

fun SignalKind_int :: "SignalKind \<Rightarrow> nat" where
  "SignalKind_int Sig_Prediction = 0"
| "SignalKind_int Sig_Outcome = 1"
| "SignalKind_int Sig_Heartbeat = 2"
| "SignalKind_int Sig_SystemAlert = 3"

lemma SignalKind_int_inject [simp]: "SignalKind_int a = SignalKind_int b \<longleftrightarrow> a = b"
  by (cases a; cases b) simp_all

record Signal =
  sg_kind :: SignalKind
  sg_predictionId :: string
  sg_roundId :: string
  sg_text :: string
  sg_createdAtMs :: TimestampMs
  sg_correlationId :: string
  sg_urgent :: bool

datatype OutboxState =
  Ob_Pending | Ob_Claimed | Ob_InFlight | Ob_Delivered | Ob_Failed | Ob_DeadLetter

record OutboxItem =
  oi_id :: u64
  oi_state :: OutboxState
  oi_signal :: Signal
  oi_createdAtMs :: TimestampMs
  oi_claimedAtMs :: TimestampMs
  oi_deliveredAtMs :: TimestampMs
  oi_attempts :: int
  oi_lastError :: string
  oi_dedupeKey :: string

record ConnectionHealth =
  ch_connected :: bool
  ch_lastMessageMs :: TimestampMs
  ch_lastPongMs :: TimestampMs
  ch_reconnects :: u64
  ch_lastError :: string

definition HIGH_THRESHOLD :: double where
  "HIGH_THRESHOLD = Fin 2"

definition MOON_THRESHOLD :: double where
  "MOON_THRESHOLD = Fin 10"

definition isHigh :: "double \<Rightarrow> bool" where
  "isHigh m \<longleftrightarrow> dle HIGH_THRESHOLD m"

definition isMoon :: "double \<Rightarrow> bool" where
  "isMoon m \<longleftrightarrow> dle MOON_THRESHOLD m"

lemma isMoon_isHigh: "isMoon m \<Longrightarrow> isHigh m"
  unfolding isMoon_def isHigh_def MOON_THRESHOLD_def HIGH_THRESHOLD_def
  by (erule dle_trans [rotated]) simp

end
