(* ===== verification/Timing.thy ===== *)
theory Timing
  imports Types
begin

text \<open>
  \<open>include/timing\<close>: the crash curve between elapsed time and multiplier
  (\<open>timestamp.hpp\<close>), the stage latency histogram (\<open>latency_tracker.hpp\<close>) with its
  budget monitor (\<open>latency_budgets.hpp\<close>) and the clock-offset estimator
  (\<open>clock_offset.hpp\<close>).

  \<open>std::exp\<close> and \<open>std::log\<close> of the C mathematics library are function arguments
  (\<open>libm_exp\<close>, \<open>libm_log\<close>). A cast of a \<open>double\<close> to \<open>std::int64_t\<close> that is out of
  range is undefined in C++ and is \<^const>\<open>None\<close> here.
\<close>

section \<open>Library arithmetic the component uses\<close>

definition cast_int64 :: "double \<Rightarrow> int option" where
  "cast_int64 d =
     (case d of
        Fin a \<Rightarrow> (let i = trunc_rat a in if - (2 ^ 63) \<le> i \<and> i < 2 ^ 63 then Some i else None)
      | _ \<Rightarrow> None)"

definition dfloor :: "double \<Rightarrow> double" where
  "dfloor d = (case d of Fin a \<Rightarrow> Fin (of_int \<lfloor>a\<rfloor>) | _ \<Rightarrow> d)"

lemma dfloor_mono: "dle x y \<Longrightarrow> dle (dfloor x) (dfloor y)"
  by (cases x; cases y) (auto simp: dfloor_def floor_mono)

lemma dfloor_ge_int: "dle (Fin (of_int k)) x \<Longrightarrow> dle (Fin (of_int k)) (dfloor x)"
  by (cases x) (auto simp: dfloor_def le_floor_iff)

section \<open>The crash curve\<close>

definition six_e_minus_5 :: double where
  "six_e_minus_5 = rnd (6 / 100000)"

definition multiplierFromElapsed :: "(double \<Rightarrow> double) \<Rightarrow> int \<Rightarrow> double" where
  "multiplierFromElapsed libm_exp elapsedMs =
     (if elapsedMs \<le> 0 then Fin 1
      else let x = ddiv (dfloor (dmul (Fin 100) (libm_exp (dmul six_e_minus_5 (of_integer elapsedMs)))))
                        (Fin 100)
           in if dless x (Fin 1) then Fin 1 else x)"

definition elapsedFromMultiplier :: "(double \<Rightarrow> double) \<Rightarrow> double \<Rightarrow> int option" where
  "elapsedFromMultiplier libm_log multiplier =
     (if dle multiplier (Fin 1) then Some 0
      else cast_int64 (ddiv (libm_log multiplier) six_e_minus_5))"

text \<open>Multiplying or dividing by a positive constant is monotone after rounding.\<close>

lemma dmul_pos_mono: "0 < a \<Longrightarrow> dle x y \<Longrightarrow> dle (dmul (Fin a) x) (dmul (Fin a) y)"
  by (cases x; cases y) (auto simp: inf_of_def intro!: rnd_mono)

lemma ddiv_pos_mono: "0 < a \<Longrightarrow> dle x y \<Longrightarrow> dle (ddiv x (Fin a)) (ddiv y (Fin a))"
  by (cases x; cases y) (auto simp: inf_of_def divide_right_mono intro!: rnd_mono)

lemma of_integer_mono: "i \<le> j \<Longrightarrow> dle (of_integer i) (of_integer j)"
  by (simp add: of_integer_def rnd_mono)

lemma six_e_minus_5_pos: "\<exists>q. six_e_minus_5 = Fin q \<and> 0 < q"
proof -
  have b: "(2 :: rat) powi (- 15) \<le> 6 / 100000" "6 / 100000 < (2 :: rat) powi (- 15 + 1)"
    by (simp_all add: power_int_def field_simps)
  then show ?thesis unfolding six_e_minus_5_def by (rule rnd_binade) auto
qed

text \<open>
  The part of the curve for positive times, before the final clamp at \<open>1.0\<close>.
\<close>

lemma curve_mono:
  assumes mono: "\<And>x y. dle x y \<Longrightarrow> dle (libm_exp x) (libm_exp y)" and le: "i \<le> j"
  shows "dle (ddiv (dfloor (dmul (Fin 100) (libm_exp (dmul six_e_minus_5 (of_integer i))))) (Fin 100))
             (ddiv (dfloor (dmul (Fin 100) (libm_exp (dmul six_e_minus_5 (of_integer j))))) (Fin 100))"
proof -
  obtain q where q: "six_e_minus_5 = Fin q" "0 < q" using six_e_minus_5_pos by blast
  show ?thesis unfolding q(1)
    by (intro ddiv_pos_mono dfloor_mono dmul_pos_mono mono of_integer_mono q le) simp_all
qed

lemma multiplier_clamp:
  assumes "x \<noteq> NaN"
  shows "dle (Fin 1) (if dless x (Fin 1) then Fin 1 else x)"
  using assms by (cases x) auto

lemma clamp_mono: "dle x y \<Longrightarrow>
    dle (if dless x (Fin 1) then Fin 1 else x) (if dless y (Fin 1) then Fin 1 else y)"
  by (cases x; cases y) auto

lemma dle_not_nan: "dle x y \<Longrightarrow> x \<noteq> NaN \<and> y \<noteq> NaN"
  by (cases x; cases y) auto

text \<open>For a monotone \<open>exp\<close> that is never NaN, the displayed multiplier is at least
  1.00 at every time and never decreases while the round runs, whatever rounding the
  intermediate products and the floor do.\<close>

theorem multiplier_curve:
  assumes mono: "\<And>x y. dle x y \<Longrightarrow> dle (libm_exp x) (libm_exp y)"
    and le: "i \<le> j"
  shows "dle (Fin 1) (multiplierFromElapsed libm_exp i) \<and>
    dle (multiplierFromElapsed libm_exp i) (multiplierFromElapsed libm_exp j)"
proof -
  let ?c = "\<lambda>k. ddiv (dfloor (dmul (Fin 100) (libm_exp (dmul six_e_minus_5 (of_integer k))))) (Fin 100)"
  have c: "?c k \<noteq> NaN" for k
    using curve_mono [where libm_exp = libm_exp, OF mono order.refl, of k] dle_not_nan by blast
  have one: "dle (Fin 1) (multiplierFromElapsed libm_exp i)" for i
    unfolding multiplierFromElapsed_def Let_def
    using multiplier_clamp [OF c [of i]] by simp
  have "dle (multiplierFromElapsed libm_exp i) (multiplierFromElapsed libm_exp j)"
  proof (cases "i \<le> 0")
    case True
    then have "multiplierFromElapsed libm_exp i = Fin 1" by (simp add: multiplierFromElapsed_def)
    with one [of j] show ?thesis by simp
  next
    case False
    then show ?thesis using clamp_mono [OF curve_mono [where libm_exp = libm_exp, OF mono le]] le
      by (simp add: multiplierFromElapsed_def Let_def)
  qed
  with one [of i] show ?thesis by blast
qed

theorem multiplier_curve_witness:
  "dle (Fin 1) (multiplierFromElapsed (dadd (Fin 1)) 500) \<and>
   dle (multiplierFromElapsed (dadd (Fin 1)) 500) (multiplierFromElapsed (dadd (Fin 1)) 12000)"
proof (rule multiplier_curve)
  show "dle (dadd (Fin 1) x) (dadd (Fin 1) y)" if "dle x y" for x y
    using that by (cases x; cases y) (auto intro: rnd_mono)
qed simp

section \<open>Latency tracker\<close>

datatype Stage =
    St_Parse | St_State | St_Ipc | St_Queue | St_Prediction | St_Validation | St_Outbox | St_Total
  | St_COUNT

text \<open>
  The atomic arrays are total functions of the stage; \<open>sum_\<close> is an atomic signed
  counter, whose \<open>fetch_add\<close> wraps.
\<close>

record LatencyTracker =
  lt_count :: "Stage \<Rightarrow> u64"
  lt_sum :: "Stage \<Rightarrow> u64"
  lt_max :: "Stage \<Rightarrow> int"
  lt_buckets :: "Stage \<Rightarrow> nat \<Rightarrow> u64"

record Stats =
  st_count :: u64
  st_sumUs :: int
  st_maxUs :: int
  st_avgUs :: double

definition NUM_BUCKETS :: nat where
  "NUM_BUCKETS = 16"

definition bucketIndex :: "int \<Rightarrow> nat" where
  "bucketIndex us =
     (if us < 10 then 0
      else if us < 25 then 1
      else if us < 50 then 2
      else if us < 100 then 3
      else if us < 200 then 4
      else if us < 500 then 5
      else if us < 1000 then 6
      else if us < 2000 then 7
      else if us < 5000 then 8
      else if us < 10000 then 9
      else if us < 25000 then 10
      else if us < 50000 then 11
      else if us < 100000 then 12
      else if us < 250000 then 13
      else if us < 1000000 then 14
      else 15)"

definition lt_record :: "Stage \<Rightarrow> int \<Rightarrow> LatencyTracker \<Rightarrow> LatencyTracker" where
  "lt_record s micros t =
     (if s = St_COUNT then t
      else t\<lparr>lt_count := (lt_count t)(s := lt_count t s + 1),
             lt_sum := (lt_sum t)(s := lt_sum t s + word_of_int micros),
             lt_max := (lt_max t)(s := if micros > lt_max t s then micros else lt_max t s),
             lt_buckets := (lt_buckets t)
               (s := (lt_buckets t s)(bucketIndex micros := lt_buckets t s (bucketIndex micros) + 1))\<rparr>)"

definition lt_stats :: "Stage \<Rightarrow> LatencyTracker \<Rightarrow> Stats" where
  "lt_stats s t =
     \<lparr>st_count = lt_count t s, st_sumUs = sint (lt_sum t s), st_maxUs = lt_max t s,
      st_avgUs = (if lt_count t s > 0
                  then ddiv (of_integer (sint (lt_sum t s))) (of_integer (uint (lt_count t s)))
                  else Fin 0)\<rparr>"

definition lt_reset :: "LatencyTracker \<Rightarrow> LatencyTracker" where
  "lt_reset t = \<lparr>lt_count = \<lambda>_. 0, lt_sum = \<lambda>_. 0, lt_max = \<lambda>_. 0, lt_buckets = \<lambda>_ _. 0\<rparr>"

lemma bucketIndex_bound: "bucketIndex us < NUM_BUCKETS"
  by (simp add: bucketIndex_def NUM_BUCKETS_def)

lemma bucketIndex_mono: "us \<le> us' \<Longrightarrow> bucketIndex us \<le> bucketIndex us'"
  by (simp add: bucketIndex_def)

definition lt_inv :: "LatencyTracker \<Rightarrow> bool" where
  "lt_inv t \<longleftrightarrow> (\<forall>s. lt_count t s = (\<Sum>b<NUM_BUCKETS. lt_buckets t s b))"

lemma lt_inv_reset: "lt_inv (lt_reset t)"
  by (simp add: lt_inv_def lt_reset_def)

lemma sum_bump:
  assumes "k < n"
  shows "(\<Sum>b<n. ((f :: nat \<Rightarrow> u64)(k := f k + 1)) b) = (\<Sum>b<n. f b) + 1"
proof -
  have "(\<Sum>b<n. (f(k := f k + 1)) b) = (f(k := f k + 1)) k + (\<Sum>b\<in>{..<n} - {k}. (f(k := f k + 1)) b)"
    using assms by (intro sum.remove) auto
  moreover have "(\<Sum>b\<in>{..<n} - {k}. (f(k := f k + 1)) b) = (\<Sum>b\<in>{..<n} - {k}. f b)"
    by (intro sum.cong) auto
  moreover have "(\<Sum>b<n. f b) = f k + (\<Sum>b\<in>{..<n} - {k}. f b)"
    using assms by (intro sum.remove) auto
  ultimately show ?thesis by simp
qed

lemma lt_inv_record: "lt_inv t \<Longrightarrow> lt_inv (lt_record s us t)"
  using bucketIndex_bound [of us] sum_bump [of "bucketIndex us" NUM_BUCKETS]
  by (auto simp: lt_inv_def lt_record_def)

lemma lt_max_fold: "lt_max (fold (\<lambda>us. lt_record s us) xs t) s \<ge> lt_max t s"
proof (induction xs arbitrary: t)
  case (Cons x xs)
  have "lt_max t s \<le> lt_max (lt_record s x t) s" by (simp add: lt_record_def)
  also have "\<dots> \<le> lt_max (fold (\<lambda>us. lt_record s us) (x # xs) t) s" using Cons.IH by simp
  finally show ?case .
qed simp

lemma lt_record_trace:
  assumes "lt_inv t" and "s \<noteq> St_COUNT"
  shows "lt_inv (fold (lt_record s) xs t) \<and>
    lt_count (fold (lt_record s) xs t) s = lt_count t s + of_nat (length xs) \<and>
    (\<forall>x\<in>set xs. x \<le> lt_max (fold (lt_record s) xs t) s)"
  using assms
proof (induction xs arbitrary: t)
  case (Cons x xs)
  have "x \<le> lt_max (lt_record s x t) s" using Cons.prems by (simp add: lt_record_def)
  moreover have "lt_count (lt_record s x t) s = lt_count t s + 1"
    using Cons.prems by (simp add: lt_record_def)
  moreover note lt_max_fold [where s = s and xs = xs and t = "lt_record s x t"]
    Cons.IH [of "lt_record s x t"] lt_inv_record [of t s x]
  ultimately show ?case using Cons.prems by force
qed simp

text \<open>After any sequence of samples of one stage the histogram accounts for every
  sample (the bucket counts add up to the sample count, which grew by the number of
  samples) and the reported maximum is an upper bound of all of them.\<close>

theorem latency_histogram_complete:
  assumes "s \<noteq> St_COUNT"
  shows "let t = fold (lt_record s) xs (lt_reset t0)
         in lt_count t s = of_nat (length xs) \<and>
            lt_count t s = (\<Sum>b<NUM_BUCKETS. lt_buckets t s b) \<and>
            (\<forall>x\<in>set xs. x \<le> st_maxUs (lt_stats s t))"
proof -
  let ?t = "fold (lt_record s) xs (lt_reset t0)"
  have "lt_inv ?t" "lt_count ?t s = lt_count (lt_reset t0) s + of_nat (length xs)"
    "\<forall>x\<in>set xs. x \<le> lt_max ?t s"
    using lt_record_trace [OF lt_inv_reset assms, of xs t0] by blast+
  moreover have "lt_count (lt_reset t0) s = 0" by (simp add: lt_reset_def)
  ultimately show ?thesis by (simp add: Let_def lt_stats_def) (simp add: lt_inv_def)
qed

theorem latency_histogram_complete_witness:
  "let t = fold (lt_record St_Parse) [7, 30, 12] (lt_reset (lt_reset undefined))
   in lt_count t St_Parse = of_nat (length [7, 30, 12 :: int]) \<and>
      lt_count t St_Parse = (\<Sum>b<NUM_BUCKETS. lt_buckets t St_Parse b) \<and>
      (\<forall>x\<in>set [7, 30, 12]. x \<le> st_maxUs (lt_stats St_Parse t))"
  by (rule latency_histogram_complete) simp

section \<open>Clock offset\<close>

record ClockOffset =
  co_offset_ms :: int
  co_observations :: u64
  co_samples :: "int list"

definition ClockOffset_new :: ClockOffset where
  "ClockOffset_new = \<lparr>co_offset_ms = 0, co_observations = 0, co_samples = []\<rparr>"

definition authoritativeNowMs :: "TimestampMs \<Rightarrow> ClockOffset \<Rightarrow> TimestampMs" where
  "authoritativeNowMs now c = now + co_offset_ms c"

definition ema_step :: "int \<Rightarrow> int \<Rightarrow> double" where
  "ema_step prev med =
     dadd (dmul (rnd (85 / 100)) (of_integer prev)) (dmul (rnd (15 / 100)) (of_integer med))"

definition co_push :: "int list \<Rightarrow> int \<Rightarrow> int list" where
  "co_push samples sample =
     (let pushed = samples @ [sample] in if length pushed > 64 then tl pushed else pushed)"

definition observeServerTime ::
  "TimestampMs \<Rightarrow> TimestampMs \<Rightarrow> TimestampMs \<Rightarrow> ClockOffset \<Rightarrow> ClockOffset option" where
  "observeServerTime now serverMs localReceiveMs c =
     (let localReceiveMs = (if localReceiveMs \<le> 0 then now else localReceiveMs);
          sample = serverMs - localReceiveMs;
          samples = co_push (co_samples c) sample;
          sorted = sort samples;
          med = sorted ! (length sorted div 2)
      in case cast_int64 (ema_step (co_offset_ms c) med) of
           None \<Rightarrow> None
         | Some next_ms \<Rightarrow>
             Some (c\<lparr>co_samples := samples, co_offset_ms := next_ms,
                     co_observations := co_observations c + 1\<rparr>))"

definition skewAbsMs :: "ClockOffset \<Rightarrow> int" where
  "skewAbsMs c = \<bar>co_offset_ms c\<bar>"

definition skewAlarm :: "int \<Rightarrow> ClockOffset \<Rightarrow> bool" where
  "skewAlarm thresholdMs c \<longleftrightarrow> skewAbsMs c > thresholdMs"

text \<open>
  A scaled product stays below a dyadic bound: \<open>k\<close>/\<open>2^27\<close> times an integer up to
  \<open>2^25\<close> has at most 52 bits.
\<close>

lemma dyadic_27: "\<bar>k\<bar> \<le> 2 ^ 27 \<Longrightarrow> \<bar>b\<bar> \<le> 2 ^ 25 \<Longrightarrow> representable (of_int k / 2 ^ 27 * of_int b)"
proof -
  assume "\<bar>k\<bar> \<le> 2 ^ 27" "\<bar>b\<bar> \<le> 2 ^ 25"
  then have "\<bar>k * b\<bar> \<le> 2 ^ 27 * 2 ^ 25" unfolding abs_mult by (intro mult_mono) auto
  then have "representable (of_int (k * b) * 2 powi (- 27))" by (intro representable_dyadic) auto
  then show ?thesis by (simp add: power_int_def field_simps)
qed

lemma dmul_coeff_bound:
  assumes q: "c = Fin q" "0 < q" "q \<le> of_int k / 2 ^ 27" and k: "k \<le> 2 ^ 27"
    and b: "\<bar>i\<bar> \<le> b" "b \<le> 2 ^ 25"
  shows "\<exists>r. dmul c (of_integer i) = Fin r \<and> \<bar>r\<bar> \<le> of_int k / 2 ^ 27 * of_int b"
proof -
  let ?m = "of_int k / 2 ^ 27 * of_int b :: rat"
  have "representable (of_int i)" using b by (intro representable_int) auto
  then have i: "of_integer i = Fin (of_int i)" by (simp add: of_integer_def representable_def)
  have "0 < (of_int k :: rat) / 2 ^ 27" using q(2,3) by linarith
  then have k0: "0 < k" by (simp add: zero_less_divide_iff)
  have rep: "representable ?m" using k k0 b by (intro dyadic_27) auto
  have ib: "\<bar>of_int i\<bar> \<le> (of_int b :: rat)" using b(1) by (metis of_int_abs of_int_le_iff)
  have "\<bar>q * of_int i\<bar> \<le> ?m" unfolding abs_mult using q ib by (intro mult_mono) auto
  then have "q * of_int i \<le> ?m" "- ?m \<le> q * of_int i" by linarith+
  then have "dle (rnd (q * of_int i)) (Fin ?m)" "dle (Fin (- ?m)) (rnd (q * of_int i))"
    using rep rnd_le_representable representable_le_rnd representable_neg by blast+
  then obtain r where "rnd (q * of_int i) = Fin r" "- ?m \<le> r" "r \<le> ?m" using dle_finD by blast
  then show ?thesis by (auto simp: q(1) i intro: abs_leI)
qed

lemma coeff_bound:
  assumes "1 / 8 \<le> x" "x \<le> of_int k / 2 ^ 27" "k \<le> 2 ^ 27"
  shows "\<exists>q. rnd x = Fin q \<and> 0 < q \<and> q \<le> of_int k / 2 ^ 27"
proof -
  have "0 \<le> k" using order_trans [OF assms(1,2)] by (simp add: field_simps)
  then have "representable (of_int k / 2 ^ 27)" using dyadic_27 [of k 1] assms(3) by simp
  moreover have "representable (1 / 8)" using representable_dyadic [of 1 "- 3"] by (simp add: power_int_def power_divide)
  ultimately have "dle (Fin (1 / 8)) (rnd x)" "dle (rnd x) (Fin (of_int k / 2 ^ 27))"
    using assms representable_le_rnd rnd_le_representable by blast+
  from dle_finD [OF this] show ?thesis by auto
qed

lemma ema_step_bound:
  assumes "\<bar>prev\<bar> \<le> b" "\<bar>med\<bar> \<le> b" "b \<le> 2 ^ 25"
  shows "\<exists>r. ema_step prev med = Fin r \<and> \<bar>r\<bar> \<le> of_int b + 1 / 2"
proof -
  have c85: "\<exists>q. rnd (85 / 100) = Fin q \<and> 0 < q \<and> q \<le> of_int 114085069 / 2 ^ 27"
    by (rule coeff_bound) simp_all
  have c15: "\<exists>q. rnd (15 / 100) = Fin q \<and> 0 < q \<and> q \<le> of_int 20132660 / 2 ^ 27"
    by (rule coeff_bound) simp_all
  obtain r1 where r1: "dmul (rnd (85 / 100)) (of_integer prev) = Fin r1"
    "\<bar>r1\<bar> \<le> of_int 114085069 / 2 ^ 27 * of_int b"
    using c85 dmul_coeff_bound [OF _ _ _ _ assms(1,3), of _ _ 114085069] by force
  obtain r2 where r2: "dmul (rnd (15 / 100)) (of_integer med) = Fin r2"
    "\<bar>r2\<bar> \<le> of_int 20132660 / 2 ^ 27 * of_int b"
    using c15 dmul_coeff_bound [OF _ _ _ _ assms(2,3), of _ _ 20132660] by force
  have "of_int b \<le> (of_int (2 ^ 25) :: rat)" using assms(3) by (simp only: of_int_le_iff)
  then have "\<bar>r1 + r2\<bar> \<le> of_int b + 1 / 2"
    using r1(2) r2(2) abs_triangle_ineq [of r1 r2] by (simp add: field_simps)
  moreover have "representable (of_int b + 1 / 2)"
    using representable_dyadic [of "2 * b + 1" "- 1"] assms by (simp add: power_int_def field_simps)
  ultimately have "dle (rnd (r1 + r2)) (Fin (of_int b + 1 / 2))" "dle (Fin (- (of_int b + 1 / 2))) (rnd (r1 + r2))"
    using rnd_le_representable [of "of_int b + 1 / 2" "r1 + r2"]
      representable_le_rnd [of "- (of_int b + 1 / 2)" "r1 + r2"] representable_neg [of "of_int b + 1 / 2"]
    by (auto simp: abs_le_iff)
  then show ?thesis using dle_finD [of "- (of_int b + 1 / 2)" "rnd (r1 + r2)" "of_int b + 1 / 2"]
    unfolding ema_step_def r1(1) r2(1) by (auto simp: abs_le_iff)
qed

lemma cast_int64_near:
  assumes "\<bar>r\<bar> \<le> of_int b + 1 / 2" and "0 \<le> b" "b \<le> 2 ^ 25"
  shows "\<exists>i. cast_int64 (Fin r) = Some i \<and> \<bar>i\<bar> \<le> b"
proof -
  have f: "\<lfloor>x\<rfloor> \<le> b" if "x \<le> of_int b + 1 / 2" for x :: rat
    using that by (simp add: floor_le_iff)
  have "0 \<le> \<lfloor>- r\<rfloor>" if "r < 0" using that by simp
  moreover have "0 \<le> \<lfloor>r\<rfloor>" if "\<not> r < 0" using that by simp
  ultimately have "\<bar>trunc_rat r\<bar> \<le> b"
    using f [of r] f [of "- r"] assms by (cases "r < 0") (simp_all add: trunc_rat_def abs_le_iff)
  with assms show ?thesis by (auto simp: cast_int64_def Let_def)
qed

lemma co_push_props:
  "set (co_push xs x) \<subseteq> insert x (set xs)" "0 < length (co_push xs x)"
  "length xs \<le> 64 \<Longrightarrow> length (co_push xs x) \<le> 64"
  by (cases xs; simp add: co_push_def Let_def; blast)+

lemma median_mem: "0 < length xs \<Longrightarrow> sort xs ! (length xs div 2) \<in> set (xs :: int list)"
  using nth_mem [of "length xs div 2" "sort xs"] by simp

definition co_within :: "int \<Rightarrow> ClockOffset \<Rightarrow> bool" where
  "co_within b c \<longleftrightarrow> \<bar>co_offset_ms c\<bar> \<le> b \<and> (\<forall>s\<in>set (co_samples c). \<bar>s\<bar> \<le> b) \<and> length (co_samples c) \<le> 64"

text \<open>The clock-offset estimator is stable: while every sample lies within \<open>b\<close>
  milliseconds (up to \<open>2^25\<close>, more than nine hours) of the local clock, each observation is
  defined (no out-of-range conversion), the estimate stays within \<open>b\<close> despite the
  floating-point moving average, and the window never holds more than 64 samples.\<close>

theorem clock_offset_stable:
  assumes "co_within b c" and "0 < localMs" and "\<bar>serverMs - localMs\<bar> \<le> b" and "b \<le> 2 ^ 25"
  shows "\<exists>c'. observeServerTime now serverMs localMs c = Some c' \<and> co_within b c' \<and>
    co_observations c' = co_observations c + 1 \<and>
    (skewAlarm 2000 c' \<longrightarrow> 2000 < b)"
proof -
  define s where "s = co_push (co_samples c) (serverMs - localMs)"
  let ?m = "sort s ! (length s div 2)"
  have s: "set s \<subseteq> insert (serverMs - localMs) (set (co_samples c))" "0 < length s" "length s \<le> 64"
    using co_push_props [of "co_samples c" "serverMs - localMs"] assms(1)
    by (auto simp: s_def co_within_def)
  have w: "\<forall>x\<in>set s. \<bar>x\<bar> \<le> b" "\<bar>co_offset_ms c\<bar> \<le> b" using s(1) assms by (auto simp: co_within_def)
  then have m: "\<bar>?m\<bar> \<le> b" using median_mem [OF s(2)] by blast
  obtain r where r: "ema_step (co_offset_ms c) ?m = Fin r" "\<bar>r\<bar> \<le> of_int b + 1 / 2"
    using ema_step_bound [OF w(2) m assms(4)] by blast
  have "0 \<le> b" using assms(3) by linarith
  with cast_int64_near r(2) assms(4) obtain i where i: "cast_int64 (Fin r) = Some i" "\<bar>i\<bar> \<le> b" by blast
  have "observeServerTime now serverMs localMs c =
      Some (c\<lparr>co_samples := s, co_offset_ms := i, co_observations := co_observations c + 1\<rparr>)"
    using assms(2) r(1) i(1) by (simp add: observeServerTime_def Let_def flip: s_def)
  moreover have "co_within b (c\<lparr>co_samples := s, co_offset_ms := i, co_observations := co_observations c + 1\<rparr>)"
    using w s i(2) by (simp add: co_within_def)
  ultimately show ?thesis using i(2) by (auto simp: skewAlarm_def skewAbsMs_def)
qed

theorem clock_offset_stable_witness:
  "\<exists>c'. observeServerTime 0 1500 1000 ClockOffset_new = Some c' \<and> co_within 500 c' \<and>
    co_observations c' = co_observations ClockOffset_new + 1 \<and> (skewAlarm 2000 c' \<longrightarrow> 2000 < (500 :: int))"
  by (rule clock_offset_stable) (simp_all add: co_within_def ClockOffset_new_def)

end
