(* ===== verification/Wire.thy ===== *)
theory Wire
  imports Timing "HOL-Library.Signed_Division"
begin

text \<open>
  The BC.Game wire protocol of \<open>include/ingestion/socketio\<close>: varints, the protobuf subset,
  the binary Socket.IO packets, the Engine.IO control frames and the frame classifier.
  Decoders are functions of the received bytes; an early \<open>return\<close> or \<open>break\<close> is a
  branch. Lengths read from the wire are 64-bit words, and the bound checks are done on
  words as in the code, so their possible wrap-around is part of the model.
\<close>

section \<open>Bytes and text\<close>

definition to_text :: "bytes \<Rightarrow> string" where
  "to_text bs = map (\<lambda>b. char_of (unat b)) bs"

definition of_text :: "string \<Rightarrow> bytes" where
  "of_text s = map (\<lambda>c. word_of_nat (of_char c)) s"

lemma to_text_of_text [simp]: "to_text (of_text s) = s"
proof -
  have "char_of (unat (word_of_nat (of_char c) :: u8)) = c" for c :: char
    by (simp add: unat_of_nat)
  then show ?thesis by (simp add: to_text_def of_text_def o_def)
qed

lemma length_text [simp]: "length (to_text bs) = length bs" "length (of_text s) = length s"
  by (simp_all add: to_text_def of_text_def)

section \<open>Varints\<close>

text \<open>\<open>readVarint\<close>: the result is the success flag, the advanced offset and the value.\<close>

function readVarint_loop :: "bytes \<Rightarrow> nat \<Rightarrow> nat \<Rightarrow> u64 \<Rightarrow> bool \<times> nat \<times> u64" where
  "readVarint_loop buf offset shift value =
     (if offset < length buf \<and> shift < 56 then
        let b = buf ! offset;
            value' = value OR push_bit shift (ucast (b AND 0x7f))
        in if b AND 0x80 = 0 then (True, offset + 1, value')
           else readVarint_loop buf (offset + 1) (shift + 7) value'
      else (False, offset, value))"
  by pat_completeness auto
termination
  by (relation "measure (\<lambda>(buf, offset, shift, value). length buf - offset)") auto

declare readVarint_loop.simps [simp del]

definition readVarint :: "bytes \<Rightarrow> nat \<Rightarrow> bool \<times> nat \<times> u64" where
  "readVarint buf offset = readVarint_loop buf offset 0 0"

lemma drop_bit_7_less: "0x7f < n \<Longrightarrow> unat (drop_bit 7 (n :: u64)) < unat n"
proof -
  assume "0x7f < n"
  then have "0 < unat n" by (simp add: word_less_nat_alt)
  then show ?thesis by (subst unat_drop_bit_eq) (simp only: drop_bit_eq_div, simp)
qed

function writeVarint :: "u64 \<Rightarrow> bytes" where
  "writeVarint n =
     (if n > 0x7f then ucast ((n AND 0x7f) OR 0x80) # writeVarint (drop_bit 7 n)
      else [ucast n])"
  by pat_completeness auto
termination
  by (relation "measure unat") (auto simp: drop_bit_7_less)

declare writeVarint.simps [simp del]

lemma readVarint_loop_progress:
  "readVarint_loop buf offset shift v = (ok, offset', v') \<Longrightarrow>
   offset \<le> offset' \<and> (ok \<longrightarrow> offset < offset' \<and> offset' \<le> length buf)"
proof (induction buf offset shift v rule: readVarint_loop.induct)
  case (1 buf offset shift v)
  then show ?case
    by (subst (asm) (2) readVarint_loop.simps) (fastforce simp: Let_def split: if_splits)
qed

lemma readVarint_progress:
  "readVarint buf offset = (ok, offset', v) \<Longrightarrow>
   offset \<le> offset' \<and> (ok \<longrightarrow> offset < offset' \<and> offset' \<le> length buf)"
  unfolding readVarint_def by (rule readVarint_loop_progress)

text \<open>Seven groups of seven bits: a decoded value is below \<open>2^56\<close>.\<close>

lemma push_bit_or_bound:
  assumes "unat (v :: u64) < 2 ^ shift" and "shift \<le> 49"
  shows "unat (v OR push_bit shift (ucast ((b :: u8) AND 0x7f))) < 2 ^ (shift + 7)"
proof -
  let ?p = "push_bit shift (ucast (b AND 0x7f)) :: u64"
  have "unat v < 2 ^ (shift + 7)" using assms(1) by (rule order.strict_trans2) (simp add: power_add)
  then have "take_bit (shift + 7) v = v" by (simp only: unat_less_exp_iff)
  moreover have "take_bit (shift + 7) ?p = ?p"
    by (rule bit_word_eqI) (auto simp: bit_simps)
  ultimately show ?thesis by (simp only: unat_less_exp_iff take_bit_or)
qed

lemma readVarint_loop_bound:
  "readVarint_loop buf offset shift v = (ok, offset', v') \<Longrightarrow> 7 dvd shift \<Longrightarrow> shift \<le> 56 \<Longrightarrow>
   unat v < 2 ^ shift \<Longrightarrow> unat v' < 2 ^ 56"
proof (induction buf offset shift v rule: readVarint_loop.induct)
  case (1 buf offset shift v)
  let ?b = "buf ! offset"
  let ?v = "v OR push_bit shift (ucast (?b AND 0x7f))"
  show ?case
  proof (cases "offset < length buf \<and> shift < 56")
    case False
    with 1 have "v' = v" by (subst (asm) (2) readVarint_loop.simps) simp
    moreover have "(2 :: nat) ^ shift \<le> 2 ^ 56" using "1.prems" by (intro power_increasing) auto
    ultimately show ?thesis using "1.prems"(4) by (metis order.strict_trans2)
  next
    case True
    with "1.prems"(2) have s: "shift \<le> 49" by presburger
    have b: "unat ?v < 2 ^ (shift + 7)" using "1.prems"(4) s by (rule push_bit_or_bound)
    show ?thesis
    proof (cases "?b AND 0x80 = 0")
      case t: True
      with True "1.prems"(1) have "v' = ?v" by (subst (asm) readVarint_loop.simps) (simp add: Let_def)
      moreover have "(2 :: nat) ^ (shift + 7) \<le> 2 ^ 56" using s by (intro power_increasing) auto
      ultimately show ?thesis using b by (metis order.strict_trans2)
    next
      case f: False
      with True "1.prems"(1) have "readVarint_loop buf (offset + 1) (shift + 7) ?v = (ok, offset', v')"
        by (subst (asm) readVarint_loop.simps) (simp add: Let_def)
      from "1.IH" [OF True refl refl f this] "1.prems"(2) s b show ?thesis by simp
    qed
  qed
qed

lemma readVarint_bound: "readVarint buf offset = (ok, offset', v) \<Longrightarrow> unat v < 2 ^ 56"
  unfolding readVarint_def by (erule readVarint_loop_bound) auto

lemma writeVarint_length_bound: "unat n < 2 ^ (7 * k) \<Longrightarrow> 0 < k \<Longrightarrow> length (writeVarint n) \<le> k"
proof (induction n arbitrary: k rule: writeVarint.induct)
  case (1 n)
  show ?case
  proof (cases "n > 0x7f")
    case True
    then have "(0x7f :: u64) < n" .
    then have "0x7f < unat n" by (simp add: word_less_nat_alt)
    with 1(2) have "2 ^ 7 < (2 :: nat) ^ (7 * k)" by (intro le_less_trans [OF _ 1(2)]) simp
    then have "1 < k" by (subst (asm) power_strict_increasing_iff) simp_all
    then obtain j where j: "k = Suc j" "0 < j" by (cases k) auto
    have "unat (drop_bit 7 n) = unat n div 2 ^ 7" by (simp add: unat_drop_bit_eq) (simp add: drop_bit_eq_div)
    also have "\<dots> < 2 ^ (7 * j)" using 1(2) j by (simp add: power_add less_mult_imp_div_less mult.commute)
    finally have "length (writeVarint (drop_bit 7 n)) \<le> j" using 1(1) [OF True] j by simp
    then show ?thesis using True j by (simp add: writeVarint.simps [of n])
  next
    case False
    with 1(3) show ?thesis by (simp add: writeVarint.simps [of n])
  qed
qed

lemma writeVarint_length: "length (writeVarint n) \<le> 10"
proof (rule writeVarint_length_bound)
  have "unat n < 2 ^ 64" using unsigned_less [of n] by simp
  also have "\<dots> \<le> 2 ^ (7 * 10)" by (rule power_increasing) simp_all
  finally show "unat n < 2 ^ (7 * 10)" .
qed simp

text \<open>Reading back what \<open>writeVarint\<close> wrote, from any position of a buffer.\<close>

lemma varint_byte:
  "(ucast ((n AND 0x7f) OR 0x80 :: u64) :: u8) AND 0x80 \<noteq> 0"
  "ucast ((ucast ((n AND 0x7f) OR 0x80 :: u64) :: u8) AND 0x7f) = (n AND 0x7f :: u64)"
proof -
  have "bit ((ucast ((n AND 0x7f) OR 0x80 :: u64) :: u8) AND 0x80) 7"
    by (simp add: bit_simps)
  then show "(ucast ((n AND 0x7f) OR 0x80 :: u64) :: u8) AND 0x80 \<noteq> 0"
    by (metis bit_0_eq bot_apply bot_bool_def)
  show "ucast ((ucast ((n AND 0x7f) OR 0x80 :: u64) :: u8) AND 0x7f) = (n AND 0x7f :: u64)"
    by (rule bit_word_eqI) (auto simp: bit_simps)
qed

lemma varint_last_byte:
  assumes "\<not> (n :: u64) > 0x7f"
  shows "(ucast n :: u8) AND 0x80 = 0" and "ucast ((ucast n :: u8) AND 0x7f) = n"
proof -
  have "unat n < 2 ^ 7" using assms by (simp add: word_less_nat_alt)
  then have t: "take_bit 7 n = n" by (simp only: unat_less_exp_iff)
  have nb: "bit n i \<Longrightarrow> i < 7" for i
    by (subst (asm) t [symmetric]) (simp add: bit_take_bit_iff)
  show "(ucast n :: u8) AND 0x80 = 0"
    by (rule bit_word_eqI) (auto simp: bit_simps dest: nb)
  show "ucast ((ucast n :: u8) AND 0x7f) = n"
    by (rule bit_word_eqI) (auto simp: bit_simps dest: nb)
qed

lemma varint_split: "(n AND 0x7f) OR push_bit 7 (drop_bit 7 n) = (n :: u64)"
proof (rule bit_word_eqI)
  fix i
  show "bit ((n AND 0x7f) OR push_bit 7 (drop_bit 7 n)) i = bit n i" if "i < LENGTH(64)"
    using that by (cases "i < 7") (auto simp: bit_simps)
qed

lemma drop_bit_7_bound: "unat (n :: u64) < 2 ^ (k + 7) \<longleftrightarrow> unat (drop_bit 7 n) < 2 ^ k"
  by (subst unat_drop_bit_eq)
    (simp only: drop_bit_eq_div, simp add: power_add less_mult_imp_div_less div_less_iff_less_mult)

lemma readVarint_loop_write:
  "buf = pre @ writeVarint n @ post \<Longrightarrow> shift < 56 \<Longrightarrow> unat n < 2 ^ (56 - shift) \<Longrightarrow>
   readVarint_loop buf (length pre) shift v =
     (True, length pre + length (writeVarint n), v OR push_bit shift n)"
proof (induction n arbitrary: pre shift v rule: writeVarint.induct)
  case (1 n)
  show ?case
  proof (cases "n > 0x7f")
    case False
    then have w: "writeVarint n = [ucast n]" by (simp add: writeVarint.simps [of n])
    with "1.prems" varint_last_byte [OF False] show ?thesis
      by (subst readVarint_loop.simps) (simp add: Let_def)
  next
    case True
    let ?b = "ucast ((n AND 0x7f) OR 0x80) :: u8"
    have w: "writeVarint n = ?b # writeVarint (drop_bit 7 n)"
      using True by (simp add: writeVarint.simps [of n])
    have "127 < unat n" using True by (simp add: word_less_nat_alt)
    moreover have "(2 :: nat) ^ (56 - shift) \<le> 2 ^ 7" if "56 - shift \<le> 7"
      using that by (intro power_increasing) auto
    ultimately have s: "shift + 7 < 56" using "1.prems"(3) by (cases "56 - shift \<le> 7") auto
    have "unat n < 2 ^ ((56 - (shift + 7)) + 7)" using "1.prems"(3) s by simp
    then have bnd: "unat (drop_bit 7 n) < 2 ^ (56 - (shift + 7))" by (simp only: drop_bit_7_bound)
    have nth: "buf ! length pre = ?b" "length pre < length buf" using "1.prems"(1) w by simp_all
    let ?v = "v OR push_bit shift (n AND 0x7f)"
    have "readVarint_loop buf (length pre) shift v = readVarint_loop buf (length (pre @ [?b])) (shift + 7) ?v"
      using nth "1.prems"(2) varint_byte [of n]
      by (subst readVarint_loop.simps) (simp add: Let_def)
    also have "\<dots> = (True, length (pre @ [?b]) + length (writeVarint (drop_bit 7 n)),
        ?v OR push_bit (shift + 7) (drop_bit 7 n))"
      using "1.prems"(1) w s bnd by (intro "1.IH" True) simp_all
    also have "?v OR push_bit (shift + 7) (drop_bit 7 n) = v OR push_bit shift n"
      by (subst (3) varint_split [symmetric]) (simp add: push_bit_or or.assoc push_bit_push_bit add.commute)
    finally show ?thesis by (simp add: w)
  qed
qed

lemma readVarint_write:
  "unat n < 2 ^ 56 \<Longrightarrow>
   readVarint (pre @ writeVarint n @ post) (length pre) = (True, length pre + length (writeVarint n), n)"
  unfolding readVarint_def by (subst readVarint_loop_write [OF refl]) simp_all

lemma readVarint_loop_write_fail:
  "buf = pre @ writeVarint n \<Longrightarrow> shift < 56 \<Longrightarrow> 7 dvd shift \<Longrightarrow> 2 ^ (56 - shift) \<le> unat n \<Longrightarrow>
   \<not> fst (readVarint_loop buf (length pre) shift v)"
proof (induction n arbitrary: pre shift v rule: writeVarint.induct)
  case (1 n)
  have s: "shift + 7 \<le> 56" using "1.prems"(2,3) by presburger
  have "(2 :: nat) ^ 7 \<le> 2 ^ (56 - shift)" using s by (intro power_increasing) auto
  then have big: "n > 0x7f" using "1.prems"(4) by (simp add: word_less_nat_alt)
  let ?b = "ucast ((n AND 0x7f) OR 0x80) :: u8"
  have w: "writeVarint n = ?b # writeVarint (drop_bit 7 n)"
    using big by (simp add: writeVarint.simps [of n])
  have nth: "buf ! length pre = ?b" "length pre < length buf" using "1.prems"(1) w by simp_all
  let ?v = "v OR push_bit shift (n AND 0x7f)"
  have step: "readVarint_loop buf (length pre) shift v = readVarint_loop buf (length (pre @ [?b])) (shift + 7) ?v"
    using nth "1.prems"(2) varint_byte [of n] by (subst readVarint_loop.simps) (simp add: Let_def)
  show ?case
  proof (cases "shift + 7 < 56")
    case True
    have "\<not> unat n < 2 ^ ((56 - (shift + 7)) + 7)" using "1.prems"(4) s by simp
    then have "2 ^ (56 - (shift + 7)) \<le> unat (drop_bit 7 n)" by (simp only: drop_bit_7_bound not_less)
    then show ?thesis unfolding step
      using "1.prems"(1,3) w True by (intro "1.IH" big) simp_all
  next
    case False
    then show ?thesis unfolding step by (subst readVarint_loop.simps) simp
  qed
qed

definition varintRoundtripOk :: "u64 \<Rightarrow> bool" where
  "varintRoundtripOk value =
     (let buf = writeVarint value; (ok, off, out) = readVarint buf 0
      in if \<not> ok then False else out = value \<and> off = length buf)"

text \<open>The varint codec round-trips exactly the values below \<open>2^56\<close>: for those the
  reader returns the written value and stops at the end of the bytes, and for every larger
  64-bit value, which the writer encodes all the same, it reports failure.\<close>

theorem varint_roundtrip_iff: "varintRoundtripOk v \<longleftrightarrow> unat v < 2 ^ 56"
proof (cases "unat v < 2 ^ 56")
  case True
  with readVarint_write [of v "[]" "[]"] show ?thesis by (simp add: varintRoundtripOk_def Let_def)
next
  case False
  then have "\<not> fst (readVarint (writeVarint v) 0)"
    unfolding readVarint_def using readVarint_loop_write_fail [of _ "[]" v 0 0] by simp
  with False show ?thesis by (auto simp: varintRoundtripOk_def Let_def)
qed

section \<open>Protobuf fields\<close>

datatype pvalue = PNum u64 | PStr string

text \<open>
  \<open>decodeProtobuf\<close>: the result is the field map; the second component is a ghost trace
  of the slices \<open>(offset, size)\<close> the decoder copied out of the buffer. The bound check
  \<open>offset + size > len\<close> is on \<open>std::size_t\<close> words, as in the code.
\<close>

definition wire_field :: "u64 \<Rightarrow> int" where
  "wire_field tag = sint (ucast (drop_bit 3 tag) :: 32 word)"

definition wire_type :: "u64 \<Rightarrow> nat" where
  "wire_type tag = unat (tag AND 7)"

function decodeProtobuf_loop ::
  "bytes \<Rightarrow> nat \<Rightarrow> (int \<rightharpoonup> pvalue) \<Rightarrow> (nat \<times> nat) list \<Rightarrow> (int \<rightharpoonup> pvalue) \<times> (nat \<times> nat) list" where
  "decodeProtobuf_loop buf offset flds reads =
     (if offset < length buf then
        case readVarint buf offset of (ok, offset1, tag) \<Rightarrow>
          if \<not> ok then (flds, reads)
          else if wire_type tag = 0 then
            (case readVarint buf offset1 of (ok2, offset2, value) \<Rightarrow>
               if \<not> ok2 then (flds, reads)
               else decodeProtobuf_loop buf offset2 (flds(wire_field tag \<mapsto> PNum value)) reads)
          else if wire_type tag = 2 then
            (case readVarint buf offset1 of (ok2, offset2, sz) \<Rightarrow>
               if \<not> ok2 then (flds, reads)
               else if word_of_nat offset2 + sz > (word_of_nat (length buf) :: u64) then (flds, reads)
               else decodeProtobuf_loop buf (offset2 + unat sz)
                      (flds(wire_field tag \<mapsto> PStr (to_text (take (unat sz) (drop offset2 buf)))))
                      (reads @ [(offset2, unat sz)]))
          else (flds, reads)
      else (flds, reads))"
  by pat_completeness auto
termination
  by (relation "measure (\<lambda>(buf, offset, _). length buf - offset)")
    (auto dest!: readVarint_progress [OF sym])

declare decodeProtobuf_loop.simps [simp del]

definition decodeProtobuf :: "bytes \<Rightarrow> (int \<rightharpoonup> pvalue)" where
  "decodeProtobuf buf = fst (decodeProtobuf_loop buf 0 Map.empty [])"

definition decodeProtobuf_reads :: "bytes \<Rightarrow> (nat \<times> nat) list" where
  "decodeProtobuf_reads buf = snd (decodeProtobuf_loop buf 0 Map.empty [])"

definition wire_tag :: "int \<Rightarrow> 32 word \<Rightarrow> u64" where
  "wire_tag field wire = word_of_int (sint (push_bit 3 (word_of_int field :: 32 word) OR wire))"

fun encode_field :: "int \<times> pvalue \<Rightarrow> bytes" where
  "encode_field (field, PNum value) = writeVarint (wire_tag field 0) @ writeVarint value"
| "encode_field (field, PStr s) =
     writeVarint (wire_tag field 2) @ writeVarint (word_of_nat (length s)) @ of_text s"

definition encodeProtobuf :: "(int \<times> pvalue) list \<Rightarrow> bytes" where
  "encodeProtobuf flds = concat (map encode_field flds)"

text \<open>The tag of a field number below \<open>2^28\<close>, and what the decoder reads from it.\<close>

lemma or_2_shift: "push_bit 3 (x :: 32 word) OR 2 = push_bit 3 x + 2"
proof -
  have "push_bit 3 x AND 2 = 0"
    by (rule bit_word_eqI) (auto simp: bit_simps bit_2_iff)
  then show ?thesis by (simp only: disjunctive_add_eq_or)
qed

lemma sint32_of_int: "- (2 ^ 31) \<le> i \<Longrightarrow> i < 2 ^ 31 \<Longrightarrow> sint (word_of_int i :: 32 word) = i"
  by (simp add: int_word_sint)

lemma unat_wire_tag:
  assumes f: "0 \<le> f" "f < 2 ^ 28" and w: "w = 0 \<or> w = 2"
  shows "unat (wire_tag f w) = 8 * nat f + unat w"
proof -
  have "push_bit 3 (word_of_int f :: 32 word) OR w = word_of_int (8 * f + uint w)"
    using w or_2_shift [of "word_of_int f"] by (auto simp: push_bit_eq_mult mult.commute)
  moreover have "sint (word_of_int (8 * f + uint w) :: 32 word) = 8 * f + uint w"
    using f w by (intro sint32_of_int) auto
  ultimately have "wire_tag f w = word_of_int (8 * f + uint w)" by (simp add: wire_tag_def)
  moreover have "uint (word_of_int (8 * f + uint w) :: u64) = 8 * f + uint w"
    using f w by (intro word_of_int_inverse [OF refl]) auto
  ultimately have "uint (wire_tag f w) = 8 * f + uint w" by simp
  then show ?thesis using f(1) w by (auto simp only: unat_eq_nat_uint nat_add_distrib nat_mult_distrib) simp_all
qed

lemma wire_type_tag:
  assumes "0 \<le> f" "f < 2 ^ 28" "w = 0 \<or> w = 2"
  shows "wire_type (wire_tag f w) = unat w"
proof -
  have "(7 :: u64) = mask 3" by (simp add: mask_eq_exp_minus_1)
  then have "wire_type (wire_tag f w) = unat (take_bit 3 (wire_tag f w))"
    by (simp only: wire_type_def take_bit_eq_mask)
  also have "\<dots> = take_bit 3 (unat (wire_tag f w))" by (simp only: unsigned_take_bit_eq)
  also have "\<dots> = unat (wire_tag f w) mod 8" by (simp add: take_bit_eq_mod)
  also have "\<dots> = unat w" using assms(3) unat_wire_tag [OF assms] by auto
  finally show ?thesis .
qed

lemma wire_field_tag:
  assumes "0 \<le> f" "f < 2 ^ 28" "w = 0 \<or> w = 2"
  shows "wire_field (wire_tag f w) = f"
proof -
  have "unat (drop_bit 3 (wire_tag f w)) = drop_bit 3 (unat (wire_tag f w))"
    by (rule unat_drop_bit_eq)
  also have "\<dots> = unat (wire_tag f w) div 8" by (simp add: drop_bit_eq_div)
  also have "\<dots> = nat f" using assms(3) unat_wire_tag [OF assms] by auto
  finally have "nat (uint (drop_bit 3 (wire_tag f w))) = nat f" by (simp only: unat_eq_nat_uint)
  then have "uint (drop_bit 3 (wire_tag f w)) = f" using assms(1) by (simp only: eq_nat_nat_iff unsigned_greater_eq)
  then have "(ucast (drop_bit 3 (wire_tag f w)) :: 32 word) = word_of_int f"
    by (simp only: ucast_eq)
  then show ?thesis using assms(1,2)
    by (simp add: wire_field_def sint32_of_int)
qed

fun field_ok :: "int \<times> pvalue \<Rightarrow> bool" where
  "field_ok (f, PNum n) \<longleftrightarrow> 0 \<le> f \<and> f < 2 ^ 28 \<and> unat n < 2 ^ 56"
| "field_ok (f, PStr s) \<longleftrightarrow> 0 \<le> f \<and> f < 2 ^ 28 \<and> length s < 2 ^ 56"

lemma writeVarint_nonempty: "0 < length (writeVarint n)"
  by (subst writeVarint.simps) simp

lemma no_wrap_sum:
  assumes "o2 < 2 ^ 63" and "unat (n :: u64) < 2 ^ 56"
  shows "unat (word_of_nat o2 + n) = o2 + unat n"
proof -
  have "o2 mod 2 ^ 64 = o2" using assms(1) by simp
  then have "unat (word_of_nat o2 :: u64) = o2" by (simp add: unat_of_nat)
  then show ?thesis using assms by (subst unat_add_lem [THEN iffD1]) simp_all
qed

lemma decode_one_field:
  assumes ok: "field_ok (f, v)" and len: "length buf < 2 ^ 63"
    and buf: "buf = pre @ encode_field (f, v) @ post"
  shows "\<exists>R'. decodeProtobuf_loop buf (length pre) F R =
    decodeProtobuf_loop buf (length (pre @ encode_field (f, v))) (F(f \<mapsto> v)) R'"
proof (cases v)
  case (PNum n)
  let ?t = "writeVarint (wire_tag f 0)"
  have f: "0 \<le> f" "f < 2 ^ 28" "unat n < 2 ^ 56" using ok PNum by simp_all
  have tb: "unat (wire_tag f 0) < 2 ^ 56" using f unat_wire_tag [of f 0] by simp
  have r1: "readVarint buf (length pre) = (True, length pre + length ?t, wire_tag f 0)"
    using readVarint_write [OF tb, of pre "writeVarint n @ post"] buf PNum by simp
  have r2: "readVarint buf (length pre + length ?t) =
      (True, length pre + length ?t + length (writeVarint n), n)"
    using readVarint_write [OF f(3), of "pre @ ?t" post] buf PNum by simp
  have lt: "length pre < length buf" using buf PNum writeVarint_nonempty [of n] by simp
  show ?thesis using lt r1 r2 wire_type_tag [OF f(1,2), of 0] wire_field_tag [OF f(1,2), of 0] PNum
    by (subst decodeProtobuf_loop.simps) (auto simp: add.assoc)
next
  case (PStr s)
  let ?t = "writeVarint (wire_tag f 2)" and ?n = "word_of_nat (length s) :: u64"
  let ?l = "writeVarint ?n"
  have f: "0 \<le> f" "f < 2 ^ 28" "length s < 2 ^ 56" using ok PStr by simp_all
  have n: "unat ?n = length s" using f(3) by (simp add: unat_of_nat)
  have tb: "unat (wire_tag f 2) < 2 ^ 56" using f unat_wire_tag [of f 2] by simp
  have r1: "readVarint buf (length pre) = (True, length pre + length ?t, wire_tag f 2)"
    using readVarint_write [OF tb, of pre "?l @ of_text s @ post"] buf PStr by simp
  have r2: "readVarint buf (length pre + length ?t) = (True, length pre + length ?t + length ?l, ?n)"
    using readVarint_write [of ?n "pre @ ?t" "of_text s @ post"] f(3) n buf PStr by simp
  let ?o = "length pre + length ?t + length ?l"
  have o: "?o + length s \<le> length buf" using buf PStr by simp
  have "unat (word_of_nat ?o + ?n) = ?o + length s"
    using o len f(3) n by (subst no_wrap_sum) simp_all
  moreover have "unat (word_of_nat (length buf) :: u64) = length buf" using len by (simp add: unat_of_nat)
  ultimately have nb: "\<not> word_of_nat ?o + ?n > (word_of_nat (length buf) :: u64)"
    using o by (simp add: word_less_nat_alt)
  have sl: "to_text (take (length s) (drop ?o buf)) = s" using buf PStr by simp
  have lt: "length pre < length buf" using buf PStr writeVarint_nonempty [of ?n] by simp
  show ?thesis
    using lt r1 r2 nb sl n wire_type_tag [OF f(1,2), of 2] wire_field_tag [OF f(1,2), of 2] PStr
    by (subst decodeProtobuf_loop.simps) (auto simp: add.assoc)
qed

lemma decode_encode_loop:
  "list_all field_ok fs \<Longrightarrow> length (pre @ encodeProtobuf fs) < 2 ^ 63 \<Longrightarrow>
   fst (decodeProtobuf_loop (pre @ encodeProtobuf fs) (length pre) F R) = F ++ map_of (rev fs)"
proof (induction fs arbitrary: pre F R)
  case Nil
  then show ?case by (subst decodeProtobuf_loop.simps) (simp add: encodeProtobuf_def)
next
  case (Cons fv fs)
  obtain f v where fv: "fv = (f, v)" by (cases fv)
  let ?buf = "pre @ encodeProtobuf (fv # fs)"
  have buf: "?buf = pre @ encode_field (f, v) @ encodeProtobuf fs" by (simp add: encodeProtobuf_def fv)
  obtain R' where "decodeProtobuf_loop ?buf (length pre) F R =
      decodeProtobuf_loop ?buf (length (pre @ encode_field (f, v))) (F(f \<mapsto> v)) R'"
    using decode_one_field [OF _ Cons.prems(2) buf] Cons.prems(1) fv by auto
  also have "?buf = (pre @ encode_field (f, v)) @ encodeProtobuf fs" using buf by simp
  finally show ?case
    using Cons.IH [of "pre @ encode_field (f, v)" "F(f \<mapsto> v)" R'] Cons.prems buf
    by (simp add: fv map_add_upd_left del: fun_upd_apply)
qed

lemma protobuf_decode_encode:
  assumes "list_all field_ok flds" and "length (encodeProtobuf flds) < 2 ^ 63"
  shows "decodeProtobuf (encodeProtobuf flds) = map_of (rev flds)"
  using decode_encode_loop [of flds "[]" Map.empty "[]"] assms by (simp add: decodeProtobuf_def)

text \<open>Protobuf round trip: decoding an encoded field list returns exactly those fields,
  the last one winning when a field number is repeated, for field numbers below \<open>2^28\<close>,
  numbers below \<open>2^56\<close> and buffers below \<open>2^63\<close> bytes.\<close>

theorem protobuf_roundtrip:
  assumes "list_all field_ok flds" and "length (encodeProtobuf flds) < 2 ^ 63"
  shows "decodeProtobuf (encodeProtobuf flds) = map_of (rev flds)"
  using assms by (rule protobuf_decode_encode)

theorem protobuf_roundtrip_witness:
  "decodeProtobuf (encodeProtobuf [(1, PNum 300), (7, PStr ''ab''), (1, PNum 5)]) =
     map_of (rev [(1, PNum 300), (7, PStr ''ab''), (1, PNum 5)])"
  by (rule protobuf_roundtrip)
    (simp_all add: encodeProtobuf_def wire_tag_def writeVarint.simps of_text_def)

text \<open>
  Memory safety of the decoder: with a buffer of less than \<open>2^63\<close> bytes, the word sum in
  the bound check cannot wrap, because the reader never returns a size of \<open>2^56\<close> or more.
\<close>

lemma decodeProtobuf_loop_reads:
  "length buf < 2 ^ 63 \<Longrightarrow> \<forall>(o2, n) \<in> set reads. o2 + n \<le> length buf \<Longrightarrow>
   \<forall>(o2, n) \<in> set (snd (decodeProtobuf_loop buf offset flds reads)). o2 + n \<le> length buf"
proof (induction buf offset flds reads rule: decodeProtobuf_loop.induct)
  case (1 buf offset flds reads)
  have bnd: "o2 + unat n \<le> length buf"
    if "readVarint buf o1 = (True, o2, n)" "\<not> word_of_nat o2 + n > (word_of_nat (length buf) :: u64)" for o1 o2 n
  proof -
    have "o2 \<le> length buf" "unat n < 2 ^ 56"
      using readVarint_progress [OF that(1)] readVarint_bound [OF that(1)] by auto
    then have "unat (word_of_nat o2 + n) = o2 + unat n" using "1.prems"(1) by (intro no_wrap_sum) auto
    moreover have "unat (word_of_nat (length buf) :: u64) = length buf"
      using "1.prems"(1) by (simp add: unat_of_nat)
    ultimately show ?thesis using that(2) by (simp add: word_less_nat_alt)
  qed
  obtain ok o1 tag where r1: "readVarint buf offset = (ok, o1, tag)" by (cases "readVarint buf offset")
  obtain ok2 o2 n where r2: "readVarint buf o1 = (ok2, o2, n)" by (cases "readVarint buf o1")
  show ?case
  proof (cases "offset < length buf \<and> ok \<and> ok2")
    case False
    then show ?thesis using r1 r2 "1.prems"(2) by (subst decodeProtobuf_loop.simps) auto
  next
    case True
    then have t: "offset < length buf" "ok" "ok2" by blast+
    show ?thesis
    proof (cases "wire_type tag = 2 \<and> \<not> word_of_nat o2 + n > (word_of_nat (length buf) :: u64)")
      case True
      then have w: "wire_type tag = 2" "wire_type tag \<noteq> 0"
        and g: "\<not> word_of_nat o2 + n > (word_of_nat (length buf) :: u64)" by auto
      have "o2 + unat n \<le> length buf" using bnd [of o1 o2 n] r2 t g by simp
      then have "\<forall>(o2, n) \<in> set (snd (decodeProtobuf_loop buf (o2 + unat n)
          (flds(wire_field tag \<mapsto> PStr (to_text (take (unat n) (drop o2 buf))))) (reads @ [(o2, unat n)]))).
          o2 + n \<le> length buf"
        using "1.IH"(2) [OF t(1) r1 [symmetric] refl _ w(2,1) r2 [symmetric] refl _ g "1.prems"(1)]
          t "1.prems"(2) by (simp del: fun_upd_apply)
      then show ?thesis using t r1 r2 w g by (subst decodeProtobuf_loop.simps) simp
    next
      case False
      show ?thesis
      proof (cases "wire_type tag = 0")
        case w: True
        have "\<forall>(o2, n) \<in> set (snd (decodeProtobuf_loop buf o2 (flds(wire_field tag \<mapsto> PNum n)) reads)).
            o2 + n \<le> length buf"
          using "1.IH"(1) [OF t(1) r1 [symmetric] refl _ w r2 [symmetric] refl _ "1.prems"] t by (simp del: fun_upd_apply)
        then show ?thesis using t r1 r2 w by (subst decodeProtobuf_loop.simps) simp
      next
        case w: False
        with False t r1 r2 "1.prems"(2) show ?thesis
          by (subst decodeProtobuf_loop.simps) auto
      qed
    qed
  qed
qed

text \<open>\<open>decodeProtobuf\<close> is memory safe on arbitrary (also hostile) input: every slice it
  copies lies inside the received buffer.\<close>

theorem protobuf_reads_in_bounds:
  assumes "length buf < 2 ^ 63" and "(o2, n) \<in> set (decodeProtobuf_reads buf)"
  shows "o2 + n \<le> length buf"
  using decodeProtobuf_loop_reads [OF assms(1), of "[]" 0 Map.empty] assms(2)
  by (auto simp: decodeProtobuf_reads_def)

theorem protobuf_reads_in_bounds_witness:
  "(2 :: nat) + 3 \<le> length [0x3a :: u8, 3, 97, 98, 99]"
  by (rule protobuf_reads_in_bounds)
    (simp_all add: decodeProtobuf_reads_def decodeProtobuf_loop.simps readVarint_def
      readVarint_loop.simps wire_type_def)

section \<open>Socket.IO packets\<close>

datatype PacketKind =
    Pk_Unknown | Pk_Connect | Pk_Disconnect | Pk_Event | Pk_Ack | Pk_Error | Pk_BinaryEvent
  | Pk_BinaryAck | Pk_Ping | Pk_Pong | Pk_Open | Pk_Other

record SocketIoPacket =
  pk_kind :: PacketKind
  pk_nsp :: string
  pk_event :: string
  pk_payload :: bytes
  pk_sid :: string
  pk_pingInterval :: int
  pk_pingTimeout :: int

definition SocketIoPacket_default :: SocketIoPacket where
  "SocketIoPacket_default =
     \<lparr>pk_kind = Pk_Unknown, pk_nsp = [], pk_event = [], pk_payload = [], pk_sid = [],
      pk_pingInterval = 0, pk_pingTimeout = 0\<rparr>"

definition encodeConnect :: "string \<Rightarrow> bytes" where
  "encodeConnect nsp = [0x04, 0x00, word_of_nat (length nsp)] @ of_text nsp @ [0]"

definition encodeJoin :: "string \<Rightarrow> string \<Rightarrow> bytes" where
  "encodeJoin nsp room =
     [0x04, 0x82, 0, 0, 0, 0, word_of_nat (length nsp)] @ of_text nsp @
     [word_of_nat (length room)] @ of_text room"

definition encodeEvent :: "string \<Rightarrow> string \<Rightarrow> bytes \<Rightarrow> bytes" where
  "encodeEvent nsp event payload =
     [0x04, 0x02, word_of_nat (length nsp)] @ of_text nsp @
     [word_of_nat (length event)] @ of_text event @ payload"

definition parsePacket :: "bytes \<Rightarrow> SocketIoPacket" where
  "parsePacket buf =
     (let p = SocketIoPacket_default; len = length buf
      in if len < 2 \<or> buf ! 0 \<noteq> 0x04 then p
      else let type = buf ! 1;
               base = type AND 0x0f;
               offset = (if type AND 0x80 \<noteq> 0 then 6 else 2)
      in if offset \<ge> len then p
      else let nspLen = unat (buf ! offset); offset = offset + 1
      in if offset + nspLen > len then p
      else let p = p\<lparr>pk_nsp := to_text (take nspLen (drop offset buf))\<rparr>; offset = offset + nspLen
      in if base = 0 then p\<lparr>pk_kind := Pk_Connect\<rparr>
      else if offset \<ge> len then p\<lparr>pk_kind := Pk_Connect\<rparr>
      else let evLen = unat (buf ! offset); offset = offset + 1
      in if offset + evLen > len then p
      else let p = p\<lparr>pk_event := to_text (take evLen (drop offset buf))\<rparr>; offset = offset + evLen;
               p = p\<lparr>pk_kind := Pk_Event\<rparr>
      in if offset < len then p\<lparr>pk_payload := drop offset buf\<rparr> else p)"

lemma unat_len_byte: "n < 256 \<Longrightarrow> unat (word_of_nat n :: u8) = n"
  by (simp add: unat_of_nat)

text \<open>The two packet shapes after the fixed header, parsed at the offset the header selects.\<close>

lemma parse_event:
  assumes "length nsp < 256" "length event < 256"
    and "hdr = [0x04, 0x02] \<or> hdr = [0x04, 0x82, a, b, c, d]"
  shows "parsePacket (hdr @ [word_of_nat (length nsp)] @ of_text nsp @
      [word_of_nat (length event)] @ of_text event @ payload) =
    SocketIoPacket_default\<lparr>pk_kind := Pk_Event, pk_nsp := nsp, pk_event := event, pk_payload := payload\<rparr>"
proof -
  let ?x = "word_of_nat (length nsp) :: u8" and ?y = "word_of_nat (length event) :: u8"
  define buf where "buf = hdr @ [?x] @ of_text nsp @ [?y] @ of_text event @ payload"
  define i where "i = length hdr"
  have len: "length buf = i + 2 + length nsp + length event + length payload" "2 \<le> i"
    using assms(3) by (auto simp: buf_def i_def)
  have hd: "buf ! 0 = 0x04" "buf ! 1 AND 0x0f \<noteq> 0" "(if buf ! 1 AND 0x80 \<noteq> 0 then 6 else 2) = i"
    using assms(3) by (auto simp: buf_def i_def)
  have x: "buf ! i = ?x" by (simp add: buf_def i_def)
  have y: "buf ! (i + 1 + length nsp) = ?y"
    using nth_append_length [of "hdr @ [?x] @ of_text nsp" ?y] by (simp add: buf_def i_def)
  have d: "take (length nsp) (drop (i + 1) buf) = of_text nsp"
    "take (length event) (drop (i + 1 + length nsp + 1) buf) = of_text event"
    "drop (i + 1 + length nsp + 1 + length event) buf = payload"
    by (simp_all add: buf_def i_def)
  have "parsePacket buf = SocketIoPacket_default\<lparr>pk_kind := Pk_Event, pk_nsp := nsp, pk_event := event, pk_payload := payload\<rparr>"
    using assms(1,2) len hd unfolding parsePacket_def Let_def hd(3) x y d
    by (simp add: unat_len_byte y [simplified] d [simplified] SocketIoPacket_default_def)
  then show ?thesis by (simp add: buf_def)
qed

text \<open>C31: a packet built by \<open>encodeEvent\<close>, \<open>encodeJoin\<close> or \<open>encodeConnect\<close> is parsed back
  to its kind, namespace, event name and payload, for names of at most 255 bytes (the
  length bytes of the format).\<close>

theorem packet_roundtrip:
  assumes "length nsp < 256" "length event < 256"
  shows "parsePacket (encodeEvent nsp event payload) =
      SocketIoPacket_default\<lparr>pk_kind := Pk_Event, pk_nsp := nsp, pk_event := event, pk_payload := payload\<rparr> \<and>
    parsePacket (encodeJoin nsp event) =
      SocketIoPacket_default\<lparr>pk_kind := Pk_Event, pk_nsp := nsp, pk_event := event\<rparr> \<and>
    parsePacket (encodeConnect nsp) = SocketIoPacket_default\<lparr>pk_kind := Pk_Connect, pk_nsp := nsp\<rparr>"
proof (intro conjI)
  show "parsePacket (encodeEvent nsp event payload) =
      SocketIoPacket_default\<lparr>pk_kind := Pk_Event, pk_nsp := nsp, pk_event := event, pk_payload := payload\<rparr>"
    using parse_event [OF assms, of "[0x04, 0x02]"] by (simp add: encodeEvent_def)
  show "parsePacket (encodeJoin nsp event) =
      SocketIoPacket_default\<lparr>pk_kind := Pk_Event, pk_nsp := nsp, pk_event := event\<rparr>"
    using parse_event [OF assms, of "[0x04, 0x82, 0, 0, 0, 0]" 0 0 0 0 "[]"]
    by (simp add: encodeJoin_def SocketIoPacket_default_def)
  show "parsePacket (encodeConnect nsp) = SocketIoPacket_default\<lparr>pk_kind := Pk_Connect, pk_nsp := nsp\<rparr>"
    using assms by (simp add: parsePacket_def Let_def encodeConnect_def unat_len_byte SocketIoPacket_default_def)
qed

theorem packet_roundtrip_witness:
  "parsePacket (encodeEvent ''/g/cm'' ''pg'' [8, 1]) =
      SocketIoPacket_default\<lparr>pk_kind := Pk_Event, pk_nsp := ''/g/cm'', pk_event := ''pg'', pk_payload := [8, 1]\<rparr> \<and>
    parsePacket (encodeJoin ''/g/cm'' ''pg'') =
      SocketIoPacket_default\<lparr>pk_kind := Pk_Event, pk_nsp := ''/g/cm'', pk_event := ''pg''\<rparr> \<and>
    parsePacket (encodeConnect ''/g/cm'') = SocketIoPacket_default\<lparr>pk_kind := Pk_Connect, pk_nsp := ''/g/cm''\<rparr>"
  by (rule packet_roundtrip) simp_all

end
