(* ===== verification/Frames.thy ===== *)
theory Frames
  imports Wire
begin

text \<open>
  Crash-game payloads on top of the protobuf subset (\<open>socketio_protocol.hpp\<close>), the
  Engine.IO control frames (\<open>engineio.hpp\<close>), the stream parser
  (\<open>socketio_parser.hpp\<close>), the frame classifier and the protocol self-check
  (\<open>protocol_edge_cases.hpp\<close>). Undefined C++ behaviour (signed overflow while reading a
  decimal number, an out-of-range \<open>llround\<close> or conversion) is the value \<^const>\<open>None\<close>.
\<close>

section \<open>Payloads\<close>

record CrashPayload =
  cp_gameId :: "string option"
  cp_multiplier :: "double option"
  cp_hash :: "string option"
  cp_beginTime :: "int option"
  cp_endTime :: "int option"
  cp_elapsedMs :: "int option"

definition CrashPayload_default :: CrashPayload where
  "CrashPayload_default =
     \<lparr>cp_gameId = None, cp_multiplier = None, cp_hash = None, cp_beginTime = None,
      cp_endTime = None, cp_elapsedMs = None\<rparr>"

definition getNum :: "(int \<rightharpoonup> pvalue) \<Rightarrow> int \<Rightarrow> u64 option" where
  "getNum flds f = (case flds f of Some (PNum n) \<Rightarrow> Some n | _ \<Rightarrow> None)"

definition getStr :: "(int \<rightharpoonup> pvalue) \<Rightarrow> int \<Rightarrow> string option" where
  "getStr flds f = (case flds f of Some (PStr s) \<Rightarrow> Some s | _ \<Rightarrow> None)"

definition decodeProgressElapsed :: "bytes \<Rightarrow> int option" where
  "decodeProgressElapsed buf =
     (if buf = [] then None
      else case (if buf ! 0 = 8 then readVarint buf 1 else (False, 0, 0)) of (ok, off, v) \<Rightarrow>
        if ok then Some (sint v)
        else map_option sint (getNum (decodeProtobuf buf) 1))"

definition fieldsToPayload ::
  "(double \<Rightarrow> double) \<Rightarrow> TimestampMs \<Rightarrow> string \<Rightarrow> (int \<rightharpoonup> pvalue) \<Rightarrow> CrashPayload" where
  "fieldsToPayload libm_exp now event flds =
     (if event = ''pg'' then
        (case getNum flds 1 of
           Some v \<Rightarrow> CrashPayload_default
             \<lparr>cp_elapsedMs := Some (sint v), cp_multiplier := Some (multiplierFromElapsed libm_exp (sint v))\<rparr>
         | None \<Rightarrow> CrashPayload_default)
      else
        CrashPayload_default
          \<lparr>cp_gameId := (case getNum flds 1 of Some g \<Rightarrow> Some (show_nat (unat g)) | None \<Rightarrow> getStr flds 1),
           cp_multiplier := (case getNum flds 6 of
               Some m \<Rightarrow> Some (ddiv (of_integer (uint m)) (Fin 100)) | None \<Rightarrow> None),
           cp_hash := getStr flds 7,
           cp_beginTime := (case getNum flds 3 of
               Some b \<Rightarrow> Some (sint b) | None \<Rightarrow> map_option sint (getNum flds 4)),
           cp_endTime := (if event = ''ed'' \<or> event = ''st'' then Some now else None)\<rparr>)"

text \<open>\<open>std::llround\<close>: to nearest, halves away from zero.\<close>

definition llround :: "double \<Rightarrow> int option" where
  "llround d =
     (case d of
        Fin a \<Rightarrow> (let i = (if a < 0 then - \<lfloor>- a + 1 / 2\<rfloor> else \<lfloor>a + 1 / 2\<rfloor>)
                  in if - (2 ^ 63) \<le> i \<and> i < 2 ^ 63 then Some i else None)
      | _ \<Rightarrow> None)"

definition encodeEndPayload :: "u64 \<Rightarrow> double \<Rightarrow> string \<Rightarrow> bytes option" where
  "encodeEndPayload gameId mult hash =
     (case llround (dmul mult (Fin 100)) of
        None \<Rightarrow> None
      | Some h \<Rightarrow> Some (encodeProtobuf ([(1, PNum gameId), (6, PNum (word_of_int h))] @
                                     (if hash \<noteq> [] then [(7, PStr hash)] else []))))"

definition encodeProgressPayload :: "int \<Rightarrow> bytes" where
  "encodeProgressPayload elapsedMs = encodeProtobuf [(1, PNum (word_of_int elapsedMs))]"

section \<open>Engine.IO control frames\<close>

definition isOpenFrame :: "bytes \<Rightarrow> bool" where
  "isOpenFrame buf \<longleftrightarrow> length buf > 1 \<and> buf ! 0 = 0x30 \<and> buf ! 1 = 0x7b"

definition isPing :: "bytes \<Rightarrow> bool" where
  "isPing buf \<longleftrightarrow> length buf = 1 \<and> buf ! 0 = 0x32"

definition isPong :: "bytes \<Rightarrow> bool" where
  "isPong buf \<longleftrightarrow> length buf = 1 \<and> buf ! 0 = 0x33"

definition isMessage :: "bytes \<Rightarrow> bool" where
  "isMessage buf \<longleftrightarrow> length buf \<ge> 1 \<and> buf ! 0 = 0x34"

definition isClose :: "bytes \<Rightarrow> bool" where
  "isClose buf \<longleftrightarrow> length buf \<ge> 1 \<and> buf ! 0 = 0x31"

definition encodePing :: bytes where "encodePing = [0x32]"

definition encodePong :: bytes where "encodePong = [0x33]"

text \<open>\<open>std::string_view::find\<close>: the first position at or after \<open>pos\<close>.\<close>

fun find_from :: "string \<Rightarrow> string \<Rightarrow> nat \<Rightarrow> nat option" where
  "find_from key [] pos = (if key = [] then Some pos else None)"
| "find_from key (c # cs) pos =
     (if take (length key) (c # cs) = key then Some pos else find_from key cs (pos + 1))"

definition sv_find :: "string \<Rightarrow> string \<Rightarrow> nat \<Rightarrow> nat option" where
  "sv_find s key pos = (if pos \<le> length s then find_from key (drop pos s) pos else None)"

definition findStr :: "string \<Rightarrow> string \<Rightarrow> string" where
  "findStr json key =
     (case sv_find json key 0 of None \<Rightarrow> [] | Some pos \<Rightarrow>
      case sv_find json [CHR 0x22] (pos + length key) of None \<Rightarrow> [] | Some pos \<Rightarrow>
      case sv_find json [CHR 0x22] (pos + 1) of None \<Rightarrow> [] | Some fin \<Rightarrow>
        take (fin - pos - 1) (drop (pos + 1) json))"

text \<open>The digit loop of \<open>findNum\<close>; \<^const>\<open>None\<close> is signed 32-bit overflow.\<close>

fun readDigits :: "string \<Rightarrow> int \<Rightarrow> int option" where
  "readDigits [] v = Some v"
| "readDigits (c # cs) v =
     (if is_digit c then
        let v' = v * 10 + int (of_char c - 48)
        in if v' < 2 ^ 31 then readDigits cs v' else None
      else Some v)"

definition findNum :: "string \<Rightarrow> string \<Rightarrow> int option" where
  "findNum json key =
     (case sv_find json key 0 of None \<Rightarrow> Some 0 | Some pos \<Rightarrow>
        readDigits (dropWhile (\<lambda>c. c = CHR '':'' \<or> c = CHR '' '') (drop (pos + length key) json)) 0)"

definition parseOpen :: "bytes \<Rightarrow> SocketIoPacket option" where
  "parseOpen buf =
     (let p = SocketIoPacket_default\<lparr>pk_kind := Pk_Open\<rparr>
      in if length buf < 2 then Some p
      else let json = to_text (tl buf); q = [CHR 0x22]
      in case findNum json (q @ ''pingInterval'' @ q) of None \<Rightarrow> None | Some interval \<Rightarrow>
         case findNum json (q @ ''pingTimeout'' @ q) of None \<Rightarrow> None | Some timeout \<Rightarrow>
           Some (p\<lparr>pk_sid := findStr json (q @ ''sid'' @ q),
                   pk_pingInterval := interval, pk_pingTimeout := timeout\<rparr>))"

section \<open>Stream parser and classifier\<close>

definition sio_feed :: "bytes \<Rightarrow> SocketIoPacket list Result option" where
  "sio_feed data =
     (if data = [] then Some (Inr [])
      else if isPing data \<or> isPong data \<or> isClose data then
        Some (Inr [SocketIoPacket_default
          \<lparr>pk_kind := (if isPing data then Pk_Ping else if isPong data then Pk_Pong else Pk_Disconnect)\<rparr>])
      else if isOpenFrame data then map_option (\<lambda>p. Inr [p]) (parseOpen data)
      else if isMessage data \<and> length data > 1 then
        Some (Inr [SocketIoPacket_default\<lparr>pk_kind := Pk_Event, pk_payload := tl data\<rparr>])
      else if data ! 0 = 0x04 then Some (Inr [parsePacket data])
      else Some (Inl (mkError EC_ParseError ''unrecognised Socket.IO frame'')))"

datatype FrameClass =
    Fc_Empty | Fc_EnginePing | Fc_EnginePong | Fc_EngineOpen | Fc_EngineClose
  | Fc_EngineMessageText | Fc_BinaryPacket | Fc_Malformed | Fc_Truncated | Fc_Unknown

definition classifyFrame :: "bytes \<Rightarrow> FrameClass" where
  "classifyFrame data =
     (if data = [] then Fc_Empty
      else if isPing data then Fc_EnginePing
      else if isPong data then Fc_EnginePong
      else if isOpenFrame data then Fc_EngineOpen
      else if isClose data then Fc_EngineClose
      else if isMessage data then Fc_EngineMessageText
      else if data ! 0 = 0x04 then
        (if length data < 2 then Fc_Truncated
         else let p = parsePacket data
              in if pk_kind p = Pk_Unknown \<and> pk_event p = [] \<and> pk_nsp p = [] then Fc_Malformed
                 else Fc_BinaryPacket)
      else Fc_Unknown)"

definition isTrackedCrashEvent :: "string \<Rightarrow> bool" where
  "isTrackedCrashEvent event \<longleftrightarrow>
     event = ''pr'' \<or> event = ''pg'' \<or> event = ''bg'' \<or> event = ''ed'' \<or>
     event = ''st'' \<or> event = ''prepare'' \<or> event = ''begin'' \<or> event = ''end'' \<or>
     event = ''crash'' \<or> event = ''bust'' \<or> event = ''start'' \<or> event = ''ready''"

text \<open>\<open>char\<close> is signed on the target, so a byte of 128 or more is below 32.\<close>

definition validateNsp :: "string \<Rightarrow> bool" where
  "validateNsp nsp \<longleftrightarrow>
     \<not> (nsp = [] \<or> length nsp > 64) \<and> nsp ! 0 = CHR ''/'' \<and>
     list_all (\<lambda>c. 32 \<le> (of_char c :: nat) \<and> (of_char c :: nat) \<le> 126) nsp"

definition safeDecodeProgress :: "bytes \<Rightarrow> int option" where
  "safeDecodeProgress data =
     (if length data = 0 \<or> length data > 64 then None else decodeProgressElapsed data)"

definition syntheticRoundFrames ::
  "(double \<Rightarrow> double) \<Rightarrow> u64 \<Rightarrow> double \<Rightarrow> int \<Rightarrow> bytes list option" where
  "syntheticRoundFrames libm_log gameId finalMult progressTicks =
     (case encodeEndPayload gameId (Fin 1) [] of None \<Rightarrow> None | Some startPayload \<Rightarrow>
      case elapsedFromMultiplier libm_log finalMult of None \<Rightarrow> None | Some totalElapsed \<Rightarrow>
      case encodeEndPayload gameId finalMult ''synth'' of None \<Rightarrow> None | Some endPayload \<Rightarrow>
        Some ([encodeEvent ''/g/cm'' ''st'' startPayload] @
              map (\<lambda>i. encodeEvent ''/g/cm'' ''pg''
                     (encodeProgressPayload ((totalElapsed * i) sdiv progressTicks)))
                [1..progressTicks] @
              [encodeEvent ''/g/cm'' ''ed'' endPayload]))"

definition runProtocolSelfCheck :: "(double \<Rightarrow> double) \<Rightarrow> nat option" where
  "runProtocolSelfCheck libm_log =
     (case syntheticRoundFrames libm_log 1 (Fin (5 / 2)) 5 of None \<Rightarrow> None | Some frames \<Rightarrow>
        Some (length (filter (\<lambda>v. \<not> varintRoundtripOk v) [0, 127, 128, 300, 1000000])
          + (if length frames \<noteq> 7 then 1 else 0)
          + length (filter (\<lambda>f. classifyFrame f \<noteq> Fc_BinaryPacket) frames)
          + (if classifyFrame [0x32] \<noteq> Fc_EnginePing then 1 else 0)))"

section \<open>Hundredths through floating point\<close>

text \<open>
  A multiplier with two decimals survives the trip \<open>double\<close> to hundredths and back: both
  roundings stay within a dyadic neighbourhood of the exact value.
\<close>

lemma rnd_near:
  assumes lo: "representable l" "l \<le> x" and hi: "representable h" "x \<le> h"
  shows "\<exists>q. rnd x = Fin q \<and> l \<le> q \<and> q \<le> h"
  using dle_finD [OF representable_le_rnd [OF lo] rnd_le_representable [OF hi]] .

lemma rnd_hundredth:
  assumes "0 \<le> k" "k \<le> 2 ^ 40"
  shows "\<exists>q. rnd (of_int k / 100) = Fin q \<and> of_int k / 100 - 1 / 2 ^ 18 \<le> q \<and> q \<le> of_int k / 100 + 1 / 2 ^ 18"
proof -
  let ?x = "of_int k / 100 :: rat"
  let ?f = "\<lfloor>?x * 2 ^ 18\<rfloor>"
  have kr: "of_int k \<le> (2 ^ 40 :: rat)"
    using assms(2) of_int_le_iff [of k "2 ^ 40", where 'a = rat] by (simp only: of_int_power of_int_numeral)
  have f: "0 \<le> ?f" "?f \<le> 2 ^ 52"
    using assms(1) kr by (auto simp: floor_le_iff field_simps)
  have "representable (of_int ?f * 2 powi (- 18))" "representable (of_int (?f + 1) * 2 powi (- 18))"
    using f by (intro representable_dyadic; simp)+
  then have rep: "representable (of_int ?f / 2 ^ 18)" "representable ((of_int ?f + 1) / 2 ^ 18)"
    by (simp_all add: power_int_def power_divide)
  have b: "of_int ?f / 2 ^ 18 \<le> ?x" "?x \<le> (of_int ?f + 1) / 2 ^ 18"
    using of_int_floor_le [of "?x * 2 ^ 18"] floor_correct [of "?x * 2 ^ 18"]
    by (simp_all add: field_simps)
  obtain q where "rnd ?x = Fin q" "of_int ?f / 2 ^ 18 \<le> q" "q \<le> (of_int ?f + 1) / 2 ^ 18"
    using rnd_near [OF rep(1) b(1) rep(2) b(2)] by blast
  with b show ?thesis unfolding add_divide_distrib by (intro exI [of _ q]) linarith
qed

lemma hundredths_exact:
  assumes k: "0 \<le> k" "k \<le> 2 ^ 40"
  shows "llround (dmul (rnd (of_int k / 100)) (Fin 100)) = Some k"
proof -
  obtain q where q: "rnd (of_int k / 100) = Fin q" "of_int k / 100 - 1 / 2 ^ 18 \<le> q" "q \<le> of_int k / 100 + 1 / 2 ^ 18"
    using rnd_hundredth [OF k] by blast
  have "representable (of_int (k * 2 ^ 11 - 1) * 2 powi (- 11))"
    "representable (of_int (k * 2 ^ 11 + 1) * 2 powi (- 11))"
    using k by (intro representable_dyadic; simp)+
  then have rep: "representable (of_int k - 1 / 2 ^ 11)" "representable (of_int k + 1 / 2 ^ 11)"
    by (simp_all add: power_int_def power_divide field_simps)
  have "of_int k - 1 / 2 ^ 11 \<le> q * 100" "q * 100 \<le> of_int k + 1 / 2 ^ 11"
    using q(2,3) by simp_all
  from rnd_near [OF rep(1) this(1) rep(2) this(2)]
  obtain r where r: "rnd (q * 100) = Fin r" "of_int k - 1 / 2 ^ 11 \<le> r" "r \<le> of_int k + 1 / 2 ^ 11"
    by blast
  have "(if r < 0 then - \<lfloor>- r + 1 / 2\<rfloor> else \<lfloor>r + 1 / 2\<rfloor>) = k"
  proof (cases "r < 0")
    case True
    with r(2) k(1) have "of_int k < (1 :: rat)" by simp
    with k(1) have "k = 0" by (metis of_int_less_1_iff zle_add1_eq_le add_0 order_antisym int_one_le_iff_zero_less not_less)
    with r True show ?thesis by (auto simp: floor_eq_iff)
  next
    case False
    with r show ?thesis by (auto simp: floor_eq_iff)
  qed
  then show ?thesis using k by (simp add: q(1) r(1) llround_def Let_def)
qed

lemma decoded_hundredths: "0 \<le> k \<Longrightarrow> k \<le> 2 ^ 40 \<Longrightarrow>
    ddiv (of_integer (uint (word_of_int k :: u64))) (Fin 100) = rnd (of_int k / 100)"
proof -
  assume k: "0 \<le> k" "k \<le> 2 ^ 40"
  have "uint (word_of_int k :: u64) = k" using k by (intro word_of_int_inverse [OF refl]) auto
  moreover have "representable (of_int k)" using k by (intro representable_int) simp
  ultimately show ?thesis by (simp add: of_integer_def representable_def)
qed

lemma end_payload_decode:
  assumes k: "0 \<le> k" "k \<le> 2 ^ 40" and g: "unat gid < 2 ^ 56" and h: "length hash < 2 ^ 56"
    and enc: "encodeEndPayload gid (rnd (of_int k / 100)) hash = Some bs" and len: "length bs < 2 ^ 63"
  shows "fieldsToPayload libm_exp now ''ed'' (decodeProtobuf bs) =
       CrashPayload_default\<lparr>cp_gameId := Some (show_nat (unat gid)),
         cp_multiplier := Some (rnd (of_int k / 100)),
         cp_hash := (if hash \<noteq> [] then Some hash else None), cp_endTime := Some now\<rparr>"
proof -
  let ?fs = "[(1, PNum gid), (6, PNum (word_of_int k))] @ (if hash \<noteq> [] then [(7, PStr hash)] else [])"
  have kw: "unat (word_of_int k :: u64) = nat k"
    using k word_of_int_inverse [OF refl, of k, where 'a = 64] by (simp add: unat_eq_nat_uint)
  have "nat k < 2 ^ 56" using k by simp
  then have ok: "list_all field_ok ?fs" using g h kw by simp
  have bs: "bs = encodeProtobuf ?fs"
    using enc hundredths_exact [OF k] by (simp add: encodeEndPayload_def)
  then have "decodeProtobuf bs = map_of (rev ?fs)" using protobuf_decode_encode [OF ok] len by simp
  then show ?thesis using decoded_hundredths [OF k]
    by (auto simp: fieldsToPayload_def getNum_def getStr_def CrashPayload_default_def)
qed

text \<open>An end-of-round payload survives encoding and decoding: for every crash point with
  two decimals (up to \<open>2^40\<close> hundredths) the decoded payload has the same game id, the
  bit-identical \<open>double\<close> multiplier and the same hash, and is stamped with the receive time.\<close>

theorem end_payload_roundtrip:
  assumes k: "0 \<le> k" "k \<le> 2 ^ 40" and g: "unat gid < 2 ^ 56" and h: "length hash < 2 ^ 56"
  shows "\<exists>bs. encodeEndPayload gid (rnd (of_int k / 100)) hash = Some bs \<and>
    (length bs < 2 ^ 63 \<longrightarrow>
     fieldsToPayload libm_exp now ''ed'' (decodeProtobuf bs) =
       CrashPayload_default\<lparr>cp_gameId := Some (show_nat (unat gid)),
         cp_multiplier := Some (rnd (of_int k / 100)),
         cp_hash := (if hash \<noteq> [] then Some hash else None), cp_endTime := Some now\<rparr>)"
proof -
  have "llround (dmul (rnd (of_int k / 100)) (Fin 100)) = Some k" using hundredths_exact [OF k] .
  then obtain bs where bs: "encodeEndPayload gid (rnd (of_int k / 100)) hash = Some bs"
    by (simp add: encodeEndPayload_def)
  then show ?thesis using end_payload_decode [OF k g h bs] by blast
qed

theorem end_payload_roundtrip_witness:
  "\<exists>bs. encodeEndPayload 7 (rnd (of_int 250 / 100)) ''h1'' = Some bs \<and>
    (length bs < 2 ^ 63 \<longrightarrow>
     fieldsToPayload (\<lambda>x. x) 99 ''ed'' (decodeProtobuf bs) =
       CrashPayload_default\<lparr>cp_gameId := Some (show_nat (unat (7 :: u64))),
         cp_multiplier := Some (rnd (of_int 250 / 100)),
         cp_hash := (if ''h1'' \<noteq> [] then Some ''h1'' else None), cp_endTime := Some 99\<rparr>)"
  by (rule end_payload_roundtrip) simp_all

text \<open>A progress payload is the tag byte 8 followed by the varint of the elapsed time.\<close>

lemma encodeProgressPayload_eq: "encodeProgressPayload e = 8 # writeVarint (word_of_int e)"
proof -
  have "wire_tag 1 0 = 8" using unat_wire_tag [of 1 0] by (intro unat_eqI) simp
  then show ?thesis by (simp add: encodeProgressPayload_def encodeProtobuf_def writeVarint.simps [of 8])
qed

lemma sint_small: "0 \<le> e \<Longrightarrow> e < 2 ^ 56 \<Longrightarrow> sint (word_of_int e :: u64) = e"
  by (simp add: int_word_sint)

lemma decode_progress_encode:
  assumes "0 \<le> e" "e < 2 ^ 56"
  shows "decodeProgressElapsed (encodeProgressPayload e) = Some e"
proof -
  have "uint (word_of_int e :: u64) = e" using assms by (intro word_of_int_inverse [OF refl]) auto
  then have "unat (word_of_int e :: u64) < 2 ^ 56" using assms by (simp add: unat_eq_nat_uint)
  then have "readVarint ([8] @ writeVarint (word_of_int e) @ []) (length [8 :: u8]) =
      (True, length [8 :: u8] + length (writeVarint (word_of_int e)), word_of_int e)"
    by (rule readVarint_write)
  then show ?thesis using assms
    by (simp add: decodeProgressElapsed_def encodeProgressPayload_eq sint_small)
qed

text \<open>The elapsed time of a progress tick is recovered exactly from its payload, directly and
  through the guarded decoder \<open>safeDecodeProgress\<close>.\<close>

theorem progress_payload_roundtrip:
  assumes "0 \<le> e" "e < 2 ^ 56"
  shows "decodeProgressElapsed (encodeProgressPayload e) = Some e \<and>
    safeDecodeProgress (encodeProgressPayload e) = Some e"
  using decode_progress_encode [OF assms] encodeProgressPayload_eq [of e] writeVarint_length [of "word_of_int e"]
  by (simp add: safeDecodeProgress_def)

theorem progress_payload_roundtrip_witness:
  "decodeProgressElapsed (encodeProgressPayload 12345) = Some 12345 \<and>
    safeDecodeProgress (encodeProgressPayload 12345) = Some 12345"
  by (rule progress_payload_roundtrip) simp_all

section \<open>Classification of well-formed packets\<close>

lemma binary_not_control:
  "xs = 0x04 # ys \<Longrightarrow> \<not> isPing xs \<and> \<not> isPong xs \<and> \<not> isOpenFrame xs \<and> \<not> isClose xs \<and> \<not> isMessage xs"
  by (auto simp: isPing_def isPong_def isOpenFrame_def isClose_def isMessage_def)

lemma parse_encodeEvent:
  "length nsp < 256 \<Longrightarrow> length event < 256 \<Longrightarrow>
   parsePacket (encodeEvent nsp event payload) =
     SocketIoPacket_default\<lparr>pk_kind := Pk_Event, pk_nsp := nsp, pk_event := event, pk_payload := payload\<rparr>"
  using parse_event [of nsp event "[0x04, 0x02]"] by (simp add: encodeEvent_def)

lemma classify_encodeEvent:
  "length nsp < 256 \<Longrightarrow> length event < 256 \<Longrightarrow>
   classifyFrame (encodeEvent nsp event payload) = Fc_BinaryPacket"
proof -
  assume len: "length nsp < 256" "length event < 256"
  have "encodeEvent nsp event payload = 0x04 # tl (encodeEvent nsp event payload)" by (simp add: encodeEvent_def)
  note nc = binary_not_control [OF this]
  show ?thesis using nc parse_encodeEvent [OF len, of payload]
    by (simp add: classifyFrame_def) (simp add: encodeEvent_def Let_def SocketIoPacket_default_def)
qed

lemma synthetic_payloads:
  "\<exists>bs. encodeEndPayload gid (Fin 1) h = Some bs" "\<exists>bs. encodeEndPayload gid (Fin (5 / 2)) h = Some bs"
proof -
  have "representable (of_int 100)" "representable (of_int 250)" by (intro representable_int; simp)+
  then show "\<exists>bs. encodeEndPayload gid (Fin 1) h = Some bs" "\<exists>bs. encodeEndPayload gid (Fin (5 / 2)) h = Some bs"
    by (simp_all add: encodeEndPayload_def representable_def llround_def)
qed

text \<open>The protocol self-check of the program reports no failure, for every \<open>log\<close> whose value
  at 2.5 leaves the elapsed time in range: the five varints round-trip, the synthetic round has
  its seven frames and the classifier accepts each of them.\<close>

theorem self_check_passes:
  assumes "elapsedFromMultiplier libm_log (Fin (5 / 2)) = Some totalElapsed"
  shows "runProtocolSelfCheck libm_log = Some 0"
proof -
  have v: "varintRoundtripOk n" if "unat n < 2 ^ 56" for n
    using readVarint_write [OF that, of "[]" "[]"] by (simp add: varintRoundtripOk_def Let_def)
  obtain b1 b2 where "encodeEndPayload 1 (Fin 1) [] = Some b1" "encodeEndPayload 1 (Fin (5 / 2)) ''synth'' = Some b2"
    using synthetic_payloads by blast
  moreover have "[1..5 :: int] = [1, 2, 3, 4, 5]" by (simp add: upto.simps)
  moreover have "classifyFrame [0x32] = Fc_EnginePing" by (simp add: classifyFrame_def isPing_def)
  ultimately show ?thesis using assms
    by (simp add: runProtocolSelfCheck_def syntheticRoundFrames_def classify_encodeEvent v)
qed

theorem self_check_passes_witness:
  "runProtocolSelfCheck (\<lambda>x. Fin 0) = Some 0"
proof (rule self_check_passes)
  obtain q where q: "six_e_minus_5 = Fin q" "0 < q" using six_e_minus_5_pos by blast
  have "ddiv (Fin 0) six_e_minus_5 = Fin 0" unfolding q(1) using q(2) by simp
  then show "elapsedFromMultiplier (\<lambda>x. Fin 0) (Fin (5 / 2)) = Some 0"
    by (simp add: elapsedFromMultiplier_def cast_int64_def trunc_rat_def Let_def)
qed

end
