(* ===== verification/WsFrame.thy ===== *)
theory WsFrame
  imports Wire
begin

text \<open>
  WebSocket framing, \<open>include/ingestion/websocket/ws_frame.hpp\<close>. \<open>Opcode\<close> has the fixed
  underlying type \<open>std::uint8_t\<close>, so \<open>static_cast<Opcode>\<close> of any nibble is a value of it:
  it is a byte here with the enumerators as constants. The extended payload length is a
  64-bit word read from the wire, and the check \<open>len < off + payloadLen\<close> is on words.
  \<open>std::vector::resize\<close> beyond \<open>max_size\<close> throws \<open>std::length_error\<close>, one of the outcomes.
\<close>

section \<open>Frames\<close>

type_synonym Opcode = u8

definition Op_Continuation :: Opcode where "Op_Continuation = 0x0"
definition Op_Text :: Opcode where "Op_Text = 0x1"
definition Op_Binary :: Opcode where "Op_Binary = 0x2"
definition Op_Close :: Opcode where "Op_Close = 0x8"
definition Op_Ping :: Opcode where "Op_Ping = 0x9"
definition Op_Pong :: Opcode where "Op_Pong = 0xA"

record Frame =
  fr_fin :: bool
  fr_opcode :: Opcode
  fr_payload :: bytes
  fr_masked :: bool

datatype decode_result = NoFrame | Decoded Frame | ThrowLengthError

definition ws_mask :: bytes where
  "ws_mask = [0x12, 0x34, 0x56, 0x78]"

definition apply_mask :: "bytes \<Rightarrow> bytes \<Rightarrow> bytes" where
  "apply_mask mk payload = map (\<lambda>i. payload ! i XOR mk ! (i mod 4)) [0..<length payload]"

definition encode_length :: "nat \<Rightarrow> bool \<Rightarrow> bytes" where
  "encode_length len masked =
     (let m = (if masked then 0x80 else 0) :: u8
      in if len < 126 then [word_of_nat len OR m]
      else if len \<le> 0xffff then
        [126 OR m, ucast (drop_bit 8 (word_of_nat len :: u64) AND 0xff), ucast ((word_of_nat len :: u64) AND 0xff)]
      else (127 OR m) # map (\<lambda>i. ucast (drop_bit (i * 8) (word_of_nat len :: u64) AND 0xff)) [7, 6, 5, 4, 3, 2, 1, 0])"

definition encodeFrame :: "Frame \<Rightarrow> bytes" where
  "encodeFrame f =
     [(if fr_fin f then 0x80 else 0) OR (fr_opcode f AND 0x0f)] @
     encode_length (length (fr_payload f)) (fr_masked f) @
     (if fr_masked f then ws_mask @ apply_mask ws_mask (fr_payload f) else fr_payload f)"

definition vector_max_size :: u64 where
  "vector_max_size = 0x7fffffffffffffff"

text \<open>The extended length: \<^const>\<open>None\<close> when the header is cut off.\<close>

definition read_length :: "bytes \<Rightarrow> (u64 \<times> nat) option" where
  "read_length data =
     (let payloadLen = ucast (data ! 1 AND 0x7f) :: u64
      in if payloadLen = 126 then
           (if length data < 4 then None
            else Some (push_bit 8 (ucast (data ! 2)) OR ucast (data ! 3), 4))
         else if payloadLen = 127 then
           (if length data < 10 then None
            else Some (foldl (\<lambda>acc i. push_bit 8 acc OR ucast (data ! (2 + i))) 0 [0..<8], 10))
         else Some (payloadLen, 2))"

definition decodeFrame :: "bytes \<Rightarrow> decode_result" where
  "decodeFrame data =
     (if length data < 2 then NoFrame
      else case read_length data of
        None \<Rightarrow> NoFrame
      | Some (payloadLen, off) \<Rightarrow>
          let masked = (data ! 1 AND 0x80 \<noteq> 0)
          in if masked \<and> length data < off + 4 then NoFrame
          else let mk = (if masked then take 4 (drop off data) else [0, 0, 0, 0]);
                   off = (if masked then off + 4 else off)
          in if (word_of_nat (length data) :: u64) < word_of_nat off + payloadLen then NoFrame
          else if payloadLen > vector_max_size then ThrowLengthError
          else let raw = take (unat payloadLen) (drop off data)
          in Decoded \<lparr>fr_fin = (data ! 0 AND 0x80 \<noteq> 0), fr_opcode = data ! 0 AND 0x0f,
                      fr_payload = (if masked then apply_mask mk raw else raw), fr_masked = masked\<rparr>)"

definition encodeBinary :: "bytes \<Rightarrow> bool \<Rightarrow> bytes" where
  "encodeBinary payload msk =
     encodeFrame \<lparr>fr_fin = True, fr_opcode = Op_Binary, fr_payload = payload, fr_masked = msk\<rparr>"

definition encodeText :: "string \<Rightarrow> bool \<Rightarrow> bytes" where
  "encodeText txt msk =
     encodeFrame \<lparr>fr_fin = True, fr_opcode = Op_Text, fr_payload = of_text txt, fr_masked = msk\<rparr>"

section \<open>Round trip\<close>

lemma apply_mask_twice: "length mk = 4 \<Longrightarrow> apply_mask mk (apply_mask mk xs) = xs"
  by (rule nth_equalityI) (simp_all add: apply_mask_def xor.assoc)

lemma length_apply_mask [simp]: "length (apply_mask m xs) = length xs"
  by (simp add: apply_mask_def)

lemma bit_0xff [simp]: "bit (0xff :: u64) n \<longleftrightarrow> n < 8" "bit (0xff :: int) n \<longleftrightarrow> n < 8"
  using bit_mask_iff [where 'a = u64, of 8 n] bit_mask_iff [where 'a = int, of 8 n]
  by (auto simp: mask_eq_exp_minus_1)

lemma byte_step:
  "push_bit 8 (drop_bit (k + 8) (w :: u64)) OR ucast (ucast (drop_bit k w AND 0xff) :: u8) = drop_bit k w"
proof (rule bit_word_eqI)
  fix i
  assume "i < LENGTH(64)"
  then show "bit (push_bit 8 (drop_bit (k + 8) w) OR ucast (ucast (drop_bit k w AND 0xff) :: u8)) i =
      bit (drop_bit k w) i"
    by (cases "i < 8") (auto simp: bit_simps algebra_simps)
qed

lemma len_byte_bits:
  assumes n: "unat (x :: u8) < 128" and m: "m = 0 \<or> m = 0x80"
  shows "(x OR m) AND 0x7f = x" and "(x OR m) AND 0x80 = m"
proof -
  have t: "take_bit 7 x = x" using n unat_less_exp_iff [of x 7] by simp
  have nb: "bit x i \<Longrightarrow> i < 7" for i
    by (subst (asm) t [symmetric]) (simp add: bit_take_bit_iff)
  show "(x OR m) AND 0x7f = x" "(x OR m) AND 0x80 = m"
    using m by (auto intro!: bit_word_eqI simp: bit_simps dest: nb)
qed

lemma opcode_bits:
  assumes "unat (x :: u8) < 16"
  shows "((if b then 0x80 else 0) OR (x AND 0x0f)) AND 0x0f = x"
    and "((if b then 0x80 else 0) OR (x AND 0x0f)) AND 0x80 \<noteq> 0 \<longleftrightarrow> b"
proof -
  have t: "take_bit 4 x = x" using assms unat_less_exp_iff [of x 4] by simp
  have nb: "bit x i \<Longrightarrow> i < 4" for i
    by (subst (asm) t [symmetric]) (simp add: bit_take_bit_iff)
  have "x AND 0x0f = x" by (rule bit_word_eqI) (auto simp: bit_simps dest: nb)
  moreover have "x AND 0x80 = 0" by (rule bit_word_eqI) (auto simp: bit_simps dest: nb)
  moreover have "((0x80 :: u8) OR x) AND 0x0f = x" by (rule bit_word_eqI) (auto simp: bit_simps dest: nb)
  moreover have "((0x80 :: u8) OR x) AND 0x80 = 0x80" by (rule bit_word_eqI) (auto simp: bit_simps dest: nb)
  ultimately show "((if b then 0x80 else 0) OR (x AND 0x0f)) AND 0x0f = x"
    "((if b then 0x80 else 0) OR (x AND 0x0f)) AND 0x80 \<noteq> 0 \<longleftrightarrow> b"
    by simp_all
qed

text \<open>Reading back the length that \<^const>\<open>encode_length\<close> wrote after the first byte.\<close>

lemma drop_bit_too_big: "unat (w :: u64) < 2 ^ n \<Longrightarrow> drop_bit n w = 0"
  by (metis unat_less_exp_iff drop_bit_take_bit diff_self_eq_0 take_bit_0)

lemma read_encoded_length:
  assumes len: "n < 2 ^ 63" and bs_def: "bs = b0 # encode_length n m @ rest"
  shows "read_length bs = Some (word_of_nat n, 1 + length (encode_length n m))"
    and "bs ! 1 AND 0x80 \<noteq> 0 \<longleftrightarrow> m"
proof -
  let ?w = "word_of_nat n :: u64"
  have w: "unat ?w = n" using len by (simp add: unat_of_nat)
  let ?m = "(if m then 0x80 else 0) :: u8"
  have m: "?m = 0 \<or> ?m = 0x80" by simp
  consider "n < 126" | "126 \<le> n" "n \<le> 0xffff" | "0xffff < n" by linarith
  then have "read_length bs = Some (?w, 1 + length (encode_length n m)) \<and> (bs ! 1 AND 0x80 \<noteq> 0 \<longleftrightarrow> m)"
  proof cases
    case 1
    then have u: "unat (word_of_nat n :: u8) = n" by (simp add: unat_of_nat)
    have "ucast (word_of_nat n :: u8) = ?w" using w u len by (intro unat_eqI) (simp add: unsigned_ucast_eq take_bit_nat_eq_self_iff)
    moreover have "?w \<noteq> 126" "?w \<noteq> 127" using 1 w by (auto simp del: unsigned_of_nat)
    ultimately show ?thesis using 1 len_byte_bits [OF _ m, of "word_of_nat n"] u
      by (simp add: bs_def encode_length_def read_length_def Let_def)
  next
    case 2
    have "drop_bit 16 ?w = 0" using 2 w by (intro drop_bit_too_big) simp
    then have "ucast (ucast (drop_bit 8 ?w AND 0xff) :: u8) = drop_bit 8 ?w"
      using byte_step [of 8 ?w] by simp
    then have "push_bit 8 (ucast (ucast (drop_bit 8 ?w AND 0xff) :: u8)) OR ucast (ucast (?w AND 0xff) :: u8) = ?w"
      using byte_step [of 0 ?w] by simp
    then show ?thesis using 2 len_byte_bits [OF _ m, of 126]
      by (simp add: bs_def encode_length_def read_length_def Let_def)
  next
    case 3
    have "drop_bit 64 ?w = 0" by (simp add: drop_bit_too_big)
    then show ?thesis using 3 len_byte_bits [OF _ m, of 127]
        byte_step [of 56 ?w] byte_step [of 48 ?w] byte_step [of 40 ?w] byte_step [of 32 ?w]
        byte_step [of 24 ?w] byte_step [of 16 ?w] byte_step [of 8 ?w] byte_step [of 0 ?w]
      by (simp add: bs_def encode_length_def read_length_def Let_def upt_rec)
  qed
  then show "read_length bs = Some (?w, 1 + length (encode_length n m))" "bs ! 1 AND 0x80 \<noteq> 0 \<longleftrightarrow> m"
    by blast+
qed

lemma length_encode_length: "length (encode_length n m) \<le> 9"
  by (simp add: encode_length_def Let_def)

lemma not_too_long: "n \<le> l \<Longrightarrow> l < 2 ^ 63 \<Longrightarrow> i + n \<le> l \<Longrightarrow>
    \<not> (word_of_nat l :: u64) < word_of_nat i + word_of_nat n"
proof -
  assume "n \<le> l" "l < 2 ^ 63" "i + n \<le> l"
  moreover have "(word_of_nat i + word_of_nat n :: u64) = word_of_nat (i + n)" by simp
  ultimately show ?thesis by (simp add: word_less_nat_alt unat_of_nat del: of_nat_add)
qed

text \<open>C32: every frame round-trips: decoding what \<open>encodeFrame\<close> wrote, even with more bytes behind
  it, returns the same frame for every opcode nibble, either length format, masked or not.\<close>

theorem ws_frame_roundtrip:
  assumes op: "unat (fr_opcode f) < 16" and len: "length (encodeFrame f @ rest) < 2 ^ 63"
  shows "decodeFrame (encodeFrame f @ rest) = Decoded f"
proof -
  let ?n = "length (fr_payload f)" and ?m = "fr_masked f"
  let ?body = "if ?m then ws_mask @ apply_mask ws_mask (fr_payload f) else fr_payload f"
  define b0 where "b0 = (if fr_fin f then 0x80 else 0) OR (fr_opcode f AND (0x0f :: u8))"
  define bs where "bs = encodeFrame f @ rest"
  define i where "i = 1 + length (encode_length ?n ?m)"
  have bs: "bs = b0 # encode_length ?n ?m @ (?body @ rest)" by (simp add: bs_def encodeFrame_def b0_def)
  have n: "?n < 2 ^ 63" "length bs < 2 ^ 63" using len by (cases ?m; simp add: bs_def encodeFrame_def)+
  note rl = read_encoded_length [OF n(1) bs]
  have b0: "bs ! 0 AND 0x0f = fr_opcode f" "bs ! 0 AND 0x80 \<noteq> 0 \<longleftrightarrow> fr_fin f"
    using opcode_bits [OF op, of "fr_fin f"] by (simp_all add: bs b0_def)
  have d: "drop i bs = ?body @ rest" by (simp add: bs i_def)
  have li: "2 \<le> length bs" "i + length ?body \<le> length bs" by (simp_all add: bs i_def encode_length_def Let_def)
  have max: "\<not> word_of_nat ?n > vector_max_size" using n(1)
    by (simp add: vector_max_size_def word_less_nat_alt unat_of_nat)
  have u: "unat (word_of_nat ?n :: u64) = ?n" using n(1) by (simp add: unat_of_nat)
  show ?thesis
  proof (cases ?m)
    case True
    have i4: "drop (i + 4) bs = apply_mask ws_mask (fr_payload f) @ rest"
    proof -
      have "drop (i + 4) bs = drop 4 (drop i bs)" by (simp add: add.commute)
      then show ?thesis using True by (simp add: d ws_mask_def)
    qed
    have "\<not> (word_of_nat (length bs) :: u64) < word_of_nat (i + 4) + word_of_nat ?n"
      using True li n by (intro not_too_long) (auto simp: ws_mask_def)
    then have "decodeFrame bs = Decoded \<lparr>fr_fin = fr_fin f, fr_opcode = fr_opcode f,
        fr_payload = apply_mask (take 4 (drop i bs)) (take ?n (drop (i + 4) bs)), fr_masked = True\<rparr>"
      using True li rl b0 max u by (auto simp: decodeFrame_def Let_def i_def ws_mask_def)
    then have "decodeFrame bs = Decoded f" unfolding i4 d
      using True apply_mask_twice [of ws_mask "fr_payload f"] by (simp add: ws_mask_def)
    then show ?thesis by (simp add: bs_def)
  next
    case False
    have "\<not> (word_of_nat (length bs) :: u64) < word_of_nat i + word_of_nat ?n"
      using False li n by (intro not_too_long) auto
    then have "decodeFrame bs = Decoded \<lparr>fr_fin = fr_fin f, fr_opcode = fr_opcode f,
        fr_payload = take ?n (drop i bs), fr_masked = False\<rparr>"
      using False li rl b0 max u by (auto simp: decodeFrame_def Let_def i_def)
    then have "decodeFrame bs = Decoded f" unfolding d using False by simp
    then show ?thesis by (simp add: bs_def)
  qed
qed

text \<open>C33: on arbitrary bytes the decoder never reads outside the buffer: a decoded frame has
  exactly the announced number of payload bytes, all of which lie behind the header and mask and
  inside the received data; the only other outcome than "incomplete" is the \<open>length_error\<close> that
  a 64-bit length makes \<open>resize\<close> throw, and only a length within 14 of \<open>2^64\<close>, whose bound check
  wrapped, gets that far.\<close>

theorem ws_decode_safe:
  assumes len: "length data < 2 ^ 63"
  shows "case decodeFrame data of
      NoFrame \<Rightarrow> True
    | Decoded f \<Rightarrow> (\<exists>n i. read_length data = Some (n, i) \<and> length (fr_payload f) = unat n \<and>
        i + (if fr_masked f then 4 else 0) + unat n \<le> length data)
    | ThrowLengthError \<Rightarrow> (\<exists>n i. read_length data = Some (n, i) \<and> 2 ^ 64 - 14 \<le> unat n)"
proof (cases "read_length data")
  case None
  then show ?thesis by (simp add: decodeFrame_def)
next
  case (Some ni)
  obtain n i where ni: "ni = (n, i)" by (cases ni)
  let ?i = "if data ! 1 AND 0x80 \<noteq> 0 then i + 4 else i"
  have i: "i \<le> 10" using Some ni by (auto simp: read_length_def Let_def split: if_splits)
  have l: "unat (word_of_nat (length data) :: u64) = length data" using len by (simp add: unat_of_nat)
  have o: "unat (word_of_nat ?i :: u64) = ?i" using i by (simp add: unat_of_nat)
  have guard: "?i + unat n \<le> length data \<or> 2 ^ 64 - 14 \<le> unat n"
    if "\<not> (word_of_nat (length data) :: u64) < word_of_nat ?i + n"
  proof (cases "?i + unat n < 2 ^ 64")
    case True
    then have "unat (word_of_nat ?i + n) = ?i + unat n"
      using o by (subst unat_add_lem [THEN iffD1]) simp_all
    with that l show ?thesis by (simp add: word_less_nat_alt del: of_nat_add)
  next
    case False
    then show ?thesis using i by (auto split: if_splits)
  qed
  have small: "unat n \<le> 2 ^ 63" if "\<not> n > vector_max_size"
    using that by (simp add: vector_max_size_def word_less_nat_alt)
  have big: "length data < unat n" if "n > vector_max_size"
    using that len by (simp add: vector_max_size_def word_less_nat_alt)
  show ?thesis
  proof (cases "decodeFrame data")
    case (Decoded f)
    then have g: "\<not> (word_of_nat (length data) :: u64) < word_of_nat ?i + n" "\<not> n > vector_max_size"
      "fr_masked f = (data ! 1 AND 0x80 \<noteq> 0)" "length (fr_payload f) = min (length data - ?i) (unat n)"
      using Some ni by (auto simp: decodeFrame_def Let_def split: if_splits)
    with guard small have "?i + unat n \<le> length data" by fastforce
    then show ?thesis using Some ni Decoded g by auto
  next
    case ThrowLengthError
    then have g: "\<not> (word_of_nat (length data) :: u64) < word_of_nat ?i + n" "n > vector_max_size"
      using Some ni by (auto simp: decodeFrame_def Let_def split: if_splits)
    with guard big Some ni ThrowLengthError show ?thesis by fastforce
  qed simp
qed

theorem ws_frame_roundtrip_witness:
  "decodeFrame (encodeFrame \<lparr>fr_fin = True, fr_opcode = Op_Ping, fr_payload = [1, 2, 3, 4, 5], fr_masked = True\<rparr> @ [7]) =
   Decoded \<lparr>fr_fin = True, fr_opcode = Op_Ping, fr_payload = [1, 2, 3, 4, 5], fr_masked = True\<rparr>"
  by (rule ws_frame_roundtrip)
    (simp_all add: Op_Ping_def encodeFrame_def encode_length_def Let_def ws_mask_def apply_mask_def)

theorem ws_decode_safe_witness:
  "case decodeFrame [0x82, 127, 255, 255, 255, 255, 255, 255, 255, 255] of
      NoFrame \<Rightarrow> True
    | Decoded f \<Rightarrow> (\<exists>n i. read_length [0x82, 127, 255, 255, 255, 255, 255, 255, 255, 255] = Some (n, i) \<and>
        length (fr_payload f) = unat n \<and>
        i + (if fr_masked f then 4 else 0) + unat n \<le> length [0x82 :: u8, 127, 255, 255, 255, 255, 255, 255, 255, 255])
    | ThrowLengthError \<Rightarrow>
        (\<exists>n i. read_length [0x82, 127, 255, 255, 255, 255, 255, 255, 255, 255] = Some (n, i) \<and> 2 ^ 64 - 14 \<le> unat n)"
  by (rule ws_decode_safe) simp

text \<open>The wrapped case happens: a ten-byte header that announces \<open>2^64 - 1\<close> payload bytes.\<close>

lemma ws_decode_length_wrap:
  "decodeFrame [0x82, 127, 255, 255, 255, 255, 255, 255, 255, 255] = ThrowLengthError"
  by (simp add: decodeFrame_def read_length_def vector_max_size_def Let_def upt_rec)

end
