(* ===== verification/Outcomes.thy ===== *)
theory Outcomes
  imports Types
begin

text \<open>
  The judgement of a prediction and what is kept about it: \<open>makeOutcome\<close>
  (\<open>include/validation/outcome.hpp\<close>), \<open>WinLossStats\<close> (\<open>win_loss.hpp\<close>),
  \<open>FeedbackPayload\<close> (\<open>feedback_contract.hpp\<close>), the runtime checks of \<open>invariants.hpp\<close>,
  \<open>LossCooldownTracker\<close> (\<open>loss_cooldown.hpp\<close>) and the fences of \<open>fencing.hpp\<close>.
  A call of \<open>nowMs()\<close> is the argument \<open>now\<close>.
\<close>

section \<open>Outcomes\<close>

definition makeOutcome :: "TimestampMs \<Rightarrow> PredictionEvent \<Rightarrow> double \<Rightarrow> Outcome" where
  "makeOutcome now pred actualMult =
     (let (res, win) =
        (if pe_decision pred \<noteq> Dec_Enter then (Out_Void, False)
         else if dle (pe_targetMult pred) actualMult \<and> dless (Fin 0) (pe_targetMult pred) then (Out_Win, True)
         else (Out_Loss, False))
      in \<lparr>oc_predictionId = pe_predictionId pred, oc_roundId = pe_targetRoundId pred, oc_result = res,
          oc_actualMult = actualMult, oc_targetMult = pe_targetMult pred, oc_resolvedAtMs = now, oc_isWin = win\<rparr>)"

fun outcomeName :: "PredictionOutcome \<Rightarrow> string" where
  "outcomeName Out_Pending = ''pending''"
| "outcomeName Out_Win = ''win''"
| "outcomeName Out_Loss = ''loss''"
| "outcomeName Out_Void = ''void''"
| "outcomeName Out_Stale = ''stale''"
| "outcomeName Out_Duplicate = ''duplicate''"

record WinLossStats =
  wl_wins :: u64
  wl_losses :: u64
  wl_voids :: u64
  wl_stale :: u64
  wl_sumConfidence :: double

definition WinLossStats_default :: WinLossStats where
  "WinLossStats_default = \<lparr>wl_wins = 0, wl_losses = 0, wl_voids = 0, wl_stale = 0, wl_sumConfidence = Fin 0\<rparr>"

definition wl_winRate :: "WinLossStats \<Rightarrow> double" where
  "wl_winRate s =
     (let n = wl_wins s + wl_losses s
      in if n = 0 then Fin 0 else ddiv (of_integer (uint (wl_wins s))) (of_integer (uint n)))"

definition wl_record :: "Outcome \<Rightarrow> double \<Rightarrow> WinLossStats \<Rightarrow> WinLossStats" where
  "wl_record oc confidence s =
     (let s = s\<lparr>wl_sumConfidence := dadd (wl_sumConfidence s) confidence\<rparr>
      in case oc_result oc of
           Out_Win \<Rightarrow> s\<lparr>wl_wins := wl_wins s + 1\<rparr>
         | Out_Loss \<Rightarrow> s\<lparr>wl_losses := wl_losses s + 1\<rparr>
         | Out_Void \<Rightarrow> s\<lparr>wl_voids := wl_voids s + 1\<rparr>
         | Out_Stale \<Rightarrow> s\<lparr>wl_stale := wl_stale s + 1\<rparr>
         | _ \<Rightarrow> s)"

section \<open>Feedback payloads\<close>

datatype FeedbackKind = Fb_OutcomeResolved | Fb_PredictionSkipped | Fb_RoundMissed | Fb_StaleExpired

record FeedbackPayload =
  fp_kind :: FeedbackKind
  fp_predictionId :: string
  fp_roundId :: string
  fp_result :: PredictionOutcome
  fp_actualMult :: double
  fp_targetMult :: double
  fp_confidence :: double
  fp_resolvedAtMs :: TimestampMs
  fp_correlationId :: string
  fp_modelVersion :: string
  fp_isWin :: bool

definition feedbackFromOutcome :: "TimestampMs \<Rightarrow> Outcome \<Rightarrow> double \<Rightarrow> string \<Rightarrow> string \<Rightarrow> FeedbackPayload" where
  "feedbackFromOutcome now oc confidence correlationId modelVersion =
     \<lparr>fp_kind = Fb_OutcomeResolved, fp_predictionId = oc_predictionId oc, fp_roundId = oc_roundId oc,
      fp_result = oc_result oc, fp_actualMult = oc_actualMult oc, fp_targetMult = oc_targetMult oc,
      fp_confidence = confidence,
      fp_resolvedAtMs = (if oc_resolvedAtMs oc \<noteq> 0 then oc_resolvedAtMs oc else now),
      fp_correlationId = correlationId, fp_modelVersion = modelVersion, fp_isWin = oc_isWin oc\<rparr>"

fun FeedbackKind_toString :: "FeedbackKind \<Rightarrow> string" where
  "FeedbackKind_toString Fb_OutcomeResolved = ''outcome_resolved''"
| "FeedbackKind_toString Fb_PredictionSkipped = ''prediction_skipped''"
| "FeedbackKind_toString Fb_RoundMissed = ''round_missed''"
| "FeedbackKind_toString Fb_StaleExpired = ''stale_expired''"

section \<open>Runtime invariants\<close>

datatype InvariantId =
    Iv_EndRequiresGameId | Iv_PredictionRequiresTarget | Iv_OutcomeRequiresPrediction
  | Iv_WinImpliesActualGteTarget | Iv_LossImpliesActualLtTarget | Iv_NoDuplicatePredictionId
  | Iv_SequenceNonDecreasing | Iv_COUNT

record InvariantViolation =
  iv_id :: InvariantId
  iv_message :: string
  iv_context :: string

abbreviation violation :: "InvariantId \<Rightarrow> string \<Rightarrow> string \<Rightarrow> InvariantViolation" where
  "violation i msg ctx \<equiv> \<lparr>iv_id = i, iv_message = msg, iv_context = ctx\<rparr>"

text \<open>The checker's only state is the number of violations found so far.\<close>

definition checkEndEvent :: "CrashEvent \<Rightarrow> u64 \<Rightarrow> InvariantViolation list \<times> u64" where
  "checkEndEvent e n =
     (if ev_kind e = Ev_End \<and> ev_gameId e = [] \<and> ev_roundId e = []
      then ([violation Iv_EndRequiresGameId ''end without gameId'' []], n + 1) else ([], n))"

definition checkPrediction :: "PredictionEvent \<Rightarrow> u64 \<Rightarrow> InvariantViolation list \<times> u64" where
  "checkPrediction e n =
     (let (v, n) = (if pe_targetRoundId e = []
            then ([violation Iv_PredictionRequiresTarget ''empty targetRoundId'' (pe_predictionId e)], n + 1)
            else ([], n))
      in if pe_predictionId e = []
         then (v @ [violation Iv_NoDuplicatePredictionId ''empty predictionId'' []], n + 1) else (v, n))"

definition checkOutcome :: "Outcome \<Rightarrow> u64 \<Rightarrow> InvariantViolation list \<times> u64" where
  "checkOutcome oc n =
     (let (v, n) = (if oc_predictionId oc = []
            then ([violation Iv_OutcomeRequiresPrediction ''empty predictionId'' (oc_roundId oc)], n + 1)
            else ([], n));
          (v, n) = (if oc_result oc = Out_Win \<and> dless (Fin 0) (oc_targetMult oc) \<and> dless (oc_actualMult oc) (oc_targetMult oc)
            then (v @ [violation Iv_WinImpliesActualGteTarget ''WIN but actual < target'' (oc_predictionId oc)], n + 1)
            else (v, n))
      in if oc_result oc = Out_Loss \<and> dless (Fin 0) (oc_targetMult oc) \<and> dle (oc_targetMult oc) (oc_actualMult oc)
         then (v @ [violation Iv_LossImpliesActualLtTarget ''LOSS but actual >= target'' (oc_predictionId oc)], n + 1)
         else (v, n))"

section \<open>Loss cooldown\<close>

record CooldownState =
  cs_consecutiveLosses :: int
  cs_consecutiveWins :: int
  cs_lastLossMs :: TimestampMs
  cs_lastWinMs :: TimestampMs
  cs_cooldownUntilMs :: TimestampMs
  cs_active :: bool

record LossCooldownTracker =
  lc_loss_threshold :: int
  lc_cooldown_ms :: int
  lc_state :: CooldownState
  lc_activations :: u64
  lc_wins :: u64
  lc_losses :: u64
  lc_rounds :: u64

definition CooldownState_default :: CooldownState where
  "CooldownState_default =
     \<lparr>cs_consecutiveLosses = 0, cs_consecutiveWins = 0, cs_lastLossMs = 0, cs_lastWinMs = 0,
      cs_cooldownUntilMs = 0, cs_active = False\<rparr>"

definition LossCooldownTracker_new :: "int \<Rightarrow> int \<Rightarrow> LossCooldownTracker" where
  "LossCooldownTracker_new lossThreshold cooldownMs =
     \<lparr>lc_loss_threshold = lossThreshold, lc_cooldown_ms = cooldownMs, lc_state = CooldownState_default,
      lc_activations = 0, lc_wins = 0, lc_losses = 0, lc_rounds = 0\<rparr>"

definition resolved_at :: "TimestampMs \<Rightarrow> Outcome \<Rightarrow> TimestampMs" where
  "resolved_at now oc = (if oc_resolvedAtMs oc \<noteq> 0 then oc_resolvedAtMs oc else now)"

definition lc_noteOutcome :: "TimestampMs \<Rightarrow> Outcome \<Rightarrow> LossCooldownTracker \<Rightarrow> LossCooldownTracker" where
  "lc_noteOutcome now oc t =
     (let st = lc_state t
      in if oc_result oc = Out_Win then
           t\<lparr>lc_state := st\<lparr>cs_consecutiveWins := cs_consecutiveWins st + 1, cs_consecutiveLosses := 0,
                cs_lastWinMs := resolved_at now oc, cs_active := False, cs_cooldownUntilMs := 0\<rparr>,
             lc_wins := lc_wins t + 1\<rparr>
         else if oc_result oc = Out_Loss then
           let st = st\<lparr>cs_consecutiveLosses := cs_consecutiveLosses st + 1, cs_consecutiveWins := 0,
                       cs_lastLossMs := resolved_at now oc\<rparr>;
               t = t\<lparr>lc_losses := lc_losses t + 1\<rparr>
           in if cs_consecutiveLosses st \<ge> lc_loss_threshold t then
                t\<lparr>lc_state := st\<lparr>cs_active := True, cs_cooldownUntilMs := cs_lastLossMs st + lc_cooldown_ms t\<rparr>,
                  lc_activations := lc_activations t + 1\<rparr>
              else t\<lparr>lc_state := st\<rparr>
         else t)"

definition lc_noteRoundCompleted :: "LossCooldownTracker \<Rightarrow> LossCooldownTracker" where
  "lc_noteRoundCompleted t = t\<lparr>lc_rounds := lc_rounds t + 1\<rparr>"

definition lc_inCooldown :: "TimestampMs \<Rightarrow> TimestampMs \<Rightarrow> LossCooldownTracker \<Rightarrow> bool" where
  "lc_inCooldown clock now t =
     (let now = (if now \<le> 0 then clock else now)
      in cs_active (lc_state t) \<and> now < cs_cooldownUntilMs (lc_state t))"

section \<open>Fences\<close>

type_synonym GenerationFence = "string \<rightharpoonup> u64"

definition gf_current :: "string \<Rightarrow> GenerationFence \<Rightarrow> u64" where
  "gf_current key f = (case f key of None \<Rightarrow> 0 | Some g \<Rightarrow> g)"

definition gf_bump :: "string \<Rightarrow> GenerationFence \<Rightarrow> u64 \<times> GenerationFence" where
  "gf_bump key f = (let g = (case f key of None \<Rightarrow> 0 | Some g \<Rightarrow> g) + 1 in (g, f(key \<mapsto> g)))"

definition gf_isCurrent :: "string \<Rightarrow> u64 \<Rightarrow> GenerationFence \<Rightarrow> bool" where
  "gf_isCurrent key generation f \<longleftrightarrow> gf_current key f = generation"

definition gf_clear :: "string \<Rightarrow> GenerationFence \<Rightarrow> GenerationFence" where
  "gf_clear key f = f(key := None)"

definition ge_bump :: "u64 \<Rightarrow> u64 \<times> u64" where
  "ge_bump epoch = (epoch + 1, epoch + 1)"

definition ge_isCurrent :: "u64 \<Rightarrow> u64 \<Rightarrow> bool" where
  "ge_isCurrent epoch e \<longleftrightarrow> epoch = e"

section \<open>What an outcome says\<close>

lemma makeOutcome_result:
  "oc_result (makeOutcome now p m) =
     (if pe_decision p \<noteq> Dec_Enter then Out_Void
      else if dle (pe_targetMult p) m \<and> dless (Fin 0) (pe_targetMult p) then Out_Win else Out_Loss)"
  "oc_isWin (makeOutcome now p m) \<longleftrightarrow> oc_result (makeOutcome now p m) = Out_Win"
  by (simp_all add: makeOutcome_def)

lemma makeOutcome_fields [simp]:
  "oc_predictionId (makeOutcome now p m) = pe_predictionId p"
  "oc_roundId (makeOutcome now p m) = pe_targetRoundId p"
  "oc_actualMult (makeOutcome now p m) = m"
  "oc_targetMult (makeOutcome now p m) = pe_targetMult p"
  "oc_resolvedAtMs (makeOutcome now p m) = now"
  by (simp_all add: makeOutcome_def Let_def case_prod_beta)

lemma dle_not_dless: "dle a b \<Longrightarrow> \<not> dless b a"
  by (cases a; cases b) simp_all

text \<open>A prediction is judged a win exactly when it was an Enter with a positive target that the round reached,
  a loss when it was any other Enter and void otherwise; the runtime invariants never flag the judgement of a
  prediction that passed their check itself, and the violation counter stays where it was.\<close>

theorem outcome_sound:
  assumes "checkPrediction p n = ([], n)"
  shows "let oc = makeOutcome now p m in
    (oc_result oc = Out_Win \<longleftrightarrow> pe_decision p = Dec_Enter \<and> dle (pe_targetMult p) m \<and> dless (Fin 0) (pe_targetMult p)) \<and>
    (oc_result oc = Out_Void \<longleftrightarrow> pe_decision p \<noteq> Dec_Enter) \<and>
    oc_result oc \<in> {Out_Win, Out_Loss, Out_Void} \<and> (oc_isWin oc \<longleftrightarrow> oc_result oc = Out_Win) \<and>
    checkOutcome oc n = ([], n)"
proof -
  have ne: "pe_predictionId p \<noteq> []"
    using assms by (auto simp: checkPrediction_def split: if_splits)
  show ?thesis
  proof (cases "pe_decision p = Dec_Enter")
    case True
    then show ?thesis using ne dle_not_dless [of "pe_targetMult p" m]
      by (cases "dle (pe_targetMult p) m \<and> dless (Fin 0) (pe_targetMult p)")
        (simp_all add: makeOutcome_result checkOutcome_def, blast)
  next
    case False
    then show ?thesis using ne by (simp add: makeOutcome_result checkOutcome_def)
  qed
qed

definition demo_enter :: PredictionEvent where
  "demo_enter =
     \<lparr>pe_predictionId = ''p1'', pe_targetRoundId = ''7'', pe_gameId = ''7'', pe_decision = Dec_Enter,
      pe_confidence = Fin 1, pe_probability = Fin 1, pe_entryMult = Fin 1, pe_targetMult = Fin 2,
      pe_createdAtMs = 5, pe_createdAtNs = 0, pe_correlationId = [], pe_modelVersion = [], pe_delivered = False\<rparr>"

theorem outcome_sound_witness:
  "let oc = makeOutcome 9 demo_enter (Fin 3) in
    (oc_result oc = Out_Win \<longleftrightarrow> pe_decision demo_enter = Dec_Enter \<and> dle (pe_targetMult demo_enter) (Fin 3) \<and>
       dless (Fin 0) (pe_targetMult demo_enter)) \<and>
    (oc_result oc = Out_Void \<longleftrightarrow> pe_decision demo_enter \<noteq> Dec_Enter) \<and>
    oc_result oc \<in> {Out_Win, Out_Loss, Out_Void} \<and> (oc_isWin oc \<longleftrightarrow> oc_result oc = Out_Win) \<and>
    checkOutcome oc 4 = ([], 4)"
  by (rule outcome_sound) (simp add: checkPrediction_def demo_enter_def)

section \<open>The cooldown as a function of the history\<close>

text \<open>The reference: the length of the run of losses at the end of the history, outcomes other than wins and
  losses ignored, and the time of the last loss.\<close>

definition decisive :: "(TimestampMs \<times> Outcome) list \<Rightarrow> (TimestampMs \<times> Outcome) list" where
  "decisive h = filter (\<lambda>(_, oc). oc_result oc \<in> {Out_Win, Out_Loss}) h"

definition loss_run :: "(TimestampMs \<times> Outcome) list \<Rightarrow> nat" where
  "loss_run h = length (takeWhile (\<lambda>(_, oc). oc_result oc = Out_Loss) (rev (decisive h)))"

definition lc_run :: "(TimestampMs \<times> Outcome) list \<Rightarrow> LossCooldownTracker \<Rightarrow> LossCooldownTracker" where
  "lc_run h t = fold (\<lambda>(now, oc). lc_noteOutcome now oc) h t"

lemma loss_run_snoc:
  "loss_run (h @ [(now, oc)]) =
     (if oc_result oc = Out_Win then 0 else if oc_result oc = Out_Loss then Suc (loss_run h) else loss_run h)"
  by (simp add: loss_run_def decisive_def)

definition lc_spec :: "(TimestampMs \<times> Outcome) list \<Rightarrow> LossCooldownTracker \<Rightarrow> bool" where
  "lc_spec h t \<longleftrightarrow>
     cs_consecutiveLosses (lc_state t) = int (loss_run h) \<and>
     cs_active (lc_state t) = (lc_loss_threshold t \<le> int (loss_run h)) \<and>
     (cs_active (lc_state t) \<longrightarrow> cs_cooldownUntilMs (lc_state t) = cs_lastLossMs (lc_state t) + lc_cooldown_ms t) \<and>
     (0 < loss_run h \<longrightarrow> (\<exists>now oc. last (decisive h) = (now, oc) \<and> cs_lastLossMs (lc_state t) = resolved_at now oc))"

lemma lc_spec_step:
  assumes "lc_spec h t" "0 < lc_loss_threshold t"
  shows "lc_spec (h @ [(now, oc)]) (lc_noteOutcome now oc t)"
proof (cases "oc_result oc = Out_Win \<or> oc_result oc = Out_Loss")
  case True
  then show ?thesis using assms
    by (elim disjE) (auto simp: lc_spec_def loss_run_snoc lc_noteOutcome_def Let_def decisive_def)
next
  case False
  moreover from False have "decisive (h @ [(now, oc)]) = decisive h" by (simp add: decisive_def)
  ultimately show ?thesis using assms by (simp add: lc_spec_def loss_run_snoc lc_noteOutcome_def Let_def)
qed

lemma lc_config_note [simp]:
  "lc_loss_threshold (lc_noteOutcome now oc t) = lc_loss_threshold t"
  "lc_cooldown_ms (lc_noteOutcome now oc t) = lc_cooldown_ms t"
  by (simp_all add: lc_noteOutcome_def Let_def)

lemma lc_run_spec:
  assumes "0 < n"
  shows "lc_spec h (lc_run h (LossCooldownTracker_new n ms)) \<and>
    lc_loss_threshold (lc_run h (LossCooldownTracker_new n ms)) = n \<and>
    lc_cooldown_ms (lc_run h (LossCooldownTracker_new n ms)) = ms"
proof (induction h rule: rev_induct)
  case Nil
  show ?case using assms
    by (simp add: lc_run_def LossCooldownTracker_new_def CooldownState_default_def lc_spec_def loss_run_def decisive_def)
next
  case (snoc x h)
  obtain now oc where x: "x = (now, oc)" by (cases x)
  let ?t = "lc_run h (LossCooldownTracker_new n ms)"
  have r: "lc_run (h @ [x]) (LossCooldownTracker_new n ms) = lc_noteOutcome now oc ?t"
    by (simp add: lc_run_def x)
  show ?case unfolding r using lc_spec_step [of h ?t now oc] snoc assms by (simp add: x)
qed

text \<open>C30: after any history of outcomes the cooldown is on exactly when at least the threshold of losses came
  since the last win, void and stale outcomes not counting, and it ends the configured time after the
  last of these losses.\<close>

theorem cooldown_by_history:
  assumes "0 < threshold" and "0 < tnow"
  shows "lc_inCooldown clock tnow (lc_run h (LossCooldownTracker_new threshold ms)) \<longleftrightarrow>
    threshold \<le> int (loss_run h) \<and> tnow < (case last (decisive h) of (now, oc) \<Rightarrow> resolved_at now oc) + ms"
proof -
  let ?t = "lc_run h (LossCooldownTracker_new threshold ms)"
  have s: "lc_spec h ?t" "lc_loss_threshold ?t = threshold" "lc_cooldown_ms ?t = ms"
    using lc_run_spec [OF assms(1)] by blast+
  show ?thesis
  proof (cases "threshold \<le> int (loss_run h)")
    case True
    with assms(1) have "0 < loss_run h" by linarith
    with s True show ?thesis using assms(2) by (auto simp: lc_spec_def lc_inCooldown_def)
  next
    case False
    with s show ?thesis by (simp add: lc_spec_def lc_inCooldown_def)
  qed
qed

definition demo_loss :: "TimestampMs \<Rightarrow> Outcome" where
  "demo_loss t = makeOutcome t demo_enter (Fin 1)"

theorem cooldown_by_history_witness:
  "let h = [(1, demo_loss 10), (2, demo_loss 20), (3, demo_loss 30)] in
   lc_inCooldown 0 60 (lc_run h (LossCooldownTracker_new 3 100)) \<longleftrightarrow>
    3 \<le> int (loss_run h) \<and> 60 < (case last (decisive h) of (now, oc) \<Rightarrow> resolved_at now oc) + 100"
  unfolding Let_def by (rule cooldown_by_history) simp_all

section \<open>Fencing\<close>

fun gf_bumps :: "string list \<Rightarrow> GenerationFence \<Rightarrow> GenerationFence" where
  "gf_bumps [] f = f"
| "gf_bumps (k # ks) f = gf_bumps ks (snd (gf_bump k f))"

lemma gf_current_bump:
  "gf_current key (snd (gf_bump k f)) = (if k = key then gf_current key f + 1 else gf_current key f)"
  by (simp add: gf_current_def gf_bump_def Let_def)

lemma gf_current_bumps:
  "gf_current key (gf_bumps ks f) = gf_current key f + of_nat (length (filter (\<lambda>k. k = key) ks))"
  by (induction ks arbitrary: f) (simp_all add: gf_current_bump)

text \<open>A generation handed out for a key is the current one until the key is bumped again, and from then on
  is not, for fewer than \<open>2^64\<close> bumps; bumps of other keys do not disturb it.\<close>

theorem generation_fence:
  assumes "gf_bump key f = (g, f')" and "length ks < 2 ^ 64"
  shows "gf_isCurrent key g (gf_bumps ks f') \<longleftrightarrow> key \<notin> set ks"
proof -
  let ?n = "length (filter (\<lambda>k. k = key) ks)"
  have "?n < 2 ^ 64" using assms(2) by (rule le_less_trans [OF length_filter_le])
  then have "unat (of_nat ?n :: u64) = ?n" by (subst unat_of_nat) simp
  then have z: "(of_nat ?n :: u64) = 0 \<longleftrightarrow> ?n = 0" by (metis unat_0_iff unsigned_0)
  have g: "gf_current key f' = g" using assms(1) by (auto simp: gf_bump_def gf_current_def Let_def)
  have "gf_isCurrent key g (gf_bumps ks f') \<longleftrightarrow> ?n = 0"
    unfolding gf_isCurrent_def gf_current_bumps g using z by simp
  also have "\<dots> \<longleftrightarrow> key \<notin> set ks" by (simp add: filter_empty_conv) blast
  finally show ?thesis .
qed

theorem generation_fence_witness:
  "gf_isCurrent ''a'' 1 (gf_bumps [''b'', ''a''] [''a'' \<mapsto> 1]) \<longleftrightarrow> ''a'' \<notin> set [''b'', ''a'']"
  by (rule generation_fence [where f = Map.empty]) (simp_all add: gf_bump_def Let_def)

text \<open>Clearing a key forgets its generations: after \<open>clear\<close> the next attempt gets generation 1 again, and a
  response of the first attempt passes for current.\<close>

lemma fence_clear_reuses_generation:
  "fst (gf_bump key Map.empty) = 1 \<and>
   gf_isCurrent key 1 (snd (gf_bump key (gf_clear key (snd (gf_bump key Map.empty)))))"
  by (simp add: gf_bump_def gf_clear_def gf_isCurrent_def gf_current_def Let_def)

end
