(* ===== verification/Queues.thy ===== *)
theory Queues
  imports Types
begin

text \<open>
  The bounded queues of \<open>include/concurrency\<close>: the mutex-protected \<open>BoundedQueue\<close> and
  the single-producer single-consumer ring \<open>SpscQueue\<close>. Both keep a circular buffer; both
  promise a bounded FIFO. The promise is the locale \<open>bounded_fifo\<close>, whose client lemmas
  (order of elements over any run of operations, draining) are proved once and
  interpreted for both implementations.

  A blocking \<open>push\<close> or \<open>pop\<close> is modelled at the moment its wait ends: the state is the
  one in which the wait predicate is evaluated under the lock, and a wait that has no
  time limit and whose predicate is false has no result yet (\<open>None\<close>).
\<close>

section \<open>The circular buffer\<close>

definition ring_list :: "'a list \<Rightarrow> nat \<Rightarrow> nat \<Rightarrow> nat \<Rightarrow> 'a list" where
  "ring_list buf cap h n = map (\<lambda>i. buf ! ((h + i) mod cap)) [0..<n]"

lemma length_ring_list [simp]: "length (ring_list buf cap h n) = n"
  by (simp add: ring_list_def)

lemma ring_list_0 [simp]: "ring_list buf cap h 0 = []"
  by (simp add: ring_list_def)

lemma ring_slot_neq:
  assumes "i < n" and "n < (cap :: nat)"
  shows "(h + i) mod cap \<noteq> (h + n) mod cap"
proof
  assume "(h + i) mod cap = (h + n) mod cap"
  then have "cap dvd (h + n) - (h + i)" using mod_eq_dvd_iff_nat [of "h + i" "h + n" cap] assms by simp
  then have "cap dvd n - i" by simp
  moreover have "0 < n - i" "n - i < cap" using assms by auto
  ultimately show False using dvd_imp_le by fastforce
qed

lemma ring_list_push:
  assumes "n < cap" and "length buf = cap"
  shows "ring_list (buf[(h + n) mod cap := x]) cap h (Suc n) = ring_list buf cap h n @ [x]"
proof -
  have "map (\<lambda>i. buf[(h + n) mod cap := x] ! ((h + i) mod cap)) [0..<n] = ring_list buf cap h n"
    unfolding ring_list_def
    by (intro map_cong refl nth_list_update_neq ring_slot_neq [THEN not_sym]) (use assms in auto)
  with assms show ?thesis by (simp add: ring_list_def)
qed

lemma ring_list_pop:
  assumes "h < cap"
  shows "ring_list buf cap h (Suc n) = buf ! h # ring_list buf cap ((h + 1) mod cap) n"
proof -
  have "[0..<Suc n] = 0 # map Suc [0..<n]" by (simp add: map_Suc_upt upt_conv_Cons)
  with assms show ?thesis
    by (simp add: ring_list_def o_def mod_simps)
qed

section \<open>The queue interface\<close>

datatype 'a qop = Push 'a | Pop

text \<open>A run of operations: the accepted items, the popped items and the final queue.\<close>

fun queue_run :: "('q \<Rightarrow> 'a \<Rightarrow> bool \<times> 'q) \<Rightarrow> ('q \<Rightarrow> 'a option \<times> 'q) \<Rightarrow> 'a qop list \<Rightarrow> 'q
    \<Rightarrow> 'a list \<times> 'a list \<times> 'q" where
  "queue_run push pop [] q = ([], [], q)"
| "queue_run push pop (Push x # ops) q =
     (let (ok, q') = push q x; (acc, out, q'') = queue_run push pop ops q'
      in (if ok then x # acc else acc, out, q''))"
| "queue_run push pop (Pop # ops) q =
     (let (r, q') = pop q; (acc, out, q'') = queue_run push pop ops q'
      in (acc, (case r of None \<Rightarrow> out | Some y \<Rightarrow> y # out), q''))"

text \<open>\<open>while (auto x = q.try_pop()) ...\<close>, with the number of iterations as fuel.\<close>

fun pop_while :: "('q \<Rightarrow> 'a option \<times> 'q) \<Rightarrow> nat \<Rightarrow> 'q \<Rightarrow> 'a list \<times> 'q" where
  "pop_while pop 0 q = ([], q)"
| "pop_while pop (Suc n) q =
     (case pop q of (None, q') \<Rightarrow> ([], q')
      | (Some x, q') \<Rightarrow> (let (xs, q'') = pop_while pop n q' in (x # xs, q'')))"

locale bounded_fifo =
  fixes inv :: "'q \<Rightarrow> bool"
    and contents :: "'q \<Rightarrow> 'a list"
    and limit :: "'q \<Rightarrow> nat"
    and accepting :: "'q \<Rightarrow> bool"
    and try_push :: "'q \<Rightarrow> 'a \<Rightarrow> bool \<times> 'q"
    and try_pop :: "'q \<Rightarrow> 'a option \<times> 'q"
  assumes push_refused:
      "inv q \<Longrightarrow> \<not> (accepting q \<and> length (contents q) < limit q) \<Longrightarrow> try_push q x = (False, q)"
    and push_accepted:
      "inv q \<Longrightarrow> accepting q \<Longrightarrow> length (contents q) < limit q \<Longrightarrow>
       \<exists>q'. try_push q x = (True, q') \<and> inv q' \<and> contents q' = contents q @ [x] \<and>
            limit q' = limit q \<and> accepting q'"
    and pop_empty: "inv q \<Longrightarrow> contents q = [] \<Longrightarrow> try_pop q = (None, q)"
    and pop_head:
      "inv q \<Longrightarrow> contents q = y # ys \<Longrightarrow>
       \<exists>q'. try_pop q = (Some y, q') \<and> inv q' \<and> contents q' = ys \<and>
            limit q' = limit q \<and> accepting q' = accepting q"
    and bounded: "inv q \<Longrightarrow> length (contents q) \<le> limit q"
begin

lemma push_cases:
  assumes "inv q"
  obtains (full) "try_push q x = (False, q)" "\<not> (accepting q \<and> length (contents q) < limit q)"
  | (ok) q' where "try_push q x = (True, q')" "accepting q" "length (contents q) < limit q"
      "inv q'" "contents q' = contents q @ [x]" "limit q' = limit q" "accepting q'"
  using assms push_refused push_accepted by metis

lemma pop_cases:
  assumes "inv q"
  obtains (empty) "contents q = []" "try_pop q = (None, q)"
  | (some) y q' where "contents q = y # contents q'" "try_pop q = (Some y, q')" "inv q'"
      "limit q' = limit q" "accepting q' = accepting q"
proof (cases "contents q")
  case Nil
  then show ?thesis using empty pop_empty assms by blast
next
  case (Cons y ys)
  then show ?thesis using some pop_head [OF assms Cons] by auto
qed

text \<open>FIFO: what comes out and what is left is what was there followed by what was accepted.\<close>

lemma run_fifo:
  "inv q \<Longrightarrow> queue_run try_push try_pop ops q = (acc, out, q') \<Longrightarrow>
   inv q' \<and> contents q @ acc = out @ contents q' \<and> limit q' = limit q"
proof (induction ops arbitrary: q acc out q')
  case Nil
  then show ?case by simp
next
  case (Cons op ops)
  show ?case
  proof (cases op)
    case (Push x)
    show ?thesis
    proof (cases rule: push_cases [OF Cons.prems(1), of x, case_names full ok])
      case full
      with Push Cons show ?thesis by (auto split: prod.splits)
    next
      case (ok q1)
      with Push Cons.prems obtain acc1 where
        "queue_run try_push try_pop ops q1 = (acc1, out, q')" "acc = x # acc1"
        by (auto split: prod.splits)
      with Cons.IH [OF ok(4)] ok show ?thesis by fastforce
    qed
  next
    case Pop
    show ?thesis
    proof (cases rule: pop_cases [OF Cons.prems(1), case_names empty some])
      case empty
      with Pop Cons.prems(2) have "queue_run try_push try_pop ops q = (acc, out, q')"
        by (auto split: prod.splits)
      with Cons.IH [OF Cons.prems(1)] show ?thesis by blast
    next
      case (some y q1)
      with Pop Cons.prems obtain out1 where
        "queue_run try_push try_pop ops q1 = (acc, out1, q')" "out = y # out1"
        by (auto split: prod.splits)
      with Cons.IH [OF some(3)] some show ?thesis by fastforce
    qed
  qed
qed

text \<open>A drain loop returns the whole content in order, in as many rounds as there are items.\<close>

lemma pop_while_all:
  "inv q \<Longrightarrow> length (contents q) \<le> n \<Longrightarrow>
   \<exists>q'. pop_while try_pop n q = (contents q, q') \<and> inv q' \<and> contents q' = []
        \<and> limit q' = limit q \<and> accepting q' = accepting q"
proof (induction n arbitrary: q)
  case (Suc n)
  show ?case
  proof (cases rule: pop_cases [OF Suc.prems(1), case_names empty some])
    case empty
    with Suc.prems show ?thesis by simp
  next
    case (some y q1)
    with Suc.prems Suc.IH [OF some(3)] show ?thesis by fastforce
  qed
qed auto

lemma pop_after_push:
  assumes "inv q" and "accepting q" and "length (contents q) < limit q" and "contents q = []"
  shows "\<exists>q' q''. try_push q x = (True, q') \<and> try_pop q' = (Some x, q'') \<and> contents q'' = []"
proof -
  obtain q' where q': "try_push q x = (True, q')" "inv q'" "contents q' = [x]"
    using push_accepted [OF assms(1-3), of x] assms(4) by auto
  with pop_head [of q' x "[]"] show ?thesis by auto
qed

end

section \<open>BoundedQueue\<close>

record 'a BoundedQueue =
  bq_cap :: nat
  bq_buf :: "'a list"
  bq_head :: nat
  bq_tail :: nat
  bq_size :: nat
  bq_closed :: bool
  bq_pushes :: u64
  bq_pops :: u64

text \<open>\<open>d\<close> is the value-initialised \<open>T\<close> the constructor fills the buffer with.\<close>

definition BoundedQueue_new :: "'a \<Rightarrow> nat \<Rightarrow> 'a BoundedQueue" where
  "BoundedQueue_new d capacity =
     (let c = (if capacity < 1 then 1 else capacity)
      in \<lparr>bq_cap = c, bq_buf = replicate c d, bq_head = 0, bq_tail = 0, bq_size = 0,
          bq_closed = False, bq_pushes = 0, bq_pops = 0\<rparr>)"

definition bq_store :: "'a BoundedQueue \<Rightarrow> 'a \<Rightarrow> 'a BoundedQueue" where
  "bq_store q item =
     q\<lparr>bq_buf := (bq_buf q)[bq_tail q := item],
       bq_tail := (bq_tail q + 1) mod bq_cap q,
       bq_size := bq_size q + 1,
       bq_pushes := bq_pushes q + 1\<rparr>"

definition bq_take :: "'a BoundedQueue \<Rightarrow> 'a option \<times> 'a BoundedQueue" where
  "bq_take q =
     (Some (bq_buf q ! bq_head q),
      q\<lparr>bq_head := (bq_head q + 1) mod bq_cap q,
        bq_size := bq_size q - 1,
        bq_pops := bq_pops q + 1\<rparr>)"

definition bq_try_push :: "'a BoundedQueue \<Rightarrow> 'a \<Rightarrow> bool \<times> 'a BoundedQueue" where
  "bq_try_push q item =
     (if bq_closed q \<or> bq_size q \<ge> bq_cap q then (False, q) else (True, bq_store q item))"

definition bq_push :: "'a BoundedQueue \<Rightarrow> 'a \<Rightarrow> int \<Rightarrow> (bool \<times> 'a BoundedQueue) option" where
  "bq_push q item timeout =
     (if \<not> (bq_closed q \<or> bq_size q < bq_cap q)
      then (if timeout \<le> 0 then None else Some (False, q))
      else if bq_closed q then Some (False, q)
      else Some (True, bq_store q item))"

definition bq_try_pop :: "'a BoundedQueue \<Rightarrow> 'a option \<times> 'a BoundedQueue" where
  "bq_try_pop q = (if bq_size q = 0 then (None, q) else bq_take q)"

definition bq_pop :: "'a BoundedQueue \<Rightarrow> 'a option \<times> 'a BoundedQueue" where
  "bq_pop q =
     (if \<not> (bq_closed q \<or> bq_size q > 0) then (None, q)
      else if bq_size q = 0 then (None, q)
      else bq_take q)"

definition bq_close :: "'a BoundedQueue \<Rightarrow> 'a BoundedQueue" where
  "bq_close q = q\<lparr>bq_closed := True\<rparr>"

definition bq_inv :: "'a BoundedQueue \<Rightarrow> bool" where
  "bq_inv q \<longleftrightarrow>
     0 < bq_cap q \<and> length (bq_buf q) = bq_cap q \<and> bq_head q < bq_cap q \<and>
     bq_size q \<le> bq_cap q \<and> bq_tail q = (bq_head q + bq_size q) mod bq_cap q \<and>
     bq_pushes q - bq_pops q = of_nat (bq_size q)"

definition bq_list :: "'a BoundedQueue \<Rightarrow> 'a list" where
  "bq_list q = ring_list (bq_buf q) (bq_cap q) (bq_head q) (bq_size q)"

lemma bq_list_length [simp]: "length (bq_list q) = bq_size q"
  by (simp add: bq_list_def)

lemma bq_new_inv [simp]: "bq_inv (BoundedQueue_new d n)" "bq_list (BoundedQueue_new d n) = []"
  by (auto simp: bq_inv_def bq_list_def BoundedQueue_new_def Let_def)

lemma bq_store_ok:
  assumes "bq_inv q" and "bq_size q < bq_cap q"
  shows "bq_inv (bq_store q x)" and "bq_list (bq_store q x) = bq_list q @ [x]"
proof -
  have "bq_pushes q + 1 - bq_pops q = of_nat (bq_size q) + 1"
    using assms by (simp add: bq_inv_def algebra_simps)
  with assms show "bq_inv (bq_store q x)"
    by (auto simp: bq_inv_def bq_store_def mod_simps)
  from assms have "(bq_buf q)[bq_tail q := x] = (bq_buf q)[(bq_head q + bq_size q) mod bq_cap q := x]"
    by (simp add: bq_inv_def)
  with assms ring_list_push [of "bq_size q" "bq_cap q" "bq_buf q" "bq_head q" x]
  show "bq_list (bq_store q x) = bq_list q @ [x]"
    by (simp add: bq_list_def bq_store_def bq_inv_def)
qed

lemma bq_take_ok:
  assumes "bq_inv q" and "bq_list q = y # ys"
  shows "\<exists>q'. bq_take q = (Some y, q') \<and> bq_inv q' \<and> bq_list q' = ys \<and>
              bq_cap q' = bq_cap q \<and> bq_closed q' = bq_closed q"
proof -
  from assms(2) have "bq_size q = Suc (length ys)" by (metis bq_list_length length_Cons)
  then obtain n where n: "bq_size q = Suc n" by blast
  have inv: "bq_head q < bq_cap q" "bq_pushes q - bq_pops q = of_nat (Suc n)"
    using assms(1) n by (auto simp: bq_inv_def)
  have pops: "bq_pushes q - (bq_pops q + 1) = of_nat n"
    using inv(2) by (simp add: algebra_simps)
  have l: "bq_list q = bq_buf q ! bq_head q # ring_list (bq_buf q) (bq_cap q) ((bq_head q + 1) mod bq_cap q) n"
    using ring_list_pop [OF inv(1)] by (simp add: bq_list_def n)
  have "((bq_head q + 1) mod bq_cap q + n) mod bq_cap q = (bq_head q + bq_size q) mod bq_cap q"
    by (simp add: n mod_simps)
  with assms(1) n l pops assms(2) show ?thesis
    by (auto simp: bq_take_def bq_inv_def bq_list_def)
qed

interpretation bq: bounded_fifo bq_inv bq_list bq_cap "\<lambda>q. \<not> bq_closed q" bq_try_push bq_try_pop
proof unfold_locales
  show "bq_try_push q x = (False, q)"
    if "\<not> (\<not> bq_closed q \<and> length (bq_list q) < bq_cap q)" for q :: "'a BoundedQueue" and x
    using that by (auto simp: bq_try_push_def)
next
  fix q :: "'a BoundedQueue" and x
  assume "bq_inv q" "\<not> bq_closed q" "length (bq_list q) < bq_cap q"
  then show "\<exists>q'. bq_try_push q x = (True, q') \<and> bq_inv q' \<and> bq_list q' = bq_list q @ [x] \<and>
            bq_cap q' = bq_cap q \<and> \<not> bq_closed q'"
    using bq_store_ok [of q x] by (auto simp: bq_try_push_def) (auto simp: bq_store_def)
next
  fix q :: "'a BoundedQueue"
  assume "bq_list q = []"
  then have "bq_size q = 0" by (metis bq_list_length list.size(3))
  then show "bq_try_pop q = (None, q)" by (simp add: bq_try_pop_def)
next
  fix q :: "'a BoundedQueue" and y ys
  assume a: "bq_inv q" "bq_list q = y # ys"
  then have "bq_size q \<noteq> 0" by (metis bq_list_length length_0_conv list.distinct(1))
  then show "\<exists>q'. bq_try_pop q = (Some y, q') \<and> bq_inv q' \<and> bq_list q' = ys \<and>
            bq_cap q' = bq_cap q \<and> (\<not> bq_closed q') = (\<not> bq_closed q)"
    using bq_take_ok [OF a] by (auto simp: bq_try_pop_def)
next
  show "length (bq_list q) \<le> bq_cap q" if "bq_inv q" for q :: "'a BoundedQueue"
    using that by (simp add: bq_inv_def)
qed

text \<open>The timed \<open>pop\<close> at the end of its wait is \<open>try_pop\<close>: closing the queue loses nothing.\<close>

lemma bq_pop_eq: "bq_pop q = bq_try_pop q"
  by (auto simp: bq_pop_def bq_try_pop_def)

lemma bq_close_keeps: "bq_inv q \<Longrightarrow> bq_inv (bq_close q) \<and> bq_list (bq_close q) = bq_list q"
  by (simp add: bq_close_def bq_inv_def bq_list_def)

lemma bq_push_eq:
  "bq_closed q \<or> bq_size q < bq_cap q \<Longrightarrow> bq_push q x t = Some (bq_try_push q x)"
  by (auto simp: bq_push_def bq_try_push_def)

section \<open>SpscQueue\<close>

record 'a SpscQueue =
  sq_cap :: u64
  sq_mask :: u64
  sq_buf :: "'a list"
  sq_head :: u64
  sq_tail :: u64

text \<open>
  \<open>while (c < capacity_pow2) c <<= 1;\<close> on \<open>std::size_t\<close>. The shift drops the top bit, so
  the loop has no result for a request above \<open>2^63\<close>.
\<close>

partial_function (option) spsc_grow :: "u64 \<Rightarrow> u64 \<Rightarrow> u64 option" where
  "spsc_grow n c = (if c < n then spsc_grow n (push_bit 1 c) else Some c)"

definition SpscQueue_new :: "'a \<Rightarrow> u64 \<Rightarrow> 'a SpscQueue option" where
  "SpscQueue_new d capacity_pow2 =
     (case spsc_grow capacity_pow2 2 of None \<Rightarrow> None
      | Some c \<Rightarrow> Some \<lparr>sq_cap = c, sq_mask = c - 1, sq_buf = replicate (unat c) d,
                        sq_head = 0, sq_tail = 0\<rparr>)"

definition sq_try_push :: "'a SpscQueue \<Rightarrow> 'a \<Rightarrow> bool \<times> 'a SpscQueue" where
  "sq_try_push q item =
     (let t = sq_tail q; next = (t + 1) AND sq_mask q
      in if next = sq_head q then (False, q)
         else (True, q\<lparr>sq_buf := (sq_buf q)[unat t := item], sq_tail := next\<rparr>))"

definition sq_try_pop :: "'a SpscQueue \<Rightarrow> 'a option \<times> 'a SpscQueue" where
  "sq_try_pop q =
     (let h = sq_head q
      in if h = sq_tail q then (None, q)
         else (Some (sq_buf q ! unat h), q\<lparr>sq_head := (h + 1) AND sq_mask q\<rparr>))"

definition sq_size_approx :: "'a SpscQueue \<Rightarrow> u64" where
  "sq_size_approx q = (sq_tail q - sq_head q) AND sq_mask q"

text \<open>The capacity is a power of two \<open>2^k\<close> and the mask its low bits.\<close>

definition sq_inv :: "'a SpscQueue \<Rightarrow> bool" where
  "sq_inv q \<longleftrightarrow>
     (\<exists>k. 1 \<le> k \<and> k \<le> 63 \<and> unat (sq_cap q) = 2 ^ k \<and> sq_mask q = mask k \<and> length (sq_buf q) = 2 ^ k \<and>
          unat (sq_head q) < 2 ^ k \<and> unat (sq_tail q) < 2 ^ k)"

definition sq_list :: "'a SpscQueue \<Rightarrow> 'a list" where
  "sq_list q = ring_list (sq_buf q) (unat (sq_cap q)) (unat (sq_head q)) (unat (sq_size_approx q))"

lemma unat_and_mask: "k \<le> 64 \<Longrightarrow> unat ((w :: u64) AND mask k) = unat w mod 2 ^ k"
  by (simp add: unsigned_take_bit_eq flip: take_bit_eq_mask take_bit_eq_mod)

lemma unat_succ_and_mask:
  assumes "k \<le> 63" and "unat (w :: u64) < 2 ^ k"
  shows "unat ((w + 1) AND mask k) = (unat w + 1) mod 2 ^ k"
proof -
  have "(2 :: nat) ^ k \<le> 2 ^ 63" using assms(1) by (intro power_increasing) auto
  then have "unat (w + 1) = unat w + 1" using assms(2) by (subst unat_word_ariths) simp
  with assms(1) show ?thesis by (simp add: unat_and_mask)
qed

lemma unat_sub_and_mask:
  assumes "k \<le> 63" and "unat (t :: u64) < 2 ^ k" and "unat h < 2 ^ k"
  shows "unat ((t - h) AND mask k) = (unat t + 2 ^ k - unat h) mod 2 ^ k"
proof -
  have le: "(2 :: nat) ^ k \<le> 2 ^ 63" using assms(1) by (intro power_increasing) auto
  show ?thesis
  proof (cases "unat h \<le> unat t")
    case True
    then have "unat (t - h) = unat t - unat h" by (simp add: unat_sub word_le_nat_alt)
    moreover have "(unat t + 2 ^ k - unat h) mod 2 ^ k = unat t - unat h"
      using True assms(2) by (simp add: le_mod_geq)
    moreover have "unat t - unat h < 2 ^ k" using assms(2) by linarith
    ultimately show ?thesis using assms(1) by (simp add: unat_and_mask)
  next
    case False
    have "unat (t - h) = unat t + 2 ^ 64 - unat h"
      using False by (subst unat_sub_if_size) (simp add: word_size)
    moreover have "(2 :: nat) ^ 64 = 2 ^ k * 2 ^ (64 - k)"
      using assms(1) by (simp flip: power_add)
    ultimately have "unat (t - h) = (unat t + 2 ^ k - unat h) + 2 ^ k * (2 ^ (64 - k) - 1)"
      using False assms(1,3) le by (simp add: diff_mult_distrib2)
    then show ?thesis using assms(1) by (simp add: unat_and_mask)
  qed
qed

lemma sq_invE:
  assumes "sq_inv q"
  obtains k where "1 \<le> k" "k \<le> 63" "sq_mask q = mask k" "unat (sq_cap q) = 2 ^ k"
    "length (sq_buf q) = 2 ^ k" "unat (sq_head q) < 2 ^ k" "unat (sq_tail q) < 2 ^ k"
  using assms by (auto simp: sq_inv_def)

text \<open>Where the producer writes, seen from the consumer's index.\<close>

lemma ring_tail_eq:
  fixes h t c :: nat
  assumes "h < c" and "t < c"
  shows "(h + (t + c - h) mod c) mod c = t"
proof (cases "h \<le> t")
  case True
  then have "(t + c - h) mod c = t - h" using assms by (simp add: le_mod_geq)
  with True assms show ?thesis by simp
next
  case False
  then have "(t + c - h) mod c = t + c - h" using assms by (intro mod_less) linarith
  with False assms show ?thesis by (simp add: le_mod_geq)
qed

lemma ring_full_iff:
  fixes h t c :: nat
  assumes "h < c" and "t < c"
  shows "(t + 1) mod c = h \<longleftrightarrow> (t + c - h) mod c = c - 1"
  using assms by (cases "h \<le> t"; cases "t + 1 = c") (auto simp: le_mod_geq mod_less)

lemma ring_empty_iff:
  fixes h t c :: nat
  assumes "h < c" and "t < c"
  shows "h = t \<longleftrightarrow> (t + c - h) mod c = 0"
  using assms by (cases "h \<le> t") (auto simp: le_mod_geq mod_less)

lemma ring_size_succ:
  fixes h t c :: nat
  assumes "h < c" and "t < c" and "(t + 1) mod c \<noteq> h"
  shows "((t + 1) mod c + c - h) mod c = (t + c - h) mod c + 1"
  using assms by (cases "h \<le> t"; cases "t + 1 = c") (auto simp: le_mod_geq mod_less)

lemma ring_size_pred:
  fixes h t c :: nat
  assumes "h < c" and "t < c" and "h \<noteq> t"
  shows "(t + c - h) mod c = Suc ((t + c - (h + 1) mod c) mod c)"
  using assms by (cases "h \<le> t"; cases "h + 1 = c") (auto simp: le_mod_geq mod_less)

lemma sq_size_eq:
  assumes "sq_inv q"
  shows "unat (sq_size_approx q) =
    (unat (sq_tail q) + unat (sq_cap q) - unat (sq_head q)) mod unat (sq_cap q)"
  using assms by (elim sq_invE) (simp add: sq_size_approx_def unat_sub_and_mask)

lemma sq_push_ok:
  assumes "sq_inv q" and "unat (sq_size_approx q) \<noteq> unat (sq_cap q) - 1"
  shows "\<exists>q'. sq_try_push q x = (True, q') \<and> sq_inv q' \<and> sq_list q' = sq_list q @ [x] \<and>
              sq_cap q' = sq_cap q"
proof -
  from assms(1) obtain k where k: "1 \<le> k" "k \<le> 63" "sq_mask q = mask k"
      "unat (sq_cap q) = 2 ^ k" "length (sq_buf q) = 2 ^ k"
      "unat (sq_head q) < 2 ^ k" "unat (sq_tail q) < 2 ^ k" by (rule sq_invE)
  let ?nx = "(sq_tail q + 1) AND mask k"
  have nx: "unat ?nx = (unat (sq_tail q) + 1) mod 2 ^ k"
    using k by (intro unat_succ_and_mask)
  have free: "(unat (sq_tail q) + 1) mod 2 ^ k \<noteq> unat (sq_head q)"
    using assms(2) ring_full_iff [OF k(6,7)] by (simp add: sq_size_eq [OF assms(1)] k)
  then have "?nx \<noteq> sq_head q" using nx by metis
  define q' where "q' = q\<lparr>sq_buf := (sq_buf q)[unat (sq_tail q) := x], sq_tail := ?nx\<rparr>"
  have push: "sq_try_push q x = (True, q')"
    using \<open>?nx \<noteq> sq_head q\<close> by (simp add: sq_try_push_def q'_def k Let_def)
  have inv': "sq_inv q'"
    unfolding sq_inv_def using k nx by (intro exI [of _ k]) (simp add: q'_def)
  have n: "unat (sq_size_approx q') = Suc (unat (sq_size_approx q))"
    using ring_size_succ [OF k(6,7) free]
    by (simp add: sq_size_eq [OF assms(1)] sq_size_eq [OF inv'] k nx) (simp add: q'_def k nx)
  have "unat (sq_size_approx q) < 2 ^ k - 1"
    using assms(2) by (simp add: sq_size_eq [OF assms(1)] k) (metis Suc_pred less_SucE mod_less_divisor pos2 zero_less_power)
  then have lt: "unat (sq_size_approx q) < 2 ^ k" by linarith
  have tl: "(unat (sq_head q) + unat (sq_size_approx q)) mod 2 ^ k = unat (sq_tail q)"
    using ring_tail_eq [OF k(6,7)] by (simp add: sq_size_eq [OF assms(1)] k)
  have "sq_list q' = sq_list q @ [x]"
    using ring_list_push [OF lt k(5), of "unat (sq_head q)" x]
    unfolding sq_list_def n by (simp add: tl) (simp add: q'_def k)
  with push inv' show ?thesis by (simp add: q'_def)
qed

lemma sq_pop_ok:
  assumes "sq_inv q" and "sq_list q = y # ys"
  shows "\<exists>q'. sq_try_pop q = (Some y, q') \<and> sq_inv q' \<and> sq_list q' = ys \<and> sq_cap q' = sq_cap q"
proof -
  from assms(1) obtain k where k: "1 \<le> k" "k \<le> 63" "sq_mask q = mask k"
      "unat (sq_cap q) = 2 ^ k" "length (sq_buf q) = 2 ^ k"
      "unat (sq_head q) < 2 ^ k" "unat (sq_tail q) < 2 ^ k" by (rule sq_invE)
  have "unat (sq_size_approx q) = length (y # ys)"
    using assms(2) by (metis length_ring_list sq_list_def)
  then have ne: "unat (sq_head q) \<noteq> unat (sq_tail q)"
    using ring_empty_iff [OF k(6,7)] by (simp add: sq_size_eq [OF assms(1)] k)
  let ?nx = "(sq_head q + 1) AND mask k"
  have nx: "unat ?nx = (unat (sq_head q) + 1) mod 2 ^ k"
    using k by (intro unat_succ_and_mask)
  define q' where "q' = q\<lparr>sq_head := ?nx\<rparr>"
  have inv': "sq_inv q'"
    unfolding sq_inv_def using k nx by (intro exI [of _ k]) (simp add: q'_def)
  have n: "unat (sq_size_approx q) = Suc (unat (sq_size_approx q'))"
    using ring_size_pred [OF k(6,7) ne]
    by (simp add: sq_size_eq [OF assms(1)] sq_size_eq [OF inv'] k) (simp add: q'_def k nx)
  have "sq_list q = sq_buf q ! unat (sq_head q) # sq_list q'"
    unfolding sq_list_def n using ring_list_pop [OF k(6)] by (simp add: k) (simp add: q'_def nx k)
  with assms(2) ne inv' show ?thesis
    by (auto simp: sq_try_pop_def q'_def k Let_def)
qed

interpretation sq: bounded_fifo sq_inv sq_list "\<lambda>q. unat (sq_cap q) - 1" "\<lambda>_. True" sq_try_push sq_try_pop
proof unfold_locales
  have len: "length (sq_list q) = unat (sq_size_approx q)" for q :: "'a SpscQueue"
    by (simp add: sq_list_def)
  have bound: "unat (sq_size_approx q) \<le> unat (sq_cap q) - 1" if "sq_inv q" for q :: "'a SpscQueue"
    using that by (subst sq_size_eq) (auto elim!: sq_invE simp: less_imp_le_nat Suc_leI less_Suc_eq_le [symmetric])
  show "length (sq_list q) \<le> unat (sq_cap q) - 1" if "sq_inv q" for q :: "'a SpscQueue"
    using bound [OF that] len by simp
  fix q :: "'a SpscQueue" and x
  assume inv: "sq_inv q"
  then obtain k where k: "k \<le> 63" "sq_mask q = mask k" "unat (sq_cap q) = 2 ^ k"
      "unat (sq_head q) < 2 ^ k" "unat (sq_tail q) < 2 ^ k" by (rule sq_invE)
  show "sq_try_push q x = (False, q)" if "\<not> (True \<and> length (sq_list q) < unat (sq_cap q) - 1)"
  proof -
    have "unat (sq_size_approx q) = unat (sq_cap q) - 1" using that bound [OF inv] len [of q] by simp
    then have "(unat (sq_tail q) + 1) mod 2 ^ k = unat (sq_head q)"
      using ring_full_iff [OF k(4,5)] by (simp add: sq_size_eq [OF inv] k)
    then have "(sq_tail q + 1) AND mask k = sq_head q"
      using unat_succ_and_mask [OF k(1,5)] by (intro unat_eqI) simp
    then show ?thesis by (simp add: sq_try_push_def k Let_def)
  qed
  show "\<exists>q'. sq_try_push q x = (True, q') \<and> sq_inv q' \<and> sq_list q' = sq_list q @ [x] \<and>
             unat (sq_cap q') - 1 = unat (sq_cap q) - 1 \<and> True"
    if "length (sq_list q) < unat (sq_cap q) - 1"
    using sq_push_ok [OF inv, of x] that len [of q] by auto
  show "sq_try_pop q = (None, q)" if "sq_list q = []"
  proof -
    have "unat (sq_size_approx q) = 0" using that len [of q] by simp
    then have "sq_head q = sq_tail q"
      using ring_empty_iff [OF k(4,5)] by (simp add: sq_size_eq [OF inv] k) (rule unat_eqI)
    then show ?thesis by (simp add: sq_try_pop_def)
  qed
  show "\<exists>q'. sq_try_pop q = (Some y, q') \<and> sq_inv q' \<and> sq_list q' = ys \<and>
             unat (sq_cap q') - 1 = unat (sq_cap q) - 1 \<and> True = True"
    if "sq_list q = y # ys" for y ys
    using sq_pop_ok [OF inv that] by auto
qed

section \<open>The ring's constructor\<close>

lemma spsc_grow_pow:
  "k \<le> 63 \<Longrightarrow> n \<le> 2 ^ 63 \<Longrightarrow>
   \<exists>j. k \<le> j \<and> j \<le> 63 \<and> spsc_grow n (2 ^ k) = Some (2 ^ j) \<and> n \<le> 2 ^ j \<and>
       (j = k \<or> 2 ^ (j - 1) < n)"
proof (induction "63 - k" arbitrary: k)
  case 0
  then have k: "k = 63" and nlt: "\<not> 2 ^ 63 < n" by auto
  from nlt have "spsc_grow n (2 ^ 63) = Some (2 ^ 63)" by (subst spsc_grow.simps) (simp only: if_False)
  with k 0 show ?case by (intro exI [of _ 63]) blast
next
  case (Suc m)
  show ?case
  proof (cases "2 ^ k < n")
    case False
    then have "spsc_grow n (2 ^ k) = Some (2 ^ k)" by (subst spsc_grow.simps) (simp only: if_False)
    with False Suc.prems show ?thesis by (intro exI [of _ k]) auto
  next
    case True
    have "push_bit 1 ((2 :: u64) ^ k) = 2 ^ Suc k" by (simp add: push_bit_eq_mult)
    then have step: "spsc_grow n (2 ^ k) = spsc_grow n (2 ^ Suc k)"
      using True by (subst (1) spsc_grow.simps) (simp only: if_True)
    have "m = 63 - Suc k" "Suc k \<le> 63" using Suc.hyps(2) by auto
    from Suc.hyps(1) [OF this Suc.prems(2)] obtain j where j: "Suc k \<le> j" "j \<le> 63"
        "spsc_grow n (2 ^ Suc k) = Some (2 ^ j)" "n \<le> 2 ^ j" "j = Suc k \<or> 2 ^ (j - 1) < n" by blast
    then show ?thesis using step True by (intro exI [of _ j]) auto
  qed
qed

lemma SpscQueue_new_ok:
  assumes "n \<le> 2 ^ 63"
  shows "\<exists>q. SpscQueue_new d n = Some q \<and> sq_inv q \<and> sq_list q = [] \<and> n \<le> sq_cap q"
proof -
  obtain j where j: "1 \<le> j" "j \<le> 63" "spsc_grow n (2 ^ 1) = Some (2 ^ j)" "n \<le> 2 ^ j"
    using spsc_grow_pow [of 1 n] assms by auto
  have u: "unat ((2 :: u64) ^ j) = 2 ^ j" using j by (intro unat_two_power) simp
  have "(2 :: u64) ^ j - 1 = mask j" by (simp add: mask_eq_exp_minus_1)
  with j u show ?thesis
    by (auto simp: SpscQueue_new_def sq_inv_def sq_list_def sq_size_approx_def)
qed

section \<open>Properties\<close>

text \<open>Over any sequence of pushes and pops, \<open>BoundedQueue\<close> is a FIFO: the items that
  come out followed by what remains are exactly the initial content followed by the accepted
  items, in order, and the ring's indices, size and counters stay consistent.\<close>

theorem bounded_queue_fifo:
  assumes "bq_inv q" and "queue_run bq_try_push bq_try_pop ops q = (acc, out, q')"
  shows "bq_list q @ acc = out @ bq_list q' \<and> bq_inv q' \<and> bq_size q' \<le> bq_cap q \<and>
         bq_pushes q' - bq_pops q' = of_nat (bq_size q')"
  using bq.run_fifo [OF assms] by (auto simp: bq_inv_def)

theorem bounded_queue_fifo_witness:
  "bq_list (BoundedQueue_new 0 2) @ [1, 2] = [1] @ bq_list
     (snd (snd (queue_run bq_try_push bq_try_pop [Push 1, Push 2, Push 3, Pop]
        (BoundedQueue_new (0 :: int) 2))))"
proof -
  have run: "queue_run bq_try_push bq_try_pop [Push 1, Push 2, Push 3, Pop] (BoundedQueue_new (0 :: int) 2)
      = ([1, 2], [1], snd (snd (queue_run bq_try_push bq_try_pop [Push 1, Push 2, Push 3, Pop]
        (BoundedQueue_new (0 :: int) 2))))"
    by (simp add: BoundedQueue_new_def bq_try_push_def bq_try_pop_def bq_store_def bq_take_def)
  show ?thesis using bounded_queue_fifo [OF bq_new_inv(1) run] by simp
qed

text \<open>For every requested capacity up to \<open>2^63\<close> the constructor of \<open>SpscQueue\<close> returns
  an empty ring, and over any sequence of pushes and pops on it the ring, whose indices are
  masked machine words, is a FIFO that never holds more than its capacity less one.\<close>

theorem spsc_queue_fifo:
  assumes "n \<le> 2 ^ 63"
  shows "\<exists>q. SpscQueue_new d n = Some q \<and> n \<le> sq_cap q \<and>
     (\<forall>ops. case queue_run sq_try_push sq_try_pop ops q of (acc, out, q') \<Rightarrow>
        acc = out @ sq_list q' \<and> sq_inv q' \<and> length (sq_list q') < unat (sq_cap q'))"
proof -
  from SpscQueue_new_ok [OF assms, of d] obtain q where
    q: "SpscQueue_new d n = Some q" "sq_inv q" "sq_list q = []" "n \<le> sq_cap q" by blast
  have "acc = out @ sq_list q' \<and> sq_inv q' \<and> length (sq_list q') < unat (sq_cap q')"
    if "queue_run sq_try_push sq_try_pop ops q = (acc, out, q')" for ops acc out q'
  proof -
    have r: "sq_inv q' \<and> sq_list q @ acc = out @ sq_list q'" using sq.run_fifo [OF q(2) that] by blast
    then have "0 < unat (sq_cap q')" by (auto elim: sq_invE)
    with sq.bounded [of q'] r q(3) show ?thesis by auto
  qed
  with q show ?thesis by (intro exI [of _ q]) auto
qed

theorem spsc_queue_fifo_witness: "\<exists>q. SpscQueue_new (0 :: int) 5 = Some q \<and> 5 \<le> sq_cap q"
  using spsc_queue_fifo [of 5 "0 :: int"] by auto

end
