(* ===== verification/Attempts.thy ===== *)
theory Attempts
  imports Outcomes Timing Queues "HOL-Library.Signed_Division"
begin

text \<open>
  The prediction interface: requests and responses (\<open>include/prediction_interface/prediction_request.hpp\<close>,
  \<open>prediction_event.hpp\<close>, \<open>prediction_response.hpp\<close>), the clients of \<open>prediction_client.hpp\<close>, the
  attempt coordinator of \<open>prediction_attempt.hpp\<close>, the target coordinator of
  \<open>target_coordinator.hpp\<close>, and the two bounded logs \<open>RollingHistoryBuffer\<close> and
  \<open>DecisionAuditLog\<close>. A response handler is the list of responses handed to it. The iteration order of
  the attempts map is an argument. \<open>begin\<close> is split at the call of \<open>submit\<close>, during which the
  client may call back.
\<close>

section \<open>Requests, responses, events\<close>

definition makePredictionRequest :: "TimestampMs \<Rightarrow> NanoTime \<Rightarrow> CrashEvent \<Rightarrow> string \<Rightarrow> PredictionRequest" where
  "makePredictionRequest now ns ev correlationId =
     (let target = (if ev_roundId ev = [] then ev_gameId ev else ev_roundId ev)
      in \<lparr>rq_targetRoundId = target, rq_gameId = ev_gameId ev, rq_requestTimeMs = now, rq_requestNs = ns,
          rq_sequence = ev_sequence ev,
          rq_currentMult = (if dless (Fin 0) (ev_currentMult ev) then ev_currentMult ev else ev_crashPoint ev),
          rq_correlationId = (if correlationId = [] then target @ ''-'' @ show_int now else correlationId)\<rparr>)"

definition isActionable :: "PredictionResponse \<Rightarrow> bool" where
  "isActionable r \<longleftrightarrow> rs_valid r \<and> rs_decision r = Dec_Enter \<and> dless (Fin 0) (rs_confidence r)"

definition fromResponse :: "TimestampMs \<Rightarrow> NanoTime \<Rightarrow> PredictionResponse \<Rightarrow> string \<Rightarrow> double \<Rightarrow> PredictionEvent" where
  "fromResponse now ns resp gameId entryMult =
     \<lparr>pe_predictionId = rs_predictionId resp, pe_targetRoundId = rs_targetRoundId resp, pe_gameId = gameId,
      pe_decision = rs_decision resp, pe_confidence = rs_confidence resp, pe_probability = rs_probability resp,
      pe_entryMult = entryMult, pe_targetMult = rs_targetMult resp,
      pe_createdAtMs = (if rs_responseTimeMs resp \<noteq> 0 then rs_responseTimeMs resp else now),
      pe_createdAtNs = (if rs_responseNs resp \<noteq> 0 then rs_responseNs resp else ns),
      pe_correlationId = rs_correlationId resp, pe_modelVersion = rs_modelVersion resp, pe_delivered = False\<rparr>"

section \<open>Clients\<close>

record PredictionContract =
  ct_interfaceVersion :: string
  ct_timeoutMs :: int
  ct_preferSharedMemory :: bool

record PredictionClient =
  pc_contract :: PredictionContract
  pc_has_handler :: bool
  pc_pending :: "string \<rightharpoonup> PredictionResponse"
  pc_submitted :: u64

text \<open>The base class answers every request with a skip.\<close>

definition stub_response :: "TimestampMs \<Rightarrow> NanoTime \<Rightarrow> PredictionRequest \<Rightarrow> PredictionResponse" where
  "stub_response now ns req =
     PredictionResponse_default\<lparr>rs_predictionId := ''stub-'' @ rq_correlationId req,
       rs_targetRoundId := rq_targetRoundId req, rs_decision := Dec_Skip, rs_confidence := Fin 0,
       rs_responseTimeMs := now, rs_responseNs := ns, rs_correlationId := rq_correlationId req,
       rs_modelVersion := ''stub'', rs_valid := True\<rparr>"

definition pc_submit :: "TimestampMs \<Rightarrow> NanoTime \<Rightarrow> PredictionRequest \<Rightarrow> PredictionClient \<Rightarrow>
    unit Result \<times> PredictionResponse list \<times> PredictionClient" where
  "pc_submit now ns req c =
     (let resp = stub_response now ns req;
          c = c\<lparr>pc_pending := (pc_pending c)(rq_correlationId req \<mapsto> resp), pc_submitted := pc_submitted c + 1\<rparr>
      in (Inr (), if pc_has_handler c then [resp] else [], c))"

definition pc_pollResponse :: "string \<Rightarrow> PredictionClient \<Rightarrow> PredictionResponse option \<times> PredictionClient" where
  "pc_pollResponse correlationId c =
     (case pc_pending c correlationId of
        None \<Rightarrow> (None, c)
      | Some r \<Rightarrow> (Some r, c\<lparr>pc_pending := (pc_pending c)(correlationId := None)\<rparr>))"

record ShmPredictionClient =
  sh_has_handler :: bool
  sh_req_queue :: "PredictionRequest SpscQueue"
  sh_resp_queue :: "PredictionResponse SpscQueue"
  sh_submitted :: u64
  sh_tracker :: "LatencyTracker option"

definition sh_submit :: "NanoTime \<Rightarrow> NanoTime \<Rightarrow> PredictionRequest \<Rightarrow> ShmPredictionClient \<Rightarrow> unit Result \<times> ShmPredictionClient" where
  "sh_submit t0 t1 req c =
     (let (ok, q) = sq_try_push (sh_req_queue c) req; c = c\<lparr>sh_req_queue := q\<rparr>
      in if \<not> ok then (Inl (mkError EC_QueueFull ''prediction request queue full''), c)
         else (Inr (), c\<lparr>sh_submitted := sh_submitted c + 1,
                         sh_tracker := map_option (lt_record St_Ipc ((t1 - t0) sdiv 1000)) (sh_tracker c)\<rparr>))"

definition sh_pushResponse :: "PredictionResponse \<Rightarrow> ShmPredictionClient \<Rightarrow> bool \<times> PredictionResponse list \<times> ShmPredictionClient" where
  "sh_pushResponse resp c =
     (let (ok, q) = sq_try_push (sh_resp_queue c) resp
      in (ok, if sh_has_handler c then [resp] else [], c\<lparr>sh_resp_queue := q\<rparr>))"

definition sh_popRequest :: "ShmPredictionClient \<Rightarrow> PredictionRequest option \<times> ShmPredictionClient" where
  "sh_popRequest c = (let (r, q) = sq_try_pop (sh_req_queue c) in (r, c\<lparr>sh_req_queue := q\<rparr>))"

definition sh_popResponse :: "ShmPredictionClient \<Rightarrow> PredictionResponse option \<times> ShmPredictionClient" where
  "sh_popResponse c = (let (r, q) = sq_try_pop (sh_resp_queue c) in (r, c\<lparr>sh_resp_queue := q\<rparr>))"

section \<open>Attempts\<close>

datatype AttemptState = At_Idle | At_InFlight | At_Completed | At_TimedOut | At_Fenced | At_Failed

record PredictionAttemptRecord =
  ar_attemptId :: string
  ar_targetRoundId :: string
  ar_correlationId :: string
  ar_generation :: u64
  ar_state :: AttemptState
  ar_startedAtMs :: TimestampMs
  ar_completedAtMs :: TimestampMs
  ar_response :: PredictionResponse
  ar_error :: string

record PredictionAttemptCoordinator =
  pa_fence :: GenerationFence
  pa_tracker :: "LatencyTracker option"
  pa_timeout_ms :: int
  pa_attempts :: "string \<rightharpoonup> PredictionAttemptRecord"
  pa_started :: u64
  pa_completed :: u64
  pa_timeouts :: u64
  pa_fenced :: u64
  pa_failed :: u64

definition PredictionAttemptCoordinator_new :: "LatencyTracker option \<Rightarrow> int \<Rightarrow> PredictionAttemptCoordinator" where
  "PredictionAttemptCoordinator_new tracker timeoutMs =
     \<lparr>pa_fence = Map.empty, pa_tracker = tracker, pa_timeout_ms = timeoutMs, pa_attempts = Map.empty,
      pa_started = 0, pa_completed = 0, pa_timeouts = 0, pa_fenced = 0, pa_failed = 0\<rparr>"

definition attempt_id :: "TimestampMs \<Rightarrow> PredictionRequest \<Rightarrow> string" where
  "attempt_id now req =
     (if rq_correlationId req = [] then rq_targetRoundId req @ ''-'' @ show_int now else rq_correlationId req)"

text \<open>\<open>begin\<close> up to the call of the client: the request submitted and the state with the attempt in flight.\<close>

definition pa_open :: "TimestampMs \<Rightarrow> TimestampMs \<Rightarrow> PredictionRequest \<Rightarrow> PredictionAttemptCoordinator \<Rightarrow>
    string \<times> PredictionRequest \<times> PredictionAttemptCoordinator" where
  "pa_open now0 now1 req c =
     (let (gen, fence) = gf_bump (rq_targetRoundId req) (pa_fence c);
          i = attempt_id now0 req;
          rec = \<lparr>ar_attemptId = i, ar_targetRoundId = rq_targetRoundId req, ar_correlationId = i, ar_generation = gen,
                 ar_state = At_InFlight, ar_startedAtMs = now1, ar_completedAtMs = 0,
                 ar_response = PredictionResponse_default, ar_error = []\<rparr>
      in (i, req\<lparr>rq_correlationId := i\<rparr>, c\<lparr>pa_fence := fence, pa_attempts := (pa_attempts c)(i \<mapsto> rec)\<rparr>))"

text \<open>The rest of \<open>begin\<close>, from the client's answer.\<close>

definition pa_close :: "TimestampMs \<Rightarrow> NanoTime \<Rightarrow> NanoTime \<Rightarrow> string \<Rightarrow> unit Result \<Rightarrow> PredictionAttemptCoordinator \<Rightarrow>
    string Result \<times> PredictionAttemptCoordinator" where
  "pa_close now t0 t1 i submit c =
     (let c = c\<lparr>pa_tracker := map_option (lt_record St_Ipc ((t1 - t0) sdiv 1000)) (pa_tracker c)\<rparr>
      in case submit of
           Inl e \<Rightarrow>
             let a = (case pa_attempts c i of Some a \<Rightarrow> a
                      | None \<Rightarrow> \<lparr>ar_attemptId = [], ar_targetRoundId = [], ar_correlationId = [], ar_generation = 0,
                                 ar_state = At_Idle, ar_startedAtMs = 0, ar_completedAtMs = 0,
                                 ar_response = PredictionResponse_default, ar_error = []\<rparr>);
                 a = a\<lparr>ar_state := At_Failed, ar_error := err_message e, ar_completedAtMs := now\<rparr>
             in (Inl e, c\<lparr>pa_attempts := (pa_attempts c)(i \<mapsto> a), pa_failed := pa_failed c + 1\<rparr>)
         | Inr _ \<Rightarrow> (Inr i, c\<lparr>pa_started := pa_started c + 1\<rparr>))"

text \<open>\<open>completeLocked\<close>: the returned record is what the completion handler gets.\<close>

definition pa_completeLocked :: "TimestampMs \<Rightarrow> string \<Rightarrow> PredictionAttemptRecord \<Rightarrow> PredictionResponse \<Rightarrow>
    PredictionAttemptCoordinator \<Rightarrow> bool \<times> PredictionAttemptRecord option \<times> PredictionAttemptCoordinator" where
  "pa_completeLocked now i a resp c =
     (if ar_state a \<noteq> At_InFlight then (False, None, c)
      else if \<not> gf_isCurrent (ar_targetRoundId a) (ar_generation a) (pa_fence c) then
        let a = a\<lparr>ar_state := At_Fenced, ar_completedAtMs := now\<rparr>
        in (False, Some a, c\<lparr>pa_attempts := (pa_attempts c)(i \<mapsto> a), pa_fenced := pa_fenced c + 1\<rparr>)
      else
        let a = a\<lparr>ar_response := resp, ar_state := At_Completed, ar_completedAtMs := now\<rparr>
        in (True, Some a, c\<lparr>pa_attempts := (pa_attempts c)(i \<mapsto> a), pa_completed := pa_completed c + 1\<rparr>))"

fun pa_find_target :: "string \<Rightarrow> string list \<Rightarrow> (string \<rightharpoonup> PredictionAttemptRecord) \<Rightarrow> (string \<times> PredictionAttemptRecord) option" where
  "pa_find_target target [] m = None"
| "pa_find_target target (i # ks) m =
     (case m i of
        Some a \<Rightarrow> if ar_targetRoundId a = target \<and> ar_state a = At_InFlight then Some (i, a) else pa_find_target target ks m
      | None \<Rightarrow> pa_find_target target ks m)"

definition pa_complete :: "TimestampMs \<Rightarrow> string list \<Rightarrow> PredictionResponse \<Rightarrow> PredictionAttemptCoordinator \<Rightarrow>
    bool \<times> PredictionAttemptRecord option \<times> PredictionAttemptCoordinator" where
  "pa_complete now ks resp c =
     (case pa_attempts c (rs_correlationId resp) of
        None \<Rightarrow> (case pa_find_target (rs_targetRoundId resp) ks (pa_attempts c) of
                   None \<Rightarrow> (False, None, c)
                 | Some (i, a) \<Rightarrow> pa_completeLocked now i a resp c)
      | Some a \<Rightarrow> pa_completeLocked now (rs_correlationId resp) a resp c)"

definition pa_expired :: "TimestampMs \<Rightarrow> PredictionAttemptCoordinator \<Rightarrow> PredictionAttemptRecord \<Rightarrow> bool" where
  "pa_expired now c a \<longleftrightarrow> ar_state a = At_InFlight \<and> now - ar_startedAtMs a > pa_timeout_ms c"

fun pa_expireTimeouts :: "TimestampMs \<Rightarrow> string list \<Rightarrow> PredictionAttemptCoordinator \<Rightarrow>
    nat \<times> PredictionAttemptRecord list \<times> PredictionAttemptCoordinator" where
  "pa_expireTimeouts now [] c = (0, [], c)"
| "pa_expireTimeouts now (i # ks) c =
     (case pa_attempts c i of
        Some a \<Rightarrow>
          if pa_expired now c a then
            let a = a\<lparr>ar_state := At_TimedOut, ar_completedAtMs := now\<rparr>;
                (n, done, c) = pa_expireTimeouts now ks
                  (c\<lparr>pa_attempts := (pa_attempts c)(i \<mapsto> a), pa_timeouts := pa_timeouts c + 1\<rparr>)
            in (Suc n, a # done, c)
          else pa_expireTimeouts now ks c
      | None \<Rightarrow> pa_expireTimeouts now ks c)"

section \<open>Targets\<close>

datatype TargetState = Tg_Available | Tg_Claimed | Tg_Predicted | Tg_Resolved | Tg_Expired

record TargetRecord =
  tr_roundId :: string
  tr_state :: TargetState
  tr_availableAtMs :: TimestampMs
  tr_claimedAtMs :: TimestampMs
  tr_resolvedAtMs :: TimestampMs
  tr_predictionId :: string

definition TargetRecord_default :: TargetRecord where
  "TargetRecord_default =
     \<lparr>tr_roundId = [], tr_state = Tg_Available, tr_availableAtMs = 0, tr_claimedAtMs = 0, tr_resolvedAtMs = 0,
      tr_predictionId = []\<rparr>"

record TargetCoordinator =
  tc_targets :: "string \<rightharpoonup> TargetRecord"
  tc_claims :: u64
  tc_resolved :: u64
  tc_expired :: u64
  tc_releases :: u64

definition TargetCoordinator_new :: TargetCoordinator where
  "TargetCoordinator_new = \<lparr>tc_targets = Map.empty, tc_claims = 0, tc_resolved = 0, tc_expired = 0, tc_releases = 0\<rparr>"

definition tc_noteRoundStart :: "TimestampMs \<Rightarrow> string \<Rightarrow> TargetCoordinator \<Rightarrow> TargetCoordinator" where
  "tc_noteRoundStart now i c =
     (let t = (case tc_targets c i of Some t \<Rightarrow> t | None \<Rightarrow> TargetRecord_default)
      in c\<lparr>tc_targets := (tc_targets c)(i \<mapsto> t\<lparr>tr_roundId := i, tr_state := Tg_Available, tr_availableAtMs := now\<rparr>)\<rparr>)"

definition tc_claim :: "TimestampMs \<Rightarrow> string \<Rightarrow> string \<Rightarrow> TargetCoordinator \<Rightarrow> bool \<times> TargetCoordinator" where
  "tc_claim now i predictionId c =
     (case tc_targets c i of
        None \<Rightarrow>
          (True, c\<lparr>tc_targets := (tc_targets c)(i \<mapsto> TargetRecord_default\<lparr>tr_roundId := i, tr_state := Tg_Claimed,
                      tr_claimedAtMs := now, tr_predictionId := predictionId\<rparr>),
                   tc_claims := tc_claims c + 1\<rparr>)
      | Some t \<Rightarrow>
          if tr_state t \<noteq> Tg_Available then (False, c)
          else (True, c\<lparr>tc_targets := (tc_targets c)(i \<mapsto> t\<lparr>tr_state := Tg_Claimed, tr_claimedAtMs := now,
                           tr_predictionId := predictionId\<rparr>),
                        tc_claims := tc_claims c + 1\<rparr>))"

definition tc_markPredicted :: "string \<Rightarrow> TargetCoordinator \<Rightarrow> TargetCoordinator" where
  "tc_markPredicted i c =
     (case tc_targets c i of None \<Rightarrow> c
      | Some t \<Rightarrow> c\<lparr>tc_targets := (tc_targets c)(i \<mapsto> t\<lparr>tr_state := Tg_Predicted\<rparr>)\<rparr>)"

definition tc_release :: "string \<Rightarrow> TargetCoordinator \<Rightarrow> bool \<times> TargetCoordinator" where
  "tc_release i c =
     (case tc_targets c i of None \<Rightarrow> (False, c)
      | Some t \<Rightarrow>
          if tr_state t = Tg_Claimed \<or> tr_state t = Tg_Predicted then
            (True, c\<lparr>tc_targets := (tc_targets c)(i \<mapsto> t\<lparr>tr_state := Tg_Available, tr_predictionId := [], tr_claimedAtMs := 0\<rparr>),
                     tc_releases := tc_releases c + 1\<rparr>)
          else (False, c))"

definition tc_markResolved :: "TimestampMs \<Rightarrow> string \<Rightarrow> TargetCoordinator \<Rightarrow> TargetCoordinator" where
  "tc_markResolved now i c =
     (case tc_targets c i of None \<Rightarrow> c
      | Some t \<Rightarrow> c\<lparr>tc_targets := (tc_targets c)(i \<mapsto> t\<lparr>tr_state := Tg_Resolved, tr_resolvedAtMs := now\<rparr>),
                   tc_resolved := tc_resolved c + 1\<rparr>)"

definition tc_get :: "string \<Rightarrow> TargetCoordinator \<Rightarrow> TargetRecord option" where
  "tc_get i c = tc_targets c i"

definition tc_available :: "string list \<Rightarrow> TargetCoordinator \<Rightarrow> string list" where
  "tc_available ks c = filter (\<lambda>i. case tc_targets c i of Some t \<Rightarrow> tr_state t = Tg_Available | None \<Rightarrow> False) ks"

definition tc_is_stale :: "TimestampMs \<Rightarrow> TimestampMs \<Rightarrow> TargetRecord \<Rightarrow> bool" where
  "tc_is_stale now ageMs t \<longleftrightarrow> tr_state t = Tg_Available \<and> tr_availableAtMs t > 0 \<and> now - tr_availableAtMs t > ageMs"

definition tc_expireOlderThan :: "TimestampMs \<Rightarrow> TimestampMs \<Rightarrow> string list \<Rightarrow> TargetCoordinator \<Rightarrow> nat \<times> TargetCoordinator" where
  "tc_expireOlderThan now ageMs ks c =
     (let stale = filter (\<lambda>i. case tc_targets c i of Some t \<Rightarrow> tc_is_stale now ageMs t | None \<Rightarrow> False) ks
      in (length stale,
          c\<lparr>tc_targets := fold (\<lambda>i m. case m i of Some t \<Rightarrow> m(i \<mapsto> t\<lparr>tr_state := Tg_Expired\<rparr>) | None \<Rightarrow> m) stale (tc_targets c),
            tc_expired := tc_expired c + of_nat (length stale)\<rparr>))"

section \<open>Bounded logs\<close>

record HistoryRound =
  hr_gameId :: string
  hr_multiplier :: double
  hr_crashedAtMs :: TimestampMs
  hr_hash :: string

record RollingHistoryBuffer =
  rh_capacity :: nat
  rh_buf :: "HistoryRound list"
  rh_pushes :: u64

definition RollingHistoryBuffer_new :: "nat \<Rightarrow> RollingHistoryBuffer" where
  "RollingHistoryBuffer_new capacity = \<lparr>rh_capacity = capacity, rh_buf = [], rh_pushes = 0\<rparr>"

definition rh_push :: "HistoryRound \<Rightarrow> RollingHistoryBuffer \<Rightarrow> RollingHistoryBuffer" where
  "rh_push r h = h\<lparr>rh_buf := trim (rh_capacity h) (rh_buf h @ [r]), rh_pushes := rh_pushes h + 1\<rparr>"

definition rh_pushFromEvent :: "TimestampMs \<Rightarrow> CrashEvent \<Rightarrow> RollingHistoryBuffer \<Rightarrow> RollingHistoryBuffer" where
  "rh_pushFromEvent now e h =
     (if ev_kind e \<noteq> Ev_End \<or> \<not> ev_valid e then h
      else rh_push \<lparr>hr_gameId = (if ev_gameId e = [] then ev_roundId e else ev_gameId e), hr_multiplier = ev_crashPoint e,
                    hr_crashedAtMs = (if ev_endedAtMs e \<noteq> 0 then ev_endedAtMs e else now), hr_hash = ev_hash e\<rparr> h)"

definition rh_last :: "nat \<Rightarrow> RollingHistoryBuffer \<Rightarrow> HistoryRound list" where
  "rh_last n h = drop (if length (rh_buf h) > n then length (rh_buf h) - n else 0) (rh_buf h)"

definition rh_lastMultiplier :: "RollingHistoryBuffer \<Rightarrow> double option" where
  "rh_lastMultiplier h = (if rh_buf h = [] then None else Some (hr_multiplier (last (rh_buf h))))"

definition rh_average :: "nat \<Rightarrow> RollingHistoryBuffer \<Rightarrow> double option" where
  "rh_average n h =
     (let v = rh_last n h
      in if v = [] then None
         else Some (ddiv (fold (\<lambda>r s. dadd s (hr_multiplier r)) v (Fin 0)) (of_integer (int (length v)))))"

definition rh_clear :: "RollingHistoryBuffer \<Rightarrow> RollingHistoryBuffer" where
  "rh_clear h = h\<lparr>rh_buf := []\<rparr>"

record DecisionAuditEntry =
  da_atMs :: TimestampMs
  da_correlationId :: string
  da_targetRoundId :: string
  da_decision :: PredictionDecision
  da_confidence :: double
  da_targetMult :: double
  da_currentMult :: double
  da_latencyUs :: int
  da_modelVersion :: string
  da_timedOut :: bool
  da_fenced :: bool

record DecisionAuditLog =
  dl_max :: nat
  dl_entries :: "DecisionAuditEntry list"
  dl_total :: u64

definition dl_record :: "TimestampMs \<Rightarrow> DecisionAuditEntry \<Rightarrow> DecisionAuditLog \<Rightarrow> DecisionAuditLog" where
  "dl_record now e l =
     (let e = (if da_atMs e = 0 then e\<lparr>da_atMs := now\<rparr> else e)
      in l\<lparr>dl_entries := trim (dl_max l) (dl_entries l @ [e]), dl_total := dl_total l + 1\<rparr>)"

definition dl_recordResponse :: "TimestampMs \<Rightarrow> PredictionRequest \<Rightarrow> PredictionResponse \<Rightarrow> int \<Rightarrow> DecisionAuditLog \<Rightarrow> DecisionAuditLog" where
  "dl_recordResponse now req resp latencyUs l =
     dl_record now
       \<lparr>da_atMs = 0,
        da_correlationId = (if rs_correlationId resp = [] then rq_correlationId req else rs_correlationId resp),
        da_targetRoundId = (if rs_targetRoundId resp = [] then rq_targetRoundId req else rs_targetRoundId resp),
        da_decision = rs_decision resp, da_confidence = rs_confidence resp, da_targetMult = rs_targetMult resp,
        da_currentMult = rq_currentMult req, da_latencyUs = latencyUs, da_modelVersion = rs_modelVersion resp,
        da_timedOut = False, da_fenced = False\<rparr> l"

definition dl_recent :: "nat \<Rightarrow> DecisionAuditLog \<Rightarrow> DecisionAuditEntry list" where
  "dl_recent n l = drop (if length (dl_entries l) > n then length (dl_entries l) - n else 0) (dl_entries l)"

lemma rh_last_trim: "rh_last n h = trim n (rh_buf h)"
  by (simp add: rh_last_def trim_eq_drop)

lemma dl_recent_trim: "dl_recent n l = trim n (dl_entries l)"
  by (simp add: dl_recent_def trim_eq_drop)

lemma rh_push_window: "rh_buf (rh_push r h) = trim (rh_capacity h) (rh_buf h @ [r])" "rh_capacity (rh_push r h) = rh_capacity h"
  by (simp_all add: rh_push_def)

text \<open>The buffer after any pushes holds the last \<open>capacity\<close> rounds.\<close>

lemma rh_pushes_window:
  "rh_buf (fold rh_push rs h) = trim (rh_capacity h) (rh_buf h @ rs) \<or> rs = [] \<and> rh_buf (fold rh_push rs h) = rh_buf h"
proof (induction rs rule: rev_induct)
  case (snoc r rs)
  have "rh_capacity (fold rh_push rs h) = rh_capacity h" by (induction rs rule: rev_induct) (simp_all add: rh_push_window)
  with snoc show ?case by (auto simp: rh_push_window trim_trim_snoc simp flip: append_assoc)
qed simp

section \<open>Fencing of attempts\<close>

lemma pa_open_attempt:
  assumes "pa_open now0 now1 req c = (i, r, c')"
  shows "i = attempt_id now0 req" "rq_correlationId r = i" "rq_targetRoundId r = rq_targetRoundId req"
    and "gf_bump (rq_targetRoundId req) (pa_fence c) = (gf_current (rq_targetRoundId req) (pa_fence c'), pa_fence c')"
    and "\<exists>a. pa_attempts c' = (pa_attempts c)(i \<mapsto> a) \<and> ar_state a = At_InFlight \<and>
      ar_targetRoundId a = rq_targetRoundId req \<and> ar_generation a = gf_current (rq_targetRoundId req) (pa_fence c')"
  using assms by (auto simp: pa_open_def gf_bump_def gf_current_def Let_def)

lemma gf_bump_advances:
  assumes "gf_bump k f = (g, f')"
  shows "g = gf_current k f + 1" "gf_current k f' = g" "j \<noteq> k \<Longrightarrow> gf_current j f' = gf_current j f"
  using assms by (auto simp: gf_bump_def gf_current_def Let_def)

text \<open>Of two attempts at the same round only the later one can complete: a response to the first is fenced off
  (its record says so and it is not counted as completed), a response to the second completes it, and a second
  response to it changes nothing.\<close>

theorem superseded_attempt_fenced:
  assumes o1: "pa_open t0 t1 req1 c = (i1, r1, c1)" and o2: "pa_open t2 t3 req2 c1 = (i2, r2, c2)"
    and same: "rq_targetRoundId req1 = rq_targetRoundId req2" and ne: "i1 \<noteq> i2"
    and resp: "rs_correlationId resp1 = i1" "rs_correlationId resp2 = i2"
  shows "case pa_complete t4 ks resp1 c2 of (ok1, a1, c3) \<Rightarrow>
     \<not> ok1 \<and> map_option ar_state (pa_attempts c3 i1) = Some At_Fenced \<and> pa_completed c3 = pa_completed c2 \<and>
     (case pa_complete t5 ks resp2 c3 of (ok2, a2, c4) \<Rightarrow>
        ok2 \<and> map_option ar_response (pa_attempts c4 i2) = Some resp2 \<and> pa_completed c4 = pa_completed c2 + 1 \<and>
        pa_complete t6 ks resp2 c4 = (False, None, c4))"
proof -
  let ?k = "rq_targetRoundId req2"
  note p1 = pa_open_attempt [OF o1] and p2 = pa_open_attempt [OF o2]
  obtain a1 where a1: "pa_attempts c1 = (pa_attempts c)(i1 \<mapsto> a1)" "ar_state a1 = At_InFlight"
      "ar_targetRoundId a1 = ?k" "ar_generation a1 = gf_current ?k (pa_fence c1)"
    using p1(5) same by auto
  obtain a2 where a2: "pa_attempts c2 = (pa_attempts c1)(i2 \<mapsto> a2)" "ar_state a2 = At_InFlight"
      "ar_targetRoundId a2 = ?k" "ar_generation a2 = gf_current ?k (pa_fence c2)"
    using p2(5) by auto
  have "gf_current ?k (pa_fence c2) = gf_current ?k (pa_fence c1) + 1" using gf_bump_advances(1) [OF p2(4)] .
  then have stale: "\<not> gf_isCurrent ?k (ar_generation a1) (pa_fence c2)" by (simp add: gf_isCurrent_def a1)
  have cur: "gf_isCurrent ?k (ar_generation a2) (pa_fence c2)" by (simp add: gf_isCurrent_def a2)
  have l: "pa_attempts c2 i1 = Some a1" "pa_attempts c2 i2 = Some a2" using a1 a2 ne by simp_all
  show ?thesis using l stale cur ne a1(2,3) a2(2,3) resp
    by (simp add: pa_complete_def pa_completeLocked_def Let_def)
qed

definition demo_request :: "string \<Rightarrow> PredictionRequest" where
  "demo_request corr =
     \<lparr>rq_targetRoundId = ''8'', rq_gameId = ''7'', rq_requestTimeMs = 1, rq_requestNs = 1, rq_sequence = 1,
      rq_currentMult = Fin 2, rq_correlationId = corr\<rparr>"

theorem superseded_attempt_fenced_witness:
  "let c = PredictionAttemptCoordinator_new None 50;
       (i1, r1, c1) = pa_open 1 1 (demo_request ''a'') c; (i2, r2, c2) = pa_open 2 2 (demo_request ''b'') c1;
       resp1 = PredictionResponse_default\<lparr>rs_correlationId := ''a''\<rparr>; resp2 = PredictionResponse_default\<lparr>rs_correlationId := ''b''\<rparr>
   in case pa_complete 3 [] resp1 c2 of (ok1, a1, c3) \<Rightarrow>
     \<not> ok1 \<and> map_option ar_state (pa_attempts c3 i1) = Some At_Fenced \<and> pa_completed c3 = pa_completed c2 \<and>
     (case pa_complete 4 [] resp2 c3 of (ok2, a2, c4) \<Rightarrow>
        ok2 \<and> map_option ar_response (pa_attempts c4 i2) = Some resp2 \<and> pa_completed c4 = pa_completed c2 + 1 \<and>
        pa_complete 5 [] resp2 c4 = (False, None, c4))"
proof -
  let ?c = "PredictionAttemptCoordinator_new None 50"
  obtain i1 r1 c1 where o1: "pa_open 1 1 (demo_request ''a'') ?c = (i1, r1, c1)" by (metis prod_cases3)
  obtain i2 r2 c2 where o2: "pa_open 2 2 (demo_request ''b'') c1 = (i2, r2, c2)" by (metis prod_cases3)
  have i: "i1 = ''a''" "i2 = ''b''"
    using pa_open_attempt(1) [OF o1] pa_open_attempt(1) [OF o2] by (simp_all add: attempt_id_def demo_request_def)
  show ?thesis unfolding Let_def o1 o2 prod.case
    by (rule superseded_attempt_fenced [OF o1 o2]) (simp_all add: demo_request_def i)
qed

section \<open>Ownership of targets\<close>

datatype tc_op =
    Op_Claim TimestampMs string string | Op_Predicted string | Op_Resolved TimestampMs string
  | Op_Expire TimestampMs TimestampMs "string list" | Op_Release string | Op_Start TimestampMs string

fun tc_exec :: "tc_op \<Rightarrow> TargetCoordinator \<Rightarrow> TargetCoordinator" where
  "tc_exec (Op_Claim now i p) c = snd (tc_claim now i p c)"
| "tc_exec (Op_Predicted i) c = tc_markPredicted i c"
| "tc_exec (Op_Resolved now i) c = tc_markResolved now i c"
| "tc_exec (Op_Expire now age ks) c = snd (tc_expireOlderThan now age ks c)"
| "tc_exec (Op_Release i) c = snd (tc_release i c)"
| "tc_exec (Op_Start now i) c = tc_noteRoundStart now i c"

fun frees :: "string \<Rightarrow> tc_op \<Rightarrow> bool" where
  "frees i (Op_Release j) = (i = j)"
| "frees i (Op_Start now j) = (i = j)"
| "frees i _ = False"

definition tc_owned :: "string \<Rightarrow> string \<Rightarrow> TargetCoordinator \<Rightarrow> bool" where
  "tc_owned i p c \<longleftrightarrow> (\<exists>t. tc_targets c i = Some t \<and> tr_state t \<noteq> Tg_Available \<and> tr_predictionId t = p)"

lemma fold_expire_owned:
  "m i = Some t \<Longrightarrow> i \<notin> set is \<Longrightarrow>
   fold (\<lambda>i m. case m i of Some t \<Rightarrow> m(i \<mapsto> t\<lparr>tr_state := Tg_Expired\<rparr>) | None \<Rightarrow> m) is m i = Some t"
  by (induction "is" arbitrary: m) (auto split: option.splits)

lemma tc_owned_exec:
  assumes "tc_owned i p c" "\<not> frees i op"
  shows "tc_owned i p (tc_exec op c)"
proof -
  obtain t where t: "tc_targets c i = Some t" "tr_state t \<noteq> Tg_Available" "tr_predictionId t = p"
    using assms(1) by (auto simp: tc_owned_def)
  show ?thesis
  proof (cases op)
    case (Op_Claim now j q)
    with t show ?thesis by (cases "j = i") (auto simp: tc_owned_def tc_claim_def split: option.splits)
  next
    case (Op_Predicted j)
    with t show ?thesis by (cases "j = i") (auto simp: tc_owned_def tc_markPredicted_def split: option.splits)
  next
    case (Op_Resolved now j)
    with t show ?thesis by (cases "j = i") (auto simp: tc_owned_def tc_markResolved_def split: option.splits)
  next
    case (Op_Expire now age ks)
    have "i \<notin> set (filter (\<lambda>i. case tc_targets c i of Some t \<Rightarrow> tc_is_stale now age t | None \<Rightarrow> False) ks)"
      using t by (simp add: tc_is_stale_def)
    from fold_expire_owned [of "tc_targets c" i, OF t(1) this] t show ?thesis
      by (simp add: Op_Expire tc_owned_def tc_expireOlderThan_def Let_def)
  next
    case (Op_Release j)
    with t assms(2) show ?thesis by (auto simp: tc_owned_def tc_release_def split: option.splits)
  next
    case (Op_Start now j)
    with t assms(2) show ?thesis by (auto simp: tc_owned_def tc_noteRoundStart_def Let_def)
  qed
qed

text \<open>C27: a target has one owner: after a successful claim, and whatever operations follow short of releasing the target or
  announcing the round again, every other claim of it fails and its record still names the first
  prediction.\<close>

theorem target_claim_exclusive:
  assumes "tc_claim now i p c = (True, c1)" and "list_all (\<lambda>op. \<not> frees i op) ops"
  shows "let c2 = fold tc_exec ops c1 in
    tc_claim now' i q c2 = (False, c2) \<and> map_option tr_predictionId (tc_get i c2) = Some p"
proof -
  have "tc_owned i p c1" using assms(1)
    by (auto simp: tc_claim_def tc_owned_def split: option.splits if_splits)
  then have "tc_owned i p (fold tc_exec ops c1)" using assms(2)
    by (induction ops arbitrary: c1) (simp_all add: tc_owned_exec)
  then show ?thesis by (auto simp: tc_owned_def tc_claim_def tc_get_def Let_def)
qed

theorem target_claim_exclusive_witness:
  "let c2 = fold tc_exec [Op_Predicted ''8'', Op_Expire 99 5 [''8'']] (snd (tc_claim 1 ''8'' ''p'' TargetCoordinator_new)) in
    tc_claim 3 ''8'' ''q'' c2 = (False, c2) \<and> map_option tr_predictionId (tc_get ''8'' c2) = Some ''p''"
  by (rule target_claim_exclusive [of 1 _ _ TargetCoordinator_new]) (simp_all add: tc_claim_def TargetCoordinator_new_def)

text \<open>Announcing a round again frees a target that is already claimed.\<close>

lemma round_start_frees_claimed:
  "tc_claim now i p c = (True, c1) \<Longrightarrow> fst (tc_claim now' i q (tc_noteRoundStart t i c1))"
  by (auto simp: tc_claim_def tc_noteRoundStart_def Let_def split: option.splits if_splits)

end
