(* ===== verification/Registry.thy ===== *)
theory Registry
  imports Types "HOL-Library.Char_ord" "HOL-Library.List_Lexorder" "HOL-Library.Product_Lexorder"
    "HOL-Library.Multiset"
begin

text \<open>
  \<open>PredictionRegistry\<close> of \<open>include/validation/prediction_registry.hpp\<close>, the pending predictions
  by round, with \<open>StuckRecovery\<close> (\<open>stuck_recovery.hpp\<close>). Loops over the unordered map of rounds
  take its iteration order as the argument \<open>ks\<close>; the results below hold for every enumeration of
  the keys. The eviction sorts pairs of creation time and id; \<open>std::string\<close> compares as unsigned
  bytes, the order of \<open>Char_ord\<close> and \<open>List_Lexorder\<close>.
\<close>

section \<open>State and operations\<close>

record PredictionRegistry =
  pr_max :: nat
  pr_by_round :: "string \<rightharpoonup> PredictionEvent list"
  pr_by_id :: "string \<rightharpoonup> string"
  pr_registered :: u64
  pr_duplicates :: u64
  pr_pruned :: u64

definition PredictionRegistry_new :: "nat \<Rightarrow> PredictionRegistry" where
  "PredictionRegistry_new maxEntries =
     \<lparr>pr_max = maxEntries, pr_by_round = Map.empty, pr_by_id = Map.empty, pr_registered = 0,
      pr_duplicates = 0, pr_pruned = 0\<rparr>"

definition pr_list :: "PredictionRegistry \<Rightarrow> string \<Rightarrow> PredictionEvent list" where
  "pr_list r k = (case pr_by_round r k of Some es \<Rightarrow> es | None \<Rightarrow> [])"

definition pr_all :: "string list \<Rightarrow> PredictionRegistry \<Rightarrow> PredictionEvent list" where
  "pr_all ks r = concat (map (pr_list r) ks)"

definition pr_size :: "string list \<Rightarrow> PredictionRegistry \<Rightarrow> nat" where
  "pr_size ks r = sum_list (map (\<lambda>k. length (pr_list r k)) ks)"

text \<open>Remove one prediction by id; an emptied round is erased.\<close>

definition pr_remove_from :: "string \<Rightarrow> string \<Rightarrow> PredictionRegistry \<Rightarrow> PredictionRegistry" where
  "pr_remove_from pid rid r =
     (case pr_by_round r rid of
        None \<Rightarrow> r
      | Some es \<Rightarrow>
          let es' = filter (\<lambda>p. pe_predictionId p \<noteq> pid) es
          in r\<lparr>pr_by_round := (if es' = [] then (pr_by_round r)(rid := None) else (pr_by_round r)(rid \<mapsto> es'))\<rparr>)"

fun pr_drop :: "(TimestampMs \<times> string) list \<Rightarrow> PredictionRegistry \<Rightarrow> PredictionRegistry" where
  "pr_drop [] r = r"
| "pr_drop ((_, pid) # ages) r =
     (case pr_by_id r pid of
        None \<Rightarrow> pr_drop ages r
      | Some rid \<Rightarrow>
          let r = pr_remove_from pid rid (r\<lparr>pr_by_id := (pr_by_id r)(pid := None)\<rparr>)
          in pr_drop ages (r\<lparr>pr_pruned := pr_pruned r + 1\<rparr>))"

definition pr_pruneIfNeeded :: "string list \<Rightarrow> PredictionRegistry \<Rightarrow> PredictionRegistry" where
  "pr_pruneIfNeeded ks r =
     (let total = pr_size ks r
      in if total \<le> pr_max r then r
         else let ages = sort (map (\<lambda>e. (pe_createdAtMs e, pe_predictionId e)) (pr_all ks r))
              in pr_drop (take (total - pr_max r) ages) r)"

definition pr_add :: "PredictionEvent \<Rightarrow> PredictionRegistry \<Rightarrow> PredictionRegistry" where
  "pr_add ev r =
     r\<lparr>pr_by_round := (pr_by_round r)(pe_targetRoundId ev \<mapsto> pr_list r (pe_targetRoundId ev) @ [ev]),
       pr_by_id := (pr_by_id r)(pe_predictionId ev \<mapsto> pe_targetRoundId ev),
       pr_registered := pr_registered r + 1\<rparr>"

definition pr_is_dup :: "PredictionEvent \<Rightarrow> PredictionRegistry \<Rightarrow> bool" where
  "pr_is_dup ev r \<longleftrightarrow> list_ex (\<lambda>e. pe_predictionId e = pe_predictionId ev) (pr_list r (pe_targetRoundId ev))"

definition pr_register :: "string list \<Rightarrow> PredictionEvent \<Rightarrow> PredictionRegistry \<Rightarrow> unit Result \<times> PredictionRegistry" where
  "pr_register ks ev r =
     (if pe_targetRoundId ev = [] then (Inl (mkError EC_InvalidArgument ''empty targetRoundId''), r)
      else if pr_is_dup ev r then
        (Inl (mkError EC_Duplicate ''prediction already registered''), r\<lparr>pr_duplicates := pr_duplicates r + 1\<rparr>)
      else (Inr (), pr_pruneIfNeeded ks (pr_add ev r)))"

definition pr_takeForRound :: "string \<Rightarrow> PredictionRegistry \<Rightarrow> PredictionEvent list \<times> PredictionRegistry" where
  "pr_takeForRound rid r =
     (case pr_by_round r rid of
        None \<Rightarrow> ([], r)
      | Some out \<Rightarrow>
          (out, r\<lparr>pr_by_id := fold (\<lambda>e m. m(pe_predictionId e := None)) out (pr_by_id r),
                  pr_by_round := (pr_by_round r)(rid := None)\<rparr>))"

definition pr_find :: "string \<Rightarrow> PredictionRegistry \<Rightarrow> PredictionEvent option" where
  "pr_find pid r =
     (case pr_by_id r pid of None \<Rightarrow> None | Some rid \<Rightarrow>
      case pr_by_round r rid of None \<Rightarrow> None | Some es \<Rightarrow> find (\<lambda>e. pe_predictionId e = pid) es)"

definition pr_stale :: "TimestampMs \<Rightarrow> TimestampMs \<Rightarrow> PredictionEvent \<Rightarrow> bool" where
  "pr_stale now maxAgeMs e \<longleftrightarrow> now - pe_createdAtMs e > maxAgeMs"

definition pr_expire_round :: "TimestampMs \<Rightarrow> TimestampMs \<Rightarrow> string \<Rightarrow> PredictionEvent list \<Rightarrow> PredictionRegistry \<Rightarrow> PredictionRegistry" where
  "pr_expire_round now maxAgeMs k es r =
     (let dead = filter (pr_stale now maxAgeMs) es; live = filter (\<lambda>e. \<not> pr_stale now maxAgeMs e) es
      in r\<lparr>pr_by_id := fold (\<lambda>e m. m(pe_predictionId e := None)) dead (pr_by_id r),
           pr_by_round := (if live = [] then (pr_by_round r)(k := None) else (pr_by_round r)(k \<mapsto> live))\<rparr>)"

fun pr_expireStale :: "TimestampMs \<Rightarrow> TimestampMs \<Rightarrow> string list \<Rightarrow> PredictionRegistry \<Rightarrow> nat \<times> PredictionRegistry" where
  "pr_expireStale now maxAgeMs [] r = (0, r)"
| "pr_expireStale now maxAgeMs (k # ks) r =
     (case pr_by_round r k of
        None \<Rightarrow> pr_expireStale now maxAgeMs ks r
      | Some es \<Rightarrow>
          let (n, r) = pr_expireStale now maxAgeMs ks (pr_expire_round now maxAgeMs k es r)
          in (length (filter (pr_stale now maxAgeMs) es) + n, r))"

record StuckRecovery =
  sr_max_age_ms :: TimestampMs
  sr_recovered :: u64

definition sr_scan :: "TimestampMs \<Rightarrow> string list \<Rightarrow> StuckRecovery \<Rightarrow> PredictionRegistry \<Rightarrow>
    nat \<times> StuckRecovery \<times> PredictionRegistry" where
  "sr_scan now ks s r =
     (let (n, r) = pr_expireStale now (sr_max_age_ms s) ks r
      in (n, s\<lparr>sr_recovered := sr_recovered s + of_nat n\<rparr>, r))"

section \<open>Invariant\<close>

definition pr_inv :: "PredictionRegistry \<Rightarrow> bool" where
  "pr_inv r \<longleftrightarrow>
     (\<forall>k es. pr_by_round r k = Some es \<longrightarrow> es \<noteq> [] \<and> k \<noteq> [] \<and> distinct (map pe_predictionId es) \<and>
        (\<forall>e\<in>set es. pe_targetRoundId e = k)) \<and>
     (\<forall>pid k. pr_by_id r pid = Some k \<longrightarrow> (\<exists>e\<in>set (pr_list r k). pe_predictionId e = pid))"

lemma erase_all: "fold (\<lambda>e m. m(pe_predictionId e := None)) es m =
    (\<lambda>pid. if pid \<in> pe_predictionId ` set es then None else m pid)"
  by (induction es arbitrary: m) (auto simp: fun_eq_iff)

lemma pr_inv_new: "pr_inv (PredictionRegistry_new n)"
  by (simp add: pr_inv_def PredictionRegistry_new_def)

lemma pr_inv_filter:
  assumes inv: "pr_inv r" and k: "pr_by_round r k = Some es"
    and r': "pr_by_round r' = (if filter P es = [] then (pr_by_round r)(k := None) else (pr_by_round r)(k \<mapsto> filter P es))"
    and ids: "\<And>pid j. pr_by_id r' pid = Some j \<Longrightarrow> pr_by_id r pid = Some j \<and>
        (\<forall>e\<in>set es. j = k \<longrightarrow> pe_predictionId e = pid \<longrightarrow> P e)"
  shows "pr_inv r'"
proof -
  have l: "pr_list r' j = (if j = k then filter P es else pr_list r j)" for j
    by (auto simp: pr_list_def r' k)
  have d: "distinct (map pe_predictionId (filter P es))"
    using inv k by (auto simp: pr_inv_def distinct_map inj_on_def)
  have "es' \<noteq> [] \<and> j \<noteq> [] \<and> distinct (map pe_predictionId es') \<and> (\<forall>e\<in>set es'. pe_targetRoundId e = j)"
    if "pr_by_round r' j = Some es'" for j es'
    using that inv k d unfolding r' by (auto simp: pr_inv_def split: if_splits)
  moreover have "\<exists>e\<in>set (pr_list r' j). pe_predictionId e = pid" if "pr_by_id r' pid = Some j" for pid j
  proof -
    note s = ids [OF that]
    obtain e where e: "e \<in> set (pr_list r j)" "pe_predictionId e = pid"
      using s inv unfolding pr_inv_def by blast
    have es: "pr_list r k = es" by (simp add: pr_list_def k)
    show ?thesis using e s es by (auto simp: l)
  qed
  ultimately show ?thesis unfolding pr_inv_def by blast
qed

lemma pr_inv_remove:
  assumes "pr_inv r"
  shows "pr_inv (pr_remove_from pid rid (r\<lparr>pr_by_id := (pr_by_id r)(pid := None)\<rparr>))"
proof (cases "pr_by_round r rid")
  case None
  with assms show ?thesis by (auto simp: pr_remove_from_def pr_inv_def pr_list_def split: if_splits)
next
  case (Some es)
  show ?thesis
    by (rule pr_inv_filter [OF assms Some, where P = "\<lambda>p. pe_predictionId p \<noteq> pid"])
      (auto simp: pr_remove_from_def Some Let_def split: if_splits)
qed

lemma pr_inv_pruned [simp]: "pr_inv (r\<lparr>pr_pruned := n\<rparr>) = pr_inv r" "pr_inv (r\<lparr>pr_duplicates := n\<rparr>) = pr_inv r"
  by (simp_all add: pr_inv_def pr_list_def)

lemma pr_inv_drop: "pr_inv r \<Longrightarrow> pr_inv (pr_drop ages r)"
  by (induction ages r rule: pr_drop.induct) (auto simp: Let_def pr_inv_remove split: option.splits)

lemma pr_list_add: "pr_list (pr_add ev r) j =
    (if j = pe_targetRoundId ev then pr_list r j @ [ev] else pr_list r j)"
  by (simp add: pr_list_def pr_add_def)

lemma pr_list_ok:
  assumes "pr_inv r"
  shows "distinct (map pe_predictionId (pr_list r k)) \<and> (\<forall>e\<in>set (pr_list r k). pe_targetRoundId e = k)"
proof (cases "pr_by_round r k")
  case (Some es)
  with assms have "distinct (map pe_predictionId es) \<and> (\<forall>e\<in>set es. pe_targetRoundId e = k)"
    unfolding pr_inv_def by blast
  with Some show ?thesis by (simp add: pr_list_def)
qed (simp add: pr_list_def)

lemma pr_inv_add:
  assumes inv: "pr_inv r" and ne: "pe_targetRoundId ev \<noteq> []" and new: "\<not> pr_is_dup ev r"
  shows "pr_inv (pr_add ev r)"
proof -
  let ?k = "pe_targetRoundId ev"
  have base: "distinct (map pe_predictionId (pr_list r ?k))" "\<forall>e\<in>set (pr_list r ?k). pe_targetRoundId e = ?k"
    using pr_list_ok [OF inv] by blast+
  have ids: "\<exists>e\<in>set (pr_list (pr_add ev r) j). pe_predictionId e = pid" if "pr_by_id (pr_add ev r) pid = Some j" for pid j
  proof (cases "pid = pe_predictionId ev")
    case True
    with that have "j = ?k" by (simp add: pr_add_def)
    with True show ?thesis by (simp add: pr_list_add)
  next
    case False
    with that have "pr_by_id r pid = Some j" by (simp add: pr_add_def)
    then obtain e where "e \<in> set (pr_list r j)" "pe_predictionId e = pid" using inv unfolding pr_inv_def by blast
    then show ?thesis unfolding pr_list_add by auto
  qed
  have "es \<noteq> [] \<and> j \<noteq> [] \<and> distinct (map pe_predictionId es) \<and> (\<forall>e\<in>set es. pe_targetRoundId e = j)"
    if "pr_by_round (pr_add ev r) j = Some es" for j es
  proof (cases "j = ?k")
    case True
    with that have "es = pr_list r ?k @ [ev]" by (simp add: pr_add_def)
    moreover have "pe_predictionId ev \<notin> pe_predictionId ` set (pr_list r ?k)"
      using new by (auto simp: pr_is_dup_def list_ex_iff)
    then have "distinct (map pe_predictionId (pr_list r ?k @ [ev]))" using base(1) by simp
    moreover have "\<forall>e\<in>set (pr_list r ?k @ [ev]). pe_targetRoundId e = j"
    proof
      fix e assume "e \<in> set (pr_list r ?k @ [ev])"
      then consider "e \<in> set (pr_list r ?k)" | "e = ev" by auto
      then show "pe_targetRoundId e = j" unfolding True using base(2) by cases blast+
    qed
    moreover have "j \<noteq> []" using True ne by simp
    ultimately show ?thesis by blast
  next
    case False
    with that have "pr_by_round r j = Some es" by (simp add: pr_add_def)
    with inv show ?thesis unfolding pr_inv_def by blast
  qed
  with ids show ?thesis unfolding pr_inv_def by blast
qed

lemma pr_inv_prune: "pr_inv r \<Longrightarrow> pr_inv (pr_pruneIfNeeded ks r)"
  by (simp add: pr_pruneIfNeeded_def Let_def pr_inv_drop)

lemma pr_inv_register: "pr_inv r \<Longrightarrow> pr_inv (snd (pr_register ks ev r))"
  by (simp add: pr_register_def pr_inv_prune pr_inv_add)

lemma pr_inv_take: "pr_inv r \<Longrightarrow> pr_inv (snd (pr_takeForRound rid r))"
proof (cases "pr_by_round r rid")
  case (Some es)
  assume inv: "pr_inv r"
  show ?thesis
    by (rule pr_inv_filter [OF inv Some, where P = "\<lambda>_. False"])
      (auto simp: pr_takeForRound_def Some erase_all split: if_splits)
qed (simp add: pr_takeForRound_def)

lemma pr_inv_expire: "pr_inv r \<Longrightarrow> pr_inv (snd (pr_expireStale now maxAge ks r))"
proof (induction ks arbitrary: r)
  case (Cons k ks)
  show ?case
  proof (cases "pr_by_round r k")
    case (Some es)
    have "pr_inv (pr_expire_round now maxAge k es r)"
      by (rule pr_inv_filter [OF Cons.prems Some, where P = "\<lambda>e. \<not> pr_stale now maxAge e"])
        (auto simp: pr_expire_round_def Let_def erase_all split: if_splits)
    from Cons.IH [OF this] Some show ?thesis by (simp add: case_prod_beta)
  qed (use Cons in simp)
qed simp

section \<open>Settlement and capacity\<close>

text \<open>C13: a round is settled once: taking the predictions of a round hands out all of them (each targets that
  round), a second take returns nothing, none of them can be found afterwards, and the predictions of every
  other round are untouched.\<close>

theorem registry_settles_once:
  assumes "pr_inv r" and "pr_takeForRound rid r = (out, r')"
  shows "out = pr_list r rid \<and> pr_takeForRound rid r' = ([], r') \<and>
    (\<forall>e\<in>set out. pe_targetRoundId e = rid \<and> pr_find (pe_predictionId e) r' = None) \<and>
    (\<forall>k. k \<noteq> rid \<longrightarrow> pr_list r' k = pr_list r k) \<and> pr_inv r'"
proof (cases "pr_by_round r rid")
  case None
  then show ?thesis using assms by (auto simp: pr_takeForRound_def pr_list_def)
next
  case (Some es)
  then have r': "out = es" and "r\<lparr>pr_by_id := (\<lambda>pid. if pid \<in> pe_predictionId ` set es then None else pr_by_id r pid),
      pr_by_round := (pr_by_round r)(rid := None)\<rparr> = r'"
    using assms(2) by (auto simp add: pr_takeForRound_def erase_all simp del: fun_upd_apply)
  note r'' = this(2) [symmetric]
  have "pr_inv r'" using pr_inv_take [OF assms(1), of rid] assms(2) by simp
  moreover have "\<forall>e\<in>set es. pe_targetRoundId e = rid" using assms(1) Some unfolding pr_inv_def by blast
  ultimately show ?thesis using Some unfolding r'(1) r''
    by (auto simp: pr_list_def pr_takeForRound_def pr_find_def)
qed

definition demo_prediction :: "string \<Rightarrow> string \<Rightarrow> TimestampMs \<Rightarrow> PredictionEvent" where
  "demo_prediction pid rid t =
     \<lparr>pe_predictionId = pid, pe_targetRoundId = rid, pe_gameId = rid, pe_decision = Dec_Enter,
      pe_confidence = Fin 1, pe_probability = Fin 1, pe_entryMult = Fin 1, pe_targetMult = Fin 2,
      pe_createdAtMs = t, pe_createdAtNs = 0, pe_correlationId = [], pe_modelVersion = [], pe_delivered = False\<rparr>"

theorem registry_settles_once_witness:
  "let r = pr_add (demo_prediction ''p'' ''7'' 5) (PredictionRegistry_new 10)
   in case pr_takeForRound ''7'' r of (out, r') \<Rightarrow>
     out = pr_list r ''7'' \<and> pr_takeForRound ''7'' r' = ([], r') \<and>
    (\<forall>e\<in>set out. pe_targetRoundId e = ''7'' \<and> pr_find (pe_predictionId e) r' = None) \<and>
    (\<forall>k. k \<noteq> ''7'' \<longrightarrow> pr_list r' k = pr_list r k) \<and> pr_inv r'"
proof -
  let ?r = "pr_add (demo_prediction ''p'' ''7'' 5) (PredictionRegistry_new 10)"
  have "pr_inv ?r"
    by (rule pr_inv_add [OF pr_inv_new]) (simp_all add: demo_prediction_def pr_is_dup_def pr_list_def PredictionRegistry_new_def)
  from registry_settles_once [OF this, of "''7''"] show ?thesis
    by (cases "pr_takeForRound ''7'' ?r") (simp add: Let_def)
qed

text \<open>With globally fresh ids the index is exact: every stored prediction is indexed.\<close>

definition pr_indexed :: "PredictionRegistry \<Rightarrow> bool" where
  "pr_indexed r \<longleftrightarrow> pr_inv r \<and> (\<forall>k. \<forall>e\<in>set (pr_list r k). pr_by_id r (pe_predictionId e) = Some k)"

lemma pr_list_remove:
  "pr_list (pr_remove_from pid rid r) k =
     (if k = rid then filter (\<lambda>p. pe_predictionId p \<noteq> pid) (pr_list r k) else pr_list r k)"
  by (auto simp: pr_remove_from_def pr_list_def Let_def split: option.splits)

lemma pr_by_id_remove [simp]: "pr_by_id (pr_remove_from pid rid r) = pr_by_id r"
  by (simp add: pr_remove_from_def Let_def split: option.splits)

lemma pr_max_remove [simp]: "pr_max (pr_remove_from pid rid r) = pr_max r"
  by (simp add: pr_remove_from_def Let_def split: option.splits)

lemma filter_out_one:
  "distinct (map f es) \<Longrightarrow> e \<in> set es \<Longrightarrow> Suc (length (filter (\<lambda>p. f p \<noteq> f e) es)) = length es"
proof (induction es)
  case (Cons x es)
  show ?case
  proof (cases "e = x")
    case True
    then have "filter (\<lambda>p. f p \<noteq> f e) es = es" using Cons.prems(1) by (auto simp: filter_id_conv image_iff)
    then show ?thesis using True by simp
  next
    case False
    then have "f x \<noteq> f e" using Cons.prems by auto
    with False Cons show ?thesis by simp
  qed
qed simp

lemma sum_list_dec:
  assumes "distinct ks" "k \<in> set ks" "Suc (f k) = g k" "\<And>j. j \<noteq> k \<Longrightarrow> f j = g j"
  shows "Suc (sum_list (map f ks)) = sum_list (map g ks)"
proof -
  have "map f (remove1 k ks) = map g (remove1 k ks)" using assms(1,4) by (auto simp: set_remove1_eq)
  then show ?thesis using assms(2,3)
    by (metis add_Suc sum_list_map_remove1)
qed

definition pr_drop1 :: "string \<Rightarrow> PredictionRegistry \<Rightarrow> PredictionRegistry" where
  "pr_drop1 pid r =
     (let r1 = pr_remove_from pid (the (pr_by_id r pid)) (r\<lparr>pr_by_id := (pr_by_id r)(pid := None)\<rparr>)
      in r1\<lparr>pr_pruned := pr_pruned r1 + 1\<rparr>)"

lemma pr_list_cong: "pr_by_round r' = pr_by_round r \<Longrightarrow> pr_list r' k = pr_list r k"
  by (simp add: pr_list_def)

lemma pr_drop1_effect:
  assumes ix: "pr_indexed r" and k: "pr_by_id r pid = Some k" "k \<in> set ks" "distinct ks"
  shows "pr_indexed (pr_drop1 pid r)" and "Suc (pr_size ks (pr_drop1 pid r)) = pr_size ks r"
    and "\<And>q. q \<noteq> pid \<Longrightarrow> pr_by_id (pr_drop1 pid r) q = pr_by_id r q" and "pr_max (pr_drop1 pid r) = pr_max r"
proof -
  have l: "pr_list (pr_drop1 pid r) j = (if j = k then filter (\<lambda>p. pe_predictionId p \<noteq> pid) (pr_list r j) else pr_list r j)" for j
    using pr_list_remove [of pid k "r\<lparr>pr_by_id := (pr_by_id r)(pid := None)\<rparr>" j] k(1)
    by (simp add: pr_drop1_def Let_def pr_list_def)
  have i: "pr_by_id (pr_drop1 pid r) = (pr_by_id r)(pid := None)" by (simp add: pr_drop1_def Let_def)
  then show "\<And>q. q \<noteq> pid \<Longrightarrow> pr_by_id (pr_drop1 pid r) q = pr_by_id r q" by simp
  show "pr_max (pr_drop1 pid r) = pr_max r" by (simp add: pr_drop1_def Let_def)
  have inv: "pr_inv (pr_drop1 pid r)"
    using pr_inv_remove [of r pid "the (pr_by_id r pid)"] ix by (simp add: pr_drop1_def Let_def pr_indexed_def)
  have "pr_by_id (pr_drop1 pid r) (pe_predictionId e) = Some j" if "e \<in> set (pr_list (pr_drop1 pid r) j)" for e j
  proof -
    have e: "e \<in> set (pr_list r j)" "j = k \<longrightarrow> pe_predictionId e \<noteq> pid" using that unfolding l by (auto split: if_splits)
    then have "pr_by_id r (pe_predictionId e) = Some j" using ix unfolding pr_indexed_def by blast
    moreover have "pe_predictionId e \<noteq> pid" using calculation e(2) k(1) by auto
    ultimately show ?thesis by (simp add: i)
  qed
  with inv show "pr_indexed (pr_drop1 pid r)" unfolding pr_indexed_def by blast
  obtain e where e: "e \<in> set (pr_list r k)" "pe_predictionId e = pid"
    using ix k(1) unfolding pr_indexed_def pr_inv_def by blast
  have "distinct (map pe_predictionId (pr_list r k))"
    using pr_list_ok [of r k] ix by (simp add: pr_indexed_def)
  from filter_out_one [OF this e(1)] e(2)
  have "Suc (length (pr_list (pr_drop1 pid r) k)) = length (pr_list r k)" by (simp add: l)
  then show "Suc (pr_size ks (pr_drop1 pid r)) = pr_size ks r"
    unfolding pr_size_def using k by (intro sum_list_dec [of ks k]) (simp_all add: l)
qed

lemma pr_drop_Cons: "pr_by_id r pid = Some k \<Longrightarrow> pr_drop ((t, pid) # ages) r = pr_drop ages (pr_drop1 pid r)"
  by (simp add: pr_drop1_def Let_def)

lemma pr_drop_size:
  assumes "pr_indexed r" "distinct ks" "distinct (map snd ages)"
    "\<forall>pid\<in>snd ` set ages. \<exists>k\<in>set ks. pr_by_id r pid = Some k"
  shows "pr_size ks (pr_drop ages r) + length ages = pr_size ks r"
  using assms
proof (induction ages arbitrary: r)
  case (Cons a ages)
  obtain t pid where a: "a = (t, pid)" by (cases a)
  obtain k where k: "k \<in> set ks" "pr_by_id r pid = Some k" using Cons.prems(4) a by auto
  note e = pr_drop1_effect [OF Cons.prems(1) k(2) k(1) Cons.prems(2)]
  have "\<forall>q\<in>snd ` set ages. \<exists>k\<in>set ks. pr_by_id (pr_drop1 pid r) q = Some k"
  proof
    fix q assume q: "q \<in> snd ` set ages"
    with Cons.prems(3) a have "q \<noteq> pid" by auto
    with q Cons.prems(4) show "\<exists>k\<in>set ks. pr_by_id (pr_drop1 pid r) q = Some k" by (auto simp: e(3))
  qed
  with Cons.IH [OF e(1) Cons.prems(2)] Cons.prems(3) e(2) show ?case
    unfolding a pr_drop_Cons [OF k(2)] by simp
qed simp

lemma pr_all_ids_distinct:
  assumes "pr_indexed r" "distinct ks"
  shows "distinct (map pe_predictionId (pr_all ks r))"
  using assms(2)
proof (induction ks)
  case (Cons k ks)
  have "pr_by_id r (pe_predictionId e) = Some j" if "e \<in> set (pr_list r j)" for e j
    using that assms(1) unfolding pr_indexed_def by blast
  then have "pe_predictionId ` set (pr_list r k) \<inter> pe_predictionId ` set (pr_all ks r) = {}"
    using Cons.prems unfolding pr_all_def by (auto simp: disjoint_iff) (metis option.inject)+
  with Cons pr_list_ok [of r k] assms(1) show ?case by (simp add: pr_all_def pr_indexed_def)
qed (simp add: pr_all_def)

lemma pr_prune_size:
  assumes ix: "pr_indexed r" and ks: "distinct ks"
  shows "pr_size ks (pr_pruneIfNeeded ks r) = min (pr_size ks r) (pr_max r)"
proof (cases "pr_size ks r \<le> pr_max r")
  case False
  let ?ages = "sort (map (\<lambda>e. (pe_createdAtMs e, pe_predictionId e)) (pr_all ks r))"
  let ?n = "pr_size ks r - pr_max r"
  have len: "length ?ages = pr_size ks r" by (simp add: pr_all_def pr_size_def length_concat comp_def)
  have "mset (map snd ?ages) = mset (map pe_predictionId (pr_all ks r))"
    by (simp only: mset_map mset_sort) (simp add: comp_def flip: mset_map)
  then have d: "distinct (map snd ?ages)"
    using pr_all_ids_distinct [OF ix ks] by (metis mset_eq_imp_distinct_iff)
  have "\<forall>pid\<in>snd ` set (take ?n ?ages). \<exists>k\<in>set ks. pr_by_id r pid = Some k"
  proof
    fix pid assume "pid \<in> snd ` set (take ?n ?ages)"
    then obtain e where e: "e \<in> set (pr_all ks r)" "pid = pe_predictionId e" by (auto dest!: in_set_takeD)
    then obtain k where "k \<in> set ks" "e \<in> set (pr_list r k)" by (auto simp: pr_all_def)
    with e(2) ix show "\<exists>k\<in>set ks. pr_by_id r pid = Some k" unfolding pr_indexed_def by blast
  qed
  moreover have "distinct (map snd (take ?n ?ages))" using d by (simp flip: take_map)
  ultimately have "pr_size ks (pr_drop (take ?n ?ages) r) + length (take ?n ?ages) = pr_size ks r"
    using pr_drop_size [OF ix ks] by blast
  with False len show ?thesis by (simp add: pr_pruneIfNeeded_def Let_def)
qed (simp add: pr_pruneIfNeeded_def Let_def)

lemma pr_indexed_add:
  assumes "pr_indexed r" "pe_targetRoundId ev \<noteq> []" "pr_by_id r (pe_predictionId ev) = None"
  shows "pr_indexed (pr_add ev r) \<and> \<not> pr_is_dup ev r"
proof -
  have nd: "\<not> pr_is_dup ev r"
  proof
    assume "pr_is_dup ev r"
    then obtain e where "e \<in> set (pr_list r (pe_targetRoundId ev))" "pe_predictionId e = pe_predictionId ev"
      by (auto simp: pr_is_dup_def list_ex_iff)
    then show False using assms(1,3) unfolding pr_indexed_def by fastforce
  qed
  have "pr_by_id (pr_add ev r) (pe_predictionId e) = Some k" if "e \<in> set (pr_list (pr_add ev r) k)" for e k
  proof (cases "e \<in> set (pr_list r k)")
    case True
    then have "pr_by_id r (pe_predictionId e) = Some k" using assms(1) unfolding pr_indexed_def by blast
    with assms(3) show ?thesis by (auto simp: pr_add_def)
  next
    case False
    with that have "e = ev \<and> k = pe_targetRoundId ev" by (auto simp: pr_list_add split: if_splits)
    then show ?thesis by (simp add: pr_add_def)
  qed
  moreover have "pr_inv (pr_add ev r)" using pr_inv_add [OF _ assms(2) nd] assms(1) by (simp add: pr_indexed_def)
  ultimately show ?thesis using nd unfolding pr_indexed_def by blast
qed

lemma pr_size_add: "distinct ks \<Longrightarrow> pe_targetRoundId ev \<in> set ks \<Longrightarrow> pr_size ks (pr_add ev r) = Suc (pr_size ks r)"
  unfolding pr_size_def
  by (rule sum_list_dec [of ks "pe_targetRoundId ev", symmetric]) (simp_all add: pr_list_add)

text \<open>The registry is bounded: registering a prediction with a fresh id for a named round succeeds, and
  afterwards the registry holds one prediction more, or exactly its maximum when it was full, whatever the order
  in which the map of rounds is traversed.\<close>

theorem registry_bounded:
  assumes "pr_indexed r" and "pe_targetRoundId ev \<noteq> []" and "pr_by_id r (pe_predictionId ev) = None"
    and "distinct ks" and "pe_targetRoundId ev \<in> set ks"
  shows "fst (pr_register ks ev r) = Inr () \<and>
    pr_size ks (snd (pr_register ks ev r)) = min (Suc (pr_size ks r)) (pr_max r)"
  using pr_indexed_add [OF assms(1-3)] pr_prune_size [of "pr_add ev r" ks] pr_size_add [OF assms(4,5)] assms(2,4)
  by (simp add: pr_register_def) (simp add: pr_add_def)

theorem registry_bounded_witness:
  "let r = pr_add (demo_prediction ''p'' ''7'' 5) (PredictionRegistry_new 1) in
   fst (pr_register [''7'', ''8''] (demo_prediction ''q'' ''8'' 9) r) = Inr () \<and>
   pr_size [''7'', ''8''] (snd (pr_register [''7'', ''8''] (demo_prediction ''q'' ''8'' 9) r)) =
     min (Suc (pr_size [''7'', ''8''] r)) (pr_max r)"
proof -
  let ?r = "pr_add (demo_prediction ''p'' ''7'' 5) (PredictionRegistry_new 1)"
  have "pr_indexed (PredictionRegistry_new 1)"
    by (simp add: pr_indexed_def pr_inv_new) (simp add: PredictionRegistry_new_def pr_list_def)
  then have "pr_indexed ?r"
    using pr_indexed_add by (simp add: demo_prediction_def PredictionRegistry_new_def)
  then show ?thesis unfolding Let_def
    by (rule registry_bounded) (simp_all add: demo_prediction_def pr_add_def PredictionRegistry_new_def)
qed

end
