(* ===== verification/Acie.thy ===== *)
theory Acie
  imports Outcomes
begin

text \<open>
  The decision layer: \<open>evaluateStrategy\<close> (\<open>include/prediction/acie/strategy.hpp\<close>), the adaptive
  edge fed by outcomes (\<open>acie/adaptive_edge.hpp\<close>) and the stake rule of
  \<open>include/betting/risk_engine.hpp\<close>. A decimal literal is the double nearest to it.
\<close>

section \<open>Strategy\<close>

datatype StrategyMode = Md_Quality | Md_HighFrequency | Md_Conservative

datatype StrategyAction = Act_Skip | Act_ReducedEntry | Act_Entry

record StrategyConfig =
  sc_mode :: StrategyMode
  sc_defaultTarget :: double
  sc_qualityEdge :: double
  sc_reducedEdge :: double
  sc_conservativeExtra :: double
  sc_minConfidence :: double
  sc_reducedMinConfidence :: double
  sc_warmMinSamples :: nat

definition StrategyConfig_default :: StrategyConfig where
  "StrategyConfig_default =
     \<lparr>sc_mode = Md_Quality, sc_defaultTarget = rnd (13 / 10), sc_qualityEdge = rnd (2 / 100),
      sc_reducedEdge = rnd (5 / 1000), sc_conservativeExtra = rnd (3 / 100), sc_minConfidence = rnd (55 / 100),
      sc_reducedMinConfidence = rnd (45 / 100), sc_warmMinSamples = 20\<rparr>"

record StrategyInput =
  si_probability :: double
  si_confidence :: double
  si_targetMult :: double
  si_samplesSeen :: nat
  si_modelStale :: bool
  si_entitlementOk :: bool

record StrategyResult =
  sr_action :: StrategyAction
  sr_decision :: PredictionDecision
  sr_fairProbability :: double
  sr_requiredProbability :: double
  sr_edgeUsed :: double
  sr_reason :: string

definition fairProbability :: "double \<Rightarrow> double" where
  "fairProbability targetMult =
     (if \<not> dless (Fin 1) targetMult \<or> \<not> is_finite targetMult then ddiv (Fin 1) (rnd (13 / 10))
      else ddiv (Fin 1) targetMult)"

text \<open>The \<open>switch\<close> on the mode: the edge and the confidence floor it selects.\<close>

definition mode_edge :: "StrategyConfig \<Rightarrow> double" where
  "mode_edge cfg =
     (case sc_mode cfg of
        Md_HighFrequency \<Rightarrow> sc_reducedEdge cfg
      | Md_Conservative \<Rightarrow> dadd (sc_qualityEdge cfg) (sc_conservativeExtra cfg)
      | Md_Quality \<Rightarrow> sc_qualityEdge cfg)"

definition mode_minConf :: "StrategyConfig \<Rightarrow> double" where
  "mode_minConf cfg =
     (case sc_mode cfg of Md_HighFrequency \<Rightarrow> sc_reducedMinConfidence cfg | _ \<Rightarrow> sc_minConfidence cfg)"

definition fair_for :: "StrategyInput \<Rightarrow> StrategyConfig \<Rightarrow> double" where
  "fair_for inp cfg =
     fairProbability (if dless (Fin 1) (si_targetMult inp) then si_targetMult inp else sc_defaultTarget cfg)"

definition zero_signal :: "StrategyInput \<Rightarrow> bool" where
  "zero_signal inp \<longleftrightarrow> dle (si_probability inp) (Fin 0) \<and> dle (si_confidence inp) (Fin 0)"

definition reduced_ok :: "StrategyInput \<Rightarrow> StrategyConfig \<Rightarrow> bool" where
  "reduced_ok inp cfg \<longleftrightarrow>
     sc_mode cfg \<noteq> Md_Conservative \<and> dle (dadd (fair_for inp cfg) (sc_reducedEdge cfg)) (si_probability inp) \<and>
     dle (sc_reducedMinConfidence cfg) (si_confidence inp)"

definition evaluateStrategy :: "StrategyInput \<Rightarrow> StrategyConfig \<Rightarrow> StrategyResult" where
  "evaluateStrategy inp cfg =
     (let fair = fair_for inp cfg;
          r = \<lparr>sr_action = Act_Skip, sr_decision = Dec_Skip, sr_fairProbability = fair,
               sr_requiredProbability = Fin 0, sr_edgeUsed = Fin 0, sr_reason = []\<rparr>
      in if \<not> si_entitlementOk inp then r\<lparr>sr_reason := ''entitlement_denied''\<rparr>
      else if si_modelStale inp then r\<lparr>sr_reason := ''model_stale''\<rparr>
      else if si_samplesSeen inp < sc_warmMinSamples cfg then r\<lparr>sr_reason := ''cold_start''\<rparr>
      else if zero_signal inp then r\<lparr>sr_reason := ''zero_signal''\<rparr>
      else
        let r = r\<lparr>sr_edgeUsed := mode_edge cfg, sr_requiredProbability := dadd fair (mode_edge cfg)\<rparr>
        in if dless (si_confidence inp) (mode_minConf cfg) then r\<lparr>sr_reason := ''low_confidence''\<rparr>
        else if dle (sr_requiredProbability r) (si_probability inp) then
          r\<lparr>sr_action := Act_Entry, sr_decision := Dec_Enter, sr_reason := ''entry_quality''\<rparr>
        else
          let reducedReq = dadd fair (sc_reducedEdge cfg)
          in if reduced_ok inp cfg then
               r\<lparr>sr_action := Act_ReducedEntry, sr_decision := Dec_Enter, sr_edgeUsed := sc_reducedEdge cfg,
                 sr_requiredProbability := reducedReq, sr_reason := ''reduced_entry''\<rparr>
             else r\<lparr>sr_reason := ''below_edge''\<rparr>)"

fun toDecision :: "StrategyAction \<Rightarrow> PredictionDecision" where
  "toDecision Act_Entry = Dec_Enter"
| "toDecision Act_ReducedEntry = Dec_Enter"
| "toDecision Act_Skip = Dec_Skip"

section \<open>Adaptive edge\<close>

record AdaptiveEdgeConfig =
  ac_initialEdge :: double
  ac_minEdge :: double
  ac_maxEdge :: double
  ac_winDelta :: double
  ac_lossDelta :: double
  ac_decayTowardInitial :: double
  ac_minOutcomesBeforeAdapt :: nat

definition AdaptiveEdgeConfig_default :: AdaptiveEdgeConfig where
  "AdaptiveEdgeConfig_default =
     \<lparr>ac_initialEdge = rnd (2 / 100), ac_minEdge = rnd (5 / 1000), ac_maxEdge = rnd (8 / 100),
      ac_winDelta = dneg (rnd (1 / 1000)), ac_lossDelta = rnd (3 / 1000),
      ac_decayTowardInitial = rnd (1 / 1000), ac_minOutcomesBeforeAdapt = 5\<rparr>"

record AdaptiveEdge =
  ae_cfg :: AdaptiveEdgeConfig
  ae_edge :: double
  ae_outcomes :: u64
  ae_wins :: u64
  ae_losses :: u64

definition AdaptiveEdge_new :: "AdaptiveEdgeConfig \<Rightarrow> AdaptiveEdge" where
  "AdaptiveEdge_new cfg = \<lparr>ae_cfg = cfg, ae_edge = ac_initialEdge cfg, ae_outcomes = 0, ae_wins = 0, ae_losses = 0\<rparr>"

text \<open>The new edge after adding a win's or a loss's delta: the pull towards the initial edge, then the clamp.\<close>

definition ae_settle :: "AdaptiveEdgeConfig \<Rightarrow> double \<Rightarrow> double" where
  "ae_settle cfg edge =
     (let edge = (if dless (ac_initialEdge cfg) edge then dsub edge (ac_decayTowardInitial cfg)
                  else if dless edge (ac_initialEdge cfg) then dadd edge (ac_decayTowardInitial cfg) else edge)
      in dclamp edge (ac_minEdge cfg) (ac_maxEdge cfg))"

definition ae_noteOutcome :: "Outcome \<Rightarrow> AdaptiveEdge \<Rightarrow> AdaptiveEdge" where
  "ae_noteOutcome oc a =
     (if oc_result oc \<noteq> Out_Win \<and> oc_result oc \<noteq> Out_Loss then a
      else let a = a\<lparr>ae_outcomes := ae_outcomes a + 1\<rparr>;
               a = (if oc_isWin oc \<or> oc_result oc = Out_Win
                    then a\<lparr>ae_wins := ae_wins a + 1, ae_edge := dadd (ae_edge a) (ac_winDelta (ae_cfg a))\<rparr>
                    else a\<lparr>ae_losses := ae_losses a + 1, ae_edge := dadd (ae_edge a) (ac_lossDelta (ae_cfg a))\<rparr>)
           in a\<lparr>ae_edge := ae_settle (ae_cfg a) (ae_edge a)\<rparr>)"

definition ae_applyTo :: "StrategyConfig \<Rightarrow> AdaptiveEdge \<Rightarrow> StrategyConfig" where
  "ae_applyTo cfg a =
     (if unat (ae_outcomes a) \<ge> ac_minOutcomesBeforeAdapt (ae_cfg a) then cfg\<lparr>sc_qualityEdge := ae_edge a\<rparr> else cfg)"

section \<open>Risk engine\<close>

record RiskInput =
  ri_bankroll :: double
  ri_probability :: double
  ri_odds :: double
  ri_maxFraction :: double

record RiskDecision =
  rd_stake :: double
  rd_kellyFraction :: double
  rd_allowed :: bool
  rd_reason :: string

definition evaluateRisk :: "RiskInput \<Rightarrow> RiskDecision" where
  "evaluateRisk inp =
     (if dle (ri_bankroll inp) (Fin 0) \<or> dle (ri_probability inp) (Fin 0) \<or> dle (Fin 1) (ri_probability inp)
      then \<lparr>rd_stake = Fin 0, rd_kellyFraction = Fin 0, rd_allowed = False, rd_reason = ''invalid_input''\<rparr>
      else let b = dmax (rnd (1 / 100)) (dsub (ri_odds inp) (Fin 1));
               f = dsub (ri_probability inp) (ddiv (dsub (Fin 1) (ri_probability inp)) b);
               f = dclamp f (Fin 0) (ri_maxFraction inp);
               allowed = dless (rnd (1 / 1000)) f
           in \<lparr>rd_stake = dmul (ri_bankroll inp) f, rd_kellyFraction = f, rd_allowed = allowed,
               rd_reason = (if allowed then ''ok'' else ''kelly_non_positive'')\<rparr>)"

section \<open>The gate\<close>

lemma strategy_cases:
  obtains (skip) "sr_action (evaluateStrategy inp cfg) = Act_Skip" "sr_decision (evaluateStrategy inp cfg) = Dec_Skip"
  | (enter) "si_entitlementOk inp" "\<not> si_modelStale inp" "sc_warmMinSamples cfg \<le> si_samplesSeen inp"
      "\<not> dless (si_confidence inp) (mode_minConf cfg)"
      "sr_action (evaluateStrategy inp cfg) \<noteq> Act_Skip" "sr_decision (evaluateStrategy inp cfg) = Dec_Enter"
      "dle (sr_requiredProbability (evaluateStrategy inp cfg)) (si_probability inp)"
      "sr_requiredProbability (evaluateStrategy inp cfg) =
         dadd (sr_fairProbability (evaluateStrategy inp cfg)) (sr_edgeUsed (evaluateStrategy inp cfg))"
      "sr_edgeUsed (evaluateStrategy inp cfg) =
         (if sr_action (evaluateStrategy inp cfg) = Act_Entry then mode_edge cfg else sc_reducedEdge cfg)"
      "sr_action (evaluateStrategy inp cfg) = Act_ReducedEntry \<longrightarrow> sc_mode cfg = Md_Quality"
proof -
  consider (a) "\<not> si_entitlementOk inp \<or> si_modelStale inp \<or> si_samplesSeen inp < sc_warmMinSamples cfg \<or>
      zero_signal inp \<or> dless (si_confidence inp) (mode_minConf cfg)"
    | (b) "si_entitlementOk inp" "\<not> si_modelStale inp" "\<not> si_samplesSeen inp < sc_warmMinSamples cfg"
      "\<not> zero_signal inp"
      "\<not> dless (si_confidence inp) (mode_minConf cfg)" by blast
  then show ?thesis
  proof cases
    case a
    then have "sr_action (evaluateStrategy inp cfg) = Act_Skip \<and> sr_decision (evaluateStrategy inp cfg) = Dec_Skip"
      by (elim disjE) (simp_all add: evaluateStrategy_def Let_def)
    then show ?thesis using skip by blast
  next
    case b
    consider (full) "dle (dadd (fair_for inp cfg) (mode_edge cfg)) (si_probability inp)"
      | (reduced) "\<not> dle (dadd (fair_for inp cfg) (mode_edge cfg)) (si_probability inp)" "reduced_ok inp cfg"
      | (below) "\<not> dle (dadd (fair_for inp cfg) (mode_edge cfg)) (si_probability inp)" "\<not> reduced_ok inp cfg" by blast
    then show ?thesis
    proof cases
      case full
      with b show ?thesis by (intro enter) (simp_all add: evaluateStrategy_def Let_def)
    next
      case reduced
      then have "sc_mode cfg = Md_Quality" by (cases "sc_mode cfg") (simp_all add: mode_edge_def reduced_ok_def)
      moreover have "dle (dadd (fair_for inp cfg) (sc_reducedEdge cfg)) (si_probability inp)"
        using reduced(2) by (simp add: reduced_ok_def)
      ultimately show ?thesis using b reduced by (intro enter) (simp_all add: evaluateStrategy_def Let_def)
    next
      case below
      with b show ?thesis by (intro skip) (simp_all add: evaluateStrategy_def Let_def)
    qed
  qed
qed

text \<open>C28: the strategy gate enters only when it may: an entry, full or reduced, is made only for an entitled,
  fresh and warm model whose confidence is not below the mode's floor and whose probability reaches the fair
  probability plus the edge reported in the result; the reduced entry exists in quality mode alone, and the
  decision is always the one its action stands for.\<close>

theorem strategy_gate:
  "let r = evaluateStrategy inp cfg in
     sr_decision r = toDecision (sr_action r) \<and>
     (sr_decision r = Dec_Enter \<longrightarrow>
        si_entitlementOk inp \<and> \<not> si_modelStale inp \<and> sc_warmMinSamples cfg \<le> si_samplesSeen inp \<and>
        \<not> dless (si_confidence inp) (mode_minConf cfg) \<and>
        dle (dadd (sr_fairProbability r) (sr_edgeUsed r)) (si_probability inp) \<and>
        (sr_action r = Act_ReducedEntry \<longrightarrow> sc_mode cfg = Md_Quality))"
proof (cases rule: strategy_cases [of inp cfg, case_names skip enter])
  case skip
  then show ?thesis by (simp add: Let_def)
next
  case enter
  then show ?thesis by (cases "sr_action (evaluateStrategy inp cfg)") (simp_all add: Let_def)
qed

definition demo_input :: StrategyInput where
  "demo_input = \<lparr>si_probability = Fin 1, si_confidence = Fin 1, si_targetMult = Fin 2, si_samplesSeen = 30,
     si_modelStale = False, si_entitlementOk = True\<rparr>"

theorem strategy_gate_witness:
  "let r = evaluateStrategy demo_input StrategyConfig_default in
     sr_decision r = toDecision (sr_action r) \<and>
     (sr_decision r = Dec_Enter \<longrightarrow>
        si_entitlementOk demo_input \<and> \<not> si_modelStale demo_input \<and>
        sc_warmMinSamples StrategyConfig_default \<le> si_samplesSeen demo_input \<and>
        \<not> dless (si_confidence demo_input) (mode_minConf StrategyConfig_default) \<and>
        dle (dadd (sr_fairProbability r) (sr_edgeUsed r)) (si_probability demo_input) \<and>
        (sr_action r = Act_ReducedEntry \<longrightarrow> sc_mode StrategyConfig_default = Md_Quality))"
  by (rule strategy_gate)

section \<open>The edge stays in its corridor\<close>

definition ae_cfg_ok :: "AdaptiveEdgeConfig \<Rightarrow> bool" where
  "ae_cfg_ok c \<longleftrightarrow>
     is_finite (ac_minEdge c) \<and> is_finite (ac_maxEdge c) \<and> is_finite (ac_winDelta c) \<and>
     is_finite (ac_lossDelta c) \<and> is_finite (ac_decayTowardInitial c) \<and>
     dle (ac_minEdge c) (ac_initialEdge c) \<and> dle (ac_initialEdge c) (ac_maxEdge c)"

lemma dadd_not_nan: "x \<noteq> NaN \<Longrightarrow> is_finite d \<Longrightarrow> dadd x d \<noteq> NaN"
  by (cases x; cases d) simp_all

lemma is_finite_dneg [simp]: "is_finite (dneg x) = is_finite x"
  by (cases x) simp_all

lemma ae_settle_range:
  assumes "ae_cfg_ok c" "x \<noteq> NaN"
  shows "dle (ac_minEdge c) (ae_settle c x) \<and> dle (ae_settle c x) (ac_maxEdge c)"
proof -
  have "dle (ac_minEdge c) (ac_maxEdge c)" using assms(1) dle_trans by (auto simp: ae_cfg_ok_def)
  moreover have "dsub x (ac_decayTowardInitial c) \<noteq> NaN" "dadd x (ac_decayTowardInitial c) \<noteq> NaN"
    using assms by (simp_all add: dsub_def dadd_not_nan ae_cfg_ok_def)
  ultimately show ?thesis using dclamp_range assms(2) by (simp add: ae_settle_def)
qed

definition ae_inv :: "AdaptiveEdge \<Rightarrow> bool" where
  "ae_inv a \<longleftrightarrow> ae_cfg_ok (ae_cfg a) \<and> dle (ac_minEdge (ae_cfg a)) (ae_edge a) \<and>
     dle (ae_edge a) (ac_maxEdge (ae_cfg a)) \<and> ae_outcomes a = ae_wins a + ae_losses a"

lemma ae_cfg_note [simp]: "ae_cfg (ae_noteOutcome oc a) = ae_cfg a"
  by (simp add: ae_noteOutcome_def Let_def)

lemma ae_inv_note:
  assumes "ae_inv a"
  shows "ae_inv (ae_noteOutcome oc a)"
proof -
  have "ae_edge a \<noteq> NaN" using assms by (auto simp: ae_inv_def)
  then have "dadd (ae_edge a) (ac_winDelta (ae_cfg a)) \<noteq> NaN" "dadd (ae_edge a) (ac_lossDelta (ae_cfg a)) \<noteq> NaN"
    using assms by (simp_all add: dadd_not_nan ae_inv_def ae_cfg_ok_def)
  then show ?thesis using assms ae_settle_range by (simp add: ae_noteOutcome_def ae_inv_def Let_def)
qed

text \<open>C29: whatever outcomes arrive, the adaptive edge stays between its minimum and its maximum, so that the edge it
  gives a strategy does, and every counted outcome is a win or a loss.\<close>

theorem adaptive_edge_bounded:
  assumes "ae_cfg_ok c"
  shows "let a = fold ae_noteOutcome ocs (AdaptiveEdge_new c) in
    dle (ac_minEdge c) (ae_edge a) \<and> dle (ae_edge a) (ac_maxEdge c) \<and> ae_outcomes a = ae_wins a + ae_losses a \<and>
    sc_qualityEdge (ae_applyTo cfg a) \<in> {ae_edge a, sc_qualityEdge cfg}"
proof -
  let ?a = "fold ae_noteOutcome ocs (AdaptiveEdge_new c)"
  have run: "ae_inv (fold ae_noteOutcome ocs a) \<and> ae_cfg (fold ae_noteOutcome ocs a) = ae_cfg a" if "ae_inv a" for a
    using that by (induction ocs arbitrary: a) (simp_all add: ae_inv_note)
  have "ae_inv (AdaptiveEdge_new c)" using assms
    by (simp add: ae_inv_def AdaptiveEdge_new_def) (simp add: ae_cfg_ok_def)
  from run [OF this] have "ae_inv ?a" "ae_cfg ?a = c" by (simp_all add: AdaptiveEdge_new_def)
  then show ?thesis unfolding Let_def ae_inv_def by (simp add: ae_applyTo_def)
qed

lemma default_finite:
  "is_finite (rnd (2 / 100))" "is_finite (rnd (5 / 1000))" "is_finite (rnd (8 / 100))"
  "is_finite (rnd (1 / 1000))" "is_finite (rnd (3 / 1000))"
  using rnd_eval(1) [of "-6" "2/100"] rnd_eval(1) [of "-8" "5/1000"] rnd_eval(1) [of "-4" "8/100"]
    rnd_eval(1) [of "-10" "1/1000"] rnd_eval(1) [of "-9" "3/1000"]
  by (simp_all add: power_int_def field_simps)

lemma ae_default_ok: "ae_cfg_ok AdaptiveEdgeConfig_default"
proof -
  have "dle (rnd (5 / 1000)) (rnd (2 / 100))" "dle (rnd (2 / 100)) (rnd (8 / 100))"
    by (rule rnd_mono_pos; simp)+
  then show ?thesis using default_finite unfolding ae_cfg_ok_def AdaptiveEdgeConfig_default_def
    by (simp only: AdaptiveEdgeConfig.simps is_finite_dneg)
qed

theorem adaptive_edge_bounded_witness:
  "let a = fold ae_noteOutcome [demo_loss 1, demo_loss 2] (AdaptiveEdge_new AdaptiveEdgeConfig_default) in
    dle (ac_minEdge AdaptiveEdgeConfig_default) (ae_edge a) \<and> dle (ae_edge a) (ac_maxEdge AdaptiveEdgeConfig_default) \<and>
    ae_outcomes a = ae_wins a + ae_losses a \<and>
    sc_qualityEdge (ae_applyTo StrategyConfig_default a) \<in> {ae_edge a, sc_qualityEdge StrategyConfig_default}"
  by (rule adaptive_edge_bounded [OF ae_default_ok])

text \<open>A win does not ease the default edge: at the initial edge the pull towards it undoes the win exactly, so the
  edge never gets below its start.\<close>

lemma literal_002: "rnd (2 / 100) = Fin (5764607523034235 / 2 ^ 58)"
  using rnd_literal [of "- 6" "2 / 100" 5764607523034235] by (simp add: power_int_def field_simps)

lemma literal_0001: "rnd (1 / 1000) = Fin (1152921504606847 / 2 ^ 60)"
  using rnd_literal [of "- 10" "1 / 1000" 4611686018427388] by (simp add: power_int_def field_simps)

lemma win_keeps_initial_edge:
  assumes "oc_result oc = Out_Win"
  shows "ae_edge (ae_noteOutcome oc (AdaptiveEdge_new AdaptiveEdgeConfig_default)) = ac_initialEdge AdaptiveEdgeConfig_default"
proof -
  let ?e = "Fin (5764607523034235 / 2 ^ 58)" and ?d = "Fin (1152921504606847 / 2 ^ 60)"
  have down: "dadd ?e (dneg ?d) = Fin (5476377146882523 / 2 ^ 58)"
    using rnd_literal [of "- 6" "5764607523034235 / 2 ^ 58 - 1152921504606847 / 2 ^ 60" 5476377146882523]
    by (simp add: power_int_def field_simps)
  have up: "dadd (Fin (5476377146882523 / 2 ^ 58)) ?d = ?e"
    using rnd_literal [of "- 6" "5476377146882523 / 2 ^ 58 + 1152921504606847 / 2 ^ 60" 5764607523034235]
    by (simp add: power_int_def field_simps)
  have lo: "dle (ac_minEdge AdaptiveEdgeConfig_default) ?e" and hi: "dle ?e (ac_maxEdge AdaptiveEdgeConfig_default)"
    using ae_default_ok unfolding ae_cfg_ok_def literal_002 [symmetric]
    by (simp_all add: AdaptiveEdgeConfig_default_def)
  have clamp: "dclamp ?e (ac_minEdge AdaptiveEdgeConfig_default) (ac_maxEdge AdaptiveEdgeConfig_default) = ?e"
    using dle_not_dless [OF lo] dle_not_dless [OF hi] by (simp add: dclamp_def)
  have cfg: "ac_initialEdge AdaptiveEdgeConfig_default = ?e" "ac_winDelta AdaptiveEdgeConfig_default = dneg ?d"
      "ac_decayTowardInitial AdaptiveEdgeConfig_default = ?d"
    unfolding AdaptiveEdgeConfig_default_def AdaptiveEdgeConfig.simps literal_002 literal_0001 by (rule refl)+
  have "ae_edge (ae_noteOutcome oc (AdaptiveEdge_new AdaptiveEdgeConfig_default)) =
      ae_settle AdaptiveEdgeConfig_default (dadd ?e (dneg ?d))"
    using assms by (simp add: ae_noteOutcome_def AdaptiveEdge_new_def Let_def cfg del: dadd.simps dneg.simps)
  also have "\<dots> = ?e"
    unfolding down ae_settle_def Let_def cfg using up clamp by (simp del: dadd.simps)
  finally show ?thesis unfolding cfg .
qed

section \<open>Stakes\<close>

text \<open>A stake the risk engine allows is never more than the bankroll times the configured fraction, nor more
  than the bankroll, and never negative, for a finite positive bankroll and a fraction between 0 and 1; an
  invalid input is refused with a zero stake.\<close>

theorem risk_stake_bounded:
  assumes "ri_bankroll inp = Fin b" "representable b" "ri_maxFraction inp = Fin m" "0 \<le> m" "m \<le> 1"
  shows "let d = evaluateRisk inp in
    (rd_allowed d \<longrightarrow> 0 < b \<and> dle (Fin 0) (rd_stake d) \<and> dle (rd_stake d) (dmul (Fin b) (Fin m)) \<and>
       dle (rd_stake d) (Fin b) \<and> dless (Fin 0) (rd_kellyFraction d) \<and> dle (rd_kellyFraction d) (Fin m)) \<and>
    (b \<le> 0 \<longrightarrow> \<not> rd_allowed d \<and> rd_stake d = Fin 0)"
proof -
  let ?d = "evaluateRisk inp"
  have "0 < b \<and> dle (Fin 0) (rd_stake ?d) \<and> dle (rd_stake ?d) (dmul (Fin b) (Fin m)) \<and>
       dle (rd_stake ?d) (Fin b) \<and> dless (Fin 0) (rd_kellyFraction ?d) \<and> dle (rd_kellyFraction ?d) (Fin m)"
    if al: "rd_allowed ?d"
  proof -
    define f where "f = rd_kellyFraction ?d"
    have b: "0 < b" using al assms by (auto simp: evaluateRisk_def split: if_splits)
    have st: "rd_stake ?d = dmul (Fin b) f" and gt: "dless (rnd (1 / 1000)) f" and "\<exists>x. f = dclamp x (Fin 0) (Fin m)"
      using al assms by (auto simp: f_def evaluateRisk_def Let_def split: if_splits)
    then obtain x where x: "f = dclamp x (Fin 0) (Fin m)" by blast
    have "f \<noteq> NaN" using gt by auto
    then have "x \<noteq> NaN" using x by (auto simp: dclamp_def)
    then have le: "dle f (Fin m)" "dle (Fin 0) f" using dclamp_range [of "Fin 0" "Fin m" x] assms(4) x by simp_all
    then obtain q where q: "f = Fin q" "0 \<le> q" "q \<le> m" using dle_finD by blast
    have pos: "dless (Fin 0) f" by (rule dle_less_trans [OF rnd_nonneg gt]) simp
    then have q0: "0 < q" by (simp add: q)
    have "dle (rnd (b * q)) (rnd (b * m))" using b q q0 by (intro rnd_mono_pos) simp_all
    moreover have "b * q \<le> b * 1" using b q assms(5) by (intro mult_left_mono) simp_all
    then have "dle (rnd (b * q)) (Fin b)" using assms(2) by (intro rnd_le_representable) simp_all
    moreover have "dle (Fin 0) (rnd (b * q))" using b q by (intro rnd_nonneg) simp
    ultimately show ?thesis using b le pos q unfolding f_def [symmetric] st by simp
  qed
  moreover have "\<not> rd_allowed ?d \<and> rd_stake ?d = Fin 0" if "b \<le> 0"
    using that assms by (simp add: evaluateRisk_def)
  ultimately show ?thesis by (auto simp: Let_def)
qed

theorem risk_stake_bounded_witness:
  "let d = evaluateRisk \<lparr>ri_bankroll = Fin 1000, ri_probability = Fin (3 / 4), ri_odds = Fin 2, ri_maxFraction = Fin (1 / 2)\<rparr> in
    (rd_allowed d \<longrightarrow> 0 < (1000 :: rat) \<and> dle (Fin 0) (rd_stake d) \<and> dle (rd_stake d) (dmul (Fin 1000) (Fin (1 / 2))) \<and>
       dle (rd_stake d) (Fin 1000) \<and> dless (Fin 0) (rd_kellyFraction d) \<and> dle (rd_kellyFraction d) (Fin (1 / 2))) \<and>
    ((1000 :: rat) \<le> 0 \<longrightarrow> \<not> rd_allowed d \<and> rd_stake d = Fin 0)"
  using representable_int [of 1000] by (intro risk_stake_bounded) simp_all

end
