(* ===== verification/Dedupe.thy ===== *)
theory Dedupe
  imports Types
begin

text \<open>
  Duplicate suppression. The contract shared by the filters of the program is the locale
  \<open>key_memory\<close>: a bounded memory of keys that answers whether a key is new. A memory that
  always holds the key it was last asked about is a \<open>dedupe\<close>, and one that
  forgets in order of acceptance a \<open>fifo_window\<close>. \<open>DuplicateFilter\<close>
  (\<open>include/ingestion/duplicate_filter.hpp\<close>) is modelled here and interprets both;
  \<open>EventValidator\<close> and \<open>EventRouter\<close> interpret them in their own theories.
  \<open>SequenceTracker\<close> (\<open>sequence_tracker.hpp\<close>) is the gap detector.
\<close>

section \<open>Eviction from a set with an order\<close>

text \<open>\<open>while (order_.size() > max_) { seen_.erase(order_.front()); order_.pop_front(); }\<close>\<close>

fun evict :: "nat \<Rightarrow> string set \<Rightarrow> string list \<Rightarrow> string set \<times> string list" where
  "evict n seen [] = (seen, [])"
| "evict n seen (x # xs) =
     (if length (x # xs) > n then evict n (seen - {x}) xs else (seen, x # xs))"

lemma evict_eq: "distinct xs \<Longrightarrow> evict n (set xs) xs = (set (trim n xs), trim n xs)"
proof (induction xs)
  case (Cons x xs)
  then have "set (x # xs) - {x} = set xs" by auto
  with Cons show ?case by (simp add: trim_eq_drop Suc_diff_le)
qed (simp add: trim_eq_drop)

section \<open>The contract\<close>

fun offer_all :: "('k \<Rightarrow> 's \<Rightarrow> bool \<times> 's) \<Rightarrow> 'k list \<Rightarrow> 's \<Rightarrow> 'k list \<times> 's" where
  "offer_all offer [] s = ([], s)"
| "offer_all offer (k # ks) s =
     (let (fresh, s1) = offer k s; (acc, s2) = offer_all offer ks s1
      in (if fresh then k # acc else acc, s2))"

lemma offer_all_Cons [simp]:
  "fst (offer_all offer (k # ks) s) =
     (if fst (offer k s) then k # fst (offer_all offer ks (snd (offer k s)))
      else fst (offer_all offer ks (snd (offer k s))))"
  "snd (offer_all offer (k # ks) s) = snd (offer_all offer ks (snd (offer k s)))"
  by (simp_all add: Let_def split: prod.splits)

declare offer_all.simps(2) [simp del]

text \<open>The keys of a list in the order of their first occurrence.\<close>

definition firsts :: "'k list \<Rightarrow> 'k list" where
  "firsts ks = rev (remdups (rev ks))"

fun firsts_from :: "'k set \<Rightarrow> 'k list \<Rightarrow> 'k list" where
  "firsts_from S [] = []"
| "firsts_from S (k # ks) = (if k \<in> S then firsts_from S ks else k # firsts_from (insert k S) ks)"

lemma firsts_from_snoc:
  "firsts_from S (ks @ [k]) = firsts_from S ks @ (if k \<in> S \<union> set ks then [] else [k])"
  by (induction S ks rule: firsts_from.induct) auto

lemma firsts_from_empty: "firsts_from {} ks = firsts ks"
  by (induction ks rule: rev_induct) (simp_all add: firsts_from_snoc firsts_def)

locale key_memory =
  fixes inv :: "'s \<Rightarrow> bool"
    and recent :: "'s \<Rightarrow> 'k list"
    and cap :: "'s \<Rightarrow> nat"
    and offer :: "'k \<Rightarrow> 's \<Rightarrow> bool \<times> 's"
  assumes inv_offer: "inv s \<Longrightarrow> inv (snd (offer k s))"
    and cap_offer: "inv s \<Longrightarrow> cap (snd (offer k s)) = cap s"
    and recent_bounded: "inv s \<Longrightarrow> length (recent s) \<le> cap s"
    and recent_distinct: "inv s \<Longrightarrow> distinct (recent s)"
    and offer_iff: "inv s \<Longrightarrow> fst (offer k s) \<longleftrightarrow> k \<notin> set (recent s)"
    and offer_seen: "inv s \<Longrightarrow> k \<in> set (recent s) \<Longrightarrow> set (recent (snd (offer k s))) = set (recent s)"
    and offer_fresh: "inv s \<Longrightarrow> k \<notin> set (recent s) \<Longrightarrow> length (recent s) < cap s \<Longrightarrow>
      set (recent (snd (offer k s))) = insert k (set (recent s))"
begin

lemma run_inv: "inv s \<Longrightarrow> inv (snd (offer_all offer ks s)) \<and> cap (snd (offer_all offer ks s)) = cap s"
proof (induction ks arbitrary: s)
  case (Cons k ks)
  then show ?case using inv_offer [OF Cons.prems, of k] cap_offer [OF Cons.prems, of k]
    by auto
qed simp

text \<open>As long as the distinct keys fit in the memory, each is accepted exactly once.\<close>

lemma run_exactly_once:
  "inv s \<Longrightarrow> card (set (recent s) \<union> set ks) \<le> cap s \<Longrightarrow>
   fst (offer_all offer ks s) = firsts_from (set (recent s)) ks"
proof (induction ks arbitrary: s)
  case (Cons k ks)
  let ?s = "snd (offer k s)"
  have i: "inv ?s" "cap ?s = cap s" using inv_offer cap_offer Cons.prems(1) by blast+
  show ?case
  proof (cases "k \<in> set (recent s)")
    case True
    then have "set (recent ?s) = set (recent s)" using offer_seen Cons.prems(1) by blast
    with True Cons.IH [OF i(1)] i Cons.prems offer_iff [OF Cons.prems(1), of k] show ?thesis
      by (auto simp: insert_absorb)
  next
    case False
    have "card (insert k (set (recent s))) \<le> cap s"
      using Cons.prems(2) by (rule order_trans [rotated]) (auto intro!: card_mono)
    then have "length (recent s) < cap s"
      using False distinct_card [OF recent_distinct [OF Cons.prems(1)]] by simp
    with False have "set (recent ?s) = insert k (set (recent s))" using offer_fresh Cons.prems(1) by blast
    with False Cons.IH [OF i(1)] i Cons.prems offer_iff [OF Cons.prems(1), of k] show ?thesis
      by auto
  qed
qed simp

end

locale dedupe = key_memory +
  assumes offer_recent: "inv s \<Longrightarrow> 0 < cap s \<Longrightarrow> k \<in> set (recent (snd (offer k s)))"
begin

lemma repeat_rejected:
  "inv s \<Longrightarrow> 0 < cap s \<Longrightarrow> \<not> fst (offer k (snd (offer k s)))"
  using offer_iff [OF inv_offer] offer_recent by blast

end

locale fifo_window = dedupe +
  assumes recent_seen: "inv s \<Longrightarrow> k \<in> set (recent s) \<Longrightarrow> recent (snd (offer k s)) = recent s"
    and recent_fresh: "inv s \<Longrightarrow> k \<notin> set (recent s) \<Longrightarrow>
      recent (snd (offer k s)) = trim (cap s) (recent s @ [k])"
begin

text \<open>The memory is exactly the last \<open>cap\<close> accepted keys, so any \<open>cap\<close> consecutive
  acceptances are of different keys.\<close>

lemma run_window:
  "inv s \<Longrightarrow> recent (snd (offer_all offer ks s)) =
     trim (cap s) (recent s @ fst (offer_all offer ks s))"
proof (induction ks arbitrary: s)
  case Nil
  then show ?case using recent_bounded by (simp add: trim_id)
next
  case (Cons k ks)
  let ?s = "snd (offer k s)"
  have i: "inv ?s" "cap ?s = cap s" using inv_offer cap_offer Cons.prems by blast+
  show ?case
    using Cons.IH [OF i(1)] recent_seen [OF Cons.prems, of k] recent_fresh [OF Cons.prems, of k]
      offer_iff [OF Cons.prems, of k] trim_trim_snoc [of "cap s" "recent s @ [k]"] i(2)
    by auto
qed

lemma run_window_distinct:
  "inv s \<Longrightarrow> distinct (trim (cap s) (fst (offer_all offer ks s)))"
proof -
  assume inv: "inv s"
  have "distinct (recent (snd (offer_all offer ks s)))"
    using run_inv [OF inv] recent_distinct by blast
  then show ?thesis unfolding run_window [OF inv]
    by (auto simp: trim_eq_drop dest: distinct_drop)
qed

end

section \<open>DuplicateFilter\<close>

record DuplicateFilter =
  df_max :: nat
  df_seen :: "string set"
  df_order :: "string list"
  df_accepted :: u64
  df_duplicates :: u64

definition DuplicateFilter_new :: "nat \<Rightarrow> DuplicateFilter" where
  "DuplicateFilter_new maxKeys =
     \<lparr>df_max = maxKeys, df_seen = {}, df_order = [], df_accepted = 0, df_duplicates = 0\<rparr>"

definition acceptKey :: "string \<Rightarrow> DuplicateFilter \<Rightarrow> bool \<times> DuplicateFilter" where
  "acceptKey key d =
     (if key \<in> df_seen d then (False, d\<lparr>df_duplicates := df_duplicates d + 1\<rparr>)
      else let (seen, order) = evict (df_max d) (insert key (df_seen d)) (df_order d @ [key])
           in (True, d\<lparr>df_seen := seen, df_order := order, df_accepted := df_accepted d + 1\<rparr>))"

definition event_id :: "CrashEvent \<Rightarrow> string" where
  "event_id ev = (if ev_gameId ev \<noteq> [] then ev_gameId ev else ev_roundId ev)"

definition makeKey :: "CrashEvent \<Rightarrow> string" where
  "makeKey ev =
     event_id ev @ '':'' @ show_nat (EventKind_int (ev_kind ev)) @ '':'' @
     show_nat (unat (ev_sequence ev)) @ '':'' @ show_int (ev_elapsedMs ev)"

definition df_accept :: "CrashEvent \<Rightarrow> DuplicateFilter \<Rightarrow> bool \<times> DuplicateFilter" where
  "df_accept ev d = (if \<not> ev_valid ev then (False, d) else acceptKey (makeKey ev) d)"

definition df_clear :: "DuplicateFilter \<Rightarrow> DuplicateFilter" where
  "df_clear d = d\<lparr>df_seen := {}, df_order := []\<rparr>"

definition df_size :: "DuplicateFilter \<Rightarrow> nat" where
  "df_size d = card (df_seen d)"

definition df_inv :: "DuplicateFilter \<Rightarrow> bool" where
  "df_inv d \<longleftrightarrow> df_seen d = set (df_order d) \<and> distinct (df_order d) \<and> length (df_order d) \<le> df_max d"

lemma df_inv_new: "df_inv (DuplicateFilter_new n)"
  by (simp add: df_inv_def DuplicateFilter_new_def)

lemma df_inv_clear: "df_inv (df_clear d)"
  by (simp add: df_inv_def df_clear_def)

lemma acceptKey_fresh:
  assumes "df_inv d" "key \<notin> set (df_order d)"
  shows "acceptKey key d =
    (True, d\<lparr>df_seen := set (trim (df_max d) (df_order d @ [key])),
             df_order := trim (df_max d) (df_order d @ [key]), df_accepted := df_accepted d + 1\<rparr>)"
  using assms evict_eq [of "df_order d @ [key]" "df_max d"]
  by (simp add: acceptKey_def df_inv_def)

interpretation df: fifo_window df_inv df_order df_max acceptKey
proof
  fix s k
  assume inv: "df_inv s"
  show "df_inv (snd (acceptKey k s))"
    using inv acceptKey_fresh [OF inv, of k]
    by (cases "k \<in> set (df_order s)") (auto simp: acceptKey_def df_inv_def distinct_trim length_trim)
  show "df_max (snd (acceptKey k s)) = df_max s"
    using acceptKey_fresh [OF inv, of k] inv by (cases "k \<in> set (df_order s)") (auto simp: acceptKey_def df_inv_def)
  show "length (df_order s) \<le> df_max s" "distinct (df_order s)" using inv by (simp_all add: df_inv_def)
  show "fst (acceptKey k s) \<longleftrightarrow> k \<notin> set (df_order s)"
    using acceptKey_fresh [OF inv, of k] inv by (cases "k \<in> set (df_order s)") (auto simp: acceptKey_def df_inv_def)
  show "df_order (snd (acceptKey k s)) = trim (df_max s) (df_order s @ [k])" if "k \<notin> set (df_order s)"
    using that acceptKey_fresh [OF inv, of k] by simp
  show "df_order (snd (acceptKey k s)) = df_order s"
    "set (df_order (snd (acceptKey k s))) = set (df_order s)" if "k \<in> set (df_order s)"
    using that inv by (simp_all add: acceptKey_def df_inv_def)
  show "set (df_order (snd (acceptKey k s))) = insert k (set (df_order s))"
    if "k \<notin> set (df_order s)" "length (df_order s) < df_max s"
    using that acceptKey_fresh [OF inv, of k] by (simp add: trim_id)
  show "k \<in> set (df_order (snd (acceptKey k s)))" if "0 < df_max s"
    using acceptKey_fresh [OF inv, of k] inv trim_last_mem [OF that, of k "df_order s"]
    by (cases "k \<in> set (df_order s)") (auto simp: acceptKey_def df_inv_def)
qed

text \<open>Over events the filter is the key filter on the valid ones.\<close>

lemma df_accept_keys:
  "map makeKey (fst (offer_all df_accept evs d)) = fst (offer_all acceptKey (map makeKey (filter ev_valid evs)) d)"
  by (induction evs arbitrary: d) (simp_all add: df_accept_def)

lemma makeKey_eq [key_simps]:
  "makeKey a = makeKey b \<longleftrightarrow>
   event_id a = event_id b \<and> ev_kind a = ev_kind b \<and> ev_sequence a = ev_sequence b \<and>
   ev_elapsedMs a = ev_elapsedMs b"
proof -
  have k: "makeKey e = ((event_id e @ CHR '':'' # show_nat (EventKind_int (ev_kind e))) @
      CHR '':'' # show_nat (unat (ev_sequence e))) @ CHR '':'' # show_int (ev_elapsedMs e)" for e
    by (simp add: makeKey_def)
  show ?thesis unfolding k
    by (simp add: sep_key_inject colon_notin_show_nat colon_notin_show_int show_nat_inject show_int_inject
        del: append_assoc append_Cons) (auto intro: unat_eqI)
qed

text \<open>C25: the duplicate filter passes every distinct valid event exactly once, at its first
  occurrence and in order, as long as the distinct events fit the key memory; two events count
  as the same exactly when id, kind, sequence number and elapsed time agree.\<close>

theorem duplicate_filter_exactly_once:
  assumes "card (makeKey ` set (filter ev_valid evs)) \<le> n"
  shows "map makeKey (fst (offer_all df_accept evs (DuplicateFilter_new n))) =
      firsts (map makeKey (filter ev_valid evs)) \<and>
    (\<forall>a b. makeKey a = makeKey b \<longleftrightarrow>
      event_id a = event_id b \<and> ev_kind a = ev_kind b \<and> ev_sequence a = ev_sequence b \<and>
      ev_elapsedMs a = ev_elapsedMs b)"
proof -
  have "fst (offer_all acceptKey (map makeKey (filter ev_valid evs)) (DuplicateFilter_new n)) =
      firsts_from (set (df_order (DuplicateFilter_new n))) (map makeKey (filter ev_valid evs))"
    using assms by (intro df.run_exactly_once df_inv_new) (simp add: DuplicateFilter_new_def)
  then show ?thesis
    by (simp add: df_accept_keys DuplicateFilter_new_def firsts_from_empty makeKey_eq)
qed

theorem duplicate_filter_exactly_once_witness:
  "let e = CrashEvent_default\<lparr>ev_valid := True, ev_gameId := ''7''\<rparr>; evs = [e, e\<lparr>ev_kind := Ev_End\<rparr>, e]
   in map makeKey (fst (offer_all df_accept evs (DuplicateFilter_new 8192))) =
      firsts (map makeKey (filter ev_valid evs)) \<and>
    (\<forall>a b. makeKey a = makeKey b \<longleftrightarrow>
      event_id a = event_id b \<and> ev_kind a = ev_kind b \<and> ev_sequence a = ev_sequence b \<and>
      ev_elapsedMs a = ev_elapsedMs b)"
  unfolding Let_def
proof (rule duplicate_filter_exactly_once)
  let ?e = "CrashEvent_default\<lparr>ev_valid := True, ev_gameId := ''7''\<rparr>"
  have "card (makeKey ` set (filter ev_valid [?e, ?e\<lparr>ev_kind := Ev_End\<rparr>, ?e])) \<le>
      length (filter ev_valid [?e, ?e\<lparr>ev_kind := Ev_End\<rparr>, ?e])"
    by (metis card_length list.set_map length_map)
  also have "\<dots> \<le> 8192" by (simp add: CrashEvent_default_def)
  finally show "card (makeKey ` set (filter ev_valid [?e, ?e\<lparr>ev_kind := Ev_End\<rparr>, ?e])) \<le> 8192" .
qed

text \<open>Over any run, also one that overflows the key memory, no key is accepted twice within
  \<open>max\<close> consecutive acceptances, and the filter never remembers more than \<open>max\<close> keys.\<close>

theorem duplicate_filter_window:
  "distinct (trim n (map makeKey (fst (offer_all df_accept evs (DuplicateFilter_new n))))) \<and>
   df_size (snd (offer_all acceptKey keys (DuplicateFilter_new n))) \<le> n"
proof
  show "distinct (trim n (map makeKey (fst (offer_all df_accept evs (DuplicateFilter_new n)))))"
    using df.run_window_distinct [OF df_inv_new [of n]] unfolding df_accept_keys
    by (simp add: DuplicateFilter_new_def)
  let ?d = "snd (offer_all acceptKey keys (DuplicateFilter_new n))"
  have "df_inv ?d \<and> df_max ?d = n"
    using df.run_inv [OF df_inv_new] by (simp add: DuplicateFilter_new_def)
  then show "df_size ?d \<le> n"
    by (auto simp: df_size_def df_inv_def intro: order_trans [OF card_length])
qed

section \<open>SequenceTracker\<close>

record SequenceTracker =
  sqt_last :: "string \<rightharpoonup> u64"
  sqt_initialized :: "string \<rightharpoonup> bool"
  sqt_missed_total :: u64

definition SequenceTracker_new :: SequenceTracker where
  "SequenceTracker_new = \<lparr>sqt_last = Map.empty, sqt_initialized = Map.empty, sqt_missed_total = 0\<rparr>"

text \<open>\<open>last_[source]\<close> and \<open>initialized_[source]\<close> insert a zero entry when the key is absent.\<close>

definition sqt_observe :: "string \<Rightarrow> u64 \<Rightarrow> SequenceTracker \<Rightarrow> u64 \<times> SequenceTracker" where
  "sqt_observe source seqn t =
     (let lst = (case sqt_last t source of Some v \<Rightarrow> v | None \<Rightarrow> 0);
          t = t\<lparr>sqt_last := (sqt_last t)(source \<mapsto> lst)\<rparr>
      in if sqt_initialized t source \<noteq> Some True then
           (0, t\<lparr>sqt_last := (sqt_last t)(source \<mapsto> seqn),
                 sqt_initialized := (sqt_initialized t)(source \<mapsto> True)\<rparr>)
         else
           let missed = (if seqn > lst + 1 then seqn - lst - 1 else 0);
               t = t\<lparr>sqt_missed_total := sqt_missed_total t + missed\<rparr>
           in (missed, if seqn > lst then t\<lparr>sqt_last := (sqt_last t)(source \<mapsto> seqn)\<rparr> else t))"

definition sqt_get_last :: "SequenceTracker \<Rightarrow> string \<Rightarrow> u64" where
  "sqt_get_last t source = (case sqt_last t source of None \<Rightarrow> 0 | Some v \<Rightarrow> v)"

definition sqt_reset :: "string \<Rightarrow> SequenceTracker \<Rightarrow> SequenceTracker" where
  "sqt_reset source t = t\<lparr>sqt_last := (sqt_last t)(source := None), sqt_initialized := (sqt_initialized t)(source := None)\<rparr>"

definition sqt_resetAll :: "SequenceTracker \<Rightarrow> SequenceTracker" where
  "sqt_resetAll t = SequenceTracker_new"

definition sqt_sourceCount :: "SequenceTracker \<Rightarrow> nat" where
  "sqt_sourceCount t = card (dom (sqt_last t))"

text \<open>The number of observations that raise the highest sequence number seen so far.\<close>

fun advances :: "u64 \<Rightarrow> u64 list \<Rightarrow> nat" where
  "advances l [] = 0"
| "advances l (x # xs) = (if x > l then Suc (advances x xs) else advances l xs)"

definition sqt_run :: "string \<Rightarrow> u64 list \<Rightarrow> SequenceTracker \<Rightarrow> SequenceTracker" where
  "sqt_run source xs t = fold (\<lambda>x t. snd (sqt_observe source x t)) xs t"

lemma gap_nat:
  assumes "(l :: u64) < x" "l \<noteq> - 1"
  shows "unat (if x > l + 1 then x - l - 1 else 0) + 1 = unat x - unat l"
proof -
  have l1: "unat (l + 1) = unat l + 1" using assms(2) by (rule unat_plus_one)
  have lt: "unat l < unat x" using assms(1) by (simp add: word_less_nat_alt)
  show ?thesis
  proof (cases "x > l + 1")
    case True
    then have "unat (x - (l + 1)) = unat x - unat (l + 1)" by (intro unat_sub) simp
    then have "unat (x - l - 1) = unat x - unat l - 1" using l1 by (simp add: diff_diff_eq)
    with True lt show ?thesis by simp
  next
    case False
    then show ?thesis using lt l1 by (simp add: word_less_nat_alt)
  qed
qed

lemma sqt_observe_next:
  assumes "sqt_last t s = Some l" "sqt_initialized t s = Some True"
  shows "sqt_last (snd (sqt_observe s x t)) s = Some (max l x)"
    and "sqt_initialized (snd (sqt_observe s x t)) = sqt_initialized t"
    and "sqt_missed_total (snd (sqt_observe s x t)) = sqt_missed_total t + (if x > l + 1 then x - l - 1 else 0)"
  using assms by (auto simp: sqt_observe_def Let_def max_def)

lemma sqt_run_account:
  assumes "sqt_last t s = Some l" "sqt_initialized t s = Some True"
    and "unat (sqt_missed_total t) + b \<le> unat l" "l \<noteq> - 1" "\<forall>x\<in>set xs. x \<noteq> - 1"
  shows "\<exists>m. sqt_last (sqt_run s xs t) s = Some m \<and> m = fold max xs l \<and>
    unat (sqt_missed_total (sqt_run s xs t)) + advances l xs + unat l = unat m + unat (sqt_missed_total t)"
  using assms
proof (induction xs arbitrary: t l b)
  case (Cons x xs)
  let ?t = "snd (sqt_observe s x t)"
  note o = sqt_observe_next [OF Cons.prems(1,2), of x]
  show ?case
  proof (cases "x > l")
    case True
    have g: "unat (if x > l + 1 then x - l - 1 else 0) + 1 = unat x - unat l" (is "unat ?g + 1 = _")
      using True Cons.prems(4) by (rule gap_nat)
    have lt: "unat l < unat x" "unat x < 2 ^ 64" using True unsigned_less [of x] by (simp_all add: word_less_nat_alt)
    then have "unat (sqt_missed_total t) + unat ?g < 2 ^ 64" using g Cons.prems(3) by linarith
    then have m: "unat (sqt_missed_total ?t) = unat (sqt_missed_total t) + unat ?g"
      unfolding o(3) by (subst unat_add_lem [THEN iffD1]) simp_all
    have "max l x = x" using True by simp
    then have p: "sqt_last ?t s = Some x" "sqt_initialized ?t s = Some True"
      "unat (sqt_missed_total ?t) + b \<le> unat x" "x \<noteq> - 1" "\<forall>x\<in>set xs. x \<noteq> - 1"
      using o m g lt Cons.prems by auto
    from Cons.IH [OF p] True m g lt show ?thesis by (auto simp: sqt_run_def max_def)
  next
    case False
    have "\<not> x > l + 1" using False unat_plus_one [OF Cons.prems(4)] by (simp add: word_less_nat_alt)
    then have p: "sqt_last ?t s = Some l" "sqt_initialized ?t s = Some True"
      "unat (sqt_missed_total ?t) + b \<le> unat l" "\<forall>x\<in>set xs. x \<noteq> - 1"
      "sqt_missed_total ?t = sqt_missed_total t"
      using o False Cons.prems by (auto simp: max_def)
    from Cons.IH [OF p(1-3) Cons.prems(4) p(4)] p(5) False show ?thesis
      by (auto simp: sqt_run_def max_def)
  qed
qed (simp add: sqt_run_def)

text \<open>Gap accounting of the sequence tracker: after any run of observations of one source
  (with sequence numbers below the largest 64-bit value), in any order and with repetitions, the
  last number is the highest one seen, and the missed total plus the number of observations that
  advanced it is exactly the distance from the first to the last number.\<close>

theorem sequence_gap_account:
  assumes "\<forall>y\<in>set (x # xs). y \<noteq> - 1"
  shows "let t = sqt_run s (x # xs) SequenceTracker_new
         in sqt_get_last t s = fold max xs x \<and>
            unat (sqt_missed_total t) + advances x xs + unat x = unat (sqt_get_last t s)"
proof -
  let ?t = "snd (sqt_observe s x SequenceTracker_new)"
  have t: "sqt_last ?t s = Some x" "sqt_initialized ?t s = Some True" "sqt_missed_total ?t = 0"
    by (simp_all add: sqt_observe_def SequenceTracker_new_def Let_def)
  have "unat (sqt_missed_total ?t) + 0 \<le> unat x" by (simp add: t(3))
  from sqt_run_account [OF t(1,2) this, of xs] assms t(3) show ?thesis
    by (auto simp: Let_def sqt_run_def sqt_get_last_def)
qed

theorem sequence_gap_account_witness:
  "let t = sqt_run ''ws'' (5 # [6, 9, 9, 7]) SequenceTracker_new
   in sqt_get_last t ''ws'' = fold max [6, 9, 9, 7] 5 \<and>
      unat (sqt_missed_total t) + advances 5 [6, 9, 9, 7] + unat (5 :: u64) = unat (sqt_get_last t ''ws'')"
  by (rule sequence_gap_account) simp

end
