(* ===== verification/Feedback.thy ===== *)
theory Feedback
  imports Acie Dedupe Queues "HOL-Library.Char_ord" "HOL-Library.List_Lexorder"
begin

text \<open>
  Outcome feedback: \<open>FeedbackDispatcher\<close> (\<open>include/validation/feedback_dispatcher.hpp\<close>),
  \<open>ExactlyOnceFeedback\<close> (\<open>include/feedback/exactly_once_feedback.hpp\<close>) and
  \<open>DeliveryForensics\<close> (\<open>feedback/delivery_forensics.hpp\<close>). A callback is the value handed to it;
  the PostgreSQL insert is its result, an argument. Both filters are bounded key memories that forget
  everything when full; they interpret \<open>key_memory\<close>, and the second, which keeps the key it just
  saw, \<open>dedupe\<close>.
\<close>

section \<open>FeedbackDispatcher\<close>

record FeedbackDispatcher =
  fd_has_handler :: bool
  fd_queue :: "Outcome SpscQueue"
  fd_running :: bool
  fd_seen :: "string set"
  fd_dispatched :: u64
  fd_drops :: u64
  fd_dupes :: u64
  fd_handled :: u64

definition FeedbackDispatcher_new :: "Outcome \<Rightarrow> u64 \<Rightarrow> FeedbackDispatcher option" where
  "FeedbackDispatcher_new d queue_capacity =
     (case SpscQueue_new d queue_capacity of None \<Rightarrow> None
      | Some q \<Rightarrow> Some \<lparr>fd_has_handler = False, fd_queue = q, fd_running = False, fd_seen = {},
                        fd_dispatched = 0, fd_drops = 0, fd_dupes = 0, fd_handled = 0\<rparr>)"

definition fd_setHandler :: "bool \<Rightarrow> FeedbackDispatcher \<Rightarrow> FeedbackDispatcher" where
  "fd_setHandler h d = d\<lparr>fd_has_handler := h\<rparr>"

definition fd_start :: "FeedbackDispatcher \<Rightarrow> FeedbackDispatcher" where
  "fd_start d = d\<lparr>fd_running := True\<rparr>"

definition fd_stop :: "FeedbackDispatcher \<Rightarrow> FeedbackDispatcher" where
  "fd_stop d = d\<lparr>fd_running := False\<rparr>"

text \<open>\<open>dispatch\<close>: the outcomes handed to the handler by the call itself, and the new state.\<close>

definition fd_dispatch :: "Outcome \<Rightarrow> FeedbackDispatcher \<Rightarrow> Outcome list \<times> FeedbackDispatcher" where
  "fd_dispatch oc d =
     (let d = d\<lparr>fd_dispatched := fd_dispatched d + 1\<rparr>
      in if fd_has_handler d \<and> \<not> fd_running d then ([oc], d)
         else let (ok, q) = sq_try_push (fd_queue d) oc; d = d\<lparr>fd_queue := q\<rparr>
              in ([], if ok then d else d\<lparr>fd_drops := fd_drops d + 1\<rparr>))"

definition fd_poll :: "FeedbackDispatcher \<Rightarrow> Outcome option \<times> FeedbackDispatcher" where
  "fd_poll d = (let (r, q) = sq_try_pop (fd_queue d) in (r, d\<lparr>fd_queue := q\<rparr>))"

definition fd_key :: "Outcome \<Rightarrow> string" where
  "fd_key oc = (if oc_predictionId oc = [] then oc_roundId oc else oc_predictionId oc)"

text \<open>The part of the worker's iteration under \<open>dedupe_mu_\<close>: is the key new, and the memory after it.\<close>

definition fd_limit :: nat where
  "fd_limit = 10000"

definition fd_note_key :: "string \<Rightarrow> FeedbackDispatcher \<Rightarrow> bool \<times> FeedbackDispatcher" where
  "fd_note_key key d =
     (if key \<in> fd_seen d then (False, d\<lparr>fd_dupes := fd_dupes d + 1\<rparr>)
      else let seen = insert key (fd_seen d)
           in (True, d\<lparr>fd_seen := (if card seen > fd_limit then {} else seen)\<rparr>))"

text \<open>One iteration of the worker: the outcomes it hands to the handler.\<close>

definition fd_worker_step :: "FeedbackDispatcher \<Rightarrow> Outcome list \<times> FeedbackDispatcher" where
  "fd_worker_step d =
     (case sq_try_pop (fd_queue d) of
        (None, q) \<Rightarrow> ([], d\<lparr>fd_queue := q\<rparr>)
      | (Some oc, q) \<Rightarrow>
          let d = d\<lparr>fd_queue := q\<rparr>; key = fd_key oc;
              (fresh, d) = (if key \<noteq> [] then fd_note_key key d else (True, d))
          in if \<not> fresh then ([], d)
             else (if fd_has_handler d then [oc] else [], d\<lparr>fd_handled := fd_handled d + 1\<rparr>))"

fun fd_work :: "nat \<Rightarrow> FeedbackDispatcher \<Rightarrow> Outcome list \<times> FeedbackDispatcher" where
  "fd_work 0 d = ([], d)"
| "fd_work (Suc n) d =
     (let (out, d) = fd_worker_step d; (outs, d) = fd_work n d in (out @ outs, d))"

section \<open>ExactlyOnceFeedback\<close>

record ExactlyOnceFeedback =
  eo_edge :: "AdaptiveEdge option"
  eo_seen :: "string set"
  eo_applied :: u64
  eo_duplicates :: u64
  eo_durable :: u64

definition ExactlyOnceFeedback_new :: "AdaptiveEdge option \<Rightarrow> ExactlyOnceFeedback" where
  "ExactlyOnceFeedback_new edge =
     \<lparr>eo_edge = edge, eo_seen = {}, eo_applied = 0, eo_duplicates = 0, eo_durable = 0\<rparr>"

definition eo_limit :: nat where
  "eo_limit = 100000"

definition eo_note_key :: "string \<Rightarrow> ExactlyOnceFeedback \<Rightarrow> bool \<times> ExactlyOnceFeedback" where
  "eo_note_key key e =
     (if key \<in> eo_seen e then (False, e\<lparr>eo_duplicates := eo_duplicates e + 1\<rparr>)
      else let seen = insert key (eo_seen e)
           in (True, e\<lparr>eo_seen := (if card seen > eo_limit then {key} else seen)\<rparr>))"

text \<open>\<open>db\<close> is the result of the insert, \<open>None\<close> when there is no PostgreSQL database.\<close>

definition eo_apply :: "bool option \<Rightarrow> Outcome \<Rightarrow> ExactlyOnceFeedback \<Rightarrow> bool \<times> ExactlyOnceFeedback" where
  "eo_apply db oc e =
     (if oc_predictionId oc = [] then (False, e)
      else if oc_result oc \<noteq> Out_Win \<and> oc_result oc \<noteq> Out_Loss then (False, e)
      else let (fresh, e) = eo_note_key (oc_predictionId oc) e
           in if \<not> fresh then (False, e)
              else let e = e\<lparr>eo_edge := map_option (ae_noteOutcome oc) (eo_edge e), eo_applied := eo_applied e + 1\<rparr>
                   in (True, if db = Some True then e\<lparr>eo_durable := eo_durable e + 1\<rparr> else e))"

section \<open>DeliveryForensics\<close>

datatype DeliveryStage = Ds_Published | Ds_Claimed | Ds_Attempted | Ds_Delivered | Ds_Failed | Ds_DeadLettered

fun DeliveryStage_toString :: "DeliveryStage \<Rightarrow> string" where
  "DeliveryStage_toString Ds_Published = ''published''"
| "DeliveryStage_toString Ds_Claimed = ''claimed''"
| "DeliveryStage_toString Ds_Attempted = ''attempted''"
| "DeliveryStage_toString Ds_Delivered = ''delivered''"
| "DeliveryStage_toString Ds_Failed = ''failed''"
| "DeliveryStage_toString Ds_DeadLettered = ''dead_lettered''"

record DeliveryTrace =
  dt_correlationId :: string
  dt_outboxId :: string
  dt_lastError :: string
  dt_stages :: "(DeliveryStage \<times> TimestampMs) list"

record DeliveryForensics =
  fo_traces :: "string \<rightharpoonup> DeliveryTrace"
  fo_events :: u64

text \<open>\<open>first\<close> is the key at \<open>traces_.begin()\<close> once the trace is in: any key of the map.\<close>

definition fo_note :: "TimestampMs \<Rightarrow> string \<Rightarrow> string \<Rightarrow> DeliveryStage \<Rightarrow> string \<Rightarrow> string \<Rightarrow>
    DeliveryForensics \<Rightarrow> DeliveryForensics" where
  "fo_note now first correlationId stage outboxId error f =
     (let t = (case fo_traces f correlationId of Some t \<Rightarrow> t
               | None \<Rightarrow> \<lparr>dt_correlationId = [], dt_outboxId = [], dt_lastError = [], dt_stages = []\<rparr>);
          t = t\<lparr>dt_correlationId := correlationId,
                dt_outboxId := (if outboxId \<noteq> [] then outboxId else dt_outboxId t),
                dt_stages := dt_stages t @ [(stage, now)],
                dt_lastError := (if error \<noteq> [] then error else dt_lastError t)\<rparr>;
          m = (fo_traces f)(correlationId \<mapsto> t)
      in \<lparr>fo_traces = (if card (dom m) > 5000 then m(first := None) else m), fo_events = fo_events f + 1\<rparr>)"

definition fo_get :: "string \<Rightarrow> DeliveryForensics \<Rightarrow> DeliveryTrace option" where
  "fo_get correlationId f = fo_traces f correlationId"

definition trace_scan :: "(DeliveryStage \<times> TimestampMs) list \<Rightarrow> bool \<times> bool \<times> TimestampMs" where
  "trace_scan stages =
     fold (\<lambda>(st, ts) (published, delivered, pubAt).
       (if st = Ds_Published then True else published, if st = Ds_Delivered then True else delivered,
        if st = Ds_Published then ts else pubAt)) stages (False, False, 0)"

definition trace_lost :: "TimestampMs \<Rightarrow> DeliveryTrace \<Rightarrow> bool" where
  "trace_lost cutoff t =
     (case trace_scan (dt_stages t) of (published, delivered, pubAt) \<Rightarrow>
        published \<and> \<not> delivered \<and> pubAt > 0 \<and> pubAt < cutoff)"

definition fo_findLost :: "TimestampMs \<Rightarrow> TimestampMs \<Rightarrow> string list \<Rightarrow> DeliveryForensics \<Rightarrow> DeliveryTrace list" where
  "fo_findLost now olderThanMs ks f =
     filter (trace_lost (now - olderThanMs)) (List.map_filter (fo_traces f) ks)"

section \<open>Both filters are key memories\<close>

definition fd_inv :: "FeedbackDispatcher \<Rightarrow> bool" where
  "fd_inv d \<longleftrightarrow> finite (fd_seen d) \<and> card (fd_seen d) \<le> fd_limit \<and> sq_inv (fd_queue d)"

definition fd_recent :: "FeedbackDispatcher \<Rightarrow> string list" where
  "fd_recent d = sorted_list_of_set (fd_seen d)"

interpretation fdk: key_memory fd_inv fd_recent "\<lambda>_. fd_limit" fd_note_key
proof
  fix s k
  assume inv: "fd_inv s"
  then have f: "finite (fd_seen s)" by (simp add: fd_inv_def)
  show "fd_inv (snd (fd_note_key k s))"
    using inv by (auto simp: fd_inv_def fd_note_key_def Let_def fd_limit_def)
  show "fst (fd_note_key k s) \<longleftrightarrow> k \<notin> set (fd_recent s)"
    using f by (simp add: fd_note_key_def fd_recent_def Let_def)
  show "set (fd_recent (snd (fd_note_key k s))) = set (fd_recent s)" if "k \<in> set (fd_recent s)"
    using that f by (simp add: fd_note_key_def fd_recent_def)
  show "set (fd_recent (snd (fd_note_key k s))) = insert k (set (fd_recent s))"
    if "k \<notin> set (fd_recent s)" "length (fd_recent s) < fd_limit"
    using that f by (simp add: fd_note_key_def fd_recent_def Let_def set_insort_key)
qed (simp_all add: fd_inv_def fd_recent_def)

definition eo_inv :: "ExactlyOnceFeedback \<Rightarrow> bool" where
  "eo_inv e \<longleftrightarrow> finite (eo_seen e) \<and> card (eo_seen e) \<le> eo_limit"

definition eo_recent :: "ExactlyOnceFeedback \<Rightarrow> string list" where
  "eo_recent e = sorted_list_of_set (eo_seen e)"

interpretation eok: dedupe eo_inv eo_recent "\<lambda>_. eo_limit" eo_note_key
proof
  fix s k
  assume inv: "eo_inv s"
  then have f: "finite (eo_seen s)" by (simp add: eo_inv_def)
  show "eo_inv (snd (eo_note_key k s))"
    using inv by (auto simp: eo_inv_def eo_note_key_def Let_def eo_limit_def)
  show "fst (eo_note_key k s) \<longleftrightarrow> k \<notin> set (eo_recent s)"
    using f by (simp add: eo_note_key_def eo_recent_def Let_def)
  show "set (eo_recent (snd (eo_note_key k s))) = set (eo_recent s)" if "k \<in> set (eo_recent s)"
    using that f by (simp add: eo_note_key_def eo_recent_def)
  show "set (eo_recent (snd (eo_note_key k s))) = insert k (set (eo_recent s))"
    if "k \<notin> set (eo_recent s)" "length (eo_recent s) < eo_limit"
    using that f by (simp add: eo_note_key_def eo_recent_def Let_def set_insort_key)
  show "k \<in> set (eo_recent (snd (eo_note_key k s)))"
    using f by (simp add: eo_note_key_def eo_recent_def Let_def set_insort_key)
qed (simp_all add: eo_inv_def eo_recent_def)

section \<open>Exactly-once feedback\<close>

definition eo_decisive :: "Outcome \<Rightarrow> bool" where
  "eo_decisive oc \<longleftrightarrow> oc_predictionId oc \<noteq> [] \<and> (oc_result oc = Out_Win \<or> oc_result oc = Out_Loss)"

lemma eo_apply_skip: "\<not> eo_decisive oc \<Longrightarrow> eo_apply db oc e = (False, e)"
  by (auto simp: eo_apply_def eo_decisive_def)

lemma eo_apply_decisive:
  assumes "eo_decisive oc"
  shows "fst (eo_apply db oc e) \<longleftrightarrow> oc_predictionId oc \<notin> eo_seen e"
    and "eo_seen (snd (eo_apply db oc e)) = eo_seen (snd (eo_note_key (oc_predictionId oc) e))"
    and "eo_edge (snd (eo_apply db oc e)) =
      (if oc_predictionId oc \<in> eo_seen e then eo_edge e else map_option (ae_noteOutcome oc) (eo_edge e))"
    and "eo_applied (snd (eo_apply db oc e)) =
      (if oc_predictionId oc \<in> eo_seen e then eo_applied e else eo_applied e + 1)"
  using assms by (auto simp: eo_apply_def eo_note_key_def eo_decisive_def Let_def)

lemma eo_note_key_cong: "eo_seen e = eo_seen e' \<Longrightarrow>
    fst (eo_note_key k e) = fst (eo_note_key k e') \<and> eo_seen (snd (eo_note_key k e)) = eo_seen (snd (eo_note_key k e'))"
  by (simp add: eo_note_key_def Let_def)

lemma eo_run_keys:
  "eo_seen e = eo_seen e' \<Longrightarrow>
   map oc_predictionId (fst (offer_all (eo_apply db) ocs e)) =
     fst (offer_all eo_note_key (map oc_predictionId (filter eo_decisive ocs)) e')"
proof (induction ocs arbitrary: e e')
  case (Cons oc ocs)
  show ?case
  proof (cases "eo_decisive oc")
    case True
    note a = eo_apply_decisive [OF True, of db e]
    have s: "eo_seen (snd (eo_apply db oc e)) = eo_seen (snd (eo_note_key (oc_predictionId oc) e'))"
      using a(2) eo_note_key_cong [OF Cons.prems] by simp
    have f: "fst (eo_apply db oc e) = fst (eo_note_key (oc_predictionId oc) e')"
      using a(1) Cons.prems by (simp add: eo_note_key_def Let_def)
    show ?thesis using True f Cons.IH [OF s] by simp
  next
    case False
    with Cons show ?thesis by (simp add: eo_apply_skip)
  qed
qed simp

lemma eo_run_state:
  "eo_edge (snd (offer_all (eo_apply db) ocs e)) =
     map_option (fold ae_noteOutcome (fst (offer_all (eo_apply db) ocs e))) (eo_edge e)"
  "eo_applied (snd (offer_all (eo_apply db) ocs e)) =
     eo_applied e + of_nat (length (fst (offer_all (eo_apply db) ocs e)))"
proof (induction ocs arbitrary: e)
  case (Cons oc ocs)
  {
    case 1
    then show ?case using Cons eo_apply_decisive [of oc db e]
      by (cases "eo_decisive oc") (auto simp: eo_apply_skip option.map_comp comp_def)
  next
    case 2
    then show ?case using Cons eo_apply_decisive [of oc db e]
      by (cases "eo_decisive oc") (auto simp: eo_apply_skip)
  }
qed (simp_all add: option.map_id)

text \<open>C26: over any stream of outcomes with at most 100000 decided predictions, feedback is applied for the first
  decided outcome of every prediction and for no other, and the adaptive edge has then seen exactly these
  outcomes, once each and in order.\<close>

theorem feedback_exactly_once:
  assumes "card (oc_predictionId ` set (filter eo_decisive ocs)) \<le> 100000"
  shows "let (applied, e) = offer_all (eo_apply db) ocs (ExactlyOnceFeedback_new edge) in
    map oc_predictionId applied = firsts (map oc_predictionId (filter eo_decisive ocs)) \<and>
    eo_edge e = map_option (fold ae_noteOutcome applied) edge \<and> eo_applied e = of_nat (length applied)"
proof -
  let ?e = "ExactlyOnceFeedback_new edge" and ?ks = "map oc_predictionId (filter eo_decisive ocs)"
  have "eo_inv ?e" "eo_recent ?e = []" by (simp_all add: eo_inv_def eo_recent_def ExactlyOnceFeedback_new_def)
  then have "fst (offer_all eo_note_key ?ks ?e) = firsts ?ks"
    using eok.run_exactly_once [of ?e ?ks] assms by (simp add: eo_limit_def firsts_from_empty)
  then show ?thesis
    using eo_run_keys [of ?e ?e db ocs] eo_run_state [of db ocs ?e]
    by (cases "offer_all (eo_apply db) ocs ?e") (simp add: ExactlyOnceFeedback_new_def)
qed

theorem feedback_exactly_once_witness:
  "let (applied, e) = offer_all (eo_apply None) [demo_loss 1, demo_loss 2] (ExactlyOnceFeedback_new None) in
    map oc_predictionId applied = firsts (map oc_predictionId (filter eo_decisive [demo_loss 1, demo_loss 2])) \<and>
    eo_edge e = map_option (fold ae_noteOutcome applied) None \<and> eo_applied e = of_nat (length applied)"
proof (rule feedback_exactly_once)
  have "card (oc_predictionId ` set (filter eo_decisive [demo_loss 1, demo_loss 2])) \<le>
      card (oc_predictionId ` set [demo_loss 1, demo_loss 2])" by (intro card_mono image_mono) auto
  also have "\<dots> \<le> length [demo_loss 1, demo_loss 2]" by (metis card_length length_map list.set_map)
  finally show "card (oc_predictionId ` set (filter eo_decisive [demo_loss 1, demo_loss 2])) \<le> 100000" by simp
qed

section \<open>The asynchronous dispatcher\<close>

definition fd_dispatch_all :: "Outcome list \<Rightarrow> FeedbackDispatcher \<Rightarrow> FeedbackDispatcher" where
  "fd_dispatch_all ocs d = fold (\<lambda>oc d. snd (fd_dispatch oc d)) ocs d"

lemma fd_dispatch_running:
  assumes "fd_inv d" "fd_running d" "length (sq_list (fd_queue d)) < unat (sq_cap (fd_queue d)) - 1"
  shows "\<exists>q. fd_dispatch oc d = ([], d\<lparr>fd_dispatched := fd_dispatched d + 1, fd_queue := q\<rparr>) \<and>
    sq_inv q \<and> sq_list q = sq_list (fd_queue d) @ [oc] \<and> unat (sq_cap q) - 1 = unat (sq_cap (fd_queue d)) - 1"
proof -
  have "sq_inv (fd_queue d)" using assms(1) by (simp add: fd_inv_def)
  from sq.push_accepted [OF this TrueI assms(3), of oc] show ?thesis
    using assms(2) by (auto simp: fd_dispatch_def Let_def)
qed

lemma fd_dispatch_all_queue:
  "fd_inv d \<Longrightarrow> fd_running d \<Longrightarrow> length (sq_list (fd_queue d)) + length ocs \<le> unat (sq_cap (fd_queue d)) - 1 \<Longrightarrow>
   let d' = fd_dispatch_all ocs d in
     fd_inv d' \<and> fd_running d' \<and> fd_has_handler d' = fd_has_handler d \<and> fd_seen d' = fd_seen d \<and>
     fd_drops d' = fd_drops d \<and> sq_list (fd_queue d') = sq_list (fd_queue d) @ ocs"
proof (induction ocs arbitrary: d)
  case (Cons oc ocs)
  then obtain q where q: "fd_dispatch oc d = ([], d\<lparr>fd_dispatched := fd_dispatched d + 1, fd_queue := q\<rparr>)"
      "sq_inv q" "sq_list q = sq_list (fd_queue d) @ [oc]" "unat (sq_cap q) - 1 = unat (sq_cap (fd_queue d)) - 1"
    using fd_dispatch_running [of d oc] by auto
  let ?d = "d\<lparr>fd_dispatched := fd_dispatched d + 1, fd_queue := q\<rparr>"
  have "fd_inv ?d" "fd_running ?d" using Cons.prems(1,2) q(2) by (simp_all add: fd_inv_def)
  from Cons.IH [OF this] q Cons.prems(3) show ?case by (simp add: fd_dispatch_all_def Let_def)
qed (simp add: fd_dispatch_all_def)

lemma fd_worker_empty:
  "fd_inv d \<Longrightarrow> sq_list (fd_queue d) = [] \<Longrightarrow> fd_worker_step d = ([], d)"
  using sq.pop_empty [of "fd_queue d"] by (simp add: fd_worker_step_def fd_inv_def)

lemma fd_work_empty: "fd_inv d \<Longrightarrow> sq_list (fd_queue d) = [] \<Longrightarrow> fd_work n d = ([], d)"
  by (induction n) (simp_all add: fd_worker_empty)

lemma fd_worker_head:
  assumes "fd_inv d" "sq_list (fd_queue d) = oc # ocs" "fd_key oc \<noteq> []" "fd_has_handler d"
  shows "\<exists>d'. fd_worker_step d = (if fd_key oc \<in> fd_seen d then [] else [oc], d') \<and> fd_inv d' \<and>
    sq_list (fd_queue d') = ocs \<and> fd_has_handler d' \<and> fd_seen d' = fd_seen (snd (fd_note_key (fd_key oc) d))"
proof -
  have "sq_inv (fd_queue d)" using assms(1) by (simp add: fd_inv_def)
  from sq.pop_head [OF this assms(2)] obtain q where
    q: "sq_try_pop (fd_queue d) = (Some oc, q)" "sq_inv q" "sq_list q = ocs" by blast
  have inv: "fd_inv (d\<lparr>fd_queue := q\<rparr>)" using assms(1) q(2) by (simp add: fd_inv_def)
  have "fd_inv (snd (fd_note_key (fd_key oc) (d\<lparr>fd_queue := q\<rparr>)))" using fdk.inv_offer [OF inv] .
  then show ?thesis using q assms(3,4)
    by (simp add: fd_worker_step_def fd_note_key_def Let_def fd_inv_def split: if_splits)
qed

lemma fd_note_key_seen:
  "fd_seen d = fd_seen d' \<Longrightarrow> fd_seen (snd (fd_note_key k d)) = fd_seen (snd (fd_note_key k d'))"
  by (simp add: fd_note_key_def Let_def)

lemma fd_work_keys:
  "fd_inv d \<Longrightarrow> sq_list (fd_queue d) = ocs \<Longrightarrow> \<forall>oc\<in>set ocs. fd_key oc \<noteq> [] \<Longrightarrow> fd_has_handler d \<Longrightarrow>
   length ocs \<le> n \<Longrightarrow> fd_seen d = fd_seen d0 \<Longrightarrow>
   map fd_key (fst (fd_work n d)) = fst (offer_all fd_note_key (map fd_key ocs) d0) \<and> set (fst (fd_work n d)) \<subseteq> set ocs"
proof (induction ocs arbitrary: d d0 n)
  case Nil
  then show ?case by (simp add: fd_work_empty)
next
  case (Cons oc ocs)
  then obtain m where n: "n = Suc m" "length ocs \<le> m" by (cases n) auto
  from Cons.prems(3) have key: "fd_key oc \<noteq> []" by simp
  from fd_worker_head [OF Cons.prems(1,2) key Cons.prems(4)] obtain d' where
    d': "fd_worker_step d = (if fd_key oc \<in> fd_seen d then [] else [oc], d')" "fd_inv d'"
      "sq_list (fd_queue d') = ocs" "fd_has_handler d'" "fd_seen d' = fd_seen (snd (fd_note_key (fd_key oc) d))" by blast
  have seen: "fd_seen d' = fd_seen (snd (fd_note_key (fd_key oc) d0))"
    using d'(5) fd_note_key_seen [OF Cons.prems(6)] by simp
  have f: "fst (fd_note_key (fd_key oc) d0) \<longleftrightarrow> fd_key oc \<notin> fd_seen d"
    using Cons.prems(6) by (simp add: fd_note_key_def Let_def)
  from Cons.IH [OF d'(2,3) _ d'(4) n(2) seen] Cons.prems(3) have
    "map fd_key (fst (fd_work m d')) = fst (offer_all fd_note_key (map fd_key ocs) (snd (fd_note_key (fd_key oc) d0)))"
    "set (fst (fd_work m d')) \<subseteq> set ocs" by auto
  then show ?case using d'(1) f by (cases "fd_work m d'") (auto simp: n(1))
qed

text \<open>A running dispatcher with room for the outcomes drops none, and once its worker has taken as many steps as
  there are outcomes the handler has received the first outcome of every key, in order and no key twice, as
  long as at most 10000 keys occur.\<close>

theorem dispatcher_delivers_once:
  assumes "fd_inv d" "fd_running d" "fd_has_handler d" "fd_seen d = {}" "sq_list (fd_queue d) = []"
    and "length ocs < unat (sq_cap (fd_queue d))" and "\<forall>oc\<in>set ocs. fd_key oc \<noteq> []"
    and "card (fd_key ` set ocs) \<le> 10000" and "length ocs \<le> n"
  shows "let d' = fd_dispatch_all ocs d; out = fst (fd_work n d') in
    fd_drops d' = fd_drops d \<and> map fd_key out = firsts (map fd_key ocs) \<and> set out \<subseteq> set ocs"
proof -
  let ?d = "fd_dispatch_all ocs d"
  have q: "fd_inv ?d \<and> fd_has_handler ?d \<and> fd_seen ?d = {} \<and> fd_drops ?d = fd_drops d \<and> sq_list (fd_queue ?d) = ocs"
    using fd_dispatch_all_queue [OF assms(1,2), of ocs] assms(3-6) by (simp add: Let_def)
  have "fst (offer_all fd_note_key (map fd_key ocs) d) = firsts (map fd_key ocs)"
    using fdk.run_exactly_once [OF assms(1), of "map fd_key ocs"] assms(4,8)
    by (simp add: fd_recent_def fd_limit_def firsts_from_empty)
  with fd_work_keys [of ?d ocs n d] q assms(4,7,9) show ?thesis by (simp add: Let_def)
qed

theorem dispatcher_delivers_once_witness:
  "\<exists>d. fd_running d \<and> (let d' = fd_dispatch_all [demo_loss 1, demo_loss 2] d; out = fst (fd_work 2 d') in
    fd_drops d' = fd_drops d \<and> map fd_key out = firsts (map fd_key [demo_loss 1, demo_loss 2]) \<and>
    set out \<subseteq> set [demo_loss 1, demo_loss 2])"
proof -
  obtain q where q: "SpscQueue_new (demo_loss 0) 2048 = Some q" "sq_inv q" "sq_list q = []" "2048 \<le> sq_cap q"
    using SpscQueue_new_ok [of 2048 "demo_loss 0"] by auto
  define d where "d = \<lparr>fd_has_handler = True, fd_queue = q, fd_running = True, fd_seen = {},
                        fd_dispatched = 0, fd_drops = 0, fd_dupes = 0, fd_handled = 0\<rparr>"
  have cap: "2048 \<le> unat (sq_cap q)" using q(4) by (simp add: word_le_nat_alt)
  have k: "fd_key (demo_loss t) = ''p1''" for t by (simp add: fd_key_def demo_loss_def demo_enter_def)
  have "let d' = fd_dispatch_all [demo_loss 1, demo_loss 2] d; out = fst (fd_work 2 d') in
    fd_drops d' = fd_drops d \<and> map fd_key out = firsts (map fd_key [demo_loss 1, demo_loss 2]) \<and>
    set out \<subseteq> set [demo_loss 1, demo_loss 2]"
    by (rule dispatcher_delivers_once) (use q cap in \<open>simp_all add: d_def fd_inv_def k\<close>)
  then show ?thesis by (intro exI [of _ d]) (simp add: d_def)
qed

text \<open>Clearing the full memory forgets also the key that filled it: the same outcome is delivered again at once.\<close>

lemma fd_clear_redelivers:
  assumes "k \<notin> fd_seen d" "finite (fd_seen d)" "card (fd_seen d) = fd_limit"
  shows "fst (fd_note_key k (snd (fd_note_key k d)))"
  using assms by (simp add: fd_note_key_def Let_def)

section \<open>Lost deliveries\<close>

lemma trace_scan_append:
  "trace_scan (xs @ [(st, ts)]) =
     (case trace_scan xs of (p, d, t) \<Rightarrow>
        (st = Ds_Published \<or> p, st = Ds_Delivered \<or> d, if st = Ds_Published then ts else t))"
  by (simp add: trace_scan_def split: prod.splits)

lemma trace_scan_flags:
  "fst (trace_scan xs) \<longleftrightarrow> Ds_Published \<in> fst ` set xs"
  "fst (snd (trace_scan xs)) \<longleftrightarrow> Ds_Delivered \<in> fst ` set xs"
  by (induction xs rule: rev_induct) (auto simp: trace_scan_append trace_scan_def split: prod.splits)

lemma fo_note_undelivered:
  "fo_traces f c = Some t \<Longrightarrow> card (dom (fo_traces f)) \<le> 5000 \<Longrightarrow>
   fo_get c (fo_note now first c st ob er f) =
     Some (t\<lparr>dt_correlationId := c, dt_outboxId := (if ob \<noteq> [] then ob else dt_outboxId t),
            dt_stages := dt_stages t @ [(st, now)], dt_lastError := (if er \<noteq> [] then er else dt_lastError t)\<rparr>)"
  by (simp add: fo_note_def fo_get_def Let_def insert_absorb domI)

end
