(* ===== verification/Validation.thy ===== *)
theory Validation
  imports Registry Feedback Timing "HOL-Library.Signed_Division"
begin

text \<open>
  Settlement of rounds: \<open>OutcomeMatcher\<close> (\<open>include/validation/outcome_matcher.hpp\<close>),
  \<open>LiveValidator\<close> (\<open>live_validator.hpp\<close>) and the facade \<open>Validator\<close> (\<open>validator.hpp\<close>).
  The matcher's handler is a function on the state of whoever installed it, here the feedback
  dispatcher; \<open>clock i\<close> is the \<open>nowMs()\<close> reading for the \<open>i\<close>-th prediction of a round. The
  latency tracker is shared and optional.
\<close>

section \<open>OutcomeMatcher\<close>

record OutcomeMatcher =
  om_stats :: WinLossStats
  om_matched :: u64
  om_unmatched_ends :: u64
  om_voids :: u64
  om_stales :: u64

definition OutcomeMatcher_new :: OutcomeMatcher where
  "OutcomeMatcher_new =
     \<lparr>om_stats = WinLossStats_default, om_matched = 0, om_unmatched_ends = 0, om_voids = 0, om_stales = 0\<rparr>"

definition end_round :: "CrashEvent \<Rightarrow> string" where
  "end_round ev = (if ev_roundId ev = [] then ev_gameId ev else ev_roundId ev)"

definition om_count :: "PredictionEvent \<Rightarrow> Outcome \<Rightarrow> OutcomeMatcher \<Rightarrow> OutcomeMatcher" where
  "om_count p oc m =
     (let m = (if oc_result oc = Out_Void then m\<lparr>om_voids := om_voids m + 1\<rparr>
               else if oc_result oc = Out_Stale then m\<lparr>om_stales := om_stales m + 1\<rparr>
               else m\<lparr>om_stats := wl_record oc (pe_confidence p) (om_stats m)\<rparr>)
      in m\<lparr>om_matched := om_matched m + 1\<rparr>)"

fun om_loop :: "(nat \<Rightarrow> TimestampMs) \<Rightarrow> (Outcome \<Rightarrow> 's \<Rightarrow> 's) \<Rightarrow> double \<Rightarrow> nat \<Rightarrow> PredictionEvent list \<Rightarrow>
    OutcomeMatcher \<Rightarrow> 's \<Rightarrow> Outcome list \<times> OutcomeMatcher \<times> 's" where
  "om_loop clock handler crashPoint i [] m s = ([], m, s)"
| "om_loop clock handler crashPoint i (p # ps) m s =
     (let oc = makeOutcome (clock i) p crashPoint;
          (ocs, m, s) = om_loop clock handler crashPoint (Suc i) ps (om_count p oc m) (handler oc s)
      in (oc # ocs, m, s))"

definition om_match :: "(nat \<Rightarrow> TimestampMs) \<Rightarrow> NanoTime \<Rightarrow> NanoTime \<Rightarrow> (Outcome \<Rightarrow> 's \<Rightarrow> 's) \<Rightarrow> CrashEvent \<Rightarrow>
    OutcomeMatcher \<Rightarrow> PredictionRegistry \<Rightarrow> LatencyTracker option \<Rightarrow> 's \<Rightarrow>
    Outcome list \<times> OutcomeMatcher \<times> PredictionRegistry \<times> LatencyTracker option \<times> 's" where
  "om_match clock t0 t1 handler ev m reg trk s =
     (if ev_kind ev \<noteq> Ev_End \<or> \<not> ev_valid ev then ([], m, reg, trk, s)
      else let (preds, reg) = pr_takeForRound (end_round ev) reg;
               (results, m, s) = om_loop clock handler (ev_crashPoint ev) 0 preds m s;
               m = (if preds = [] then m\<lparr>om_unmatched_ends := om_unmatched_ends m + 1\<rparr> else m)
           in (results, m, reg, map_option (lt_record St_Validation ((t1 - t0) sdiv 1000)) trk, s))"

section \<open>LiveValidator\<close>

datatype ValidateKind = Vk_Matched | Vk_NoPending | Vk_BgArrivedLate | Vk_DuplicateEnd | Vk_Invalid

record ValidateGameEndResult =
  vr_kind :: ValidateKind
  vr_outcomes :: "Outcome list"
  vr_gameId :: string
  vr_detail :: string

record LiveValidator =
  lv_registry :: PredictionRegistry
  lv_matcher :: OutcomeMatcher
  lv_feedback :: FeedbackDispatcher
  lv_tracker :: "LatencyTracker option"
  lv_stats :: WinLossStats
  lv_resolved_ends :: "string set"
  lv_resolved_order :: "string list"
  lv_resolved_map :: "string set"
  lv_late_bg :: "string set"
  lv_matched_rounds :: u64
  lv_no_pending :: u64
  lv_duplicate_ends :: u64
  lv_late_bg_count :: u64

definition LiveValidator_new :: "FeedbackDispatcher \<Rightarrow> LatencyTracker option \<Rightarrow> LiveValidator" where
  "LiveValidator_new fb tracker =
     \<lparr>lv_registry = PredictionRegistry_new 10000, lv_matcher = OutcomeMatcher_new, lv_feedback = fb,
      lv_tracker = tracker, lv_stats = WinLossStats_default, lv_resolved_ends = {}, lv_resolved_order = [],
      lv_resolved_map = {}, lv_late_bg = {}, lv_matched_rounds = 0, lv_no_pending = 0, lv_duplicate_ends = 0,
      lv_late_bg_count = 0\<rparr>"

definition lv_registerPrediction :: "string list \<Rightarrow> PredictionEvent \<Rightarrow> LiveValidator \<Rightarrow> unit Result \<times> LiveValidator" where
  "lv_registerPrediction ks ev v =
     (let (r, reg) = pr_register ks ev (lv_registry v) in (r, v\<lparr>lv_registry := reg\<rparr>))"

definition lv_limit :: nat where
  "lv_limit = 5000"

text \<open>\<open>while (resolved_map_.size() > 5000)\<close>; the map's values are positions in the order list, so the map is
  the set of its keys.\<close>

fun lv_evict :: "string set \<Rightarrow> string set \<Rightarrow> string list \<Rightarrow> string set \<times> string set \<times> string list" where
  "lv_evict m ends [] = (m, ends, [])"
| "lv_evict m ends (x # xs) =
     (if card m > lv_limit then lv_evict (m - {x}) (ends - {x}) xs else (m, ends, x # xs))"

text \<open>The critical section of \<open>onGameEnd\<close>: was the end new?\<close>

definition lv_remember :: "string \<Rightarrow> LiveValidator \<Rightarrow> bool \<times> LiveValidator" where
  "lv_remember g v =
     (if g \<in> lv_resolved_ends v then (False, v\<lparr>lv_duplicate_ends := lv_duplicate_ends v + 1\<rparr>)
      else let (m, ends, order) =
             (if g \<in> lv_resolved_map v
              then (lv_resolved_map v, lv_resolved_ends v, remove1 g (lv_resolved_order v) @ [g])
              else lv_evict (insert g (lv_resolved_map v)) (lv_resolved_ends v) (lv_resolved_order v @ [g]))
           in (True, v\<lparr>lv_resolved_map := m, lv_resolved_ends := insert g ends, lv_resolved_order := order\<rparr>))"

text \<open>The handler the constructor installs: dispatch, collecting what is delivered synchronously.\<close>

definition lv_handler :: "Outcome \<Rightarrow> FeedbackDispatcher \<times> Outcome list \<Rightarrow> FeedbackDispatcher \<times> Outcome list" where
  "lv_handler oc s = (case s of (fb, out) \<Rightarrow> let (o1, fb) = fd_dispatch oc fb in (fb, out @ o1))"

text \<open>The result, the outcomes the feedback handler got during the call, the arguments of the next-round hook
  if it was called, and the new state.\<close>

definition lv_onGameEnd :: "(nat \<Rightarrow> TimestampMs) \<Rightarrow> (NanoTime \<times> NanoTime) \<Rightarrow> (NanoTime \<times> NanoTime) \<Rightarrow> CrashEvent \<Rightarrow>
    LiveValidator \<Rightarrow> ValidateGameEndResult \<times> Outcome list \<times> (string \<times> double) option \<times> LiveValidator" where
  "lv_onGameEnd clock t s ev v =
     (if ev_kind ev \<noteq> Ev_End \<or> \<not> ev_valid ev then
        (\<lparr>vr_kind = Vk_Invalid, vr_outcomes = [], vr_gameId = [], vr_detail = ''not a valid end event''\<rparr>, [], None, v)
      else let gameId = end_round ev in
      if gameId = [] then
        (\<lparr>vr_kind = Vk_Invalid, vr_outcomes = [], vr_gameId = [], vr_detail = ''missing gameId''\<rparr>, [], None, v)
      else let (fresh, v) = lv_remember gameId v in
      if \<not> fresh then
        (\<lparr>vr_kind = Vk_DuplicateEnd, vr_outcomes = [], vr_gameId = gameId, vr_detail = ''duplicate end''\<rparr>, [], None, v)
      else
        let (outcomes, m, reg, trk, (fb, fed)) =
              om_match clock (fst s) (snd s) lv_handler ev (lv_matcher v) (lv_registry v) (lv_tracker v) (lv_feedback v, []);
            v = v\<lparr>lv_matcher := m, lv_registry := reg, lv_tracker := trk, lv_feedback := fb\<rparr>;
            (res, v) =
              (if outcomes = [] then
                 (\<lparr>vr_kind = Vk_NoPending, vr_outcomes = [], vr_gameId = gameId, vr_detail = ''no pending prediction''\<rparr>,
                  v\<lparr>lv_no_pending := lv_no_pending v + 1\<rparr>)
               else
                 (\<lparr>vr_kind = Vk_Matched, vr_outcomes = outcomes, vr_gameId = gameId, vr_detail = []\<rparr>,
                  v\<lparr>lv_stats := fold (\<lambda>oc. wl_record oc (Fin 0)) outcomes (lv_stats v),
                    lv_matched_rounds := lv_matched_rounds v + 1\<rparr>));
            v = v\<lparr>lv_tracker := map_option (lt_record St_Validation ((snd t - fst t) sdiv 1000)) (lv_tracker v)\<rparr>
        in (res, fed, Some (gameId, ev_crashPoint ev), v))"

definition lv_noteBgArrivedLate :: "string \<Rightarrow> LiveValidator \<Rightarrow> LiveValidator" where
  "lv_noteBgArrivedLate g v =
     v\<lparr>lv_late_bg := insert g (lv_late_bg v), lv_late_bg_count := lv_late_bg_count v + 1\<rparr>"

definition lv_wasBgLate :: "string \<Rightarrow> LiveValidator \<Rightarrow> bool" where
  "lv_wasBgLate g v \<longleftrightarrow> g \<in> lv_late_bg v"

definition lv_expireStale :: "TimestampMs \<Rightarrow> TimestampMs \<Rightarrow> string list \<Rightarrow> LiveValidator \<Rightarrow> nat \<times> LiveValidator" where
  "lv_expireStale now maxAgeMs ks v =
     (let (n, reg) = pr_expireStale now maxAgeMs ks (lv_registry v) in (n, v\<lparr>lv_registry := reg\<rparr>))"

section \<open>Validator\<close>

record Validator =
  va_registry :: PredictionRegistry
  va_matcher :: OutcomeMatcher
  va_feedback :: FeedbackDispatcher
  va_tracker :: "LatencyTracker option"

definition va_onPrediction :: "string list \<Rightarrow> PredictionEvent \<Rightarrow> Validator \<Rightarrow> unit Result \<times> Validator" where
  "va_onPrediction ks ev v =
     (let (r, reg) = pr_register ks ev (va_registry v) in (r, v\<lparr>va_registry := reg\<rparr>))"

definition va_onRoundEnd :: "(nat \<Rightarrow> TimestampMs) \<Rightarrow> NanoTime \<Rightarrow> NanoTime \<Rightarrow> CrashEvent \<Rightarrow> Validator \<Rightarrow>
    Outcome list \<times> Outcome list \<times> Validator" where
  "va_onRoundEnd clock t0 t1 ev v =
     (let (outcomes, m, reg, trk, (fb, fed)) =
        om_match clock t0 t1 lv_handler ev (va_matcher v) (va_registry v) (va_tracker v) (va_feedback v, [])
      in (outcomes, fed, v\<lparr>va_matcher := m, va_registry := reg, va_tracker := trk, va_feedback := fb\<rparr>))"

definition va_expireStale :: "TimestampMs \<Rightarrow> TimestampMs \<Rightarrow> string list \<Rightarrow> Validator \<Rightarrow> nat \<times> Validator" where
  "va_expireStale now maxAgeMs ks v =
     (let (n, reg) = pr_expireStale now maxAgeMs ks (va_registry v) in (n, v\<lparr>va_registry := reg\<rparr>))"

section \<open>The window of resolved ends\<close>

definition lv_inv :: "LiveValidator \<Rightarrow> bool" where
  "lv_inv v \<longleftrightarrow> lv_resolved_ends v = set (lv_resolved_order v) \<and> lv_resolved_map v = set (lv_resolved_order v) \<and>
     distinct (lv_resolved_order v) \<and> length (lv_resolved_order v) \<le> lv_limit \<and> pr_inv (lv_registry v)"

lemma lv_evict_eq:
  "distinct xs \<Longrightarrow> lv_evict (set xs) (set xs - {g}) xs =
     (set (trim lv_limit xs), set (trim lv_limit xs) - {g}, trim lv_limit xs)"
proof (induction xs)
  case (Cons x xs)
  then have "set (x # xs) - {x} = set xs" "set (x # xs) - {g} - {x} = set xs - {g}"
      "card (set (x # xs)) = length (x # xs)" by (auto simp: distinct_card)
  with Cons show ?case by (simp add: trim_eq_drop Suc_diff_le)
qed (simp add: trim_eq_drop)

lemma lv_remember_fresh:
  assumes "lv_inv v" "g \<notin> set (lv_resolved_order v)"
  shows "lv_remember g v =
    (True, v\<lparr>lv_resolved_map := set (trim lv_limit (lv_resolved_order v @ [g])),
             lv_resolved_ends := set (trim lv_limit (lv_resolved_order v @ [g])),
             lv_resolved_order := trim lv_limit (lv_resolved_order v @ [g])\<rparr>)"
proof -
  let ?xs = "lv_resolved_order v @ [g]"
  have "distinct ?xs" "insert g (lv_resolved_map v) = set ?xs" "lv_resolved_ends v = set ?xs - {g}"
    using assms by (auto simp: lv_inv_def)
  moreover have "g \<in> set (trim lv_limit ?xs)" by (rule trim_last_mem) (simp add: lv_limit_def)
  ultimately show ?thesis using assms lv_evict_eq [of ?xs g]
    by (simp add: lv_remember_def Let_def insert_absorb) (simp add: lv_inv_def)
qed

lemma lv_remember_seen:
  "lv_inv v \<Longrightarrow> g \<in> set (lv_resolved_order v) \<Longrightarrow>
   lv_remember g v = (False, v\<lparr>lv_duplicate_ends := lv_duplicate_ends v + 1\<rparr>)"
  by (simp add: lv_remember_def lv_inv_def)

interpretation lv: fifo_window lv_inv lv_resolved_order "\<lambda>_. lv_limit" lv_remember
proof
  fix s k
  assume inv: "lv_inv s"
  note cases = lv_remember_fresh [OF inv, of k] lv_remember_seen [OF inv, of k]
  show "lv_inv (snd (lv_remember k s))"
    using inv cases by (cases "k \<in> set (lv_resolved_order s)") (auto simp: lv_inv_def distinct_trim length_trim)
  show "length (lv_resolved_order s) \<le> lv_limit" "distinct (lv_resolved_order s)" using inv by (simp_all add: lv_inv_def)
  show "fst (lv_remember k s) \<longleftrightarrow> k \<notin> set (lv_resolved_order s)"
    using cases by (cases "k \<in> set (lv_resolved_order s)") simp_all
  show "set (lv_resolved_order (snd (lv_remember k s))) = set (lv_resolved_order s)"
    "lv_resolved_order (snd (lv_remember k s)) = lv_resolved_order s" if "k \<in> set (lv_resolved_order s)"
    using that cases by simp_all
  show "set (lv_resolved_order (snd (lv_remember k s))) = insert k (set (lv_resolved_order s))"
    if "k \<notin> set (lv_resolved_order s)" "length (lv_resolved_order s) < lv_limit"
    using that cases by (simp add: trim_id)
  show "lv_resolved_order (snd (lv_remember k s)) = trim lv_limit (lv_resolved_order s @ [k])"
    if "k \<notin> set (lv_resolved_order s)" using that cases by simp
  show "k \<in> set (lv_resolved_order (snd (lv_remember k s)))" if "0 < lv_limit"
    using cases trim_last_mem [OF that, of k "lv_resolved_order s"]
    by (cases "k \<in> set (lv_resolved_order s)") simp_all
qed simp

section \<open>Settlement\<close>

lemma om_loop_outcomes:
  "fst (om_loop clock h x i ps m s) = map (\<lambda>(j, p). makeOutcome (clock j) p x) (zip [i ..< i + length ps] ps)"
proof (induction ps arbitrary: i m s)
  case (Cons p ps)
  show ?case using Cons [of "Suc i"] by (simp add: Let_def case_prod_beta upt_conv_Cons del: upt_Suc)
qed simp

lemma om_loop_handler:
  "snd (snd (om_loop clock h x i ps m s)) = fold h (fst (om_loop clock h x i ps m s)) s"
  by (induction ps arbitrary: i m s) (simp_all add: Let_def case_prod_beta)

lemma om_loop_counts:
  "om_matched (fst (snd (om_loop clock h x i ps m s))) = om_matched m + of_nat (length ps)"
  "wl_wins (om_stats (fst (snd (om_loop clock h x i ps m s)))) = wl_wins (om_stats m) +
     of_nat (length (filter (\<lambda>oc. oc_result oc = Out_Win) (fst (om_loop clock h x i ps m s))))"
  "wl_losses (om_stats (fst (snd (om_loop clock h x i ps m s)))) = wl_losses (om_stats m) +
     of_nat (length (filter (\<lambda>oc. oc_result oc = Out_Loss) (fst (om_loop clock h x i ps m s))))"
  "om_voids (fst (snd (om_loop clock h x i ps m s))) = om_voids m +
     of_nat (length (filter (\<lambda>oc. oc_result oc = Out_Void) (fst (om_loop clock h x i ps m s))))"
  by (induction ps arbitrary: i m s)
    (simp_all add: Let_def case_prod_beta om_count_def wl_record_def makeOutcome_result)

lemma om_match_end:
  assumes "ev_kind ev = Ev_End" "ev_valid ev"
  shows "fst (om_match clock t0 t1 h ev m reg trk s) =
      map (\<lambda>(j, p). makeOutcome (clock j) p (ev_crashPoint ev))
        (zip [0 ..< length (fst (pr_takeForRound (end_round ev) reg))] (fst (pr_takeForRound (end_round ev) reg)))"
    and "fst (snd (snd (om_match clock t0 t1 h ev m reg trk s))) = snd (pr_takeForRound (end_round ev) reg)"
  using assms by (simp_all add: om_match_def Let_def case_prod_beta om_loop_outcomes)

lemma pr_take_all: "fst (pr_takeForRound rid r) = pr_list r rid"
  by (simp add: pr_takeForRound_def pr_list_def split: option.splits)

lemma onGameEnd_state:
  assumes "ev_kind ev = Ev_End" "ev_valid ev" "end_round ev \<noteq> []" "lv_inv v" "end_round ev \<notin> set (lv_resolved_order v)"
    and "lv_onGameEnd clock t s ev v = (res, fed, hook, v')"
  shows "vr_outcomes res = map (\<lambda>(j, p). makeOutcome (clock j) p (ev_crashPoint ev))
        (zip [0 ..< length (pr_list (lv_registry v) (end_round ev))] (pr_list (lv_registry v) (end_round ev)))"
    and "vr_kind res = (if vr_outcomes res = [] then Vk_NoPending else Vk_Matched)"
    and "lv_registry v' = snd (pr_takeForRound (end_round ev) (lv_registry v))"
    and "lv_resolved_order v' = lv_resolved_order (snd (lv_remember (end_round ev) v))"
    and "lv_resolved_ends v' = lv_resolved_ends (snd (lv_remember (end_round ev) v))"
    and "lv_resolved_map v' = lv_resolved_map (snd (lv_remember (end_round ev) v))"
    and "hook = Some (end_round ev, ev_crashPoint ev)"
proof -
  note fr = lv_remember_fresh [OF assms(4,5)]
  obtain ocs m reg trk fb out where match: "om_match clock (fst s) (snd s) lv_handler ev (lv_matcher v) (lv_registry v)
      (lv_tracker v) (lv_feedback v, []) = (ocs, m, reg, trk, (fb, out))" by (metis prod_cases3)
  note e = om_match_end [OF assms(1,2), of clock "fst s" "snd s" lv_handler "lv_matcher v" "lv_registry v" "lv_tracker v"
      "(lv_feedback v, [])", unfolded match pr_take_all, simplified]
  note r = assms(6) [unfolded lv_onGameEnd_def Let_def fr, symmetric]
  show "vr_outcomes res = map (\<lambda>(j, p). makeOutcome (clock j) p (ev_crashPoint ev))
        (zip [0 ..< length (pr_list (lv_registry v) (end_round ev))] (pr_list (lv_registry v) (end_round ev)))"
    "vr_kind res = (if vr_outcomes res = [] then Vk_NoPending else Vk_Matched)"
    "lv_registry v' = snd (pr_takeForRound (end_round ev) (lv_registry v))"
    "lv_resolved_order v' = lv_resolved_order (snd (lv_remember (end_round ev) v))"
    "lv_resolved_ends v' = lv_resolved_ends (snd (lv_remember (end_round ev) v))"
    "lv_resolved_map v' = lv_resolved_map (snd (lv_remember (end_round ev) v))"
    "hook = Some (end_round ev, ev_crashPoint ev)"
    using r assms(1-3) match e by (cases "ocs = []"; simp add: fr)+
qed

lemma onGameEnd_duplicate:
  assumes "ev_kind ev = Ev_End" "ev_valid ev" "end_round ev \<noteq> []" "lv_inv v" "end_round ev \<in> set (lv_resolved_order v)"
  shows "lv_onGameEnd clock t s ev v =
    (\<lparr>vr_kind = Vk_DuplicateEnd, vr_outcomes = [], vr_gameId = end_round ev, vr_detail = ''duplicate end''\<rparr>, [], None,
     v\<lparr>lv_duplicate_ends := lv_duplicate_ends v + 1\<rparr>)"
  using assms(1-3) lv_remember_seen [OF assms(4,5)] by (simp add: lv_onGameEnd_def Let_def)


definition demo_dispatcher :: FeedbackDispatcher where
  "demo_dispatcher =
     \<lparr>fd_has_handler = True,
      fd_queue = \<lparr>sq_cap = 2, sq_mask = 1, sq_buf = [demo_loss 0, demo_loss 0], sq_head = 0, sq_tail = 0\<rparr>,
      fd_running = False, fd_seen = {}, fd_dispatched = 0, fd_drops = 0, fd_dupes = 0, fd_handled = 0\<rparr>"

definition demo_validator :: LiveValidator where
  "demo_validator =
     (LiveValidator_new demo_dispatcher None)\<lparr>lv_registry := pr_add demo_enter (PredictionRegistry_new 10000)\<rparr>"

definition demo_end :: CrashEvent where
  "demo_end = CrashEvent_default\<lparr>ev_kind := Ev_End, ev_valid := True, ev_gameId := ''7'', ev_crashPoint := Fin 3\<rparr>"

lemma demo_validator_inv: "lv_inv demo_validator"
proof -
  have "pr_inv (pr_add demo_enter (PredictionRegistry_new 10000))"
    by (rule pr_inv_add [OF pr_inv_new]) (simp_all add: demo_enter_def pr_is_dup_def pr_list_def PredictionRegistry_new_def)
  then show ?thesis by (simp add: lv_inv_def demo_validator_def LiveValidator_new_def)
qed


end
