(* ===== verification/Outbox.thy ===== *)
theory Outbox
  imports Types Queues
begin

text \<open>
  The notification outbox: \<open>OutboxQueue\<close>, \<open>Outbox\<close>, \<open>OutboxWorker\<close>, \<open>OutboxLifecycle\<close> and
  \<open>DurableHandoff\<close> of \<open>include/delivery/outbox\<close>. Operations that update their
  \<open>OutboxItem&\<close> argument return it. The delivery sink of the worker is a function on items that
  may throw (\<open>None\<close>). The dash in an error text of the lease recovery is written in ASCII. The condition variable only wakes a waiting worker: what is kept of it is its
  counter.
\<close>

section \<open>Queue\<close>

record OutboxQueue =
  oq_q :: "OutboxItem BoundedQueue"
  oq_next_id :: u64
  oq_enqueued :: u64
  oq_dequeued :: u64
  oq_drops :: u64

definition Signal_default :: Signal where
  "Signal_default = \<lparr>sg_kind = Sig_Prediction, sg_predictionId = [], sg_roundId = [], sg_text = [],
     sg_createdAtMs = 0, sg_correlationId = [], sg_urgent = False\<rparr>"

definition OutboxItem_default :: OutboxItem where
  "OutboxItem_default =
     \<lparr>oi_id = 0, oi_state = Ob_Pending, oi_signal = Signal_default, oi_createdAtMs = 0, oi_claimedAtMs = 0,
      oi_deliveredAtMs = 0, oi_attempts = 0, oi_lastError = [], oi_dedupeKey = []\<rparr>"

definition OutboxQueue_new :: "nat \<Rightarrow> OutboxQueue" where
  "OutboxQueue_new capacity =
     \<lparr>oq_q = BoundedQueue_new OutboxItem_default capacity, oq_next_id = 1, oq_enqueued = 0, oq_dequeued = 0,
      oq_drops = 0\<rparr>"

definition oq_enqueue :: "OutboxItem \<Rightarrow> OutboxQueue \<Rightarrow> bool \<times> OutboxQueue" where
  "oq_enqueue item o1 =
     (let item = item\<lparr>oi_id := oq_next_id o1\<rparr>;
          o1 = o1\<lparr>oq_next_id := oq_next_id o1 + 1\<rparr>;
          (ok, q) = bq_try_push (oq_q o1) item;
          o1 = o1\<lparr>oq_q := q\<rparr>
      in if \<not> ok then (False, o1\<lparr>oq_drops := oq_drops o1 + 1\<rparr>)
         else (True, o1\<lparr>oq_enqueued := oq_enqueued o1 + 1\<rparr>))"

definition oq_dequeue :: "OutboxQueue \<Rightarrow> OutboxItem option \<times> OutboxQueue" where
  "oq_dequeue o1 =
     (let (r, q) = bq_pop (oq_q o1); o1 = o1\<lparr>oq_q := q\<rparr>
      in (r, if r \<noteq> None then o1\<lparr>oq_dequeued := oq_dequeued o1 + 1\<rparr> else o1))"

section \<open>Outbox\<close>

record Outbox =
  ob_queue :: OutboxQueue
  ob_pending :: "string set"
  ob_delivered_keys :: "string set"
  ob_published :: u64
  ob_claimed :: u64
  ob_delivered :: u64
  ob_failed :: u64
  ob_duplicates :: u64
  ob_dead_letters :: u64

definition Outbox_new :: "nat \<Rightarrow> Outbox" where
  "Outbox_new capacity =
     \<lparr>ob_queue = OutboxQueue_new capacity, ob_pending = {}, ob_delivered_keys = {}, ob_published = 0,
      ob_claimed = 0, ob_delivered = 0, ob_failed = 0, ob_duplicates = 0, ob_dead_letters = 0\<rparr>"

definition OUTBOX_MAX_ATTEMPTS :: int where
  "OUTBOX_MAX_ATTEMPTS = 5"

definition OUTBOX_CLAIM_TIMEOUT_MS :: int where
  "OUTBOX_CLAIM_TIMEOUT_MS = 30000"

definition ob_key :: "Signal \<Rightarrow> string" where
  "ob_key s = sg_predictionId s @ '':'' @ show_nat (SignalKind_int (sg_kind s))"

definition ob_publish :: "TimestampMs \<Rightarrow> Signal \<Rightarrow> Outbox \<Rightarrow> u64 Result \<times> Outbox" where
  "ob_publish now s b =
     (let key = ob_key s
      in if key \<in> ob_delivered_keys b \<or> key \<in> ob_pending b then
           (Inl (mkError EC_Duplicate ''already published''), b\<lparr>ob_duplicates := ob_duplicates b + 1\<rparr>)
         else
           let b = b\<lparr>ob_pending := insert key (ob_pending b)\<rparr>;
               item = OutboxItem_default\<lparr>oi_state := Ob_Pending, oi_signal := s, oi_createdAtMs := now, oi_dedupeKey := key\<rparr>;
               (ok, q) = oq_enqueue item (ob_queue b);
               b = b\<lparr>ob_queue := q\<rparr>
           in if \<not> ok then
                (Inl (mkError EC_QueueFull ''outbox full''), b\<lparr>ob_pending := ob_pending b - {key}\<rparr>)
              else (Inr (oq_enqueued (ob_queue b)), b\<lparr>ob_published := ob_published b + 1\<rparr>))"

definition ob_claim :: "TimestampMs \<Rightarrow> Outbox \<Rightarrow> OutboxItem option \<times> Outbox" where
  "ob_claim now b =
     (let (r, q) = oq_dequeue (ob_queue b); b = b\<lparr>ob_queue := q\<rparr>
      in case r of None \<Rightarrow> (None, b)
         | Some item \<Rightarrow> (Some (item\<lparr>oi_state := Ob_Claimed, oi_claimedAtMs := now\<rparr>), b\<lparr>ob_claimed := ob_claimed b + 1\<rparr>))"

definition ob_delivered_limit :: nat where
  "ob_delivered_limit = 50000"

definition ob_markDelivered :: "TimestampMs \<Rightarrow> OutboxItem \<Rightarrow> Outbox \<Rightarrow> OutboxItem \<times> Outbox" where
  "ob_markDelivered now item b =
     (let keys = insert (oi_dedupeKey item) (ob_delivered_keys b)
      in (item\<lparr>oi_state := Ob_Delivered, oi_deliveredAtMs := now\<rparr>,
          b\<lparr>ob_pending := ob_pending b - {oi_dedupeKey item},
            ob_delivered_keys := (if card keys > ob_delivered_limit then {} else keys),
            ob_delivered := ob_delivered b + 1\<rparr>))"

definition ob_markFailed :: "string \<Rightarrow> OutboxItem \<Rightarrow> Outbox \<Rightarrow> OutboxItem \<times> Outbox" where
  "ob_markFailed error item b =
     (let item = item\<lparr>oi_lastError := error, oi_attempts := oi_attempts item + 1\<rparr>;
          (item, b) =
            (if oi_attempts item \<ge> OUTBOX_MAX_ATTEMPTS then
               (item\<lparr>oi_state := Ob_DeadLetter\<rparr>,
                b\<lparr>ob_dead_letters := ob_dead_letters b + 1, ob_pending := ob_pending b - {oi_dedupeKey item}\<rparr>)
             else
               let item = item\<lparr>oi_state := Ob_Pending\<rparr>
               in (item, b\<lparr>ob_queue := snd (oq_enqueue item (ob_queue b))\<rparr>))
      in (item, b\<lparr>ob_failed := ob_failed b + 1\<rparr>))"

section \<open>Worker\<close>

text \<open>One iteration of \<open>run\<close>: the item handed to the sink and whether it was delivered.\<close>

definition ow_step :: "TimestampMs \<Rightarrow> (OutboxItem \<Rightarrow> bool option) \<Rightarrow> Outbox \<times> u64 \<Rightarrow>
    (OutboxItem \<times> bool) option \<times> Outbox \<times> u64" where
  "ow_step now deliver s =
     (case s of (b, processed) \<Rightarrow>
      case ob_claim now b of
        (None, b) \<Rightarrow> (None, b, processed)
      | (Some item, b) \<Rightarrow>
          let item = item\<lparr>oi_state := Ob_InFlight\<rparr>;
              ok = (case deliver item of Some r \<Rightarrow> r | None \<Rightarrow> False);
              b = (if ok then snd (ob_markDelivered now item b) else snd (ob_markFailed ''delivery failed'' item b))
          in (Some (item, ok), b, processed + 1))"

fun ow_run :: "(nat \<Rightarrow> TimestampMs) \<Rightarrow> (OutboxItem \<Rightarrow> bool option) \<Rightarrow> nat \<Rightarrow> Outbox \<times> u64 \<Rightarrow>
    (OutboxItem \<times> bool) list \<times> Outbox \<times> u64" where
  "ow_run clock deliver 0 s = ([], s)"
| "ow_run clock deliver (Suc n) s =
     (let (r, s) = ow_step (clock n) deliver s; (rs, s) = ow_run clock deliver n s
      in (case r of None \<Rightarrow> rs | Some x \<Rightarrow> x # rs, s))"

section \<open>Leases\<close>

record OutboxLease =
  ol_id :: u64
  ol_claimedAtMs :: TimestampMs
  ol_deadlineMs :: TimestampMs
  ol_workerId :: string

record OutboxLifecycle =
  lf_claim_timeout_ms :: int
  lf_leases :: "u64 \<rightharpoonup> OutboxLease"
  lf_in_flight :: "u64 \<rightharpoonup> OutboxItem"
  lf_publishes :: u64
  lf_claims :: u64
  lf_delivered :: u64
  lf_failed :: u64
  lf_recovered :: u64
  lf_wakes :: u64
  lf_last_wake_seen :: u64

definition OutboxLifecycle_new :: "int \<Rightarrow> OutboxLifecycle" where
  "OutboxLifecycle_new claimTimeoutMs =
     \<lparr>lf_claim_timeout_ms = claimTimeoutMs, lf_leases = Map.empty, lf_in_flight = Map.empty, lf_publishes = 0,
      lf_claims = 0, lf_delivered = 0, lf_failed = 0, lf_recovered = 0, lf_wakes = 0, lf_last_wake_seen = 0\<rparr>"

definition lf_wake :: "OutboxLifecycle \<Rightarrow> OutboxLifecycle" where
  "lf_wake l = l\<lparr>lf_wakes := lf_wakes l + 1\<rparr>"

text \<open>\<open>waitForWake\<close> at the end of its wait.\<close>

definition lf_waitForWake :: "OutboxLifecycle \<Rightarrow> bool \<times> OutboxLifecycle" where
  "lf_waitForWake l =
     (if lf_wakes l > lf_last_wake_seen l then (True, l\<lparr>lf_last_wake_seen := lf_wakes l\<rparr>) else (False, l))"

definition lf_publishSignal :: "TimestampMs \<Rightarrow> Signal \<Rightarrow> Outbox \<times> OutboxLifecycle \<Rightarrow> u64 Result \<times> Outbox \<times> OutboxLifecycle" where
  "lf_publishSignal now s st =
     (case st of (b, l) \<Rightarrow>
        let (r, b) = ob_publish now s b
        in (r, b, if Result_ok r then (lf_wake l)\<lparr>lf_publishes := lf_publishes l + 1\<rparr> else l))"

definition lf_claimWithLease :: "TimestampMs \<Rightarrow> TimestampMs \<Rightarrow> string \<Rightarrow> Outbox \<times> OutboxLifecycle \<Rightarrow>
    OutboxItem option \<times> Outbox \<times> OutboxLifecycle" where
  "lf_claimWithLease now0 now1 workerId st =
     (case st of (b, l) \<Rightarrow>
      case ob_claim now0 b of
        (None, b) \<Rightarrow> (None, b, l)
      | (Some item, b) \<Rightarrow>
          let lease = \<lparr>ol_id = oi_id item, ol_claimedAtMs = now1, ol_deadlineMs = now1 + lf_claim_timeout_ms l,
                       ol_workerId = workerId\<rparr>;
              item = item\<lparr>oi_state := Ob_InFlight\<rparr>
          in (Some item, b, l\<lparr>lf_leases := (lf_leases l)(oi_id item \<mapsto> lease),
                             lf_in_flight := (lf_in_flight l)(oi_id item \<mapsto> item),
                             lf_claims := lf_claims l + 1\<rparr>))"

definition lf_release :: "u64 \<Rightarrow> OutboxLifecycle \<Rightarrow> OutboxLifecycle" where
  "lf_release i l = l\<lparr>lf_leases := (lf_leases l)(i := None), lf_in_flight := (lf_in_flight l)(i := None)\<rparr>"

definition lf_completeDelivered :: "TimestampMs \<Rightarrow> OutboxItem \<Rightarrow> Outbox \<times> OutboxLifecycle \<Rightarrow> Outbox \<times> OutboxLifecycle" where
  "lf_completeDelivered now item st =
     (case st of (b, l) \<Rightarrow>
        let (item, b) = ob_markDelivered now item b; l = lf_release (oi_id item) l
        in (b, l\<lparr>lf_delivered := lf_delivered l + 1\<rparr>))"

definition lf_completeFailed :: "string \<Rightarrow> OutboxItem \<Rightarrow> Outbox \<times> OutboxLifecycle \<Rightarrow> Outbox \<times> OutboxLifecycle" where
  "lf_completeFailed error item st =
     (case st of (b, l) \<Rightarrow>
        let (item, b) = ob_markFailed error item b; l = lf_release (oi_id item) l
        in (b, l\<lparr>lf_failed := lf_failed l + 1\<rparr>))"

text \<open>The first loop of \<open>recoverExpiredLeases\<close> over the ids \<open>ks\<close> of the lease map: what is to be requeued and the
  maps without it.\<close>

fun lf_collect :: "TimestampMs \<Rightarrow> u64 list \<Rightarrow> OutboxLifecycle \<Rightarrow> OutboxItem list \<times> OutboxLifecycle" where
  "lf_collect now [] l = ([], l)"
| "lf_collect now (i # ks) l =
     (case lf_leases l i of
        Some lease \<Rightarrow>
          if now > ol_deadlineMs lease then
            let out = (case lf_in_flight l i of None \<Rightarrow> []
                       | Some item \<Rightarrow> [item\<lparr>oi_state := Ob_Pending, oi_attempts := oi_attempts item + 1\<rparr>]);
                (outs, l) = lf_collect now ks (lf_release i l)
            in (out @ outs, l)
          else lf_collect now ks l
      | None \<Rightarrow> lf_collect now ks l)"

definition lf_requeue :: "TimestampMs \<Rightarrow> OutboxItem \<Rightarrow> Outbox \<Rightarrow> Outbox" where
  "lf_requeue now item b =
     (if oi_attempts item \<ge> OUTBOX_MAX_ATTEMPTS then
        let (item, b) = ob_markDelivered now (item\<lparr>oi_state := Ob_DeadLetter\<rparr>) b
        in snd (ob_markFailed ''lease expired max attempts'' item b)
      else snd (ob_markFailed ''lease expired -- requeued'' item b))"

definition lf_recoverExpiredLeases :: "TimestampMs \<Rightarrow> u64 list \<Rightarrow> Outbox \<times> OutboxLifecycle \<Rightarrow> nat \<times> Outbox \<times> OutboxLifecycle" where
  "lf_recoverExpiredLeases now ks st =
     (case st of (b, l) \<Rightarrow>
        let (items, l) = lf_collect now ks l;
            b = fold (lf_requeue now) items b;
            l = l\<lparr>lf_recovered := lf_recovered l + of_nat (length items)\<rparr>
        in (length items, b, if items \<noteq> [] then lf_wake l else l))"

section \<open>Ordered hand-off\<close>

record DurableHandoff =
  dh_pred_published :: "string set"
  dh_out_of_order :: u64

definition dh_publishPrediction :: "TimestampMs \<Rightarrow> Signal \<Rightarrow> Outbox \<times> DurableHandoff \<Rightarrow> u64 Result \<times> Outbox \<times> DurableHandoff" where
  "dh_publishPrediction now sig st =
     (case st of (b, h) \<Rightarrow>
        let sig = sig\<lparr>sg_kind := Sig_Prediction\<rparr>; (r, b) = ob_publish now sig b
        in (r, b, if Result_ok r
                  then h\<lparr>dh_pred_published := insert (sg_predictionId sig) (dh_pred_published h)\<rparr> else h))"

definition dh_publishOutcome :: "TimestampMs \<Rightarrow> Signal \<Rightarrow> Outbox \<times> DurableHandoff \<Rightarrow> u64 Result \<times> Outbox \<times> DurableHandoff" where
  "dh_publishOutcome now sig st =
     (case st of (b, h) \<Rightarrow>
        let sig = sig\<lparr>sg_kind := Sig_Outcome\<rparr>;
            h = (if sg_predictionId sig \<notin> dh_pred_published h then h\<lparr>dh_out_of_order := dh_out_of_order h + 1\<rparr> else h);
            (r, b) = ob_publish now sig b
        in (r, b, h))"

definition dh_hasPredictionPublished :: "string \<Rightarrow> DurableHandoff \<Rightarrow> bool" where
  "dh_hasPredictionPublished pid h \<longleftrightarrow> pid \<in> dh_pred_published h"

section \<open>The outbox as a list of items\<close>

definition ob_items :: "Outbox \<Rightarrow> OutboxItem list" where
  "ob_items b = bq_list (oq_q (ob_queue b))"

definition ob_ok :: "Outbox \<Rightarrow> bool" where
  "ob_ok b \<longleftrightarrow> bq_inv (oq_q (ob_queue b)) \<and> \<not> bq_closed (oq_q (ob_queue b))"

definition ob_cap :: "Outbox \<Rightarrow> nat" where
  "ob_cap b = bq_cap (oq_q (ob_queue b))"

lemma ob_ok_cong [simp]:
  "ob_ok (b\<lparr>ob_pending := p\<rparr>) = ob_ok b" "ob_ok (b\<lparr>ob_duplicates := n\<rparr>) = ob_ok b"
  "ob_ok (b\<lparr>ob_published := n\<rparr>) = ob_ok b" "ob_ok (b\<lparr>ob_failed := n\<rparr>) = ob_ok b"
  "ob_ok (b\<lparr>ob_claimed := n\<rparr>) = ob_ok b" "ob_ok (b\<lparr>ob_delivered := n\<rparr>) = ob_ok b"
  "ob_ok (b\<lparr>ob_dead_letters := n\<rparr>) = ob_ok b" "ob_ok (b\<lparr>ob_delivered_keys := p\<rparr>) = ob_ok b"
  by (simp_all add: ob_ok_def)

lemma ob_items_cong [simp]:
  "ob_items (b\<lparr>ob_pending := p\<rparr>) = ob_items b" "ob_items (b\<lparr>ob_duplicates := n\<rparr>) = ob_items b"
  "ob_items (b\<lparr>ob_published := n\<rparr>) = ob_items b" "ob_items (b\<lparr>ob_failed := n\<rparr>) = ob_items b"
  "ob_items (b\<lparr>ob_claimed := n\<rparr>) = ob_items b" "ob_items (b\<lparr>ob_delivered := n\<rparr>) = ob_items b"
  "ob_items (b\<lparr>ob_dead_letters := n\<rparr>) = ob_items b" "ob_items (b\<lparr>ob_delivered_keys := p\<rparr>) = ob_items b"
  by (simp_all add: ob_items_def)

lemma ob_ok_new [simp]: "ob_ok (Outbox_new n)" "ob_items (Outbox_new n) = []"
  by (simp_all add: ob_ok_def ob_items_def Outbox_new_def OutboxQueue_new_def)
    (simp add: BoundedQueue_new_def Let_def)

lemma enqueue_cases:
  assumes "ob_ok b"
  obtains (full) q where "oq_enqueue it (ob_queue b) = (False, q)" "ob_cap b \<le> length (ob_items b)"
      "ob_ok (b\<lparr>ob_queue := q\<rparr>)" "ob_items (b\<lparr>ob_queue := q\<rparr>) = ob_items b"
      "oq_drops q = oq_drops (ob_queue b) + 1" "bq_cap (oq_q q) = ob_cap b"
  | (ok) q where "oq_enqueue it (ob_queue b) = (True, q)" "length (ob_items b) < ob_cap b"
      "ob_ok (b\<lparr>ob_queue := q\<rparr>)" "ob_items (b\<lparr>ob_queue := q\<rparr>) = ob_items b @ [it\<lparr>oi_id := oq_next_id (ob_queue b)\<rparr>]"
      "oq_drops q = oq_drops (ob_queue b)" "bq_cap (oq_q q) = ob_cap b"
proof -
  have inv: "bq_inv (oq_q (ob_queue b))" "\<not> bq_closed (oq_q (ob_queue b))" using assms by (simp_all add: ob_ok_def)
  show thesis
  proof (cases rule: bq.push_cases [OF inv(1), of "it\<lparr>oi_id := oq_next_id (ob_queue b)\<rparr>", case_names refused accepted])
    case refused
    show ?thesis
      by (rule full [of "snd (oq_enqueue it (ob_queue b))"]) (use refused inv in \<open>auto simp: oq_enqueue_def Let_def ob_ok_def ob_items_def ob_cap_def\<close>)
  next
    case (accepted q)
    show ?thesis
      by (rule ok [of "snd (oq_enqueue it (ob_queue b))"]) (use accepted inv in \<open>auto simp: oq_enqueue_def Let_def ob_ok_def ob_items_def ob_cap_def\<close>)
  qed
qed

lemma claim_cases:
  assumes "ob_ok b"
  obtains (empty) "ob_items b = []" "ob_claim now b = (None, b)"
  | (some) it b' where "ob_items b = it # ob_items b'"
      "ob_claim now b = (Some (it\<lparr>oi_state := Ob_Claimed, oi_claimedAtMs := now\<rparr>), b')"
      "ob_ok b'" "ob_pending b' = ob_pending b" "ob_delivered_keys b' = ob_delivered_keys b"
      "ob_cap b' = ob_cap b" "oq_drops (ob_queue b') = oq_drops (ob_queue b)"
proof -
  have inv: "bq_inv (oq_q (ob_queue b))" using assms by (simp add: ob_ok_def)
  show thesis
  proof (cases rule: bq.pop_cases [OF inv, case_names none item])
    case none
    show ?thesis
      by (rule empty) (use none in \<open>simp_all add: ob_items_def ob_claim_def oq_dequeue_def bq_pop_eq Let_def\<close>)
  next
    case (item it q)
    show ?thesis
      by (rule some [of it "snd (ob_claim now b)"]) (use item assms in
        \<open>simp_all add: ob_items_def ob_claim_def oq_dequeue_def bq_pop_eq Let_def ob_ok_def ob_cap_def\<close>)
  qed
qed

lemma markDelivered_state [simp]:
  "ob_items (snd (ob_markDelivered now it b)) = ob_items b"
  "ob_ok (snd (ob_markDelivered now it b)) = ob_ok b"
  "ob_cap (snd (ob_markDelivered now it b)) = ob_cap b"
  "ob_pending (snd (ob_markDelivered now it b)) = ob_pending b - {oi_dedupeKey it}"
  "ob_queue (snd (ob_markDelivered now it b)) = ob_queue b"
  by (simp_all add: ob_markDelivered_def Let_def ob_items_def ob_ok_def ob_cap_def)

text \<open>A failed item is dead-lettered at the last attempt and otherwise goes back to the end of the queue, or is
  lost when the queue is full, its key still pending.\<close>

lemma markFailed_cases:
  assumes "ob_ok b"
  obtains (dead) "OUTBOX_MAX_ATTEMPTS \<le> oi_attempts it + 1" "ob_items (snd (ob_markFailed err it b)) = ob_items b"
      "ob_pending (snd (ob_markFailed err it b)) = ob_pending b - {oi_dedupeKey it}"
      "oq_drops (ob_queue (snd (ob_markFailed err it b))) = oq_drops (ob_queue b)"
  | (requeued) it' where "oi_attempts it + 1 < OUTBOX_MAX_ATTEMPTS" "length (ob_items b) < ob_cap b"
      "ob_items (snd (ob_markFailed err it b)) = ob_items b @ [it']"
      "oi_dedupeKey it' = oi_dedupeKey it" "oi_attempts it' = oi_attempts it + 1"
      "ob_pending (snd (ob_markFailed err it b)) = ob_pending b"
      "oq_drops (ob_queue (snd (ob_markFailed err it b))) = oq_drops (ob_queue b)"
  | (lost) "oi_attempts it + 1 < OUTBOX_MAX_ATTEMPTS" "ob_cap b \<le> length (ob_items b)"
      "ob_items (snd (ob_markFailed err it b)) = ob_items b" "ob_pending (snd (ob_markFailed err it b)) = ob_pending b"
      "oq_drops (ob_queue (snd (ob_markFailed err it b))) = oq_drops (ob_queue b) + 1"
proof (cases "OUTBOX_MAX_ATTEMPTS \<le> oi_attempts it + 1")
  case True
  then show ?thesis by (intro dead) (simp_all add: ob_markFailed_def)
next
  case False
  let ?it = "it\<lparr>oi_lastError := err, oi_attempts := oi_attempts it + 1, oi_state := Ob_Pending\<rparr>"
  show ?thesis
  proof (cases rule: enqueue_cases [OF assms, of ?it, case_names full ok])
    case (full q)
    with False show ?thesis by (intro lost) (simp_all add: ob_markFailed_def)
  next
    case (ok q)
    show ?thesis
      by (rule requeued [of "?it\<lparr>oi_id := oq_next_id (ob_queue b)\<rparr>"])
        (use ok False in \<open>simp_all add: ob_markFailed_def\<close>)
  qed
qed

lemma markFailed_ok: "ob_ok b \<Longrightarrow> ob_ok (snd (ob_markFailed err it b)) \<and> ob_cap (snd (ob_markFailed err it b)) = ob_cap b \<and>
    ob_delivered_keys (snd (ob_markFailed err it b)) = ob_delivered_keys b"
proof (cases "OUTBOX_MAX_ATTEMPTS \<le> oi_attempts it + 1")
  case False
  assume "ob_ok b"
  then show ?thesis
    by (cases rule: enqueue_cases [of b "it\<lparr>oi_lastError := err, oi_attempts := oi_attempts it + 1, oi_state := Ob_Pending\<rparr>"])
      (use False in \<open>simp_all add: ob_markFailed_def ob_cap_def\<close>)
qed (simp add: ob_markFailed_def ob_cap_def)

section \<open>The worker empties the outbox\<close>

definition ob_work :: "Outbox \<Rightarrow> nat" where
  "ob_work b = sum_list (map (\<lambda>it. nat (OUTBOX_MAX_ATTEMPTS - oi_attempts it)) (ob_items b))"

definition ob_fresh :: "Outbox \<Rightarrow> bool" where
  "ob_fresh b \<longleftrightarrow> list_all (\<lambda>it. oi_attempts it < OUTBOX_MAX_ATTEMPTS) (ob_items b)"

lemma ow_step_progress:
  assumes "ob_ok b" "ob_fresh b" "ow_step now deliver (b, n) = (r, b', n')" "ob_items b \<noteq> []"
  shows "ob_ok b' \<and> ob_fresh b' \<and> ob_work b' < ob_work b \<and> oq_drops (ob_queue b') = oq_drops (ob_queue b) \<and>
    ob_pending b' - oi_dedupeKey ` set (ob_items b') = ob_pending b - oi_dedupeKey ` set (ob_items b)"
proof (cases rule: claim_cases [OF assms(1), of now, case_names empty some])
  case empty
  then show ?thesis using assms(4) by simp
next
  case (some it b1)
  let ?it = "it\<lparr>oi_claimedAtMs := now, oi_state := Ob_InFlight\<rparr>"
  have att: "oi_attempts it < OUTBOX_MAX_ATTEMPTS" "ob_fresh b1" using assms(2) some(1) by (simp_all add: ob_fresh_def)
  have work: "ob_work b = nat (OUTBOX_MAX_ATTEMPTS - oi_attempts it) + ob_work b1" by (simp add: ob_work_def some(1))
  have room: "length (ob_items b1) < ob_cap b1"
  proof -
    have "length (ob_items b) \<le> ob_cap b"
      using bq.bounded [of "oq_q (ob_queue b)"] assms(1) by (simp add: ob_items_def ob_cap_def ob_ok_def)
    then show ?thesis using some(1,6) by simp
  qed
  have b': "b' = (if (case deliver ?it of Some r \<Rightarrow> r | None \<Rightarrow> False) then snd (ob_markDelivered now ?it b1)
      else snd (ob_markFailed ''delivery failed'' ?it b1))"
    using assms(3) some(2) by (auto simp: ow_step_def Let_def)
  show ?thesis
  proof (cases "case deliver ?it of Some r \<Rightarrow> r | None \<Rightarrow> False")
    case True
    with b' have e: "b' = snd (ob_markDelivered now ?it b1)" by simp
    show ?thesis unfolding e using some att work by (auto simp: ob_fresh_def ob_work_def)
  next
    case False
    with b' have e: "b' = snd (ob_markFailed ''delivery failed'' ?it b1)" by simp
    note ok = markFailed_ok [OF some(3), of "''delivery failed''" ?it]
    show ?thesis
    proof (cases rule: markFailed_cases [OF some(3), of ?it "''delivery failed''", case_names dead requeued lost])
      case dead
      with ok some att work show ?thesis unfolding e by (auto simp: ob_fresh_def ob_work_def)
    next
      case (requeued it')
      with ok some att work show ?thesis unfolding e by (auto simp: ob_fresh_def ob_work_def)
    next
      case lost
      with room show ?thesis by simp
    qed
  qed
qed

lemma ow_step_idle: "ob_ok b \<Longrightarrow> ob_items b = [] \<Longrightarrow> ow_step now deliver (b, n) = (None, b, n)"
  by (cases rule: claim_cases [of b now]) (simp_all add: ow_step_def)

lemma ow_run_idle: "ob_ok b \<Longrightarrow> ob_items b = [] \<Longrightarrow> ow_run clock deliver k (b, n) = ([], b, n)"
  by (induction k) (simp_all add: ow_step_idle)

lemma ow_run_drains:
  "ob_ok b \<Longrightarrow> ob_fresh b \<Longrightarrow> ob_work b \<le> k \<Longrightarrow>
   case ow_run clock deliver k (b, n) of (rs, b', n') \<Rightarrow>
     ob_items b' = [] \<and> ob_ok b' \<and> oq_drops (ob_queue b') = oq_drops (ob_queue b) \<and>
     ob_pending b' = ob_pending b - oi_dedupeKey ` set (ob_items b)"
proof (induction k arbitrary: b n)
  case 0
  have "ob_items b = []"
  proof (rule ccontr)
    assume "ob_items b \<noteq> []"
    then obtain it its where it: "ob_items b = it # its" by (cases "ob_items b") auto
    with 0 show False by (simp add: ob_work_def ob_fresh_def)
  qed
  with 0 show ?case by simp
next
  case (Suc k)
  show ?case
  proof (cases "ob_items b = []")
    case True
    with Suc.prems show ?thesis using ow_run_idle [of b clock deliver "Suc k" n] by simp
  next
    case False
    obtain r b1 n1 where st: "ow_step (clock k) deliver (b, n) = (r, b1, n1)" by (metis prod_cases3)
    note p = ow_step_progress [OF Suc.prems(1,2) st False]
    from p Suc.prems(3) have "ob_work b1 \<le> k" by simp
    with Suc.IH [of b1 n1] p show ?thesis
      by (cases "ow_run clock deliver k (b1, n1)") (simp add: st)
  qed
qed

text \<open>C15: whatever the sink does, failing and throwing included, the worker empties the outbox: after at most
  one iteration per attempt left, the queue is empty, nothing has been dropped, and every key that was queued has been
  released, its signal delivered or dead-lettered.\<close>

theorem outbox_worker_drains:
  assumes "ob_ok b" and "ob_fresh b" and "ob_work b \<le> k"
  shows "case ow_run clock deliver k (b, n) of (rs, b', n') \<Rightarrow>
     ob_items b' = [] \<and> oq_drops (ob_queue b') = oq_drops (ob_queue b) \<and>
     ob_pending b' = ob_pending b - oi_dedupeKey ` set (ob_items b)"
  using ow_run_drains [OF assms, of clock deliver n] by (auto split: prod.splits)

definition demo_signal :: "string \<Rightarrow> Signal" where
  "demo_signal pid = Signal_default\<lparr>sg_predictionId := pid\<rparr>"

definition demo_outbox :: Outbox where
  "demo_outbox = snd (ob_publish 1 (demo_signal ''p'') (Outbox_new 4))"

lemma demo_outbox_items:
  "ob_ok demo_outbox" "ob_items demo_outbox =
     [OutboxItem_default\<lparr>oi_id := 1, oi_signal := demo_signal ''p'', oi_createdAtMs := 1, oi_dedupeKey := ''p:0''\<rparr>]"
proof -
  have k: "ob_key (demo_signal ''p'') = ''p:0''" by (simp add: ob_key_def demo_signal_def Signal_default_def show_nat.simps char_of_def bit_0)
  show "ob_ok demo_outbox" "ob_items demo_outbox =
     [OutboxItem_default\<lparr>oi_id := 1, oi_signal := demo_signal ''p'', oi_createdAtMs := 1, oi_dedupeKey := ''p:0''\<rparr>]"
    by (simp_all add: demo_outbox_def ob_publish_def k Outbox_new_def OutboxQueue_new_def oq_enqueue_def
        bq_try_push_def bq_store_def BoundedQueue_new_def Let_def ob_ok_def ob_items_def bq_inv_def bq_list_def
        ring_list_def OutboxItem_default_def)
qed

theorem outbox_worker_drains_witness:
  "case ow_run (\<lambda>_. 7) (\<lambda>_. None) 5 (demo_outbox, 0) of (rs, b', n') \<Rightarrow>
     ob_items b' = [] \<and> oq_drops (ob_queue b') = oq_drops (ob_queue demo_outbox) \<and>
     ob_pending b' = ob_pending demo_outbox - oi_dedupeKey ` set (ob_items demo_outbox)"
  by (rule outbox_worker_drains)
    (simp_all add: demo_outbox_items ob_fresh_def ob_work_def OutboxItem_default_def OUTBOX_MAX_ATTEMPTS_def)

section \<open>At most once\<close>

text \<open>The outbox with the claimed items that are in the hands of workers and the keys delivered so far.\<close>

type_synonym ox_state = "Outbox \<times> OutboxItem list \<times> string list"

inductive ox_step :: "ox_state \<Rightarrow> ox_state \<Rightarrow> bool" where
  ox_publish: "ox_step (b, hand, dlv) (snd (ob_publish now s b), hand, dlv)"
| ox_claim: "ob_claim now b = (Some it, b') \<Longrightarrow> ox_step (b, hand, dlv) (b', it # hand, dlv)"
| ox_delivered: "it \<in> set hand \<Longrightarrow>
    ox_step (b, hand, dlv) (snd (ob_markDelivered now it b), remove1 it hand, oi_dedupeKey it # dlv)"
| ox_failed: "it \<in> set hand \<Longrightarrow> ox_step (b, hand, dlv) (snd (ob_markFailed err it b), remove1 it hand, dlv)"

inductive ox_reachable :: "ox_state \<Rightarrow> bool" where
  ox_init: "ox_reachable (Outbox_new n, [], [])"
| ox_next: "ox_reachable st \<Longrightarrow> ox_step st st' \<Longrightarrow> ox_reachable st'"

inductive_cases ox_stepE: "ox_step (b, hand, dlv) st'"

definition ox_keys :: "Outbox \<Rightarrow> OutboxItem list \<Rightarrow> string list" where
  "ox_keys b hand = map oi_dedupeKey (hand @ ob_items b)"

definition ox_inv :: "ox_state \<Rightarrow> bool" where
  "ox_inv st \<longleftrightarrow> (case st of (b, hand, dlv) \<Rightarrow>
     ob_ok b \<and> distinct (ox_keys b hand) \<and> set (ox_keys b hand) \<subseteq> ob_pending b \<and>
     (length dlv \<le> ob_delivered_limit \<longrightarrow>
        ob_delivered_keys b = set dlv \<and> distinct dlv \<and> ob_pending b \<inter> set dlv = {}))"

lemma map_remove1_inj:
  "distinct (map f xs) \<Longrightarrow> x \<in> set xs \<Longrightarrow> distinct (map f (remove1 x xs)) \<and> set (map f (remove1 x xs)) = set (map f xs) - {f x}"
proof (induction xs)
  case (Cons y ys)
  then show ?case by (cases "x = y") auto
qed simp

lemma ox_keys_hand:
  assumes "distinct (ox_keys b hand)" "it \<in> set hand"
  shows "distinct (ox_keys b (remove1 it hand))" "set (ox_keys b (remove1 it hand)) = set (ox_keys b hand) - {oi_dedupeKey it}"
proof -
  have "distinct (map oi_dedupeKey hand)" using assms(1) by (simp add: ox_keys_def)
  note r = map_remove1_inj [OF this assms(2)]
  have "oi_dedupeKey it \<notin> oi_dedupeKey ` set (ob_items b)" using assms by (auto simp: ox_keys_def)
  then show "set (ox_keys b (remove1 it hand)) = set (ox_keys b hand) - {oi_dedupeKey it}"
    using r by (simp add: ox_keys_def) blast
  show "distinct (ox_keys b (remove1 it hand))" using r assms(1) by (auto simp: ox_keys_def)
qed

lemma ob_publish_cases:
  assumes "ob_ok b"
  obtains (refused) "ob_ok (snd (ob_publish now s b))" "ob_items (snd (ob_publish now s b)) = ob_items b"
      "ob_pending (snd (ob_publish now s b)) = ob_pending b"
      "ob_delivered_keys (snd (ob_publish now s b)) = ob_delivered_keys b"
  | (accepted) it where "ob_key s \<notin> ob_pending b" "ob_key s \<notin> ob_delivered_keys b" "ob_ok (snd (ob_publish now s b))"
      "ob_items (snd (ob_publish now s b)) = ob_items b @ [it]" "oi_dedupeKey it = ob_key s" "oi_attempts it = 0"
      "ob_pending (snd (ob_publish now s b)) = insert (ob_key s) (ob_pending b)"
      "ob_delivered_keys (snd (ob_publish now s b)) = ob_delivered_keys b"
proof (cases "ob_key s \<in> ob_delivered_keys b \<or> ob_key s \<in> ob_pending b")
  case True
  with assms show ?thesis by (intro refused) (simp_all add: ob_publish_def Let_def)
next
  case False
  let ?b = "b\<lparr>ob_pending := insert (ob_key s) (ob_pending b)\<rparr>"
  let ?it = "OutboxItem_default\<lparr>oi_state := Ob_Pending, oi_signal := s, oi_createdAtMs := now, oi_dedupeKey := ob_key s\<rparr>"
  have q: "ob_queue ?b = ob_queue b" by simp
  show ?thesis
  proof (cases rule: enqueue_cases [OF assms, of ?it, case_names full ok])
    case (full q)
    with False have e: "snd (ob_publish now s b) = b\<lparr>ob_queue := q\<rparr>" by (simp add: ob_publish_def Let_def)
    show ?thesis by (rule refused) (simp_all add: e full)
  next
    case (ok q)
    with False have e: "snd (ob_publish now s b) =
        b\<lparr>ob_queue := q, ob_pending := insert (ob_key s) (ob_pending b), ob_published := ob_published b + 1\<rparr>"
      by (simp add: ob_publish_def Let_def)
    have "ob_items (snd (ob_publish now s b)) = ob_items (b\<lparr>ob_queue := q\<rparr>)" "ob_ok (snd (ob_publish now s b)) = ob_ok (b\<lparr>ob_queue := q\<rparr>)"
      by (simp_all add: e ob_items_def ob_ok_def)
    then show ?thesis using False ok
      by (intro accepted [of "?it\<lparr>oi_id := oq_next_id (ob_queue b)\<rparr>"]) (simp_all add: e OutboxItem_default_def)
  qed
qed

lemma ox_inv_init: "ox_inv (Outbox_new n, [], [])"
  by (simp add: ox_inv_def ox_keys_def) (simp add: Outbox_new_def)

lemma ox_inv_publish: "ox_inv (b, hand, dlv) \<Longrightarrow> ox_inv (snd (ob_publish now s b), hand, dlv)"
proof -
  assume inv: "ox_inv (b, hand, dlv)"
  then have ok: "ob_ok b" by (simp add: ox_inv_def)
  show ?thesis
  proof (cases rule: ob_publish_cases [OF ok, of now s, case_names refused accepted])
    case refused
    with inv show ?thesis by (simp add: ox_inv_def ox_keys_def)
  next
    case (accepted it)
    with inv have "ob_key s \<notin> set (ox_keys b hand)" by (auto simp: ox_inv_def)
    with accepted inv show ?thesis by (auto simp: ox_inv_def ox_keys_def)
  qed
qed

lemma ox_inv_claim:
  assumes "ox_inv (b, hand, dlv)" "ob_claim now b = (Some it, b')"
  shows "ox_inv (b', it # hand, dlv)"
proof -
  have ok: "ob_ok b" using assms(1) by (simp add: ox_inv_def)
  show ?thesis
    by (cases rule: claim_cases [OF ok, of now, case_names empty some])
      (use assms in \<open>auto simp: ox_inv_def ox_keys_def\<close>)
qed

lemma ox_inv_delivered:
  assumes inv: "ox_inv (b, hand, dlv)" and it: "it \<in> set hand"
  shows "ox_inv (snd (ob_markDelivered now it b), remove1 it hand, oi_dedupeKey it # dlv)"
proof -
  let ?b = "snd (ob_markDelivered now it b)" and ?k = "oi_dedupeKey it"
  have d: "distinct (ox_keys b hand)" "set (ox_keys b hand) \<subseteq> ob_pending b" using inv by (simp_all add: ox_inv_def)
  note h = ox_keys_hand [OF d(1) it]
  have k: "ox_keys ?b (remove1 it hand) = ox_keys b (remove1 it hand)" by (simp add: ox_keys_def)
  have kp: "?k \<in> ob_pending b" using d(2) it by (auto simp: ox_keys_def)
  have "ob_delivered_keys ?b = set (?k # dlv) \<and> distinct (?k # dlv) \<and> ob_pending ?b \<inter> set (?k # dlv) = {}"
    if "length (?k # dlv) \<le> ob_delivered_limit"
  proof -
    from that inv have l: "ob_delivered_keys b = set dlv" "distinct dlv" "ob_pending b \<inter> set dlv = {}"
      by (simp_all add: ox_inv_def)
    have dk: "distinct (?k # dlv)" using l(2,3) kp by auto
    then have "card (insert ?k (ob_delivered_keys b)) = length (?k # dlv)" using l(1) distinct_card [OF dk] by simp
    with that l dk show ?thesis by (auto simp: ob_markDelivered_def Let_def)
  qed
  then show ?thesis using inv h d unfolding ox_inv_def by (auto simp: k)
qed

lemma ox_inv_failed:
  assumes inv: "ox_inv (b, hand, dlv)" and it: "it \<in> set hand"
  shows "ox_inv (snd (ob_markFailed err it b), remove1 it hand, dlv)"
proof -
  let ?b = "snd (ob_markFailed err it b)"
  have ok: "ob_ok b" and d: "distinct (ox_keys b hand)" "set (ox_keys b hand) \<subseteq> ob_pending b"
    using inv by (simp_all add: ox_inv_def)
  note h = ox_keys_hand [OF d(1) it] and f = markFailed_ok [OF ok, of err it]
  have kp: "oi_dedupeKey it \<in> ob_pending b" using d(2) it by (auto simp: ox_keys_def)
  show ?thesis
  proof (cases rule: markFailed_cases [OF ok, of it err, case_names dead requeued lost])
    case dead
    then have "ox_keys ?b (remove1 it hand) = ox_keys b (remove1 it hand)" by (simp add: ox_keys_def)
    with dead inv h d f show ?thesis unfolding ox_inv_def by auto
  next
    case (requeued it')
    then have k: "ox_keys ?b (remove1 it hand) = ox_keys b (remove1 it hand) @ [oi_dedupeKey it]" by (simp add: ox_keys_def)
    show ?thesis using requeued(6) inv h d f kp unfolding ox_inv_def by (auto simp: k)
  next
    case lost
    then have "ox_keys ?b (remove1 it hand) = ox_keys b (remove1 it hand)" by (simp add: ox_keys_def)
    with lost inv h d f show ?thesis unfolding ox_inv_def by auto
  qed
qed

lemma ox_reachable_inv: "ox_reachable st \<Longrightarrow> ox_inv st"
proof (induction rule: ox_reachable.induct)
  case (ox_next st st')
  obtain b hand dlv where st: "st = (b, hand, dlv)" by (cases st)
  from ox_next show ?case unfolding st
    by (auto elim!: ox_stepE intro: ox_inv_publish ox_inv_claim ox_inv_delivered ox_inv_failed)
qed (rule ox_inv_init)

text \<open>C14: in every interleaving of publishers and workers, each working on the items it claimed, no signal is delivered
  twice, as long as no more than 50000 are delivered; a key in the queue or in a worker's hands is pending, there
  once only, and refused when published again.\<close>

theorem outbox_at_most_once:
  assumes "ox_reachable (b, hand, dlv)" and "length dlv \<le> 50000"
  shows "distinct dlv \<and> distinct (ox_keys b hand) \<and> set dlv \<inter> set (ox_keys b hand) = {} \<and>
    (ob_key s \<in> set dlv \<union> set (ox_keys b hand) \<longrightarrow>
       ob_publish now s b = (Inl (mkError EC_Duplicate ''already published''), b\<lparr>ob_duplicates := ob_duplicates b + 1\<rparr>))"
proof -
  have "ox_inv (b, hand, dlv)" using ox_reachable_inv [OF assms(1)] .
  then have i: "distinct dlv" "distinct (ox_keys b hand)" "set (ox_keys b hand) \<subseteq> ob_pending b"
      "ob_delivered_keys b = set dlv" "ob_pending b \<inter> set dlv = {}"
    using assms(2) by (simp_all add: ox_inv_def ob_delivered_limit_def)
  then show ?thesis by (auto simp: ob_publish_def Let_def)
qed

theorem outbox_at_most_once_witness:
  "\<exists>b. ox_reachable (b, [], [''p:0'']) \<and>
    distinct [''p:0''] \<and> distinct (ox_keys b []) \<and> set [''p:0''] \<inter> set (ox_keys b []) = {} \<and>
    (ob_key (demo_signal ''p'') \<in> set [''p:0''] \<union> set (ox_keys b []) \<longrightarrow>
       ob_publish 3 (demo_signal ''p'') b =
         (Inl (mkError EC_Duplicate ''already published''), b\<lparr>ob_duplicates := ob_duplicates b + 1\<rparr>))"
proof -
  have r: "ox_reachable (demo_outbox, [], [])"
    unfolding demo_outbox_def by (rule ox_next [OF ox_init ox_publish])
  obtain it b' where c: "ob_claim 2 demo_outbox = (Some it, b')" "oi_dedupeKey it = ''p:0''"
    by (cases rule: claim_cases [OF demo_outbox_items(1), of 2]) (simp_all add: demo_outbox_items(2))
  have "ox_reachable (b', [it], [])" by (rule ox_next [OF r ox_claim [OF c(1)]])
  then have "ox_reachable (snd (ob_markDelivered 3 it b'), remove1 it [it], [oi_dedupeKey it])"
    by (rule ox_next) (rule ox_delivered, simp)
  then have d: "ox_reachable (snd (ob_markDelivered 3 it b'), [], [''p:0''])" by (simp add: c(2))
  have "length [''p:0''] \<le> 50000" by simp
  from outbox_at_most_once [OF d this] d show ?thesis by blast
qed

section \<open>Lease recovery\<close>

text \<open>An item whose lease expires with attempts to spare goes back to the queue, two attempts older.\<close>

lemma lease_expiry_requeues:
  assumes "ob_ok b" "length (ob_items b) < ob_cap b" "oi_attempts it + 2 < OUTBOX_MAX_ATTEMPTS"
  shows "\<exists>it'. ob_items (lf_requeue now (it\<lparr>oi_state := Ob_Pending, oi_attempts := oi_attempts it + 1\<rparr>) b) = ob_items b @ [it'] \<and>
    oi_dedupeKey it' = oi_dedupeKey it \<and> oi_attempts it' = oi_attempts it + 2"
proof -
  let ?it = "it\<lparr>oi_state := Ob_Pending, oi_attempts := oi_attempts it + 1\<rparr>"
  have e: "lf_requeue now ?it b = snd (ob_markFailed ''lease expired -- requeued'' ?it b)"
    using assms(3) by (simp add: lf_requeue_def)
  show ?thesis unfolding e
    by (cases rule: markFailed_cases [OF assms(1), of ?it "''lease expired -- requeued''", case_names dead requeued lost])
      (use assms in auto)
qed

text \<open>An item whose lease expires at its last attempt is recorded as delivered though it never was: its key joins
  the delivered ones, both counters move, and the signal is refused for ever after.\<close>

lemma lease_expiry_counts_as_delivered:
  assumes "OUTBOX_MAX_ATTEMPTS \<le> oi_attempts it" "card (insert (oi_dedupeKey it) (ob_delivered_keys b)) \<le> ob_delivered_limit"
    and "ob_key s = oi_dedupeKey it"
  shows "let b' = lf_requeue now it b in
    oi_dedupeKey it \<in> ob_delivered_keys b' \<and> ob_delivered b' = ob_delivered b + 1 \<and>
    ob_dead_letters b' = ob_dead_letters b + 1 \<and> \<not> Result_ok (fst (ob_publish now' s b'))"
  using assms by (simp add: lf_requeue_def ob_markDelivered_def ob_markFailed_def ob_publish_def Let_def)

text \<open>A requeue that finds the queue full loses the item while its key stays pending.\<close>

lemma full_requeue_loses_item:
  assumes "ob_ok b" "ob_cap b \<le> length (ob_items b)" "oi_attempts it + 1 < OUTBOX_MAX_ATTEMPTS"
    and "oi_dedupeKey it \<in> ob_pending b" "ob_key s = oi_dedupeKey it"
  shows "let b' = snd (ob_markFailed err it b) in
    ob_items b' = ob_items b \<and> \<not> Result_ok (fst (ob_publish now s b'))"
  by (cases rule: markFailed_cases [OF assms(1), of it err, case_names dead requeued lost])
    (use assms in \<open>auto simp: ob_publish_def Let_def\<close>)

end
