(* ===== verification/N1.thy ===== *)
theory N1
  imports Attempts Validation Outbox
begin

text \<open>
  The N+1 trigger: \<open>nextRoundId\<close>, \<open>decisionFromSignal\<close> and \<open>InProcessPredictionClient\<close>
  (\<open>include/prediction_interface/in_process_prediction_client.hpp\<close>), \<open>N1Coordinator\<close>
  (\<open>n1_coordinator.hpp\<close>), the signals of \<open>include/delivery/signal.hpp\<close> and the counters of
  \<open>include/telemetry/metrics.hpp\<close>. The vendored prediction engine is a parameter: its state type, \<open>observe\<close>,
  the test for a cold engine, and \<open>predict\<close>, which may throw (\<open>Inl\<close> of the text the handler builds from the
  exception). The results hold for every engine. The clock readings within one call are one reading.
\<close>

section \<open>Metrics\<close>

datatype Counter =
    Mc_EventsReceived | Mc_EventsDecoded | Mc_EventsRouted | Mc_EventsDropped | Mc_PredictionsSubmitted
  | Mc_PredictionsActionable | Mc_OutcomesWin | Mc_OutcomesLoss | Mc_OutboxPublished | Mc_OutboxDelivered
  | Mc_OutboxFailed | Mc_Reconnects | Mc_COUNT

type_synonym Metrics = "Counter \<Rightarrow> u64"

definition mx_inc :: "Counter \<Rightarrow> u64 \<Rightarrow> Metrics \<Rightarrow> Metrics" where
  "mx_inc c n m = (if c \<noteq> Mc_COUNT then m(c := m c + n) else m)"

definition mx_get :: "Counter \<Rightarrow> Metrics \<Rightarrow> u64" where
  "mx_get c m = (if c \<noteq> Mc_COUNT then m c else 0)"

definition mx_reset :: "Metrics \<Rightarrow> Metrics" where
  "mx_reset m = (\<lambda>c. if c \<noteq> Mc_COUNT then 0 else m c)"

section \<open>Signals\<close>

text \<open>\<open>oss << std::fixed << std::setprecision(2) << x\<close>: the exact value rounded to hundredths.\<close>

definition fixed2 :: "double \<Rightarrow> string" where
  "fixed2 x =
     (case x of
        Fin q \<Rightarrow>
          let n = nat (rne (\<bar>q\<bar> * 100)); d = show_nat (n mod 100)
          in (if q < 0 then ''-'' else []) @ show_nat (n div 100) @ ''.'' @ (if n mod 100 < 10 then ''0'' @ d else d)
      | PInf \<Rightarrow> ''inf'' | NInf \<Rightarrow> ''-inf'' | NaN \<Rightarrow> ''nan'')"

definition signalFromPrediction :: "TimestampMs \<Rightarrow> PredictionEvent \<Rightarrow> Signal" where
  "signalFromPrediction now ev =
     \<lparr>sg_kind = Sig_Prediction, sg_predictionId = pe_predictionId ev, sg_roundId = pe_targetRoundId ev,
      sg_text = (if pe_decision ev = Dec_Enter
                 then ''ENTER '' @ pe_targetRoundId ev @ '' target@'' @ fixed2 (pe_targetMult ev) @ '' conf='' @ fixed2 (pe_confidence ev)
                 else ''SKIP '' @ pe_targetRoundId ev),
      sg_createdAtMs = now, sg_correlationId = pe_correlationId ev, sg_urgent = (pe_decision ev = Dec_Enter)\<rparr>"

definition signalFromOutcome :: "TimestampMs \<Rightarrow> Outcome \<Rightarrow> Signal" where
  "signalFromOutcome now oc =
     \<lparr>sg_kind = Sig_Outcome, sg_predictionId = oc_predictionId oc, sg_roundId = oc_roundId oc,
      sg_text = outcomeName (oc_result oc) @ '' '' @ oc_roundId oc @ '' actual='' @ fixed2 (oc_actualMult oc) @
                '' target='' @ fixed2 (oc_targetMult oc),
      sg_createdAtMs = now, sg_correlationId = [], sg_urgent = False\<rparr>"

section \<open>The id of the next round\<close>

definition is_space :: "char \<Rightarrow> bool" where
  "is_space c \<longleftrightarrow> (of_char c :: nat) = 32 \<or> 9 \<le> (of_char c :: nat) \<and> (of_char c :: nat) \<le> 13"

text \<open>\<open>std::stoull(s, &pos)\<close>: white space, a sign, digits; \<open>None\<close> is either exception. A minus sign negates
  modulo \<open>2^64\<close>.\<close>

definition stoull :: "string \<Rightarrow> (u64 \<times> nat) option" where
  "stoull s =
     (let ws = length (takeWhile is_space s); r = drop ws s;
          neg = (r \<noteq> [] \<and> hd r = CHR ''-''); sign = (if r \<noteq> [] \<and> (hd r = CHR ''-'' \<or> hd r = CHR ''+'') then 1 else 0);
          ds = takeWhile is_digit (drop sign r); v = read_nat ds
      in if ds = [] \<or> v \<ge> 2 ^ 64 then None
         else Some (if neg then - of_nat v else of_nat v, ws + sign + length ds))"

definition nextRoundId :: "string \<Rightarrow> string" where
  "nextRoundId g =
     (case stoull g of
        Some (v, pos) \<Rightarrow> if pos = length g then show_nat (unat (v + 1)) else g @ ''.next''
      | None \<Rightarrow> g @ ''.next'')"

section \<open>The in-process client\<close>

record PredictResult =
  pp_predictionId :: string
  pp_target :: double
  pp_modelName :: string
  pp_probability :: double
  pp_confidence :: double
  pp_modelVersion :: string

definition decisionFromSignal :: "PredictResult \<Rightarrow> double \<Rightarrow> double \<Rightarrow> double \<Rightarrow> PredictionDecision" where
  "decisionFromSignal sig minConf targetMult qualityEdge =
     (if dle (pp_probability sig) (Fin 0) \<and> dle (pp_confidence sig) (Fin 0) then Dec_Skip
      else let targetMult = (if \<not> dless (Fin 1) targetMult \<or> \<not> is_finite targetMult then rnd (13 / 10) else targetMult);
               qualityEdge = (if \<not> dle (Fin 0) qualityEdge \<or> \<not> is_finite qualityEdge then rnd (2 / 100) else qualityEdge);
               fair = ddiv (Fin 1) targetMult; threshold = dadd fair qualityEdge
           in if dle threshold (pp_probability sig) \<and> dle minConf (pp_confidence sig) then Dec_Enter else Dec_Skip)"

record Options =
  op_minConfidence :: double
  op_defaultTarget :: double
  op_qualityEdge :: double
  op_reducedEdge :: double
  op_warmMinSamples :: nat
  op_autoObserveOnSubmit :: bool
  op_strategyMode :: StrategyMode

definition Options_default :: Options where
  "Options_default =
     \<lparr>op_minConfidence = rnd (55 / 100), op_defaultTarget = rnd (13 / 10), op_qualityEdge = rnd (2 / 100),
      op_reducedEdge = rnd (5 / 1000), op_warmMinSamples = 20, op_autoObserveOnSubmit = True,
      op_strategyMode = Md_Quality\<rparr>"

text \<open>What the client uses of the prediction engine.\<close>

record 'e Engine =
  pe_observe :: "double \<Rightarrow> int option \<Rightarrow> 'e \<Rightarrow> 'e"
  pe_is_cold :: "'e \<Rightarrow> bool"
  pe_predict :: "string \<Rightarrow> double \<Rightarrow> 'e \<Rightarrow> (string + PredictResult) \<times> 'e"

record 'e InProcessPredictionClient =
  ip_opt :: Options
  ip_state :: 'e
  ip_history :: RollingHistoryBuffer
  ip_last_observed_round :: string
  ip_last_response :: PredictionResponse
  ip_observed :: u64
  ip_predicted :: u64
  ip_actionable :: u64
  ip_errors :: u64
  ip_edge :: "AdaptiveEdge option"
  ip_has_handler :: bool
  ip_pending :: "string \<rightharpoonup> PredictionResponse"
  ip_submitted :: u64
  ip_tracker :: "LatencyTracker option"

definition InProcessPredictionClient_new :: "Options \<Rightarrow> 'e \<Rightarrow> LatencyTracker option \<Rightarrow> 'e InProcessPredictionClient" where
  "InProcessPredictionClient_new opt e tracker =
     \<lparr>ip_opt = opt, ip_state = e, ip_history = RollingHistoryBuffer_new 256, ip_last_observed_round = [],
      ip_last_response = PredictionResponse_default, ip_observed = 0, ip_predicted = 0, ip_actionable = 0,
      ip_errors = 0, ip_edge = None, ip_has_handler = False, ip_pending = Map.empty, ip_submitted = 0,
      ip_tracker = tracker\<rparr>"

definition ip_observeEnd :: "'e Engine \<Rightarrow> TimestampMs \<Rightarrow> CrashEvent \<Rightarrow> 'e InProcessPredictionClient \<Rightarrow> 'e InProcessPredictionClient" where
  "ip_observeEnd E now ev c =
     (if ev_kind ev \<noteq> Ev_End \<or> \<not> ev_valid ev then c
      else let cp = (if dless (Fin 0) (ev_crashPoint ev) then ev_crashPoint ev else ev_currentMult ev)
           in if \<not> dless (Fin 0) cp \<or> \<not> is_finite cp then c
              else c\<lparr>ip_state := pe_observe E cp (if ev_beganAtMs ev > 0 then Some (ev_beganAtMs ev) else None) (ip_state c),
                     ip_history := rh_pushFromEvent now ev (ip_history c),
                     ip_last_observed_round := (if ev_roundId ev = [] then ev_gameId ev else ev_roundId ev),
                     ip_observed := ip_observed c + 1\<rparr>)"

text \<open>The engine is warmed from the rolling history when it is cold.\<close>

definition ip_warm :: "'e Engine \<Rightarrow> 'e InProcessPredictionClient \<Rightarrow> 'e" where
  "ip_warm E c =
     (if pe_is_cold E (ip_state c)
      then fold (\<lambda>hr e. if dless (Fin 0) (hr_multiplier hr) then pe_observe E (hr_multiplier hr) None e else e)
             (rh_last 256 (ip_history c)) (ip_state c)
      else ip_state c)"

definition ip_strategy :: "'e InProcessPredictionClient \<Rightarrow> StrategyConfig" where
  "ip_strategy c =
     StrategyConfig_default\<lparr>sc_mode := op_strategyMode (ip_opt c), sc_defaultTarget := op_defaultTarget (ip_opt c),
       sc_qualityEdge := (case ip_edge c of Some a \<Rightarrow> ae_edge a | None \<Rightarrow> op_qualityEdge (ip_opt c)),
       sc_reducedEdge := op_reducedEdge (ip_opt c), sc_minConfidence := op_minConfidence (ip_opt c),
       sc_warmMinSamples := op_warmMinSamples (ip_opt c)\<rparr>"

definition ip_input :: "PredictResult \<Rightarrow> 'e InProcessPredictionClient \<Rightarrow> StrategyInput" where
  "ip_input pr c =
     \<lparr>si_probability = pp_probability pr, si_confidence = pp_confidence pr, si_targetMult = op_defaultTarget (ip_opt c),
      si_samplesSeen = unat (ip_observed c), si_modelStale = False, si_entitlementOk = True\<rparr>"

definition ip_decide :: "PredictResult \<Rightarrow> 'e InProcessPredictionClient \<Rightarrow> PredictionDecision" where
  "ip_decide pr c =
     (let d = sr_decision (evaluateStrategy (ip_input pr c) (ip_strategy c))
      in if d = Dec_Enter \<and>
            decisionFromSignal pr (op_minConfidence (ip_opt c)) (op_defaultTarget (ip_opt c)) (sc_qualityEdge (ip_strategy c)) = Dec_Skip
         then Dec_Skip else d)"

definition ip_response :: "TimestampMs \<Rightarrow> NanoTime \<Rightarrow> PredictionRequest \<Rightarrow> string + PredictResult \<Rightarrow> 'e InProcessPredictionClient \<Rightarrow> PredictionResponse" where
  "ip_response now ns req r c =
     (let resp = PredictionResponse_default\<lparr>rs_correlationId := rq_correlationId req, rs_targetRoundId := rq_targetRoundId req,
                   rs_responseTimeMs := now, rs_responseNs := ns, rs_valid := True\<rparr>
      in case r of
           Inr pr \<Rightarrow>
             resp\<lparr>rs_predictionId := (if pp_predictionId pr = [] then ''pe-'' @ rq_correlationId req else pp_predictionId pr),
                  rs_confidence := pp_confidence pr, rs_probability := pp_probability pr, rs_targetMult := pp_target pr,
                  rs_modelVersion := (if pp_modelVersion pr = [] then pp_modelName pr else pp_modelVersion pr),
                  rs_decision := ip_decide pr c\<rparr>
         | Inl what \<Rightarrow>
             resp\<lparr>rs_decision := Dec_Skip, rs_confidence := Fin 0, rs_modelVersion := ''pe-error:'' @ what,
                  rs_predictionId := ''skip-'' @ rq_correlationId req\<rparr>)"

definition ip_submit :: "'e Engine \<Rightarrow> TimestampMs \<Rightarrow> NanoTime \<Rightarrow> NanoTime \<Rightarrow> PredictionRequest \<Rightarrow> 'e InProcessPredictionClient \<Rightarrow>
    unit Result \<times> PredictionResponse list \<times> 'e InProcessPredictionClient" where
  "ip_submit E now t0 t1 req c =
     (let (r, e) = pe_predict E (rq_targetRoundId req) (op_defaultTarget (ip_opt c)) (ip_warm E c);
          resp = ip_response now t0 req r c;
          c = c\<lparr>ip_state := e\<rparr>;
          c = (case r of
                 Inr _ \<Rightarrow> c\<lparr>ip_predicted := ip_predicted c + 1,
                            ip_actionable := (if rs_decision resp = Dec_Enter then ip_actionable c + 1 else ip_actionable c)\<rparr>
               | Inl _ \<Rightarrow> c\<lparr>ip_errors := ip_errors c + 1\<rparr>);
          c = c\<lparr>ip_pending := (ip_pending c)(rq_correlationId req \<mapsto> resp), ip_last_response := resp,
                ip_submitted := ip_submitted c + 1,
                ip_tracker := map_option (lt_record St_Ipc ((t1 - t0) sdiv 1000)) (ip_tracker c)\<rparr>
      in (Inr (), if ip_has_handler c then [resp] else [], c))"

definition ip_pollResponse :: "string \<Rightarrow> 'e InProcessPredictionClient \<Rightarrow> PredictionResponse option \<times> 'e InProcessPredictionClient" where
  "ip_pollResponse i c =
     (case ip_pending c i of None \<Rightarrow> (None, c) | Some r \<Rightarrow> (Some r, c\<lparr>ip_pending := (ip_pending c)(i := None)\<rparr>))"

definition n1_request :: "TimestampMs \<Rightarrow> NanoTime \<Rightarrow> CrashEvent \<Rightarrow> PredictionRequest" where
  "n1_request now ns ev =
     (let target = nextRoundId (if ev_roundId ev = [] then ev_gameId ev else ev_roundId ev)
      in \<lparr>rq_targetRoundId = target, rq_gameId = ev_gameId ev, rq_requestTimeMs = now, rq_requestNs = ns,
          rq_sequence = ev_sequence ev + 1, rq_currentMult = ev_crashPoint ev,
          rq_correlationId = target @ ''-n1-'' @ show_int now\<rparr>)"

definition ip_predictNextAfterEnd :: "'e Engine \<Rightarrow> TimestampMs \<Rightarrow> NanoTime \<Rightarrow> NanoTime \<Rightarrow> CrashEvent \<Rightarrow> 'e InProcessPredictionClient \<Rightarrow>
    PredictionResponse Result \<times> PredictionResponse list \<times> 'e InProcessPredictionClient" where
  "ip_predictNextAfterEnd E now t0 t1 ev c =
     (let c = ip_observeEnd E now ev c; req = n1_request now t0 ev; (r, handled, c) = ip_submit E now t0 t1 req c
      in case r of
           Inl e \<Rightarrow> (Inl e, handled, c)
         | Inr _ \<Rightarrow>
             (case ip_pollResponse (rq_correlationId req) c of
                (None, c) \<Rightarrow> (Inr (ip_last_response c), handled, c)
              | (Some p, c) \<Rightarrow> (Inr p, handled, c)))"

section \<open>The coordinator\<close>

record N1Coordinator =
  n1_n1_attempts :: u64
  n1_actionable :: u64
  n1_skipped :: u64
  n1_registered :: u64
  n1_failures :: u64

record 'e N1State =
  ns_client :: "'e InProcessPredictionClient"
  ns_validator :: LiveValidator
  ns_handoff :: "(Outbox \<times> DurableHandoff) option"
  ns_metrics :: "Metrics option"
  ns_tracker :: "LatencyTracker option"
  ns_coord :: N1Coordinator

definition n1_register :: "TimestampMs \<Rightarrow> NanoTime \<Rightarrow> string list \<Rightarrow> CrashEvent \<Rightarrow> PredictionResponse \<Rightarrow> 'e N1State \<Rightarrow> 'e N1State" where
  "n1_register now ns ks ev resp s =
     (let pev = fromResponse now ns resp (ev_gameId ev) (ev_crashPoint ev);
          (reg, v) = lv_registerPrediction ks pev (ns_validator s);
          s = s\<lparr>ns_validator := v\<rparr>
      in if Result_ok reg then
           s\<lparr>ns_coord := (ns_coord s)\<lparr>n1_registered := n1_registered (ns_coord s) + 1\<rparr>,
             ns_handoff := map_option (\<lambda>h. snd (dh_publishPrediction now (signalFromPrediction now pev) h)) (ns_handoff s)\<rparr>
         else s)"

text \<open>What the coordinator does with the client's answer.\<close>

definition n1_conclude :: "TimestampMs \<Rightarrow> NanoTime \<Rightarrow> NanoTime \<Rightarrow> string list \<Rightarrow> CrashEvent \<Rightarrow> PredictionResponse Result \<Rightarrow> 'e N1State \<Rightarrow>
    PredictionResponse Result \<times> 'e N1State" where
  "n1_conclude now t0 t1 ks ev r s =
     (case r of
        Inl e \<Rightarrow> (Inl e, s\<lparr>ns_coord := (ns_coord s)\<lparr>n1_failures := n1_failures (ns_coord s) + 1\<rparr>\<rparr>)
      | Inr resp \<Rightarrow>
          let s = s\<lparr>ns_coord := (ns_coord s)\<lparr>n1_n1_attempts := n1_n1_attempts (ns_coord s) + 1\<rparr>\<rparr>;
              s = (if isActionable resp then
                     let s = n1_register now t0 ks ev resp s
                     in s\<lparr>ns_coord := (ns_coord s)\<lparr>n1_actionable := n1_actionable (ns_coord s) + 1\<rparr>\<rparr>
                   else s\<lparr>ns_coord := (ns_coord s)\<lparr>n1_skipped := n1_skipped (ns_coord s) + 1\<rparr>\<rparr>);
              s = s\<lparr>ns_metrics := map_option (\<lambda>m. let m = mx_inc Mc_PredictionsSubmitted 1 m
                       in if isActionable resp then mx_inc Mc_PredictionsActionable 1 m else m) (ns_metrics s),
                    ns_tracker := map_option (lt_record St_Prediction ((t1 - t0) sdiv 1000)) (ns_tracker s)\<rparr>
          in (Inr resp, s))"

definition n1_onRoundEnd :: "'e Engine \<Rightarrow> TimestampMs \<Rightarrow> NanoTime \<Rightarrow> NanoTime \<Rightarrow> string list \<Rightarrow> CrashEvent \<Rightarrow> 'e N1State \<Rightarrow>
    PredictionResponse Result \<times> 'e N1State" where
  "n1_onRoundEnd E now t0 t1 ks ev s =
     (if ev_kind ev \<noteq> Ev_End \<or> \<not> ev_valid ev then (Inl (mkError EC_InvalidArgument ''N1 requires valid End event''), s)
      else let (r, handled, c) = ip_predictNextAfterEnd E now t0 t1 ev (ns_client s)
           in n1_conclude now t0 t1 ks ev r (s\<lparr>ns_client := c\<rparr>))"

definition n1_seedHistory :: "'e Engine \<Rightarrow> TimestampMs \<Rightarrow> double list \<Rightarrow> 'e N1State \<Rightarrow> 'e N1State" where
  "n1_seedHistory E now cps s =
     s\<lparr>ns_client := fold (\<lambda>cp c. if dless (Fin 0) cp \<and> is_finite cp
            then ip_observeEnd E now (CrashEvent_default\<lparr>ev_kind := Ev_End, ev_valid := True, ev_crashPoint := cp,
                   ev_gameId := ''seed'', ev_roundId := ''seed''\<rparr>) c else c) cps (ns_client s)\<rparr>"

section \<open>The next round\<close>

lemma show_nat_digits: "c \<in> set (show_nat n) \<Longrightarrow> is_digit c"
  using show_nat_chars [of c n] by (simp add: is_digit_def)

lemma stoull_show_nat:
  assumes "n < 2 ^ 64"
  shows "stoull (show_nat n) = Some (of_nat n, length (show_nat n))"
proof -
  obtain c cs where c: "show_nat n = c # cs" by (cases "show_nat n") auto
  then have d: "48 \<le> (of_char c :: nat)" "(of_char c :: nat) \<le> 57" using show_nat_chars [of c n] by simp_all
  then have sp: "\<not> is_space c" "c \<noteq> CHR ''-''" "c \<noteq> CHR ''+''" by (auto simp: is_space_def)
  have "takeWhile is_digit (c # cs) = c # cs"
    using show_nat_digits [of _ n] unfolding c by (simp add: takeWhile_eq_all_conv)
  moreover have "read_nat (c # cs) = n" using read_show_nat [of n] by (simp add: c)
  ultimately show ?thesis using sp assms unfolding c stoull_def Let_def by simp
qed

lemma next_round_distinct: "nextRoundId g \<noteq> g"
proof
  assume eq: "nextRoundId g = g"
  then obtain v where v: "stoull g = Some (v, length g)" "g = show_nat (unat (v + 1))"
    by (auto simp: nextRoundId_def split: option.splits prod.splits if_splits)
  have "unat (v + 1) < 2 ^ 64" using unsigned_less [of "v + 1"] by simp
  from stoull_show_nat [OF this] v have "v = of_nat (unat (v + 1))" by (metis option.inject prod.inject)
  then show False by simp
qed

text \<open>The next round of a numbered round is the number after it, for every number but the last of 64 bits; and for
  any id at all, the round the next prediction targets is another round than the one that ended.\<close>

theorem next_round_advances:
  assumes "n < 2 ^ 64 - 1"
  shows "nextRoundId (show_nat n) = show_nat (n + 1) \<and> nextRoundId g \<noteq> g"
proof
  have n: "n < 2 ^ 64" using assms by simp
  have "(of_nat n :: u64) + 1 = of_nat (n + 1)" by simp
  moreover have "unat (of_nat (n + 1) :: u64) = n + 1" using assms by (subst unat_of_nat) simp
  ultimately have "unat ((of_nat n :: u64) + 1) = n + 1" by (simp only:)
  then show "nextRoundId (show_nat n) = show_nat (n + 1)"
    using stoull_show_nat [OF n] by (simp add: nextRoundId_def)
qed (rule next_round_distinct)

theorem next_round_advances_witness: "nextRoundId (show_nat 41) = show_nat (41 + 1) \<and> nextRoundId ''x'' \<noteq> ''x''"
  by (rule next_round_advances) simp

section \<open>The entry gate\<close>

lemma decisionFromSignal_enter:
  assumes "decisionFromSignal sig minConf target edge = Dec_Enter" "dless (Fin 1) target" "is_finite target" "dle (Fin 0) edge" "is_finite edge"
  shows "dle (dadd (ddiv (Fin 1) target) edge) (pp_probability sig) \<and> dle minConf (pp_confidence sig)"
  using assms by (auto simp: decisionFromSignal_def Let_def split: if_splits)

lemma ip_decide_enter:
  assumes "ip_decide pr c = Dec_Enter"
  shows "op_warmMinSamples (ip_opt c) \<le> unat (ip_observed c)"
    and "decisionFromSignal pr (op_minConfidence (ip_opt c)) (op_defaultTarget (ip_opt c)) (sc_qualityEdge (ip_strategy c)) = Dec_Enter"
proof -
  have d: "sr_decision (evaluateStrategy (ip_input pr c) (ip_strategy c)) = Dec_Enter"
    using assms by (simp add: ip_decide_def Let_def split: if_splits)
  show "op_warmMinSamples (ip_opt c) \<le> unat (ip_observed c)"
    by (cases rule: strategy_cases [of "ip_input pr c" "ip_strategy c", case_names skip enter])
      (use d in \<open>simp_all add: ip_input_def ip_strategy_def\<close>)
  have "decisionFromSignal pr (op_minConfidence (ip_opt c)) (op_defaultTarget (ip_opt c)) (sc_qualityEdge (ip_strategy c)) \<noteq> Dec_Skip"
    using assms by (auto simp: ip_decide_def Let_def split: if_splits)
  then show "decisionFromSignal pr (op_minConfidence (ip_opt c)) (op_defaultTarget (ip_opt c)) (sc_qualityEdge (ip_strategy c)) = Dec_Enter"
    by (auto simp: decisionFromSignal_def Let_def split: if_splits)
qed

lemma observeEnd_frame [simp]:
  "ip_opt (ip_observeEnd E now ev c) = ip_opt c" "ip_edge (ip_observeEnd E now ev c) = ip_edge c"
  by (simp_all add: ip_observeEnd_def Let_def)

lemma predictNext_response:
  assumes "ip_predictNextAfterEnd E now t0 t1 ev c = (r, handled, c')"
  shows "\<exists>p. r = Inr (ip_response now t0 (n1_request now t0 ev) p (ip_observeEnd E now ev c))"
  using assms
  by (auto simp: ip_predictNextAfterEnd_def ip_submit_def ip_pollResponse_def Let_def case_prod_beta split: prod.splits)

lemma ip_response_fields:
  "rs_targetRoundId (ip_response now ns req r c) = rq_targetRoundId req"
  "rs_correlationId (ip_response now ns req r c) = rq_correlationId req" "rs_valid (ip_response now ns req r c)"
  by (simp_all add: ip_response_def Let_def split: sum.splits)

lemma ip_response_enter:
  "rs_decision (ip_response now ns req r c) = Dec_Enter \<Longrightarrow> \<exists>pr. r = Inr pr \<and> ip_decide pr c = Dec_Enter \<and>
     rs_probability (ip_response now ns req r c) = pp_probability pr \<and> rs_confidence (ip_response now ns req r c) = pp_confidence pr"
  by (cases r) (simp_all add: ip_response_def Let_def)

lemma n1_onRoundEnd_result:
  assumes "ev_kind ev = Ev_End" "ev_valid ev" "n1_onRoundEnd E now t0 t1 ks ev s = (r, s')"
  shows "\<exists>p. r = Inr (ip_response now t0 (n1_request now t0 ev) p (ip_observeEnd E now ev (ns_client s)))"
    and "\<forall>resp. r = Inr resp \<longrightarrow> \<not> isActionable resp \<longrightarrow> ns_validator s' = ns_validator s \<and> ns_handoff s' = ns_handoff s"
proof -
  obtain r1 handled c where p: "ip_predictNextAfterEnd E now t0 t1 ev (ns_client s) = (r1, handled, c)" by (metis prod_cases3)
  from predictNext_response [OF p] obtain q where
    q: "r1 = Inr (ip_response now t0 (n1_request now t0 ev) q (ip_observeEnd E now ev (ns_client s)))" by blast
  let ?resp = "ip_response now t0 (n1_request now t0 ev) q (ip_observeEnd E now ev (ns_client s))"
  show "\<exists>p. r = Inr (ip_response now t0 (n1_request now t0 ev) p (ip_observeEnd E now ev (ns_client s)))"
    using assms p q by (auto simp: n1_onRoundEnd_def n1_conclude_def Let_def)
  show "\<forall>resp. r = Inr resp \<longrightarrow> \<not> isActionable resp \<longrightarrow> ns_validator s' = ns_validator s \<and> ns_handoff s' = ns_handoff s"
    using assms p q by (cases "isActionable ?resp") (auto simp: n1_onRoundEnd_def n1_conclude_def Let_def)
qed

text \<open>C12: whatever the prediction engine answers, the coordinator's answer to the end of a round targets the next
  round and never the ended one; it enters only when the warm-up is over, the probability reaches the fair
  probability of the target plus the quality edge in force, reduced entries included, and the confidence reaches its
  floor; and when the answer is not actionable nothing is registered and nothing handed to the outbox.\<close>

theorem n1_entry_gate:
  assumes "ev_kind ev = Ev_End" "ev_valid ev" and "n1_onRoundEnd E now t0 t1 ks ev s = (r, s')"
    and tgt: "dless (Fin 1) (op_defaultTarget (ip_opt (ns_client s)))" "is_finite (op_defaultTarget (ip_opt (ns_client s)))"
    and edge: "dle (Fin 0) (sc_qualityEdge (ip_strategy (ns_client s)))" "is_finite (sc_qualityEdge (ip_strategy (ns_client s)))"
  shows "\<exists>resp. r = Inr resp \<and> rs_targetRoundId resp = nextRoundId (end_round ev) \<and> rs_targetRoundId resp \<noteq> end_round ev \<and>
    (isActionable resp \<longrightarrow>
       op_warmMinSamples (ip_opt (ns_client s)) \<le> unat (ip_observed (ip_observeEnd E now ev (ns_client s))) \<and>
       dle (dadd (ddiv (Fin 1) (op_defaultTarget (ip_opt (ns_client s)))) (sc_qualityEdge (ip_strategy (ns_client s)))) (rs_probability resp) \<and>
       dle (op_minConfidence (ip_opt (ns_client s))) (rs_confidence resp)) \<and>
    (\<not> isActionable resp \<longrightarrow> ns_validator s' = ns_validator s \<and> ns_handoff s' = ns_handoff s)"
proof -
  let ?c = "ip_observeEnd E now ev (ns_client s)"
  obtain p where p: "r = Inr (ip_response now t0 (n1_request now t0 ev) p ?c)"
    using n1_onRoundEnd_result(1) [OF assms(1-3)] by blast
  let ?resp = "ip_response now t0 (n1_request now t0 ev) p ?c"
  have strat: "sc_qualityEdge (ip_strategy ?c) = sc_qualityEdge (ip_strategy (ns_client s))" by (simp add: ip_strategy_def split: option.splits)
  have t: "rs_targetRoundId ?resp = nextRoundId (end_round ev)"
    by (simp add: ip_response_fields n1_request_def end_round_def Let_def)
  have ne: "nextRoundId (end_round ev) \<noteq> end_round ev" using next_round_distinct by blast
  have gate: "op_warmMinSamples (ip_opt (ns_client s)) \<le> unat (ip_observed ?c) \<and>
       dle (dadd (ddiv (Fin 1) (op_defaultTarget (ip_opt (ns_client s)))) (sc_qualityEdge (ip_strategy (ns_client s)))) (rs_probability ?resp) \<and>
       dle (op_minConfidence (ip_opt (ns_client s))) (rs_confidence ?resp)" if "isActionable ?resp"
  proof -
    from that have "rs_decision ?resp = Dec_Enter" by (simp add: isActionable_def)
    from ip_response_enter [OF this] obtain pr where pr: "ip_decide pr ?c = Dec_Enter"
        "rs_probability ?resp = pp_probability pr" "rs_confidence ?resp = pp_confidence pr" by blast
    note d = ip_decide_enter [OF pr(1), unfolded strat]
    from decisionFromSignal_enter [OF d(2)] tgt edge d(1) pr(2,3) show ?thesis by simp
  qed
  show ?thesis using p t ne gate n1_onRoundEnd_result(2) [OF assms(1-3)] by auto
qed

definition demo_engine :: "nat Engine" where
  "demo_engine =
     \<lparr>pe_observe = (\<lambda>_ _ n. n + 1), pe_is_cold = (\<lambda>n. n = 0),
      pe_predict = (\<lambda>t x n. (Inr \<lparr>pp_predictionId = ''p'', pp_target = x, pp_modelName = ''m'', pp_probability = Fin 1,
                               pp_confidence = Fin 1, pp_modelVersion = []\<rparr>, n))\<rparr>"

definition demo_options :: Options where
  "demo_options =
     \<lparr>op_minConfidence = Fin (1 / 2), op_defaultTarget = Fin 2, op_qualityEdge = Fin (1 / 4), op_reducedEdge = Fin (1 / 8),
      op_warmMinSamples = 1, op_autoObserveOnSubmit = True, op_strategyMode = Md_Quality\<rparr>"

definition demo_n1 :: "nat N1State" where
  "demo_n1 =
     \<lparr>ns_client = InProcessPredictionClient_new demo_options 0 None, ns_validator = demo_validator, ns_handoff = None,
      ns_metrics = None, ns_tracker = None,
      ns_coord = \<lparr>n1_n1_attempts = 0, n1_actionable = 0, n1_skipped = 0, n1_registered = 0, n1_failures = 0\<rparr>\<rparr>"

theorem n1_entry_gate_witness:
  "case n1_onRoundEnd demo_engine 5 1 2 [] demo_end demo_n1 of (r, s') \<Rightarrow>
   \<exists>resp. r = Inr resp \<and> rs_targetRoundId resp = nextRoundId (end_round demo_end) \<and> rs_targetRoundId resp \<noteq> end_round demo_end \<and>
    (isActionable resp \<longrightarrow>
       op_warmMinSamples (ip_opt (ns_client demo_n1)) \<le> unat (ip_observed (ip_observeEnd demo_engine 5 demo_end (ns_client demo_n1))) \<and>
       dle (dadd (ddiv (Fin 1) (op_defaultTarget (ip_opt (ns_client demo_n1)))) (sc_qualityEdge (ip_strategy (ns_client demo_n1)))) (rs_probability resp) \<and>
       dle (op_minConfidence (ip_opt (ns_client demo_n1))) (rs_confidence resp)) \<and>
    (\<not> isActionable resp \<longrightarrow> ns_validator s' = ns_validator demo_n1 \<and> ns_handoff s' = ns_handoff demo_n1)"
proof -
  have o: "op_defaultTarget (ip_opt (ns_client demo_n1)) = Fin 2" "sc_qualityEdge (ip_strategy (ns_client demo_n1)) = Fin (1 / 4)"
    by (simp_all add: demo_n1_def InProcessPredictionClient_new_def demo_options_def ip_strategy_def)
  obtain r s' where r: "n1_onRoundEnd demo_engine 5 1 2 [] demo_end demo_n1 = (r, s')" by (metis prod.exhaust)
  show ?thesis unfolding r prod.case
    by (rule n1_entry_gate [OF _ _ r]) (simp_all add: o, simp_all add: demo_end_def CrashEvent_default_def)
qed

end
