(* ===== verification/Router.thy ===== *)
theory Router
  imports Dedupe Queues Timing "HOL-Library.Signed_Division"
begin

text \<open>
  \<open>EventRouter\<close> of \<open>include/ingestion/event_router.hpp\<close>: the LRU duplicate memory and the
  three single-producer queues. \<open>seen_map_\<close> maps a key to its position in the list
  \<open>seen_order_\<close>; the model keeps its key set and the list, and a splice to the end removes
  the key from the list and appends it.
\<close>

section \<open>State and operations\<close>

record EventRouter =
  er_to_prediction :: "CrashEvent SpscQueue"
  er_to_validation :: "CrashEvent SpscQueue"
  er_to_persistence :: "CrashEvent SpscQueue"
  er_tracker :: "LatencyTracker option"
  er_seen_order :: "string list"
  er_seen_map :: "string set"
  er_routed_pred :: u64
  er_routed_val :: u64
  er_routed_pers :: u64
  er_drops_pred :: u64
  er_drops_val :: u64
  er_duplicates :: u64
  er_rejected :: u64

text \<open>The constructor; \<^const>\<open>None\<close> when a queue capacity is too large to be rounded up.\<close>

definition EventRouter_new :: "u64 \<Rightarrow> LatencyTracker option \<Rightarrow> EventRouter option" where
  "EventRouter_new queue_capacity tracker =
     (case SpscQueue_new CrashEvent_default queue_capacity of
        None \<Rightarrow> None
      | Some q \<Rightarrow> Some \<lparr>er_to_prediction = q, er_to_validation = q, er_to_persistence = q,
          er_tracker = tracker, er_seen_order = [], er_seen_map = {}, er_routed_pred = 0,
          er_routed_val = 0, er_routed_pers = 0, er_drops_pred = 0, er_drops_val = 0,
          er_duplicates = 0, er_rejected = 0\<rparr>)"

definition er_limit :: nat where
  "er_limit = 10000"

text \<open>\<open>while (seen_map_.size() > 10'000)\<close> drop the front of the order.\<close>

fun er_evict :: "string set \<Rightarrow> string list \<Rightarrow> string set \<times> string list" where
  "er_evict seen [] = (seen, [])"
| "er_evict seen (x # xs) =
     (if card seen > er_limit then er_evict (seen - {x}) xs else (seen, x # xs))"

definition er_key :: "CrashEvent \<Rightarrow> string" where
  "er_key ev = ev_gameId ev @ '':'' @ show_nat (EventKind_int (ev_kind ev)) @ '':'' @ show_nat (unat (ev_sequence ev))"

definition er_remember :: "string \<Rightarrow> EventRouter \<Rightarrow> bool \<times> EventRouter" where
  "er_remember key r =
     (if key \<in> er_seen_map r then
        (False, r\<lparr>er_seen_order := remove1 key (er_seen_order r) @ [key],
                  er_duplicates := er_duplicates r + 1\<rparr>)
      else let (seen, order) = er_evict (insert key (er_seen_map r)) (er_seen_order r @ [key])
           in (True, r\<lparr>er_seen_map := seen, er_seen_order := order\<rparr>))"

text \<open>The fan-out of an accepted event; the result is \<open>ok\<close>.\<close>

definition er_fanout :: "CrashEvent \<Rightarrow> EventRouter \<Rightarrow> bool \<times> EventRouter" where
  "er_fanout ev r =
     (if ev_kind ev = Ev_End then
        let (okv, qv) = sq_try_push (er_to_validation r) ev;
            r = r\<lparr>er_to_validation := qv\<rparr>;
            r = (if \<not> okv then r\<lparr>er_drops_val := er_drops_val r + 1\<rparr>
                 else r\<lparr>er_routed_val := er_routed_val r + 1\<rparr>);
            (okp, qp) = sq_try_push (er_to_prediction r) ev;
            r = r\<lparr>er_to_prediction := qp\<rparr>;
            r = (if \<not> okp then r\<lparr>er_drops_pred := er_drops_pred r + 1\<rparr>
                 else r\<lparr>er_routed_pred := er_routed_pred r + 1\<rparr>)
        in (okv \<and> okp,
            r\<lparr>er_to_persistence := snd (sq_try_push (er_to_persistence r) ev),
              er_routed_pers := er_routed_pers r + 1\<rparr>)
      else if ev_kind ev = Ev_Start then
        (True, r\<lparr>er_to_persistence := snd (sq_try_push (er_to_persistence r) ev),
                 er_routed_pers := er_routed_pers r + 1\<rparr>)
      else (True, r))"

definition er_route :: "NanoTime \<Rightarrow> NanoTime \<Rightarrow> CrashEvent \<Rightarrow> EventRouter \<Rightarrow> bool \<times> EventRouter" where
  "er_route t0 t1 ev r =
     (let ev = ev\<lparr>ev_routedAtNs := t0\<rparr>
      in if \<not> ev_valid ev then (True, r\<lparr>er_rejected := er_rejected r + 1\<rparr>)
      else let (fresh, r) = (if ev_gameId ev \<noteq> [] then er_remember (er_key ev) r else (True, r))
      in if \<not> fresh then (True, r)
      else let (ok, r) = er_fanout ev r
      in (ok, r\<lparr>er_tracker := map_option (lt_record St_Queue ((t1 - t0) sdiv 1000)) (er_tracker r)\<rparr>))"

definition er_popPrediction :: "EventRouter \<Rightarrow> CrashEvent option \<times> EventRouter" where
  "er_popPrediction r = (let (e, q) = sq_try_pop (er_to_prediction r) in (e, r\<lparr>er_to_prediction := q\<rparr>))"

definition er_popValidation :: "EventRouter \<Rightarrow> CrashEvent option \<times> EventRouter" where
  "er_popValidation r = (let (e, q) = sq_try_pop (er_to_validation r) in (e, r\<lparr>er_to_validation := q\<rparr>))"

definition er_popPersistence :: "EventRouter \<Rightarrow> CrashEvent option \<times> EventRouter" where
  "er_popPersistence r = (let (e, q) = sq_try_pop (er_to_persistence r) in (e, r\<lparr>er_to_persistence := q\<rparr>))"

record RouterStats =
  es_routedPred :: u64
  es_routedVal :: u64
  es_routedPers :: u64
  es_dropsPred :: u64
  es_dropsVal :: u64
  es_duplicates :: u64
  es_rejected :: u64

definition er_stats :: "EventRouter \<Rightarrow> RouterStats" where
  "er_stats r =
     \<lparr>es_routedPred = er_routed_pred r, es_routedVal = er_routed_val r, es_routedPers = er_routed_pers r,
      es_dropsPred = er_drops_pred r, es_dropsVal = er_drops_val r, es_duplicates = er_duplicates r,
      es_rejected = er_rejected r\<rparr>"

section \<open>The duplicate memory is a least-recently-used window\<close>

definition er_lru :: "EventRouter \<Rightarrow> bool" where
  "er_lru r \<longleftrightarrow> er_seen_map r = set (er_seen_order r) \<and> distinct (er_seen_order r) \<and>
     length (er_seen_order r) \<le> er_limit"

lemma er_evict_eq: "distinct xs \<Longrightarrow> er_evict (set xs) xs = (set (trim er_limit xs), trim er_limit xs)"
proof (induction xs)
  case (Cons x xs)
  then have "set (x # xs) - {x} = set xs" "card (set (x # xs)) = length (x # xs)" by (auto simp: distinct_card)
  with Cons show ?case by (simp add: trim_eq_drop Suc_diff_le)
qed (simp add: trim_eq_drop)

lemma er_remember_fresh:
  assumes "er_lru r" "key \<notin> set (er_seen_order r)"
  shows "er_remember key r =
    (True, r\<lparr>er_seen_map := set (trim er_limit (er_seen_order r @ [key])),
             er_seen_order := trim er_limit (er_seen_order r @ [key])\<rparr>)"
  using assms er_evict_eq [of "er_seen_order r @ [key]"] by (simp add: er_remember_def er_lru_def)

lemma er_remember_seen:
  "er_lru r \<Longrightarrow> key \<in> set (er_seen_order r) \<Longrightarrow>
   er_remember key r = (False, r\<lparr>er_seen_order := remove1 key (er_seen_order r) @ [key],
                                 er_duplicates := er_duplicates r + 1\<rparr>)"
  by (simp add: er_remember_def er_lru_def)

interpretation er: dedupe er_lru er_seen_order "\<lambda>_. er_limit" er_remember
proof
  fix s k
  assume inv: "er_lru s"
  note cases = er_remember_fresh [OF inv, of k] er_remember_seen [OF inv, of k]
  have len: "length (remove1 k (er_seen_order s) @ [k]) = length (er_seen_order s)" if "k \<in> set (er_seen_order s)"
    using that length_pos_if_in_set [OF that] by (simp add: length_remove1)
  show "er_lru (snd (er_remember k s))"
    using inv cases len by (cases "k \<in> set (er_seen_order s)") (auto simp: er_lru_def distinct_trim set_remove1_eq)
  show "length (er_seen_order s) \<le> er_limit" "distinct (er_seen_order s)" using inv by (simp_all add: er_lru_def)
  show "fst (er_remember k s) \<longleftrightarrow> k \<notin> set (er_seen_order s)"
    using cases by (cases "k \<in> set (er_seen_order s)") simp_all
  show "set (er_seen_order (snd (er_remember k s))) = set (er_seen_order s)" if "k \<in> set (er_seen_order s)"
    using that cases inv by (auto simp: er_lru_def set_remove1_eq)
  show "set (er_seen_order (snd (er_remember k s))) = insert k (set (er_seen_order s))"
    if "k \<notin> set (er_seen_order s)" "length (er_seen_order s) < er_limit"
    using that cases by (simp add: trim_id)
  show "k \<in> set (er_seen_order (snd (er_remember k s)))" if "0 < er_limit"
    using cases trim_last_mem [OF that, of k "er_seen_order s"] by (cases "k \<in> set (er_seen_order s)") simp_all
qed simp

section \<open>Invariant and reachable routers\<close>

definition end_event :: "CrashEvent \<Rightarrow> bool" where
  "end_event e \<longleftrightarrow> ev_kind e = Ev_End \<and> ev_valid e"

definition boundary_event :: "CrashEvent \<Rightarrow> bool" where
  "boundary_event e \<longleftrightarrow> (ev_kind e = Ev_End \<or> ev_kind e = Ev_Start) \<and> ev_valid e"

definition er_inv :: "EventRouter \<Rightarrow> bool" where
  "er_inv r \<longleftrightarrow> er_lru r \<and>
     sq_inv (er_to_prediction r) \<and> list_all end_event (sq_list (er_to_prediction r)) \<and>
     sq_inv (er_to_validation r) \<and> list_all end_event (sq_list (er_to_validation r)) \<and>
     sq_inv (er_to_persistence r) \<and> list_all boundary_event (sq_list (er_to_persistence r))"

inductive er_step :: "EventRouter \<Rightarrow> EventRouter \<Rightarrow> bool" where
  step_route: "er_route t0 t1 ev r = (ok, r') \<Longrightarrow> er_step r r'"
| step_popPrediction: "er_popPrediction r = (e, r') \<Longrightarrow> er_step r r'"
| step_popValidation: "er_popValidation r = (e, r') \<Longrightarrow> er_step r r'"
| step_popPersistence: "er_popPersistence r = (e, r') \<Longrightarrow> er_step r r'"

inductive er_reachable :: "EventRouter \<Rightarrow> bool" where
  init: "EventRouter_new cap tracker = Some r \<Longrightarrow> cap \<le> 2 ^ 63 \<Longrightarrow> er_reachable r"
| step: "er_reachable r \<Longrightarrow> er_step r r' \<Longrightarrow> er_reachable r'"

inductive_cases er_stepE: "er_step r r'"

lemma spsc_push_all:
  assumes "sq_inv q" "list_all P (sq_list q)" "P x"
  shows "sq_inv (snd (sq_try_push q x)) \<and> list_all P (sq_list (snd (sq_try_push q x)))"
  using assms(1) by (rule sq.push_cases [where x = x]) (use assms in auto)

lemma spsc_pop_all:
  assumes "sq_inv q" "list_all P (sq_list q)" "sq_try_pop q = (e, q')"
  shows "sq_inv q' \<and> list_all P (sq_list q') \<and> (\<forall>x. e = Some x \<longrightarrow> P x)"
  using assms(1) by (rule sq.pop_cases) (use assms in auto)

lemma er_new_inv: "EventRouter_new cap tracker = Some r \<Longrightarrow> cap \<le> 2 ^ 63 \<Longrightarrow> er_inv r"
  using SpscQueue_new_ok [of cap CrashEvent_default]
  by (auto simp: EventRouter_new_def er_inv_def er_lru_def split: option.splits)

lemma er_remember_frame [frame_simps]:
  "er_to_prediction (snd (er_remember k r)) = er_to_prediction r"
  "er_to_validation (snd (er_remember k r)) = er_to_validation r"
  "er_to_persistence (snd (er_remember k r)) = er_to_persistence r"
  by (simp_all add: er_remember_def Let_def split: prod.splits)

lemma er_fanout_lru [frame_simps]:
  "er_seen_map (snd (er_fanout ev r)) = er_seen_map r" "er_seen_order (snd (er_fanout ev r)) = er_seen_order r"
  by (simp_all add: er_fanout_def Let_def split: prod.splits)

lemma er_inv_fanout:
  assumes "er_inv r" "ev_valid ev"
  shows "er_inv (snd (er_fanout ev r))"
proof (cases "ev_kind ev = Ev_End")
  case True
  then have e: "end_event ev" "boundary_event ev" using assms(2) by (simp_all add: end_event_def boundary_event_def)
  have q: "sq_inv (snd (sq_try_push (er_to_prediction r) ev)) \<and> list_all end_event (sq_list (snd (sq_try_push (er_to_prediction r) ev)))"
    "sq_inv (snd (sq_try_push (er_to_validation r) ev)) \<and> list_all end_event (sq_list (snd (sq_try_push (er_to_validation r) ev)))"
    "sq_inv (snd (sq_try_push (er_to_persistence r) ev)) \<and> list_all boundary_event (sq_list (snd (sq_try_push (er_to_persistence r) ev)))"
    using assms(1) e unfolding er_inv_def by (intro spsc_push_all; blast)+
  have s: "er_to_prediction (snd (er_fanout ev r)) = snd (sq_try_push (er_to_prediction r) ev)"
    "er_to_validation (snd (er_fanout ev r)) = snd (sq_try_push (er_to_validation r) ev)"
    "er_to_persistence (snd (er_fanout ev r)) = snd (sq_try_push (er_to_persistence r) ev)"
    using True by (simp_all add: er_fanout_def Let_def split: prod.splits)
  show ?thesis using assms(1) q unfolding er_inv_def s by (simp add: er_lru_def frame_simps)
next
  case False
  show ?thesis
  proof (cases "ev_kind ev = Ev_Start")
    case True
    then have "boundary_event ev" using assms(2) by (simp add: boundary_event_def)
    with True False assms(1) show ?thesis
      using spsc_push_all [of "er_to_persistence r" boundary_event ev] by (simp add: er_fanout_def er_inv_def er_lru_def)
  next
    case s: False
    with False assms(1) show ?thesis by (simp add: er_fanout_def)
  qed
qed

lemma er_inv_route:
  assumes inv: "er_inv r"
  shows "er_inv (snd (er_route t0 t1 ev r))"
proof (cases "ev_valid ev")
  case False
  then show ?thesis using inv by (simp add: er_route_def Let_def er_inv_def er_lru_def)
next
  case True
  let ?ev = "ev\<lparr>ev_routedAtNs := t0\<rparr>"
  define m where "m = (if ev_gameId ev \<noteq> [] then er_remember (er_key ?ev) r else (True, r))"
  obtain fresh r1 where m: "m = (fresh, r1)" by (cases m)
  obtain ok r2 where f: "er_fanout ?ev r1 = (ok, r2)" by (cases "er_fanout ?ev r1")
  have lru: "er_lru (snd (er_remember (er_key ?ev) r))" using inv by (intro er.inv_offer) (simp add: er_inv_def)
  then have "er_inv (snd m)" using inv by (simp add: m_def er_inv_def frame_simps)
  then have i: "er_inv r1" by (simp add: m)
  have i2: "er_inv r2" using er_inv_fanout [OF i, of ?ev] True f by simp
  have "snd (er_route t0 t1 ev r) =
      (if \<not> fresh then r1 else r2\<lparr>er_tracker := map_option (lt_record St_Queue ((t1 - t0) sdiv 1000)) (er_tracker r2)\<rparr>)"
    using True m f unfolding m_def by (cases fresh; simp add: er_route_def Let_def split del: if_split)
  then show ?thesis using i i2 by (simp add: er_inv_def er_lru_def)
qed

lemma er_inv_step: "er_step r r' \<Longrightarrow> er_inv r \<Longrightarrow> er_inv r'"
proof (erule er_stepE)
  fix t0 t1 ev ok
  show "er_inv r'" if "er_inv r" "er_route t0 t1 ev r = (ok, r')"
    using er_inv_route [OF that(1), of t0 t1 ev] that(2) by simp
next
  fix e
  show "er_inv r'" if "er_inv r" "er_popPrediction r = (e, r')"
    using that by (auto simp: er_popPrediction_def Let_def er_inv_def er_lru_def split: prod.splits dest: spsc_pop_all)
  show "er_inv r'" if "er_inv r" "er_popValidation r = (e, r')"
    using that by (auto simp: er_popValidation_def Let_def er_inv_def er_lru_def split: prod.splits dest: spsc_pop_all)
  show "er_inv r'" if "er_inv r" "er_popPersistence r = (e, r')"
    using that by (auto simp: er_popPersistence_def Let_def er_inv_def er_lru_def split: prod.splits dest: spsc_pop_all)
qed

lemma er_reachable_inv: "er_reachable r \<Longrightarrow> er_inv r"
  by (induction rule: er_reachable.induct) (auto intro: er_new_inv er_inv_step)



text \<open>
  The full effect of routing a completed round: the key of the event decides, then each queue
  takes the event exactly when it has room.
\<close>

definition er_room :: "CrashEvent SpscQueue \<Rightarrow> bool" where
  "er_room q \<longleftrightarrow> length (sq_list q) < unat (sq_cap q) - 1"

lemma spsc_push_effect:
  assumes "sq_inv q"
  shows "fst (sq_try_push q x) = er_room q \<and>
    sq_list (snd (sq_try_push q x)) = sq_list q @ (if er_room q then [x] else [])"
  using assms by (rule sq.push_cases [where x = x]) (simp_all add: er_room_def)

text \<open>Routing a completed round. A new valid End event is appended to each queue that has room, is
  counted as routed or dropped per queue, and the result is true exactly when both the validation
  and the prediction queue took it; a second End event with the same game, kind and sequence number
  changes no queue and is only counted as a duplicate.\<close>

theorem route_end_event:
  assumes "er_reachable r" and ev: "ev_kind ev = Ev_End" "ev_valid ev" "ev_gameId ev \<noteq> []"
  shows "case er_route t0 t1 ev r of (ok, r') \<Rightarrow>
    if er_key ev \<in> set (er_seen_order r)
    then ok \<and> er_to_validation r' = er_to_validation r \<and> er_to_prediction r' = er_to_prediction r \<and>
         er_to_persistence r' = er_to_persistence r \<and> er_duplicates r' = er_duplicates r + 1
    else let ev' = ev\<lparr>ev_routedAtNs := t0\<rparr>; rv = er_room (er_to_validation r); rp = er_room (er_to_prediction r)
         in ok = (rv \<and> rp) \<and>
            sq_list (er_to_validation r') = sq_list (er_to_validation r) @ (if rv then [ev'] else []) \<and>
            sq_list (er_to_prediction r') = sq_list (er_to_prediction r) @ (if rp then [ev'] else []) \<and>
            er_routed_val r' = er_routed_val r + (if rv then 1 else 0) \<and>
            er_drops_val r' = er_drops_val r + (if rv then 0 else 1) \<and>
            er_routed_pred r' = er_routed_pred r + (if rp then 1 else 0) \<and>
            er_drops_pred r' = er_drops_pred r + (if rp then 0 else 1) \<and>
            er_key ev \<in> set (er_seen_order r')"
proof -
  let ?ev = "ev\<lparr>ev_routedAtNs := t0\<rparr>"
  have inv: "er_lru r" "sq_inv (er_to_validation r)" "sq_inv (er_to_prediction r)"
    using er_reachable_inv [OF assms(1)] by (simp_all add: er_inv_def)
  have key: "er_key ?ev = er_key ev" by (simp add: er_key_def)
  show ?thesis
  proof (cases "er_key ev \<in> set (er_seen_order r)")
    case True
    then show ?thesis using er_remember_seen [OF inv(1) True] ev by (simp add: er_route_def Let_def key)
  next
    case False
    let ?r1 = "r\<lparr>er_seen_map := set (trim er_limit (er_seen_order r @ [er_key ev])),
             er_seen_order := trim er_limit (er_seen_order r @ [er_key ev])\<rparr>"
    obtain okv qv where v: "sq_try_push (er_to_validation r) ?ev = (okv, qv)" by (cases "sq_try_push (er_to_validation r) ?ev")
    obtain okp qp where p: "sq_try_push (er_to_prediction r) ?ev = (okp, qp)" by (cases "sq_try_push (er_to_prediction r) ?ev")
    have mem: "er_key ev \<in> set (trim er_limit (er_seen_order r @ [er_key ev]))"
      by (rule trim_last_mem) (simp add: er_limit_def)
    have "okv = er_room (er_to_validation r)" "sq_list qv = sq_list (er_to_validation r) @ (if okv then [?ev] else [])"
      "okp = er_room (er_to_prediction r)" "sq_list qp = sq_list (er_to_prediction r) @ (if okp then [?ev] else [])"
      using spsc_push_effect [OF inv(2), of ?ev] spsc_push_effect [OF inv(3), of ?ev] v p by simp_all
    then show ?thesis using False er_remember_fresh [OF inv(1) False] ev v p mem
      by (cases okv; cases okp) (simp_all add: er_route_def er_fanout_def Let_def key)
  qed
qed

theorem route_end_event_witness:
  "\<exists>r. EventRouter_new 4 None = Some r \<and> er_key (CrashEvent_default\<lparr>ev_kind := Ev_End, ev_valid := True, ev_gameId := ''9''\<rparr>) \<notin> set (er_seen_order r) \<and>
    (case er_route 3 5 (CrashEvent_default\<lparr>ev_kind := Ev_End, ev_valid := True, ev_gameId := ''9''\<rparr>) r of (ok, r') \<Rightarrow>
       er_room (er_to_validation r) \<and> er_room (er_to_prediction r) \<longrightarrow> ok)"
proof -
  let ?ev = "CrashEvent_default\<lparr>ev_kind := Ev_End, ev_valid := True, ev_gameId := ''9''\<rparr>"
  obtain r where r: "EventRouter_new 4 None = Some r" "er_seen_order r = []"
    using SpscQueue_new_ok [of 4 CrashEvent_default] by (auto simp: EventRouter_new_def)
  have "er_reachable r" using r(1) by (rule er_reachable.init) simp
  from route_end_event [OF this, of ?ev 3 5] r show ?thesis
    by (auto simp: Let_def split: prod.splits)
qed

end
