(* ===== verification/Rounds.thy ===== *)
theory Rounds
  imports Types
begin

text \<open>
  The live state of rounds (\<open>include/ingestion/round_state.hpp\<close>) and the statistics of
  completed rounds (\<open>include/ingestion/stats.hpp\<close>). \<open>by_id_[key]\<close> creates a default entry
  even on the paths that then reject the event, as in the code. The loop of \<open>prune\<close> runs
  over the unordered map in an order given as a list of its keys.
\<close>

section \<open>Round state registry\<close>

datatype RoundPhase = Ph_None | Ph_Prepare | Ph_Begin | Ph_Progress | Ph_End

fun RoundPhase_toString :: "RoundPhase \<Rightarrow> string" where
  "RoundPhase_toString Ph_None = ''none''"
| "RoundPhase_toString Ph_Prepare = ''prepare''"
| "RoundPhase_toString Ph_Begin = ''begin''"
| "RoundPhase_toString Ph_Progress = ''progress''"
| "RoundPhase_toString Ph_End = ''end''"

fun phaseFromEventKind :: "EventKind \<Rightarrow> RoundPhase" where
  "phaseFromEventKind Ev_Prepare = Ph_Prepare"
| "phaseFromEventKind Ev_Start = Ph_Begin"
| "phaseFromEventKind Ev_Progress = Ph_Progress"
| "phaseFromEventKind Ev_End = Ph_End"
| "phaseFromEventKind _ = Ph_None"

record LiveRoundState =
  ls_gameId :: string
  ls_phase :: RoundPhase
  ls_multiplier :: double
  ls_finalMult :: double
  ls_beganAtMs :: TimestampMs
  ls_endedAtMs :: TimestampMs
  ls_updatedAtMs :: TimestampMs
  ls_hash :: string
  ls_sequence :: u64
  ls_sealed :: bool

definition LiveRoundState_default :: LiveRoundState where
  "LiveRoundState_default =
     \<lparr>ls_gameId = [], ls_phase = Ph_None, ls_multiplier = Fin 0, ls_finalMult = Fin 0,
      ls_beganAtMs = 0, ls_endedAtMs = 0, ls_updatedAtMs = 0, ls_hash = [], ls_sequence = 0,
      ls_sealed = False\<rparr>"

definition isLive :: "LiveRoundState \<Rightarrow> bool" where
  "isLive st \<longleftrightarrow> ls_phase st = Ph_Begin \<or> ls_phase st = Ph_Progress"

record RoundStateRegistry =
  rg_by_id :: "string \<rightharpoonup> LiveRoundState"
  rg_current_id :: string
  rg_applied :: u64
  rg_ended :: u64

definition RoundStateRegistry_new :: RoundStateRegistry where
  "RoundStateRegistry_new = \<lparr>rg_by_id = Map.empty, rg_current_id = [], rg_applied = 0, rg_ended = 0\<rparr>"

text \<open>One event on the state of its round: \<^const>\<open>None\<close> when the \<open>switch\<close> returns early.\<close>

definition round_step :: "TimestampMs \<Rightarrow> CrashEvent \<Rightarrow> LiveRoundState \<Rightarrow> LiveRoundState option" where
  "round_step now ev st =
     (case ev_kind ev of
        Ev_Prepare \<Rightarrow> Some (st\<lparr>ls_phase := Ph_Prepare, ls_sealed := False, ls_multiplier := Fin 0, ls_finalMult := Fin 0\<rparr>)
      | Ev_Start \<Rightarrow> Some (st\<lparr>ls_phase := Ph_Begin,
          ls_beganAtMs := (if ev_beganAtMs ev \<noteq> 0 then ev_beganAtMs ev else now), ls_sealed := False\<rparr>)
      | Ev_Progress \<Rightarrow>
          (if ls_sealed st then None
           else Some (st\<lparr>ls_phase := Ph_Progress,
             ls_multiplier := (if dless (Fin 0) (ev_currentMult ev) then ev_currentMult ev else ls_multiplier st)\<rparr>))
      | Ev_End \<Rightarrow>
          (let fm = (if dless (Fin 0) (ev_crashPoint ev) then ev_crashPoint ev else ev_currentMult ev)
           in Some (st\<lparr>ls_phase := Ph_End, ls_finalMult := fm, ls_multiplier := fm,
                ls_endedAtMs := (if ev_endedAtMs ev \<noteq> 0 then ev_endedAtMs ev else now),
                ls_hash := (if ev_hash ev \<noteq> [] then ev_hash ev else ls_hash st), ls_sealed := True\<rparr>))
      | _ \<Rightarrow> None)"

text \<open>The round an event is for: a progress event without an id belongs to the current round.\<close>

definition rg_key :: "CrashEvent \<Rightarrow> RoundStateRegistry \<Rightarrow> string option" where
  "rg_key ev g =
     (if \<not> ev_valid ev then None
      else let gid = (if ev_gameId ev \<noteq> [] then ev_gameId ev else ev_roundId ev)
      in if gid = [] \<and> ev_kind ev \<noteq> Ev_Progress then None
      else let key = (if gid = [] \<and> rg_current_id g \<noteq> [] then rg_current_id g else gid)
      in if key = [] then None else Some key)"

definition rg_touch :: "TimestampMs \<Rightarrow> CrashEvent \<Rightarrow> string \<Rightarrow> RoundStateRegistry \<Rightarrow> LiveRoundState" where
  "rg_touch now ev key g =
     (case rg_by_id g key of Some st \<Rightarrow> st | None \<Rightarrow> LiveRoundState_default)
       \<lparr>ls_gameId := key, ls_updatedAtMs := now, ls_sequence := ev_sequence ev\<rparr>"

definition rg_apply :: "TimestampMs \<Rightarrow> CrashEvent \<Rightarrow> RoundStateRegistry \<Rightarrow> LiveRoundState option \<times> RoundStateRegistry" where
  "rg_apply now ev g =
     (case rg_key ev g of
        None \<Rightarrow> (None, g)
      | Some key \<Rightarrow>
          let st = rg_touch now ev key g
          in case round_step now ev st of
               None \<Rightarrow> (None, g\<lparr>rg_by_id := (rg_by_id g)(key \<mapsto> st)\<rparr>)
             | Some st' \<Rightarrow>
                 (Some st',
                  g\<lparr>rg_by_id := (rg_by_id g)(key \<mapsto> st'),
                    rg_current_id := (if ev_kind ev = Ev_Prepare \<or> ev_kind ev = Ev_Start then key else rg_current_id g),
                    rg_ended := (if ev_kind ev = Ev_End then rg_ended g + 1 else rg_ended g),
                    rg_applied := rg_applied g + 1\<rparr>))"

definition rg_get :: "string \<Rightarrow> RoundStateRegistry \<Rightarrow> LiveRoundState option" where
  "rg_get gid g = rg_by_id g gid"

definition rg_current :: "RoundStateRegistry \<Rightarrow> LiveRoundState option" where
  "rg_current g = (if rg_current_id g = [] then None else rg_by_id g (rg_current_id g))"

definition rg_expired :: "TimestampMs \<Rightarrow> TimestampMs \<Rightarrow> LiveRoundState \<Rightarrow> bool" where
  "rg_expired now maxAgeMs st \<longleftrightarrow>
     ls_sealed st \<and> ls_endedAtMs st > 0 \<and> now - ls_endedAtMs st > maxAgeMs"

fun rg_prune :: "TimestampMs \<Rightarrow> TimestampMs \<Rightarrow> string list \<Rightarrow> RoundStateRegistry \<Rightarrow> nat \<times> RoundStateRegistry" where
  "rg_prune now maxAgeMs [] g = (0, g)"
| "rg_prune now maxAgeMs (k # ks) g =
     (case rg_by_id g k of
        Some st \<Rightarrow>
          if rg_expired now maxAgeMs st then
            (let (n, g') = rg_prune now maxAgeMs ks
               (g\<lparr>rg_by_id := (rg_by_id g)(k := None),
                  rg_current_id := (if k = rg_current_id g then [] else rg_current_id g)\<rparr>)
             in (n + 1, g'))
          else rg_prune now maxAgeMs ks g
      | None \<Rightarrow> rg_prune now maxAgeMs ks g)"

section \<open>Registry invariant\<close>

definition ls_ok :: "LiveRoundState \<Rightarrow> bool" where
  "ls_ok st \<longleftrightarrow> (ls_sealed st \<longleftrightarrow> ls_phase st = Ph_End) \<and>
     (ls_sealed st \<longrightarrow> ls_multiplier st = ls_finalMult st)"

definition rg_inv :: "RoundStateRegistry \<Rightarrow> bool" where
  "rg_inv g \<longleftrightarrow>
     (\<forall>k st. rg_by_id g k = Some st \<longrightarrow> ls_ok st \<and> ls_gameId st = k \<and> k \<noteq> []) \<and>
     (rg_current_id g \<noteq> [] \<longrightarrow> rg_current_id g \<in> dom (rg_by_id g))"

lemma ls_ok_default [simp]: "ls_ok LiveRoundState_default"
  by (simp add: ls_ok_def LiveRoundState_default_def)

lemma round_step_ok: "ls_ok st \<Longrightarrow> round_step now ev st = Some st' \<Longrightarrow> ls_ok st' \<and> ls_gameId st' = ls_gameId st"
  by (auto simp: round_step_def ls_ok_def Let_def split: EventKind.splits if_splits)

lemma rg_inv_new: "rg_inv RoundStateRegistry_new"
  by (simp add: rg_inv_def RoundStateRegistry_new_def)

lemma rg_inv_upd:
  assumes "rg_inv g" "ls_ok st" "ls_gameId st = key" "key \<noteq> []"
    and "rg_by_id g' = (rg_by_id g)(key \<mapsto> st)" "rg_current_id g' \<in> {rg_current_id g, key}"
  shows "rg_inv g'"
  using assms by (auto simp: rg_inv_def)

lemma rg_key_nonempty: "rg_key ev g = Some key \<Longrightarrow> key \<noteq> []"
  by (auto simp: rg_key_def Let_def split: if_splits)

lemma rg_touch_ok: "rg_inv g \<Longrightarrow> ls_ok (rg_touch now ev key g) \<and> ls_gameId (rg_touch now ev key g) = key"
  by (auto simp: rg_touch_def rg_inv_def ls_ok_def LiveRoundState_default_def split: option.splits)

lemma rg_inv_apply: "rg_inv g \<Longrightarrow> rg_inv (snd (rg_apply now ev g))"
proof (cases "rg_key ev g")
  case (Some key)
  assume inv: "rg_inv g"
  note t = rg_touch_ok [OF inv, of now ev key] and ne = rg_key_nonempty [OF Some]
  show ?thesis
  proof (cases "round_step now ev (rg_touch now ev key g)")
    case None
    with Some inv t ne show ?thesis
      by (auto simp: rg_apply_def Let_def intro!: rg_inv_upd [of g "rg_touch now ev key g" key])
  next
    case (Some st')
    with \<open>rg_key ev g = Some key\<close> inv t ne round_step_ok [OF _ Some] show ?thesis
      by (auto simp: rg_apply_def Let_def intro!: rg_inv_upd [of g st' key])
  qed
qed (simp add: rg_apply_def)

lemma rg_prune_spec:
  assumes "rg_inv g" "distinct ks"
  shows "let (n, g') = rg_prune now maxAge ks g; dead = {k \<in> set ks. \<exists>st. rg_by_id g k = Some st \<and> rg_expired now maxAge st}
    in rg_inv g' \<and> n = card dead \<and> rg_by_id g' = rg_by_id g |` (- dead) \<and>
       rg_current_id g' = (if rg_current_id g \<in> dead then [] else rg_current_id g) \<and>
       rg_applied g' = rg_applied g \<and> rg_ended g' = rg_ended g"
  using assms
proof (induction ks arbitrary: g)
  case Nil
  then show ?case by (simp add: restrict_map_def)
next
  case (Cons k ks)
  show ?case
  proof (cases "\<exists>st. rg_by_id g k = Some st \<and> rg_expired now maxAge st")
    case False
    then have "rg_prune now maxAge (k # ks) g = rg_prune now maxAge ks g" by (auto split: option.splits)
    moreover have "{j \<in> set (k # ks). \<exists>st. rg_by_id g j = Some st \<and> rg_expired now maxAge st} =
        {j \<in> set ks. \<exists>st. rg_by_id g j = Some st \<and> rg_expired now maxAge st}" using False by auto
    ultimately show ?thesis using Cons by simp
  next
    case True
    let ?g = "g\<lparr>rg_by_id := (rg_by_id g)(k := None), rg_current_id := (if k = rg_current_id g then [] else rg_current_id g)\<rparr>"
    let ?dead = "{j \<in> set ks. \<exists>st. rg_by_id g j = Some st \<and> rg_expired now maxAge st}"
    obtain n g' where r: "rg_prune now maxAge ks ?g = (n, g')" by (cases "rg_prune now maxAge ks ?g")
    have inv: "rg_inv ?g" using Cons.prems(1) by (auto simp: rg_inv_def)
    have k: "k \<noteq> []" "k \<notin> set ks" using True Cons.prems by (auto simp: rg_inv_def)
    have d: "{j \<in> set ks. \<exists>st. rg_by_id ?g j = Some st \<and> rg_expired now maxAge st} = ?dead" using k by auto
    have d2: "{j \<in> set (k # ks). \<exists>st. rg_by_id g j = Some st \<and> rg_expired now maxAge st} = insert k ?dead"
      using True by auto
    have ih: "rg_inv g'" "n = card ?dead" "rg_by_id g' = rg_by_id ?g |` (- ?dead)"
      "rg_current_id g' = (if rg_current_id ?g \<in> ?dead then [] else rg_current_id ?g)"
      "rg_applied g' = rg_applied g" "rg_ended g' = rg_ended g"
      using Cons.IH [OF inv] Cons.prems(2) unfolding r Let_def d by simp_all
    have "rg_prune now maxAge (k # ks) g = (n + 1, g')" using True r by (auto split: option.splits)
    moreover have "card (insert k ?dead) = n + 1" using ih(2) k by simp
    moreover have "rg_by_id g' = rg_by_id g |` (- insert k ?dead)"
      using ih(3) by (auto simp: restrict_map_def fun_eq_iff)
    ultimately show ?thesis using ih k unfolding d2 by (auto simp: Let_def)
  qed
qed


definition demo_registry :: RoundStateRegistry where
  "demo_registry = RoundStateRegistry_new
     \<lparr>rg_by_id := [''7'' \<mapsto> LiveRoundState_default\<lparr>ls_gameId := ''7'', ls_phase := Ph_End, ls_multiplier := Fin 2,
        ls_finalMult := Fin 2, ls_endedAtMs := 50, ls_sealed := True\<rparr>], rg_current_id := ''7''\<rparr>"

lemma demo_registry_inv: "rg_inv demo_registry"
  by (auto simp: demo_registry_def rg_inv_def ls_ok_def RoundStateRegistry_new_def split: if_splits)


text \<open>Pruning, in whatever order the hash map is walked, removes exactly the sealed rounds that ended
  more than \<open>maxAge\<close> ago, returns their number, never touches a live round, and forgets the current
  round only if it was removed, so the current id always names a known round.\<close>

theorem prune_removes_expired:
  assumes "rg_inv g" and "distinct ks" and "set ks = dom (rg_by_id g)"
  shows "let (n, g') = rg_prune now maxAge ks g
    in (\<forall>k st. rg_get k g' = Some st \<longleftrightarrow> rg_get k g = Some st \<and> \<not> rg_expired now maxAge st) \<and>
       n = card {k. \<exists>st. rg_get k g = Some st \<and> rg_expired now maxAge st} \<and>
       rg_inv g' \<and> (\<forall>st. rg_current g = Some st \<longrightarrow> isLive st \<longrightarrow> rg_current g' = Some st)"
proof -
  let ?dead = "{k \<in> set ks. \<exists>st. rg_by_id g k = Some st \<and> rg_expired now maxAge st}"
  obtain n g' where r: "rg_prune now maxAge ks g = (n, g')" by (cases "rg_prune now maxAge ks g")
  have p: "rg_inv g'" "n = card ?dead" "rg_by_id g' = rg_by_id g |` (- ?dead)"
    "rg_current_id g' = (if rg_current_id g \<in> ?dead then [] else rg_current_id g)"
    using rg_prune_spec [OF assms(1,2), of now maxAge] unfolding r Let_def by simp_all
  have d: "?dead = {k. \<exists>st. rg_by_id g k = Some st \<and> rg_expired now maxAge st}" using assms(3) by auto
  have live: "\<not> rg_expired now maxAge st" if "isLive st" "rg_by_id g k = Some st" for st k
    using that assms(1) by (auto simp: rg_expired_def isLive_def rg_inv_def ls_ok_def)
  have "rg_current g' = Some st" if "rg_current g = Some st" "isLive st" for st
  proof -
    have c: "rg_current_id g \<noteq> []" "rg_by_id g (rg_current_id g) = Some st"
      using that(1) by (auto simp: rg_current_def split: if_splits)
    then have "rg_current_id g \<notin> ?dead" using live [OF that(2)] by auto
    with c p(3,4) show ?thesis by (simp add: rg_current_def)
  qed
  moreover have "rg_get k g' = Some st \<longleftrightarrow> rg_get k g = Some st \<and> \<not> rg_expired now maxAge st" for k st
    unfolding rg_get_def p(3) d by (auto simp: restrict_map_def)
  ultimately show ?thesis using p(1,2) unfolding r d by (simp add: rg_get_def)
qed

theorem prune_removes_expired_witness:
  "let (n, g') = rg_prune 1000 100 [''7''] demo_registry
    in (\<forall>k st. rg_get k g' = Some st \<longleftrightarrow> rg_get k demo_registry = Some st \<and> \<not> rg_expired 1000 100 st) \<and>
       n = card {k. \<exists>st. rg_get k demo_registry = Some st \<and> rg_expired 1000 100 st} \<and>
       rg_inv g' \<and> (\<forall>st. rg_current demo_registry = Some st \<longrightarrow> isLive st \<longrightarrow> rg_current g' = Some st)"
  by (rule prune_removes_expired [OF demo_registry_inv]) (simp_all add: demo_registry_def)

section \<open>Statistics of completed rounds\<close>

text \<open>The display label of a range bucket, which no code reads back, is left out.\<close>

record RangeBucket =
  rb_key :: string
  rb_min :: double
  rb_max :: "double option"
  rb_count :: u64
  rb_pct :: double

datatype StreakKind = Streak_None | Streak_Low | Streak_High

record StreakSnapshot =
  ss_currentKind :: StreakKind
  ss_currentCount :: int
  ss_maxLow :: int
  ss_maxHigh :: int
  ss_threshold :: double

record CrashStatsSnapshot =
  sn_count :: u64
  sn_average :: "double option"
  sn_median :: "double option"
  sn_highest :: "double option"
  sn_lowest :: "double option"

definition range_def :: "string \<Rightarrow> double \<Rightarrow> double option \<Rightarrow> RangeBucket" where
  "range_def key lo hi = \<lparr>rb_key = key, rb_min = lo, rb_max = hi, rb_count = 0, rb_pct = Fin 0\<rparr>"

definition defaultRangeDefs :: "RangeBucket list" where
  "defaultRangeDefs =
     [range_def ''1-1.2'' (Fin 1) (Some (rnd (12 / 10))),
      range_def ''1.2-1.5'' (rnd (12 / 10)) (Some (Fin (3 / 2))),
      range_def ''1.5-2'' (Fin (3 / 2)) (Some (Fin 2)),
      range_def ''2-3'' (Fin 2) (Some (Fin 3)),
      range_def ''3-5'' (Fin 3) (Some (Fin 5)),
      range_def ''5-10'' (Fin 5) (Some (Fin 10)),
      range_def ''10-50'' (Fin 10) (Some (Fin 50)),
      range_def ''50+'' (Fin 50) None]"

record CrashStatsAccumulator =
  sa_values :: "double list"
  sa_ranges :: "RangeBucket list"
  sa_streak :: StreakSnapshot
  sa_count :: u64
  sa_sum :: double
  sa_highest :: "double option"
  sa_lowest :: "double option"

definition CrashStatsAccumulator_new :: CrashStatsAccumulator where
  "CrashStatsAccumulator_new =
     \<lparr>sa_values = [], sa_ranges = defaultRangeDefs,
      sa_streak = \<lparr>ss_currentKind = Streak_None, ss_currentCount = 0, ss_maxLow = 0, ss_maxHigh = 0,
                   ss_threshold = HIGH_THRESHOLD\<rparr>,
      sa_count = 0, sa_sum = Fin 0, sa_highest = None, sa_lowest = None\<rparr>"

definition in_range :: "double \<Rightarrow> RangeBucket \<Rightarrow> bool" where
  "in_range m b \<longleftrightarrow> dle (rb_min b) m \<and> (case rb_max b of None \<Rightarrow> True | Some hi \<Rightarrow> dless m hi)"

fun bump_range :: "double \<Rightarrow> RangeBucket list \<Rightarrow> RangeBucket list" where
  "bump_range m [] = []"
| "bump_range m (b # bs) =
     (if in_range m b then b\<lparr>rb_count := rb_count b + 1\<rparr> # bs else b # bump_range m bs)"

definition bump_streak :: "double \<Rightarrow> StreakSnapshot \<Rightarrow> StreakSnapshot" where
  "bump_streak m s =
     (if dless m HIGH_THRESHOLD then
        let c = (if ss_currentKind s = Streak_Low then ss_currentCount s + 1 else 1)
        in s\<lparr>ss_currentKind := Streak_Low, ss_currentCount := c, ss_maxLow := max (ss_maxLow s) c\<rparr>
      else
        let c = (if ss_currentKind s = Streak_High then ss_currentCount s + 1 else 1)
        in s\<lparr>ss_currentKind := Streak_High, ss_currentCount := c, ss_maxHigh := max (ss_maxHigh s) c\<rparr>)"

definition addRound :: "double \<Rightarrow> CrashStatsAccumulator \<Rightarrow> CrashStatsAccumulator" where
  "addRound m a =
     a\<lparr>sa_values := sa_values a @ [m], sa_count := sa_count a + 1, sa_sum := dadd (sa_sum a) m,
       sa_highest := (case sa_highest a of None \<Rightarrow> Some m | Some h \<Rightarrow> if dless h m then Some m else Some h),
       sa_lowest := (case sa_lowest a of None \<Rightarrow> Some m | Some l \<Rightarrow> if dless m l then Some m else Some l),
       sa_ranges := bump_range m (sa_ranges a), sa_streak := bump_streak m (sa_streak a)\<rparr>"

fun dinsort :: "double \<Rightarrow> double list \<Rightarrow> double list" where
  "dinsort x [] = [x]"
| "dinsort x (y # ys) = (if dless y x then y # dinsort x ys else x # y # ys)"

definition dsort :: "double list \<Rightarrow> double list" where
  "dsort xs = foldr dinsort xs []"

definition sa_snapshot :: "CrashStatsAccumulator \<Rightarrow> CrashStatsSnapshot" where
  "sa_snapshot a =
     (if sa_count a > 0 then
        \<lparr>sn_count = sa_count a,
         sn_average = Some (ddiv (sa_sum a) (of_integer (uint (sa_count a)))),
         sn_median = Some (dsort (sa_values a) ! (length (sa_values a) div 2)),
         sn_highest = sa_highest a, sn_lowest = sa_lowest a\<rparr>
      else \<lparr>sn_count = sa_count a, sn_average = None, sn_median = None, sn_highest = None, sn_lowest = None\<rparr>)"

definition sa_get_ranges :: "CrashStatsAccumulator \<Rightarrow> RangeBucket list" where
  "sa_get_ranges a =
     map (\<lambda>b. b\<lparr>rb_pct := (if sa_count a \<noteq> 0
       then ddiv (dmul (Fin 100) (of_integer (uint (rb_count b)))) (of_integer (uint (sa_count a)))
       else Fin 0)\<rparr>) (sa_ranges a)"

text \<open>The range buckets partition the multipliers from 1.00 up.\<close>

fun chained :: "double \<Rightarrow> RangeBucket list \<Rightarrow> bool" where
  "chained lo [] = False"
| "chained lo (b # bs) = (rb_min b = lo \<and> (case rb_max b of None \<Rightarrow> True | Some hi \<Rightarrow> hi \<noteq> NaN \<and> chained hi bs))"

lemma chained_default: "chained (Fin 1) defaultRangeDefs"
  by (simp add: defaultRangeDefs_def range_def_def)

lemma chained_bump: "chained lo bs \<Longrightarrow> chained lo (bump_range m bs)"
  by (induction m bs arbitrary: lo rule: bump_range.induct) (auto split: option.splits)

definition range_total :: "RangeBucket list \<Rightarrow> u64" where
  "range_total bs = sum_list (map rb_count bs)"

lemma bump_total: "chained lo bs \<Longrightarrow> dle lo m \<Longrightarrow> range_total (bump_range m bs) = range_total bs + 1"
proof (induction m bs arbitrary: lo rule: bump_range.induct)
  case (2 m b bs)
  show ?case
  proof (cases "in_range m b")
    case True
    then show ?thesis by (simp add: range_total_def)
  next
    case False
    then obtain hi where hi: "rb_max b = Some hi" "\<not> dless m hi" "hi \<noteq> NaN" "chained hi bs"
      using "2.prems" by (auto simp: in_range_def split: option.splits)
    moreover have "m \<noteq> NaN" using "2.prems"(2) by (cases m) auto
    ultimately have "dle hi m" using not_dless by blast
    with "2.IH" [OF False hi(4)] False show ?thesis by (simp add: range_total_def)
  qed
qed simp

lemma range_total_default: "range_total defaultRangeDefs = 0"
  by (simp add: range_total_def defaultRangeDefs_def range_def_def)

text \<open>The streak of a history: the kind of its last round and the length of its last run.\<close>

definition streak_kind :: "double \<Rightarrow> StreakKind" where
  "streak_kind m = (if dless m HIGH_THRESHOLD then Streak_Low else Streak_High)"

definition run_len :: "double list \<Rightarrow> nat" where
  "run_len xs = length (takeWhile (\<lambda>x. streak_kind x = streak_kind (last xs)) (rev xs))"

lemma run_len_snoc:
  "xs \<noteq> [] \<Longrightarrow> run_len (xs @ [x]) = (if streak_kind x = streak_kind (last xs) then run_len xs + 1 else 1)"
proof -
  assume "xs \<noteq> []"
  then obtain ys y where xs: "xs = ys @ [y]" by (metis rev_exhaust)
  show ?thesis by (auto simp: run_len_def xs)
qed

definition sa_add_all :: "double list \<Rightarrow> CrashStatsAccumulator" where
  "sa_add_all xs = fold addRound xs CrashStatsAccumulator_new"

lemma sa_add_all_snoc: "sa_add_all (xs @ [x]) = addRound x (sa_add_all xs)"
  by (simp add: sa_add_all_def)

definition streak_of :: "double list \<Rightarrow> StreakKind \<times> nat" where
  "streak_of xs = (if xs = [] then (Streak_None, 0) else (streak_kind (last xs), run_len xs))"

lemma sa_streak_run:
  "ss_currentKind (sa_streak (sa_add_all xs)) = fst (streak_of xs) \<and>
   ss_currentCount (sa_streak (sa_add_all xs)) = int (snd (streak_of xs))"
proof (induction xs rule: rev_induct)
  case Nil
  then show ?case by (simp add: sa_add_all_def CrashStatsAccumulator_new_def streak_of_def)
next
  case (snoc x xs)
  have "run_len [x] = 1" by (simp add: run_len_def)
  with snoc run_len_snoc [of xs x] show ?case unfolding sa_add_all_snoc
    by (cases "xs = []") (auto simp: addRound_def bump_streak_def Let_def streak_of_def streak_kind_def)
qed

lemma sa_counts:
  assumes "\<forall>x\<in>set xs. dle (Fin 1) x"
  shows "sa_values (sa_add_all xs) = xs \<and> sa_count (sa_add_all xs) = of_nat (length xs) \<and>
    chained (Fin 1) (sa_ranges (sa_add_all xs)) \<and> range_total (sa_ranges (sa_add_all xs)) = of_nat (length xs)"
  using assms
proof (induction xs rule: rev_induct)
  case Nil
  then show ?case using chained_default range_total_default
    by (simp add: sa_add_all_def CrashStatsAccumulator_new_def)
next
  case (snoc x xs)
  then have ih: "sa_values (sa_add_all xs) = xs" "sa_count (sa_add_all xs) = of_nat (length xs)"
    "chained (Fin 1) (sa_ranges (sa_add_all xs))" "range_total (sa_ranges (sa_add_all xs)) = of_nat (length xs)"
    "dle (Fin 1) x" by simp_all
  show ?case unfolding sa_add_all_snoc using ih chained_bump [OF ih(3), of x] bump_total [OF ih(3,5)]
    by (simp add: addRound_def)
qed

lemma sa_extremes:
  assumes "xs \<noteq> []" "NaN \<notin> set xs"
  shows "\<exists>h l. sa_highest (sa_add_all xs) = Some h \<and> sa_lowest (sa_add_all xs) = Some l \<and>
    h \<in> set xs \<and> l \<in> set xs \<and> (\<forall>x\<in>set xs. dle l x \<and> dle x h)"
  using assms
proof (induction xs rule: rev_induct)
  case (snoc x xs)
  show ?case
  proof (cases "xs = []")
    case True
    have x: "dle x x" using snoc.prems by (intro dle_refl) auto
    show ?thesis unfolding sa_add_all_snoc using True x
      by (simp add: addRound_def sa_add_all_def CrashStatsAccumulator_new_def)
  next
    case False
    then obtain h l where h: "sa_highest (sa_add_all xs) = Some h" "sa_lowest (sa_add_all xs) = Some l"
      "h \<in> set xs" "l \<in> set xs" "\<forall>y\<in>set xs. dle l y \<and> dle y h"
      using snoc by auto
    have n: "x \<noteq> NaN" "h \<noteq> NaN" "l \<noteq> NaN" using snoc.prems(2) h(3,4) by auto
    have xx: "dle x x" using n by (intro dle_refl)
    have hi: "\<forall>y\<in>set xs. dle y x" if "dless h x"
      using h(5) dle_trans dless_imp_dle [OF that] by blast
    have lo: "\<forall>y\<in>set xs. dle x y" if "dless x l"
      using h(5) dle_trans dless_imp_dle [OF that] by blast
    have "dle x h" if "\<not> dless h x" using that n by (simp add: not_dless)
    moreover have "dle l x" if "\<not> dless x l" using that n by (simp add: not_dless)
    ultimately show ?thesis unfolding sa_add_all_snoc using h hi lo xx
      by (cases "dless h x"; cases "dless x l") (simp_all add: addRound_def)
  qed
qed simp

text \<open>The statistics of any history of crash points (each at least 1.00) are right: the count, the
  extremes, the buckets, which hold every round exactly once, and the current streak, which is the length
  of the last maximal run of rounds on the same side of the threshold.\<close>

theorem stats_correct:
  assumes "\<forall>x\<in>set xs. dle (Fin 1) x" and "xs \<noteq> []"
  shows "let a = sa_add_all xs
    in sn_count (sa_snapshot a) = of_nat (length xs) \<and>
       sum_list (map rb_count (sa_ranges a)) = of_nat (length xs) \<and>
       (\<exists>h l. sa_highest a = Some h \<and> sa_lowest a = Some l \<and> h \<in> set xs \<and> l \<in> set xs \<and>
          (\<forall>x\<in>set xs. dle l x \<and> dle x h)) \<and>
       ss_currentKind (sa_streak a) = streak_kind (last xs) \<and>
       ss_currentCount (sa_streak a) = int (run_len xs)"
proof -
  have "NaN \<notin> set xs" using assms(1) by auto
  then show ?thesis using sa_counts [OF assms(1)] sa_extremes [OF assms(2)] sa_streak_run [of xs] assms(2)
    by (auto simp: Let_def sa_snapshot_def range_total_def streak_of_def)
qed

theorem stats_correct_witness:
  "let xs = [Fin 1, Fin 3, Fin (5 / 2)]; a = sa_add_all xs
    in sn_count (sa_snapshot a) = of_nat (length xs) \<and>
       sum_list (map rb_count (sa_ranges a)) = of_nat (length xs) \<and>
       (\<exists>h l. sa_highest a = Some h \<and> sa_lowest a = Some l \<and> h \<in> set xs \<and> l \<in> set xs \<and>
          (\<forall>x\<in>set xs. dle l x \<and> dle x h)) \<and>
       ss_currentKind (sa_streak a) = streak_kind (last xs) \<and>
       ss_currentCount (sa_streak a) = int (run_len xs)"
  using stats_correct [of "[Fin 1, Fin 3, Fin (5 / 2)]"] unfolding Let_def by simp

end
