(* ===== verification/Decoder.thy ===== *)
theory Decoder
  imports Frames
begin

text \<open>
  \<open>EventDecoder\<close> of \<open>include/ingestion/event_decoder.hpp\<close>: frames to crash events.
  The clock readings of one call are arguments: \<open>t0\<close> and \<open>t1\<close> for the two
  \<open>steadyNs()\<close> readings, \<open>now\<close> for \<open>nowMs()\<close>. The optional latency tracker the
  decoder points to is a component of its state.
\<close>

record EventDecoder =
  de_tracker :: "LatencyTracker option"
  de_decoded :: u64
  de_invalid :: u64

definition lower_ascii :: "char \<Rightarrow> char" where
  "lower_ascii c =
     (if 65 \<le> (of_char c :: nat) \<and> (of_char c :: nat) \<le> 90 then char_of ((of_char c :: nat) + 32) else c)"

definition mapEventName :: "string \<Rightarrow> EventKind" where
  "mapEventName event =
     (let key = map lower_ascii event
      in if key = ''pg'' \<or> key = ''pr'' then (if key = ''pg'' then Ev_Progress else Ev_Prepare)
      else if key = ''prepare'' \<or> key = ''ready'' then Ev_Prepare
      else if key = ''bg'' \<or> key = ''begin'' \<or> key = ''start'' then Ev_Start
      else if key = ''ed'' \<or> key = ''st'' \<or> key = ''end'' \<or> key = ''crash'' \<or> key = ''bust'' then Ev_End
      else if key = ''ping'' \<or> key = ''pong'' then Ev_Heartbeat
      else Ev_Unknown)"

text \<open>The fields the payload of a non-progress event sets, one assignment per \<open>if\<close>.\<close>

definition apply_payload :: "(double \<Rightarrow> double) \<Rightarrow> CrashPayload \<Rightarrow> CrashEvent \<Rightarrow> CrashEvent" where
  "apply_payload libm_exp p ev =
     (let ev = (case cp_gameId p of Some g \<Rightarrow> ev\<lparr>ev_gameId := g, ev_roundId := g\<rparr> | None \<Rightarrow> ev);
          ev = (case cp_multiplier p of
                  Some m \<Rightarrow> if ev_kind ev = Ev_End then ev\<lparr>ev_crashPoint := m\<rparr> else ev\<lparr>ev_currentMult := m\<rparr>
                | None \<Rightarrow> ev);
          ev = (case cp_hash p of Some h \<Rightarrow> ev\<lparr>ev_hash := h\<rparr> | None \<Rightarrow> ev);
          ev = (case cp_beginTime p of Some b \<Rightarrow> ev\<lparr>ev_beganAtMs := b\<rparr> | None \<Rightarrow> ev);
          ev = (case cp_endTime p of Some e \<Rightarrow> ev\<lparr>ev_endedAtMs := e\<rparr> | None \<Rightarrow> ev);
          ev = (case cp_elapsedMs p of
                  Some e \<Rightarrow> ev\<lparr>ev_elapsedMs := e, ev_currentMult := multiplierFromElapsed libm_exp e\<rparr>
                | None \<Rightarrow> ev)
      in ev\<lparr>ev_valid := (ev_gameId ev \<noteq> [] \<or> ev_kind ev = Ev_Progress)\<rparr>)"

definition decodeEventPacket ::
  "(double \<Rightarrow> double) \<Rightarrow> NanoTime \<Rightarrow> TimestampMs \<Rightarrow> SocketIoPacket \<Rightarrow> EventSource \<Rightarrow> NanoTime \<Rightarrow>
   EventDecoder \<Rightarrow> CrashEvent Result \<times> EventDecoder" where
  "decodeEventPacket libm_exp t1 now pkt source receivedNs d =
     (let ev = CrashEvent_default\<lparr>ev_source := source, ev_receivedAtNs := receivedNs,
                 ev_rawEventName := pk_event pkt, ev_kind := mapEventName (pk_event pkt)\<rparr>
      in if ev_kind ev = Ev_Unknown then
           (Inl (mkError EC_ParseError (''unknown event name: '' @ pk_event pkt)), d)
      else let ev =
             (if pk_payload pkt \<noteq> [] then
                if ev_kind ev = Ev_Progress then
                  (case decodeProgressElapsed (pk_payload pkt) of
                     Some elapsed \<Rightarrow> ev\<lparr>ev_elapsedMs := elapsed,
                       ev_currentMult := multiplierFromElapsed libm_exp elapsed, ev_valid := True\<rparr>
                   | None \<Rightarrow> ev)
                else apply_payload libm_exp
                       (fieldsToPayload libm_exp now (pk_event pkt) (decodeProtobuf (pk_payload pkt))) ev
              else ev\<lparr>ev_valid := (ev_kind ev = Ev_Connect \<or> ev_kind ev = Ev_Heartbeat)\<rparr>);
           ev = ev\<lparr>ev_decodedAtNs := t1, ev_eventTimeMs := now\<rparr>;
           d = d\<lparr>de_tracker := map_option (lt_record St_Parse ((t1 - receivedNs) sdiv 1000)) (de_tracker d),
                 de_decoded := de_decoded d + 1,
                 de_invalid := (if \<not> ev_valid ev then de_invalid d + 1 else de_invalid d)\<rparr>
      in (Inr ev, d))"

definition decodeBinary ::
  "(double \<Rightarrow> double) \<Rightarrow> NanoTime \<Rightarrow> NanoTime \<Rightarrow> TimestampMs \<Rightarrow> bytes \<Rightarrow> EventSource \<Rightarrow>
   EventDecoder \<Rightarrow> CrashEvent Result \<times> EventDecoder" where
  "decodeBinary libm_exp t0 t1 now data source d =
     (if data = [] then (Inl (mkError EC_ParseError ''empty frame''), d)
      else if isPing data then
        (Inr (CrashEvent_default\<lparr>ev_kind := Ev_Heartbeat, ev_source := source, ev_receivedAtNs := t0,
                ev_decodedAtNs := t1, ev_valid := True, ev_rawEventName := ''ping''\<rparr>), d)
      else if isPong data \<or> isOpenFrame data \<or> isClose data then
        (Inl (mkError EC_ParseError ''control frame not an event''), d)
      else if data ! 0 = 0x04 then
        (let pkt = parsePacket data
         in if pk_kind pkt \<noteq> Pk_Event then
              (if pk_kind pkt = Pk_Connect then
                 (Inr (CrashEvent_default\<lparr>ev_kind := Ev_Connect, ev_source := source, ev_receivedAtNs := t0,
                         ev_decodedAtNs := t1, ev_valid := True, ev_rawEventName := ''connect''\<rparr>), d)
               else (Inl (mkError EC_ParseError ''non-event packet''), d))
            else decodeEventPacket libm_exp t1 now pkt source t0 d)
      else if isMessage data \<and> length data > 1 then
        (Inl (mkError EC_ParseError ''text message path not used on hot path''), d)
      else (Inl (mkError EC_ParseError ''unrecognised frame''), d))"

section \<open>Behaviour\<close>

lemma decode_encoded_event:
  assumes "length nsp < 256" "length event < 256"
  shows "decodeBinary libm_exp t0 t1 now (encodeEvent nsp event payload) source d =
    decodeEventPacket libm_exp t1 now
      (SocketIoPacket_default\<lparr>pk_kind := Pk_Event, pk_nsp := nsp, pk_event := event, pk_payload := payload\<rparr>)
      source t0 d"
proof -
  let ?bs = "encodeEvent nsp event payload"
  have c: "?bs = 0x04 # tl ?bs" by (simp add: encodeEvent_def)
  note nc = binary_not_control [OF c]
  have "?bs \<noteq> []" "?bs ! 0 = 0x04" by (subst c, simp)+
  then show ?thesis using nc parse_encodeEvent [OF assms, of payload]
    by (simp add: decodeBinary_def Let_def)
qed

text \<open>A decoded event is what the counters say: every \<open>Inr\<close> of the packet path counts once.\<close>

lemma decodeEventPacket_count:
  "decodeEventPacket libm_exp t1 now pkt source t0 d = (r, d') \<Longrightarrow>
   de_decoded d' = de_decoded d + (if Result_ok r then 1 else 0) \<and>
   de_invalid d' = de_invalid d + (case r of Inr ev \<Rightarrow> if ev_valid ev then 0 else 1 | Inl _ \<Rightarrow> 0)"
  by (auto simp: decodeEventPacket_def Let_def split: if_splits option.splits)

lemma apply_payload_frame [frame_simps]:
  "ev_kind (apply_payload e p ev) = ev_kind ev" "ev_source (apply_payload e p ev) = ev_source ev"
  "ev_receivedAtNs (apply_payload e p ev) = ev_receivedAtNs ev"
  "ev_rawEventName (apply_payload e p ev) = ev_rawEventName ev"
  by (auto simp: apply_payload_def Let_def split: option.splits)

text \<open>An end-of-round frame is decoded to the crash event it stands for: an \<open>ed\<close> packet whose
  payload encodes game \<open>gid\<close> and a two-decimal crash point is accepted as a valid End event with
  that game id and exactly that crash point, and is counted as decoded and not as invalid.\<close>

theorem decode_end_frame:
  assumes "length nsp < 256" and "0 \<le> k" "k \<le> 2 ^ 40" and "unat gid < 2 ^ 56"
    and "encodeEndPayload gid (rnd (of_int k / 100)) [] = Some payload" and "length payload < 2 ^ 63"
  shows "\<exists>ev d'. decodeBinary libm_exp t0 t1 now (encodeEvent nsp ''ed'' payload) source d = (Inr ev, d') \<and>
    ev_kind ev = Ev_End \<and> ev_valid ev \<and> ev_gameId ev = show_nat (unat gid) \<and>
    ev_roundId ev = show_nat (unat gid) \<and> ev_crashPoint ev = rnd (of_int k / 100) \<and>
    ev_endedAtMs ev = now \<and> ev_eventTimeMs ev = now \<and> ev_receivedAtNs ev = t0 \<and>
    de_decoded d' = de_decoded d + 1 \<and> de_invalid d' = de_invalid d"
proof -
  have p: "fieldsToPayload libm_exp now ''ed'' (decodeProtobuf payload) =
      CrashPayload_default\<lparr>cp_gameId := Some (show_nat (unat gid)),
        cp_multiplier := Some (rnd (of_int k / 100)), cp_endTime := Some now\<rparr>"
    using end_payload_decode [OF assms(2,3,4), of "[]" payload] assms(5,6) by (simp add: CrashPayload_default_def)
  have ne: "payload \<noteq> []"
    using assms(5) writeVarint_nonempty by (auto simp: encodeEndPayload_def encodeProtobuf_def split: option.splits)
  have k: "mapEventName ''ed'' = Ev_End" by (simp add: mapEventName_def lower_ascii_def Let_def)
  show ?thesis
    using decode_encoded_event [OF assms(1), of "''ed''"] ne p k
    by (simp add: decodeEventPacket_def Let_def apply_payload_def CrashPayload_default_def
        CrashEvent_default_def show_nat_nonempty)
qed

theorem decode_end_frame_witness:
  "\<exists>ev d'. decodeBinary (\<lambda>x. x) 0 1 99 (encodeEvent ''/g/cm'' ''ed'' [8, 7, 0x30, 0xFA, 1]) Src_NativeSocket
      \<lparr>de_tracker = None, de_decoded = 0, de_invalid = 0\<rparr> = (Inr ev, d') \<and>
    ev_kind ev = Ev_End \<and> ev_valid ev \<and> ev_gameId ev = show_nat (unat (7 :: u64)) \<and>
    ev_roundId ev = show_nat (unat (7 :: u64)) \<and> ev_crashPoint ev = rnd (of_int 250 / 100) \<and>
    ev_endedAtMs ev = 99 \<and> ev_eventTimeMs ev = 99 \<and> ev_receivedAtNs ev = 0 \<and>
    de_decoded d' = de_decoded \<lparr>de_tracker = None, de_decoded = 0, de_invalid = 0\<rparr> + 1 \<and>
    de_invalid d' = de_invalid \<lparr>de_tracker = None, de_decoded = 0, de_invalid = 0\<rparr>"
proof (rule decode_end_frame)
  have "encodeProtobuf [(1, PNum 7), (6, PNum 250)] = [8, 7, 0x30, 0xFA, 1]"
    by (simp add: encodeProtobuf_def wire_tag_def writeVarint.simps push_bit_eq_mult)
  then show "encodeEndPayload 7 (rnd (of_int 250 / 100)) [] = Some [8, 7, 0x30, 0xFA, 1]"
    using hundredths_exact [of 250] by (simp add: encodeEndPayload_def)
qed simp_all

lemma apply_payload_valid:
  "ev_valid (apply_payload ex p ev) \<longleftrightarrow> ev_gameId (apply_payload ex p ev) \<noteq> [] \<or> ev_kind ev = Ev_Progress"
  by (simp add: apply_payload_def Let_def split: option.splits)

text \<open>Whatever the bytes, the decoder produces an End event (the boundary that settles a
  round and triggers the next prediction) only from a well-formed event packet whose name is one
  of the five end names, in any letter case, and such an event is valid only with a game id.\<close>

theorem decode_end_only_for_end_names:
  assumes "decodeBinary libm_exp t0 t1 now data source d = (Inr ev, d')" and "ev_kind ev = Ev_End"
  shows "map lower_ascii (pk_event (parsePacket data)) \<in> {''ed'', ''st'', ''end'', ''crash'', ''bust''} \<and>
    pk_kind (parsePacket data) = Pk_Event \<and> ev_rawEventName ev = pk_event (parsePacket data) \<and>
    (ev_valid ev \<longrightarrow> ev_gameId ev \<noteq> [])"
proof -
  have pk: "pk_kind (parsePacket data) = Pk_Event"
    "decodeEventPacket libm_exp t1 now (parsePacket data) source t0 d = (Inr ev, d')"
    using assms by (auto simp: decodeBinary_def Let_def split: if_splits)
  have kind: "mapEventName (pk_event (parsePacket data)) = Ev_End" "ev_rawEventName ev = pk_event (parsePacket data)"
    using pk(2) assms(2)
    by (auto simp: decodeEventPacket_def Let_def frame_simps split: if_splits option.splits)
  have "ev_valid ev \<longrightarrow> ev_gameId ev \<noteq> []"
    using pk(2) kind(1)
    by (auto simp: decodeEventPacket_def Let_def apply_payload_valid split: if_splits)
  moreover have "map lower_ascii (pk_event (parsePacket data)) \<in> {''ed'', ''st'', ''end'', ''crash'', ''bust''}"
    using kind(1) by (auto simp: mapEventName_def Let_def split: if_splits)
  ultimately show ?thesis using pk(1) kind(2) by blast
qed

theorem decode_end_only_for_end_names_witness:
  "let data = [4, 2, 1, 47, 2, 69, 68];
       ev = CrashEvent_default\<lparr>ev_kind := Ev_End, ev_source := Src_Replay, ev_rawEventName := ''ED'',
              ev_decodedAtNs := 1, ev_eventTimeMs := 9\<rparr>
   in map lower_ascii (pk_event (parsePacket data)) \<in> {''ed'', ''st'', ''end'', ''crash'', ''bust''} \<and>
    pk_kind (parsePacket data) = Pk_Event \<and> ev_rawEventName ev = pk_event (parsePacket data) \<and>
    (ev_valid ev \<longrightarrow> ev_gameId ev \<noteq> [])"
proof -
  have p: "parsePacket [4, 2, 1, 47, 2, 69, 68] =
      SocketIoPacket_default\<lparr>pk_kind := Pk_Event, pk_nsp := ''/'', pk_event := ''ED''\<rparr>"
    by (simp add: parsePacket_def Let_def SocketIoPacket_default_def to_text_def char_of_def bit_0)
  have "decodeBinary (\<lambda>x. x) 0 1 9 [4, 2, 1, 47, 2, 69, 68] Src_Replay
      \<lparr>de_tracker = None, de_decoded = 0, de_invalid = 0\<rparr> =
    (Inr (CrashEvent_default\<lparr>ev_kind := Ev_End, ev_source := Src_Replay, ev_rawEventName := ''ED'',
       ev_decodedAtNs := 1, ev_eventTimeMs := 9\<rparr>), \<lparr>de_tracker = None, de_decoded = 1, de_invalid = 1\<rparr>)"
    by (simp add: decodeBinary_def p isPing_def isPong_def isOpenFrame_def isClose_def isMessage_def
        decodeEventPacket_def Let_def mapEventName_def lower_ascii_def CrashEvent_default_def
        SocketIoPacket_default_def char_of_def bit_0)
  from decode_end_only_for_end_names [OF this] show ?thesis by (simp add: Let_def)
qed

end
