(* ===== verification/Realtime.thy ===== *)
theory Realtime
  imports Decoder Dedupe
begin

text \<open>
  \<open>include/realtime\<close>: the normaliser of source events, the round-event validator with its
  duplicate window, the counters and the pipeline that chains them, and
  \<open>include/ingestion/decode_helpers.hpp\<close> on top of the decoder. \<open>now\<close> is the wall clock of a
  call; the accepted-event handler of \<open>RealtimePipeline\<close> is called exactly with the event
  that \<open>rt_observe\<close> returns.
\<close>

section \<open>Types\<close>

datatype SourceKind = Sk_Socket | Sk_Poll
datatype rt_RoundPhase = Rp_Prepare | Rp_Begin | Rp_Progress | Rp_End
datatype ConnectionStatus =
  Cs_Stopped | Cs_Connecting | Cs_Connected | Cs_Degraded | Cs_Reconnecting | Cs_WafBlocked

record RawSourceEvent =
  rw_sourceId :: string
  rw_sourceKind :: SourceKind
  rw_event :: string
  rw_gameId :: "string option"
  rw_multiplier :: "double option"
  rw_hash :: "string option"
  rw_salt :: "string option"
  rw_beganAt :: "int option"
  rw_crashedAt :: "int option"
  rw_elapsedMs :: "int option"
  rw_receivedAt :: TimestampMs
  rw_backfill :: bool

record NormalizedRoundEvent =
  nr_sourceId :: string
  nr_sourceKind :: SourceKind
  nr_phase :: rt_RoundPhase
  nr_gameId :: string
  nr_multiplier :: "double option"
  nr_hash :: "string option"
  nr_salt :: "string option"
  nr_beganAt :: "int option"
  nr_crashedAt :: "int option"
  nr_receivedAt :: TimestampMs
  nr_rawEvent :: string
  nr_backfill :: bool
  nr_elapsedMs :: "int option"

record ValidatedRoundEvent = NormalizedRoundEvent +
  vr_acceptedAt :: TimestampMs

record AdapterHealth =
  ah_sourceId :: string
  ah_status :: ConnectionStatus
  ah_transport :: string
  ah_lastError :: string
  ah_lastEventAt :: TimestampMs
  ah_lastEventKind :: string
  ah_reconnectAttempts :: u64
  ah_totalReconnects :: u64
  ah_socketId :: string

fun phase_toString :: "rt_RoundPhase \<Rightarrow> string" where
  "phase_toString Rp_Prepare = ''prepare''"
| "phase_toString Rp_Begin = ''begin''"
| "phase_toString Rp_Progress = ''progress''"
| "phase_toString Rp_End = ''end''"

fun status_toString :: "ConnectionStatus \<Rightarrow> string" where
  "status_toString Cs_Stopped = ''stopped''"
| "status_toString Cs_Connecting = ''connecting''"
| "status_toString Cs_Connected = ''connected''"
| "status_toString Cs_Degraded = ''degraded''"
| "status_toString Cs_Reconnecting = ''reconnecting''"
| "status_toString Cs_WafBlocked = ''waf_blocked''"

section \<open>Normaliser\<close>

definition rt_mapEventName :: "string \<Rightarrow> rt_RoundPhase option" where
  "rt_mapEventName event =
     (let event = map lower_ascii event
      in if event = ''pr'' \<or> event = ''prepare'' \<or> event = ''ready'' then Some Rp_Prepare
      else if event = ''pg'' then Some Rp_Progress
      else if event = ''bg'' \<or> event = ''begin'' \<or> event = ''start'' then Some Rp_Begin
      else if event = ''ed'' \<or> event = ''st'' \<or> event = ''end'' \<or> event = ''crash'' \<or> event = ''bust''
        then Some Rp_End
      else None)"

definition toEpochMs :: "int \<Rightarrow> TimestampMs" where
  "toEpochMs v =
     (if v \<le> 0 then 0
      else if v > 0 \<and> v < 1000000000000 then v * 1000
      else v)"

definition normalizeSourceEvent ::
  "(double \<Rightarrow> double) \<Rightarrow> TimestampMs \<Rightarrow> RawSourceEvent \<Rightarrow> NormalizedRoundEvent option" where
  "normalizeSourceEvent libm_exp now raw =
     (case rt_mapEventName (rw_event raw) of
        None \<Rightarrow> None
      | Some phase \<Rightarrow>
          let n = \<lparr>nr_sourceId = rw_sourceId raw, nr_sourceKind = rw_sourceKind raw, nr_phase = phase,
                   nr_gameId = (case rw_gameId raw of Some g \<Rightarrow> g | None \<Rightarrow> []),
                   nr_multiplier = rw_multiplier raw, nr_hash = rw_hash raw, nr_salt = rw_salt raw,
                   nr_beganAt = map_option toEpochMs (rw_beganAt raw),
                   nr_crashedAt = map_option toEpochMs (rw_crashedAt raw),
                   nr_receivedAt = (if rw_receivedAt raw \<noteq> 0 then rw_receivedAt raw else now),
                   nr_rawEvent = rw_event raw, nr_backfill = rw_backfill raw,
                   nr_elapsedMs = rw_elapsedMs raw\<rparr>;
              n = (if nr_phase n = Rp_Progress \<and> nr_multiplier n = None
                   then (case nr_elapsedMs n of
                           Some e \<Rightarrow> n\<lparr>nr_multiplier := Some (multiplierFromElapsed libm_exp e)\<rparr>
                         | None \<Rightarrow> n)
                   else n)
          in if nr_phase n \<noteq> Rp_Progress \<and> nr_gameId n = [] then None else Some n)"

definition RawSourceEvent_default :: RawSourceEvent where
  "RawSourceEvent_default =
     \<lparr>rw_sourceId = [], rw_sourceKind = Sk_Socket, rw_event = [], rw_gameId = None, rw_multiplier = None,
      rw_hash = None, rw_salt = None, rw_beganAt = None, rw_crashedAt = None, rw_elapsedMs = None,
      rw_receivedAt = 0, rw_backfill = False\<rparr>"

definition fromCrashEvent :: "CrashEvent \<Rightarrow> RawSourceEvent" where
  "fromCrashEvent ev =
     (let raw = RawSourceEvent_default
            \<lparr>rw_sourceId := ''native-bc-socket'', rw_sourceKind := Sk_Socket,
             rw_receivedAt := (if ev_eventTimeMs ev \<noteq> 0 then ev_eventTimeMs ev
                               else ev_receivedAtNs ev sdiv 1000000),
             rw_gameId := (if ev_gameId ev = [] then None else Some (ev_gameId ev)),
             rw_hash := (if ev_hash ev = [] then None else Some (ev_hash ev)),
             rw_elapsedMs := (if ev_elapsedMs ev \<ge> 0 then Some (ev_elapsedMs ev) else None)\<rparr>
      in case ev_kind ev of
           Ev_Prepare \<Rightarrow> raw\<lparr>rw_event := ''pr''\<rparr>
         | Ev_Start \<Rightarrow> raw\<lparr>rw_event := ''bg'', rw_beganAt := Some (ev_beganAtMs ev)\<rparr>
         | Ev_Progress \<Rightarrow> raw\<lparr>rw_event := ''pg'', rw_multiplier := Some (ev_currentMult ev)\<rparr>
         | Ev_End \<Rightarrow> raw\<lparr>rw_event := ''ed'', rw_multiplier := Some (ev_crashPoint ev),
                        rw_crashedAt := Some (ev_endedAtMs ev)\<rparr>
         | _ \<Rightarrow> raw\<lparr>rw_event := (if ev_rawEventName ev = [] then ''unknown'' else ev_rawEventName ev)\<rparr>)"

section \<open>Validator\<close>

record ValidateResult =
  va_ok :: bool
  va_reason :: string
  va_event :: ValidatedRoundEvent

record EventValidator =
  vl_max_skew_ms :: int
  vl_max_seen :: nat
  vl_seen :: "string set"
  vl_order :: "string list"
  vl_last_phase :: "string \<rightharpoonup> rt_RoundPhase"
  vl_last_mult :: "string \<rightharpoonup> double"
  vl_accepted :: u64
  vl_duplicates :: u64
  vl_stale :: u64
  vl_invalid :: u64
  vl_last_arrival_lag_ms :: double

definition EventValidator_new :: "int \<Rightarrow> nat \<Rightarrow> EventValidator" where
  "EventValidator_new maxSkewMs maxSeen =
     \<lparr>vl_max_skew_ms = maxSkewMs, vl_max_seen = maxSeen, vl_seen = {}, vl_order = [],
      vl_last_phase = Map.empty, vl_last_mult = Map.empty, vl_accepted = 0, vl_duplicates = 0,
      vl_stale = 0, vl_invalid = 0, vl_last_arrival_lag_ms = Fin 0\<rparr>"

text \<open>The duplicate window of the validator: \<open>seen_\<close> with its eviction order.\<close>

definition vl_remember :: "string \<Rightarrow> EventValidator \<Rightarrow> bool \<times> EventValidator" where
  "vl_remember key v =
     (if key \<in> vl_seen v then (False, v)
      else let (seen, order) = evict (vl_max_seen v) (insert key (vl_seen v)) (vl_order v @ [key])
           in (True, v\<lparr>vl_seen := seen, vl_order := order\<rparr>))"

definition vl_key :: "'a NormalizedRoundEvent_scheme \<Rightarrow> string" where
  "vl_key n = nr_gameId n @ '':'' @ phase_toString (nr_phase n)"

definition to_validated :: "NormalizedRoundEvent \<Rightarrow> TimestampMs \<Rightarrow> ValidatedRoundEvent" where
  "to_validated n acceptedAt = NormalizedRoundEvent.extend n (ValidatedRoundEvent.fields acceptedAt)"

definition vl_record_round :: "NormalizedRoundEvent \<Rightarrow> EventValidator \<Rightarrow> EventValidator" where
  "vl_record_round n v =
     (if nr_phase n = Rp_End then
        v\<lparr>vl_last_phase := (vl_last_phase v)(nr_gameId n \<mapsto> nr_phase n),
          vl_last_mult := (vl_last_mult v)(nr_gameId n \<mapsto>
            (case nr_multiplier n of Some m \<Rightarrow> m | None \<Rightarrow> Fin 0))\<rparr>
      else if nr_phase n = Rp_Begin \<or> nr_phase n = Rp_Progress then
        v\<lparr>vl_last_phase := (vl_last_phase v)(nr_gameId n \<mapsto> nr_phase n),
          vl_last_mult := (case nr_multiplier n of
             Some m \<Rightarrow> (vl_last_mult v)(nr_gameId n \<mapsto> m) | None \<Rightarrow> vl_last_mult v)\<rparr>
      else v)"

text \<open>The checks before the duplicate window: the reason of the first that fails.\<close>

definition vl_reject :: "TimestampMs \<Rightarrow> int \<Rightarrow> NormalizedRoundEvent \<Rightarrow> string option" where
  "vl_reject now maxSkew n =
     (if nr_phase n \<noteq> Rp_Progress \<and> nr_gameId n = [] then Some ''missing_game_id''
      else if nr_phase n \<noteq> Rp_Progress \<and> \<not> list_all is_digit (nr_gameId n) then Some ''non_numeric_game_id''
      else if nr_receivedAt n > 0 \<and> now - nr_receivedAt n > maxSkew then Some ''stale''
      else None)"

definition vl_mark_lag :: "TimestampMs \<Rightarrow> NormalizedRoundEvent \<Rightarrow> EventValidator \<Rightarrow> EventValidator" where
  "vl_mark_lag now n v =
     (if nr_receivedAt n > 0 then v\<lparr>vl_last_arrival_lag_ms := of_integer (now - nr_receivedAt n)\<rparr> else v)"

definition vl_validate ::
  "TimestampMs \<Rightarrow> NormalizedRoundEvent \<Rightarrow> EventValidator \<Rightarrow> ValidateResult \<times> EventValidator" where
  "vl_validate now n v =
     (let r = \<lparr>va_ok = False, va_reason = [], va_event = to_validated n now\<rparr>
      in case vl_reject now (vl_max_skew_ms v) n of
           Some reason \<Rightarrow>
             (r\<lparr>va_reason := reason\<rparr>,
              if reason = ''stale'' then v\<lparr>vl_stale := vl_stale v + 1\<rparr> else v\<lparr>vl_invalid := vl_invalid v + 1\<rparr>)
         | None \<Rightarrow>
             let v = vl_mark_lag now n v;
                 (fresh, v) = (if nr_phase n = Rp_End \<or> nr_phase n = Rp_Begin
                               then vl_remember (vl_key n) v else (True, v))
             in if \<not> fresh then
                  (r\<lparr>va_reason := ''duplicate''\<rparr>, v\<lparr>vl_duplicates := vl_duplicates v + 1\<rparr>)
                else let v = vl_record_round n v
                     in (r\<lparr>va_ok := True\<rparr>, v\<lparr>vl_accepted := vl_accepted v + 1\<rparr>))"

definition vl_inv :: "EventValidator \<Rightarrow> bool" where
  "vl_inv v \<longleftrightarrow> vl_seen v = set (vl_order v) \<and> distinct (vl_order v) \<and> length (vl_order v) \<le> vl_max_seen v"

lemma vl_remember_fresh:
  assumes "vl_inv v" "key \<notin> set (vl_order v)"
  shows "vl_remember key v =
    (True, v\<lparr>vl_seen := set (trim (vl_max_seen v) (vl_order v @ [key])),
             vl_order := trim (vl_max_seen v) (vl_order v @ [key])\<rparr>)"
  using assms evict_eq [of "vl_order v @ [key]" "vl_max_seen v"] by (simp add: vl_remember_def vl_inv_def)

lemma vl_remember_seen: "vl_inv v \<Longrightarrow> key \<in> set (vl_order v) \<Longrightarrow> vl_remember key v = (False, v)"
  by (simp add: vl_remember_def vl_inv_def)

interpretation vl: fifo_window vl_inv vl_order vl_max_seen vl_remember
proof
  fix s k
  assume inv: "vl_inv s"
  note cases = vl_remember_fresh [OF inv, of k] vl_remember_seen [OF inv, of k]
  show "vl_inv (snd (vl_remember k s))" "vl_max_seen (snd (vl_remember k s)) = vl_max_seen s"
    "fst (vl_remember k s) \<longleftrightarrow> k \<notin> set (vl_order s)"
    using inv cases by (cases "k \<in> set (vl_order s)"; simp add: vl_inv_def distinct_trim)+
  show "length (vl_order s) \<le> vl_max_seen s" "distinct (vl_order s)" using inv by (simp_all add: vl_inv_def)
  show "vl_order (snd (vl_remember k s)) = trim (vl_max_seen s) (vl_order s @ [k])" if "k \<notin> set (vl_order s)"
    using that cases by simp
  show "vl_order (snd (vl_remember k s)) = vl_order s"
    "set (vl_order (snd (vl_remember k s))) = set (vl_order s)" if "k \<in> set (vl_order s)"
    using that cases by simp_all
  show "set (vl_order (snd (vl_remember k s))) = insert k (set (vl_order s))"
    if "k \<notin> set (vl_order s)" "length (vl_order s) < vl_max_seen s"
    using that cases by (simp add: trim_id)
  show "k \<in> set (vl_order (snd (vl_remember k s)))" if "0 < vl_max_seen s"
    using cases trim_last_mem [OF that, of k "vl_order s"] by (cases "k \<in> set (vl_order s)") simp_all
qed

section \<open>Metrics\<close>

record RealtimeMetrics =
  rm_received :: u64
  rm_accepted :: u64
  rm_duplicates :: u64
  rm_stale :: u64
  rm_invalid :: u64
  rm_missed :: u64
  rm_reconnects :: u64
  rm_proc_samples :: "double list"
  rm_pred_samples :: "double list"
  rm_del_samples :: "double list"
  rm_last_arrival_lag_ms :: double
  rm_last_processing_ms :: double
  rm_last_prediction_ms :: double
  rm_last_delivery_ms :: double
  rm_last_e2e_ms :: double

definition RealtimeMetrics_new :: RealtimeMetrics where
  "RealtimeMetrics_new =
     \<lparr>rm_received = 0, rm_accepted = 0, rm_duplicates = 0, rm_stale = 0, rm_invalid = 0, rm_missed = 0,
      rm_reconnects = 0, rm_proc_samples = [], rm_pred_samples = [], rm_del_samples = [],
      rm_last_arrival_lag_ms = Fin (- 1), rm_last_processing_ms = Fin (- 1),
      rm_last_prediction_ms = Fin (- 1), rm_last_delivery_ms = Fin (- 1), rm_last_e2e_ms = Fin (- 1)\<rparr>"

definition push256 :: "double list \<Rightarrow> double \<Rightarrow> double list" where
  "push256 xs x = (let ys = xs @ [x] in if length ys > 256 then tl ys else ys)"

definition markProcessingMs :: "double \<Rightarrow> RealtimeMetrics \<Rightarrow> RealtimeMetrics" where
  "markProcessingMs ms m = m\<lparr>rm_proc_samples := push256 (rm_proc_samples m) ms, rm_last_processing_ms := ms\<rparr>"

definition markPredictionMs :: "double \<Rightarrow> RealtimeMetrics \<Rightarrow> RealtimeMetrics" where
  "markPredictionMs ms m = m\<lparr>rm_last_prediction_ms := ms, rm_pred_samples := push256 (rm_pred_samples m) ms\<rparr>"

definition markDeliveryMs :: "double \<Rightarrow> RealtimeMetrics \<Rightarrow> RealtimeMetrics" where
  "markDeliveryMs ms m = m\<lparr>rm_last_delivery_ms := ms, rm_del_samples := push256 (rm_del_samples m) ms\<rparr>"

definition rm_avg :: "double list \<Rightarrow> double option" where
  "rm_avg v = (if v = [] then None
               else Some (ddiv (foldl dadd (Fin 0) v) (of_integer (int (length v)))))"

definition rm_reset :: "RealtimeMetrics \<Rightarrow> RealtimeMetrics" where
  "rm_reset m =
     m\<lparr>rm_received := 0, rm_accepted := 0, rm_duplicates := 0, rm_stale := 0, rm_invalid := 0,
       rm_missed := 0, rm_reconnects := 0, rm_proc_samples := [], rm_pred_samples := [], rm_del_samples := []\<rparr>"

record MetricsSnapshot =
  ms_eventsReceived :: u64
  ms_eventsAccepted :: u64
  ms_duplicates :: u64
  ms_stale :: u64
  ms_invalid :: u64
  ms_missed :: u64
  ms_reconnects :: u64
  ms_lastArrivalLagMs :: "double option"
  ms_lastProcessingMs :: "double option"
  ms_lastPredictionMs :: "double option"
  ms_lastDeliveryMs :: "double option"
  ms_avgProcessingMs :: "double option"
  ms_avgPredictionMs :: "double option"
  ms_avgDeliveryMs :: "double option"
  ms_lastE2eMs :: "double option"

definition opt_nonneg :: "double \<Rightarrow> double option" where
  "opt_nonneg x = (if dle (Fin 0) x then Some x else None)"

definition rm_snapshot :: "RealtimeMetrics \<Rightarrow> MetricsSnapshot" where
  "rm_snapshot m =
     \<lparr>ms_eventsReceived = rm_received m, ms_eventsAccepted = rm_accepted m, ms_duplicates = rm_duplicates m,
      ms_stale = rm_stale m, ms_invalid = rm_invalid m, ms_missed = rm_missed m, ms_reconnects = rm_reconnects m,
      ms_lastArrivalLagMs = opt_nonneg (rm_last_arrival_lag_ms m),
      ms_lastProcessingMs = opt_nonneg (rm_last_processing_ms m),
      ms_lastPredictionMs = opt_nonneg (rm_last_prediction_ms m),
      ms_lastDeliveryMs = opt_nonneg (rm_last_delivery_ms m),
      ms_avgProcessingMs = rm_avg (rm_proc_samples m), ms_avgPredictionMs = rm_avg (rm_pred_samples m),
      ms_avgDeliveryMs = rm_avg (rm_del_samples m), ms_lastE2eMs = opt_nonneg (rm_last_e2e_ms m)\<rparr>"

section \<open>Pipeline\<close>

record RealtimePipeline =
  rp_validator :: EventValidator
  rp_metrics :: RealtimeMetrics
  rp_health :: AdapterHealth

definition RealtimePipeline_new :: RealtimePipeline where
  "RealtimePipeline_new =
     \<lparr>rp_validator = EventValidator_new 120000 8192, rp_metrics = RealtimeMetrics_new,
      rp_health = \<lparr>ah_sourceId = ''native-bc-socket'', ah_status = Cs_Stopped, ah_transport = [],
        ah_lastError = [], ah_lastEventAt = 0, ah_lastEventKind = [], ah_reconnectAttempts = 0,
        ah_totalReconnects = 0, ah_socketId = []\<rparr>\<rparr>"

definition rp_setStatus :: "ConnectionStatus \<Rightarrow> string \<Rightarrow> RealtimePipeline \<Rightarrow> RealtimePipeline" where
  "rp_setStatus status detail p =
     (let h = (rp_health p)\<lparr>ah_status := status\<rparr>;
          h = (if detail \<noteq> [] then h\<lparr>ah_lastError := detail\<rparr> else h)
      in if status = Cs_Reconnecting then
           p\<lparr>rp_health := h\<lparr>ah_reconnectAttempts := ah_reconnectAttempts h + 1,
                             ah_totalReconnects := ah_totalReconnects h + 1\<rparr>,
             rp_metrics := (rp_metrics p)\<lparr>rm_reconnects := rm_reconnects (rp_metrics p) + 1\<rparr>\<rparr>
         else p\<lparr>rp_health := h\<rparr>)"

definition rp_observe ::
  "(double \<Rightarrow> double) \<Rightarrow> TimestampMs \<Rightarrow> int \<Rightarrow> CrashEvent \<Rightarrow> RealtimePipeline \<Rightarrow>
   ValidatedRoundEvent option \<times> RealtimePipeline" where
  "rp_observe libm_exp now us ev p =
     (case normalizeSourceEvent libm_exp now (fromCrashEvent ev) of
        None \<Rightarrow> (None, p\<lparr>rp_metrics := (rp_metrics p)\<lparr>rm_invalid := rm_invalid (rp_metrics p) + 1\<rparr>\<rparr>)
      | Some n \<Rightarrow>
          let m = (rp_metrics p)\<lparr>rm_received := rm_received (rp_metrics p) + 1\<rparr>;
              h = (rp_health p)\<lparr>ah_lastEventAt := nr_receivedAt n\<rparr>;
              (r, v) = vl_validate now n (rp_validator p);
              p = p\<lparr>rp_validator := v, rp_health := h\<rparr>
          in if \<not> va_ok r then
               (None, p\<lparr>rp_metrics :=
                  (if va_reason r = ''duplicate'' then m\<lparr>rm_duplicates := rm_duplicates m + 1\<rparr>
                   else if va_reason r = ''stale'' then m\<lparr>rm_stale := rm_stale m + 1\<rparr>
                   else m\<lparr>rm_invalid := rm_invalid m + 1\<rparr>)\<rparr>)
             else
               (Some (va_event r),
                p\<lparr>rp_metrics := markProcessingMs (ddiv (of_integer us) (Fin 1000))
                                 (m\<lparr>rm_accepted := rm_accepted m + 1\<rparr>),
                  rp_health := (if nr_phase n = Rp_End then h\<lparr>ah_lastEventKind := ''end''\<rparr> else h)\<rparr>))"

definition rp_markE2e :: "TimestampMs \<Rightarrow> TimestampMs \<Rightarrow> RealtimePipeline \<Rightarrow> RealtimePipeline" where
  "rp_markE2e now receivedAt p =
     p\<lparr>rp_metrics := (rp_metrics p)\<lparr>rm_last_e2e_ms := of_integer (now - receivedAt)\<rparr>\<rparr>"

section \<open>Decode helpers\<close>

definition crashEventFromNormalized :: "NanoTime \<Rightarrow> NormalizedRoundEvent \<Rightarrow> CrashEvent" where
  "crashEventFromNormalized t n =
     (let e = CrashEvent_default
            \<lparr>ev_valid := True, ev_gameId := nr_gameId n, ev_roundId := nr_gameId n,
             ev_rawEventName := nr_rawEvent n, ev_eventTimeMs := nr_receivedAt n,
             ev_receivedAtNs := t, ev_decodedAtNs := t, ev_source := Src_NativeSocket\<rparr>;
          e = (case nr_hash n of Some h \<Rightarrow> e\<lparr>ev_hash := h\<rparr> | None \<Rightarrow> e);
          e = (case nr_beganAt n of Some b \<Rightarrow> e\<lparr>ev_beganAtMs := b\<rparr> | None \<Rightarrow> e);
          e = (case nr_crashedAt n of Some c \<Rightarrow> e\<lparr>ev_endedAtMs := c\<rparr> | None \<Rightarrow> e);
          e = (case nr_elapsedMs n of Some el \<Rightarrow> e\<lparr>ev_elapsedMs := el\<rparr> | None \<Rightarrow> e);
          mult = (case nr_multiplier n of Some m \<Rightarrow> m | None \<Rightarrow> Fin 0)
      in case nr_phase n of
           Rp_Prepare \<Rightarrow> e\<lparr>ev_kind := Ev_Prepare\<rparr>
         | Rp_Begin \<Rightarrow> e\<lparr>ev_kind := Ev_Start\<rparr>
         | Rp_Progress \<Rightarrow> e\<lparr>ev_kind := Ev_Progress, ev_currentMult := mult\<rparr>
         | Rp_End \<Rightarrow> e\<lparr>ev_kind := Ev_End, ev_crashPoint := mult\<rparr>)"

definition decodeAndNormalizeBinary ::
  "(double \<Rightarrow> double) \<Rightarrow> NanoTime \<Rightarrow> NanoTime \<Rightarrow> NanoTime \<Rightarrow> TimestampMs \<Rightarrow> bytes \<Rightarrow> EventDecoder \<Rightarrow>
   CrashEvent option \<times> EventDecoder" where
  "decodeAndNormalizeBinary libm_exp t0 t1 t2 now data d =
     (case decodeBinary libm_exp t0 t1 now data Src_NativeSocket d of
        (Inl e, d') \<Rightarrow> (None, d')
      | (Inr ev, d') \<Rightarrow>
          (case normalizeSourceEvent libm_exp now (fromCrashEvent ev) of
             None \<Rightarrow> (Some ev, d')
           | Some n \<Rightarrow> (Some (crashEventFromNormalized t2 n), d')))"

section \<open>Properties\<close>

text \<open>The two event-name tables agree: the decoder's \<open>EventKind\<close> and the normaliser's phase are
  the same classification of every name, in any letter case; only the heartbeat names, which the
  decoder knows, have no round phase.\<close>

theorem event_name_tables_agree:
  "rt_mapEventName name =
     (case mapEventName name of
        Ev_Prepare \<Rightarrow> Some Rp_Prepare | Ev_Start \<Rightarrow> Some Rp_Begin | Ev_Progress \<Rightarrow> Some Rp_Progress
      | Ev_End \<Rightarrow> Some Rp_End | _ \<Rightarrow> None)"
  by (simp add: rt_mapEventName_def mapEventName_def Let_def)

lemma to_validated_sel [simp]:
  "nr_phase (to_validated n t) = nr_phase n" "nr_gameId (to_validated n t) = nr_gameId n"
  "nr_multiplier (to_validated n t) = nr_multiplier n" "vr_acceptedAt (to_validated n t) = t"
  by (cases n; simp add: to_validated_def NormalizedRoundEvent.defs ValidatedRoundEvent.defs)+

lemma vl_record_round_frame [frame_simps, simp]:
  "vl_order (vl_record_round n v) = vl_order v" "vl_seen (vl_record_round n v) = vl_seen v"
  "vl_max_seen (vl_record_round n v) = vl_max_seen v" "vl_max_skew_ms (vl_record_round n v) = vl_max_skew_ms v"
  by (simp_all add: vl_record_round_def)

lemma vl_inv_cong:
  "vl_seen v = vl_seen w \<Longrightarrow> vl_order v = vl_order w \<Longrightarrow> vl_max_seen v = vl_max_seen w \<Longrightarrow> vl_inv v = vl_inv w"
  by (simp add: vl_inv_def)

text \<open>What one validation does to the duplicate window.\<close>

lemma vl_validate_window:
  assumes inv: "vl_inv v" and res: "vl_validate now n v = (r, v')"
  shows "vl_inv v' \<and> vl_max_seen v' = vl_max_seen v \<and>
    (if va_ok r \<and> (nr_phase n = Rp_End \<or> nr_phase n = Rp_Begin)
     then vl_key n \<notin> set (vl_order v) \<and> vl_order v' = trim (vl_max_seen v) (vl_order v @ [vl_key n])
     else vl_order v' = vl_order v) \<and> va_event r = to_validated n now"
proof (cases "vl_reject now (vl_max_skew_ms v) n")
  case (Some reason)
  then show ?thesis using inv res
    by (cases "reason = ''stale''") (auto simp: vl_validate_def Let_def vl_inv_def)
next
  case None
  define w where "w = vl_mark_lag now n v"
  have w: "vl_inv w" "vl_order w = vl_order v" "vl_max_seen w = vl_max_seen v"
    using inv by (auto simp: w_def vl_mark_lag_def vl_inv_def)
  let ?b = "nr_phase n = Rp_End \<or> nr_phase n = Rp_Begin"
  have val: "vl_validate now n v =
      (let r = \<lparr>va_ok = False, va_reason = [], va_event = to_validated n now\<rparr>;
           (fresh, u) = (if ?b then vl_remember (vl_key n) w else (True, w))
       in if \<not> fresh then (r\<lparr>va_reason := ''duplicate''\<rparr>, u\<lparr>vl_duplicates := vl_duplicates u + 1\<rparr>)
          else let u = vl_record_round n u in (r\<lparr>va_ok := True\<rparr>, u\<lparr>vl_accepted := vl_accepted u + 1\<rparr>))"
    by (simp add: vl_validate_def None Let_def w_def)
  consider "\<not> ?b" | "?b" "vl_key n \<in> set (vl_order w)" | "?b" "vl_key n \<notin> set (vl_order w)" by blast
  then show ?thesis
  proof cases
    case 1
    then have "va_event r = to_validated n now \<and> vl_seen v' = vl_seen w \<and> vl_order v' = vl_order w \<and> vl_max_seen v' = vl_max_seen w"
      using res unfolding val by (auto simp add: Let_def)
    then show ?thesis using 1 w vl_inv_cong [of v' w] by simp
  next
    case 2
    then have "va_event r = to_validated n now \<and> \<not> va_ok r \<and> vl_seen v' = vl_seen w \<and> vl_order v' = vl_order w \<and> vl_max_seen v' = vl_max_seen w"
      using res vl_remember_seen [OF w(1) 2(2)] unfolding val by (auto simp add: Let_def)
    then show ?thesis using w vl_inv_cong [of v' w] by simp
  next
    case 3
    let ?u = "snd (vl_remember (vl_key n) w)"
    have "va_event r = to_validated n now \<and> va_ok r \<and> vl_seen v' = vl_seen ?u \<and> vl_order v' = vl_order ?u \<and> vl_max_seen v' = vl_max_seen ?u"
      using res 3(1) vl_remember_fresh [OF w(1) 3(2)] unfolding val by (auto simp add: Let_def)
    then show ?thesis using 3 w vl_inv_cong [of v' ?u] vl.inv_offer [OF w(1), of "vl_key n"]
        vl.cap_offer [OF w(1), of "vl_key n"] vl.recent_fresh [OF w(1) 3(2)] by simp
  qed
qed

definition is_boundary :: "'a NormalizedRoundEvent_scheme \<Rightarrow> bool" where
  "is_boundary n \<longleftrightarrow> nr_phase n = Rp_End \<or> nr_phase n = Rp_Begin"

lemma vl_key_validated [simp]: "vl_key (to_validated n t) = vl_key n" "is_boundary (to_validated n t) = is_boundary n"
  by (simp_all add: vl_key_def is_boundary_def)

lemma vl_key_eq [key_simps]:
  assumes "is_boundary a" "is_boundary b"
  shows "vl_key a = vl_key b \<longleftrightarrow> nr_gameId a = nr_gameId b \<and> nr_phase a = nr_phase b"
proof -
  have "CHR '':'' \<notin> set (phase_toString p)" for p by (cases p) simp_all
  then show ?thesis using assms
    by (auto simp: vl_key_def is_boundary_def sep_key_inject)
qed

lemma rp_observe_window:
  assumes inv: "vl_inv (rp_validator p)" and res: "rp_observe libm_exp now us ev p = (acc, p')"
  shows "vl_inv (rp_validator p') \<and> vl_max_seen (rp_validator p') = vl_max_seen (rp_validator p) \<and>
    (case acc of
       Some e \<Rightarrow> if is_boundary e
         then vl_key e \<notin> set (vl_order (rp_validator p)) \<and>
              vl_order (rp_validator p') = trim (vl_max_seen (rp_validator p)) (vl_order (rp_validator p) @ [vl_key e])
         else vl_order (rp_validator p') = vl_order (rp_validator p)
     | None \<Rightarrow> vl_order (rp_validator p') = vl_order (rp_validator p))"
proof (cases "normalizeSourceEvent libm_exp now (fromCrashEvent ev)")
  case None
  then show ?thesis using res inv by (auto simp: rp_observe_def)
next
  case (Some n)
  obtain r v where rv: "vl_validate now n (rp_validator p) = (r, v)" by (cases "vl_validate now n (rp_validator p)")
  note w = vl_validate_window [OF inv rv]
  have "rp_validator p' = v \<and> acc = (if va_ok r then Some (va_event r) else None)"
    using res Some rv by (cases "va_ok r") (auto simp: rp_observe_def Let_def)
  then show ?thesis using w by (cases "va_ok r") (simp_all add: is_boundary_def)
qed

fun rp_run :: "(double \<Rightarrow> double) \<Rightarrow> (TimestampMs \<times> int \<times> CrashEvent) list \<Rightarrow> RealtimePipeline \<Rightarrow>
    ValidatedRoundEvent list \<times> RealtimePipeline" where
  "rp_run libm_exp [] p = ([], p)"
| "rp_run libm_exp ((now, us, ev) # evs) p =
     (let (a, p1) = rp_observe libm_exp now us ev p; (as, p2) = rp_run libm_exp evs p1
      in (case a of Some e \<Rightarrow> e # as | None \<Rightarrow> as, p2))"

lemma rp_run_window:
  "vl_inv (rp_validator p) \<Longrightarrow> rp_run libm_exp evs p = (as, p') \<Longrightarrow>
   vl_inv (rp_validator p') \<and>
   vl_order (rp_validator p') =
     trim (vl_max_seen (rp_validator p)) (vl_order (rp_validator p) @ map vl_key (filter is_boundary as))"
proof (induction libm_exp evs p arbitrary: as p' rule: rp_run.induct)
  case (1 libm_exp p)
  then show ?case by (auto simp: vl_inv_def trim_id)
next
  case (2 libm_exp now us ev evs p)
  obtain a p1 where o: "rp_observe libm_exp now us ev p = (a, p1)" by (cases "rp_observe libm_exp now us ev p")
  obtain bs where r: "rp_run libm_exp evs p1 = (bs, p')" "as = (case a of Some e \<Rightarrow> e # bs | None \<Rightarrow> bs)"
    using "2.prems"(2) o by (auto simp: Let_def split: prod.splits)
  note w = rp_observe_window [OF "2.prems"(1) o]
  from "2.IH" [OF o [symmetric] refl _ r(1)] w
  have ih: "vl_inv (rp_validator p') \<and> vl_order (rp_validator p') =
     trim (vl_max_seen (rp_validator p1)) (vl_order (rp_validator p1) @ map vl_key (filter is_boundary bs))"
    by blast
  then show ?case using w r(2)
      trim_trim_snoc [of "vl_max_seen (rp_validator p)" "vl_order (rp_validator p) @ [vl_key (the a)]"]
    by (cases a) (auto split: if_splits)
qed

lemma distinct_boundaries:
  "distinct (map vl_key es) \<Longrightarrow> (\<And>e. e \<in> set es \<Longrightarrow> is_boundary e) \<Longrightarrow> distinct (map (\<lambda>e. (nr_gameId e, nr_phase e)) es)"
  unfolding distinct_map inj_on_def by (auto simp: vl_key_eq)

text \<open>The realtime pipeline settles a round once: over any run of events, however repeated and
  reordered, no two of the last 8192 accepted begin and end events have the same game id and phase.\<close>

theorem realtime_no_double_boundary:
  "let acc = filter is_boundary (fst (rp_run libm_exp evs RealtimePipeline_new))
   in distinct (map (\<lambda>e. (nr_gameId e, nr_phase e)) (trim 8192 acc))"
proof -
  let ?p = RealtimePipeline_new
  obtain as p' where r: "rp_run libm_exp evs ?p = (as, p')" by (cases "rp_run libm_exp evs ?p")
  have "vl_inv (rp_validator ?p)" by (simp add: RealtimePipeline_new_def EventValidator_new_def vl_inv_def)
  from rp_run_window [OF this r] have "distinct (vl_order (rp_validator p'))"
    "vl_order (rp_validator p') = trim 8192 (map vl_key (filter is_boundary as))"
    by (auto simp: vl_inv_def RealtimePipeline_new_def EventValidator_new_def)
  then have "distinct (map vl_key (trim 8192 (filter is_boundary as)))" by (simp add: trim_eq_drop drop_map)
  moreover have "is_boundary e" if "e \<in> set (trim 8192 (filter is_boundary as))" for e
    using that set_trim_subset [of 8192 "filter is_boundary as"] by auto
  ultimately have "distinct (map (\<lambda>e. (nr_gameId e, nr_phase e)) (trim 8192 (filter is_boundary as)))"
    by (intro distinct_boundaries) blast+
  then show ?thesis by (simp add: r)
qed

text \<open>Every observed event is accounted for exactly once: the sum of the accepted, duplicate,
  stale and invalid counters grows by one per observation, and the accepted counter exactly when an
  event is handed on.\<close>

theorem realtime_accounting:
  "let (acc, p') = rp_observe libm_exp now us ev p; m = rp_metrics p; m' = rp_metrics p'
   in rm_accepted m' + rm_duplicates m' + rm_stale m' + rm_invalid m' =
        rm_accepted m + rm_duplicates m + rm_stale m + rm_invalid m + 1 \<and>
      rm_accepted m' = rm_accepted m + (if acc = None then 0 else 1) \<and>
      rm_missed m' = rm_missed m \<and> rm_reconnects m' = rm_reconnects m"
  by (auto simp: rp_observe_def Let_def markProcessingMs_def split: option.splits prod.splits if_splits)

text \<open>Normalising keeps what settles a round: for a valid End event with a game id, the event
  that comes out of \<open>fromCrashEvent\<close>, \<open>normalizeSourceEvent\<close> and \<open>crashEventFromNormalized\<close> is
  again an End event of the same game with the bit-identical crash point and hash.\<close>

theorem normalize_preserves_end:
  assumes "ev_kind ev = Ev_End" and "ev_gameId ev \<noteq> []"
  shows "\<exists>n. normalizeSourceEvent libm_exp now (fromCrashEvent ev) = Some n \<and>
    (let e = crashEventFromNormalized t n
     in ev_kind e = Ev_End \<and> ev_gameId e = ev_gameId ev \<and> ev_crashPoint e = ev_crashPoint ev \<and>
        ev_hash e = ev_hash ev \<and> ev_valid e \<and>
        (ev_elapsedMs ev \<ge> 0 \<longrightarrow> ev_elapsedMs e = ev_elapsedMs ev))"
proof -
  have "rt_mapEventName ''ed'' = Some Rp_End"
    by (simp add: rt_mapEventName_def lower_ascii_def Let_def)
  then show ?thesis using assms
    by (auto simp: normalizeSourceEvent_def fromCrashEvent_def Let_def crashEventFromNormalized_def
        RawSourceEvent_default_def CrashEvent_default_def)
qed

theorem normalize_preserves_end_witness:
  "let ev = CrashEvent_default\<lparr>ev_kind := Ev_End, ev_gameId := ''42'', ev_crashPoint := Fin 2\<rparr>
   in \<exists>n. normalizeSourceEvent (\<lambda>x. x) 5 (fromCrashEvent ev) = Some n \<and>
    (let e = crashEventFromNormalized 7 n
     in ev_kind e = Ev_End \<and> ev_gameId e = ev_gameId ev \<and> ev_crashPoint e = ev_crashPoint ev \<and>
        ev_hash e = ev_hash ev \<and> ev_valid e \<and>
        (ev_elapsedMs ev \<ge> 0 \<longrightarrow> ev_elapsedMs e = ev_elapsedMs ev))"
  unfolding Let_def by (rule normalize_preserves_end [unfolded Let_def]) simp_all

end
