(* ===== verification/Pipeline.thy ===== *)
theory Pipeline
  imports N1 Router Rounds Realtime Dedupe Decoder
begin

text \<open>
  The event loop \<open>PipelineLoop\<close> (\<open>include/application/pipeline_loop.hpp\<close>): one frame is decoded, normalised,
  deduplicated, applied to the round registry and the statistics, routed, and what the router queued is
  drained into the prediction client and the live validator, whose callbacks publish to the outbox.

  Everything the loop takes from outside is an argument: an \<open>Env\<close> has the readings of the two clocks, each indexed
  by the path of the call that makes it, the exponential function of the C library, and the iteration orders of the
  hash maps; \<open>submit\<close> is the virtual method of the prediction client, on a client state of any type, with the
  responses it hands to the response handler during the call. The loops of \<open>drain\<close> run on fuel, the capacity of
  the queue, which \<open>drain_pops_all\<close> below shows to be enough.
\<close>

section \<open>State\<close>

record Env =
  en_ms :: "nat list \<Rightarrow> TimestampMs"
  en_ns :: "nat list \<Rightarrow> NanoTime"
  en_exp :: "double \<Rightarrow> double"
  en_attempts :: "PredictionAttemptCoordinator \<Rightarrow> string list"
  en_rounds :: "PredictionRegistry \<Rightarrow> string list"
  en_leases :: "OutboxLifecycle \<Rightarrow> u64 list"

type_synonym 'c submit = "nat list \<Rightarrow> PredictionRequest \<Rightarrow> 'c \<Rightarrow> unit Result \<times> PredictionResponse list \<times> 'c"

record 'c PipelineLoop =
  pl_decoder :: EventDecoder
  pl_router :: EventRouter
  pl_pred :: 'c
  pl_validator :: LiveValidator
  pl_outbox :: "Outbox \<times> OutboxLifecycle"
  pl_tracker :: "LatencyTracker option"
  pl_attempts :: PredictionAttemptCoordinator
  pl_realtime :: RealtimePipeline
  pl_rounds :: RoundStateRegistry
  pl_dupes :: DuplicateFilter
  pl_stats :: CrashStatsAccumulator
  pl_metrics :: Metrics
  pl_ownsHandlers :: bool

text \<open>The constructor. The clock offset member is never used by the loop and left out; the generation fence is the
  one inside the attempt coordinator.\<close>

definition PipelineLoop_new :: "EventDecoder \<Rightarrow> EventRouter \<Rightarrow> 'c \<Rightarrow> LiveValidator \<Rightarrow> Outbox \<times> OutboxLifecycle \<Rightarrow>
    LatencyTracker option \<Rightarrow> bool \<Rightarrow> 'c PipelineLoop" where
  "PipelineLoop_new decoder router predClient liveValidator outboxLife tracker installHandlers =
     \<lparr>pl_decoder = decoder, pl_router = router, pl_pred = predClient, pl_validator = liveValidator,
      pl_outbox = outboxLife, pl_tracker = tracker, pl_attempts = PredictionAttemptCoordinator_new tracker 50,
      pl_realtime = RealtimePipeline_new, pl_rounds = RoundStateRegistry_new, pl_dupes = DuplicateFilter_new 8192,
      pl_stats = CrashStatsAccumulator_new, pl_metrics = (\<lambda>_. 0), pl_ownsHandlers = installHandlers\<rparr>"

definition pl_inc :: "Counter \<Rightarrow> 'c PipelineLoop \<Rightarrow> 'c PipelineLoop" where
  "pl_inc c st = st\<lparr>pl_metrics := mx_inc c 1 (pl_metrics st)\<rparr>"

section \<open>Callbacks\<close>

definition pl_publish :: "TimestampMs \<Rightarrow> Signal \<Rightarrow> 'c PipelineLoop \<Rightarrow> 'c PipelineLoop" where
  "pl_publish now sig st =
     pl_inc Mc_OutboxPublished (st\<lparr>pl_outbox := snd (lf_publishSignal now sig (pl_outbox st))\<rparr>)"

definition onPredictionResponse :: "Env \<Rightarrow> nat list \<Rightarrow> PredictionResponse \<Rightarrow> 'c PipelineLoop \<Rightarrow> 'c PipelineLoop" where
  "onPredictionResponse e p resp st =
     (let att = pl_attempts st;
          st = st\<lparr>pl_attempts := snd (snd (pa_complete (en_ms e (0 # p)) (en_attempts e att) resp att))\<rparr>
      in if \<not> isActionable resp then st
      else let st = pl_inc Mc_PredictionsActionable st;
               pev = fromResponse (en_ms e (1 # p)) (en_ns e (1 # p)) resp (rs_targetRoundId resp) (Fin 0);
               v = pl_validator st;
               (reg, v') = lv_registerPrediction (en_rounds e (lv_registry v)) pev v;
               st = st\<lparr>pl_validator := v'\<rparr>
      in if \<not> Result_ok reg then st
      else pl_publish (en_ms e (3 # p)) (signalFromPrediction (en_ms e (2 # p)) pev) st)"

definition onOutcome :: "Env \<Rightarrow> nat list \<Rightarrow> Outcome \<Rightarrow> 'c PipelineLoop \<Rightarrow> 'c PipelineLoop" where
  "onOutcome e p oc st =
     (let st = (if oc_isWin oc then pl_inc Mc_OutcomesWin st
                else if oc_result oc = Out_Loss then pl_inc Mc_OutcomesLoss st else st)
      in pl_publish (en_ms e (1 # p)) (signalFromOutcome (en_ms e (0 # p)) oc) st)"

fun respond_all :: "Env \<Rightarrow> nat list \<Rightarrow> nat \<Rightarrow> PredictionResponse list \<Rightarrow> 'c PipelineLoop \<Rightarrow> 'c PipelineLoop" where
  "respond_all e p i [] st = st"
| "respond_all e p i (r # rs) st = respond_all e p (Suc i) rs (onPredictionResponse e (i # p) r st)"

fun outcome_all :: "Env \<Rightarrow> nat list \<Rightarrow> nat \<Rightarrow> Outcome list \<Rightarrow> 'c PipelineLoop \<Rightarrow> 'c PipelineLoop" where
  "outcome_all e p i [] st = st"
| "outcome_all e p i (oc # ocs) st = outcome_all e p (Suc i) ocs (onOutcome e (i # p) oc st)"

section \<open>Draining\<close>

text \<open>A call of the client with the loop's response handler installed.\<close>

definition pl_submit :: "Env \<Rightarrow> 'c submit \<Rightarrow> nat list \<Rightarrow> PredictionRequest \<Rightarrow> 'c PipelineLoop \<Rightarrow> unit Result \<times> 'c PipelineLoop" where
  "pl_submit e submit p req st =
     (let (res, resps, c) = submit p req (pl_pred st)
      in (res, respond_all e p 0 resps (st\<lparr>pl_pred := c\<rparr>)))"

definition pl_begin :: "Env \<Rightarrow> 'c submit \<Rightarrow> nat list \<Rightarrow> PredictionRequest \<Rightarrow> 'c PipelineLoop \<Rightarrow> 'c PipelineLoop" where
  "pl_begin e submit p req st =
     (let (i, r, att) = pa_open (en_ms e (0 # p)) (en_ms e (1 # p)) req (pl_attempts st);
          (res, st) = pl_submit e submit (2 # p) r (st\<lparr>pl_attempts := att\<rparr>)
      in st\<lparr>pl_attempts := snd (pa_close (en_ms e (3 # p)) (en_ns e (0 # p)) (en_ns e (1 # p)) i res (pl_attempts st))\<rparr>)"

definition pl_predict :: "Env \<Rightarrow> 'c submit \<Rightarrow> nat list \<Rightarrow> CrashEvent \<Rightarrow> 'c PipelineLoop \<Rightarrow> 'c PipelineLoop" where
  "pl_predict e submit p ev st =
     (if ev_kind ev \<noteq> Ev_End then st
      else let req = makePredictionRequest (en_ms e (0 # p)) (en_ns e (0 # p)) ev [];
               st = pl_begin e submit (1 # p) req st;
               st = snd (pl_submit e submit (2 # p) req st)
           in pl_inc Mc_PredictionsSubmitted st)"

definition pl_validate :: "Env \<Rightarrow> nat list \<Rightarrow> CrashEvent \<Rightarrow> 'c PipelineLoop \<Rightarrow> 'c PipelineLoop" where
  "pl_validate e p ev st =
     (let (result, _, _, v) = lv_onGameEnd (\<lambda>j. en_ms e (j # 0 # p)) (en_ns e (0 # p), en_ns e (1 # p))
                                (en_ns e (2 # p), en_ns e (3 # p)) ev (pl_validator st)
      in outcome_all e (1 # p) 0 (vr_outcomes result) (st\<lparr>pl_validator := v\<rparr>))"

fun drainPredictions :: "Env \<Rightarrow> 'c submit \<Rightarrow> nat list \<Rightarrow> nat \<Rightarrow> 'c PipelineLoop \<Rightarrow> 'c PipelineLoop" where
  "drainPredictions e submit p 0 st = st"
| "drainPredictions e submit p (Suc k) st =
     (case er_popPrediction (pl_router st) of
        (None, r) \<Rightarrow> st\<lparr>pl_router := r\<rparr>
      | (Some ev, r) \<Rightarrow> drainPredictions e submit p k (pl_predict e submit (k # p) ev (st\<lparr>pl_router := r\<rparr>)))"

fun drainValidations :: "Env \<Rightarrow> nat list \<Rightarrow> nat \<Rightarrow> 'c PipelineLoop \<Rightarrow> 'c PipelineLoop" where
  "drainValidations e p 0 st = st"
| "drainValidations e p (Suc k) st =
     (case er_popValidation (pl_router st) of
        (None, r) \<Rightarrow> st\<lparr>pl_router := r\<rparr>
      | (Some ev, r) \<Rightarrow> drainValidations e p k (pl_validate e (k # p) ev (st\<lparr>pl_router := r\<rparr>)))"

definition pl_expire :: "Env \<Rightarrow> nat list \<Rightarrow> 'c PipelineLoop \<Rightarrow> 'c PipelineLoop" where
  "pl_expire e p st =
     (let att = pl_attempts st; v = pl_validator st
      in st\<lparr>pl_attempts := snd (snd (pa_expireTimeouts (en_ms e (0 # p)) (en_attempts e att) att)),
            pl_validator := snd (lv_expireStale (en_ms e (1 # p)) 300000 (en_rounds e (lv_registry v)) v),
            pl_outbox := snd (lf_recoverExpiredLeases (en_ms e (2 # p)) (en_leases e (snd (pl_outbox st))) (pl_outbox st))\<rparr>)"

definition drain :: "Env \<Rightarrow> 'c submit \<Rightarrow> nat list \<Rightarrow> 'c PipelineLoop \<Rightarrow> 'c PipelineLoop" where
  "drain e submit p st =
     (let st = (if pl_ownsHandlers st then
                  let st = drainPredictions e submit (0 # p) (unat (sq_cap (er_to_prediction (pl_router st)))) st
                  in drainValidations e (1 # p) (unat (sq_cap (er_to_validation (pl_router st)))) st
                else st)
      in pl_expire e (2 # p) st)"

section \<open>One frame\<close>

text \<open>The part of \<open>onFrame\<close> after the duplicate filter.\<close>

definition onFresh :: "Env \<Rightarrow> 'c submit \<Rightarrow> CrashEvent \<Rightarrow> 'c PipelineLoop \<Rightarrow> 'c PipelineLoop" where
  "onFresh e submit ev st =
     (let st = st\<lparr>pl_rounds := snd (rg_apply (en_ms e [2]) ev (pl_rounds st))\<rparr>;
          st = (if ev_kind ev = Ev_End \<and> dless (Fin 0) (ev_crashPoint ev)
                then st\<lparr>pl_stats := addRound (ev_crashPoint ev) (pl_stats st)\<rparr> else st);
          (routed, r) = er_route (en_ns e [3]) (en_ns e [4]) ev (pl_router st);
          st = pl_inc (if \<not> routed then Mc_EventsDropped else Mc_EventsRouted) (st\<lparr>pl_router := r\<rparr>);
          st = drain e submit [3] st
      in st\<lparr>pl_tracker := map_option (lt_record St_Total ((en_ns e [5] - en_ns e [0]) sdiv 1000)) (pl_tracker st)\<rparr>)"

definition onFrame :: "Env \<Rightarrow> 'c submit \<Rightarrow> bytes \<Rightarrow> 'c PipelineLoop \<Rightarrow> unit Result \<times> 'c PipelineLoop" where
  "onFrame e submit data st =
     (let st = pl_inc Mc_EventsReceived st;
          (decoded, d) = decodeBinary (en_exp e) (en_ns e [1]) (en_ns e [2]) (en_ms e [0]) data Src_NativeSocket (pl_decoder st);
          st = st\<lparr>pl_decoder := d\<rparr>
      in case decoded of
           Inl err \<Rightarrow> (Inl err, pl_inc Mc_EventsDropped st)
         | Inr ev \<Rightarrow>
             let st = pl_inc Mc_EventsDecoded st;
                 (accepted, rt) = rp_observe (en_exp e) (en_ms e [1]) (en_ms e [4]) ev (pl_realtime st);
                 st = st\<lparr>pl_realtime := rt\<rparr>
             in if accepted = None \<and> (ev_kind ev = Ev_Heartbeat \<or> ev_kind ev = Ev_Connect) then (Inr (), st)
             else if accepted = None \<and> \<not> ev_valid ev then (Inr (), st)
             else let (fresh, f) = df_accept ev (pl_dupes st); st = st\<lparr>pl_dupes := f\<rparr>
             in if \<not> fresh then (Inr (), pl_inc Mc_EventsDropped st)
             else (Inr (), onFresh e submit ev st))"

section \<open>What the callbacks leave alone\<close>

text \<open>The front of the loop: everything the prediction client and the validator cannot reach.\<close>

definition pl_front :: "'c PipelineLoop \<Rightarrow> EventDecoder \<times> EventRouter \<times> RealtimePipeline \<times> RoundStateRegistry \<times>
    DuplicateFilter \<times> CrashStatsAccumulator \<times> LatencyTracker option \<times> bool" where
  "pl_front st = (pl_decoder st, pl_router st, pl_realtime st, pl_rounds st, pl_dupes st, pl_stats st, pl_tracker st,
     pl_ownsHandlers st)"

lemma front_inc [frame_simps]: "pl_front (pl_inc c st) = pl_front st" "pl_validator (pl_inc c st) = pl_validator st"
    "pl_outbox (pl_inc c st) = pl_outbox st"
  by (simp_all add: pl_inc_def pl_front_def)

lemma front_publish [frame_simps]: "pl_front (pl_publish now sig st) = pl_front st"
    "pl_validator (pl_publish now sig st) = pl_validator st"
    "pl_outbox (pl_publish now sig st) = snd (lf_publishSignal now sig (pl_outbox st))"
  by (simp_all add: pl_publish_def pl_inc_def pl_front_def)

lemma front_back_upd [frame_simps]:
  "pl_front (st\<lparr>pl_pred := c\<rparr>) = pl_front st" "pl_front (st\<lparr>pl_attempts := a\<rparr>) = pl_front st"
  "pl_front (st\<lparr>pl_validator := v\<rparr>) = pl_front st" "pl_front (st\<lparr>pl_outbox := b\<rparr>) = pl_front st"
  by (simp_all add: pl_front_def)

lemma front_response [frame_simps]: "pl_front (onPredictionResponse e p resp st) = pl_front st"
  by (simp add: onPredictionResponse_def Let_def case_prod_beta frame_simps)

lemma front_outcome [frame_simps]: "pl_front (onOutcome e p oc st) = pl_front st"
    "pl_validator (onOutcome e p oc st) = pl_validator st"
  by (simp_all add: onOutcome_def Let_def frame_simps)

lemma front_respond_all [frame_simps]: "pl_front (respond_all e p i rs st) = pl_front st"
  by (induction rs arbitrary: i st) (simp_all add: frame_simps)

lemma front_outcome_all [frame_simps]: "pl_front (outcome_all e p i ocs st) = pl_front st"
    "pl_validator (outcome_all e p i ocs st) = pl_validator st"
  by (induction ocs arbitrary: i st) (simp_all add: frame_simps)

lemma front_submit [frame_simps]: "pl_front (snd (pl_submit e submit p req st)) = pl_front st"
  by (simp add: pl_submit_def case_prod_beta frame_simps)

lemma front_predict [frame_simps]: "pl_front (pl_predict e submit p ev st) = pl_front st"
  by (simp add: pl_predict_def pl_begin_def Let_def case_prod_beta frame_simps)

lemma front_validate [frame_simps]: "pl_front (pl_validate e p ev st) = pl_front st"
  by (simp add: pl_validate_def Let_def case_prod_beta frame_simps)

lemma front_expire [frame_simps]: "pl_front (pl_expire e p st) = pl_front st"
  by (simp add: pl_expire_def Let_def pl_front_def)

lemma pl_frontD:
  "pl_front a = pl_front b \<Longrightarrow> pl_router a = pl_router b \<and> pl_dupes a = pl_dupes b \<and> pl_rounds a = pl_rounds b \<and>
     pl_realtime a = pl_realtime b \<and> pl_decoder a = pl_decoder b \<and> pl_stats a = pl_stats b \<and>
     pl_ownsHandlers a = pl_ownsHandlers b \<and> pl_tracker a = pl_tracker b"
  by (simp add: pl_front_def)

section \<open>What the callbacks keep\<close>

text \<open>The invariant of the back half: the validator's and the outbox's.\<close>

definition back_ok :: "'c PipelineLoop \<Rightarrow> bool" where
  "back_ok st \<longleftrightarrow> lv_inv (pl_validator st) \<and> ob_ok (fst (pl_outbox st))"

lemma ob_ok_publish: "ob_ok b \<Longrightarrow> ob_ok (snd (ob_publish now s b))"
  by (cases rule: ob_publish_cases [of b now s]) auto

lemma ob_ok_publishSignal: "ob_ok (fst x) \<Longrightarrow> ob_ok (fst (snd (lf_publishSignal now s x)))"
  using ob_ok_publish [of "fst x" now s] by (cases x) (simp add: lf_publishSignal_def Let_def case_prod_beta)

lemma ob_ok_requeue: "ob_ok b \<Longrightarrow> ob_ok (lf_requeue now item b)"
  using markFailed_ok by (simp add: lf_requeue_def Let_def case_prod_beta)

lemma ob_ok_recover: "ob_ok (fst x) \<Longrightarrow> ob_ok (fst (snd (lf_recoverExpiredLeases now ks x)))"
proof -
  have f: "ob_ok b \<Longrightarrow> ob_ok (fold (lf_requeue now) items b)" for items b
    by (induction items arbitrary: b) (simp_all add: ob_ok_requeue)
  assume "ob_ok (fst x)"
  then show ?thesis by (cases x) (simp add: lf_recoverExpiredLeases_def Let_def case_prod_beta f)
qed

lemma lv_inv_registry: "lv_inv v \<Longrightarrow> pr_inv r \<Longrightarrow> lv_inv (v\<lparr>lv_registry := r\<rparr>)"
  by (simp add: lv_inv_def)

lemma lv_inv_register: "lv_inv v \<Longrightarrow> lv_inv (snd (lv_registerPrediction ks ev v))"
  using pr_inv_register [of "lv_registry v" ks ev]
  by (simp add: lv_registerPrediction_def Let_def case_prod_beta lv_inv_def)

lemma lv_inv_expire: "lv_inv v \<Longrightarrow> lv_inv (snd (lv_expireStale now a ks v))"
  using pr_inv_expire [of "lv_registry v" now a ks]
  by (simp add: lv_expireStale_def Let_def case_prod_beta lv_inv_def)

lemma onGameEnd_settles:
  assumes inv: "lv_inv v" and r: "lv_onGameEnd clock t s ev v = (res, fed, hook, v')"
  shows "lv_inv v'"
    and "ev_kind ev = Ev_End \<Longrightarrow> ev_valid ev \<Longrightarrow> end_round ev \<noteq> [] \<Longrightarrow> end_round ev \<in> set (lv_resolved_order v')"
    and "ev_kind ev = Ev_End \<Longrightarrow> ev_valid ev \<Longrightarrow> end_round ev \<noteq> [] \<Longrightarrow> end_round ev \<notin> set (lv_resolved_order v) \<Longrightarrow>
      pr_list (lv_registry v') (end_round ev) = []"
proof -
  let ?g = "end_round ev"
  let ?live = "ev_kind ev = Ev_End \<and> ev_valid ev \<and> ?g \<noteq> []"
  have "lv_inv v' \<and> (?live \<longrightarrow> ?g \<in> set (lv_resolved_order v') \<and>
      (?g \<notin> set (lv_resolved_order v) \<longrightarrow> pr_list (lv_registry v') ?g = []))"
  proof (cases ?live)
    case False
    then have "v' = v" using r by (auto simp: lv_onGameEnd_def Let_def split: if_splits)
    with False inv show ?thesis by blast
  next
    case True
    then have l: "ev_kind ev = Ev_End" "ev_valid ev" "?g \<noteq> []" by simp_all
    show ?thesis
    proof (cases "?g \<in> set (lv_resolved_order v)")
      case seen: True
      have "v' = v\<lparr>lv_duplicate_ends := lv_duplicate_ends v + 1\<rparr>"
        using onGameEnd_duplicate [OF l inv seen, of clock t s] r by simp
      then show ?thesis using inv seen by (simp add: lv_inv_def)
    next
      case False
      note st = onGameEnd_state [OF l inv False r]
      note fr = lv_remember_fresh [OF inv False]
      have w: "lv_inv (snd (lv_remember ?g v))" "?g \<in> set (lv_resolved_order (snd (lv_remember ?g v)))"
        using lv.inv_offer [OF inv, of ?g] lv.offer_recent [OF inv, of ?g] by (simp_all add: lv_limit_def)
      have reg: "pr_inv (lv_registry v')" "pr_list (lv_registry v') ?g = []"
        using inv pr_inv_take [of "lv_registry v" ?g] by (auto simp: st(3) lv_inv_def pr_takeForRound_def pr_list_def split: option.splits)
      have "lv_inv v'" using w(1) reg(1) unfolding lv_inv_def st(4-6) by simp
      then show ?thesis using w(2) reg(2) by (simp add: st(4))
    qed
  qed
  then show "lv_inv v'"
    and "ev_kind ev = Ev_End \<Longrightarrow> ev_valid ev \<Longrightarrow> ?g \<noteq> [] \<Longrightarrow> ?g \<in> set (lv_resolved_order v')"
    and "ev_kind ev = Ev_End \<Longrightarrow> ev_valid ev \<Longrightarrow> ?g \<noteq> [] \<Longrightarrow> ?g \<notin> set (lv_resolved_order v) \<Longrightarrow>
      pr_list (lv_registry v') ?g = []" by blast+
qed

lemma back_ok_upd [simp]:
  "back_ok (pl_inc c st) = back_ok st" "back_ok (st\<lparr>pl_pred := x\<rparr>) = back_ok st"
  "back_ok (st\<lparr>pl_attempts := a\<rparr>) = back_ok st" "back_ok (st\<lparr>pl_router := r\<rparr>) = back_ok st"
  by (simp_all add: back_ok_def frame_simps)

lemma back_ok_publish: "back_ok st \<Longrightarrow> back_ok (pl_publish now sig st)"
  by (simp add: back_ok_def frame_simps ob_ok_publishSignal)

text \<open>What a response can do to the validator: it may register a prediction, no more.\<close>

lemma response_validator:
  "\<exists>a. pl_validator (onPredictionResponse e p resp st) = pl_validator st \<or>
     pl_validator (onPredictionResponse e p resp st) = snd (lv_registerPrediction (fst a) (snd a) (pl_validator st))"
  by (simp add: onPredictionResponse_def Let_def case_prod_beta frame_simps) blast

lemma register_resolved [simp]: "lv_resolved_order (snd (lv_registerPrediction ks ev v)) = lv_resolved_order v"
  by (simp add: lv_registerPrediction_def Let_def case_prod_beta)

lemma back_ok_response: "back_ok st \<Longrightarrow> back_ok (onPredictionResponse e p resp st)"
proof -
  assume ok: "back_ok st"
  obtain a where a: "pl_validator (onPredictionResponse e p resp st) = pl_validator st \<or>
     pl_validator (onPredictionResponse e p resp st) = snd (lv_registerPrediction (fst a) (snd a) (pl_validator st))"
    using response_validator by blast
  have "ob_ok (fst (pl_outbox (onPredictionResponse e p resp st)))"
    using ok by (simp add: onPredictionResponse_def Let_def case_prod_beta frame_simps back_ok_def ob_ok_publishSignal)
  then show ?thesis using ok a lv_inv_register by (auto simp: back_ok_def)
qed

lemma back_ok_respond_all:
  "back_ok st \<Longrightarrow> back_ok (respond_all e p i rs st) \<and>
     lv_resolved_order (pl_validator (respond_all e p i rs st)) = lv_resolved_order (pl_validator st)"
proof (induction rs arbitrary: i st)
  case (Cons r rs)
  have "lv_resolved_order (pl_validator (onPredictionResponse e (i # p) r st)) = lv_resolved_order (pl_validator st)"
    using response_validator [of e "i # p" r st] by auto
  with Cons.IH [OF back_ok_response [OF Cons.prems]] show ?case by simp
qed simp

lemma back_ok_submit:
  "back_ok st \<Longrightarrow> back_ok (snd (pl_submit e submit p req st)) \<and>
     lv_resolved_order (pl_validator (snd (pl_submit e submit p req st))) = lv_resolved_order (pl_validator st)"
proof -
  assume ok: "back_ok st"
  then show ?thesis using back_ok_respond_all [of "st\<lparr>pl_pred := c\<rparr>" e p 0 for c]
    by (simp add: pl_submit_def case_prod_beta)
qed

lemma back_ok_begin:
  "back_ok st \<Longrightarrow> back_ok (pl_begin e submit p req st) \<and>
     lv_resolved_order (pl_validator (pl_begin e submit p req st)) = lv_resolved_order (pl_validator st)"
  using back_ok_submit [of "st\<lparr>pl_attempts := a\<rparr>" e submit "2 # p" for a]
  by (simp add: pl_begin_def Let_def case_prod_beta)

lemma back_ok_predict:
  "back_ok st \<Longrightarrow> back_ok (pl_predict e submit p ev st) \<and>
     lv_resolved_order (pl_validator (pl_predict e submit p ev st)) = lv_resolved_order (pl_validator st)"
proof -
  assume ok: "back_ok st"
  let ?req = "makePredictionRequest (en_ms e (0 # p)) (en_ns e (0 # p)) ev []"
  show ?thesis
    using ok back_ok_begin [OF ok, of e submit "1 # p" ?req]
      back_ok_submit [of "pl_begin e submit (1 # p) ?req st" e submit "2 # p" ?req]
    by (simp add: pl_predict_def Let_def frame_simps)
qed

lemma back_ok_outcome_all: "back_ok st \<Longrightarrow> back_ok (outcome_all e p i ocs st)"
  by (induction ocs arbitrary: i st) (simp_all add: onOutcome_def Let_def back_ok_publish)

lemma back_ok_validate: "back_ok st \<Longrightarrow> back_ok (pl_validate e p ev st)"
proof -
  assume ok: "back_ok st"
  obtain res fed hook v where r: "lv_onGameEnd (\<lambda>j. en_ms e (j # 0 # p)) (en_ns e (0 # p), en_ns e (1 # p))
      (en_ns e (2 # p), en_ns e (3 # p)) ev (pl_validator st) = (res, fed, hook, v)" by (metis prod_cases4)
  then have "back_ok (st\<lparr>pl_validator := v\<rparr>)" using ok onGameEnd_settles(1) [OF _ r] by (simp add: back_ok_def)
  then show ?thesis unfolding pl_validate_def r Let_def prod.case by (rule back_ok_outcome_all)
qed

lemma back_ok_expire: "back_ok st \<Longrightarrow> back_ok (pl_expire e p st)"
  by (simp add: back_ok_def pl_expire_def Let_def lv_inv_expire ob_ok_recover)

section \<open>Draining\<close>

text \<open>A loop over one queue of the router pops all of it and leaves the rest of the router as it was; the bodies of
  the two loops are steps that do not touch the front.\<close>

definition pred_router :: "EventRouter \<Rightarrow> EventRouter \<Rightarrow> bool" where
  "pred_router r r' \<longleftrightarrow> er_inv r' \<and> sq_list (er_to_prediction r') = [] \<and> er_to_validation r' = er_to_validation r \<and>
     er_drops_pred r' = er_drops_pred r \<and> er_drops_val r' = er_drops_val r \<and> er_seen_order r' = er_seen_order r"

definition val_router :: "EventRouter \<Rightarrow> EventRouter \<Rightarrow> bool" where
  "val_router r r' \<longleftrightarrow> er_inv r' \<and> sq_list (er_to_validation r') = [] \<and> er_to_prediction r' = er_to_prediction r \<and>
     er_drops_pred r' = er_drops_pred r \<and> er_drops_val r' = er_drops_val r \<and> er_seen_order r' = er_seen_order r"

lemma popPrediction_cases:
  assumes "er_inv r"
  obtains (none) "er_popPrediction r = (None, r)" "sq_list (er_to_prediction r) = []"
  | (some) ev q where "er_popPrediction r = (Some ev, r\<lparr>er_to_prediction := q\<rparr>)"
      "sq_list (er_to_prediction r) = ev # sq_list q" "er_inv (r\<lparr>er_to_prediction := q\<rparr>)"
proof -
  have i: "sq_inv (er_to_prediction r)" using assms by (simp add: er_inv_def)
  show thesis
  proof (cases rule: sq.pop_cases [OF i, case_names empty item])
    case empty
    then show ?thesis by (intro none) (simp_all add: er_popPrediction_def)
  next
    case (item ev q)
    then show ?thesis using assms by (intro some [of ev q]) (simp_all add: er_popPrediction_def er_inv_def er_lru_def)
  qed
qed

lemma popValidation_cases:
  assumes "er_inv r"
  obtains (none) "er_popValidation r = (None, r)" "sq_list (er_to_validation r) = []"
  | (some) ev q where "er_popValidation r = (Some ev, r\<lparr>er_to_validation := q\<rparr>)"
      "sq_list (er_to_validation r) = ev # sq_list q" "er_inv (r\<lparr>er_to_validation := q\<rparr>)"
proof -
  have i: "sq_inv (er_to_validation r)" using assms by (simp add: er_inv_def)
  show thesis
  proof (cases rule: sq.pop_cases [OF i, case_names empty item])
    case empty
    then show ?thesis by (intro none) (simp_all add: er_popValidation_def)
  next
    case (item ev q)
    then show ?thesis using assms by (intro some [of ev q]) (simp_all add: er_popValidation_def er_inv_def er_lru_def)
  qed
qed

definition pl_rest :: "'c PipelineLoop \<Rightarrow> EventDecoder \<times> RealtimePipeline \<times> RoundStateRegistry \<times>
    DuplicateFilter \<times> CrashStatsAccumulator \<times> LatencyTracker option \<times> bool" where
  "pl_rest st = (case pl_front st of (d, _, x) \<Rightarrow> (d, x))"

lemma rest_front: "pl_front a = pl_front b \<Longrightarrow> pl_rest a = pl_rest b"
  by (simp add: pl_rest_def)

lemma rest_router [simp]: "pl_rest (st\<lparr>pl_router := r\<rparr>) = pl_rest st"
  by (simp add: pl_rest_def pl_front_def)

lemma drainPredictions_ok:
  "back_ok st \<Longrightarrow> er_inv (pl_router st) \<Longrightarrow> length (sq_list (er_to_prediction (pl_router st))) < k \<Longrightarrow>
   let st' = drainPredictions e submit p k st in
     back_ok st' \<and> pred_router (pl_router st) (pl_router st') \<and> pl_rest st' = pl_rest st \<and>
     lv_resolved_order (pl_validator st') = lv_resolved_order (pl_validator st)"
proof (induction k arbitrary: st)
  case (Suc k)
  show ?case
  proof (cases rule: popPrediction_cases [OF Suc.prems(2), case_names none some])
    case none
    then show ?thesis using Suc.prems by (simp add: pred_router_def)
  next
    case (some ev q)
    let ?t = "st\<lparr>pl_router := (pl_router st)\<lparr>er_to_prediction := q\<rparr>\<rparr>"
    let ?s = "pl_predict e submit (k # p) ev ?t"
    have f: "pl_front ?s = pl_front ?t" by (simp add: frame_simps)
    have ok: "back_ok ?s \<and> lv_resolved_order (pl_validator ?s) = lv_resolved_order (pl_validator st)"
      using back_ok_predict [of ?t] Suc.prems(1) by simp
    have r: "pl_router ?s = (pl_router st)\<lparr>er_to_prediction := q\<rparr>" using pl_frontD [OF f] by simp
    have IH: "let st' = drainPredictions e submit p k ?s in
       back_ok st' \<and> pred_router (pl_router ?s) (pl_router st') \<and> pl_rest st' = pl_rest ?s \<and>
       lv_resolved_order (pl_validator st') = lv_resolved_order (pl_validator ?s)"
      using Suc.IH [of ?s] ok some Suc.prems(3) by (simp add: r)
    show ?thesis using IH ok some rest_front [OF f] by (simp add: Let_def r pred_router_def)
  qed
qed simp

lemma drainValidations_ok:
  "back_ok st \<Longrightarrow> er_inv (pl_router st) \<Longrightarrow> length (sq_list (er_to_validation (pl_router st))) < k \<Longrightarrow>
   let st' = drainValidations e p k st in
     back_ok st' \<and> val_router (pl_router st) (pl_router st') \<and> pl_rest st' = pl_rest st"
proof (induction k arbitrary: st)
  case (Suc k)
  show ?case
  proof (cases rule: popValidation_cases [OF Suc.prems(2), case_names none some])
    case none
    then show ?thesis using Suc.prems by (simp add: val_router_def)
  next
    case (some ev q)
    let ?t = "st\<lparr>pl_router := (pl_router st)\<lparr>er_to_validation := q\<rparr>\<rparr>"
    let ?s = "pl_validate e (k # p) ev ?t"
    have f: "pl_front ?s = pl_front ?t" by (simp add: frame_simps)
    have ok: "back_ok ?s" using back_ok_validate [of ?t] Suc.prems(1) by simp
    have r: "pl_router ?s = (pl_router st)\<lparr>er_to_validation := q\<rparr>" using pl_frontD [OF f] by simp
    have IH: "let st' = drainValidations e p k ?s in
       back_ok st' \<and> val_router (pl_router ?s) (pl_router st') \<and> pl_rest st' = pl_rest ?s"
      using Suc.IH [of ?s] ok some Suc.prems(3) by (simp add: r)
    show ?thesis using IH ok some rest_front [OF f] by (simp add: Let_def r val_router_def)
  qed
qed simp

definition pl_idle :: "'c PipelineLoop \<Rightarrow> bool" where
  "pl_idle st \<longleftrightarrow> sq_list (er_to_prediction (pl_router st)) = [] \<and> sq_list (er_to_validation (pl_router st)) = []"

lemma sq_cap_two: "sq_inv q \<Longrightarrow> 2 \<le> unat (sq_cap q)"
proof -
  assume "sq_inv q"
  then obtain k where "1 \<le> k" "unat (sq_cap q) = 2 ^ k" unfolding sq_inv_def by blast
  then show ?thesis using power_increasing [of 1 k "2 :: nat"] by simp
qed

lemma sq_fuel: "sq_inv q \<Longrightarrow> length (sq_list q) < unat (sq_cap q)"
  using sq.bounded [of q] sq_cap_two [of q] by simp

lemma drain_pops_all:
  assumes "back_ok st" "er_inv (pl_router st)"
  shows "let st' = drain e submit p st in
    back_ok st' \<and> er_inv (pl_router st') \<and> pl_rest st' = pl_rest st \<and>
    (pl_ownsHandlers st \<longrightarrow> pl_idle st') \<and> (\<not> pl_ownsHandlers st \<longrightarrow> pl_router st' = pl_router st) \<and>
    er_drops_pred (pl_router st') = er_drops_pred (pl_router st) \<and> er_drops_val (pl_router st') = er_drops_val (pl_router st) \<and>
    er_seen_order (pl_router st') = er_seen_order (pl_router st)"
proof -
  have ex: "pl_router (pl_expire e (2 # p) x) = pl_router x" "pl_rest (pl_expire e (2 # p) x) = pl_rest x" for x :: "'a PipelineLoop"
    using pl_frontD [OF front_expire, of e "2 # p" x] rest_front [OF front_expire, of e "2 # p" x] by blast+
  show ?thesis
  proof (cases "pl_ownsHandlers st")
    case False
    then show ?thesis using assms by (simp add: drain_def Let_def ex back_ok_expire)
  next
    case True
    define a where "a = drainPredictions e submit (0 # p) (unat (sq_cap (er_to_prediction (pl_router st)))) st"
    define b where "b = drainValidations e (1 # p) (unat (sq_cap (er_to_validation (pl_router a)))) a"
    have "sq_inv (er_to_prediction (pl_router st))" using assms by (simp add: er_inv_def)
    from drainPredictions_ok [OF assms sq_fuel [OF this], of e submit "0 # p"]
    have A: "back_ok a" "pred_router (pl_router st) (pl_router a)" "pl_rest a = pl_rest st" by (simp_all add: a_def Let_def)
    then have i: "er_inv (pl_router a)" by (simp add: pred_router_def)
    then have "sq_inv (er_to_validation (pl_router a))" by (simp add: er_inv_def)
    from drainValidations_ok [OF A(1) i sq_fuel [OF this], of e "1 # p"]
    have B: "back_ok b" "val_router (pl_router a) (pl_router b)" "pl_rest b = pl_rest a" by (simp_all add: b_def Let_def)
    have "drain e submit p st = pl_expire e (2 # p) b" using True by (simp add: drain_def Let_def a_def b_def)
    then show ?thesis using A B True
      by (simp add: ex back_ok_expire Let_def pl_idle_def pred_router_def val_router_def)
  qed
qed

section \<open>The invariant of the loop\<close>

definition pl_inv :: "'c PipelineLoop \<Rightarrow> bool" where
  "pl_inv st \<longleftrightarrow> back_ok st \<and> er_inv (pl_router st) \<and> df_inv (pl_dupes st) \<and> rg_inv (pl_rounds st) \<and>
     vl_inv (rp_validator (pl_realtime st))"

lemma observe_inv: "vl_inv (rp_validator p) \<Longrightarrow> vl_inv (rp_validator (snd (rp_observe ex now us ev p)))"
proof (cases "normalizeSourceEvent ex now (fromCrashEvent ev)")
  case (Some n)
  assume inv: "vl_inv (rp_validator p)"
  obtain r v where v: "vl_validate now n (rp_validator p) = (r, v)" by fastforce
  show ?thesis using vl_validate_window [OF inv v] by (simp add: rp_observe_def Some v Let_def)
qed (simp add: rp_observe_def)

lemma df_accept_inv: "df_inv d \<Longrightarrow> df_inv (snd (df_accept ev d))"
  using df.inv_offer by (simp add: df_accept_def)

text \<open>Routing into empty queues: nothing is dropped, an End event is in both queues.\<close>

lemma fanout_idle:
  assumes "er_inv r" "sq_list (er_to_prediction r) = []" "sq_list (er_to_validation r) = []"
  shows "sq_list (er_to_prediction (snd (er_fanout ev r))) = (if ev_kind ev = Ev_End then [ev] else [])"
    and "sq_list (er_to_validation (snd (er_fanout ev r))) = (if ev_kind ev = Ev_End then [ev] else [])"
    and "er_drops_pred (snd (er_fanout ev r)) = er_drops_pred r" "er_drops_val (snd (er_fanout ev r)) = er_drops_val r"
proof -
  have i: "sq_inv (er_to_prediction r)" "sq_inv (er_to_validation r)" using assms by (simp_all add: er_inv_def)
  have room: "er_room (er_to_prediction r)" "er_room (er_to_validation r)"
    using assms(2,3) sq_cap_two [OF i(1)] sq_cap_two [OF i(2)] by (simp_all add: er_room_def)
  note e = spsc_push_effect [OF i(1), of ev] spsc_push_effect [OF i(2), of ev]
  show "sq_list (er_to_prediction (snd (er_fanout ev r))) = (if ev_kind ev = Ev_End then [ev] else [])"
    "sq_list (er_to_validation (snd (er_fanout ev r))) = (if ev_kind ev = Ev_End then [ev] else [])"
    "er_drops_pred (snd (er_fanout ev r)) = er_drops_pred r" "er_drops_val (snd (er_fanout ev r)) = er_drops_val r"
    using assms e room by (simp_all add: er_fanout_def Let_def case_prod_beta)
qed

lemma route_idle:
  assumes "er_inv r" "sq_list (er_to_prediction r) = []" "sq_list (er_to_validation r) = []"
  shows "er_drops_pred (snd (er_route t0 t1 ev r)) = er_drops_pred r"
    and "er_drops_val (snd (er_route t0 t1 ev r)) = er_drops_val r"
    and "end_event ev \<Longrightarrow> er_key ev \<notin> set (er_seen_order r) \<Longrightarrow>
      sq_list (er_to_validation (snd (er_route t0 t1 ev r))) = [ev\<lparr>ev_routedAtNs := t0\<rparr>]"
proof -
  let ?ev = "ev\<lparr>ev_routedAtNs := t0\<rparr>"
  define m where "m = (if ev_gameId ev \<noteq> [] then er_remember (er_key ?ev) r else (True, r))"
  obtain fresh r1 where m: "m = (fresh, r1)" by (cases m)
  have k: "er_key ?ev = er_key ev" by (simp add: er_key_def)
  have lru: "er_lru r" using assms(1) by (simp add: er_inv_def)
  have q: "er_to_prediction r1 = er_to_prediction r" "er_to_validation r1 = er_to_validation r"
      "er_drops_pred r1 = er_drops_pred r" "er_drops_val r1 = er_drops_val r"
    using m er_remember_frame [of "er_key ?ev" r] unfolding m_def
    by (auto simp: er_remember_def Let_def split: if_splits prod.splits)
  have "er_lru r1" using m lru er.inv_offer [OF lru, of "er_key ?ev"] unfolding m_def by (auto split: if_splits)
  then have i: "er_inv r1" using assms(1) m er_remember_frame [of "er_key ?ev" r] unfolding m_def er_inv_def
    by (auto split: if_splits)
  have fr: "fresh" if "er_key ev \<notin> set (er_seen_order r)"
    using that m er.offer_iff [OF lru, of "er_key ?ev"] unfolding m_def k by (auto split: if_splits)
  note fan = fanout_idle [OF i, of ?ev, unfolded q, OF assms(2,3)]
  have eq: "snd (er_route t0 t1 ev r) = (if \<not> ev_valid ev then r\<lparr>er_rejected := er_rejected r + 1\<rparr>
      else if \<not> fresh then r1
      else (snd (er_fanout ?ev r1))\<lparr>er_tracker := map_option (lt_record St_Queue ((t1 - t0) sdiv 1000)) (er_tracker (snd (er_fanout ?ev r1)))\<rparr>)"
    using m unfolding m_def by (simp add: er_route_def Let_def case_prod_beta split: if_splits)
  show "sq_list (er_to_validation (snd (er_route t0 t1 ev r))) = [ev\<lparr>ev_routedAtNs := t0\<rparr>]"
    if "end_event ev" "er_key ev \<notin> set (er_seen_order r)"
    using that fan q fr unfolding eq end_event_def by simp_all
  show "er_drops_pred (snd (er_route t0 t1 ev r)) = er_drops_pred r"
    "er_drops_val (snd (er_route t0 t1 ev r)) = er_drops_val r"
    using fan q unfolding eq by simp_all
qed

text \<open>The state the loop hands to the fan-out of a fresh event.\<close>

definition pl_routed :: "Env \<Rightarrow> CrashEvent \<Rightarrow> 'c PipelineLoop \<Rightarrow> 'c PipelineLoop" where
  "pl_routed e ev st =
     (let st = st\<lparr>pl_rounds := snd (rg_apply (en_ms e [2]) ev (pl_rounds st))\<rparr>;
          st = (if ev_kind ev = Ev_End \<and> dless (Fin 0) (ev_crashPoint ev)
                then st\<lparr>pl_stats := addRound (ev_crashPoint ev) (pl_stats st)\<rparr> else st);
          (routed, r) = er_route (en_ns e [3]) (en_ns e [4]) ev (pl_router st)
      in pl_inc (if \<not> routed then Mc_EventsDropped else Mc_EventsRouted) (st\<lparr>pl_router := r\<rparr>))"

lemma onFresh_eq:
  "onFresh e submit ev st = (let st = drain e submit [3] (pl_routed e ev st)
     in st\<lparr>pl_tracker := map_option (lt_record St_Total ((en_ns e [5] - en_ns e [0]) sdiv 1000)) (pl_tracker st)\<rparr>)"
  by (simp add: onFresh_def pl_routed_def Let_def case_prod_beta)

lemma routed_fields:
  "pl_router (pl_routed e ev st) = snd (er_route (en_ns e [3]) (en_ns e [4]) ev (pl_router st))"
  "back_ok (pl_routed e ev st) = back_ok st" "pl_dupes (pl_routed e ev st) = pl_dupes st"
  "pl_rounds (pl_routed e ev st) = snd (rg_apply (en_ms e [2]) ev (pl_rounds st))"
  "pl_realtime (pl_routed e ev st) = pl_realtime st" "pl_ownsHandlers (pl_routed e ev st) = pl_ownsHandlers st"
  "pl_validator (pl_routed e ev st) = pl_validator st"
  by (simp_all add: pl_routed_def pl_inc_def Let_def case_prod_beta back_ok_def)

lemma pl_restD:
  "pl_rest a = pl_rest b \<Longrightarrow> pl_dupes a = pl_dupes b \<and> pl_rounds a = pl_rounds b \<and> pl_realtime a = pl_realtime b \<and>
     pl_ownsHandlers a = pl_ownsHandlers b"
  by (simp add: pl_rest_def pl_front_def)

lemma tracker_upd [simp]:
  "back_ok (st\<lparr>pl_tracker := t\<rparr>) = back_ok st" "pl_idle (st\<lparr>pl_tracker := t\<rparr>) = pl_idle st"
  by (simp_all add: back_ok_def pl_idle_def)

lemma onFresh_ok:
  assumes "pl_inv st"
  shows "pl_inv (onFresh e submit ev st)" "pl_dupes (onFresh e submit ev st) = pl_dupes st"
    "pl_ownsHandlers (onFresh e submit ev st) = pl_ownsHandlers st"
    "pl_ownsHandlers st \<Longrightarrow> pl_idle (onFresh e submit ev st)"
    "pl_idle st \<Longrightarrow> er_drops_pred (pl_router (onFresh e submit ev st)) = er_drops_pred (pl_router st) \<and>
       er_drops_val (pl_router (onFresh e submit ev st)) = er_drops_val (pl_router st)"
proof -
  let ?r = "pl_routed e ev st" and ?d = "drain e submit [3] (pl_routed e ev st)"
  have i: "back_ok ?r" "er_inv (pl_router ?r)" "df_inv (pl_dupes st)" "rg_inv (pl_rounds ?r)"
      "vl_inv (rp_validator (pl_realtime st))"
    using assms er_inv_route rg_inv_apply by (simp_all add: pl_inv_def routed_fields)
  note d = drain_pops_all [OF i(1,2), of e submit "[3]", unfolded Let_def]
  have f: "pl_dupes ?d = pl_dupes st" "pl_rounds ?d = pl_rounds ?r" "pl_realtime ?d = pl_realtime st"
      "pl_ownsHandlers ?d = pl_ownsHandlers st"
    using pl_restD [of ?d ?r] d by (simp_all add: routed_fields)
  show "pl_inv (onFresh e submit ev st)" "pl_dupes (onFresh e submit ev st) = pl_dupes st"
    "pl_ownsHandlers (onFresh e submit ev st) = pl_ownsHandlers st"
    using i d f by (simp_all add: onFresh_eq Let_def pl_inv_def)
  show "pl_idle (onFresh e submit ev st)" if "pl_ownsHandlers st"
    using d that by (simp add: onFresh_eq Let_def routed_fields)
  show "er_drops_pred (pl_router (onFresh e submit ev st)) = er_drops_pred (pl_router st) \<and>
       er_drops_val (pl_router (onFresh e submit ev st)) = er_drops_val (pl_router st)" if "pl_idle st"
    using d route_idle(1,2) [of "pl_router st"] that assms by (simp add: onFresh_eq Let_def routed_fields pl_idle_def pl_inv_def)
qed

section \<open>One frame: inert or fresh\<close>

definition pl_core :: "'c PipelineLoop \<Rightarrow> EventRouter \<times> 'c \<times> LiveValidator \<times> (Outbox \<times> OutboxLifecycle) \<times>
    PredictionAttemptCoordinator \<times> RoundStateRegistry \<times> CrashStatsAccumulator \<times> LatencyTracker option \<times> bool" where
  "pl_core st = (pl_router st, pl_pred st, pl_validator st, pl_outbox st, pl_attempts st, pl_rounds st, pl_stats st,
     pl_tracker st, pl_ownsHandlers st)"

lemma core_upd [simp]:
  "pl_core (pl_inc c st) = pl_core st" "pl_core (st\<lparr>pl_decoder := d\<rparr>) = pl_core st"
  "pl_core (st\<lparr>pl_realtime := rt\<rparr>) = pl_core st" "pl_core (st\<lparr>pl_dupes := f\<rparr>) = pl_core st"
  by (simp_all add: pl_core_def pl_inc_def)

lemma inc_fields [simp]:
  "pl_dupes (pl_inc c st) = pl_dupes st" "pl_realtime (pl_inc c st) = pl_realtime st"
  by (simp_all add: pl_inc_def)

lemma pl_inv_core:
  "pl_core a = pl_core b \<Longrightarrow> pl_inv b \<Longrightarrow> df_inv (pl_dupes a) \<Longrightarrow> vl_inv (rp_validator (pl_realtime a)) \<Longrightarrow> pl_inv a"
  by (simp add: pl_inv_def pl_core_def back_ok_def)

text \<open>The state after decoding and the realtime check.\<close>

definition pl_observed :: "Env \<Rightarrow> bytes \<Rightarrow> CrashEvent \<Rightarrow> 'c PipelineLoop \<Rightarrow> 'c PipelineLoop" where
  "pl_observed e data ev st =
     (let st = pl_inc Mc_EventsReceived st;
          st = st\<lparr>pl_decoder := snd (decodeBinary (en_exp e) (en_ns e [1]) (en_ns e [2]) (en_ms e [0]) data Src_NativeSocket (pl_decoder st))\<rparr>;
          st = pl_inc Mc_EventsDecoded st
      in st\<lparr>pl_realtime := snd (rp_observe (en_exp e) (en_ms e [1]) (en_ms e [4]) ev (pl_realtime st))\<rparr>)"

definition pl_event :: "Env \<Rightarrow> bytes \<Rightarrow> EventDecoder \<Rightarrow> CrashEvent Result" where
  "pl_event e data d = fst (decodeBinary (en_exp e) (en_ns e [1]) (en_ns e [2]) (en_ms e [0]) data Src_NativeSocket d)"

definition pl_early :: "Env \<Rightarrow> CrashEvent \<Rightarrow> RealtimePipeline \<Rightarrow> bool" where
  "pl_early e ev rt \<longleftrightarrow> fst (rp_observe (en_exp e) (en_ms e [1]) (en_ms e [4]) ev rt) = None \<and>
     (ev_kind ev = Ev_Heartbeat \<or> ev_kind ev = Ev_Connect \<or> \<not> ev_valid ev)"

lemma observed_fields:
  "pl_core (pl_observed e data ev st) = pl_core st" "pl_dupes (pl_observed e data ev st) = pl_dupes st"
  "pl_realtime (pl_observed e data ev st) = snd (rp_observe (en_exp e) (en_ms e [1]) (en_ms e [4]) ev (pl_realtime st))"
  by (simp_all add: pl_observed_def Let_def pl_inc_def pl_core_def)

lemma onFrame_eq:
  "onFrame e submit data st =
     (case pl_event e data (pl_decoder st) of
        Inl err \<Rightarrow> (Inl err, pl_inc Mc_EventsDropped ((pl_inc Mc_EventsReceived st)
           \<lparr>pl_decoder := snd (decodeBinary (en_exp e) (en_ns e [1]) (en_ns e [2]) (en_ms e [0]) data Src_NativeSocket (pl_decoder st))\<rparr>))
      | Inr ev \<Rightarrow> (Inr (),
          let st1 = pl_observed e data ev st; st2 = st1\<lparr>pl_dupes := snd (df_accept ev (pl_dupes st))\<rparr>
          in if pl_early e ev (pl_realtime st) then st1
             else if \<not> fst (df_accept ev (pl_dupes st)) then pl_inc Mc_EventsDropped st2 else onFresh e submit ev st2))"
  by (simp add: onFrame_def pl_event_def pl_observed_def pl_early_def Let_def case_prod_beta pl_inc_def split: sum.splits)

lemma onFrame_new:
  assumes inv: "pl_inv st" and ev: "pl_event e data (pl_decoder st) = Inr ev"
    and n: "\<not> pl_early e ev (pl_realtime st)" "ev_valid ev" "makeKey ev \<notin> set (df_order (pl_dupes st))"
  obtains st' where "onFrame e submit data st = (Inr (), onFresh e submit ev st')" "pl_core st' = pl_core st" "pl_inv st'"
    "df_order (pl_dupes st') = trim (df_max (pl_dupes st)) (df_order (pl_dupes st) @ [makeKey ev])"
    "df_max (pl_dupes st') = df_max (pl_dupes st)"
proof -
  let ?k = "makeKey ev" and ?s = "(pl_observed e data ev st)\<lparr>pl_dupes := snd (df_accept ev (pl_dupes st))\<rparr>"
  have d: "df_inv (pl_dupes st)" "vl_inv (rp_validator (pl_realtime st))" using inv by (simp_all add: pl_inv_def)
  have a: "df_accept ev (pl_dupes st) = acceptKey ?k (pl_dupes st)" using n by (simp add: df_accept_def)
  have f: "fst (df_accept ev (pl_dupes st))" using df.offer_iff [OF d(1), of ?k] n by (simp add: a)
  show thesis
  proof (rule that [of ?s])
    show "onFrame e submit data st = (Inr (), onFresh e submit ev ?s)" using n f by (simp add: onFrame_eq ev Let_def)
    show "pl_inv ?s"
      using d df_accept_inv observe_inv by (intro pl_inv_core [OF _ inv]) (simp_all add: observed_fields)
  qed (use n d df.recent_fresh [OF d(1), of ?k] df.cap_offer [OF d(1), of ?k] in \<open>simp_all add: a observed_fields\<close>)
qed

lemma onFrame_cases:
  assumes inv: "pl_inv st"
  obtains (inert) "pl_core (snd (onFrame e submit data st)) = pl_core st" "pl_inv (snd (onFrame e submit data st))"
      "df_order (pl_dupes (snd (onFrame e submit data st))) = df_order (pl_dupes st)"
      "df_max (pl_dupes (snd (onFrame e submit data st))) = df_max (pl_dupes st)"
  | (fresh) ev st' where "onFrame e submit data st = (Inr (), onFresh e submit ev st')" "pl_core st' = pl_core st" "pl_inv st'"
      "pl_event e data (pl_decoder st) = Inr ev" "ev_valid ev" "makeKey ev \<notin> set (df_order (pl_dupes st))"
      "df_order (pl_dupes st') = trim (df_max (pl_dupes st)) (df_order (pl_dupes st) @ [makeKey ev])"
      "df_max (pl_dupes st') = df_max (pl_dupes st)"
proof -
  have d: "df_inv (pl_dupes st)" "vl_inv (rp_validator (pl_realtime st))" using inv by (simp_all add: pl_inv_def)
  show thesis
  proof (cases "pl_event e data (pl_decoder st)")
    case (Inl err)
    show ?thesis using d by (intro inert pl_inv_core [OF _ inv]) (simp_all add: onFrame_eq Inl pl_inc_def pl_core_def)
  next
    case (Inr ev)
    have rt: "vl_inv (rp_validator (pl_realtime (pl_observed e data ev st)))"
      using d by (simp add: observed_fields observe_inv)
    let ?k = "makeKey ev"
    consider (early) "pl_early e ev (pl_realtime st) \<or> \<not> ev_valid ev"
      | (seen) "\<not> pl_early e ev (pl_realtime st)" "ev_valid ev" "?k \<in> set (df_order (pl_dupes st))"
      | (new) "\<not> pl_early e ev (pl_realtime st)" "ev_valid ev" "?k \<notin> set (df_order (pl_dupes st))" by blast
    then show ?thesis
    proof cases
      case early
      show ?thesis using d rt early
        by (intro inert pl_inv_core [OF _ inv]) (auto simp: onFrame_eq Inr Let_def observed_fields df_accept_def)
    next
      case seen
      have "df_accept ev (pl_dupes st) = (False, (pl_dupes st)\<lparr>df_duplicates := df_duplicates (pl_dupes st) + 1\<rparr>)"
        using seen d by (simp add: df_accept_def acceptKey_def df_inv_def)
      then show ?thesis using d rt seen
        by (intro inert pl_inv_core [OF _ inv]) (simp_all add: onFrame_eq Inr Let_def observed_fields df_inv_def)
    next
      case new
      show ?thesis by (rule onFrame_new [OF inv Inr new]) (use Inr new in \<open>blast intro: fresh\<close>)
    qed
  qed
qed

section \<open>Runs\<close>

fun pl_run :: "'c submit \<Rightarrow> (Env \<times> bytes) list \<Rightarrow> 'c PipelineLoop \<Rightarrow> 'c PipelineLoop" where
  "pl_run submit [] st = st"
| "pl_run submit ((e, data) # fs) st = pl_run submit fs (snd (onFrame e submit data st))"

text \<open>The identity of a decoded event does not depend on when it is decoded.\<close>

lemma apply_payload_identity:
  "ev_kind (apply_payload ex p ev) = ev_kind ev" "ev_sequence (apply_payload ex p ev) = ev_sequence ev"
  "ev_gameId (apply_payload ex p ev) = (case cp_gameId p of Some g \<Rightarrow> g | None \<Rightarrow> ev_gameId ev)"
  "ev_roundId (apply_payload ex p ev) = (case cp_gameId p of Some g \<Rightarrow> g | None \<Rightarrow> ev_roundId ev)"
  "ev_elapsedMs (apply_payload ex p ev) = (case cp_elapsedMs p of Some t \<Rightarrow> t | None \<Rightarrow> ev_elapsedMs ev)"
  "ev_valid (apply_payload ex p ev) \<longleftrightarrow> ev_gameId (apply_payload ex p ev) \<noteq> [] \<or> ev_kind ev = Ev_Progress"
  by (simp_all add: apply_payload_def Let_def split: option.splits)

lemma payload_identity:
  "cp_gameId (fieldsToPayload ex now n fl) = cp_gameId (fieldsToPayload ex' now' n fl)"
  "cp_elapsedMs (fieldsToPayload ex now n fl) = cp_elapsedMs (fieldsToPayload ex' now' n fl)"
  by (simp_all add: fieldsToPayload_def split: option.splits)

definition same_event :: "CrashEvent \<Rightarrow> CrashEvent \<Rightarrow> bool" where
  "same_event a b \<longleftrightarrow> ev_kind a = ev_kind b \<and> ev_valid a = ev_valid b \<and> makeKey a = makeKey b"

lemma same_event_stamp:
  "same_event (a\<lparr>ev_decodedAtNs := t, ev_eventTimeMs := n\<rparr>) (b\<lparr>ev_decodedAtNs := t', ev_eventTimeMs := n'\<rparr>) = same_event a b"
  by (simp add: same_event_def key_simps event_id_def)

lemma apply_payload_same:
  assumes "ev_kind a = ev_kind b" "ev_sequence a = ev_sequence b" "ev_gameId a = ev_gameId b" "ev_roundId a = ev_roundId b"
    "ev_elapsedMs a = ev_elapsedMs b"
  shows "same_event (apply_payload ex (fieldsToPayload ex now n fl) a) (apply_payload ex' (fieldsToPayload ex' now' n fl) b)"
proof -
  note p = payload_identity [of ex now n fl ex' now']
  show ?thesis unfolding same_event_def key_simps event_id_def apply_payload_identity p assms by simp
qed

lemma decodeEventPacket_again:
  assumes "fst (decodeEventPacket ex t1 now pkt src rcv d) = Inr ev"
  shows "\<exists>ev'. fst (decodeEventPacket ex' t1' now' pkt src rcv' d') = Inr ev' \<and> same_event ev' ev"
proof -
  let ?a = "\<lambda>r. CrashEvent_default\<lparr>ev_source := src, ev_receivedAtNs := r,
                 ev_rawEventName := pk_event pkt, ev_kind := mapEventName (pk_event pkt)\<rparr>"
  define b where "b = (\<lambda>ex now r. if pk_payload pkt \<noteq> [] then
                if mapEventName (pk_event pkt) = Ev_Progress then
                  (case decodeProgressElapsed (pk_payload pkt) of
                     Some elapsed \<Rightarrow> (?a r)\<lparr>ev_elapsedMs := elapsed,
                       ev_currentMult := multiplierFromElapsed ex elapsed, ev_valid := True\<rparr>
                   | None \<Rightarrow> ?a r)
                else apply_payload ex (fieldsToPayload ex now (pk_event pkt) (decodeProtobuf (pk_payload pkt))) (?a r)
              else (?a r)\<lparr>ev_valid := (mapEventName (pk_event pkt) = Ev_Connect \<or> mapEventName (pk_event pkt) = Ev_Heartbeat)\<rparr>)"
  have eq: "fst (decodeEventPacket ex t1 now pkt src r d) =
      (if mapEventName (pk_event pkt) = Ev_Unknown then Inl (mkError EC_ParseError (''unknown event name: '' @ pk_event pkt))
       else Inr ((b ex now r)\<lparr>ev_decodedAtNs := t1, ev_eventTimeMs := now\<rparr>))" for ex t1 now r d
    by (simp add: decodeEventPacket_def Let_def b_def)
  have "same_event (b ex' now' rcv') (b ex now rcv)"
  proof (cases "pk_payload pkt \<noteq> [] \<and> mapEventName (pk_event pkt) \<noteq> Ev_Progress")
    case True
    then show ?thesis unfolding b_def by (simp add: apply_payload_same)
  next
    case False
    then show ?thesis unfolding b_def
      by (cases "decodeProgressElapsed (pk_payload pkt)") (auto simp: same_event_def key_simps event_id_def)
  qed
  then show ?thesis using assms unfolding eq by (auto simp: same_event_stamp split: if_splits)
qed

lemma decode_again:
  assumes "fst (decodeBinary ex t0 t1 now data src d) = Inr ev"
  shows "\<exists>ev'. fst (decodeBinary ex' t0' t1' now' data src d') = Inr ev' \<and> same_event ev' ev"
proof -
  consider (empty) "data = []" | (ping) "data \<noteq> []" "isPing data"
    | (control) "data \<noteq> []" "\<not> isPing data" "isPong data \<or> isOpenFrame data \<or> isClose data"
    | (other) "data \<noteq> []" "\<not> isPing data" "\<not> (isPong data \<or> isOpenFrame data \<or> isClose data)" "data ! 0 \<noteq> 0x04"
    | (packet) "data \<noteq> []" "\<not> isPing data" "\<not> (isPong data \<or> isOpenFrame data \<or> isClose data)" "data ! 0 = 0x04" by blast
  then show ?thesis
  proof cases
    case empty
    with assms show ?thesis by (simp add: decodeBinary_def)
  next
    case ping
    with assms show ?thesis by (auto simp: decodeBinary_def same_event_def key_simps event_id_def)
  next
    case control
    with assms show ?thesis by (simp add: decodeBinary_def)
  next
    case other
    with assms show ?thesis by (simp add: decodeBinary_def split: if_splits)
  next
    case packet
    let ?pkt = "parsePacket data"
    have p: "fst (decodeBinary ex t0 t1 now data src d) =
        (if pk_kind ?pkt \<noteq> Pk_Event then
           if pk_kind ?pkt = Pk_Connect then
             Inr (CrashEvent_default\<lparr>ev_kind := Ev_Connect, ev_source := src, ev_receivedAtNs := t0,
                    ev_decodedAtNs := t1, ev_valid := True, ev_rawEventName := ''connect''\<rparr>)
           else Inl (mkError EC_ParseError ''non-event packet'')
         else fst (decodeEventPacket ex t1 now ?pkt src t0 d))" for ex t0 t1 now d
      using packet by (simp add: decodeBinary_def Let_def)
    show ?thesis
    proof (cases "pk_kind ?pkt = Pk_Event")
      case True
      show ?thesis using decodeEventPacket_again [of ex t1 now ?pkt src t0 d ev ex' t1' now' t0' d'] assms
        unfolding p by (simp only: True simp_thms if_False)
    next
      case False
      then show ?thesis using assms unfolding p
        by (cases "pk_kind ?pkt = Pk_Connect") (auto simp: same_event_def key_simps event_id_def)
    qed
  qed
qed

section \<open>Properties\<close>

lemma onFrame_step:
  assumes inv: "pl_inv st" and own: "pl_ownsHandlers st" and idle: "pl_idle st"
  shows "let st' = snd (onFrame e submit data st) in
    pl_inv st' \<and> pl_ownsHandlers st' \<and> pl_idle st' \<and> er_drops_pred (pl_router st') = er_drops_pred (pl_router st) \<and>
    er_drops_val (pl_router st') = er_drops_val (pl_router st)"
proof (cases rule: onFrame_cases [OF inv, of e submit data, case_names inert fresh])
  case inert
  then show ?thesis using own idle by (simp add: Let_def pl_core_def pl_idle_def)
next
  case (fresh ev st')
  have "pl_ownsHandlers st'" "pl_idle st'" "pl_router st' = pl_router st"
    using own idle fresh(2) by (simp_all add: pl_core_def pl_idle_def)
  then show ?thesis using onFresh_ok [OF fresh(3), of e submit ev] by (simp add: fresh(1))
qed

text \<open>C3: a loop that owns its handlers is never backlogged: after any frames, whatever they contain and whatever the
  prediction client answers, every invariant of its components holds, the prediction and the validation queue
  are empty, and no end of a round was dropped for lack of room.\<close>

theorem pipeline_never_backlogged:
  assumes "pl_inv st" and "pl_ownsHandlers st" and "pl_idle st"
  shows "let st' = pl_run submit fs st in
    pl_inv st' \<and> pl_idle st' \<and> er_drops_pred (pl_router st') = er_drops_pred (pl_router st) \<and>
    er_drops_val (pl_router st') = er_drops_val (pl_router st)"
  using assms
proof (induction fs arbitrary: st)
  case (Cons f fs)
  obtain e data where f: "f = (e, data)" by (cases f)
  note step = onFrame_step [OF Cons.prems, of e submit data, unfolded Let_def]
  from Cons.IH [of "snd (onFrame e submit data st)"] step show ?case by (simp add: f Let_def)
qed simp

definition demo_client :: PredictionClient where
  "demo_client = \<lparr>pc_contract = \<lparr>ct_interfaceVersion = ''1'', ct_timeoutMs = 50, ct_preferSharedMemory = False\<rparr>,
     pc_has_handler = True, pc_pending = Map.empty, pc_submitted = 0\<rparr>"

definition demo_loop :: "EventRouter \<Rightarrow> PredictionClient PipelineLoop" where
  "demo_loop r = PipelineLoop_new \<lparr>de_tracker = None, de_decoded = 0, de_invalid = 0\<rparr> r demo_client demo_validator
     (Outbox_new 16, OutboxLifecycle_new 30000) None True"

lemma demo_loop_ok:
  assumes "EventRouter_new 8 None = Some r"
  shows "pl_inv (demo_loop r)" "pl_ownsHandlers (demo_loop r)" "pl_idle (demo_loop r)"
proof -
  have "er_inv r" using er_new_inv [OF assms] by simp
  moreover have "vl_inv (EventValidator_new 120000 8192)" by (simp add: vl_inv_def EventValidator_new_def)
  ultimately show "pl_inv (demo_loop r)"
    using demo_validator_inv df_inv_new [of 8192] rg_inv_new
    by (simp add: demo_loop_def PipelineLoop_new_def pl_inv_def back_ok_def RealtimePipeline_new_def)
  show "pl_ownsHandlers (demo_loop r)" by (simp add: demo_loop_def PipelineLoop_new_def)
  show "pl_idle (demo_loop r)"
    using SpscQueue_new_ok [of 8 CrashEvent_default] assms
    by (auto simp: demo_loop_def PipelineLoop_new_def pl_idle_def EventRouter_new_def split: option.splits)
qed

lemma demo_router: "\<exists>r. EventRouter_new 8 None = Some r"
  using SpscQueue_new_ok [of 8 CrashEvent_default] by (auto simp: EventRouter_new_def)

definition demo_env :: Env where
  "demo_env = \<lparr>en_ms = (\<lambda>p. 1000 + int (length p)), en_ns = (\<lambda>p. 5000 + int (length p)), en_exp = (\<lambda>x. x),
     en_attempts = (\<lambda>_. []), en_rounds = (\<lambda>_. []), en_leases = (\<lambda>_. [])\<rparr>"

definition demo_submit :: "PredictionClient submit" where
  "demo_submit p = pc_submit 1000 5000"

theorem pipeline_never_backlogged_witness:
  "\<exists>r. EventRouter_new 8 None = Some r \<and>
    (let st' = pl_run demo_submit [(demo_env, [1, 2, 3]), (demo_env, [])] (demo_loop r) in
     pl_inv st' \<and> pl_idle st' \<and> er_drops_pred (pl_router st') = er_drops_pred r)"
proof -
  obtain r where r: "EventRouter_new 8 None = Some r" using demo_router by blast
  have "pl_router (demo_loop r) = r" by (simp add: demo_loop_def PipelineLoop_new_def)
  with r pipeline_never_backlogged [OF demo_loop_ok [OF r], of demo_submit "[(demo_env, [1, 2, 3]), (demo_env, [])]"]
  show ?thesis unfolding Let_def by auto
qed

section \<open>A frame is processed once\<close>

lemma onFrame_window:
  assumes inv: "pl_inv st"
  shows "\<exists>ks. length ks \<le> 1 \<and> pl_inv (snd (onFrame e submit data st)) \<and>
    df_max (pl_dupes (snd (onFrame e submit data st))) = df_max (pl_dupes st) \<and>
    df_order (pl_dupes (snd (onFrame e submit data st))) = trim (df_max (pl_dupes st)) (df_order (pl_dupes st) @ ks)"
proof (cases rule: onFrame_cases [OF inv, of e submit data, case_names inert fresh])
  case inert
  have "length (df_order (pl_dupes st)) \<le> df_max (pl_dupes st)" using inv by (simp add: pl_inv_def df_inv_def)
  then show ?thesis using inert by (intro exI [of _ "[]"]) (simp add: trim_id)
next
  case (fresh ev st')
  then show ?thesis using onFresh_ok [OF fresh(3), of e submit ev] by (intro exI [of _ "[makeKey ev]"]) simp
qed

lemma frames_window:
  "pl_inv st \<Longrightarrow> \<exists>ks. length ks \<le> length fs \<and> pl_inv (pl_run submit fs st) \<and>
     df_max (pl_dupes (pl_run submit fs st)) = df_max (pl_dupes st) \<and>
     df_order (pl_dupes (pl_run submit fs st)) = trim (df_max (pl_dupes st)) (df_order (pl_dupes st) @ ks)"
proof (induction fs arbitrary: st)
  case Nil
  then have "length (df_order (pl_dupes st)) \<le> df_max (pl_dupes st)" by (simp add: pl_inv_def df_inv_def)
  then show ?case using Nil by (intro exI [of _ "[]"]) (simp add: trim_id)
next
  case (Cons f fs)
  obtain e data where f: "f = (e, data)" by (cases f)
  let ?s = "snd (onFrame e submit data st)"
  obtain k1 where k1: "length k1 \<le> 1" "pl_inv ?s" "df_max (pl_dupes ?s) = df_max (pl_dupes st)"
      "df_order (pl_dupes ?s) = trim (df_max (pl_dupes st)) (df_order (pl_dupes st) @ k1)"
    using onFrame_window [OF Cons.prems, of e submit data] by blast
  from Cons.IH [OF k1(2)] obtain k2 where k2: "length k2 \<le> length fs" "pl_inv (pl_run submit fs ?s)"
      "df_max (pl_dupes (pl_run submit fs ?s)) = df_max (pl_dupes st)"
      "df_order (pl_dupes (pl_run submit fs ?s)) = trim (df_max (pl_dupes st)) (df_order (pl_dupes ?s) @ k2)"
    unfolding k1(3) by blast
  show ?case using k1(1) k2 by (intro exI [of _ "k1 @ k2"]) (simp add: f k1(4) trim_trim_snoc)
qed

lemma trim_keeps_recent: "length ys < n \<Longrightarrow> x \<in> set (trim n (xs @ x # ys))"
  by (auto simp: trim_eq_drop drop_append nth_drop in_set_conv_nth)

lemma early_not_round: "ev_kind ev \<notin> {Ev_Heartbeat, Ev_Connect} \<Longrightarrow> ev_valid ev \<Longrightarrow> \<not> pl_early e ev rt"
  by (simp add: pl_early_def)

lemma seen_frame_inert:
  assumes inv: "pl_inv st" and ev: "pl_event e data (pl_decoder st) = Inr ev" and v: "ev_valid ev"
    and seen: "makeKey ev \<in> set (df_order (pl_dupes st))"
  shows "pl_core (snd (onFrame e submit data st)) = pl_core st" "fst (onFrame e submit data st) = Inr ()"
proof -
  show "pl_core (snd (onFrame e submit data st)) = pl_core st"
    by (cases rule: onFrame_cases [OF inv, of e submit data, case_names inert fresh]) (use ev seen in auto)
  show "fst (onFrame e submit data st) = Inr ()" by (simp add: onFrame_eq ev)
qed

text \<open>C2: a frame is processed once: when a frame carrying a valid round event that the loop has not seen is followed
  by any other frames, fewer than the duplicate window is long, and then by the very same bytes, read at whatever
  time, the repetition is answered with success and changes nothing in the router, the rounds, the
  statistics, the prediction client, the attempts, the validator or the outbox.\<close>

theorem pipeline_frame_once:
  assumes "pl_inv st" and "pl_event e data (pl_decoder st) = Inr ev" and "ev_valid ev"
    and "ev_kind ev \<notin> {Ev_Heartbeat, Ev_Connect}" and "makeKey ev \<notin> set (df_order (pl_dupes st))"
    and "length fs < df_max (pl_dupes st)"
  shows "let st' = pl_run submit ((e, data) # fs) st in
    fst (onFrame e' submit data st') = Inr () \<and> pl_core (snd (onFrame e' submit data st')) = pl_core st'"
proof -
  obtain s1 where s1: "onFrame e submit data st = (Inr (), onFresh e submit ev s1)" "pl_inv s1"
      "df_order (pl_dupes s1) = trim (df_max (pl_dupes st)) (df_order (pl_dupes st) @ [makeKey ev])"
      "df_max (pl_dupes s1) = df_max (pl_dupes st)"
    by (rule onFrame_new [OF assms(1,2) early_not_round [OF assms(4,3)] assms(3,5)])
  let ?s = "onFresh e submit ev s1"
  note fr = onFresh_ok [OF s1(2), of e submit ev]
  obtain ks where ks: "length ks \<le> length fs" "pl_inv (pl_run submit fs ?s)"
      "df_order (pl_dupes (pl_run submit fs ?s)) = trim (df_max (pl_dupes ?s)) (df_order (pl_dupes ?s) @ ks)"
    using frames_window [OF fr(1), of fs submit] by blast
  have "makeKey ev \<in> set (df_order (pl_dupes (pl_run submit fs ?s)))"
    using trim_keeps_recent [of ks "df_max (pl_dupes st)"] ks(1) assms(6) by (simp add: ks(3) fr(2) s1(3,4) trim_trim_snoc)
  moreover obtain ev' where ev': "pl_event e' data (pl_decoder (pl_run submit fs ?s)) = Inr ev'" "same_event ev' ev"
    using decode_again assms(2) unfolding pl_event_def by blast
  ultimately show ?thesis using seen_frame_inert [OF ks(2) ev'(1), of submit] assms(3) by (simp add: s1(1) same_event_def)
qed

definition demo_frame :: bytes where
  "demo_frame = encodeEvent [] ''ed'' (encodeProtobuf [(1, PNum 7)])"

lemma demo_frame_event:
  "\<exists>ev. pl_event e demo_frame d = Inr ev \<and> ev_kind ev = Ev_End \<and> ev_valid ev \<and> ev_gameId ev = ''7'' \<and> end_round ev = ''7''"
proof -
  let ?p = "encodeProtobuf [(1, PNum 7)]"
  have p: "?p = [8, 7]" by (simp add: encodeProtobuf_def wire_tag_def writeVarint.simps push_bit_eq_mult)
  have m: "decodeProtobuf ?p = map_of [(1, PNum 7)]"
    using protobuf_decode_encode [of "[(1, PNum 7)]"] by (simp add: p)
  have k: "mapEventName ''ed'' = Ev_End" by (simp add: mapEventName_def lower_ascii_def Let_def)
  have n: "show_nat 7 = ''7''" by (subst show_nat.simps) (simp add: char_of_def bit_0)
  show ?thesis
    using decode_encoded_event [of "[]" "''ed''" "en_exp e" "en_ns e [1]" "en_ns e [2]" "en_ms e [0]" ?p Src_NativeSocket d] m
    by (simp add: pl_event_def demo_frame_def p k decodeEventPacket_def Let_def apply_payload_def fieldsToPayload_def
        CrashPayload_default_def CrashEvent_default_def getNum_def getStr_def end_round_def n)
qed

theorem pipeline_frame_once_witness:
  "\<exists>r. EventRouter_new 8 None = Some r \<and>
    (let st' = pl_run demo_submit [(demo_env, demo_frame), (demo_env, [2])] (demo_loop r) in
     fst (onFrame demo_env demo_submit demo_frame st') = Inr () \<and>
     pl_core (snd (onFrame demo_env demo_submit demo_frame st')) = pl_core st')"
proof -
  obtain r where r: "EventRouter_new 8 None = Some r" using demo_router by blast
  obtain ev where ev: "pl_event demo_env demo_frame (pl_decoder (demo_loop r)) = Inr ev" "ev_kind ev = Ev_End" "ev_valid ev"
    using demo_frame_event by blast
  have d: "pl_dupes (demo_loop r) = DuplicateFilter_new 8192" by (simp add: demo_loop_def PipelineLoop_new_def)
  show ?thesis
    using pipeline_frame_once [OF demo_loop_ok(1) [OF r] ev(1,3), of "[(demo_env, [2])]" demo_submit demo_env] r ev(2)
    by (simp add: d DuplicateFilter_new_def)
qed

section \<open>A round is settled within the frame that ends it\<close>

lemma expire_round_list:
  "set (pr_list (pr_expire_round now a k es r) g) \<subseteq> (if k = g then set es else set (pr_list r g))"
  by (auto simp: pr_expire_round_def Let_def pr_list_def split: if_splits)

lemma expire_list: "set (pr_list (snd (pr_expireStale now a ks r)) g) \<subseteq> set (pr_list r g)"
proof (induction ks arbitrary: r)
  case (Cons k ks)
  show ?case
  proof (cases "pr_by_round r k")
    case (Some es)
    have "set (pr_list (pr_expire_round now a k es r) g) \<subseteq> set (pr_list r g)"
      using expire_round_list [of now a k es r g] Some by (auto simp: pr_list_def split: if_splits)
    with Cons.IH [of "pr_expire_round now a k es r"] Some show ?thesis by (auto simp: case_prod_beta)
  qed (use Cons in simp)
qed simp

definition settled :: "string \<Rightarrow> LiveValidator \<Rightarrow> bool" where
  "settled g v \<longleftrightarrow> g \<in> set (lv_resolved_order v) \<and> pr_list (lv_registry v) g = []"

lemma settled_expire: "settled g (pl_validator st) \<Longrightarrow> settled g (pl_validator (pl_expire e p st))"
  using expire_list [of _ _ _ "lv_registry (pl_validator st)" g]
  by (fastforce simp: settled_def pl_expire_def Let_def lv_expireStale_def case_prod_beta)

lemma validate_settles:
  assumes "back_ok st" "ev_kind ev = Ev_End" "ev_valid ev" "end_round ev \<noteq> []"
    and "end_round ev \<notin> set (lv_resolved_order (pl_validator st))"
  shows "settled (end_round ev) (pl_validator (pl_validate e p ev st))"
proof -
  obtain res fed hook v where r: "lv_onGameEnd (\<lambda>j. en_ms e (j # 0 # p)) (en_ns e (0 # p), en_ns e (1 # p))
      (en_ns e (2 # p), en_ns e (3 # p)) ev (pl_validator st) = (res, fed, hook, v)" by (metis prod_cases4)
  have i: "lv_inv (pl_validator st)" using assms(1) by (simp add: back_ok_def)
  have "settled (end_round ev) v" using onGameEnd_settles(2,3) [OF i r] assms(2-5) by (simp add: settled_def)
  then show ?thesis unfolding pl_validate_def r Let_def prod.case front_outcome_all by simp
qed

lemma drainValidations_single:
  assumes "er_inv (pl_router st)" "sq_list (er_to_validation (pl_router st)) = [ev]" "2 \<le> k"
  shows "\<exists>q p'. pl_validator (drainValidations e p k st) =
    pl_validator (pl_validate e p' ev (st\<lparr>pl_router := (pl_router st)\<lparr>er_to_validation := q\<rparr>\<rparr>))"
proof -
  obtain j where k: "k = Suc (Suc j)" using assms(3) by (metis Suc_le_D numeral_2_eq_2 Suc_le_mono)
  from assms(1) show ?thesis
  proof (cases rule: popValidation_cases [case_names none some])
    case none
    then show ?thesis using assms(2) by simp
  next
    case (some ev' q)
    let ?t = "st\<lparr>pl_router := (pl_router st)\<lparr>er_to_validation := q\<rparr>\<rparr>"
    let ?v = "pl_validate e (Suc j # p) ev ?t"
    have e: "ev' = ev" "sq_list q = []" using some(2) assms(2) by simp_all
    have r: "pl_router ?v = (pl_router st)\<lparr>er_to_validation := q\<rparr>"
      using pl_frontD [OF front_validate, of e "Suc j # p" ev ?t] by simp
    have "sq_inv q" using some(3) by (simp add: er_inv_def)
    then have "er_popValidation (pl_router ?v) = (None, pl_router ?v)"
      using e(2) sq.pop_empty [of q] by (simp add: r er_popValidation_def)
    then show ?thesis using some(1) by (intro exI [of _ q] exI [of _ "Suc j # p"]) (simp add: k e(1))
  qed
qed

text \<open>C1: the frame that brings a fresh valid end of a round settles the round before it returns, also when the
  prediction client answers the end with predictions of that very round: afterwards the round counts as resolved
  and none of its predictions is pending.\<close>

theorem pipeline_end_settles:
  assumes inv: "pl_inv st" and own: "pl_ownsHandlers st" and idle: "pl_idle st"
    and ev: "pl_event e data (pl_decoder st) = Inr ev" "ev_kind ev = Ev_End" "ev_valid ev" "end_round ev \<noteq> []"
    and new: "makeKey ev \<notin> set (df_order (pl_dupes st))" "er_key ev \<notin> set (er_seen_order (pl_router st))"
      "end_round ev \<notin> set (lv_resolved_order (pl_validator st))"
  shows "let v = pl_validator (snd (onFrame e submit data st)) in
    end_round ev \<in> set (lv_resolved_order v) \<and> pr_list (lv_registry v) (end_round ev) = []"
proof -
  have ne: "\<not> pl_early e ev (pl_realtime st)" using ev by (simp add: pl_early_def)
  obtain s1 where s1: "onFrame e submit data st = (Inr (), onFresh e submit ev s1)" "pl_core s1 = pl_core st" "pl_inv s1"
    by (rule onFrame_new [OF inv ev(1) ne ev(3) new(1)])
  have c: "pl_router s1 = pl_router st" "pl_validator s1 = pl_validator st" "pl_ownsHandlers s1"
    using s1(2) own by (simp_all add: pl_core_def)
  let ?r = "pl_routed e ev s1" and ?ev = "ev\<lparr>ev_routedAtNs := en_ns e [3]\<rparr>"
  have er: "er_inv (pl_router st)" using inv by (simp add: pl_inv_def)
  have ri: "back_ok ?r" "er_inv (pl_router ?r)" using s1(3) er_inv_route by (simp_all add: routed_fields pl_inv_def)
  have rv: "sq_list (er_to_validation (pl_router ?r)) = [?ev]"
    using route_idle(3) [OF er] idle ev new(2) by (simp add: routed_fields c pl_idle_def end_event_def)
  define a where "a = drainPredictions e submit (0 # [3]) (unat (sq_cap (er_to_prediction (pl_router ?r)))) ?r"
  have "sq_inv (er_to_prediction (pl_router ?r))" using ri by (simp add: er_inv_def)
  from drainPredictions_ok [OF ri sq_fuel [OF this], of e submit "0 # [3]"]
  have A: "back_ok a" "pred_router (pl_router ?r) (pl_router a)" "lv_resolved_order (pl_validator a) = lv_resolved_order (pl_validator st)"
    by (simp_all add: a_def Let_def routed_fields c)
  then have q: "er_inv (pl_router a)" "sq_list (er_to_validation (pl_router a)) = [?ev]" using rv by (simp_all add: pred_router_def)
  have "2 \<le> unat (sq_cap (er_to_validation (pl_router a)))" by (rule sq_cap_two) (use q(1) in \<open>simp add: er_inv_def\<close>)
  from drainValidations_single [OF q this, of e "1 # [3]"] obtain qv pv where
    v: "pl_validator (drainValidations e (1 # [3]) (unat (sq_cap (er_to_validation (pl_router a)))) a) =
        pl_validator (pl_validate e pv ?ev (a\<lparr>pl_router := (pl_router a)\<lparr>er_to_validation := qv\<rparr>\<rparr>))" by blast
  have er_ev: "end_round ?ev = end_round ev" by (simp add: end_round_def)
  have s: "settled (end_round ev) (pl_validator (drainValidations e (1 # [3]) (unat (sq_cap (er_to_validation (pl_router a)))) a))"
    unfolding v using validate_settles [of "a\<lparr>pl_router := (pl_router a)\<lparr>er_to_validation := qv\<rparr>\<rparr>" ?ev e pv] A ev new(3)
    by (simp add: er_ev)
  have "drain e submit [3] ?r = pl_expire e (2 # [3]) (drainValidations e (1 # [3]) (unat (sq_cap (er_to_validation (pl_router a)))) a)"
    using c(3) by (simp add: drain_def Let_def routed_fields a_def)
  then have "settled (end_round ev) (pl_validator (drain e submit [3] ?r))" using settled_expire [OF s] by simp
  then show ?thesis by (simp add: s1(1) onFresh_eq Let_def settled_def)
qed

theorem pipeline_end_settles_witness:
  "\<exists>r. EventRouter_new 8 None = Some r \<and>
    (let v = pl_validator (snd (onFrame demo_env demo_submit demo_frame (demo_loop r))) in
     ''7'' \<in> set (lv_resolved_order v) \<and> pr_list (lv_registry v) ''7'' = [])"
proof -
  obtain r where r: "EventRouter_new 8 None = Some r" using demo_router by blast
  obtain ev where ev: "pl_event demo_env demo_frame (pl_decoder (demo_loop r)) = Inr ev" "ev_kind ev = Ev_End" "ev_valid ev"
      "end_round ev = ''7''"
    using demo_frame_event by blast
  have d: "pl_dupes (demo_loop r) = DuplicateFilter_new 8192" "pl_validator (demo_loop r) = demo_validator" "pl_router (demo_loop r) = r"
    by (simp_all add: demo_loop_def PipelineLoop_new_def)
  have s: "er_seen_order r = []" using r by (auto simp: EventRouter_new_def split: option.splits)
  show ?thesis
    using pipeline_end_settles [OF demo_loop_ok [OF r] ev(1-3), of demo_submit] r ev(4)
    by (simp add: d s DuplicateFilter_new_def demo_validator_def LiveValidator_new_def)
qed

end
