(* ===== verification/Lifecycle.thy ===== *)
theory Lifecycle
  imports Types "HOL-Library.Multiset"
begin

text \<open>
  Start-up, shutdown and readiness: \<open>ComponentRegistry\<close>, \<open>StartupManager\<close>, \<open>ShutdownManager\<close> and \<open>Orchestrator\<close> of
  \<open>include/orchestration/\<close>, \<open>ReadinessBarrier\<close> of \<open>include/observability/readiness_barrier.hpp\<close> and the cache of
  recent rounds of \<open>recent_round_cache.hpp\<close>. The start and stop functions of components act on a world of any type.
  \<open>std::sort\<close> is an argument: the standard leaves the order of components with equal start order open, and the locale
  \<open>order_sort\<close> says what it promises. A start function that throws ends the program and is not modelled; a stop function that
  throws is a function of the world like any other, since the exception is swallowed.
\<close>

section \<open>Components\<close>

datatype ComponentId =
    Id_Application | Id_Orchestrator | Id_Ingestion | Id_WebSocket | Id_SocketIo | Id_Signing | Id_Heartbeat
  | Id_EventDecoder | Id_EventRouter | Id_PredictionInterface | Id_Validation | Id_OutcomeMatcher
  | Id_PredictionRegistry | Id_Feedback | Id_Outbox | Id_Telegram | Id_Persistence | Id_WorkerPool | Id_Telemetry
  | Id_Logging | Id_Security | Id_COUNT

datatype ComponentState =
    Co_Unregistered | Co_Registered | Co_Starting | Co_Running | Co_Stopping | Co_Stopped | Co_Failed

fun ComponentState_toString :: "ComponentState \<Rightarrow> string" where
  "ComponentState_toString Co_Unregistered = ''unregistered''"
| "ComponentState_toString Co_Registered = ''registered''"
| "ComponentState_toString Co_Starting = ''starting''"
| "ComponentState_toString Co_Running = ''running''"
| "ComponentState_toString Co_Stopping = ''stopping''"
| "ComponentState_toString Co_Stopped = ''stopped''"
| "ComponentState_toString Co_Failed = ''failed''"

record ComponentInfo =
  ci_id :: ComponentId
  ci_name :: string
  ci_state :: ComponentState
  ci_lastTransitionMs :: TimestampMs
  ci_lastError :: string
  ci_startOrder :: int

type_synonym ComponentRegistry = "ComponentId \<rightharpoonup> ComponentInfo"

definition registerComponent :: "TimestampMs \<Rightarrow> ComponentId \<Rightarrow> string \<Rightarrow> int \<Rightarrow> ComponentRegistry \<Rightarrow> ComponentRegistry" where
  "registerComponent now i name order r =
     r(i \<mapsto> \<lparr>ci_id = i, ci_name = name, ci_state = Co_Registered, ci_lastTransitionMs = now, ci_lastError = [],
            ci_startOrder = order\<rparr>)"

definition setState :: "TimestampMs \<Rightarrow> ComponentId \<Rightarrow> ComponentState \<Rightarrow> string \<Rightarrow> ComponentRegistry \<Rightarrow> bool \<times> ComponentRegistry" where
  "setState now i state error r =
     (case r i of
        None \<Rightarrow> (False, r)
      | Some c \<Rightarrow> (True, r(i \<mapsto> c\<lparr>ci_state := state, ci_lastTransitionMs := now,
                              ci_lastError := (if error \<noteq> [] then error else ci_lastError c)\<rparr>)))"

text \<open>\<open>all\<close> and \<open>allRunning\<close> over the iteration order \<open>ks\<close> of the map.\<close>

definition cr_all :: "ComponentId list \<Rightarrow> ComponentRegistry \<Rightarrow> ComponentInfo list" where
  "cr_all ks r = List.map_filter r ks"

definition allRunning :: "ComponentId list \<Rightarrow> ComponentRegistry \<Rightarrow> bool" where
  "allRunning ks r \<longleftrightarrow> cr_all ks r \<noteq> [] \<and> list_all (\<lambda>c. ci_state c = Co_Running) (cr_all ks r)"

section \<open>Managers\<close>

text \<open>\<open>clock n\<close> are the clock readings of the \<open>n\<close>-th component from the end of the loop, for the two state changes.\<close>

fun startLoop :: "(nat \<Rightarrow> bool \<Rightarrow> TimestampMs) \<Rightarrow> (ComponentId \<Rightarrow> 'w \<Rightarrow> unit Result \<times> 'w) option \<Rightarrow> ComponentInfo list \<Rightarrow>
    ComponentRegistry \<Rightarrow> 'w \<Rightarrow> unit Result \<times> ComponentRegistry \<times> 'w" where
  "startLoop clock hook [] r w = (Inr (), r, w)"
| "startLoop clock hook (c # cs) r w =
     (let r = snd (setState (clock (length cs) False) (ci_id c) Co_Starting [] r);
          (res, w) = (case hook of Some h \<Rightarrow> h (ci_id c) w | None \<Rightarrow> (Inr (), w))
      in case res of
           Inl e \<Rightarrow> (Inl e, snd (setState (clock (length cs) True) (ci_id c) Co_Failed (err_message e) r), w)
         | Inr _ \<Rightarrow> startLoop clock hook cs (snd (setState (clock (length cs) True) (ci_id c) Co_Running [] r)) w)"

definition startInOrder :: "(ComponentInfo list \<Rightarrow> ComponentInfo list) \<Rightarrow> (nat \<Rightarrow> bool \<Rightarrow> TimestampMs) \<Rightarrow>
    (ComponentId \<Rightarrow> 'w \<Rightarrow> unit Result \<times> 'w) option \<Rightarrow> ComponentId list \<Rightarrow> ComponentRegistry \<Rightarrow> 'w \<Rightarrow>
    unit Result \<times> ComponentRegistry \<times> 'w" where
  "startInOrder srt clock hook ks r w = startLoop clock hook (srt (cr_all ks r)) r w"

fun stopLoop :: "(nat \<Rightarrow> bool \<Rightarrow> TimestampMs) \<Rightarrow> (ComponentId \<Rightarrow> 'w \<Rightarrow> 'w) option \<Rightarrow> ComponentInfo list \<Rightarrow>
    ComponentRegistry \<Rightarrow> 'w \<Rightarrow> ComponentRegistry \<times> 'w" where
  "stopLoop clock hook [] r w = (r, w)"
| "stopLoop clock hook (c # cs) r w =
     (if ci_state c \<noteq> Co_Running \<and> ci_state c \<noteq> Co_Failed then stopLoop clock hook cs r w
      else let r = snd (setState (clock (length cs) False) (ci_id c) Co_Stopping [] r);
               w = (case hook of Some h \<Rightarrow> h (ci_id c) w | None \<Rightarrow> w);
               r = snd (setState (clock (length cs) True) (ci_id c) Co_Stopped [] r)
           in stopLoop clock hook cs r w)"

definition stopInReverseOrder :: "(ComponentInfo list \<Rightarrow> ComponentInfo list) \<Rightarrow> (nat \<Rightarrow> bool \<Rightarrow> TimestampMs) \<Rightarrow>
    (ComponentId \<Rightarrow> 'w \<Rightarrow> 'w) option \<Rightarrow> ComponentId list \<Rightarrow> ComponentRegistry \<Rightarrow> 'w \<Rightarrow> ComponentRegistry \<times> 'w" where
  "stopInReverseOrder srt clock hook ks r w = stopLoop clock hook (srt (cr_all ks r)) r w"

section \<open>Orchestrator\<close>

record 'w Component =
  cm_id :: ComponentId
  cm_name :: string
  cm_start :: "('w \<Rightarrow> unit Result \<times> 'w) option"
  cm_stop :: "('w \<Rightarrow> 'w) option"
  cm_order :: int

record 'w Orchestrator =
  or_components :: "'w Component list"
  or_started :: "ComponentId list"
  or_running :: bool

definition or_add :: "'w Component \<Rightarrow> 'w Orchestrator \<Rightarrow> 'w Orchestrator" where
  "or_add c s = s\<lparr>or_components := or_components s @ [c]\<rparr>"

definition run_stop :: "'w Component \<Rightarrow> 'w \<Rightarrow> 'w" where
  "run_stop c w = (case cm_stop c of Some f \<Rightarrow> f w | None \<Rightarrow> w)"

definition stop_id :: "'w Component list \<Rightarrow> ComponentId \<Rightarrow> 'w \<Rightarrow> 'w" where
  "stop_id cs i w = fold (\<lambda>c w. if cm_id c = i then run_stop c w else w) cs w"

definition stopAll :: "'w Orchestrator \<Rightarrow> 'w \<Rightarrow> 'w Orchestrator \<times> 'w" where
  "stopAll s w = (s\<lparr>or_started := [], or_running := False\<rparr>, fold (stop_id (or_components s)) (rev (or_started s)) w)"

definition run_start :: "'w Component \<Rightarrow> 'w \<Rightarrow> unit Result \<times> 'w" where
  "run_start c w = (case cm_start c of Some f \<Rightarrow> f w | None \<Rightarrow> (Inr (), w))"

fun startEach :: "'w Component list \<Rightarrow> 'w Orchestrator \<Rightarrow> 'w \<Rightarrow> unit Result \<times> 'w Orchestrator \<times> 'w" where
  "startEach [] s w = (Inr (), s\<lparr>or_running := True\<rparr>, w)"
| "startEach (c # cs) s w =
     (case run_start c w of
        (Inl e, w) \<Rightarrow> (let (s, w) = stopAll s w in (Inl e, s, w))
      | (Inr _, w) \<Rightarrow> startEach cs (s\<lparr>or_started := or_started s @ [cm_id c]\<rparr>) w)"

definition startAll :: "('w Component list \<Rightarrow> 'w Component list) \<Rightarrow> 'w Orchestrator \<Rightarrow> 'w \<Rightarrow>
    unit Result \<times> 'w Orchestrator \<times> 'w" where
  "startAll srt s w = startEach (srt (or_components s)) s w"

section \<open>What sorting promises\<close>

locale order_sort =
  fixes key :: "'a \<Rightarrow> int" and srt :: "'a list \<Rightarrow> 'a list"
  assumes perm: "mset (srt xs) = mset xs" and ordered: "sorted (map key (srt xs))"
begin

lemma same_elements: "set (srt xs) = set xs"
  using perm [of xs] by (metis set_mset_mset)

lemma earlier_le: "srt xs = pre @ c # post \<Longrightarrow> d \<in> set pre \<Longrightarrow> key d \<le> key c"
  using ordered [of xs] by (simp add: sorted_append)

lemma keeps_distinct: "distinct (map f xs) \<Longrightarrow> distinct (map f (srt xs))"
  using perm [of xs] by (metis mset_map mset_eq_imp_distinct_iff)

end

interpretation component_sort: order_sort cm_order "sort_key cm_order"
  by unfold_locales simp_all

interpretation startup_sort: order_sort ci_startOrder "sort_key ci_startOrder"
  by unfold_locales simp_all

interpretation shutdown_sort: order_sort "\<lambda>c. - ci_startOrder c" "sort_key (\<lambda>c. - ci_startOrder c)"
  by unfold_locales simp_all

section \<open>The orchestrator starts all or nothing\<close>

definition starts :: "'w Component list \<Rightarrow> 'w \<Rightarrow> 'w" where
  "starts cs w = fold (\<lambda>c w. snd (run_start c w)) cs w"

fun starts_ok :: "'w Component list \<Rightarrow> 'w \<Rightarrow> bool" where
  "starts_ok [] w = True"
| "starts_ok (c # cs) w \<longleftrightarrow> Result_ok (fst (run_start c w)) \<and> starts_ok cs (snd (run_start c w))"

lemma startEach_outcome:
  "case startEach cs s w of (r, s', w') \<Rightarrow>
     (case r of
        Inr _ \<Rightarrow> starts_ok cs w \<and> s' = s\<lparr>or_started := or_started s @ map cm_id cs, or_running := True\<rparr> \<and> w' = starts cs w
      | Inl e \<Rightarrow> \<exists>pre c post. cs = pre @ c # post \<and> starts_ok pre w \<and> fst (run_start c (starts pre w)) = Inl e \<and>
          (s', w') = stopAll (s\<lparr>or_started := or_started s @ map cm_id pre\<rparr>) (snd (run_start c (starts pre w))))"
proof (induction cs arbitrary: s w)
  case (Cons c cs)
  obtain res w1 where r: "run_start c w = (res, w1)" by fastforce
  show ?case
  proof (cases res)
    case (Inl e)
    then show ?thesis using r
      by (auto simp: case_prod_beta starts_def intro!: exI [of _ "[]"])
  next
    case (Inr u)
    let ?s = "s\<lparr>or_started := or_started s @ [cm_id c]\<rparr>"
    obtain r2 s2 w2 where e: "startEach cs ?s w1 = (r2, s2, w2)" by (metis prod_cases3)
    show ?thesis
    proof (cases r2)
      case (Inl err)
      then obtain pre d post where p: "cs = pre @ d # post" "starts_ok pre w1" "fst (run_start d (starts pre w1)) = Inl err"
        "(s2, w2) = stopAll (?s\<lparr>or_started := or_started ?s @ map cm_id pre\<rparr>) (snd (run_start d (starts pre w1)))"
        using Cons.IH [where s = ?s and w = w1] e by auto
      have "\<exists>pre' c' post'. c # cs = pre' @ c' # post' \<and> starts_ok pre' w \<and> fst (run_start c' (starts pre' w)) = Inl err \<and>
          (s2, w2) = stopAll (s\<lparr>or_started := or_started s @ map cm_id pre'\<rparr>) (snd (run_start c' (starts pre' w)))"
        by (rule exI [of _ "c # pre"], rule exI [of _ d], rule exI [of _ post]) (use p r Inr in \<open>simp add: starts_def\<close>)
      then show ?thesis using Inr Inl r e by simp
    next
      case (Inr v)
      then show ?thesis using Cons.IH [where s = ?s and w = w1] e r \<open>res = Inr u\<close> by (auto simp: starts_def)
    qed
  qed
qed (simp add: starts_def)

lemma stop_id_one:
  "distinct (map cm_id cs) \<Longrightarrow> c \<in> set cs \<Longrightarrow> stop_id cs (cm_id c) w = run_stop c w"
proof (induction cs arbitrary: w)
  case (Cons d cs)
  have skip: "i \<notin> cm_id ` set ds \<Longrightarrow> stop_id ds i v = v" for ds i v
    by (induction ds arbitrary: v) (auto simp: stop_id_def)
  from Cons show ?case by (cases "d = c") (auto simp: stop_id_def skip [unfolded stop_id_def])
qed simp

lemma stop_ids:
  "distinct (map cm_id cs) \<Longrightarrow> set pre \<subseteq> set cs \<Longrightarrow>
   fold (stop_id cs) (map cm_id pre) w = fold run_stop pre w"
  by (induction pre arbitrary: w) (simp_all add: stop_id_one)

text \<open>Starting is all or nothing and follows the start order. Either every component starts, in an order of
  non-decreasing start order, and the orchestrator runs; or the first that fails decides: its error is returned,
  those started before it, all of no later order, are stopped in reverse, no component after it is touched,
  and nothing counts as started.\<close>

theorem orchestrator_all_or_nothing:
  assumes "order_sort cm_order srt" and "distinct (map cm_id (or_components s))" and "or_started s = []"
  shows "case startAll srt s w of (r, s', w') \<Rightarrow>
    (case r of
       Inr _ \<Rightarrow> or_running s' \<and> or_started s' = map cm_id (srt (or_components s)) \<and> w' = starts (srt (or_components s)) w
     | Inl e \<Rightarrow> \<not> or_running s' \<and> or_started s' = [] \<and>
         (\<exists>pre c post. srt (or_components s) = pre @ c # post \<and> starts_ok pre w \<and>
            fst (run_start c (starts pre w)) = Inl e \<and> (\<forall>d\<in>set pre. cm_order d \<le> cm_order c) \<and>
            w' = fold run_stop (rev pre) (snd (run_start c (starts pre w)))))"
proof -
  let ?cs = "srt (or_components s)"
  note so = order_sort.same_elements [OF assms(1)] order_sort.earlier_le [OF assms(1)]
  obtain r s' w' where e: "startEach ?cs s w = (r, s', w')" by (metis prod_cases3)
  note out = startEach_outcome [where cs = ?cs and s = s and w = w, unfolded e prod.case]
  show ?thesis
  proof (cases r)
    case (Inr u)
    then show ?thesis using out by (simp add: startAll_def e assms(3))
  next
    case (Inl err)
    then obtain pre c post where p: "?cs = pre @ c # post" "starts_ok pre w" "fst (run_start c (starts pre w)) = Inl err"
      "(s', w') = stopAll (s\<lparr>or_started := map cm_id pre\<rparr>) (snd (run_start c (starts pre w)))"
      using out assms(3) by auto
    have "set (rev pre) \<subseteq> set (or_components s)" using so(1) [of "or_components s"] p(1) by auto
    from stop_ids [OF assms(2) this] p(4)
    have "w' = fold run_stop (rev pre) (snd (run_start c (starts pre w)))" "or_started s' = []" "\<not> or_running s'"
      by (simp_all add: stopAll_def rev_map)
    moreover have "startAll srt s w = (Inl err, s', w')" using e Inl by (simp add: startAll_def)
    ultimately show ?thesis using p(1-3) so(2) [OF p(1)] by auto
  qed
qed

definition demo_orchestrator :: "string list Orchestrator" where
  "demo_orchestrator =
     \<lparr>or_components =
        [\<lparr>cm_id = Id_Outbox, cm_name = ''outbox'', cm_start = Some (\<lambda>w. (Inl (mkError EC_QueueFull ''full''), w @ [''outbox?''])),
          cm_stop = None, cm_order = 2\<rparr>,
         \<lparr>cm_id = Id_Ingestion, cm_name = ''ingestion'', cm_start = Some (\<lambda>w. (Inr (), w @ [''ingestion'']))
          , cm_stop = Some (\<lambda>w. w @ [''stopped'']), cm_order = 1\<rparr>],
      or_started = [], or_running = False\<rparr>"

theorem orchestrator_all_or_nothing_witness:
  "case startAll (sort_key cm_order) demo_orchestrator [] of (r, s', w') \<Rightarrow>
     r = Inl (mkError EC_QueueFull ''full'') \<and> or_started s' = [] \<and> w' = [''ingestion'', ''outbox?'', ''stopped'']"
proof -
  have "distinct (map cm_id (or_components demo_orchestrator))" "or_started demo_orchestrator = []"
    by (simp_all add: demo_orchestrator_def)
  from orchestrator_all_or_nothing [OF component_sort.order_sort_axioms this, of "[]"]
  show ?thesis
    by (simp add: startAll_def demo_orchestrator_def run_start_def stopAll_def stop_id_def run_stop_def)
qed

section \<open>States after start-up and shutdown\<close>

definition st_of :: "ComponentRegistry \<Rightarrow> ComponentId \<Rightarrow> ComponentState option" where
  "st_of r i = map_option ci_state (r i)"

definition cr_ok :: "ComponentId list \<Rightarrow> ComponentRegistry \<Rightarrow> bool" where
  "cr_ok ks r \<longleftrightarrow> distinct ks \<and> dom r = set ks \<and> (\<forall>i c. r i = Some c \<longrightarrow> ci_id c = i)"

lemma st_of_setState: "st_of (snd (setState now i s err r)) j = (if j = i \<and> i \<in> dom r then Some s else st_of r j)"
  by (auto simp: setState_def st_of_def dom_def split: option.splits)

lemma setState_ok [simp]: "cr_ok ks (snd (setState now i s err r)) = cr_ok ks r" "dom (snd (setState now i s err r)) = dom r"
  by (auto simp: setState_def cr_ok_def dom_def split: option.splits if_splits)

lemma startLoop_states:
  "distinct (map ci_id cs) \<Longrightarrow> ci_id ` set cs \<subseteq> dom r \<Longrightarrow> startLoop clock hook cs r w = (res, r', w') \<Longrightarrow>
   cr_ok ks r \<Longrightarrow>
   cr_ok ks r' \<and> (\<exists>pre post. cs = pre @ post \<and> (case res of Inr _ \<Rightarrow> post = [] | Inl _ \<Rightarrow> post \<noteq> []) \<and>
     (\<forall>i. st_of r' i = (if i \<in> ci_id ` set pre then Some Co_Running
                        else if post \<noteq> [] \<and> i = ci_id (hd post) then Some Co_Failed else st_of r i)))"
proof (induction cs arbitrary: r w)
  case (Cons c cs)
  let ?i = "ci_id c"
  define r1 where "r1 = snd (setState (clock (length cs) False) ?i Co_Starting [] r)"
  obtain h w1 where h: "(case hook of Some h \<Rightarrow> h ?i w | None \<Rightarrow> (Inr (), w)) = (h, w1)" by fastforce
  have d: "?i \<in> dom r" "ci_id ` set cs \<subseteq> dom r" "distinct (map ci_id cs)" "?i \<notin> ci_id ` set cs" using Cons.prems by auto
  have r1: "cr_ok ks r1" "dom r1 = dom r" "st_of r1 j = (if j = ?i then Some Co_Starting else st_of r j)" for j
    using Cons.prems d by (simp_all add: r1_def st_of_setState)
  show ?case
  proof (cases h)
    case (Inl e)
    then have "res = Inl e" "r' = snd (setState (clock (length cs) True) ?i Co_Failed (err_message e) r1)"
      using Cons.prems(3) h by (simp_all add: Let_def r1_def)
    then show ?thesis using r1 d(1)
      by (intro conjI exI [of _ "[]"] exI [of _ "c # cs"]) (simp_all add: st_of_setState)
  next
    case (Inr u)
    define r2 where "r2 = snd (setState (clock (length cs) True) ?i Co_Running [] r1)"
    have r2: "cr_ok ks r2" "dom r2 = dom r" "st_of r2 j = (if j = ?i then Some Co_Running else st_of r j)" for j
      using r1 d by (simp_all add: r2_def st_of_setState)
    have "startLoop clock hook cs r2 w1 = (res, r', w')"
      using Cons.prems(3) h Inr by (simp add: Let_def r1_def r2_def)
    from Cons.IH [OF d(3) _ this] r2 d(2) obtain pre post where
      p: "cr_ok ks r'" "cs = pre @ post" "case res of Inr _ \<Rightarrow> post = [] | Inl _ \<Rightarrow> post \<noteq> []"
        "\<forall>i. st_of r' i = (if i \<in> ci_id ` set pre then Some Co_Running
              else if post \<noteq> [] \<and> i = ci_id (hd post) then Some Co_Failed else st_of r2 i)" by auto
    have "post \<noteq> [] \<Longrightarrow> ?i \<noteq> ci_id (hd post)" using d(4) p(2) by (cases post) auto
    then show ?thesis using p r2(3) by (intro conjI exI [of _ "c # pre"] exI [of _ post]) auto
  qed
qed (auto intro!: exI [of _ "[]"])

lemma stopLoop_states:
  "distinct (map ci_id cs) \<Longrightarrow> ci_id ` set cs \<subseteq> dom r \<Longrightarrow> (\<forall>c\<in>set cs. st_of r (ci_id c) = Some (ci_state c)) \<Longrightarrow>
   st_of (fst (stopLoop clock hook cs r w)) i =
     (if i \<in> ci_id ` set cs \<and> st_of r i \<in> {Some Co_Running, Some Co_Failed} then Some Co_Stopped else st_of r i)"
proof (induction cs arbitrary: r w)
  case (Cons c cs)
  show ?case
  proof (cases "ci_state c \<noteq> Co_Running \<and> ci_state c \<noteq> Co_Failed")
    case True
    then show ?thesis using Cons.IH [of r w] Cons.prems by auto
  next
    case False
    define r2 where "r2 = snd (setState (clock (length cs) True) (ci_id c) Co_Stopped []
        (snd (setState (clock (length cs) False) (ci_id c) Co_Stopping [] r)))"
    have d: "ci_id c \<in> dom r" "ci_id c \<notin> ci_id ` set cs" using Cons.prems by auto
    have r2: "dom r2 = dom r" "st_of r2 j = (if j = ci_id c then Some Co_Stopped else st_of r j)" for j
      using d by (simp_all add: r2_def st_of_setState)
    have "\<forall>x\<in>set cs. st_of r2 (ci_id x) = Some (ci_state x)" using Cons.prems(3) d(2) unfolding r2(2) by (metis imageI list.set_intros(2))
    with Cons.IH [of r2] Cons.prems r2(1)
    have "st_of (fst (stopLoop clock hook cs r2 w')) i =
      (if i \<in> ci_id ` set cs \<and> st_of r2 i \<in> {Some Co_Running, Some Co_Failed} then Some Co_Stopped else st_of r2 i)" for w'
      by simp
    moreover have "\<exists>w'. stopLoop clock hook (c # cs) r w = stopLoop clock hook cs r2 w'"
      using False by (auto simp: Let_def r2_def)
    moreover have "st_of r (ci_id c) \<in> {Some Co_Running, Some Co_Failed}" using False Cons.prems(3) by auto
    ultimately show ?thesis using r2(2) d(2) by auto
  qed
qed simp

lemma cr_all_elements:
  assumes "cr_ok ks r"
  shows "map ci_id (cr_all ks r) = ks" "\<forall>c\<in>set (cr_all ks r). st_of r (ci_id c) = Some (ci_state c)"
proof -
  have s: "r i \<noteq> None" "ci_id (the (r i)) = i" if "i \<in> set ks" for i
  proof -
    from that assms obtain c where "r i = Some c" unfolding cr_ok_def by blast
    then show "r i \<noteq> None" "ci_id (the (r i)) = i" using assms by (simp_all add: cr_ok_def)
  qed
  have "cr_all ks r = map (\<lambda>i. the (r i)) ks"
    using s(1) unfolding cr_all_def by (induction ks) (auto simp: List.map_filter_def)
  moreover have "st_of r i = Some (ci_state (the (r i)))" if "i \<in> set ks" for i using s(1) [OF that] by (auto simp: st_of_def)
  ultimately show "map ci_id (cr_all ks r) = ks" "\<forall>c\<in>set (cr_all ks r). st_of r (ci_id c) = Some (ci_state c)"
    using s(2) by (auto simp: map_idI comp_def)
qed

text \<open>Whether or not the start-up succeeds, a shutdown after it leaves no component behind: a successful start-up has
  every component running, a failed one names a component as failed with those before it running and
  those after it untouched, and the shutdown then stops exactly the running and the failed ones.\<close>

theorem startup_shutdown_clean:
  assumes ok: "cr_ok ks r" and srt: "order_sort ci_startOrder srt" "order_sort (\<lambda>c. - ci_startOrder c) srt'"
    and up: "startInOrder srt clock hook ks r w = (res, r', w')"
    and down: "stopInReverseOrder srt' clock' hook' ks r' w' = (r'', w'')"
  shows "\<exists>pre post. srt (cr_all ks r) = pre @ post \<and> (Result_ok res \<longleftrightarrow> post = []) \<and>
    (\<forall>i. st_of r' i = (if i \<in> ci_id ` set pre then Some Co_Running
                       else if post \<noteq> [] \<and> i = ci_id (hd post) then Some Co_Failed else st_of r i)) \<and>
    (\<forall>i\<in>set ks. st_of r'' i = (if st_of r' i \<in> {Some Co_Running, Some Co_Failed} then Some Co_Stopped else st_of r' i))"
proof -
  have ids: "distinct (map ci_id (srt (cr_all ks r)))" "ci_id ` set (srt (cr_all ks r)) = dom r"
    using order_sort.keeps_distinct [OF srt(1), of ci_id "cr_all ks r"] order_sort.same_elements [OF srt(1), of "cr_all ks r"]
      cr_all_elements(1) [OF ok] ok by (auto simp: cr_ok_def simp flip: set_map)
  obtain pre post where p: "cr_ok ks r'" "srt (cr_all ks r) = pre @ post" "case res of Inr _ \<Rightarrow> post = [] | Inl _ \<Rightarrow> post \<noteq> []"
      "\<forall>i. st_of r' i = (if i \<in> ci_id ` set pre then Some Co_Running
            else if post \<noteq> [] \<and> i = ci_id (hd post) then Some Co_Failed else st_of r i)"
    using startLoop_states [OF ids(1) _ up [unfolded startInOrder_def] ok] ids(2) by auto
  let ?cs = "srt' (cr_all ks r')"
  note so = order_sort.keeps_distinct [OF srt(2), of ci_id "cr_all ks r'"] order_sort.same_elements [OF srt(2), of "cr_all ks r'"]
  note el = cr_all_elements [OF p(1)]
  have i: "ci_id ` set ?cs = set ks" "dom r' = set ks" using so(2) el(1) p(1) by (auto simp: cr_ok_def simp flip: set_map)
  have "st_of r'' i = (if i \<in> ci_id ` set ?cs \<and> st_of r' i \<in> {Some Co_Running, Some Co_Failed} then Some Co_Stopped else st_of r' i)" for i
    using stopLoop_states [of ?cs r' clock' hook' w' i] so el i p(1) down by (simp add: stopInReverseOrder_def cr_ok_def)
  then show ?thesis using p i(1) by (intro exI [of _ pre] exI [of _ post]) (auto split: sum.splits)
qed

definition demo_components :: ComponentRegistry where
  "demo_components = registerComponent 2 Id_Outbox ''outbox'' 2 (registerComponent 1 Id_Ingestion ''ingestion'' 1 Map.empty)"

definition demo_hook :: "ComponentId \<Rightarrow> unit \<Rightarrow> unit Result \<times> unit" where
  "demo_hook i w = (if i = Id_Outbox then (Inl (mkError EC_QueueFull ''full''), w) else (Inr (), w))"

theorem startup_shutdown_clean_witness:
  "let ks = [Id_Outbox, Id_Ingestion];
       (res, r', w') = startInOrder (sort_key ci_startOrder) (\<lambda>_ _. 9) (Some demo_hook) ks demo_components ();
       (r'', w'') = stopInReverseOrder (sort_key (\<lambda>c. - ci_startOrder c)) (\<lambda>_ _. 9) None ks r' w'
   in \<not> Result_ok res \<and> st_of r' Id_Outbox = Some Co_Failed \<and> st_of r'' Id_Outbox = Some Co_Stopped \<and>
      st_of r'' Id_Ingestion = Some Co_Stopped"
proof -
  let ?ks = "[Id_Outbox, Id_Ingestion]" and ?srt = "sort_key ci_startOrder"
  have ok: "cr_ok ?ks demo_components" by (auto simp: cr_ok_def demo_components_def registerComponent_def split: if_splits)
  obtain res r' w' where up: "startInOrder ?srt (\<lambda>_ _. 9) (Some demo_hook) ?ks demo_components () = (res, r', w')"
    by (metis prod_cases3)
  obtain r'' w'' where down: "stopInReverseOrder (sort_key (\<lambda>c. - ci_startOrder c)) (\<lambda>_ _. 9) None ?ks r' w' = (r'', w'')"
    by (metis surj_pair)
  have "\<not> Result_ok res \<and> st_of r' Id_Outbox = Some Co_Failed \<and> st_of r' Id_Ingestion = Some Co_Running"
    using up by (auto simp: startInOrder_def cr_all_def List.map_filter_def demo_components_def registerComponent_def
        demo_hook_def setState_def st_of_def)
  with startup_shutdown_clean [OF ok startup_sort.order_sort_axioms shutdown_sort.order_sort_axioms up down]
  show ?thesis unfolding Let_def up down prod.case by auto
qed

end
