(* ===== verification/Readiness.thy ===== *)
theory Readiness
  imports Types "HOL-Library.Multiset"
begin

text \<open>
  \<open>ReadinessBarrier\<close> (\<open>include/observability/readiness_barrier.hpp\<close>) and \<open>RecentRoundCache\<close>
  (\<open>recent_round_cache.hpp\<close>). The barrier's \<open>admit\<close> reads the stage before it takes the lock and \<open>advanceTo\<close> moves the
  stage before it drains, so both are two steps of the transition relation; handing a drained event to the handler
  is a third. A handler is the list of events handed to it. Popping an empty deque, which happens for a barrier
  of capacity 0, is undefined in the language and has no result here.
\<close>

section \<open>The barrier\<close>

datatype ReadinessStage = Rs_Booting | Rs_MinimalStateReady | Rs_PredictionStateReady | Rs_LiveN1Ready | Rs_FullHydrationReady

fun stage_int :: "ReadinessStage \<Rightarrow> int" where
  "stage_int Rs_Booting = 0"
| "stage_int Rs_MinimalStateReady = 1"
| "stage_int Rs_PredictionStateReady = 2"
| "stage_int Rs_LiveN1Ready = 3"
| "stage_int Rs_FullHydrationReady = 4"

fun ReadinessStage_toString :: "ReadinessStage \<Rightarrow> string" where
  "ReadinessStage_toString Rs_Booting = ''BOOTING''"
| "ReadinessStage_toString Rs_MinimalStateReady = ''MINIMAL_STATE_READY''"
| "ReadinessStage_toString Rs_PredictionStateReady = ''PREDICTION_STATE_READY''"
| "ReadinessStage_toString Rs_LiveN1Ready = ''LIVE_N1_READY''"
| "ReadinessStage_toString Rs_FullHydrationReady = ''FULL_HYDRATION_READY''"

record ReadinessBarrier =
  rb_hold_capacity :: nat
  rb_stage :: ReadinessStage
  rb_held :: "CrashEvent list"
  rb_has_drain_handler :: bool
  rb_dropped :: u64

definition ReadinessBarrier_new :: "nat \<Rightarrow> ReadinessBarrier" where
  "ReadinessBarrier_new holdCapacity =
     \<lparr>rb_hold_capacity = holdCapacity, rb_stage = Rs_Booting, rb_held = [], rb_has_drain_handler = False, rb_dropped = 0\<rparr>"

definition isLiveReady :: "ReadinessBarrier \<Rightarrow> bool" where
  "isLiveReady b \<longleftrightarrow> stage_int Rs_LiveN1Ready \<le> stage_int (rb_stage b)"

definition setDrainHandler :: "ReadinessBarrier \<Rightarrow> ReadinessBarrier" where
  "setDrainHandler b = b\<lparr>rb_has_drain_handler := True\<rparr>"

text \<open>The compare-and-exchange loop of \<open>advanceTo\<close>: it succeeds exactly when the stage is below the target.\<close>

definition rb_cas :: "ReadinessStage \<Rightarrow> ReadinessBarrier \<Rightarrow> bool \<times> ReadinessBarrier" where
  "rb_cas target b =
     (if stage_int (rb_stage b) < stage_int target then (True, b\<lparr>rb_stage := target\<rparr>) else (False, b))"

text \<open>The locked part of \<open>drainHeld\<close>: the batch and the barrier without it.\<close>

definition rb_take :: "ReadinessBarrier \<Rightarrow> CrashEvent list \<times> ReadinessBarrier" where
  "rb_take b = (rb_held b, b\<lparr>rb_held := []\<rparr>)"

definition drainHeld :: "ReadinessBarrier \<Rightarrow> CrashEvent list \<times> ReadinessBarrier" where
  "drainHeld b = (let (batch, b) = rb_take b in (if rb_has_drain_handler b then batch else [], b))"

definition advanceTo :: "ReadinessStage \<Rightarrow> ReadinessBarrier \<Rightarrow> bool \<times> CrashEvent list \<times> ReadinessBarrier" where
  "advanceTo target b =
     (let (ok, b) = rb_cas target b
      in if \<not> ok then (False, [], b)
         else if stage_int Rs_LiveN1Ready \<le> stage_int target
              then (let (out, b) = drainHeld b in (True, out, b)) else (True, [], b))"

text \<open>The locked part of \<open>admit\<close>: the events it drops and the barrier.\<close>

definition rb_hold :: "CrashEvent \<Rightarrow> ReadinessBarrier \<Rightarrow> (CrashEvent list \<times> ReadinessBarrier) option" where
  "rb_hold ev b =
     (if rb_hold_capacity b \<le> length (rb_held b) then
        case rb_held b of
          [] \<Rightarrow> None
        | x # xs \<Rightarrow> Some ([x], b\<lparr>rb_held := xs @ [ev], rb_dropped := rb_dropped b + 1\<rparr>)
      else Some ([], b\<lparr>rb_held := rb_held b @ [ev]\<rparr>))"

text \<open>\<open>admit\<close>: its result, what its own handler gets, and the barrier.\<close>

definition admit :: "CrashEvent \<Rightarrow> bool \<Rightarrow> ReadinessBarrier \<Rightarrow> (bool \<times> CrashEvent list \<times> ReadinessBarrier) option" where
  "admit ev has_handler b =
     (if isLiveReady b then Some (True, if has_handler then [ev] else [], b)
      else map_option (\<lambda>(_, b). (False, [], b)) (rb_hold ev b))"

definition waitUntil_done :: "ReadinessStage \<Rightarrow> ReadinessBarrier \<Rightarrow> bool" where
  "waitUntil_done s b \<longleftrightarrow> stage_int s \<le> stage_int (rb_stage b)"

section \<open>Interleavings\<close>

text \<open>
  The state of a run: the barrier, the events of threads between their look at the stage and the lock, the number
  of threads that have moved the stage and not yet drained, the events taken by a drain and not yet handed
  over, the events handed over, in order, those dropped, and all that were admitted.
\<close>

record rb_run =
  rn_barrier :: ReadinessBarrier
  rn_admitting :: "CrashEvent multiset"
  rn_drains :: nat
  rn_handing :: "CrashEvent list"
  rn_out :: "CrashEvent list"
  rn_lost :: "CrashEvent multiset"
  rn_all :: "CrashEvent multiset"

definition rn_init :: "nat \<Rightarrow> rb_run" where
  "rn_init n = \<lparr>rn_barrier = setDrainHandler (ReadinessBarrier_new n), rn_admitting = {#}, rn_drains = 0, rn_handing = [],
     rn_out = [], rn_lost = {#}, rn_all = {#}\<rparr>"

inductive rb_step :: "rb_run \<Rightarrow> rb_run \<Rightarrow> bool" where
  admit_live: "isLiveReady (rn_barrier s) \<Longrightarrow>
    rb_step s (s\<lparr>rn_out := rn_out s @ [ev], rn_all := add_mset ev (rn_all s)\<rparr>)"
| admit_look: "\<not> isLiveReady (rn_barrier s) \<Longrightarrow>
    rb_step s (s\<lparr>rn_admitting := add_mset ev (rn_admitting s), rn_all := add_mset ev (rn_all s)\<rparr>)"
| admit_hold: "ev \<in># rn_admitting s \<Longrightarrow> rb_hold ev (rn_barrier s) = Some (lost, b) \<Longrightarrow>
    rb_step s (s\<lparr>rn_barrier := b, rn_admitting := rn_admitting s - {#ev#}, rn_lost := rn_lost s + mset lost\<rparr>)"
| advance: "rb_cas target (rn_barrier s) = (True, b) \<Longrightarrow>
    rb_step s (s\<lparr>rn_barrier := b,
      rn_drains := rn_drains s + (if stage_int Rs_LiveN1Ready \<le> stage_int target then 1 else 0)\<rparr>)"
| drain_take: "rn_drains s = Suc n \<Longrightarrow> rb_take (rn_barrier s) = (batch, b) \<Longrightarrow>
    rb_step s (s\<lparr>rn_barrier := b, rn_drains := n, rn_handing := rn_handing s @ batch\<rparr>)"
| drain_hand: "ev \<in> set (rn_handing s) \<Longrightarrow>
    rb_step s (s\<lparr>rn_handing := remove1 ev (rn_handing s), rn_out := rn_out s @ [ev]\<rparr>)"

inductive rb_reachable :: "nat \<Rightarrow> rb_run \<Rightarrow> bool" for n where
  init: "rb_reachable n (rn_init n)"
| step: "rb_reachable n s \<Longrightarrow> rb_step s s' \<Longrightarrow> rb_reachable n s'"

definition rn_inv :: "nat \<Rightarrow> rb_run \<Rightarrow> bool" where
  "rn_inv n s \<longleftrightarrow> rb_hold_capacity (rn_barrier s) = n \<and> length (rb_held (rn_barrier s)) \<le> n \<and>
     rn_all s = mset (rn_out s) + mset (rn_handing s) + mset (rb_held (rn_barrier s)) + rn_lost s + rn_admitting s \<and>
     rb_dropped (rn_barrier s) = of_nat (size (rn_lost s)) \<and>
     (\<not> isLiveReady (rn_barrier s) \<longrightarrow> rn_out s = [] \<and> rn_handing s = [] \<and> rn_drains s = 0)"

lemma rb_hold_effect:
  assumes "rb_hold ev b = Some (lost, b')" "length (rb_held b) \<le> rb_hold_capacity b"
  shows "mset (rb_held b') + mset lost = add_mset ev (mset (rb_held b))" "rb_hold_capacity b' = rb_hold_capacity b"
    "length (rb_held b') \<le> rb_hold_capacity b" "rb_stage b' = rb_stage b" "rb_dropped b' = rb_dropped b + of_nat (length lost)"
  using assms by (auto simp: rb_hold_def split: if_splits list.splits)

lemma rn_inv_step: "rb_step s s' \<Longrightarrow> rn_inv n s \<Longrightarrow> rn_inv n s'"
proof (induction rule: rb_step.induct)
  case (admit_live s ev)
  then show ?case by (simp add: rn_inv_def)
next
  case (admit_look s ev)
  then show ?case by (simp add: rn_inv_def)
next
  case (admit_hold ev s lost b)
  then have l: "length (rb_held (rn_barrier s)) \<le> rb_hold_capacity (rn_barrier s)" by (simp add: rn_inv_def)
  note h = rb_hold_effect [OF admit_hold(2) l]
  obtain m where m: "rn_admitting s = add_mset ev m" using admit_hold(1) by (blast dest: multi_member_split)
  have "rn_all s = mset (rn_out s) + mset (rn_handing s) + (mset (rb_held (rn_barrier s)) + rn_admitting s) + rn_lost s"
    using admit_hold(3) unfolding rn_inv_def by (simp only: ac_simps)
  also have "mset (rb_held (rn_barrier s)) + rn_admitting s = mset (rb_held b) + mset lost + m" using h(1) m by simp
  finally show ?case using admit_hold(3) h m by (simp add: rn_inv_def isLiveReady_def ac_simps)
next
  case (advance target s b)
  then show ?case by (auto simp: rn_inv_def rb_cas_def isLiveReady_def split: if_splits)
next
  case (drain_take s k batch b)
  then show ?case by (auto simp: rn_inv_def rb_take_def isLiveReady_def ac_simps)
next
  case (drain_hand ev s)
  then obtain m where m: "mset (rn_handing s) = add_mset ev m" by (metis multi_member_split set_mset_mset)
  have "rn_handing s \<noteq> []" using drain_hand(1) by auto
  with drain_hand(2) m show ?case by (auto simp: rn_inv_def)
qed

lemma rn_inv_init: "rn_inv n (rn_init n)"
  by (simp add: rn_inv_def rn_init_def setDrainHandler_def ReadinessBarrier_new_def)

lemma rb_reachable_inv: "rb_reachable n s \<Longrightarrow> rn_inv n s"
  by (induction rule: rb_reachable.induct) (blast intro: rn_inv_init rn_inv_step)+

text \<open>No event is lost or doubled at the barrier: in every interleaving of admitting and advancing threads each admitted
  event is in exactly one place (handed over, about to be, held, dropped for lack of room, or with a
  thread that is admitting it), the held ones fit the capacity, the counter of drops is right, nothing is handed
  over before the live stage, and a thread that is admitting an event can always finish.\<close>

theorem barrier_accounts_events:
  assumes "rb_reachable n s" and "0 < n"
  shows "rn_all s = mset (rn_out s) + mset (rn_handing s) + mset (rb_held (rn_barrier s)) + rn_lost s + rn_admitting s \<and>
    length (rb_held (rn_barrier s)) \<le> n \<and> rb_dropped (rn_barrier s) = of_nat (size (rn_lost s)) \<and>
    (isLiveReady (rn_barrier s) \<or> rn_out s = []) \<and> (\<exists>lost b. rb_hold ev (rn_barrier s) = Some (lost, b))"
proof -
  have inv: "rn_inv n s" using rb_reachable_inv [OF assms(1)] .
  then have "rb_hold ev (rn_barrier s) \<noteq> None" using assms(2) by (auto simp: rn_inv_def rb_hold_def split: list.splits)
  then obtain x where "rb_hold ev (rn_barrier s) = Some x" by blast
  then show ?thesis using inv unfolding rn_inv_def by (cases x) blast
qed

text \<open>A thread that looked at the stage just before it moved holds its event after the drain: the barrier is live, every
  thread has finished, and the event is still held.\<close>

lemma late_hold_strands:
  "\<exists>s. rb_reachable 4 s \<and> isLiveReady (rn_barrier s) \<and> rb_held (rn_barrier s) = [ev] \<and> rn_admitting s = {#} \<and>
     rn_drains s = 0 \<and> rn_handing s = [] \<and> rn_out s = []"
proof -
  let ?a = "(rn_init 4)\<lparr>rn_admitting := {#ev#}, rn_all := {#ev#}\<rparr>"
  let ?live = "(rn_barrier (rn_init 4))\<lparr>rb_stage := Rs_LiveN1Ready\<rparr>"
  let ?b = "?a\<lparr>rn_barrier := ?live, rn_drains := 1\<rparr>"
  let ?c = "?b\<lparr>rn_drains := 0\<rparr>"
  let ?d = "?c\<lparr>rn_barrier := ?live\<lparr>rb_held := [ev]\<rparr>, rn_admitting := {#}\<rparr>"
  note defs = rn_init_def setDrainHandler_def ReadinessBarrier_new_def
  have 1: "rb_step (rn_init 4) ?a"
    using rb_step.admit_look [of "rn_init 4" ev] by (simp add: isLiveReady_def defs)
  have 2: "rb_step ?a ?b"
    using rb_step.advance [of Rs_LiveN1Ready ?a ?live] by (simp add: rb_cas_def defs)
  have 3: "rb_step ?b ?c"
    using rb_step.drain_take [of ?b 0 "[]" ?live] by (simp add: rb_take_def defs)
  have 4: "rb_step ?c ?d"
    using rb_step.admit_hold [of ev ?c "[]" "?live\<lparr>rb_held := [ev]\<rparr>"] by (simp add: rb_hold_def defs)
  have "rb_reachable 4 ?d" using rb_reachable.init 1 2 3 4 by (meson rb_reachable.step)
  then show ?thesis by (intro exI [of _ ?d]) (simp add: isLiveReady_def defs)
qed

theorem barrier_accounts_events_witness:
  "\<exists>s. rb_reachable 4 s \<and> rn_all s = {#CrashEvent_default#} \<and>
     rn_all s = mset (rn_out s) + mset (rn_handing s) + mset (rb_held (rn_barrier s)) + rn_lost s + rn_admitting s"
proof -
  let ?a = "(rn_init 4)\<lparr>rn_admitting := {#CrashEvent_default#}, rn_all := {#CrashEvent_default#}\<rparr>"
  have "rb_step (rn_init 4) ?a"
    using rb_step.admit_look [of "rn_init 4" CrashEvent_default]
    by (simp add: isLiveReady_def rn_init_def setDrainHandler_def ReadinessBarrier_new_def)
  then have "rb_reachable 4 ?a" by (rule rb_reachable.step [OF rb_reachable.init])
  with barrier_accounts_events [of 4 ?a CrashEvent_default] show ?thesis by (intro exI [of _ ?a]) simp
qed

text \<open>Used from one thread, the barrier keeps the order: what was admitted before the live stage, the last of it that
  fits, then what was admitted after.\<close>

fun admit_all :: "CrashEvent list \<Rightarrow> ReadinessBarrier \<Rightarrow> (CrashEvent list \<times> ReadinessBarrier) option" where
  "admit_all [] b = Some ([], b)"
| "admit_all (ev # evs) b =
     (case admit ev True b of None \<Rightarrow> None
      | Some (_, out, b) \<Rightarrow> map_option (\<lambda>(outs, b). (out @ outs, b)) (admit_all evs b))"

lemma admit_all_holds:
  "\<not> isLiveReady b \<Longrightarrow> 0 < rb_hold_capacity b \<Longrightarrow> length (rb_held b) \<le> rb_hold_capacity b \<Longrightarrow>
   \<exists>d. admit_all evs b = Some ([], b\<lparr>rb_held := trim (rb_hold_capacity b) (rb_held b @ evs), rb_dropped := d\<rparr>)"
proof (induction evs arbitrary: b)
  case Nil
  then show ?case by (auto simp: trim_id intro!: exI [of _ "rb_dropped b"])
next
  case (Cons ev evs)
  let ?n = "rb_hold_capacity b"
  obtain d where d: "rb_hold ev b = Some (fst d, b\<lparr>rb_held := trim ?n (rb_held b @ [ev]), rb_dropped := snd d\<rparr>)"
  proof (cases "?n \<le> length (rb_held b)")
    case True
    then obtain x xs where x: "rb_held b = x # xs" "length (x # xs) = ?n" using Cons.prems by (cases "rb_held b") auto
    show ?thesis by (rule that [of "([x], rb_dropped b + 1)"]) (use x in \<open>simp add: rb_hold_def trim_eq_drop flip: x(2)\<close>)
  next
    case False
    show ?thesis by (rule that [of "([], rb_dropped b)"]) (use False in \<open>simp add: rb_hold_def trim_id\<close>)
  qed
  let ?b = "b\<lparr>rb_held := trim ?n (rb_held b @ [ev]), rb_dropped := snd d\<rparr>"
  have "\<not> isLiveReady ?b" using Cons.prems(1) by (simp add: isLiveReady_def)
  from Cons.IH [OF this] Cons.prems obtain d' where
    "admit_all evs ?b = Some ([], ?b\<lparr>rb_held := trim ?n (trim ?n (rb_held b @ [ev]) @ evs), rb_dropped := d'\<rparr>)" by auto
  then show ?case using Cons.prems(1) d by (auto simp: admit_def trim_trim_snoc)
qed

lemma admit_all_live: "isLiveReady b \<Longrightarrow> admit_all evs b = Some (evs, b)"
  by (induction evs) (simp_all add: admit_def)

lemma barrier_keeps_order:
  assumes "0 < n" and "stage_int Rs_LiveN1Ready \<le> stage_int target"
  shows "\<exists>b b'. admit_all evs (setDrainHandler (ReadinessBarrier_new n)) = Some ([], b) \<and>
    advanceTo target b = (True, trim n evs, b') \<and> admit_all evs' b' = Some (evs', b')"
proof -
  let ?b = "setDrainHandler (ReadinessBarrier_new n)"
  have "\<not> isLiveReady ?b" "rb_hold_capacity ?b = n" "rb_held ?b = []" "rb_has_drain_handler ?b" "rb_stage ?b = Rs_Booting"
    by (simp_all add: setDrainHandler_def ReadinessBarrier_new_def isLiveReady_def)
  moreover from this admit_all_holds [of ?b evs] assms(1) obtain d where
    "admit_all evs ?b = Some ([], ?b\<lparr>rb_held := trim n evs, rb_dropped := d\<rparr>)" by auto
  ultimately show ?thesis using assms(2)
    by (intro exI conjI) (assumption, simp add: advanceTo_def rb_cas_def drainHeld_def rb_take_def Let_def,
        rule admit_all_live, simp add: isLiveReady_def)
qed

section \<open>The cache of recent rounds\<close>

record CachedRound =
  rr_gameId :: string
  rr_multiplier :: double
  rr_endedAtMs :: TimestampMs
  rr_cachedAtMs :: TimestampMs
  rr_hash :: string

text \<open>The map's values are positions in the list, so the map is the set of its keys.\<close>

record RecentRoundCache =
  rc_capacity :: nat
  rc_order :: "CachedRound list"
  rc_map :: "string set"

definition RecentRoundCache_new :: "nat \<Rightarrow> RecentRoundCache" where
  "RecentRoundCache_new capacity = \<lparr>rc_capacity = capacity, rc_order = [], rc_map = {}\<rparr>"

definition rc_stamp :: "TimestampMs \<Rightarrow> CachedRound \<Rightarrow> CachedRound" where
  "rc_stamp now r = r\<lparr>rr_cachedAtMs := (if rr_cachedAtMs r \<noteq> 0 then rr_cachedAtMs r else now)\<rparr>"

text \<open>\<open>while (map_.size() > capacity_)\<close> drop the front of the list.\<close>

fun rc_evict :: "nat \<Rightarrow> string set \<Rightarrow> CachedRound list \<Rightarrow> string set \<times> CachedRound list" where
  "rc_evict n m [] = (m, [])"
| "rc_evict n m (x # xs) = (if card m > n then rc_evict n (m - {rr_gameId x}) xs else (m, x # xs))"

text \<open>\<open>splice\<close> of the element with the given id to the end.\<close>

definition rc_rest :: "string \<Rightarrow> CachedRound list \<Rightarrow> CachedRound list" where
  "rc_rest g xs = filter (\<lambda>x. rr_gameId x \<noteq> g) xs"

definition rc_find :: "string \<Rightarrow> CachedRound list \<Rightarrow> CachedRound option" where
  "rc_find g xs = List.find (\<lambda>x. rr_gameId x = g) xs"

definition rc_put :: "TimestampMs \<Rightarrow> CachedRound \<Rightarrow> RecentRoundCache \<Rightarrow> RecentRoundCache" where
  "rc_put now r c =
     (let r = rc_stamp now r
      in if rr_gameId r \<in> rc_map c then c\<lparr>rc_order := rc_rest (rr_gameId r) (rc_order c) @ [r]\<rparr>
         else let (m, xs) = rc_evict (rc_capacity c) (insert (rr_gameId r) (rc_map c)) (rc_order c @ [r])
              in c\<lparr>rc_map := m, rc_order := xs\<rparr>)"

definition rc_get :: "string \<Rightarrow> RecentRoundCache \<Rightarrow> CachedRound option \<times> RecentRoundCache" where
  "rc_get g c =
     (if g \<notin> rc_map c then (None, c)
      else case rc_find g (rc_order c) of
             None \<Rightarrow> (None, c)
           | Some x \<Rightarrow> (Some x, c\<lparr>rc_order := rc_rest g (rc_order c) @ [x]\<rparr>))"

definition rc_contains :: "string \<Rightarrow> RecentRoundCache \<Rightarrow> bool" where
  "rc_contains g c \<longleftrightarrow> g \<in> rc_map c"

definition rc_size :: "RecentRoundCache \<Rightarrow> nat" where
  "rc_size c = card (rc_map c)"

definition rc_clear :: "RecentRoundCache \<Rightarrow> RecentRoundCache" where
  "rc_clear c = c\<lparr>rc_map := {}, rc_order := []\<rparr>"

definition rc_ids :: "RecentRoundCache \<Rightarrow> string list" where
  "rc_ids c = map rr_gameId (rc_order c)"

definition rc_inv :: "RecentRoundCache \<Rightarrow> bool" where
  "rc_inv c \<longleftrightarrow> rc_map c = set (rc_ids c) \<and> distinct (rc_ids c) \<and> length (rc_order c) \<le> rc_capacity c"

lemma rc_inv_new: "rc_inv (RecentRoundCache_new n)"
  by (simp add: rc_inv_def RecentRoundCache_new_def rc_ids_def)

lemma rc_evict_eq:
  "distinct (map rr_gameId xs) \<Longrightarrow>
   rc_evict n (rr_gameId ` set xs) xs = (rr_gameId ` set (trim n xs), trim n xs)"
proof (induction xs)
  case (Cons x xs)
  then have "rr_gameId ` set (x # xs) - {rr_gameId x} = rr_gameId ` set xs"
    "card (rr_gameId ` set (x # xs)) = length (x # xs)"
    by (auto simp: distinct_card simp flip: set_map)
  with Cons show ?case by simp
qed simp

lemma map_trim: "map f (trim n xs) = trim n (map f xs)"
  by (simp add: trim_eq_drop drop_map)

lemma image_trim: "f ` set (trim n xs) = set (trim n (map f xs))"
  by (simp flip: map_trim)

lemma rc_rest_ids: "map rr_gameId (rc_rest g xs) = filter (\<lambda>i. i \<noteq> g) (map rr_gameId xs)"
  by (simp add: rc_rest_def filter_map comp_def)

lemma rc_rest_subset: "set (rc_rest g xs) \<subseteq> set xs"
  by (auto simp: rc_rest_def)

lemma rc_find_id: "rc_find g xs = Some x \<Longrightarrow> rr_gameId x = g \<and> x \<in> set xs"
  unfolding rc_find_def by (metis (mono_tags, lifting) find_Some_iff nth_mem)

lemma rc_find_none: "rc_find g xs = None \<longleftrightarrow> g \<notin> rr_gameId ` set xs"
  unfolding rc_find_def by (auto simp: find_None_iff)

lemma rc_find_append: "rc_find g (xs @ ys) = (case rc_find g xs of None \<Rightarrow> rc_find g ys | Some x \<Rightarrow> Some x)"
  unfolding rc_find_def by (induction xs) simp_all

lemma rc_find_rest: "rc_find g (rc_rest k xs) = (if g = k then None else rc_find g xs)"
  unfolding rc_find_def rc_rest_def by (induction xs) auto

text \<open>Moving an element to the end, or appending one, keeps the invariant; the ids are those of a
  least-recently-used list.\<close>

definition touch :: "nat \<Rightarrow> 'a \<Rightarrow> 'a list \<Rightarrow> 'a list" where
  "touch n g ids = (if g \<in> set ids then filter (\<lambda>i. i \<noteq> g) ids @ [g] else trim n (ids @ [g]))"

lemma length_filter_one: "distinct ids \<Longrightarrow> g \<in> set ids \<Longrightarrow> Suc (length (filter (\<lambda>i. i \<noteq> g) ids)) = length ids"
proof (induction ids)
  case (Cons i ids)
  have "filter (\<lambda>i. i \<noteq> g) ids = ids" if "g \<notin> set ids" using that by (induction ids) auto
  with Cons show ?case by auto
qed simp

lemma rc_put_state:
  assumes "rc_inv c"
  shows "rc_ids (rc_put now r c) = touch (rc_capacity c) (rr_gameId r) (rc_ids c)" "rc_inv (rc_put now r c)"
    "rc_capacity (rc_put now r c) = rc_capacity c"
proof -
  let ?r = "rc_stamp now r" and ?g = "rr_gameId r" and ?n = "rc_capacity c"
  have g: "rr_gameId ?r = ?g" by (simp add: rc_stamp_def)
  have i: "rc_map c = set (rc_ids c)" "distinct (rc_ids c)" "length (rc_order c) \<le> ?n" using assms by (simp_all add: rc_inv_def)
  show "rc_ids (rc_put now r c) = touch ?n ?g (rc_ids c)" "rc_inv (rc_put now r c)" "rc_capacity (rc_put now r c) = ?n"
  proof (atomize (full), cases "?g \<in> set (rc_ids c)")
    case True
    then have e: "rc_put now r c = c\<lparr>rc_order := rc_rest ?g (rc_order c) @ [?r]\<rparr>" using i by (simp add: rc_put_def Let_def g)
    have "length (rc_rest ?g (rc_order c)) < length (rc_order c)"
      using length_filter_one [OF i(2) True] rc_rest_ids [of ?g "rc_order c"] unfolding rc_ids_def by (metis length_map lessI)
    then show "rc_ids (rc_put now r c) = touch ?n ?g (rc_ids c) \<and> rc_inv (rc_put now r c) \<and> rc_capacity (rc_put now r c) = ?n"
      using i True by (auto simp: e rc_inv_def rc_ids_def rc_rest_ids touch_def g)
  next
    case False
    let ?xs = "rc_order c @ [?r]"
    have d: "distinct (map rr_gameId ?xs)" "insert ?g (rc_map c) = rr_gameId ` set ?xs"
      using i False by (auto simp: rc_ids_def g)
    have e: "rc_put now r c = c\<lparr>rc_map := rr_gameId ` set (trim ?n ?xs), rc_order := trim ?n ?xs\<rparr>"
      using False i rc_evict_eq [OF d(1), of ?n] by (simp add: rc_put_def Let_def g rc_ids_def)
    have "distinct (map rr_gameId (trim ?n ?xs))" unfolding map_trim by (rule distinct_trim [OF d(1)])
    then show "rc_ids (rc_put now r c) = touch ?n ?g (rc_ids c) \<and> rc_inv (rc_put now r c) \<and> rc_capacity (rc_put now r c) = ?n"
      using False by (simp add: e rc_inv_def rc_ids_def touch_def map_trim image_trim g)
  qed
qed

lemma rc_get_state:
  assumes "rc_inv c"
  shows "fst (rc_get g c) = rc_find g (rc_order c)"
    "rc_ids (snd (rc_get g c)) = (if g \<in> set (rc_ids c) then touch (rc_capacity c) g (rc_ids c) else rc_ids c)"
    "rc_inv (snd (rc_get g c))" "rc_capacity (snd (rc_get g c)) = rc_capacity c" "set (rc_order (snd (rc_get g c))) \<subseteq> set (rc_order c)"
proof -
  have i: "rc_map c = set (rc_ids c)" "distinct (rc_ids c)" "length (rc_order c) \<le> rc_capacity c" using assms by (simp_all add: rc_inv_def)
  have "fst (rc_get g c) = rc_find g (rc_order c) \<and>
      rc_ids (snd (rc_get g c)) = (if g \<in> set (rc_ids c) then touch (rc_capacity c) g (rc_ids c) else rc_ids c) \<and>
      rc_inv (snd (rc_get g c)) \<and> rc_capacity (snd (rc_get g c)) = rc_capacity c \<and> set (rc_order (snd (rc_get g c))) \<subseteq> set (rc_order c)"
  proof (cases "rc_find g (rc_order c)")
    case None
    then have "g \<notin> set (rc_ids c)" by (simp add: rc_find_none rc_ids_def)
    then show ?thesis using assms i None by (simp add: rc_get_def)
  next
    case (Some x)
    then have x: "rr_gameId x = g" "x \<in> set (rc_order c)" using rc_find_id by blast+
    then have m: "g \<in> set (rc_ids c)" by (auto simp: rc_ids_def)
    have e: "rc_get g c = (Some x, c\<lparr>rc_order := rc_rest g (rc_order c) @ [x]\<rparr>)" using Some m i by (simp add: rc_get_def)
    have "length (rc_rest g (rc_order c)) < length (rc_order c)"
      using length_filter_one [OF i(2) m] rc_rest_ids [of g "rc_order c"] unfolding rc_ids_def by (metis length_map lessI)
    then show ?thesis using i m x Some rc_rest_subset [of g "rc_order c"]
      by (auto simp: e rc_inv_def rc_ids_def rc_rest_ids touch_def)
  qed
  then show "fst (rc_get g c) = rc_find g (rc_order c)"
    "rc_ids (snd (rc_get g c)) = (if g \<in> set (rc_ids c) then touch (rc_capacity c) g (rc_ids c) else rc_ids c)"
    "rc_inv (snd (rc_get g c))" "rc_capacity (snd (rc_get g c)) = rc_capacity c" "set (rc_order (snd (rc_get g c))) \<subseteq> set (rc_order c)"
    by blast+
qed

lemma rc_put_order: "set (rc_order (rc_put now r c)) \<subseteq> insert (rc_stamp now r) (set (rc_order c))"
proof -
  have e: "set (snd (rc_evict n m xs)) \<subseteq> set xs" for n m xs by (induction n m xs rule: rc_evict.induct) auto
  show ?thesis
    using e [of "rc_capacity c" "insert (rr_gameId (rc_stamp now r)) (rc_map c)" "rc_order c @ [rc_stamp now r]"]
    by (auto simp: rc_put_def Let_def rc_rest_def case_prod_beta)
qed

section \<open>Retention\<close>

datatype cache_op = Put TimestampMs CachedRound | Get string

fun rc_exec :: "cache_op \<Rightarrow> RecentRoundCache \<Rightarrow> RecentRoundCache" where
  "rc_exec (Put now r) c = rc_put now r c"
| "rc_exec (Get g) c = snd (rc_get g c)"

fun op_key :: "cache_op \<Rightarrow> string" where
  "op_key (Put now r) = rr_gameId r"
| "op_key (Get g) = g"

fun puts :: "string \<Rightarrow> cache_op \<Rightarrow> bool" where
  "puts g (Put now r) \<longleftrightarrow> rr_gameId r = g"
| "puts g (Get k) \<longleftrightarrow> False"

text \<open>The ids more recently used than \<open>g\<close>.\<close>

definition kept_by :: "'a \<Rightarrow> 'a set \<Rightarrow> 'a list \<Rightarrow> bool" where
  "kept_by g K ids \<longleftrightarrow> (\<exists>xs ys. ids = xs @ g # ys \<and> set ys \<subseteq> K)"

lemma kept_byI: "ids = xs @ g # ys \<Longrightarrow> set ys \<subseteq> K \<Longrightarrow> kept_by g K ids"
  by (auto simp: kept_by_def)

lemma trim_keeps_tail: "length zs < n \<Longrightarrow> \<exists>us. trim n (xs @ g # zs) = us @ g # zs"
  by (intro exI [of _ "drop (length (xs @ g # zs) - n) xs"]) (simp add: trim_eq_drop)

lemma kept_touch:
  assumes "kept_by g K ids" "distinct ids" "finite K" "card (insert k K - {g}) < n"
  shows "kept_by g (insert k K - {g}) (touch n k ids)"
proof -
  from assms(1) obtain xs ys where ids: "ids = xs @ g # ys" "set ys \<subseteq> K" by (auto simp: kept_by_def)
  have y: "g \<notin> set ys" using assms(2) unfolding ids(1) by simp
  show ?thesis
  proof (cases "k \<in> set ids")
    case True
    show ?thesis
    proof (cases "k = g")
      case True
      have "touch n k ids = (filter (\<lambda>i. i \<noteq> g) ids) @ g # []" unfolding True touch_def ids(1) by simp
      then show ?thesis by (rule kept_byI) simp
    next
      case False
      have "touch n k ids = filter (\<lambda>i. i \<noteq> k) xs @ g # (filter (\<lambda>i. i \<noteq> k) ys @ [k])"
        using True False unfolding touch_def ids(1) by simp
      moreover have "set (filter (\<lambda>i. i \<noteq> k) ys @ [k]) \<subseteq> insert k K - {g}" using ids(2) y False by auto
      ultimately show ?thesis by (rule kept_byI)
    qed
  next
    case False
    let ?zs = "ys @ [k]"
    have "k \<noteq> g" using False ids(1) by auto
    then have z: "set ?zs \<subseteq> insert k K - {g}" using ids(2) y by auto
    have "distinct ?zs" using assms(2) False unfolding ids(1) by simp
    then have "length ?zs = card (set ?zs)" by (rule distinct_card [symmetric])
    also have "\<dots> \<le> card (insert k K - {g})" by (rule card_mono [OF _ z]) (simp add: assms(3))
    finally have "length ?zs < n" using assms(4) by simp
    from trim_keeps_tail [OF this] obtain us where "trim n (xs @ g # ?zs) = us @ g # ?zs" ..
    then have "touch n k ids = us @ g # ?zs" using False unfolding touch_def ids(1) by simp
    then show ?thesis using z by (rule kept_byI)
  qed
qed

lemma rc_exec_state:
  assumes "rc_inv c"
  shows "rc_inv (rc_exec op c)" "rc_capacity (rc_exec op c) = rc_capacity c"
    "rc_ids (rc_exec op c) = touch (rc_capacity c) (op_key op) (rc_ids c) \<or> rc_ids (rc_exec op c) = rc_ids c"
    "\<not> puts g op \<Longrightarrow> x \<in> set (rc_order (rc_exec op c)) \<Longrightarrow> rr_gameId x = g \<Longrightarrow> x \<in> set (rc_order c)"
  using rc_put_state [OF assms] rc_get_state [OF assms] rc_put_order
  by (cases op; fastforce simp: rc_stamp_def)+

lemma rc_unique: "rc_inv c \<Longrightarrow> x \<in> set (rc_order c) \<Longrightarrow> rc_find (rr_gameId x) (rc_order c) = Some x"
proof -
  assume inv: "rc_inv c" and x: "x \<in> set (rc_order c)"
  then obtain y where y: "rc_find (rr_gameId x) (rc_order c) = Some y" using rc_find_none by fastforce
  have "inj_on rr_gameId (set (rc_order c))" using inv by (simp add: rc_inv_def rc_ids_def distinct_map)
  with rc_find_id [OF y] x show ?thesis using y by (auto dest: inj_onD)
qed

lemma rc_run_keeps:
  "rc_inv c \<Longrightarrow> finite K \<Longrightarrow> kept_by g K (rc_ids c) \<Longrightarrow> rc_find g (rc_order c) = Some x \<Longrightarrow> list_all (\<lambda>op. \<not> puts g op) ops \<Longrightarrow>
   card ((K \<union> op_key ` set ops) - {g}) < rc_capacity c \<Longrightarrow>
   rc_inv (fold rc_exec ops c) \<and> rc_capacity (fold rc_exec ops c) = rc_capacity c \<and> rc_find g (rc_order (fold rc_exec ops c)) = Some x"
proof (induction ops arbitrary: c K)
  case (Cons op ops)
  let ?c = "rc_exec op c" and ?K = "insert (op_key op) K - {g}"
  note e = rc_exec_state [OF Cons.prems(1), where op = op]
  have fin: "finite (K \<union> op_key ` set (op # ops) - {g})" using Cons.prems(2) by simp
  have "card ?K \<le> card (K \<union> op_key ` set (op # ops) - {g})" by (rule card_mono [OF fin]) auto
  then have k: "card ?K < rc_capacity c" using Cons.prems(6) by simp
  have d: "distinct (rc_ids c)" using Cons.prems(1) by (simp add: rc_inv_def)
  obtain xs ys where "rc_ids c = xs @ g # ys" "set ys \<subseteq> K" using Cons.prems(3) by (auto simp: kept_by_def)
  then have same: "kept_by g ?K (rc_ids c)" using d by (intro kept_byI [of _ xs g ys]) auto
  then have w: "kept_by g ?K (rc_ids ?c)"
    using e(3) same kept_touch [OF Cons.prems(3) d Cons.prems(2) k] by auto
  then have "g \<in> rr_gameId ` set (rc_order ?c)" by (auto simp: kept_by_def rc_ids_def simp flip: set_map)
  then obtain y where y: "y \<in> set (rc_order ?c)" "rr_gameId y = g" by blast
  have "y \<in> set (rc_order c)" using e(4) [where g = g and x = y] y Cons.prems(5) by simp
  then have "y = x" using rc_unique [OF Cons.prems(1)] y(2) Cons.prems(4) by auto
  then have f: "rc_find g (rc_order ?c) = Some x" using rc_unique [OF e(1) y(1)] y(2) by simp
  have "?K \<union> op_key ` set ops - {g} = K \<union> op_key ` set (op # ops) - {g}" by auto
  then have "card (?K \<union> op_key ` set ops - {g}) < rc_capacity ?c" using Cons.prems(6) e(2) by simp
  from Cons.IH [OF e(1) _ w f _ this] Cons.prems(2,5) e(2) show ?case by simp
qed simp

text \<open>The cache keeps what was used most recently: a round that was put is found again, as it was put, after any
  further puts and gets in which it is not put again and fewer other rounds than the capacity occur, and the
  cache never holds more rounds than its capacity.\<close>

theorem recent_cache_lru:
  assumes "rc_inv c" and "list_all (\<lambda>op. \<not> puts (rr_gameId r) op) ops"
    and "card (op_key ` set ops - {rr_gameId r}) < rc_capacity c"
  shows "let c' = fold rc_exec ops (rc_put now r c) in
    fst (rc_get (rr_gameId r) c') = Some (rc_stamp now r) \<and> rc_size c' \<le> rc_capacity c"
proof -
  let ?c = "rc_put now r c" and ?g = "rr_gameId r"
  note p = rc_put_state [OF assms(1), of now r]
  have n: "0 < rc_capacity c" using assms(3) by simp
  have w: "kept_by ?g {} (rc_ids ?c)"
    using n trim_keeps_tail [of "[]" "rc_capacity c" "rc_ids c" ?g] by (auto simp: p(1) touch_def kept_by_def)
  then have "?g \<in> rr_gameId ` set (rc_order ?c)" by (auto simp: kept_by_def rc_ids_def simp flip: set_map)
  moreover have "rc_stamp now r \<in> set (rc_order ?c)"
    using n trim_last_mem [of "rc_capacity c" "rc_stamp now r" "rc_order c"] assms(1)
      rc_evict_eq [of "rc_order c @ [rc_stamp now r]" "rc_capacity c"]
    by (auto simp: rc_put_def Let_def rc_inv_def rc_ids_def rc_stamp_def)
  ultimately have f: "rc_find ?g (rc_order ?c) = Some (rc_stamp now r)"
    using rc_unique [OF p(2), of "rc_stamp now r"] by (simp add: rc_stamp_def)
  have r: "rc_inv (fold rc_exec ops ?c)" "rc_capacity (fold rc_exec ops ?c) = rc_capacity c"
    "rc_find ?g (rc_order (fold rc_exec ops ?c)) = Some (rc_stamp now r)"
    using rc_run_keeps [OF p(2) _ w f assms(2)] assms(3) p(3) by simp_all
  then have "rc_size (fold rc_exec ops ?c) \<le> rc_capacity c"
    using distinct_card [of "rc_ids (fold rc_exec ops ?c)"] by (simp add: rc_size_def rc_inv_def) (simp add: rc_ids_def)
  then show ?thesis using r rc_get_state(1) [OF r(1), of ?g] by simp
qed

definition demo_round :: "string \<Rightarrow> CachedRound" where
  "demo_round g = \<lparr>rr_gameId = g, rr_multiplier = Fin 2, rr_endedAtMs = 5, rr_cachedAtMs = 0, rr_hash = []\<rparr>"

theorem recent_cache_lru_witness:
  "let c' = fold rc_exec [Put 8 (demo_round ''b''), Get ''a'', Put 9 (demo_round ''b'')] (rc_put 7 (demo_round ''a'') (RecentRoundCache_new 2)) in
    fst (rc_get ''a'' c') = Some (rc_stamp 7 (demo_round ''a'')) \<and> rc_size c' \<le> 2"
proof -
  let ?ops = "[Put 8 (demo_round ''b''), Get ''a'', Put 9 (demo_round ''b'')]"
  have "op_key ` set ?ops - {rr_gameId (demo_round ''a'')} = {''b''}" by (auto simp: demo_round_def)
  then have k: "card (op_key ` set ?ops - {rr_gameId (demo_round ''a'')}) < rc_capacity (RecentRoundCache_new 2)"
    by (simp only: card.insert finite.emptyI empty_iff card.empty) (simp add: RecentRoundCache_new_def)
  show ?thesis
    using recent_cache_lru [OF rc_inv_new _ k, of 7] by (simp add: demo_round_def RecentRoundCache_new_def)
qed

end
