(* ===== verification/Sql.thy ===== *)
theory Sql
  imports Outcomes
begin

text \<open>
  The SQL text of \<open>include/persistence/sql_builder.hpp\<close>. Statements are strings; a reference lexer of SQL text with
  string literals (a quote inside a literal is doubled) says what the database sees of them: the text with each literal
  replaced by a mark, and the values of the literals.
\<close>

section \<open>Numbers and literals in a statement\<close>

text \<open>\<open>oss << std::fixed << std::setprecision(d) << x\<close>, for at least one digit; also \<open>std::to_string\<close> of a double with six.\<close>

definition fixedn :: "nat \<Rightarrow> double \<Rightarrow> string" where
  "fixedn d x =
     (case x of
        Fin q \<Rightarrow>
          let n = nat (rne (\<bar>q\<bar> * 10 ^ d)); f = show_nat (n mod 10 ^ d)
          in (if q < 0 then ''-'' else []) @ show_nat (n div 10 ^ d) @ ''.'' @ replicate (d - length f) (CHR ''0'') @ f
      | PInf \<Rightarrow> ''inf'' | NInf \<Rightarrow> ''-inf'' | NaN \<Rightarrow> ''nan'')"

definition squote :: char where
  "squote = CHR 0x27"

definition quote :: "string \<Rightarrow> string" where
  "quote s = [squote] @ concat (map (\<lambda>c. if c = squote then [squote, squote] else [c]) s) @ [squote]"

fun PredictionDecision_int :: "PredictionDecision \<Rightarrow> nat" where
  "PredictionDecision_int Dec_Skip = 0"
| "PredictionDecision_int Dec_Enter = 1"
| "PredictionDecision_int Dec_Hold = 2"

fun OutboxState_int :: "OutboxState \<Rightarrow> nat" where
  "OutboxState_int Ob_Pending = 0"
| "OutboxState_int Ob_Claimed = 1"
| "OutboxState_int Ob_InFlight = 2"
| "OutboxState_int Ob_Delivered = 3"
| "OutboxState_int Ob_Failed = 4"
| "OutboxState_int Ob_DeadLetter = 5"

section \<open>Statements\<close>

definition upsertCrashRound :: "CrashRound \<Rightarrow> string" where
  "upsertCrashRound r =
     ''INSERT INTO crash_rounds(game_id, multiplier, hash, salt, began_at_ms, crashed_at_ms, sequence) VALUES('' @
     quote (cr_gameId r) @ '', '' @ fixedn 4 (cr_multiplier r) @ '', '' @ quote (cr_hash r) @ '', '' @ quote (cr_salt r) @ '', '' @
     show_int (cr_beganAtMs r) @ '', '' @ show_int (cr_crashedAtMs r) @ '', '' @ show_nat (unat (cr_sequence r)) @
     '') ON CONFLICT (game_id) DO UPDATE SET '' @ ''multiplier = EXCLUDED.multiplier, '' @
     ''hash = COALESCE(EXCLUDED.hash, crash_rounds.hash), '' @ ''crashed_at_ms = EXCLUDED.crashed_at_ms, '' @
     ''sequence = EXCLUDED.sequence''"

definition upsertPrediction :: "PredictionEvent \<Rightarrow> string" where
  "upsertPrediction e =
     ''INSERT INTO predictions(id, round_id, game_id, decision, confidence, entry_mult, target_mult, correlation_id, model_version, created_at_ms) VALUES('' @
     quote (pe_predictionId e) @ '', '' @ quote (pe_targetRoundId e) @ '', '' @ quote (pe_gameId e) @ '', '' @
     show_nat (PredictionDecision_int (pe_decision e)) @ '', '' @ fixedn 6 (pe_confidence e) @ '', '' @
     fixedn 6 (pe_entryMult e) @ '', '' @ fixedn 6 (pe_targetMult e) @ '', '' @ quote (pe_correlationId e) @ '', '' @
     quote (pe_modelVersion e) @ '', '' @ show_int (pe_createdAtMs e) @ '') ON CONFLICT (id) DO NOTHING''"

definition upsertOutcome :: "Outcome \<Rightarrow> string" where
  "upsertOutcome oc =
     ''INSERT INTO outcomes(prediction_id, round_id, result, actual_mult, target_mult, is_win, resolved_at_ms) VALUES('' @
     quote (oc_predictionId oc) @ '', '' @ quote (oc_roundId oc) @ '', '' @ quote (outcomeName (oc_result oc)) @ '', '' @
     fixedn 4 (oc_actualMult oc) @ '', '' @ fixedn 4 (oc_targetMult oc) @ '', '' @
     (if oc_isWin oc then ''TRUE'' else ''FALSE'') @ '', '' @ show_int (oc_resolvedAtMs oc) @
     '') ON CONFLICT (prediction_id) DO NOTHING''"

definition insertOutbox :: "OutboxItem \<Rightarrow> string" where
  "insertOutbox item =
     ''INSERT INTO notification_outbox(state, prediction_id, round_id, signal_kind, text, dedupe_key, attempts, created_at_ms) VALUES('' @
     show_nat (OutboxState_int (oi_state item)) @ '', '' @ quote (sg_predictionId (oi_signal item)) @ '', '' @
     quote (sg_roundId (oi_signal item)) @ '', '' @ show_nat (SignalKind_int (sg_kind (oi_signal item))) @ '', '' @
     quote (sg_text (oi_signal item)) @ '', '' @ quote (oi_dedupeKey item) @ '', '' @ show_int (oi_attempts item) @ '', '' @
     show_int (oi_createdAtMs item) @ '') ON CONFLICT (dedupe_key) DO NOTHING''"

definition claimOutboxBatch :: "int \<Rightarrow> string" where
  "claimOutboxBatch limit =
     ''UPDATE notification_outbox SET state = 1, claimed_at_ms = '' @ ''(EXTRACT(EPOCH FROM NOW())*1000)::BIGINT '' @
     ''WHERE id IN ('' @ ''  SELECT id FROM notification_outbox WHERE state = 0 '' @ ''  ORDER BY created_at_ms ASC LIMIT '' @
     show_int limit @ ''  FOR UPDATE SKIP LOCKED'' @ '') RETURNING *''"

definition markOutboxDelivered :: "u64 \<Rightarrow> string" where
  "markOutboxDelivered i =
     ''UPDATE notification_outbox SET state = 3, delivered_at_ms = '' @
     ''(EXTRACT(EPOCH FROM NOW())*1000)::BIGINT WHERE id = '' @ show_nat (unat i)"

definition prediction_columns :: string where
  "prediction_columns =
     ''SELECT id, round_id, game_id, decision, confidence, entry_mult, target_mult, '' @
     ''correlation_id, model_version, created_at_ms FROM predictions ''"

definition selectPredictionById :: "string \<Rightarrow> string" where
  "selectPredictionById i = prediction_columns @ ''WHERE id = '' @ quote i @ '' LIMIT 1''"

definition selectRecentPredictions :: "u64 \<Rightarrow> string" where
  "selectRecentPredictions limit = prediction_columns @ ''ORDER BY created_at_ms DESC LIMIT '' @ show_nat (unat limit)"

definition selectPredictionsByRound :: "string \<Rightarrow> string" where
  "selectPredictionsByRound roundId = prediction_columns @ ''WHERE round_id = '' @ quote roundId"

definition selectOutcomeById :: "string \<Rightarrow> string" where
  "selectOutcomeById i =
     ''SELECT prediction_id, round_id, result, actual_mult, target_mult, is_win, resolved_at_ms '' @
     ''FROM outcomes WHERE prediction_id = '' @ quote i @ '' LIMIT 1''"

definition selectCrashRoundById :: "string \<Rightarrow> string" where
  "selectCrashRoundById i =
     ''SELECT game_id, multiplier, hash, salt, began_at_ms, crashed_at_ms, sequence '' @
     ''FROM crash_rounds WHERE game_id = '' @ quote i @ '' LIMIT 1''"

definition selectRecentCrashRounds :: "u64 \<Rightarrow> string" where
  "selectRecentCrashRounds limit =
     ''SELECT game_id, multiplier, hash, salt, began_at_ms, crashed_at_ms, sequence '' @
     ''FROM crash_rounds ORDER BY crashed_at_ms DESC LIMIT '' @ show_nat (unat limit)"

section \<open>What the database reads\<close>

fun lex_sql :: "string option \<Rightarrow> string \<Rightarrow> (string \<times> string list) option" where
  "lex_sql None [] = Some ([], [])"
| "lex_sql None (c # cs) =
     (if c = squote then lex_sql (Some []) cs else map_option (\<lambda>(t, ls). (c # t, ls)) (lex_sql None cs))"
| "lex_sql (Some a) [] = None"
| "lex_sql (Some a) [c] = (if c = squote then Some (''?'', [a]) else None)"
| "lex_sql (Some a) (c # d # cs) =
     (if c \<noteq> squote then lex_sql (Some (a @ [c])) (d # cs)
      else if d = squote then lex_sql (Some (a @ [squote])) cs
      else map_option (\<lambda>(t, ls). (CHR ''?'' # t, a # ls)) (lex_sql None (d # cs)))"

definition plain :: "string \<Rightarrow> bool" where
  "plain s \<longleftrightarrow> squote \<notin> set s"

lemma plain_simps [simp]:
  "plain []" "plain (c # s) \<longleftrightarrow> c \<noteq> squote \<and> plain s" "plain (s @ t) \<longleftrightarrow> plain s \<and> plain t"
  by (auto simp: plain_def)

lemma plain_show_nat [simp]: "plain (show_nat n)"
  using show_nat_chars [of squote n] by (auto simp: plain_def squote_def)

lemma plain_show_int [simp]: "plain (show_int i)"
  by (simp add: show_int_def squote_def)

lemma plain_replicate: "c \<noteq> squote \<Longrightarrow> plain (replicate n c)"
  by (induction n) simp_all

lemma plain_fixedn [simp]: "plain (fixedn d x)"
  by (cases x) (simp_all add: fixedn_def Let_def plain_replicate squote_def)

lemma lex_plain: "plain xs \<Longrightarrow> lex_sql None (xs @ ys) = map_option (\<lambda>(t, ls). (xs @ t, ls)) (lex_sql None ys)"
  by (induction xs; cases "lex_sql None ys") (auto split: prod.splits)

lemma lex_quote_rest:
  "ys = [] \<or> hd ys \<noteq> squote \<Longrightarrow>
   lex_sql (Some a) (concat (map (\<lambda>c. if c = squote then [squote, squote] else [c]) s) @ squote # ys) =
     map_option (\<lambda>(t, ls). (CHR ''?'' # t, (a @ s) # ls)) (lex_sql None ys)"
proof (induction s arbitrary: a)
  case Nil
  then show ?case by (cases ys) simp_all
next
  case (Cons c s)
  let ?r = "concat (map (\<lambda>c. if c = squote then [squote, squote] else [c]) s) @ squote # ys"
  obtain d ds where r: "?r = d # ds" by (cases ?r) auto
  show ?case using Cons.IH [of "a @ [c]"] Cons.prems by (cases "c = squote") (simp_all add: r)
qed

lemma lex_quote:
  "ys = [] \<or> hd ys \<noteq> squote \<Longrightarrow>
   lex_sql None (quote s @ ys) = map_option (\<lambda>(t, ls). (CHR ''?'' # t, s # ls)) (lex_sql None ys)"
  using lex_quote_rest [of ys "[]" s] by (simp add: quote_def)

lemma lex_end: "plain xs \<Longrightarrow> lex_sql None xs = Some (xs, [])"
  using lex_plain [of xs "[]"] by simp

lemma hd_plain: "plain xs \<Longrightarrow> xs \<noteq> [] \<Longrightarrow> hd (xs @ ys) \<noteq> squote"
  by (cases xs) auto

lemma lex_last: "lex_sql None (quote s) = Some (''?'', [s])"
  using lex_quote [of "[]" s] by simp

lemmas lex_simps = lex_plain lex_quote lex_end lex_last squote_def

text \<open>The statements as the database reads them: every literal is one mark, whatever the strings hold.\<close>

lemma lex_upsertCrashRound:
  "lex_sql None (upsertCrashRound r) =
     Some (''INSERT INTO crash_rounds(game_id, multiplier, hash, salt, began_at_ms, crashed_at_ms, sequence) VALUES(?, '' @
       fixedn 4 (cr_multiplier r) @ '', ?, ?, '' @ show_int (cr_beganAtMs r) @ '', '' @ show_int (cr_crashedAtMs r) @ '', '' @
       show_nat (unat (cr_sequence r)) @
       '') ON CONFLICT (game_id) DO UPDATE SET multiplier = EXCLUDED.multiplier, '' @
       ''hash = COALESCE(EXCLUDED.hash, crash_rounds.hash), crashed_at_ms = EXCLUDED.crashed_at_ms, '' @
       ''sequence = EXCLUDED.sequence'',
       [cr_gameId r, cr_hash r, cr_salt r])"
  unfolding upsertCrashRound_def by (simp add: lex_simps)

lemma lex_upsertPrediction:
  "lex_sql None (upsertPrediction e) =
     Some (''INSERT INTO predictions(id, round_id, game_id, decision, confidence, entry_mult, target_mult, correlation_id, model_version, created_at_ms) VALUES(?, ?, ?, '' @
       show_nat (PredictionDecision_int (pe_decision e)) @ '', '' @ fixedn 6 (pe_confidence e) @ '', '' @
       fixedn 6 (pe_entryMult e) @ '', '' @ fixedn 6 (pe_targetMult e) @ '', ?, ?, '' @ show_int (pe_createdAtMs e) @
       '') ON CONFLICT (id) DO NOTHING'',
       [pe_predictionId e, pe_targetRoundId e, pe_gameId e, pe_correlationId e, pe_modelVersion e])"
  unfolding upsertPrediction_def by (simp add: lex_simps)

lemma lex_upsertOutcome:
  "lex_sql None (upsertOutcome oc) =
     Some (''INSERT INTO outcomes(prediction_id, round_id, result, actual_mult, target_mult, is_win, resolved_at_ms) VALUES(?, ?, ?, '' @
       fixedn 4 (oc_actualMult oc) @ '', '' @ fixedn 4 (oc_targetMult oc) @ '', '' @
       (if oc_isWin oc then ''TRUE'' else ''FALSE'') @ '', '' @ show_int (oc_resolvedAtMs oc) @
       '') ON CONFLICT (prediction_id) DO NOTHING'',
       [oc_predictionId oc, oc_roundId oc, outcomeName (oc_result oc)])"
  unfolding upsertOutcome_def by (cases "oc_isWin oc") (simp_all add: lex_simps)

lemma lex_insertOutbox:
  "lex_sql None (insertOutbox item) =
     Some (''INSERT INTO notification_outbox(state, prediction_id, round_id, signal_kind, text, dedupe_key, attempts, created_at_ms) VALUES('' @
       show_nat (OutboxState_int (oi_state item)) @ '', ?, ?, '' @ show_nat (SignalKind_int (sg_kind (oi_signal item))) @
       '', ?, ?, '' @ show_int (oi_attempts item) @ '', '' @ show_int (oi_createdAtMs item) @
       '') ON CONFLICT (dedupe_key) DO NOTHING'',
       [sg_predictionId (oi_signal item), sg_roundId (oi_signal item), sg_text (oi_signal item), oi_dedupeKey item])"
  unfolding insertOutbox_def by (simp add: lex_simps)

lemma lex_select:
  "lex_sql None (selectPredictionById i) = Some (prediction_columns @ ''WHERE id = ? LIMIT 1'', [i])"
  "lex_sql None (selectPredictionsByRound i) = Some (prediction_columns @ ''WHERE round_id = ?'', [i])"
  "lex_sql None (selectOutcomeById i) =
     Some (''SELECT prediction_id, round_id, result, actual_mult, target_mult, is_win, resolved_at_ms FROM outcomes WHERE prediction_id = ? LIMIT 1'', [i])"
  "lex_sql None (selectCrashRoundById i) =
     Some (''SELECT game_id, multiplier, hash, salt, began_at_ms, crashed_at_ms, sequence FROM crash_rounds WHERE game_id = ? LIMIT 1'', [i])"
  unfolding selectPredictionById_def selectPredictionsByRound_def selectOutcomeById_def selectCrashRoundById_def
    prediction_columns_def
  by (simp_all add: lex_simps)

section \<open>No string can change a statement\<close>

text \<open>C34: Whatever bytes the string fields of a round, a prediction, an outcome or an outbox item hold (quotes included), and
  whatever id a lookup is given, the statement the builder writes reads back as the same SQL text with exactly those strings
  as its literals: the text around the literals depends on the numeric fields alone, so no string is ever read as SQL.\<close>

theorem sql_literals_intact:
  "(\<exists>t. \<forall>a b c. lex_sql None (upsertCrashRound (r\<lparr>cr_gameId := a, cr_hash := b, cr_salt := c\<rparr>)) = Some (t, [a, b, c])) \<and>
   (\<exists>t. \<forall>a b c d f. lex_sql None (upsertPrediction (e\<lparr>pe_predictionId := a, pe_targetRoundId := b, pe_gameId := c,
      pe_correlationId := d, pe_modelVersion := f\<rparr>)) = Some (t, [a, b, c, d, f])) \<and>
   (\<exists>t. \<forall>a b. lex_sql None (upsertOutcome (oc\<lparr>oc_predictionId := a, oc_roundId := b\<rparr>)) =
      Some (t, [a, b, outcomeName (oc_result oc)])) \<and>
   (\<exists>t. \<forall>a b c d. lex_sql None (insertOutbox (item\<lparr>oi_signal := (oi_signal item)\<lparr>sg_predictionId := a, sg_roundId := b,
      sg_text := c\<rparr>, oi_dedupeKey := d\<rparr>)) = Some (t, [a, b, c, d])) \<and>
   (\<exists>t. \<forall>i. lex_sql None (selectPredictionById i) = Some (t, [i])) \<and>
   (\<exists>t. \<forall>i. lex_sql None (selectPredictionsByRound i) = Some (t, [i])) \<and>
   (\<exists>t. \<forall>i. lex_sql None (selectOutcomeById i) = Some (t, [i])) \<and>
   (\<exists>t. \<forall>i. lex_sql None (selectCrashRoundById i) = Some (t, [i]))"
  by (simp add: lex_upsertCrashRound lex_upsertPrediction lex_upsertOutcome lex_insertOutbox lex_select)

end
