(* ===== verification/Database.thy ===== *)
theory Database
  imports Sql Queues
begin

text \<open>
  The database layer of \<open>include/persistence\<close>: the base class \<open>Database\<close>, its libpq implementation \<open>PgDatabase\<close>,
  \<open>Transaction\<close>, the migration runner, the retention manager, the connection pool and the batch writer. libpq and
  the server behind it are a record of functions on a world \<open>'w\<close> and connections \<open>'c\<close>; what the properties rely on of
  PostgreSQL is the predicate \<open>transactional\<close>. A parameter or a statement reaches libpq as a C string, so it ends at its
  first NUL.
\<close>

section \<open>libpq\<close>

text \<open>The status of a result with what \<open>PQfname\<close>, \<open>PQgetisnull\<close> and \<open>PQgetvalue\<close> read of it.\<close>

datatype PGresult =
    Pg_error
  | Pg_command_ok
  | Pg_tuples_ok "string list" "string option list list"

record ('c, 'w) libpq =
  pq_connectdb :: "string \<Rightarrow> 'w \<Rightarrow> 'c \<times> 'w"
  pq_status :: "'c \<Rightarrow> 'w \<Rightarrow> bool"
  pq_exec :: "'c \<Rightarrow> string \<Rightarrow> 'w \<Rightarrow> PGresult \<times> 'w"
  pq_execParams :: "'c \<Rightarrow> string \<Rightarrow> string list \<Rightarrow> 'w \<Rightarrow> PGresult \<times> 'w"
  pq_errorMessage :: "'c \<Rightarrow> 'w \<Rightarrow> string"
  pq_finish :: "'c \<Rightarrow> 'w \<Rightarrow> 'w"

definition c_str :: "string \<Rightarrow> string" where
  "c_str s = takeWhile (\<lambda>c. c \<noteq> CHR 0x00) s"

lemma c_str_id [simp]: "CHR 0x00 \<notin> set s \<Longrightarrow> c_str s = s"
  by (induction s) (auto simp: c_str_def)

section \<open>Numbers of a row\<close>

text \<open>\<open>strtoll\<close> in base ten: white space, a sign, digits, and saturation; \<open>atoi\<close> is the same where its result fits.\<close>

definition is_space :: "char \<Rightarrow> bool" where
  "is_space c \<longleftrightarrow> c = CHR '' '' \<or> c \<in> {CHR 0x09, CHR 0x0A, CHR 0x0B, CHR 0x0C, CHR 0x0D}"

definition strtoll :: "string \<Rightarrow> int" where
  "strtoll s =
     (let s = dropWhile is_space (c_str s);
          (neg, s) = (case s of c # cs \<Rightarrow> if c = CHR ''-'' then (True, cs) else if c = CHR ''+'' then (False, cs) else (False, s)
                      | [] \<Rightarrow> (False, []));
          n = int (read_nat (takeWhile is_digit s))
      in max (- (2 ^ 63)) (min (2 ^ 63 - 1) (if neg then - n else n)))"

lemma c_str_map_id: "\<forall>p \<in> set ps. CHR 0x00 \<notin> set p \<Longrightarrow> map c_str ps = ps"
  by (induction ps) simp_all

lemma digits_only_show_nat: "c \<in> set (show_nat n) \<Longrightarrow> is_digit c \<and> c \<noteq> CHR 0x00 \<and> \<not> is_space c \<and> c \<noteq> CHR ''-'' \<and> c \<noteq> CHR ''+''"
  using show_nat_chars [of c n] by (auto simp: is_digit_def is_space_def)

lemma nul_notin_show [simp]: "CHR 0x00 \<notin> set (show_nat n)" "CHR 0x00 \<notin> set (show_int i)"
  using digits_only_show_nat by (auto simp: show_int_def)

lemma takeWhile_digits: "takeWhile is_digit (show_nat n) = show_nat n"
  using digits_only_show_nat by (simp add: takeWhile_eq_all_conv)

text \<open>The text of a number reads back as that number, where it fits 64 bits.\<close>

lemma strtoll_show_int:
  assumes "- (2 ^ 63) \<le> i" and "i < 2 ^ 63"
  shows "strtoll (show_int i) = i"
proof (cases "i < 0")
  case True
  then have "show_int i = CHR ''-'' # show_nat (nat (- i))" by (simp add: show_int_def)
  moreover have "c_str (show_int i) = show_int i" by simp
  ultimately show ?thesis using assms True
    by (simp add: strtoll_def is_space_def takeWhile_digits Let_def)
next
  case False
  obtain c cs where e: "show_nat (nat i) = c # cs" by (cases "show_nat (nat i)") auto
  have "c_str (show_int i) = show_int i" by simp
  moreover have "c \<noteq> CHR ''-''" "c \<noteq> CHR ''+''" "\<not> is_space c" using digits_only_show_nat [of c "nat i"] e by auto
  moreover have "show_int i = c # cs" using False e by (simp add: show_int_def)
  moreover have "read_nat (takeWhile is_digit (c # cs)) = nat i" using takeWhile_digits [of "nat i"] e by (metis read_show_nat)
  ultimately show ?thesis using assms False by (simp add: strtoll_def Let_def)
qed

section \<open>Databases\<close>

record QueryResult =
  qr_rows :: "string list list"
  qr_columns :: "string list"

record Database =
  db_creds :: string
  db_connected :: bool
  db_executions :: u64

record 'c PgDatabase = Database +
  pg_conn :: "'c option"
  pg_failures :: u64

text \<open>A \<open>Database&\<close> refers to a base object or to a \<open>PgDatabase\<close>: \<open>dynamic_cast\<close> is the case distinction.\<close>

datatype 'c Db = Base Database | Pg "'c PgDatabase"

definition creds_valid :: "string \<Rightarrow> bool" where
  "creds_valid s \<longleftrightarrow> s \<noteq> []"

definition base_connect :: "Database \<Rightarrow> unit Result \<times> Database" where
  "base_connect d =
     (if \<not> creds_valid (db_creds d) then (Inl (mkError EC_ConfigError ''DATABASE_URL missing''), d)
      else (Inr (), d\<lparr>db_connected := True\<rparr>))"

definition base_execute :: "string \<Rightarrow> Database \<Rightarrow> unit Result \<times> Database" where
  "base_execute sql d =
     (if \<not> db_connected d then (Inl (mkError EC_DatabaseError ''not connected''), d)
      else (Inr (), d\<lparr>db_executions := db_executions d + 1\<rparr>))"

definition base_query :: "string \<Rightarrow> string list \<Rightarrow> Database \<Rightarrow> QueryResult Result \<times> Database" where
  "base_query sql params d =
     (if \<not> db_connected d then (Inl (mkError EC_DatabaseError ''not connected''), d)
      else (Inr \<lparr>qr_rows = [], qr_columns = []\<rparr>, d\<lparr>db_executions := db_executions d + 1\<rparr>))"

definition base_disconnect :: "Database \<Rightarrow> Database" where
  "base_disconnect d = d\<lparr>db_connected := False\<rparr>"

definition pg_ok :: "('c, 'w) libpq \<Rightarrow> 'c PgDatabase \<Rightarrow> 'w \<Rightarrow> bool" where
  "pg_ok pq d w = (case pg_conn d of None \<Rightarrow> False | Some c \<Rightarrow> pq_status pq c w)"

definition pg_connect :: "('c, 'w) libpq \<Rightarrow> 'c PgDatabase \<Rightarrow> 'w \<Rightarrow> unit Result \<times> 'c PgDatabase \<times> 'w" where
  "pg_connect pq d w =
     (if pg_ok pq d w then (Inr (), d\<lparr>db_connected := True\<rparr>, w)
      else let (d, w) = (case pg_conn d of Some c \<Rightarrow> (d\<lparr>pg_conn := None\<rparr>, pq_finish pq c w) | None \<Rightarrow> (d, w))
           in if \<not> creds_valid (db_creds d)
              then (Inl (mkError EC_ConfigError ''DATABASE_URL / credentials missing''), d, w)
              else let (c, w) = pq_connectdb pq (c_str (db_creds d)) w
                   in if \<not> pq_status pq c w
                      then (Inl (mkError EC_DatabaseError (''PQconnectdb: '' @ pq_errorMessage pq c w)),
                            d\<lparr>pg_conn := None, db_connected := False\<rparr>, pq_finish pq c w)
                      else (Inr (), d\<lparr>pg_conn := Some c, db_connected := True\<rparr>, w))"

definition pg_disconnect :: "('c, 'w) libpq \<Rightarrow> 'c PgDatabase \<Rightarrow> 'w \<Rightarrow> 'c PgDatabase \<times> 'w" where
  "pg_disconnect pq d w =
     (case pg_conn d of
        Some c \<Rightarrow> (d\<lparr>pg_conn := None, db_connected := False\<rparr>, pq_finish pq c w)
      | None \<Rightarrow> (d\<lparr>db_connected := False\<rparr>, w))"

text \<open>The common shape of \<open>execute\<close> and \<open>executeParams\<close>: run a libpq call on the live connection and read its status.\<close>

definition pg_run :: "('c, 'w) libpq \<Rightarrow> ('c \<Rightarrow> 'w \<Rightarrow> PGresult \<times> 'w) \<Rightarrow> 'c PgDatabase \<Rightarrow> 'w \<Rightarrow> unit Result \<times> 'c PgDatabase \<times> 'w" where
  "pg_run pq call d w =
     (case pg_conn d of
        None \<Rightarrow> (Inl (mkError EC_DatabaseError ''not connected''), d, w)
      | Some c \<Rightarrow>
          if \<not> pq_status pq c w then (Inl (mkError EC_DatabaseError ''not connected''), d, w)
          else (case call c w of
                  (Pg_error, w) \<Rightarrow> (Inl (mkError EC_DatabaseError (pq_errorMessage pq c w)), d\<lparr>pg_failures := pg_failures d + 1\<rparr>, w)
                | (_, w) \<Rightarrow> (Inr (), d\<lparr>db_executions := db_executions d + 1\<rparr>, w)))"

definition pg_execute :: "('c, 'w) libpq \<Rightarrow> string \<Rightarrow> 'c PgDatabase \<Rightarrow> 'w \<Rightarrow> unit Result \<times> 'c PgDatabase \<times> 'w" where
  "pg_execute pq sql = pg_run pq (\<lambda>c. pq_exec pq c (c_str sql))"

definition executeParams :: "('c, 'w) libpq \<Rightarrow> string \<Rightarrow> string list \<Rightarrow> 'c PgDatabase \<Rightarrow> 'w \<Rightarrow> unit Result \<times> 'c PgDatabase \<times> 'w" where
  "executeParams pq sql params = pg_run pq (\<lambda>c. pq_execParams pq c (c_str sql) (map c_str params))"

definition pg_query :: "('c, 'w) libpq \<Rightarrow> string \<Rightarrow> string list \<Rightarrow> 'c PgDatabase \<Rightarrow> 'w \<Rightarrow> QueryResult Result \<times> 'c PgDatabase \<times> 'w" where
  "pg_query pq sql params d w =
     (case pg_conn d of
        None \<Rightarrow> (Inl (mkError EC_DatabaseError ''not connected''), d, w)
      | Some c \<Rightarrow>
          if \<not> pq_status pq c w then (Inl (mkError EC_DatabaseError ''not connected''), d, w)
          else (case pq_execParams pq c (c_str sql) (map c_str params) w of
                  (Pg_tuples_ok cols rows, w) \<Rightarrow>
                    (Inr \<lparr>qr_rows = map (map (\<lambda>v. case v of None \<Rightarrow> [] | Some s \<Rightarrow> s)) rows, qr_columns = cols\<rparr>,
                     d\<lparr>db_executions := db_executions d + 1\<rparr>, w)
                | (_, w) \<Rightarrow> (Inl (mkError EC_DatabaseError (pq_errorMessage pq c w)), d\<lparr>pg_failures := pg_failures d + 1\<rparr>, w)))"

definition pg_healthy :: "('c, 'w) libpq \<Rightarrow> 'c PgDatabase \<Rightarrow> 'w \<Rightarrow> bool \<times> 'c PgDatabase \<times> 'w" where
  "pg_healthy pq d w = (case pg_execute pq ''SELECT 1'' d w of (r, s) \<Rightarrow> (Result_ok r, s))"

text \<open>Virtual calls.\<close>

fun db_execute :: "('c, 'w) libpq \<Rightarrow> string \<Rightarrow> 'c Db \<Rightarrow> 'w \<Rightarrow> unit Result \<times> 'c Db \<times> 'w" where
  "db_execute pq sql (Base d) w = (case base_execute sql d of (r, d) \<Rightarrow> (r, Base d, w))"
| "db_execute pq sql (Pg d) w = (case pg_execute pq sql d w of (r, d, w) \<Rightarrow> (r, Pg d, w))"

fun db_query :: "('c, 'w) libpq \<Rightarrow> string \<Rightarrow> string list \<Rightarrow> 'c Db \<Rightarrow> 'w \<Rightarrow> QueryResult Result \<times> 'c Db \<times> 'w" where
  "db_query pq sql ps (Base d) w = (case base_query sql ps d of (r, d) \<Rightarrow> (r, Base d, w))"
| "db_query pq sql ps (Pg d) w = (case pg_query pq sql ps d w of (r, d, w) \<Rightarrow> (r, Pg d, w))"

fun db_up :: "'c Db \<Rightarrow> bool" where
  "db_up (Base d) = db_connected d"
| "db_up (Pg d) = db_connected d"

section \<open>Transactions\<close>

text \<open>\<open>Transaction\<close> on a \<open>PgDatabase\<close>: its constructor, \<open>commit\<close>, and the destructor, which rolls back unless done.\<close>

definition tx_begin :: "('c, 'w) libpq \<Rightarrow> 'c PgDatabase \<Rightarrow> 'w \<Rightarrow> 'c PgDatabase \<times> 'w" where
  "tx_begin pq d w = snd (pg_execute pq ''BEGIN'' d w)"

definition tx_commit :: "('c, 'w) libpq \<Rightarrow> 'c PgDatabase \<Rightarrow> 'w \<Rightarrow> unit Result \<times> 'c PgDatabase \<times> 'w" where
  "tx_commit pq = pg_execute pq ''COMMIT''"

definition tx_rollback :: "('c, 'w) libpq \<Rightarrow> 'c PgDatabase \<Rightarrow> 'w \<Rightarrow> unit Result \<times> 'c PgDatabase \<times> 'w" where
  "tx_rollback pq = pg_execute pq ''ROLLBACK''"

definition tx_end :: "('c, 'w) libpq \<Rightarrow> bool \<Rightarrow> 'c PgDatabase \<Rightarrow> 'w \<Rightarrow> 'c PgDatabase \<times> 'w" where
  "tx_end pq done d w = (if done then (d, w) else snd (pg_execute pq ''ROLLBACK'' d w))"

text \<open>What PostgreSQL documents of transactions, as a client sees it: \<open>dlog\<close> is the list of statements whose effect is durable, \<open>txn\<close>
  the transaction block of a connection. A statement in a block takes effect with the \<open>COMMIT\<close>, all of them or none; an error
  aborts the block, and an aborted block accepts no statement and commits nothing; \<open>ROLLBACK\<close> discards the block. A connection
  that is lost during a \<open>COMMIT\<close> or a statement of its own leaves open whether that took effect. A \<open>BEGIN\<close> outside a block
  fails only with its connection.\<close>

type_synonym stmt = "string \<times> string list"

datatype txn = Idle | InTx "stmt list" | Aborted

fun params_law :: "txn \<Rightarrow> stmt \<Rightarrow> bool \<Rightarrow> bool \<Rightarrow> stmt list \<Rightarrow> stmt list \<Rightarrow> txn \<Rightarrow> bool" where
  "params_law (InTx l) st good up dl dl' t' \<longleftrightarrow> dl' = dl \<and> (if good then t' = InTx (l @ [st]) else t' = Aborted \<or> \<not> up)"
| "params_law Aborted st good up dl dl' t' \<longleftrightarrow> \<not> good \<and> dl' = dl \<and> (t' = Aborted \<or> \<not> up)"
| "params_law Idle st good up dl dl' t' \<longleftrightarrow>
     (if good then dl' = dl @ [st] \<and> t' = Idle else (dl' = dl \<and> t' = Idle) \<or> ((dl' = dl \<or> dl' = dl @ [st]) \<and> \<not> up))"

fun begin_law :: "txn \<Rightarrow> bool \<Rightarrow> bool \<Rightarrow> stmt list \<Rightarrow> stmt list \<Rightarrow> txn \<Rightarrow> bool" where
  "begin_law Idle good up dl dl' t' \<longleftrightarrow> dl' = dl \<and> (if good then t' = InTx [] else \<not> up)"
| "begin_law _ good up dl dl' t' \<longleftrightarrow> dl' = dl"

fun commit_law :: "txn \<Rightarrow> bool \<Rightarrow> bool \<Rightarrow> stmt list \<Rightarrow> stmt list \<Rightarrow> txn \<Rightarrow> bool" where
  "commit_law (InTx l) good up dl dl' t' \<longleftrightarrow>
     (if good then dl' = dl @ l \<and> t' = Idle else (dl' = dl \<and> t' = Idle) \<or> ((dl' = dl \<or> dl' = dl @ l) \<and> \<not> up))"
| "commit_law _ good up dl dl' t' \<longleftrightarrow> dl' = dl \<and> (t' = Idle \<or> \<not> up)"

definition transactional :: "('c, 'w) libpq \<Rightarrow> ('w \<Rightarrow> stmt list) \<Rightarrow> ('c \<Rightarrow> 'w \<Rightarrow> txn) \<Rightarrow> bool" where
  "transactional pq dlog txn \<longleftrightarrow>
     (\<forall>c w. pq_status pq c w \<longrightarrow>
        (\<forall>r w'. pq_exec pq c ''BEGIN'' w = (r, w') \<longrightarrow>
           begin_law (txn c w) (r \<noteq> Pg_error) (pq_status pq c w') (dlog w) (dlog w') (txn c w')) \<and>
        (\<forall>r w'. pq_exec pq c ''COMMIT'' w = (r, w') \<longrightarrow>
           commit_law (txn c w) (r \<noteq> Pg_error) (pq_status pq c w') (dlog w) (dlog w') (txn c w')) \<and>
        (\<forall>r w'. pq_exec pq c ''ROLLBACK'' w = (r, w') \<longrightarrow>
           dlog w' = dlog w \<and> (txn c w' = Idle \<or> \<not> pq_status pq c w')) \<and>
        (\<forall>s ps r w'. pq_execParams pq c s ps w = (r, w') \<longrightarrow>
           params_law (txn c w) (s, ps) (r \<noteq> Pg_error) (pq_status pq c w') (dlog w) (dlog w') (txn c w')))"

lemma transactionalD:
  assumes "transactional pq dlog txn" and "pq_status pq c w"
  shows "pq_exec pq c ''BEGIN'' w = (r, w') \<Longrightarrow> begin_law (txn c w) (r \<noteq> Pg_error) (pq_status pq c w') (dlog w) (dlog w') (txn c w')"
    and "pq_exec pq c ''COMMIT'' w = (r, w') \<Longrightarrow> commit_law (txn c w) (r \<noteq> Pg_error) (pq_status pq c w') (dlog w) (dlog w') (txn c w')"
    and "pq_exec pq c ''ROLLBACK'' w = (r, w') \<Longrightarrow> dlog w' = dlog w \<and> (txn c w' = Idle \<or> \<not> pq_status pq c w')"
    and "pq_execParams pq c s ps w = (r, w') \<Longrightarrow>
      params_law (txn c w) (s, ps) (r \<noteq> Pg_error) (pq_status pq c w') (dlog w) (dlog w') (txn c w')"
  using assms unfolding transactional_def by blast+

text \<open>What a call through \<open>PgDatabase\<close> does, given this.\<close>

lemma c_str_commands [simp]: "c_str ''BEGIN'' = ''BEGIN''" "c_str ''COMMIT'' = ''COMMIT''" "c_str ''ROLLBACK'' = ''ROLLBACK''"
  by simp_all

lemma pg_run_conn [simp]: "pg_run pq call d w = (r, d', w') \<Longrightarrow> pg_conn d' = pg_conn d"
  by (auto simp: pg_run_def split: option.splits if_splits prod.splits PGresult.splits)

lemma pg_run_cases:
  assumes "pg_run pq call d w = (r, d', w')" and "pg_conn d = Some c"
  obtains (lost) "\<not> pq_status pq c w" "w' = w" "\<not> Result_ok r" "d' = d"
    | (failed) "pq_status pq c w" "call c w = (Pg_error, w')" "\<not> Result_ok r" "d' = d\<lparr>pg_failures := pg_failures d + 1\<rparr>"
    | (ran) g where "pq_status pq c w" "call c w = (g, w')" "g \<noteq> Pg_error" "Result_ok r"
        "d' = d\<lparr>db_executions := db_executions d + 1\<rparr>"
proof (cases "pq_status pq c w")
  case True
  obtain g v where g: "call c w = (g, v)" by (cases "call c w")
  show thesis
  proof (cases "g = Pg_error")
    case e: True
    have r: "(r, d', w') = (Inl (mkError EC_DatabaseError (pq_errorMessage pq c v)), d\<lparr>pg_failures := pg_failures d + 1\<rparr>, v)"
      using assms(1) [symmetric] assms(2) True g e by (simp add: pg_run_def)
    show thesis by (rule failed) (use r True g e in simp_all)
  next
    case ne: False
    then have r: "(r, d', w') = (Inr (), d\<lparr>db_executions := db_executions d + 1\<rparr>, v)"
      using assms(1) [symmetric] assms(2) True g by (cases g) (simp_all add: pg_run_def)
    show thesis by (rule ran [of g]) (use r True g ne in simp_all)
  qed
next
  case False
  then have r: "(r, d', w') = (Inl (mkError EC_DatabaseError ''not connected''), d, w)"
    using assms(1) [symmetric] assms(2) by (simp add: pg_run_def)
  show thesis by (rule lost) (use r False in simp_all)
qed

lemma executeParams_law:
  assumes T: "transactional pq dlog txn" and d: "pg_conn d = Some c" and run: "executeParams pq s ps d w = (r, d', w')"
  shows "pg_conn d' = Some c"
    and "if pq_status pq c w
         then params_law (txn c w) (c_str s, map c_str ps) (Result_ok r) (pq_status pq c w') (dlog w) (dlog w') (txn c w')
         else w' = w \<and> \<not> Result_ok r"
proof -
  note R = run [unfolded executeParams_def]
  show "pg_conn d' = Some c" using pg_run_conn [OF R] d by simp
  show "if pq_status pq c w
         then params_law (txn c w) (c_str s, map c_str ps) (Result_ok r) (pq_status pq c w') (dlog w) (dlog w') (txn c w')
         else w' = w \<and> \<not> Result_ok r"
    using transactionalD(4) [OF T, of c w "c_str s" "map c_str ps"] by (cases rule: pg_run_cases [OF R d]) auto
qed

text \<open>The states of a block as the calls of one transaction pass through them: open with a list of statements unless the
  connection is gone, or aborted unless it is gone.\<close>

lemma params_in_block:
  assumes T: "transactional pq dlog txn" and d: "pg_conn d = Some c"
    and run: "executeParams pq s ps d w = (r, d', w')" and st: "txn c w = InTx l \<or> \<not> pq_status pq c w"
  shows "dlog w' = dlog w" and "pg_conn d' = Some c"
    and "Result_ok r \<Longrightarrow> txn c w' = InTx (l @ [(c_str s, map c_str ps)]) \<or> \<not> pq_status pq c w'"
    and "\<not> Result_ok r \<Longrightarrow> txn c w' = Aborted \<or> \<not> pq_status pq c w'"
  using executeParams_law [OF T d run] st by (auto split: if_splits)

lemma params_aborted:
  assumes T: "transactional pq dlog txn" and d: "pg_conn d = Some c"
    and run: "executeParams pq s ps d w = (r, d', w')" and st: "txn c w = Aborted \<or> \<not> pq_status pq c w"
  shows "dlog w' = dlog w" and "pg_conn d' = Some c" and "\<not> Result_ok r" and "txn c w' = Aborted \<or> \<not> pq_status pq c w'"
  using executeParams_law [OF T d run] st by (auto split: if_splits)

lemma params_autocommit:
  assumes T: "transactional pq dlog txn" and d: "pg_conn d = Some c"
    and run: "executeParams pq s ps d w = (r, d', w')" and st: "txn c w = Idle"
  shows "Result_ok r \<Longrightarrow> dlog w' = dlog w @ [(c_str s, map c_str ps)]"
    and "\<not> Result_ok r \<Longrightarrow> dlog w' = dlog w \<or> dlog w' = dlog w @ [(c_str s, map c_str ps)] \<and> \<not> pq_status pq c w'"
  using executeParams_law [OF T d run] st by (auto split: if_splits)

lemma begin_opens:
  assumes T: "transactional pq dlog txn" and d: "pg_conn d = Some c" and idle: "txn c w = Idle"
    and run: "tx_begin pq d w = (d', w')"
  shows "dlog w' = dlog w" and "pg_conn d' = Some c" and "txn c w' = InTx [] \<or> \<not> pq_status pq c w'"
proof -
  obtain r where R: "pg_run pq (\<lambda>c. pq_exec pq c ''BEGIN'') d w = (r, d', w')"
    using run by (cases "pg_run pq (\<lambda>c. pq_exec pq c ''BEGIN'') d w") (auto simp: tx_begin_def pg_execute_def)
  have "dlog w' = dlog w \<and> (txn c w' = InTx [] \<or> \<not> pq_status pq c w')"
    using transactionalD(1) [OF T, of c w] idle by (cases rule: pg_run_cases [OF R d]) auto
  then show "dlog w' = dlog w" and "pg_conn d' = Some c" and "txn c w' = InTx [] \<or> \<not> pq_status pq c w'"
    using pg_run_conn [OF R] d by simp_all
qed

lemma rollback_ends:
  assumes T: "transactional pq dlog txn" and d: "pg_conn d = Some c" and run: "tx_end pq False d w = (d', w')"
  shows "dlog w' = dlog w" and "pg_conn d' = Some c" and "txn c w' = Idle \<or> \<not> pq_status pq c w'"
proof -
  obtain r where R: "pg_run pq (\<lambda>c. pq_exec pq c ''ROLLBACK'') d w = (r, d', w')"
    using run by (cases "pg_run pq (\<lambda>c. pq_exec pq c ''ROLLBACK'') d w") (auto simp: tx_end_def pg_execute_def)
  have "dlog w' = dlog w \<and> (txn c w' = Idle \<or> \<not> pq_status pq c w')"
    using transactionalD(3) [OF T, of c w] by (cases rule: pg_run_cases [OF R d]) auto
  then show "dlog w' = dlog w" and "pg_conn d' = Some c" and "txn c w' = Idle \<or> \<not> pq_status pq c w'"
    using pg_run_conn [OF R] d by simp_all
qed

lemma commit_ends:
  assumes T: "transactional pq dlog txn" and d: "pg_conn d = Some c" and block: "txn c w = InTx l \<or> \<not> pq_status pq c w"
    and run: "tx_commit pq d w = (r, d', w')"
  shows "pg_conn d' = Some c" and "txn c w' = Idle \<or> \<not> pq_status pq c w'"
    and "Result_ok r \<Longrightarrow> dlog w' = dlog w @ l"
    and "\<not> Result_ok r \<Longrightarrow> dlog w' = dlog w \<or> dlog w' = dlog w @ l \<and> \<not> pq_status pq c w'"
proof -
  have R: "pg_run pq (\<lambda>c. pq_exec pq c ''COMMIT'') d w = (r, d', w')"
    using run by (simp add: tx_commit_def pg_execute_def)
  note C = transactionalD(2) [OF T, of c w]
  show "pg_conn d' = Some c" using pg_run_conn [OF R] d by simp
  show "txn c w' = Idle \<or> \<not> pq_status pq c w'"
    using C block by (cases rule: pg_run_cases [OF R d]) (auto split: if_splits)
  show "Result_ok r \<Longrightarrow> dlog w' = dlog w @ l"
    using C block by (cases rule: pg_run_cases [OF R d]) auto
  show "\<not> Result_ok r \<Longrightarrow> dlog w' = dlog w \<or> dlog w' = dlog w @ l \<and> \<not> pq_status pq c w'"
    using C block by (cases rule: pg_run_cases [OF R d]) (auto split: if_splits)
qed

text \<open>A server that behaves so: one connection, and statements it refuses.\<close>

record server =
  sv_log :: "stmt list"
  sv_txn :: txn
  sv_refused :: "string list"

definition sv_exec :: "string \<Rightarrow> server \<Rightarrow> PGresult \<times> server" where
  "sv_exec s w =
     (if s = ''BEGIN'' then (Pg_command_ok, if sv_txn w = Idle then w\<lparr>sv_txn := InTx []\<rparr> else w)
      else if s = ''COMMIT''
      then (Pg_command_ok, (case sv_txn w of InTx l \<Rightarrow> w\<lparr>sv_log := sv_log w @ l, sv_txn := Idle\<rparr> | _ \<Rightarrow> w\<lparr>sv_txn := Idle\<rparr>))
      else if s = ''ROLLBACK'' then (Pg_command_ok, w\<lparr>sv_txn := Idle\<rparr>)
      else (Pg_command_ok, w))"

definition sv_execParams :: "string \<Rightarrow> string list \<Rightarrow> server \<Rightarrow> PGresult \<times> server" where
  "sv_execParams s ps w =
     (case sv_txn w of
        Aborted \<Rightarrow> (Pg_error, w)
      | InTx l \<Rightarrow> if s \<in> set (sv_refused w) then (Pg_error, w\<lparr>sv_txn := Aborted\<rparr>) else (Pg_command_ok, w\<lparr>sv_txn := InTx (l @ [(s, ps)])\<rparr>)
      | Idle \<Rightarrow> if s \<in> set (sv_refused w) then (Pg_error, w) else (Pg_command_ok, w\<lparr>sv_log := sv_log w @ [(s, ps)]\<rparr>))"

definition demo_libpq :: "(unit, server) libpq" where
  "demo_libpq =
     \<lparr>pq_connectdb = (\<lambda>s w. ((), w)), pq_status = (\<lambda>c w. True), pq_exec = (\<lambda>c. sv_exec), pq_execParams = (\<lambda>c. sv_execParams),
      pq_errorMessage = (\<lambda>c w. ''refused''), pq_finish = (\<lambda>c w. w)\<rparr>"

definition demo_server :: "string list \<Rightarrow> server" where
  "demo_server bad = \<lparr>sv_log = [], sv_txn = Idle, sv_refused = bad\<rparr>"

definition demo_pg :: "unit PgDatabase" where
  "demo_pg = \<lparr>db_creds = ''postgres'', db_connected = True, db_executions = 0, pg_conn = Some (), pg_failures = 0\<rparr>"

lemma demo_transactional: "transactional demo_libpq sv_log (\<lambda>c. sv_txn)"
  unfolding transactional_def demo_libpq_def
  by (auto simp: sv_exec_def sv_execParams_def split: txn.splits if_splits)

end
