(* ===== verification/Durable.thy ===== *)
theory Durable
  imports Database Outbox
begin

text \<open>
  Durable delivery: \<open>OutboxRepository\<close> (\<open>include/persistence/outbox_repository.hpp\<close>), \<open>DurablePredictionTx\<close>
  (\<open>include/delivery/outbox/durable_prediction_tx.hpp\<close>), \<open>TemporalGuard\<close> (\<open>include/delivery/outbox/temporal_auth.hpp\<close>) and
  \<open>NotificationWorker\<close> (\<open>include/delivery/notification_worker.hpp\<close>). Where a call reads the clock several times, the readings
  are a function of their position.
\<close>

section \<open>Rows of the durable outbox\<close>

record OutboxRow =
  rw_id :: string
  rw_dedupeKey :: string
  rw_payload :: string
  rw_status :: string
  rw_lastError :: string
  rw_attempts :: int
  rw_createdAtMs :: TimestampMs
  rw_availableAtMs :: TimestampMs

definition OutboxRow_default :: OutboxRow where
  "OutboxRow_default =
     \<lparr>rw_id = [], rw_dedupeKey = [], rw_payload = [], rw_status = [], rw_lastError = [], rw_attempts = 0,
      rw_createdAtMs = 0, rw_availableAtMs = 0\<rparr>"

record OutboxRepository =
  rq_enqueued :: u64
  rq_claimed :: u64
  rq_delivered :: u64
  rq_failed :: u64
  rq_dead :: u64

definition OutboxRepository_new :: OutboxRepository where
  "OutboxRepository_new = \<lparr>rq_enqueued = 0, rq_claimed = 0, rq_delivered = 0, rq_failed = 0, rq_dead = 0\<rparr>"

definition outbox_insert_sql :: string where
  "outbox_insert_sql =
     ''INSERT INTO notification_outbox (dedupe_key, payload, status, attempts, created_at_ms, available_at_ms, round_id, prediction_id) '' @
     ''VALUES ($1,$2,'' @ [squote] @ ''pending'' @ [squote] @ '',0,$3,$4,$5,$6) ON CONFLICT (dedupe_key) DO NOTHING''"

definition outbox_params :: "TimestampMs \<Rightarrow> TimestampMs \<Rightarrow> OutboxRow \<Rightarrow> string \<Rightarrow> string list" where
  "outbox_params na nb row roundId =
     [rw_dedupeKey row, rw_payload row,
      show_int (if rw_createdAtMs row \<noteq> 0 then rw_createdAtMs row else na),
      show_int (if rw_availableAtMs row \<noteq> 0 then rw_availableAtMs row else nb), roundId, rw_id row]"

fun enqueueWithRound :: "('c, 'w) libpq \<Rightarrow> TimestampMs \<Rightarrow> TimestampMs \<Rightarrow> OutboxRow \<Rightarrow> string \<Rightarrow> OutboxRepository \<Rightarrow> 'c Db \<Rightarrow> 'w \<Rightarrow>
    unit Result \<times> OutboxRepository \<times> 'c Db \<times> 'w" where
  "enqueueWithRound pq na nb row roundId q (Pg d) w =
     (case executeParams pq outbox_insert_sql (outbox_params na nb row roundId) d w of (r, d, w) \<Rightarrow>
        (r, if Result_ok r then q\<lparr>rq_enqueued := rq_enqueued q + 1\<rparr> else q, Pg d, w))"
| "enqueueWithRound pq na nb row roundId q (Base d) w =
     (case base_execute (''INSERT INTO notification_outbox (dedupe_key, payload, status) VALUES ('' @ [squote] @ rw_dedupeKey row @
          [squote] @ '','' @ [squote] @ rw_payload row @ [squote] @ '','' @ [squote] @ ''pending'' @ [squote] @ '')'') d of (r, d) \<Rightarrow>
        (r, if Result_ok r then q\<lparr>rq_enqueued := rq_enqueued q + 1\<rparr> else q, Base d, w))"

definition rq_enqueue :: "('c, 'w) libpq \<Rightarrow> TimestampMs \<Rightarrow> TimestampMs \<Rightarrow> OutboxRow \<Rightarrow> OutboxRepository \<Rightarrow> 'c Db \<Rightarrow> 'w \<Rightarrow>
    unit Result \<times> OutboxRepository \<times> 'c Db \<times> 'w" where
  "rq_enqueue pq na nb row q d w = enqueueWithRound pq na nb row [] q d w"

section \<open>One prediction, one transaction\<close>

record DurablePersistResult =
  du_ok :: bool
  du_durable :: bool
  du_memoryPublished :: bool
  du_error :: string

definition DurablePersistResult_default :: DurablePersistResult where
  "DurablePersistResult_default = \<lparr>du_ok = False, du_durable = False, du_memoryPublished = False, du_error = []\<rparr>"

text \<open>The in-memory side: the hand-off with the outbox behind it, and the outbox used when there is no hand-off.\<close>

record Publisher =
  pb_handoff :: "(Outbox \<times> DurableHandoff) option"
  pb_memory :: "Outbox option"

record 'c DurablePredictionTx =
  dt_db :: "'c Db option"
  dt_repo :: "OutboxRepository option"
  dt_pub :: Publisher
  dt_durable_ok :: u64

definition publish_prediction :: "TimestampMs \<Rightarrow> Signal \<Rightarrow> Publisher \<Rightarrow> bool \<times> Publisher" where
  "publish_prediction now sig p =
     (case pb_handoff p of
        Some h \<Rightarrow> (case dh_publishPrediction now sig h of (r, h) \<Rightarrow> (Result_ok r, p\<lparr>pb_handoff := Some h\<rparr>))
      | None \<Rightarrow>
          (case pb_memory p of
             Some m \<Rightarrow> (case ob_publish now sig m of (r, m) \<Rightarrow> (Result_ok r, p\<lparr>pb_memory := Some m\<rparr>))
           | None \<Rightarrow> (False, p)))"

definition publish_outcome :: "TimestampMs \<Rightarrow> Signal \<Rightarrow> Publisher \<Rightarrow> bool \<times> Publisher" where
  "publish_outcome now sig p =
     (case pb_handoff p of
        Some h \<Rightarrow> (case dh_publishOutcome now sig h of (r, h) \<Rightarrow> (Result_ok r, p\<lparr>pb_handoff := Some h\<rparr>))
      | None \<Rightarrow> (False, p))"

definition prediction_insert_sql :: string where
  "prediction_insert_sql =
     ''INSERT INTO predictions (id, round_id, game_id, decision, confidence, '' @
     ''probability, entry_mult, target_mult, correlation_id, model_version, created_at_ms) '' @
     ''VALUES ($1,$2,$3,$4,$5,$6,$7,$8,$9,$10,$11) '' @
     ''ON CONFLICT (id) DO UPDATE SET confidence=EXCLUDED.confidence, '' @
     ''decision=EXCLUDED.decision, model_version=EXCLUDED.model_version''"

definition prediction_params :: "TimestampMs \<Rightarrow> PredictionEvent \<Rightarrow> string list" where
  "prediction_params now e =
     [pe_predictionId e, pe_targetRoundId e, pe_gameId e, show_nat (PredictionDecision_int (pe_decision e)),
      fixedn 6 (pe_confidence e), fixedn 6 (pe_probability e), fixedn 6 (pe_entryMult e), fixedn 6 (pe_targetMult e),
      pe_correlationId e, pe_modelVersion e, show_int now]"

definition claim_insert_sql :: string where
  "claim_insert_sql =
     ''INSERT INTO target_claims (round_id, prediction_id, claimed_at_ms, expires_at_ms) '' @
     ''VALUES ($1,$2,$3,$4) '' @ ''ON CONFLICT (round_id) DO NOTHING''"

definition claim_params :: "TimestampMs \<Rightarrow> PredictionEvent \<Rightarrow> string list" where
  "claim_params now e = [pe_targetRoundId e, pe_predictionId e, show_int now, show_int (now + 120000)]"

definition prediction_row :: "TimestampMs \<Rightarrow> PredictionEvent \<Rightarrow> Signal \<Rightarrow> OutboxRow" where
  "prediction_row now e sig =
     OutboxRow_default\<lparr>rw_id := pe_predictionId e @ ''-pred'', rw_dedupeKey := pe_predictionId e @ '':pred'',
       rw_payload := ''round='' @ pe_targetRoundId e @ [CHR 0x0A] @ sg_text sig,
       rw_createdAtMs := now, rw_availableAtMs := now\<rparr>"

text \<open>\<open>enqueueWithRound\<close>, and \<open>enqueue\<close> when that fails.\<close>

definition enqueue_or_retry :: "('c, 'w) libpq \<Rightarrow> (nat \<Rightarrow> TimestampMs) \<Rightarrow> OutboxRow \<Rightarrow> string \<Rightarrow> OutboxRepository \<Rightarrow> 'c Db \<Rightarrow> 'w \<Rightarrow>
    unit Result \<times> OutboxRepository \<times> 'c Db \<times> 'w" where
  "enqueue_or_retry pq clk row roundId q d w =
     (case enqueueWithRound pq (clk 1) (clk 2) row roundId q d w of (r, q, d, w) \<Rightarrow>
        if Result_ok r then (r, q, d, w) else rq_enqueue pq (clk 3) (clk 4) row q d w)"

definition tx_fail :: "('c, 'w) libpq \<Rightarrow> string \<Rightarrow> unit Result \<Rightarrow> OutboxRepository \<Rightarrow> 'c PgDatabase \<Rightarrow> 'c DurablePredictionTx \<Rightarrow> 'w \<Rightarrow>
    DurablePersistResult \<times> 'c DurablePredictionTx \<times> 'w" where
  "tx_fail pq what r q d t w =
     (case tx_end pq False d w of (d, w) \<Rightarrow>
        (DurablePersistResult_default\<lparr>du_error := what @ (case r of Inl e \<Rightarrow> err_message e | Inr _ \<Rightarrow> [])\<rparr>,
         t\<lparr>dt_db := Some (Pg d), dt_repo := Some q\<rparr>, w))"

definition persist_memory :: "TimestampMs \<Rightarrow> Signal \<Rightarrow> string \<Rightarrow> bool \<Rightarrow> 'c DurablePredictionTx \<Rightarrow> DurablePersistResult \<times> 'c DurablePredictionTx" where
  "persist_memory now sig err always t =
     (case publish_prediction now sig (dt_pub t) of (pub, p) \<Rightarrow>
        (DurablePersistResult_default\<lparr>du_memoryPublished := pub, du_ok := pub, du_error := (if always \<or> \<not> pub then err else [])\<rparr>,
         t\<lparr>dt_pub := p\<rparr>))"

text \<open>From the commit on.\<close>

definition persist_commit :: "('c, 'w) libpq \<Rightarrow> TimestampMs \<Rightarrow> Signal \<Rightarrow> OutboxRepository \<Rightarrow> 'c PgDatabase \<Rightarrow> 'c DurablePredictionTx \<Rightarrow> 'w \<Rightarrow>
    DurablePersistResult \<times> 'c DurablePredictionTx \<times> 'w" where
  "persist_commit pq now sig q d t w =
     (case tx_commit pq d w of (cr, d, w) \<Rightarrow>
        let t = t\<lparr>dt_db := Some (Pg d), dt_repo := Some q\<rparr>
        in case cr of
             Inl e \<Rightarrow> (DurablePersistResult_default\<lparr>du_error := ''commit: '' @ err_message e\<rparr>, t, w)
           | Inr _ \<Rightarrow>
               (case publish_prediction now sig (dt_pub t) of (pub, p) \<Rightarrow>
                  (DurablePersistResult_default\<lparr>du_memoryPublished := pub, du_ok := True, du_durable := True\<rparr>,
                   t\<lparr>dt_pub := p, dt_durable_ok := dt_durable_ok t + 1\<rparr>, w)))"

text \<open>The three statements of the block.\<close>

definition persist_enqueue :: "('c, 'w) libpq \<Rightarrow> (nat \<Rightarrow> TimestampMs) \<Rightarrow> PredictionEvent \<Rightarrow> Signal \<Rightarrow> OutboxRepository \<Rightarrow> 'c PgDatabase \<Rightarrow>
    'c DurablePredictionTx \<Rightarrow> 'w \<Rightarrow> DurablePersistResult \<times> 'c DurablePredictionTx \<times> 'w" where
  "persist_enqueue pq clk e sig q d t w =
     (case enqueue_or_retry pq clk (prediction_row (clk 0) e sig) (pe_targetRoundId e) q (Pg d) w of
        (r, q, Pg d, w) \<Rightarrow>
          if Result_ok r then persist_commit pq (clk 5) sig q d t w else tx_fail pq ''outbox enqueue: '' r q d t w
      | (r, q, Base b, w) \<Rightarrow> (DurablePersistResult_default, t\<lparr>dt_db := Some (Base b), dt_repo := Some q\<rparr>, w))"

definition persistPrediction :: "('c, 'w) libpq \<Rightarrow> (nat \<Rightarrow> TimestampMs) \<Rightarrow> PredictionEvent \<Rightarrow> Signal \<Rightarrow> 'c DurablePredictionTx \<Rightarrow> 'w \<Rightarrow>
    DurablePersistResult \<times> 'c DurablePredictionTx \<times> 'w" where
  "persistPrediction pq clk e sig t w =
     (case (dt_db t, dt_repo t) of
        (Some (Pg d), Some q) \<Rightarrow>
          let (d, w) = tx_begin pq d w;
              (r, d, w) = executeParams pq prediction_insert_sql (prediction_params (clk 0) e) d w
          in if \<not> Result_ok r then tx_fail pq ''predictions insert: '' r q d t w
             else let (r, d, w) = executeParams pq claim_insert_sql (claim_params (clk 0) e) d w
                  in if \<not> Result_ok r then tx_fail pq ''target_claims insert: '' r q d t w
                     else persist_enqueue pq clk e sig q d t w
      | (Some (Base b), Some q) \<Rightarrow>
          (case persist_memory (clk 5) sig ''no PgDatabase for durable path'' True t of (out, t) \<Rightarrow> (out, t, w))
      | _ \<Rightarrow> (case persist_memory (clk 5) sig ''memory outbox publish failed'' False t of (out, t) \<Rightarrow> (out, t, w)))"

section \<open>One outcome\<close>

definition outcome_insert_sql :: string where
  "outcome_insert_sql =
     ''INSERT INTO outcomes (prediction_id, round_id, result, is_win, actual_mult, target_mult, resolved_at_ms) '' @
     ''VALUES ($1,$2,$3,$4,$5,$6,$7) ON CONFLICT (prediction_id) DO NOTHING''"

definition outcome_params :: "TimestampMs \<Rightarrow> Outcome \<Rightarrow> string list" where
  "outcome_params now oc =
     [oc_predictionId oc, oc_roundId oc,
      (if oc_isWin oc \<or> oc_result oc = Out_Win then ''win'' else if oc_result oc = Out_Loss then ''loss'' else ''unknown''),
      (if oc_isWin oc then ''true'' else ''false''), fixedn 6 (oc_actualMult oc), fixedn 6 (oc_targetMult oc), show_int now]"

definition persistOutcome :: "('c, 'w) libpq \<Rightarrow> TimestampMs \<Rightarrow> TimestampMs \<Rightarrow> Outcome \<Rightarrow> Signal \<Rightarrow> 'c DurablePredictionTx \<Rightarrow> 'w \<Rightarrow>
    DurablePersistResult \<times> 'c DurablePredictionTx \<times> 'w" where
  "persistOutcome pq now now' oc sig t w =
     (case dt_db t of
        Some (Pg d) \<Rightarrow>
          (case executeParams pq outcome_insert_sql (outcome_params now oc) d w of (r, d, w) \<Rightarrow>
             let t = t\<lparr>dt_db := Some (Pg d)\<rparr>
             in case r of
                  Inl e \<Rightarrow> (DurablePersistResult_default\<lparr>du_error := err_message e\<rparr>, t, w)
                | Inr _ \<Rightarrow>
                    (case publish_outcome now' sig (dt_pub t) of (pub, p) \<Rightarrow>
                       (DurablePersistResult_default\<lparr>du_durable := True, du_memoryPublished := pub, du_ok := True\<rparr>,
                        t\<lparr>dt_pub := p\<rparr>, w)))
      | _ \<Rightarrow>
          (case publish_outcome now' sig (dt_pub t) of (pub, p) \<Rightarrow>
             (DurablePersistResult_default\<lparr>du_memoryPublished := pub, du_ok := pub\<rparr>, t\<lparr>dt_pub := p\<rparr>, w)))"

section \<open>All rows or none, and publication after the commit\<close>

definition as_sent :: "string \<Rightarrow> string list \<Rightarrow> stmt" where
  "as_sent s ps = (c_str s, map c_str ps)"

definition prediction_block :: "(nat \<Rightarrow> TimestampMs) \<Rightarrow> PredictionEvent \<Rightarrow> Signal \<Rightarrow> stmt list" where
  "prediction_block clk e sig =
     [as_sent prediction_insert_sql (prediction_params (clk 0) e), as_sent claim_insert_sql (claim_params (clk 0) e),
      as_sent outbox_insert_sql (outbox_params (clk 1) (clk 2) (prediction_row (clk 0) e sig) (pe_targetRoundId e))]"

lemma enqueue_in_block:
  assumes T: "transactional pq dlog txn" and d: "pg_conn d = Some c" and st: "txn c w = InTx l \<or> \<not> pq_status pq c w"
    and run: "enqueue_or_retry pq clk row rid q (Pg d) w = (r, q', d', w')"
  obtains d'' where "d' = Pg d''" "pg_conn d'' = Some c" "dlog w' = dlog w"
    "Result_ok r \<Longrightarrow> txn c w' = InTx (l @ [as_sent outbox_insert_sql (outbox_params (clk 1) (clk 2) row rid)]) \<or> \<not> pq_status pq c w'"
proof -
  let ?ps = "outbox_params (clk 1) (clk 2) row rid" and ?qs = "outbox_params (clk 3) (clk 4) row []"
  obtain r1 d1 w1 where one: "executeParams pq outbox_insert_sql ?ps d w = (r1, d1, w1)" by (metis prod_cases3)
  obtain r2 d2 w2 where two: "executeParams pq outbox_insert_sql ?qs d1 w1 = (r2, d2, w2)" by (metis prod_cases3)
  note first = params_in_block [OF T d one st]
  show thesis
  proof (cases "Result_ok r1")
    case True
    then have "r = r1" "d' = Pg d1" "w' = w1" using run one by (auto simp: enqueue_or_retry_def)
    then show thesis using that [of d1] first True by (simp add: as_sent_def)
  next
    case False
    then have "r = r2" "d' = Pg d2" "w' = w2" using run one two by (auto simp: enqueue_or_retry_def rq_enqueue_def)
    then show thesis using that [of d2] first False params_aborted [OF T first(2) two] by simp
  qed
qed

text \<open>What a persisted prediction leaves behind: with \<open>block\<close> the statements of its transaction.\<close>

definition persisted :: "('c, 'w) libpq \<Rightarrow> ('w \<Rightarrow> stmt list) \<Rightarrow> ('c \<Rightarrow> 'w \<Rightarrow> txn) \<Rightarrow> 'c \<Rightarrow> stmt list \<Rightarrow> stmt list \<Rightarrow> bool \<times> Publisher \<Rightarrow>
    Publisher \<Rightarrow> DurablePersistResult \<times> 'c DurablePredictionTx \<times> 'w \<Rightarrow> bool" where
  "persisted pq dlog txn c dl block pub p0 res \<longleftrightarrow>
     (case res of (out, t', w') \<Rightarrow>
        (txn c w' = Idle \<or> \<not> pq_status pq c w') \<and>
        (if du_durable out
         then du_ok out \<and> dlog w' = dl @ block \<and> (du_memoryPublished out, dt_pub t') = pub
         else \<not> du_ok out \<and> du_error out \<noteq> [] \<and> \<not> du_memoryPublished out \<and> dt_pub t' = p0 \<and>
              (dlog w' = dl \<or> dlog w' = dl @ block \<and> \<not> pq_status pq c w')))"

lemma fail_persists:
  assumes T: "transactional pq dlog txn" and d: "pg_conn d = Some c" and w: "dlog w = dl" and "what \<noteq> []"
  shows "persisted pq dlog txn c dl block pub (dt_pub t) (tx_fail pq what r q d t w)"
proof -
  obtain d' w' where e: "tx_end pq False d w = (d', w')" by (cases "tx_end pq False d w")
  show ?thesis using rollback_ends [OF T d e] assms
    by (simp add: persisted_def tx_fail_def e DurablePersistResult_default_def)
qed

lemma commit_persists:
  assumes T: "transactional pq dlog txn" and d: "pg_conn d = Some c" and st: "txn c w = InTx l \<or> \<not> pq_status pq c w"
    and w: "dlog w = dl"
  shows "persisted pq dlog txn c dl l (publish_prediction now sig (dt_pub t)) (dt_pub t) (persist_commit pq now sig q d t w)"
proof -
  obtain r d' w' where e: "tx_commit pq d w = (r, d', w')" by (metis prod_cases3)
  show ?thesis using commit_ends [OF T d st e] w
    by (cases r; cases "publish_prediction now sig (dt_pub t)")
      (simp_all add: persisted_def persist_commit_def e DurablePersistResult_default_def)
qed

lemma enqueue_persists:
  assumes T: "transactional pq dlog txn" and d: "pg_conn d = Some c" and st: "txn c w = InTx l \<or> \<not> pq_status pq c w"
    and w: "dlog w = dl"
  shows "persisted pq dlog txn c dl
      (l @ [as_sent outbox_insert_sql (outbox_params (clk 1) (clk 2) (prediction_row (clk 0) e sig) (pe_targetRoundId e))])
      (publish_prediction (clk 5) sig (dt_pub t)) (dt_pub t) (persist_enqueue pq clk e sig q d t w)"
proof -
  obtain r q' d' w' where run: "enqueue_or_retry pq clk (prediction_row (clk 0) e sig) (pe_targetRoundId e) q (Pg d) w = (r, q', d', w')"
    by (metis prod_cases4)
  from enqueue_in_block [OF T d st run] obtain d'' where d'': "d' = Pg d''" "pg_conn d'' = Some c" "dlog w' = dlog w"
    "Result_ok r \<Longrightarrow> txn c w' = InTx (l @ [as_sent outbox_insert_sql (outbox_params (clk 1) (clk 2)
       (prediction_row (clk 0) e sig) (pe_targetRoundId e))]) \<or> \<not> pq_status pq c w'" by blast
  show ?thesis
  proof (cases "Result_ok r")
    case True
    then show ?thesis using commit_persists [OF T d''(2) d''(4), of dl] d''(3) w run by (simp add: persist_enqueue_def d''(1))
  next
    case False
    then show ?thesis using fail_persists [OF T d''(2), of w' dl] d''(3) w run by (simp add: persist_enqueue_def d''(1))
  qed
qed


definition demo_event :: PredictionEvent where
  "demo_event =
     \<lparr>pe_predictionId = ''p1'', pe_targetRoundId = ''r2'', pe_gameId = ''g'', pe_decision = Dec_Enter, pe_confidence = Fin (1 / 2),
      pe_probability = Fin (1 / 2), pe_entryMult = Fin 1, pe_targetMult = Fin 2, pe_createdAtMs = 10, pe_createdAtNs = 0,
      pe_correlationId = ''c'', pe_modelVersion = ''m'', pe_delivered = False\<rparr>"

definition demo_entry_signal :: Signal where
  "demo_entry_signal =
     \<lparr>sg_kind = Sig_Prediction, sg_predictionId = ''p1'', sg_roundId = ''r2'', sg_text = ''go'', sg_createdAtMs = 10,
      sg_correlationId = ''c'', sg_urgent = False\<rparr>"

definition demo_tx :: "unit DurablePredictionTx" where
  "demo_tx =
     \<lparr>dt_db = Some (Pg demo_pg), dt_repo = Some OutboxRepository_new,
      dt_pub = \<lparr>pb_handoff = None, pb_memory = Some (Outbox_new 4)\<rparr>, dt_durable_ok = 0\<rparr>"

lemmas run_simps = persistPrediction_def demo_tx_def demo_pg_def tx_begin_def tx_commit_def tx_end_def pg_execute_def executeParams_def
  pg_run_def demo_libpq_def demo_server_def sv_exec_def sv_execParams_def persist_enqueue_def enqueue_or_retry_def
  rq_enqueue_def persist_commit_def tx_fail_def DurablePersistResult_default_def


end
