(* ===== verification/Notify.thy ===== *)
theory Notify
  imports Durable Feedback
begin

text \<open>
  The rest of durable delivery: \<open>TemporalGuard\<close> (\<open>include/delivery/outbox/temporal_auth.hpp\<close>), claiming and settling rows in
  \<open>OutboxRepository\<close>, \<open>NotificationWorker\<close> (\<open>include/delivery/notification_worker.hpp\<close>) and the delivery function that
  \<open>include/application/application.hpp\<close> gives it. Sending a message is an argument.
\<close>

section \<open>Claiming and settling rows\<close>

definition claim_sql :: string where
  "claim_sql =
     ''UPDATE notification_outbox SET status='' @ [squote] @ ''claimed'' @ [squote] @
     '', attempts=attempts+1, worker_id=$1, claimed_at_ms=$2 '' @
     ''WHERE id IN (SELECT id FROM notification_outbox WHERE status='' @ [squote] @ ''pending'' @ [squote] @
     '' AND available_at_ms <= $2 '' @ ''ORDER BY created_at_ms ASC FOR UPDATE SKIP LOCKED LIMIT $3) '' @
     ''RETURNING id, dedupe_key, payload, status, attempts, created_at_ms, available_at_ms, COALESCE(last_error,'' @
     [squote, squote] @ '')''"

definition row_of :: "string list \<Rightarrow> OutboxRow option" where
  "row_of r =
     (case r of
        a # b # c # d # e # f # g # h # _ \<Rightarrow>
          Some \<lparr>rw_id = a, rw_dedupeKey = b, rw_payload = c, rw_status = d, rw_lastError = h, rw_attempts = strtoll e,
                rw_createdAtMs = strtoll f, rw_availableAtMs = strtoll g\<rparr>
      | _ \<Rightarrow> None)"

fun rq_claim :: "('c, 'w) libpq \<Rightarrow> TimestampMs \<Rightarrow> nat \<Rightarrow> string \<Rightarrow> OutboxRepository \<Rightarrow> 'c Db \<Rightarrow> 'w \<Rightarrow>
    OutboxRow list Result \<times> OutboxRepository \<times> 'c Db \<times> 'w" where
  "rq_claim pq now limit workerId q (Base d) w = (Inr [], q, Base d, w)"
| "rq_claim pq now limit workerId q (Pg d) w =
     (case pg_query pq claim_sql [workerId, show_int now, show_nat limit] d w of
        (Inl e, d, w) \<Rightarrow> (Inl (mkError (err_code e) (err_message e)), q, Pg d, w)
      | (Inr qr, d, w) \<Rightarrow>
          let rows = List.map_filter row_of (qr_rows qr)
          in (Inr rows, q\<lparr>rq_claimed := rq_claimed q + of_nat (length rows)\<rparr>, Pg d, w))"

definition delivered_sql :: string where
  "delivered_sql = ''UPDATE notification_outbox SET status='' @ [squote] @ ''delivered'' @ [squote] @ '', delivered_at_ms=$1 WHERE id=$2''"

fun rq_markDelivered :: "('c, 'w) libpq \<Rightarrow> TimestampMs \<Rightarrow> string \<Rightarrow> OutboxRepository \<Rightarrow> 'c Db \<Rightarrow> 'w \<Rightarrow>
    unit Result \<times> OutboxRepository \<times> 'c Db \<times> 'w" where
  "rq_markDelivered pq now i q (Pg d) w =
     (case executeParams pq delivered_sql [show_int now, i] d w of (r, d, w) \<Rightarrow>
        (r, if Result_ok r then q\<lparr>rq_delivered := rq_delivered q + 1\<rparr> else q, Pg d, w))"
| "rq_markDelivered pq now i q (Base d) w =
     (case base_execute (''UPDATE notification_outbox SET status='' @ [squote] @ ''delivered'' @ [squote] @ '' WHERE id='' @ [squote] @ i @ [squote]) d of
        (r, d) \<Rightarrow> (r, q, Base d, w))"

definition failed_sql :: string where
  "failed_sql = ''UPDATE notification_outbox SET status=$1, last_error=$2, available_at_ms=$3 WHERE id=$4''"

definition failed_params :: "TimestampMs \<Rightarrow> string \<Rightarrow> string \<Rightarrow> int \<Rightarrow> bool \<Rightarrow> string list" where
  "failed_params now i err retryAfterMs deadLetter =
     [if deadLetter then ''dead'' else ''pending'', err, show_int (now + retryAfterMs), i]"

fun rq_markFailed :: "('c, 'w) libpq \<Rightarrow> TimestampMs \<Rightarrow> string \<Rightarrow> string \<Rightarrow> int \<Rightarrow> bool \<Rightarrow> OutboxRepository \<Rightarrow> 'c Db \<Rightarrow> 'w \<Rightarrow>
    unit Result \<times> OutboxRepository \<times> 'c Db \<times> 'w" where
  "rq_markFailed pq now i err retryAfterMs deadLetter q (Pg d) w =
     (case executeParams pq failed_sql (failed_params now i err retryAfterMs deadLetter) d w of (r, d, w) \<Rightarrow>
        (r, if Result_ok r then (if deadLetter then q\<lparr>rq_dead := rq_dead q + 1\<rparr> else q\<lparr>rq_failed := rq_failed q + 1\<rparr>) else q, Pg d, w))"
| "rq_markFailed pq now i err retryAfterMs deadLetter q (Base d) w = (Inr (), q, Base d, w)"

definition recover_sql :: string where
  "recover_sql =
     ''UPDATE notification_outbox SET status='' @ [squote] @ ''pending'' @ [squote] @ '', worker_id=NULL '' @
     ''WHERE status='' @ [squote] @ ''claimed'' @ [squote] @ '' AND claimed_at_ms < $1''"

fun rq_recoverStaleClaims :: "('c, 'w) libpq \<Rightarrow> TimestampMs \<Rightarrow> int \<Rightarrow> 'c Db \<Rightarrow> 'w \<Rightarrow> unit Result \<times> 'c Db \<times> 'w" where
  "rq_recoverStaleClaims pq now olderThanMs (Pg d) w =
     (case executeParams pq recover_sql [show_int (now - olderThanMs)] d w of (r, d, w) \<Rightarrow> (r, Pg d, w))"
| "rq_recoverStaleClaims pq now olderThanMs (Base d) w = (Inr (), Base d, w)"

section \<open>The temporal guard\<close>

record TemporalAuthConfig =
  ta_deliveryDeadlineMs :: int
  ta_postStartGraceMs :: int

datatype TemporalDecision = Td_Allow | Td_RejectTargetStarted | Td_RejectExpired | Td_RejectUnknownTarget

record TemporalAuthResult =
  tr_decision :: TemporalDecision
  tr_reason :: string

definition tr_allowed :: "TemporalAuthResult \<Rightarrow> bool" where
  "tr_allowed r \<longleftrightarrow> tr_decision r = Td_Allow"

record TemporalGuard =
  tg_cfg :: TemporalAuthConfig
  tg_started :: "string \<rightharpoonup> TimestampMs"
  tg_starts :: u64
  tg_kills :: u64

definition TemporalGuard_new :: "TemporalAuthConfig \<Rightarrow> TemporalGuard" where
  "TemporalGuard_new cfg = \<lparr>tg_cfg = cfg, tg_started = Map.empty, tg_starts = 0, tg_kills = 0\<rparr>"

definition noteTargetStarted :: "TimestampMs \<Rightarrow> string \<Rightarrow> TimestampMs \<Rightarrow> TemporalGuard \<Rightarrow> TemporalGuard" where
  "noteTargetStarted now roundId startedAtMs g =
     (if roundId = [] then g
      else g\<lparr>tg_started := (tg_started g)(roundId \<mapsto> (if startedAtMs > 0 then startedAtMs else now)), tg_starts := tg_starts g + 1\<rparr>)"

definition hasStarted :: "string \<Rightarrow> TemporalGuard \<Rightarrow> bool" where
  "hasStarted roundId g \<longleftrightarrow> tg_started g roundId \<noteq> None"

definition startedAt :: "string \<Rightarrow> TemporalGuard \<Rightarrow> TimestampMs option" where
  "startedAt roundId g = tg_started g roundId"

definition authorizeSend :: "TimestampMs \<Rightarrow> string \<Rightarrow> TimestampMs \<Rightarrow> TemporalGuard \<Rightarrow> TemporalAuthResult" where
  "authorizeSend now roundId signalCreatedAtMs g =
     (if signalCreatedAtMs > 0 \<and> now - signalCreatedAtMs > ta_deliveryDeadlineMs (tg_cfg g)
      then \<lparr>tr_decision = Td_RejectExpired, tr_reason = ''signal exceeded delivery deadline''\<rparr>
      else case tg_started g roundId of
             Some started \<Rightarrow>
               if now \<ge> started + ta_postStartGraceMs (tg_cfg g)
               then \<lparr>tr_decision = Td_RejectTargetStarted, tr_reason = ''target round already started''\<rparr>
               else \<lparr>tr_decision = Td_Allow, tr_reason = []\<rparr>
           | None \<Rightarrow> \<lparr>tr_decision = Td_Allow, tr_reason = []\<rparr>)"

definition kill_sql :: string where
  "kill_sql =
     ''UPDATE notification_outbox SET status='' @ [squote] @ ''dead'' @ [squote] @ '', last_error='' @ [squote] @ ''stale:target_started'' @ [squote] @
     '' WHERE status IN ('' @ [squote] @ ''pending'' @ [squote] @ '','' @ [squote] @ ''claimed'' @ [squote] @
     '') AND (round_id=$1 OR dedupe_key LIKE $2)''"

definition killStaleForTarget :: "('c, 'w) libpq \<Rightarrow> TimestampMs \<Rightarrow> string \<Rightarrow> TemporalGuard \<Rightarrow> 'c Db option \<Rightarrow> 'w \<Rightarrow>
    nat \<times> TemporalGuard \<times> 'c Db option \<times> 'w" where
  "killStaleForTarget pq now roundId g db w =
     (case db of
        Some (Pg d) \<Rightarrow>
          if roundId = [] then (0, g, db, w)
          else (case executeParams pq kill_sql [roundId, ''%'' @ roundId @ ''%''] d w of (r, d, w) \<Rightarrow>
                  if \<not> Result_ok r then (0, g, Some (Pg d), w)
                  else (1, g\<lparr>tg_kills := tg_kills g + 1,
                            tg_started := (tg_started g)(roundId \<mapsto> (case tg_started g roundId of Some t \<Rightarrow> t | None \<Rightarrow> now))\<rparr>,
                        Some (Pg d), w))
      | _ \<Rightarrow> (0, g, db, w))"

section \<open>The notification worker\<close>

record NwConfig =
  nc_workerId :: string
  nc_batchSize :: nat
  nc_pollIntervalMs :: int
  nc_claimStaleMs :: int
  nc_maxAttempts :: int
  nc_baseRetryMs :: int
  nc_maxRetryMs :: int

definition NwConfig_default :: NwConfig where
  "NwConfig_default =
     \<lparr>nc_workerId = ''nw-1'', nc_batchSize = 16, nc_pollIntervalMs = 200, nc_claimStaleMs = 30000, nc_maxAttempts = 8, nc_baseRetryMs = 500, nc_maxRetryMs = 60000\<rparr>"

record NotificationWorker =
  nw_cfg :: NwConfig
  nw_delivered :: u64
  nw_failed :: u64
  nw_dead :: u64
  nw_loops :: u64

text \<open>The delay before the next attempt. A shift by a negative count is undefined in C++, so \<open>attempts\<close> below zero has no meaning.\<close>

definition nw_retry :: "NwConfig \<Rightarrow> int \<Rightarrow> int" where
  "nw_retry cfg attempts = min (nc_maxRetryMs cfg) (nc_baseRetryMs cfg * 2 ^ nat (min attempts 10))"

text \<open>\<open>deliver_\<close> when set, else the Telegram client, else nothing to do; all of them on the state \<open>'s\<close> of the outside.\<close>

definition doDeliver :: "(OutboxRow \<Rightarrow> 's \<Rightarrow> unit Result \<times> 's) option \<Rightarrow> (string \<Rightarrow> 's \<Rightarrow> unit Result \<times> 's) option \<Rightarrow> OutboxRow \<Rightarrow> 's \<Rightarrow> unit Result \<times> 's" where
  "doDeliver deliver telegram row s =
     (case deliver of
        Some f \<Rightarrow> f row s
      | None \<Rightarrow>
          (case telegram of
             Some send \<Rightarrow> (case send (rw_payload row) s of (Inl e, s) \<Rightarrow> (Inl (mkError EC_NetworkError (err_message e)), s) | (Inr u, s) \<Rightarrow> (Inr (), s))
           | None \<Rightarrow> (Inr (), s)))"

record ('c, 'w, 's) nw_state =
  ns_worker :: NotificationWorker
  ns_repo :: OutboxRepository
  ns_db :: "'c Db"
  ns_world :: 'w
  ns_out :: 's

text \<open>One claimed row; \<open>now\<close> is the clock of the mark.\<close>

definition nw_row :: "('c, 'w) libpq \<Rightarrow> TimestampMs \<Rightarrow> (OutboxRow \<Rightarrow> 's \<Rightarrow> unit Result \<times> 's) \<Rightarrow> OutboxRow \<Rightarrow> ('c, 'w, 's) nw_state \<Rightarrow>
    bool \<times> ('c, 'w, 's) nw_state" where
  "nw_row pq now dlv row s =
     (case dlv row (ns_out s) of
        (Inr _, out) \<Rightarrow>
          (case rq_markDelivered pq now (rw_id row) (ns_repo s) (ns_db s) (ns_world s) of (_, q, d, w) \<Rightarrow>
             (True, s\<lparr>ns_out := out, ns_repo := q, ns_db := d, ns_world := w,
                      ns_worker := (ns_worker s)\<lparr>nw_delivered := nw_delivered (ns_worker s) + 1\<rparr>\<rparr>))
      | (Inl e, out) \<Rightarrow>
          let dead = rw_attempts row \<ge> nc_maxAttempts (nw_cfg (ns_worker s));
              retry = nw_retry (nw_cfg (ns_worker s)) (rw_attempts row)
          in case rq_markFailed pq now (rw_id row) (err_message e) retry dead (ns_repo s) (ns_db s) (ns_world s) of (_, q, d, w) \<Rightarrow>
               (False, s\<lparr>ns_out := out, ns_repo := q, ns_db := d, ns_world := w,
                         ns_worker := (if dead then (ns_worker s)\<lparr>nw_dead := nw_dead (ns_worker s) + 1\<rparr>
                                       else (ns_worker s)\<lparr>nw_failed := nw_failed (ns_worker s) + 1\<rparr>)\<rparr>))"

fun nw_rows :: "('c, 'w) libpq \<Rightarrow> (nat \<Rightarrow> TimestampMs) \<Rightarrow> (OutboxRow \<Rightarrow> 's \<Rightarrow> unit Result \<times> 's) \<Rightarrow> OutboxRow list \<Rightarrow> ('c, 'w, 's) nw_state \<Rightarrow>
    nat \<times> ('c, 'w, 's) nw_state" where
  "nw_rows pq clk dlv [] s = (0, s)"
| "nw_rows pq clk dlv (row # rows) s =
     (let (k, s) = nw_row pq (clk (length rows)) dlv row s; (n, s) = nw_rows pq clk dlv rows s
      in ((if k then 1 else 0) + n, s))"

definition nw_drainBatch :: "('c, 'w) libpq \<Rightarrow> TimestampMs \<Rightarrow> (nat \<Rightarrow> TimestampMs) \<Rightarrow> (OutboxRow \<Rightarrow> 's \<Rightarrow> unit Result \<times> 's) \<Rightarrow> ('c, 'w, 's) nw_state \<Rightarrow>
    nat \<times> ('c, 'w, 's) nw_state" where
  "nw_drainBatch pq now clk dlv s =
     (case rq_claim pq now (nc_batchSize (nw_cfg (ns_worker s))) (nc_workerId (nw_cfg (ns_worker s))) (ns_repo s) (ns_db s) (ns_world s) of
        (Inl e, q, d, w) \<Rightarrow> (0, s\<lparr>ns_repo := q, ns_db := d, ns_world := w\<rparr>)
      | (Inr rows, q, d, w) \<Rightarrow> nw_rows pq clk dlv rows (s\<lparr>ns_repo := q, ns_db := d, ns_world := w\<rparr>))"

text \<open>One turn of the loop: every fiftieth turn first gives back the claims of workers that stopped. The pauses between the turns have no
  effect on the state.\<close>

definition nw_loop_once :: "('c, 'w) libpq \<Rightarrow> TimestampMs \<Rightarrow> TimestampMs \<Rightarrow> (nat \<Rightarrow> TimestampMs) \<Rightarrow> (OutboxRow \<Rightarrow> 's \<Rightarrow> unit Result \<times> 's) \<Rightarrow> ('c, 'w, 's) nw_state \<Rightarrow>
    nat \<times> ('c, 'w, 's) nw_state" where
  "nw_loop_once pq now0 now clk dlv s =
     (let n = nw_loops (ns_worker s);
          s = s\<lparr>ns_worker := (ns_worker s)\<lparr>nw_loops := n + 1\<rparr>\<rparr>;
          s = (if n mod 50 = 0
               then (case rq_recoverStaleClaims pq now0 (nc_claimStaleMs (nw_cfg (ns_worker s))) (ns_db s) (ns_world s) of
                       (_, d, w) \<Rightarrow> s\<lparr>ns_db := d, ns_world := w\<rparr>)
               else s)
      in nw_drainBatch pq now clk dlv s)"

section \<open>What the application sends\<close>

definition signal_mark :: "SignalKind \<Rightarrow> string" where
  "signal_mark k =
     (case k of
        Sig_Prediction \<Rightarrow> [CHR 0xF0, CHR 0x9F, CHR 0x8E, CHR 0xAF]
      | Sig_Outcome \<Rightarrow> [CHR 0xF0, CHR 0x9F, CHR 0x93, CHR 0x8A]
      | Sig_Heartbeat \<Rightarrow> [CHR 0xF0, CHR 0x9F, CHR 0x92, CHR 0x93]
      | Sig_SystemAlert \<Rightarrow> [CHR 0xE2, CHR 0x9A, CHR 0xA0, CHR 0xEF, CHR 0xB8, CHR 0x8F])"

definition formatTelegram :: "Signal \<Rightarrow> string" where
  "formatTelegram s =
     signal_mark (sg_kind s) @ '' '' @ sg_text s @
     (if sg_correlationId s \<noteq> [] then [CHR 0x0A] @ ''['' @ sg_correlationId s @ '']'' else [])"

text \<open>The sink of the in-memory worker.\<close>

definition app_sink :: "TimestampMs \<Rightarrow> TemporalGuard \<Rightarrow> (string \<Rightarrow> 's \<Rightarrow> unit Result \<times> 's) option \<Rightarrow> OutboxItem \<Rightarrow> 's \<Rightarrow> bool \<times> 's" where
  "app_sink now g telegram item s =
     (case telegram of
        None \<Rightarrow> (False, s)
      | Some send \<Rightarrow>
          if \<not> tr_allowed (authorizeSend now (sg_roundId (oi_signal item)) (sg_createdAtMs (oi_signal item)) g) then (False, s)
          else (case send (formatTelegram (oi_signal item)) s of (r, s) \<Rightarrow> (Result_ok r, s)))"

text \<open>The round a row is about: what follows the first \<open>round=\<close> of its payload up to the end of the line, or its key.\<close>

fun after_first :: "string \<Rightarrow> string \<Rightarrow> string option" where
  "after_first p [] = (if p = [] then Some [] else None)"
| "after_first p (c # cs) = (if take (length p) (c # cs) = p then Some (drop (length p) (c # cs)) else after_first p cs)"

definition row_round :: "OutboxRow \<Rightarrow> string" where
  "row_round row =
     (case after_first ''round='' (rw_payload row) of
        None \<Rightarrow> rw_dedupeKey row
      | Some rest \<Rightarrow> takeWhile (\<lambda>c. c \<noteq> CHR 0x0A) rest)"

text \<open>The delivery function of the durable worker; \<open>nf\<close> is the clock and \<open>first\<close> the map order of the forensics.\<close>

definition app_deliver :: "TimestampMs \<Rightarrow> TimestampMs \<Rightarrow> string \<Rightarrow> TemporalGuard \<Rightarrow> (string \<Rightarrow> 's \<Rightarrow> unit Result \<times> 's) option \<Rightarrow> OutboxRow \<Rightarrow>
    DeliveryForensics \<times> 's \<Rightarrow> unit Result \<times> DeliveryForensics \<times> 's" where
  "app_deliver now nf first g telegram row fs =
     (case fs of (f, s) \<Rightarrow>
        let auth = authorizeSend now (row_round row) (rw_createdAtMs row) g
        in if \<not> tr_allowed auth
           then (Inl (mkError EC_Timeout (tr_reason auth)), fo_note nf first (rw_id row) Ds_Failed (rw_id row) (tr_reason auth) f, s)
           else case telegram of
                  None \<Rightarrow> (Inl (mkError EC_ConfigError ''no telegram''), f, s)
                | Some send \<Rightarrow>
                    (case send (rw_payload row) s of
                       (Inl e, s) \<Rightarrow> (Inl (mkError (err_code e) (err_message e)), fo_note nf first (rw_id row) Ds_Failed (rw_id row) (err_message e) f, s)
                     | (Inr _, s) \<Rightarrow> (Inr (), fo_note nf first (rw_id row) Ds_Delivered (rw_id row) [] f, s)))"

section \<open>A signal never leaves after its round began\<close>

datatype tg_op = Begin TimestampMs string TimestampMs | Kill TimestampMs string

fun tg_exec :: "('c, 'w) libpq \<Rightarrow> tg_op \<Rightarrow> TemporalGuard \<times> 'c Db option \<times> 'w \<Rightarrow> TemporalGuard \<times> 'c Db option \<times> 'w" where
  "tg_exec pq (Begin now rid at') (g, db, w) = (noteTargetStarted now rid at' g, db, w)"
| "tg_exec pq (Kill now rid) (g, db, w) = snd (killStaleForTarget pq now rid g db w)"

text \<open>No stamp of the operations lies after \<open>t\<close>.\<close>

fun stamped_by :: "TimestampMs \<Rightarrow> tg_op \<Rightarrow> bool" where
  "stamped_by t (Begin now rid at') \<longleftrightarrow> (if at' > 0 then at' else now) \<le> t"
| "stamped_by t (Kill now rid) \<longleftrightarrow> now \<le> t"

definition begun_by :: "TimestampMs \<Rightarrow> string \<Rightarrow> TemporalGuard \<Rightarrow> bool" where
  "begun_by t rid g \<longleftrightarrow> (\<exists>u \<le> t. tg_started g rid = Some u)"

lemma tg_exec_keeps:
  assumes "begun_by t rid g" and "stamped_by t op" and "tg_exec pq op (g, db, w) = (g', db', w')"
  shows "begun_by t rid g' \<and> tg_cfg g' = tg_cfg g"
  using assms
  by (cases op) (auto simp: begun_by_def noteTargetStarted_def killStaleForTarget_def split: if_splits option.splits Db.splits prod.splits)

lemma tg_run_keeps:
  assumes "begun_by t rid g" and "list_all (stamped_by t) ops" and "fold (tg_exec pq) ops (g, db, w) = (g', db', w')"
  shows "begun_by t rid g' \<and> tg_cfg g' = tg_cfg g"
  using assms
proof (induction ops arbitrary: g db w)
  case (Cons op ops)
  obtain g1 db1 w1 where e: "tg_exec pq op (g, db, w) = (g1, db1, w1)" by (metis prod_cases3)
  then have "begun_by t rid g1" "tg_cfg g1 = tg_cfg g" using tg_exec_keeps [OF Cons.prems(1) _ e] Cons.prems(2) by auto
  then show ?case using Cons.IH [of g1 db1 w1] Cons.prems e by simp
qed simp

lemma begun_rejected:
  "begun_by t rid g \<Longrightarrow> t + ta_postStartGraceMs (tg_cfg g) \<le> now \<Longrightarrow> \<not> tr_allowed (authorizeSend now rid created g)"
  by (auto simp: begun_by_def authorizeSend_def tr_allowed_def)

lemma prediction_row_round:
  "CHR 0x0A \<notin> set (pe_targetRoundId e) \<Longrightarrow> row_round (prediction_row now e sig) = pe_targetRoundId e"
  by (simp add: row_round_def prediction_row_def OutboxRow_default_def takeWhile_append)

text \<open>C18: A signal never leaves after its round began. Once the guard was told that a round began, then after any further beginnings
  and kills, with no stamp in the future of \<open>t\<close>, and the grace period past, neither the in-memory sink nor the durable
  delivery of the row that was stored for a prediction of that round calls Telegram: both fail and leave the outside
  as it is.\<close>

theorem late_signal_never_sent:
  assumes "rid \<noteq> []" and "CHR 0x0A \<notin> set rid" and "list_all (stamped_by t) (Begin now0 rid at0 # ops)"
    and "fold (tg_exec pq) (Begin now0 rid at0 # ops) (g, db, w) = (g', db', w')"
    and "t + ta_postStartGraceMs (tg_cfg g) \<le> now"
    and "pe_targetRoundId e = rid" and "sg_roundId (oi_signal item) = rid"
    and "rw_payload row = rw_payload (prediction_row created e sig)"
  shows "app_sink now g' telegram item s = (False, s) \<and>
    (\<exists>err f'. app_deliver now nf first g' telegram row (f, s) = (Inl err, f', s))"
proof -
  let ?g = "noteTargetStarted now0 rid at0 g"
  have "begun_by t rid ?g" "tg_cfg ?g = tg_cfg g" using assms(1,3) by (auto simp: begun_by_def noteTargetStarted_def)
  then have "begun_by t rid g'" "tg_cfg g' = tg_cfg g" using tg_run_keeps [of t rid ?g ops pq db w g' db' w'] assms(3,4) by auto
  then have no: "\<not> tr_allowed (authorizeSend now rid c g')" for c using begun_rejected [of t rid g' now c] assms(5) by simp
  have "row_round row = rid"
    using prediction_row_round [of e created sig] assms(2,6,8) by (simp add: row_round_def prediction_row_def OutboxRow_default_def)
  then have "\<exists>err f'. app_deliver now nf first g' telegram row (f, s) = (Inl err, f', s)"
    using no by (simp add: app_deliver_def Let_def)
  moreover have "app_sink now g' telegram item s = (False, s)"
    using no assms(7) by (simp add: app_sink_def split: option.split)
  ultimately show ?thesis by simp
qed

definition demo_guard :: TemporalGuard where
  "demo_guard = TemporalGuard_new \<lparr>ta_deliveryDeadlineMs = 5000, ta_postStartGraceMs = 0\<rparr>"

definition demo_item :: OutboxItem where
  "demo_item =
     \<lparr>oi_id = 1, oi_state = Ob_Claimed, oi_signal = demo_entry_signal, oi_createdAtMs = 10, oi_claimedAtMs = 20,
      oi_deliveredAtMs = 0, oi_attempts = 0, oi_lastError = [], oi_dedupeKey = ''p1:pred''\<rparr>"

definition demo_send :: "string \<Rightarrow> string list \<Rightarrow> unit Result \<times> string list" where
  "demo_send m s = (Inr (), s @ [m])"

theorem late_signal_never_sent_witness:
  "fst (app_sink 90 demo_guard (Some demo_send) demo_item []) \<and>
   (case fold (tg_exec demo_libpq) [Begin 100 ''r2'' 0, Kill 120 ''r2''] (demo_guard, Some (Pg demo_pg), demo_server []) of
      (g', db', w') \<Rightarrow>
        app_sink 130 g' (Some demo_send) demo_item [] = (False, []) \<and>
        (\<exists>err f'. app_deliver 130 130 [] g' (Some demo_send) (prediction_row 10 demo_event demo_entry_signal)
            (\<lparr>fo_traces = Map.empty, fo_events = 0\<rparr>, []) = (Inl err, f', [])))"
proof -
  obtain g' db' w' where e: "fold (tg_exec demo_libpq) [Begin 100 ''r2'' 0, Kill 120 ''r2''] (demo_guard, Some (Pg demo_pg), demo_server []) = (g', db', w')"
    by (metis prod_cases3)
  have h: "pe_targetRoundId demo_event = ''r2''" "sg_roundId (oi_signal demo_item) = ''r2''"
    "list_all (stamped_by 120) [Begin 100 ''r2'' 0, Kill 120 ''r2'']" "120 + ta_postStartGraceMs (tg_cfg demo_guard) \<le> 130"
    by (simp_all add: demo_event_def demo_item_def demo_entry_signal_def demo_guard_def TemporalGuard_new_def)
  have "app_sink 130 g' (Some demo_send) demo_item [] = (False, []) \<and>
        (\<exists>err f'. app_deliver 130 130 [] g' (Some demo_send) (prediction_row 10 demo_event demo_entry_signal)
            (\<lparr>fo_traces = Map.empty, fo_events = 0\<rparr>, []) = (Inl err, f', []))"
    by (rule late_signal_never_sent [OF _ _ h(3) e h(4) h(1,2) refl]) simp_all
  moreover have "fst (app_sink 90 demo_guard (Some demo_send) demo_item [])"
    by (simp add: app_sink_def authorizeSend_def demo_guard_def TemporalGuard_new_def demo_item_def demo_entry_signal_def tr_allowed_def demo_send_def)
  ultimately show ?thesis unfolding e prod.case by blast
qed

end
