(* ===== verification/Persist.thy ===== *)
theory Persist
  imports Database "HOL-Library.Multiset"
begin

text \<open>
  The users of the database layer: \<open>ConnectionPool\<close>, \<open>BatchWriter\<close>, \<open>RetentionManager\<close> and \<open>MigrationRunner\<close> of
  \<open>include/persistence\<close>. A pooled connection is a number that stands for the object a \<open>unique_ptr\<close> owns; the threads that
  use the pool and the writer are interleaved in step relations, one step per critical section.
\<close>

section \<open>The connection pool\<close>

record ConnectionPool =
  cp_creds :: string
  cp_size :: nat
  cp_pool :: "nat option list"
  cp_available :: u64

definition ConnectionPool_new :: "string \<Rightarrow> nat \<Rightarrow> ConnectionPool" where
  "ConnectionPool_new creds n = \<lparr>cp_creds = creds, cp_size = n, cp_pool = [], cp_available = 0\<rparr>"

text \<open>\<open>start\<close> from the \<open>i\<close>th of its \<open>k\<close> connections on; \<open>ids\<close> are the objects \<open>make_unique\<close> gives. Whether a connection
  is made depends on the credentials alone (\<open>Database::connect\<close>).\<close>

fun cp_fill :: "string \<Rightarrow> nat list \<Rightarrow> nat option list \<Rightarrow> unit Result \<times> nat option list" where
  "cp_fill creds [] pool = (Inr (), pool)"
| "cp_fill creds (i # ids) pool =
     (case fst (base_connect \<lparr>db_creds = creds, db_connected = False, db_executions = 0\<rparr>) of
        Inl e \<Rightarrow> (Inl e, pool)
      | Inr _ \<Rightarrow> cp_fill creds ids (pool @ [Some i]))"

definition cp_start :: "nat list \<Rightarrow> ConnectionPool \<Rightarrow> unit Result \<times> ConnectionPool" where
  "cp_start ids p =
     (case cp_fill (cp_creds p) (take (cp_size p) ids) (cp_pool p) of
        (Inl e, pool) \<Rightarrow> (Inl e, p\<lparr>cp_pool := pool\<rparr>)
      | (Inr _, pool) \<Rightarrow> (Inr (), p\<lparr>cp_pool := pool, cp_available := of_nat (length pool)\<rparr>))"

definition cp_stop :: "ConnectionPool \<Rightarrow> ConnectionPool" where
  "cp_stop p = p\<lparr>cp_pool := [], cp_available := 0\<rparr>"

text \<open>The scan of \<open>acquire\<close> for a slot that holds a connection, and of \<open>release\<close> for one that does not.\<close>

fun take_slot :: "nat option list \<Rightarrow> (nat \<times> nat option list) option" where
  "take_slot [] = None"
| "take_slot (Some c # ss) = Some (c, None # ss)"
| "take_slot (None # ss) = map_option (\<lambda>(c, ss). (c, None # ss)) (take_slot ss)"

fun fill_slot :: "nat \<Rightarrow> nat option list \<Rightarrow> nat option list" where
  "fill_slot c [] = [Some c]"
| "fill_slot c (None # ss) = Some c # ss"
| "fill_slot c (Some a # ss) = Some a # fill_slot c ss"

definition cp_waits :: "ConnectionPool \<Rightarrow> bool" where
  "cp_waits p \<longleftrightarrow> \<not> (cp_available p > 0 \<or> cp_pool p = [])"

text \<open>\<open>acquire\<close> once its wait is over.\<close>

definition cp_acquire :: "ConnectionPool \<Rightarrow> nat option \<times> ConnectionPool" where
  "cp_acquire p =
     (if cp_pool p = [] then (None, p)
      else case take_slot (cp_pool p) of
             Some (c, ss) \<Rightarrow> (Some c, p\<lparr>cp_pool := ss, cp_available := cp_available p - 1\<rparr>)
           | None \<Rightarrow> (None, p))"

definition cp_release :: "nat option \<Rightarrow> ConnectionPool \<Rightarrow> ConnectionPool" where
  "cp_release db p =
     (case db of
        None \<Rightarrow> p
      | Some c \<Rightarrow> p\<lparr>cp_pool := fill_slot c (cp_pool p), cp_available := cp_available p + 1\<rparr>)"

text \<open>The pool and who holds what.\<close>

type_synonym pool_run = "ConnectionPool \<times> nat list"

inductive cp_step :: "pool_run \<Rightarrow> pool_run \<Rightarrow> bool" where
  acquire: "\<not> cp_waits p \<Longrightarrow> cp_acquire p = (Some c, p') \<Longrightarrow> cp_step (p, held) (p', c # held)"
| drained: "\<not> cp_waits p \<Longrightarrow> cp_acquire p = (None, p') \<Longrightarrow> cp_step (p, held) (p', held)"
| release: "c \<in> set held \<Longrightarrow> cp_step (p, held) (cp_release (Some c) p, remove1 c held)"
| release_null: "cp_step (p, held) (cp_release None p, held)"
| stop: "cp_step (p, held) (cp_stop p, held)"

inductive cp_reachable :: "string \<Rightarrow> nat list \<Rightarrow> pool_run \<Rightarrow> bool" for creds ids where
  start: "cp_reachable creds ids (snd (cp_start ids (ConnectionPool_new creds (length ids))), [])"
| step: "cp_reachable creds ids s \<Longrightarrow> cp_step s s' \<Longrightarrow> cp_reachable creds ids s'"

definition free_slots :: "ConnectionPool \<Rightarrow> nat list" where
  "free_slots p = List.map_filter id (cp_pool p)"

lemma free_slots_cong [simp]: "free_slots (p\<lparr>cp_available := a\<rparr>) = free_slots p"
  by (simp add: free_slots_def)

lemma map_filter_id_simps [simp]:
  "List.map_filter id [] = []" "List.map_filter id (None # ss) = List.map_filter id ss"
  "List.map_filter id (Some c # ss) = c # List.map_filter id ss" "List.map_filter id (xs @ ys) = List.map_filter id xs @ List.map_filter id ys"
  by (simp_all add: List.map_filter_def)

lemma map_filter_id_Some [simp]: "List.map_filter id (map Some xs) = xs"
  by (induction xs) simp_all

lemma take_slot_Some:
  "take_slot ss = Some (c, ss') \<Longrightarrow> List.map_filter id ss = c # List.map_filter id ss' \<and> length ss' = length ss"
  by (induction ss arbitrary: ss' rule: take_slot.induct) auto

lemma take_slot_None: "take_slot ss = None \<longleftrightarrow> List.map_filter id ss = []"
  by (induction ss rule: take_slot.induct) (auto split: option.splits)

lemma fill_slot_mset: "mset (List.map_filter id (fill_slot c ss)) = add_mset c (mset (List.map_filter id ss))"
  by (induction c ss rule: fill_slot.induct) auto

lemma cp_fill_valid: "creds_valid creds \<Longrightarrow> cp_fill creds ids pool = (Inr (), pool @ map Some ids)"
  by (induction creds ids pool rule: cp_fill.induct) (simp_all add: base_connect_def)

lemma cp_fill_invalid: "\<not> creds_valid creds \<Longrightarrow> ids \<noteq> [] \<Longrightarrow> \<exists>e. cp_fill creds ids pool = (Inl e, pool)"
  by (cases ids) (simp_all add: base_connect_def)

definition cp_inv :: "nat list \<Rightarrow> pool_run \<Rightarrow> bool" where
  "cp_inv ids s \<longleftrightarrow>
     (case s of (p, held) \<Rightarrow>
        mset (free_slots p) + mset held \<subseteq># mset ids \<and> cp_available p = of_nat (length (free_slots p)))"

lemma cp_inv_start: "cp_inv ids (snd (cp_start ids (ConnectionPool_new creds (length ids))), [])"
proof (cases "creds_valid creds \<or> ids = []")
  case True
  then show ?thesis
    by (cases "ids = []") (simp_all add: cp_inv_def cp_start_def ConnectionPool_new_def cp_fill_valid free_slots_def)
next
  case False
  then obtain e where "cp_fill creds ids [] = (Inl e, [])" using cp_fill_invalid by blast
  then show ?thesis by (simp add: cp_inv_def cp_start_def ConnectionPool_new_def free_slots_def)
qed

lemma cp_acquire_cases:
  assumes "cp_acquire p = (r, p')"
  obtains (got) c where "r = Some c" "free_slots p = c # free_slots p'" "cp_available p' = cp_available p - 1"
    | (none) "r = None" "p' = p" "free_slots p = []"
proof (cases "cp_pool p = []")
  case True
  then show thesis using assms none by (simp add: cp_acquire_def free_slots_def)
next
  case False
  show thesis
  proof (cases "take_slot (cp_pool p)")
    case None
    then show thesis using assms False none take_slot_None [of "cp_pool p"] by (simp add: cp_acquire_def free_slots_def)
  next
    case (Some x)
    obtain c ss where x: "x = (c, ss)" by (cases x)
    show thesis
      by (rule got [of c]) (use assms [symmetric] False Some x take_slot_Some [of "cp_pool p" c ss] in \<open>auto simp: cp_acquire_def free_slots_def\<close>)
  qed
qed

lemma cp_inv_step: "cp_step s s' \<Longrightarrow> cp_inv ids s \<Longrightarrow> cp_inv ids s'"
proof (induction rule: cp_step.induct)
  case (acquire p c p' held)
  then show ?case by (cases rule: cp_acquire_cases [OF acquire(2)]) (auto simp: cp_inv_def)
next
  case (drained p p' held)
  then show ?case by (cases rule: cp_acquire_cases [OF drained(2)]) auto
next
  case (release c held p)
  let ?q = "cp_release (Some c) p"
  have m: "mset (free_slots ?q) = add_mset c (mset (free_slots p))"
    by (simp add: cp_release_def free_slots_def fill_slot_mset)
  have h: "mset (free_slots p) + mset held = mset (free_slots ?q) + mset (remove1 c held)" using release(1) m by simp
  have "length (free_slots ?q) = Suc (length (free_slots p))" using m by (metis size_add_mset size_mset)
  then show ?case using release(2) h unfolding cp_inv_def prod.case by (simp add: cp_release_def)
next
  case (stop p held)
  then have "mset held \<subseteq># mset ids"
    using subset_mset.order_trans [OF mset_subset_eq_add_right [of "mset held" "mset (free_slots p)"]] by (simp add: cp_inv_def)
  then show ?case by (simp add: cp_inv_def cp_stop_def free_slots_def)
qed (simp_all add: cp_release_def)

lemma cp_inv_reachable: "cp_reachable creds ids s \<Longrightarrow> cp_inv ids s"
  by (induction rule: cp_reachable.induct) (auto intro: cp_inv_start cp_inv_step)

lemma mset_sub_distinct:
  assumes "mset xs \<subseteq># mset ys" and "distinct ys"
  shows "distinct xs"
proof -
  have "count (mset xs) a = (if a \<in> set xs then 1 else 0)" for a
  proof (cases "a \<in> set xs")
    case True
    then have "a \<in> set ys" using set_mset_mono [OF assms(1)] by auto
    then have "count (mset ys) a = 1" using assms(2) unfolding distinct_count_atmost_1 by simp
    then have "count (mset xs) a \<le> 1" using mset_subset_eq_count [OF assms(1), of a] by simp
    moreover have "count (mset xs) a \<noteq> 0" using True by (simp add: count_eq_zero_iff)
    ultimately have "count (mset xs) a = 1" by linarith
    then show ?thesis using True by simp
  next
    case False
    then show ?thesis by (simp add: count_eq_zero_iff)
  qed
  then show ?thesis by (simp add: distinct_count_atmost_1)
qed

text \<open>A pooled connection has one owner. In every state that acquiring, releasing and stopping threads can reach, each
  connection the pool made is free or held by one thread and never both or twice, \<open>available\<close> is the number of free ones,
  and a thread whose wait for a non-empty pool is over gets a connection that nobody holds.\<close>

theorem pool_exclusive:
  assumes "cp_reachable creds ids (p, held)" and "distinct ids" and "length ids < 2 ^ 64"
  shows "distinct (free_slots p @ held) \<and> set (free_slots p @ held) \<subseteq> set ids \<and>
    unat (cp_available p) = length (free_slots p) \<and>
    (\<not> cp_waits p \<and> cp_pool p \<noteq> [] \<longrightarrow> (\<exists>c p'. cp_acquire p = (Some c, p') \<and> c \<in> set ids - set held))"
proof -
  have inv: "mset (free_slots p @ held) \<subseteq># mset ids" "cp_available p = of_nat (length (free_slots p))"
    using cp_inv_reachable [OF assms(1)] by (simp_all add: cp_inv_def)
  have d: "distinct (free_slots p @ held)" and sub: "set (free_slots p @ held) \<subseteq> set ids"
    using mset_sub_distinct [OF inv(1) assms(2)] set_mset_mono [OF inv(1)] by simp_all
  have "length (free_slots p) \<le> length ids" using size_mset_mono [OF inv(1)] by simp
  then have n: "unat (cp_available p) = length (free_slots p)" using inv(2) assms(3) by (simp add: unat_of_nat)
  have "\<exists>c p'. cp_acquire p = (Some c, p') \<and> c \<in> set ids - set held" if w: "\<not> cp_waits p" "cp_pool p \<noteq> []"
  proof -
    obtain r p' where a: "cp_acquire p = (r, p')" by (cases "cp_acquire p")
    have "free_slots p \<noteq> []" using w n by (auto simp: cp_waits_def word_greater_zero_iff unat_eq_0)
    then show ?thesis using a d sub by (cases rule: cp_acquire_cases [OF a]) auto
  qed
  with d sub n show ?thesis by blast
qed

theorem pool_exclusive_witness:
  "\<exists>p. cp_reachable ''db'' [7, 8] (p, [7]) \<and> free_slots p = [8] \<and> unat (cp_available p) = length (free_slots p)"
proof -
  let ?p = "snd (cp_start [7, 8] (ConnectionPool_new ''db'' (length [7 :: nat, 8])))"
  let ?q = "?p\<lparr>cp_pool := [None, Some 8], cp_available := 1\<rparr>"
  have q: "cp_acquire ?p = (Some 7, ?q)" and w: "\<not> cp_waits ?p"
    by (simp_all add: cp_start_def ConnectionPool_new_def base_connect_def creds_valid_def cp_acquire_def cp_waits_def)
  have r: "cp_reachable ''db'' [7, 8] (?q, [7])"
    by (rule cp_reachable.step [OF cp_reachable.start]) (rule cp_step.acquire [OF w q])
  have "unat (cp_available ?q) = length (free_slots ?q)" using pool_exclusive [OF r] by simp
  moreover have "free_slots ?q = [8]" by (simp add: free_slots_def)
  ultimately show ?thesis using r by blast
qed

section \<open>The batch writer\<close>

datatype PersistKind = Pk_Round | Pk_Prediction | Pk_Outcome | Pk_Outbox

record PersistItem =
  pi_kind :: PersistKind
  pi_round :: CrashRound
  pi_prediction :: PredictionEvent
  pi_outcome :: Outcome
  pi_outboxSql :: string

record 'c BatchWriter =
  bw_db :: "'c Db option"
  bw_batch_size :: nat
  bw_queue :: "PersistItem BoundedQueue"
  bw_buffer :: "PersistItem list"
  bw_offline_log :: "string list"
  bw_running :: bool
  bw_written :: u64
  bw_enqueued :: u64
  bw_drops :: u64
  bw_errors :: u64
  bw_offline_drops :: u64

definition BatchWriter_new :: "PersistItem \<Rightarrow> 'c Db option \<Rightarrow> nat \<Rightarrow> nat \<Rightarrow> 'c BatchWriter" where
  "BatchWriter_new i0 db batchSize queueCapacity =
     \<lparr>bw_db = db, bw_batch_size = batchSize, bw_queue = BoundedQueue_new i0 queueCapacity, bw_buffer = [], bw_offline_log = [],
      bw_running = False, bw_written = 0, bw_enqueued = 0, bw_drops = 0, bw_errors = 0, bw_offline_drops = 0\<rparr>"

definition bw_enqueue :: "PersistItem \<Rightarrow> 'c BatchWriter \<Rightarrow> unit Result \<times> 'c BatchWriter" where
  "bw_enqueue item b =
     (case bq_try_push (bw_queue b) item of
        (False, q) \<Rightarrow> (Inl (mkError EC_QueueFull ''persist queue full''), b\<lparr>bw_queue := q, bw_drops := bw_drops b + 1\<rparr>)
      | (True, q) \<Rightarrow> (Inr (), b\<lparr>bw_queue := q, bw_enqueued := bw_enqueued b + 1\<rparr>))"

text \<open>The three wrappers start from a default item.\<close>

definition enqueueRound :: "PersistItem \<Rightarrow> CrashRound \<Rightarrow> 'c BatchWriter \<Rightarrow> unit Result \<times> 'c BatchWriter" where
  "enqueueRound i0 r = bw_enqueue (i0\<lparr>pi_kind := Pk_Round, pi_round := r\<rparr>)"

definition enqueuePrediction :: "PersistItem \<Rightarrow> PredictionEvent \<Rightarrow> 'c BatchWriter \<Rightarrow> unit Result \<times> 'c BatchWriter" where
  "enqueuePrediction i0 e = bw_enqueue (i0\<lparr>pi_kind := Pk_Prediction, pi_prediction := e\<rparr>)"

definition enqueueOutcome :: "PersistItem \<Rightarrow> Outcome \<Rightarrow> 'c BatchWriter \<Rightarrow> unit Result \<times> 'c BatchWriter" where
  "enqueueOutcome i0 oc = bw_enqueue (i0\<lparr>pi_kind := Pk_Outcome, pi_outcome := oc\<rparr>)"

definition item_sql :: "PersistItem \<Rightarrow> string" where
  "item_sql i =
     (case pi_kind i of
        Pk_Round \<Rightarrow> upsertCrashRound (pi_round i)
      | Pk_Prediction \<Rightarrow> upsertPrediction (pi_prediction i)
      | Pk_Outcome \<Rightarrow> upsertOutcome (pi_outcome i)
      | Pk_Outbox \<Rightarrow> pi_outboxSql i)"

definition bw_offline :: "string \<Rightarrow> 'c BatchWriter \<Rightarrow> 'c BatchWriter" where
  "bw_offline sql b =
     b\<lparr>bw_offline_log := (let l = bw_offline_log b @ [sql] in if length l > 1000 then tl l else l),
       bw_offline_drops := bw_offline_drops b + 1\<rparr>"

definition writeItem :: "('c, 'w) libpq \<Rightarrow> PersistItem \<Rightarrow> nat \<times> 'c BatchWriter \<times> 'w \<Rightarrow> nat \<times> 'c BatchWriter \<times> 'w" where
  "writeItem pq item s =
     (case s of (n, b, w) \<Rightarrow>
        case bw_db b of
          Some d \<Rightarrow>
            if db_up d
            then (case db_execute pq (item_sql item) d w of (r, d, w) \<Rightarrow>
                    if Result_ok r then (n + 1, b\<lparr>bw_db := Some d, bw_written := bw_written b + 1\<rparr>, w)
                    else (n, b\<lparr>bw_db := Some d, bw_errors := bw_errors b + 1\<rparr>, w))
            else (n, bw_offline (item_sql item) b, w)
        | None \<Rightarrow> (n, bw_offline (item_sql item) b, w))"

definition writeBatch :: "('c, 'w) libpq \<Rightarrow> PersistItem list \<Rightarrow> 'c BatchWriter \<Rightarrow> 'w \<Rightarrow> nat \<times> 'c BatchWriter \<times> 'w" where
  "writeBatch pq batch b w = fold (writeItem pq) batch (0, b, w)"

text \<open>The loop of \<open>flush\<close> that empties the queue.\<close>

function bq_pop_all :: "'a BoundedQueue \<Rightarrow> 'a list \<times> 'a BoundedQueue" where
  "bq_pop_all q =
     (case bq_try_pop q of
        (None, q) \<Rightarrow> ([], q)
      | (Some x, q) \<Rightarrow> (case bq_pop_all q of (xs, q) \<Rightarrow> (x # xs, q)))"
  by pat_completeness auto
termination
  by (relation "measure bq_size") (auto simp: bq_try_pop_def bq_take_def split: if_splits)

declare bq_pop_all.simps [simp del]

definition bw_flush :: "('c, 'w) libpq \<Rightarrow> 'c BatchWriter \<Rightarrow> 'w \<Rightarrow> nat \<times> 'c BatchWriter \<times> 'w" where
  "bw_flush pq b w =
     (case bq_pop_all (bw_queue b) of (items, q) \<Rightarrow>
        writeBatch pq (bw_buffer b @ items) (b\<lparr>bw_buffer := [], bw_queue := q\<rparr>) w)"

text \<open>One pass of the worker's loop.\<close>

definition bw_run_once :: "('c, 'w) libpq \<Rightarrow> 'c BatchWriter \<Rightarrow> 'w \<Rightarrow> 'c BatchWriter \<times> 'w" where
  "bw_run_once pq b w =
     (case bq_pop (bw_queue b) of
        (None, q) \<Rightarrow>
          let b = b\<lparr>bw_queue := q\<rparr>
          in if length (bw_buffer b) \<ge> bw_batch_size b then snd (bw_flush pq b w) else (b, w)
      | (Some item, q) \<Rightarrow>
          let buf = bw_buffer b @ [item]; b = b\<lparr>bw_queue := q\<rparr>
          in if length buf \<ge> bw_batch_size b then snd (writeBatch pq buf (b\<lparr>bw_buffer := []\<rparr>) w)
             else (b\<lparr>bw_buffer := buf\<rparr>, w))"

definition bw_start :: "'c BatchWriter \<Rightarrow> 'c BatchWriter" where
  "bw_start b = b\<lparr>bw_running := True\<rparr>"

definition bw_stop :: "('c, 'w) libpq \<Rightarrow> 'c BatchWriter \<Rightarrow> 'w \<Rightarrow> 'c BatchWriter \<times> 'w" where
  "bw_stop pq b w = snd (bw_flush pq (b\<lparr>bw_running := False, bw_queue := bq_close (bw_queue b)\<rparr>) w)"

section \<open>Everything accepted is written once, in order\<close>

text \<open>A server that keeps the list of the statements it received and refuses some of them.\<close>

definition recorder :: "(string \<Rightarrow> bool) \<Rightarrow> (unit, string list) libpq" where
  "recorder good =
     \<lparr>pq_connectdb = (\<lambda>s w. ((), w)), pq_status = (\<lambda>c w. True),
      pq_exec = (\<lambda>c s w. (if good s then Pg_command_ok else Pg_error, w @ [s])),
      pq_execParams = (\<lambda>c s ps w. (if good s then Pg_command_ok else Pg_error, w @ [s])),
      pq_errorMessage = (\<lambda>c w. ''refused''), pq_finish = (\<lambda>c w. w)\<rparr>"

definition item_text :: "PersistItem \<Rightarrow> string" where
  "item_text i = c_str (item_sql i)"

text \<open>What a writer did with the items \<open>acc\<close> it accepted, given that the first \<open>dn\<close> of them reached the database.\<close>

definition bw_did :: "(string \<Rightarrow> bool) \<Rightarrow> PersistItem list \<Rightarrow> unit BatchWriter \<Rightarrow> bool" where
  "bw_did good dn b \<longleftrightarrow>
     (\<exists>d. bw_db b = Some (Pg d) \<and> pg_conn d = Some () \<and> db_connected d) \<and> bw_offline_drops b = 0 \<and>
     bw_written b = of_nat (length (filter (\<lambda>i. good (item_text i)) dn)) \<and>
     bw_errors b = of_nat (length (filter (\<lambda>i. \<not> good (item_text i)) dn))"

lemma bw_did_cong [simp]:
  "bw_did good dn (b\<lparr>bw_queue := q\<rparr>) = bw_did good dn b" "bw_did good dn (b\<lparr>bw_buffer := l\<rparr>) = bw_did good dn b"
  "bw_did good dn (b\<lparr>bw_enqueued := n\<rparr>) = bw_did good dn b" "bw_did good dn (b\<lparr>bw_drops := n\<rparr>) = bw_did good dn b"
  "bw_did good dn (b\<lparr>bw_running := r\<rparr>) = bw_did good dn b"
  by (simp_all add: bw_did_def)

lemma writeItem_did:
  assumes "bw_did good dn b" and "writeItem (recorder good) i (n, b, w) = (n', b', w')"
  shows "bw_did good (dn @ [i]) b' \<and> w' = w @ [item_text i] \<and> bw_queue b' = bw_queue b \<and> bw_buffer b' = bw_buffer b \<and>
    bw_enqueued b' = bw_enqueued b \<and> bw_batch_size b' = bw_batch_size b"
proof -
  obtain d where d: "bw_db b = Some (Pg d)" "pg_conn d = Some ()" "db_connected d" using assms(1) by (auto simp: bw_did_def)
  show ?thesis using assms d
    by (cases "good (item_text i)")
      (auto simp: writeItem_def pg_execute_def pg_run_def recorder_def bw_did_def item_text_def)
qed

lemma writeItems_did:
  "bw_did good dn b \<Longrightarrow> fold (writeItem (recorder good)) is (n, b, w) = (n', b', w') \<Longrightarrow>
   bw_did good (dn @ is) b' \<and> w' = w @ map item_text is \<and> bw_queue b' = bw_queue b \<and> bw_buffer b' = bw_buffer b \<and>
   bw_enqueued b' = bw_enqueued b \<and> bw_batch_size b' = bw_batch_size b"
proof (induction "is" arbitrary: dn n b w)
  case (Cons i "is")
  obtain n1 b1 w1 where one: "writeItem (recorder good) i (n, b, w) = (n1, b1, w1)" by (metis prod_cases3)
  note W = writeItem_did [OF Cons.prems(1) one]
  show ?case using Cons.IH [of "dn @ [i]" b1 n1 w1] Cons.prems(2) W one by simp
qed simp

lemmas writeBatch_did = writeItems_did [where n = 0, folded writeBatch_def]

lemma bq_pop_all_list: "bq_inv q \<Longrightarrow> bq_pop_all q = (xs, q') \<Longrightarrow> xs = bq_list q \<and> bq_inv q' \<and> bq_list q' = [] \<and> bq_closed q' = bq_closed q"
proof (induction q arbitrary: xs q' rule: bq_pop_all.induct)
  case (1 q)
  show ?case
  proof (cases rule: bq.pop_cases [OF "1.prems"(1), case_names empty some])
    case empty
    then show ?thesis using "1.prems" bq_pop_all.simps [of q] by simp
  next
    case (some y q1)
    obtain ys q2 where r: "bq_pop_all q1 = (ys, q2)" by (cases "bq_pop_all q1")
    then have "xs = y # ys" "q' = q2" using "1.prems"(2) some(2) bq_pop_all.simps [of q] by simp_all
    then show ?thesis using "1.IH" [OF some(2) [symmetric] refl some(3) r] some by simp
  qed
qed

datatype bw_op = Enqueue PersistItem | Pass | Flush

fun bw_exec :: "('c, 'w) libpq \<Rightarrow> bw_op \<Rightarrow> PersistItem list \<times> 'c BatchWriter \<times> 'w \<Rightarrow> PersistItem list \<times> 'c BatchWriter \<times> 'w" where
  "bw_exec pq (Enqueue i) (acc, b, w) = (case bw_enqueue i b of (r, b) \<Rightarrow> (if Result_ok r then acc @ [i] else acc, b, w))"
| "bw_exec pq Pass (acc, b, w) = (acc, bw_run_once pq b w)"
| "bw_exec pq Flush (acc, b, w) = (acc, snd (bw_flush pq b w))"

text \<open>The invariant of a run: what was accepted is what reached the database, then the buffer, then the queue.\<close>

definition bw_inv :: "(string \<Rightarrow> bool) \<Rightarrow> string list \<Rightarrow> PersistItem list \<times> unit BatchWriter \<times> string list \<Rightarrow> bool" where
  "bw_inv good w0 s \<longleftrightarrow>
     (case s of (acc, b, w) \<Rightarrow>
        bq_inv (bw_queue b) \<and> bw_enqueued b = of_nat (length acc) \<and>
        (\<exists>dn. bw_did good dn b \<and> w = w0 @ map item_text dn \<and> acc = dn @ bw_buffer b @ bq_list (bw_queue b)))"

lemma bw_inv_flush:
  assumes "bw_inv good w0 (acc, b, w)" and "bw_flush (recorder good) b w = (n, b', w')"
  shows "bw_inv good w0 (acc, b', w') \<and> bw_buffer b' = [] \<and> bq_list (bw_queue b') = [] \<and> bw_did good acc b' \<and>
    w' = w0 @ map item_text acc \<and> bq_closed (bw_queue b') = bq_closed (bw_queue b)"
proof -
  obtain dn where dn: "bw_did good dn b" "w = w0 @ map item_text dn" "acc = dn @ bw_buffer b @ bq_list (bw_queue b)"
    "bq_inv (bw_queue b)" "bw_enqueued b = of_nat (length acc)"
    using assms(1) by (auto simp: bw_inv_def)
  obtain xs q where p: "bq_pop_all (bw_queue b) = (xs, q)" by (cases "bq_pop_all (bw_queue b)")
  note P = bq_pop_all_list [OF dn(4) p]
  have "writeBatch (recorder good) (bw_buffer b @ xs) (b\<lparr>bw_buffer := [], bw_queue := q\<rparr>) w = (n, b', w')"
    using assms(2) p by (simp add: bw_flush_def)
  note W = writeBatch_did [OF _ this, of dn]
  show ?thesis using W P dn by (auto simp: bw_inv_def)
qed

lemma bw_inv_pass:
  assumes inv: "bw_inv good w0 (acc, b, w)" and run: "bw_run_once (recorder good) b w = (b', w')"
  shows "bw_inv good w0 (acc, b', w')"
proof -
  obtain dn where dn: "bw_did good dn b" "w = w0 @ map item_text dn" "acc = dn @ bw_buffer b @ bq_list (bw_queue b)"
    "bq_inv (bw_queue b)" "bw_enqueued b = of_nat (length acc)"
    using inv by (auto simp: bw_inv_def)
  show ?thesis
  proof (cases rule: bq.pop_cases [OF dn(4), case_names empty some])
    case empty
    obtain n b1 w1 where f: "bw_flush (recorder good) b w = (n, b1, w1)" by (metis prod_cases3)
    show ?thesis using run inv bw_inv_flush [OF inv f] empty f
      by (simp add: bw_run_once_def bq_pop_eq split: if_splits)
  next
    case (some i q)
    let ?buf = "bw_buffer b @ [i]" and ?b = "b\<lparr>bw_queue := q\<rparr>"
    obtain n b1 w1 where f: "writeBatch (recorder good) ?buf (?b\<lparr>bw_buffer := []\<rparr>) w = (n, b1, w1)" by (metis prod_cases3)
    show ?thesis
    proof (cases "length ?buf \<ge> bw_batch_size b")
      case True
      then have "b' = b1" "w' = w1" using run some(2) f by (simp_all add: bw_run_once_def bq_pop_eq)
      then show ?thesis using writeBatch_did [OF _ f, of dn] dn some by (auto simp: bw_inv_def)
    next
      case False
      then have "b' = ?b\<lparr>bw_buffer := ?buf\<rparr>" "w' = w" using run some(2) by (simp_all add: bw_run_once_def bq_pop_eq)
      then show ?thesis using dn some by (auto simp: bw_inv_def)
    qed
  qed
qed

lemma bw_inv_enqueue:
  assumes inv: "bw_inv good w0 (acc, b, w)"
  shows "bw_inv good w0 (bw_exec (recorder good) (Enqueue i) (acc, b, w))"
proof -
  have q: "bq_inv (bw_queue b)" using inv by (simp add: bw_inv_def)
  obtain dn where dn: "bw_did good dn b" "w = w0 @ map item_text dn" "acc = dn @ bw_buffer b @ bq_list (bw_queue b)"
    "bw_enqueued b = of_nat (length acc)"
    using inv by (auto simp: bw_inv_def)
  show ?thesis
  proof (cases rule: bq.push_cases [OF q, of i, case_names full ok])
    case full
    have "bw_exec (recorder good) (Enqueue i) (acc, b, w) = (acc, b\<lparr>bw_queue := bw_queue b, bw_drops := bw_drops b + 1\<rparr>, w)"
      using full(1) by (simp add: bw_enqueue_def)
    then show ?thesis using dn q by (auto simp: bw_inv_def)
  next
    case (ok q')
    have "bw_exec (recorder good) (Enqueue i) (acc, b, w) =
        (acc @ [i], b\<lparr>bw_queue := q', bw_enqueued := bw_enqueued b + 1\<rparr>, w)"
      using ok(1) by (simp add: bw_enqueue_def)
    then show ?thesis using dn ok by (auto simp: bw_inv_def)
  qed
qed

lemma bw_inv_exec: "bw_inv good w0 s \<Longrightarrow> bw_inv good w0 (bw_exec (recorder good) op s)"
proof -
  assume inv: "bw_inv good w0 s"
  obtain acc b w where s: "s = (acc, b, w)" by (metis prod_cases3)
  note inv = inv [unfolded s]
  show ?thesis
  proof (cases op)
    case (Enqueue i)
    show ?thesis unfolding s Enqueue by (rule bw_inv_enqueue [OF inv])
  next
    case Pass
    obtain b' w' where p: "bw_run_once (recorder good) b w = (b', w')" by (cases "bw_run_once (recorder good) b w")
    show ?thesis using bw_inv_pass [OF inv p] by (simp add: s Pass p)
  next
    case Flush
    obtain n b' w' where f: "bw_flush (recorder good) b w = (n, b', w')" by (metis prod_cases3)
    show ?thesis using conjunct1 [OF bw_inv_flush [OF inv f]] by (simp add: s Flush f)
  qed
qed

lemma bw_inv_run: "bw_inv good w0 s \<Longrightarrow> bw_inv good w0 (fold (bw_exec (recorder good)) ops s)"
  by (induction ops arbitrary: s) (simp_all add: bw_inv_exec)

text \<open>The batch writer writes everything it accepted, once and in the order of acceptance. After any sequence of enqueues, passes of
  the worker and flushes, stopping the writer has sent the database exactly the statements of the accepted items, in
  order, over any capacity, any batch size and any pattern of refused statements; nothing is left in the buffer or the queue, and
  the counters of written and failed items are right.\<close>

theorem batch_writer_in_order:
  assumes "pg_conn d = Some ()" and "db_connected d"
    and "fold (bw_exec (recorder good)) ops ([], BatchWriter_new i0 (Some (Pg d)) batchSize cap, w) = (acc, b, w1)"
    and "bw_stop (recorder good) b w1 = (b', w')"
  shows "w' = w @ map item_text acc \<and> bw_buffer b' = [] \<and> bq_list (bw_queue b') = [] \<and> bq_closed (bw_queue b') \<and>
    bw_enqueued b' = of_nat (length acc) \<and>
    bw_written b' = of_nat (length (filter (\<lambda>i. good (item_text i)) acc)) \<and>
    bw_errors b' = of_nat (length (filter (\<lambda>i. \<not> good (item_text i)) acc))"
proof -
  have "bw_inv good w ([], BatchWriter_new i0 (Some (Pg d)) batchSize cap, w)"
    using assms(1,2) by (simp add: bw_inv_def BatchWriter_new_def bw_did_def)
  from bw_inv_run [OF this, of ops] have "bw_inv good w (acc, b, w1)" by (simp add: assms(3))
  then have inv: "bw_inv good w (acc, b\<lparr>bw_running := False, bw_queue := bq_close (bw_queue b)\<rparr>, w1)"
    using bq_close_keeps [of "bw_queue b"] by (simp add: bw_inv_def)
  obtain n where "bw_flush (recorder good) (b\<lparr>bw_running := False, bw_queue := bq_close (bw_queue b)\<rparr>) w1 = (n, b', w')"
    using assms(4) by (cases "bw_flush (recorder good) (b\<lparr>bw_running := False, bw_queue := bq_close (bw_queue b)\<rparr>) w1") (simp add: bw_stop_def)
  note F = bw_inv_flush [OF inv this]
  have "bw_enqueued b' = of_nat (length acc)" using conjunct1 [OF F] by (simp add: bw_inv_def)
  then show ?thesis using conjunct2 [OF F] by (simp add: bw_did_def bq_close_def)
qed

text \<open>The flush of an idle pass never happens: the buffer is emptied as soon as it holds a batch. Items of an unfinished batch
  therefore wait for further items or for the end of the writer.\<close>

lemma writeItem_frame:
  "writeItem pq i (n, b, w) = (n', b', w') \<Longrightarrow> bw_buffer b' = bw_buffer b \<and> bw_batch_size b' = bw_batch_size b"
  by (auto simp: writeItem_def bw_offline_def split: option.splits if_splits prod.splits)

lemma writeBatch_frame:
  "fold (writeItem pq) is (n, b, w) = (n', b', w') \<Longrightarrow> bw_buffer b' = bw_buffer b \<and> bw_batch_size b' = bw_batch_size b"
proof (induction "is" arbitrary: n b w)
  case (Cons i "is")
  obtain n1 b1 w1 where one: "writeItem pq i (n, b, w) = (n1, b1, w1)" by (metis prod_cases3)
  then show ?case using Cons writeItem_frame [OF one] by simp
qed simp

lemma writeBatch_buffer [simp]:
  "bw_buffer (fst (snd (writeBatch pq is b w))) = bw_buffer b" "bw_batch_size (fst (snd (writeBatch pq is b w))) = bw_batch_size b"
  using writeBatch_frame [of pq "is" 0 b w] by (cases "writeBatch pq is b w"; simp add: writeBatch_def)+

lemma buffer_below_batch:
  assumes "0 < bw_batch_size b" and "length (bw_buffer b) < bw_batch_size b" and "bw_exec pq op (acc, b, w) = (acc', b', w')"
  shows "bw_batch_size b' = bw_batch_size b \<and> length (bw_buffer b') < bw_batch_size b'"
proof -
  have b': "b' = fst (snd (bw_exec pq op (acc, b, w)))" by (simp add: assms(3))
  show ?thesis using assms(1,2) unfolding b'
    by (cases op) (auto simp: bw_enqueue_def bw_run_once_def bw_flush_def Let_def split: prod.splits bool.splits option.splits)
qed

definition demo_stored :: "string \<Rightarrow> PersistItem" where
  "demo_stored sql =
     \<lparr>pi_kind = Pk_Outbox,
      pi_round = \<lparr>cr_gameId = [], cr_multiplier = Fin 0, cr_hash = [], cr_salt = [], cr_beganAtMs = 0, cr_crashedAtMs = 0,
        cr_sequence = 0, cr_hasHash = False, cr_hasSalt = False\<rparr>,
      pi_prediction = \<lparr>pe_predictionId = [], pe_targetRoundId = [], pe_gameId = [], pe_decision = Dec_Skip, pe_confidence = Fin 0,
        pe_probability = Fin 0, pe_entryMult = Fin 0, pe_targetMult = Fin 0, pe_createdAtMs = 0, pe_createdAtNs = 0,
        pe_correlationId = [], pe_modelVersion = [], pe_delivered = False\<rparr>,
      pi_outcome = \<lparr>oc_predictionId = [], oc_roundId = [], oc_result = Out_Pending, oc_actualMult = Fin 0, oc_targetMult = Fin 0,
        oc_resolvedAtMs = 0, oc_isWin = False\<rparr>,
      pi_outboxSql = sql\<rparr>"

definition demo_writer :: "unit BatchWriter" where
  "demo_writer = BatchWriter_new (demo_stored []) (Some (Pg demo_pg)) 2 2"

definition demo_ops :: "bw_op list" where
  "demo_ops = [Enqueue (demo_stored ''a''), Enqueue (demo_stored ''b''), Enqueue (demo_stored ''x''), Pass, Enqueue (demo_stored ''c'')]"

lemma demo_run: "fst (fold (bw_exec (recorder (\<lambda>s. s \<noteq> ''b''))) demo_ops ([], demo_writer, [])) = map demo_stored [''a'', ''b'', ''c'']"
  by (simp add: demo_ops_def demo_writer_def BatchWriter_new_def BoundedQueue_new_def bw_enqueue_def bq_try_push_def bq_store_def
      bw_run_once_def bq_pop_def bq_take_def)

theorem batch_writer_in_order_witness:
  "case fold (bw_exec (recorder (\<lambda>s. s \<noteq> ''b''))) demo_ops ([], demo_writer, []) of (acc, b, w1) \<Rightarrow>
     (case bw_stop (recorder (\<lambda>s. s \<noteq> ''b'')) b w1 of (b', w') \<Rightarrow>
        w' = [''a'', ''b'', ''c''] \<and> bw_written b' = 2 \<and> bw_errors b' = 1)"
proof -
  obtain acc b w1 where r: "fold (bw_exec (recorder (\<lambda>s. s \<noteq> ''b''))) demo_ops ([], demo_writer, []) = (acc, b, w1)"
    by (metis prod_cases3)
  obtain b' w' where t: "bw_stop (recorder (\<lambda>s. s \<noteq> ''b'')) b w1 = (b', w')" by (cases "bw_stop (recorder (\<lambda>s. s \<noteq> ''b'')) b w1")
  have acc: "acc = map demo_stored [''a'', ''b'', ''c'']" using demo_run r by simp
  have tx: "item_text (demo_stored s) = c_str s" for s by (simp add: item_text_def item_sql_def demo_stored_def)
  show ?thesis
    using batch_writer_in_order [OF _ _ r [unfolded demo_writer_def] t]
    by (simp add: r t acc tx demo_pg_def)
qed

end
