(* ===== verification/Repos.thy ===== *)
theory Repos
  imports Database
begin

text \<open>
  The repositories of \<open>include/persistence/repositories\<close>: rounds, predictions and outcomes behind the interface
  \<open>Repository<T, Id>\<close> (\<open>include/persistence/repository.hpp\<close>), each a cache in front of the database. \<open>std::atof\<close> is an argument, as is
  the iteration order of the cache.
\<close>

section \<open>Rows\<close>

text \<open>The cast of an integer to \<open>PredictionDecision\<close>; above two there is no enumerator.\<close>

definition PredictionDecision_of :: "int \<Rightarrow> PredictionDecision" where
  "PredictionDecision_of n =
     (if n mod 256 = 0 then Dec_Skip else if n mod 256 = 1 then Dec_Enter else if n mod 256 = 2 then Dec_Hold else undefined)"

fun rowToEvent :: "(string \<Rightarrow> double) \<Rightarrow> string list \<Rightarrow> PredictionEvent option" where
  "rowToEvent atof (a # b # c # d # e # f # g # h # i # j # _) =
     Some \<lparr>pe_predictionId = a, pe_targetRoundId = b, pe_gameId = c, pe_decision = PredictionDecision_of (strtoll d),
           pe_confidence = atof (c_str e), pe_probability = Fin 0, pe_entryMult = atof (c_str f), pe_targetMult = atof (c_str g),
           pe_createdAtMs = strtoll j, pe_createdAtNs = 0, pe_correlationId = h, pe_modelVersion = i, pe_delivered = False\<rparr>"
| "rowToEvent atof _ = None"

definition outcome_of_name :: "string \<Rightarrow> PredictionOutcome" where
  "outcome_of_name s =
     (if s = ''Win'' then Out_Win else if s = ''Loss'' then Out_Loss else if s = ''Void'' then Out_Void
      else if s = ''Stale'' then Out_Stale else if s = ''Duplicate'' then Out_Duplicate else Out_Pending)"

fun rowToOutcome :: "(string \<Rightarrow> double) \<Rightarrow> string list \<Rightarrow> Outcome option" where
  "rowToOutcome atof (a # b # c # d # e # f # g # _) =
     Some \<lparr>oc_predictionId = a, oc_roundId = b, oc_result = outcome_of_name c, oc_actualMult = atof (c_str d),
           oc_targetMult = atof (c_str e), oc_resolvedAtMs = strtoll g,
           oc_isWin = (f = ''t'' \<or> f = ''true'' \<or> f = ''TRUE'' \<or> f = ''1'')\<rparr>"
| "rowToOutcome atof _ = None"

fun rowToRound :: "(string \<Rightarrow> double) \<Rightarrow> string list \<Rightarrow> CrashRound option" where
  "rowToRound atof (a # b # c # d # e # f # g # _) =
     Some \<lparr>cr_gameId = a, cr_multiplier = atof (c_str b), cr_hash = c, cr_salt = d, cr_beganAtMs = strtoll e,
           cr_crashedAtMs = strtoll f, cr_sequence = word_of_int (strtoll g), cr_hasHash = (c \<noteq> []), cr_hasSalt = (d \<noteq> [])\<rparr>"
| "rowToRound atof _ = None"

section \<open>The shape the three repositories share\<close>

text \<open>A lookup: the cache, then the database; a row found is cached under the id asked for. A failed query is an absent
  row.\<close>

definition cached_find :: "('c, 'w) libpq \<Rightarrow> (string list \<Rightarrow> 'e option) \<Rightarrow> (string \<Rightarrow> string) \<Rightarrow> string \<Rightarrow> (string \<rightharpoonup> 'e) \<Rightarrow> 'c Db \<Rightarrow> 'w \<Rightarrow>
    'e option \<times> (string \<rightharpoonup> 'e) \<times> 'c Db \<times> 'w" where
  "cached_find pq dec sql i cache d w =
     (case cache i of
        Some e \<Rightarrow> (Some e, cache, d, w)
      | None \<Rightarrow>
          if db_up d
          then (case db_query pq (sql i) [] d w of
                  (Inr qr, d, w) \<Rightarrow>
                    (case qr_rows qr of
                       row # _ \<Rightarrow> (case dec row of Some e \<Rightarrow> (Some e, cache(i \<mapsto> e), d, w) | None \<Rightarrow> (None, cache, d, w))
                     | [] \<Rightarrow> (None, cache, d, w))
                | (Inl _, d, w) \<Rightarrow> (None, cache, d, w))
          else (None, cache, d, w))"

text \<open>The rows of a query, decoded and cached in turn.\<close>

definition decode_rows :: "(string list \<Rightarrow> 'e option) \<Rightarrow> ('e \<Rightarrow> string) \<Rightarrow> string list list \<Rightarrow> (string \<rightharpoonup> 'e) \<Rightarrow> 'e list \<times> (string \<rightharpoonup> 'e)" where
  "decode_rows dec key rows cache =
     (let es = List.map_filter dec rows in (es, fold (\<lambda>e m. m(key e \<mapsto> e)) es cache))"

text \<open>The loop over the cache that stops once \<open>limit\<close> entries are out, in the order \<open>ks\<close> of the hash map.\<close>

definition first_cached :: "string list \<Rightarrow> nat \<Rightarrow> (string \<rightharpoonup> 'e) \<Rightarrow> 'e list" where
  "first_cached ks limit cache = take (max limit 1) (List.map_filter cache ks)"

section \<open>The repositories\<close>

record PredictionRepository =
  prp_cache :: "string \<rightharpoonup> PredictionEvent"
  prp_upserts :: u64

record OutcomeRepository =
  oup_cache :: "string \<rightharpoonup> Outcome"
  oup_upserts :: u64
  oup_wins :: u64
  oup_losses :: u64

record CrashRoundRepository =
  crp_cache :: "string \<rightharpoonup> CrashRound"
  crp_upserts :: u64

definition prediction_upsert :: "('c, 'w) libpq \<Rightarrow> PredictionEvent \<Rightarrow> PredictionRepository \<times> 'c Db \<times> 'w \<Rightarrow>
    unit Result \<times> PredictionRepository \<times> 'c Db \<times> 'w" where
  "prediction_upsert pq e s =
     (case s of (r, d, w) \<Rightarrow>
        case db_execute pq (upsertPrediction e) d w of (res, d, w) \<Rightarrow>
          (res, if Result_ok res then r\<lparr>prp_cache := (prp_cache r)(pe_predictionId e \<mapsto> e), prp_upserts := prp_upserts r + 1\<rparr> else r, d, w))"

definition prediction_findById :: "('c, 'w) libpq \<Rightarrow> (string \<Rightarrow> double) \<Rightarrow> string \<Rightarrow> PredictionRepository \<times> 'c Db \<times> 'w \<Rightarrow>
    PredictionEvent option \<times> PredictionRepository \<times> 'c Db \<times> 'w" where
  "prediction_findById pq atof i s =
     (case s of (r, d, w) \<Rightarrow>
        case cached_find pq (rowToEvent atof) selectPredictionById i (prp_cache r) d w of (e, m, d, w) \<Rightarrow> (e, r\<lparr>prp_cache := m\<rparr>, d, w))"

definition prediction_findRecent :: "('c, 'w) libpq \<Rightarrow> (string \<Rightarrow> double) \<Rightarrow> string list \<Rightarrow> nat \<Rightarrow> PredictionRepository \<times> 'c Db \<times> 'w \<Rightarrow>
    PredictionEvent list \<times> PredictionRepository \<times> 'c Db \<times> 'w" where
  "prediction_findRecent pq atof ks limit s =
     (case s of (r, d, w) \<Rightarrow>
        if \<not> db_up d then (first_cached ks limit (prp_cache r), r, d, w)
        else case db_query pq (selectRecentPredictions (of_nat limit)) [] d w of
               (Inl _, d, w) \<Rightarrow> (first_cached ks limit (prp_cache r), r, d, w)
             | (Inr qr, d, w) \<Rightarrow>
                 (case decode_rows (rowToEvent atof) pe_predictionId (qr_rows qr) (prp_cache r) of (es, m) \<Rightarrow>
                    (if es \<noteq> [] then es else first_cached ks limit m, r\<lparr>prp_cache := m\<rparr>, d, w)))"

definition prediction_findByRound :: "('c, 'w) libpq \<Rightarrow> (string \<Rightarrow> double) \<Rightarrow> string list \<Rightarrow> string \<Rightarrow> PredictionRepository \<times> 'c Db \<times> 'w \<Rightarrow>
    PredictionEvent list \<times> PredictionRepository \<times> 'c Db \<times> 'w" where
  "prediction_findByRound pq atof ks rid s =
     (case s of (r, d, w) \<Rightarrow>
        let cached = filter (\<lambda>e. pe_targetRoundId e = rid) (List.map_filter (prp_cache r) ks)
        in if \<not> db_up d then (cached, r, d, w)
           else case db_query pq (selectPredictionsByRound rid) [] d w of
                  (Inl _, d, w) \<Rightarrow> (cached, r, d, w)
                | (Inr qr, d, w) \<Rightarrow>
                    (case decode_rows (rowToEvent atof) pe_predictionId (qr_rows qr) (prp_cache r) of (es, m) \<Rightarrow> (es, r\<lparr>prp_cache := m\<rparr>, d, w)))"

definition outcome_upsert :: "('c, 'w) libpq \<Rightarrow> Outcome \<Rightarrow> OutcomeRepository \<times> 'c Db \<times> 'w \<Rightarrow> unit Result \<times> OutcomeRepository \<times> 'c Db \<times> 'w" where
  "outcome_upsert pq oc s =
     (case s of (r, d, w) \<Rightarrow>
        case db_execute pq (upsertOutcome oc) d w of (res, d, w) \<Rightarrow>
          (res,
           if Result_ok res
           then let r = r\<lparr>oup_cache := (oup_cache r)(oc_predictionId oc \<mapsto> oc), oup_upserts := oup_upserts r + 1\<rparr>
                in if oc_isWin oc then r\<lparr>oup_wins := oup_wins r + 1\<rparr>
                   else if oc_result oc = Out_Loss then r\<lparr>oup_losses := oup_losses r + 1\<rparr> else r
           else r, d, w))"

definition outcome_findById :: "('c, 'w) libpq \<Rightarrow> (string \<Rightarrow> double) \<Rightarrow> string \<Rightarrow> OutcomeRepository \<times> 'c Db \<times> 'w \<Rightarrow>
    Outcome option \<times> OutcomeRepository \<times> 'c Db \<times> 'w" where
  "outcome_findById pq atof i s =
     (case s of (r, d, w) \<Rightarrow>
        case cached_find pq (rowToOutcome atof) selectOutcomeById i (oup_cache r) d w of (e, m, d, w) \<Rightarrow> (e, r\<lparr>oup_cache := m\<rparr>, d, w))"

definition outcome_findRecent :: "string list \<Rightarrow> nat \<Rightarrow> OutcomeRepository \<Rightarrow> Outcome list" where
  "outcome_findRecent ks limit r = first_cached ks limit (oup_cache r)"

definition round_upsert :: "('c, 'w) libpq \<Rightarrow> CrashRound \<Rightarrow> CrashRoundRepository \<times> 'c Db \<times> 'w \<Rightarrow> unit Result \<times> CrashRoundRepository \<times> 'c Db \<times> 'w" where
  "round_upsert pq x s =
     (case s of (r, d, w) \<Rightarrow>
        case db_execute pq (upsertCrashRound x) d w of (res, d, w) \<Rightarrow>
          (res, if Result_ok res then r\<lparr>crp_cache := (crp_cache r)(cr_gameId x \<mapsto> x), crp_upserts := crp_upserts r + 1\<rparr> else r, d, w))"

definition round_findById :: "('c, 'w) libpq \<Rightarrow> (string \<Rightarrow> double) \<Rightarrow> string \<Rightarrow> CrashRoundRepository \<times> 'c Db \<times> 'w \<Rightarrow>
    CrashRound option \<times> CrashRoundRepository \<times> 'c Db \<times> 'w" where
  "round_findById pq atof i s =
     (case s of (r, d, w) \<Rightarrow>
        case cached_find pq (rowToRound atof) selectCrashRoundById i (crp_cache r) d w of (e, m, d, w) \<Rightarrow> (e, r\<lparr>crp_cache := m\<rparr>, d, w))"

definition round_findRecent :: "('c, 'w) libpq \<Rightarrow> (string \<Rightarrow> double) \<Rightarrow> string list \<Rightarrow> nat \<Rightarrow> CrashRoundRepository \<times> 'c Db \<times> 'w \<Rightarrow>
    CrashRound list \<times> CrashRoundRepository \<times> 'c Db \<times> 'w" where
  "round_findRecent pq atof ks limit s =
     (case s of (r, d, w) \<Rightarrow>
        if \<not> db_up d then (first_cached ks limit (crp_cache r), r, d, w)
        else case db_query pq (selectRecentCrashRounds (of_nat limit)) [] d w of
               (Inl _, d, w) \<Rightarrow> (first_cached ks limit (crp_cache r), r, d, w)
             | (Inr qr, d, w) \<Rightarrow>
                 (case decode_rows (rowToRound atof) cr_gameId (qr_rows qr) (crp_cache r) of (es, m) \<Rightarrow>
                    (if es \<noteq> [] then es else first_cached ks limit m, r\<lparr>crp_cache := m\<rparr>, d, w)))"

definition round_of_event :: "CrashEvent \<Rightarrow> CrashRound" where
  "round_of_event ev =
     \<lparr>cr_gameId = (if ev_gameId ev \<noteq> [] then ev_gameId ev else ev_roundId ev),
      cr_multiplier = (if dless (Fin 0) (ev_crashPoint ev) then ev_crashPoint ev else ev_currentMult ev),
      cr_hash = ev_hash ev, cr_salt = [], cr_beganAtMs = ev_beganAtMs ev,
      cr_crashedAtMs = (if ev_endedAtMs ev \<noteq> 0 then ev_endedAtMs ev else if ev_eventTimeMs ev \<noteq> 0 then ev_eventTimeMs ev else 0),
      cr_sequence = ev_sequence ev, cr_hasHash = (ev_hash ev \<noteq> []), cr_hasSalt = False\<rparr>"

definition upsertFromEvent :: "('c, 'w) libpq \<Rightarrow> CrashEvent \<Rightarrow> CrashRoundRepository \<times> 'c Db \<times> 'w \<Rightarrow> unit Result \<times> CrashRoundRepository \<times> 'c Db \<times> 'w" where
  "upsertFromEvent pq ev s =
     (if ev_kind ev \<noteq> Ev_End \<or> \<not> ev_valid ev
      then (Inl (mkError EC_InvalidArgument ''upsertFromEvent requires valid End''), s)
      else round_upsert pq (round_of_event ev) s)"

section \<open>What a repository promises\<close>

text \<open>A sequence of stores (left) and lookups (right).\<close>

fun repo_run :: "('e \<Rightarrow> 's \<Rightarrow> unit Result \<times> 's) \<Rightarrow> (string \<Rightarrow> 's \<Rightarrow> 'e option \<times> 's) \<Rightarrow> ('e + string) list \<Rightarrow> 's \<Rightarrow> 's" where
  "repo_run up fd [] s = s"
| "repo_run up fd (Inl e # ops) s = repo_run up fd ops (snd (up e s))"
| "repo_run up fd (Inr i # ops) s = repo_run up fd ops (snd (fd i s))"

text \<open>The contract behind \<open>Repository<T, Id>\<close>: a stored entity is found again; a failed store changes nothing; a lookup
  neither forgets nor replaces what is remembered.\<close>

locale repository =
  fixes upsert :: "'e \<Rightarrow> 's \<Rightarrow> unit Result \<times> 's"
    and findById :: "string \<Rightarrow> 's \<Rightarrow> 'e option \<times> 's"
    and remembered :: "'s \<Rightarrow> (string \<rightharpoonup> 'e)"
    and key :: "'e \<Rightarrow> string"
  assumes upsert_stores: "upsert e s = (Inr u, s') \<Longrightarrow> remembered s' = (remembered s)(key e \<mapsto> e)"
    and upsert_fails: "upsert e s = (Inl x, s') \<Longrightarrow> remembered s' = remembered s"
    and find_hits: "remembered s i = Some e \<Longrightarrow> findById i s = (Some e, s)"
    and find_keeps: "findById i s = (r, s') \<Longrightarrow> remembered s \<subseteq>\<^sub>m remembered s' \<and> remembered s' i = r"
begin

lemma upsert_keeps: "key e \<noteq> i \<Longrightarrow> remembered s i = Some x \<Longrightarrow> remembered (snd (upsert e s)) i = Some x"
proof -
  assume a: "key e \<noteq> i" "remembered s i = Some x"
  obtain r s' where u: "upsert e s = (r, s')" by (cases "upsert e s")
  then show ?thesis using a upsert_stores upsert_fails by (cases r) auto
qed

lemma run_keeps:
  "\<forall>e. Inl e \<in> set ops \<longrightarrow> key e \<noteq> i \<Longrightarrow> remembered s i = Some x \<Longrightarrow> remembered (repo_run upsert findById ops s) i = Some x"
proof (induction ops arbitrary: s)
  case (Cons op ops)
  show ?case
  proof (cases op)
    case (Inl e)
    then show ?thesis using Cons upsert_keeps [of e i s x] by simp
  next
    case (Inr j)
    obtain r s' where f: "findById j s = (r, s')" by (cases "findById j s")
    then have "remembered s' i = Some x" using find_keeps Cons.prems(2) by (fastforce simp: map_le_def dom_def)
    then show ?thesis using Cons Inr f by simp
  qed
qed simp

lemma read_your_writes:
  assumes "upsert e s = (Inr u, s')" and "\<forall>e'. Inl e' \<in> set ops \<longrightarrow> key e' \<noteq> key e"
  shows "findById (key e) (repo_run upsert findById ops s') = (Some e, repo_run upsert findById ops s')"
  using run_keeps [OF assms(2), of s' e] upsert_stores [OF assms(1)] find_hits by simp

lemma repeatable_read:
  assumes "findById i s = (Some e, s')" and "\<forall>e'. Inl e' \<in> set ops \<longrightarrow> key e' \<noteq> i"
  shows "findById i (repo_run upsert findById ops s') = (Some e, repo_run upsert findById ops s')"
  using run_keeps [OF assms(2), of s' e] find_keeps [OF assms(1)] find_hits by simp

end

lemma cached_find_hit: "m i = Some e \<Longrightarrow> cached_find pq dec sql i m d w = (Some e, m, d, w)"
  by (simp add: cached_find_def)

lemma cached_find_keeps: "cached_find pq dec sql i m d w = (r, m', d', w') \<Longrightarrow> m \<subseteq>\<^sub>m m' \<and> m' i = r"
  by (auto simp: cached_find_def map_le_def split: option.splits if_splits prod.splits sum.splits list.splits)

interpretation predictions: repository "prediction_upsert pq" "prediction_findById pq atof" "\<lambda>s. prp_cache (fst s)" pe_predictionId
  by unfold_locales
    (auto simp: prediction_upsert_def prediction_findById_def cached_find_hit split: prod.splits if_splits dest: cached_find_keeps)

interpretation outcomes: repository "outcome_upsert pq" "outcome_findById pq atof" "\<lambda>s. oup_cache (fst s)" oc_predictionId
  by unfold_locales
    (auto simp: outcome_upsert_def outcome_findById_def cached_find_hit Let_def split: prod.splits if_splits dest: cached_find_keeps)

interpretation rounds: repository "round_upsert pq" "round_findById pq atof" "\<lambda>s. crp_cache (fst s)" cr_gameId
  by unfold_locales
    (auto simp: round_upsert_def round_findById_def cached_find_hit split: prod.splits if_splits dest: cached_find_keeps)

text \<open>The names of results that \<open>rowToOutcome\<close> knows are not those that \<open>upsertOutcome\<close> stores: what was stored as
  a win or a loss is read back as pending.\<close>

lemma stored_result_lost: "outcome_of_name (outcomeName r) = Out_Pending"
  by (cases r) (simp_all add: outcome_of_name_def)

text \<open>The repositories read what they wrote. A prediction, an outcome or a round whose store succeeded is what a lookup of its id
  returns, without touching the database, after any further stores of other ids and any lookups, whatever the database
  answers to them.\<close>

theorem repository_reads_writes:
  assumes "prediction_upsert pq e s = (Inr u, s')" and "\<forall>x. Inl x \<in> set ops \<longrightarrow> pe_predictionId x \<noteq> pe_predictionId e"
    and "outcome_upsert pq oc t = (Inr u, t')" and "\<forall>x. Inl x \<in> set ops1 \<longrightarrow> oc_predictionId x \<noteq> oc_predictionId oc"
    and "round_upsert pq r v = (Inr u, v')" and "\<forall>x. Inl x \<in> set ops2 \<longrightarrow> cr_gameId x \<noteq> cr_gameId r"
  shows "let z = repo_run (prediction_upsert pq) (prediction_findById pq atof) ops s'
         in prediction_findById pq atof (pe_predictionId e) z = (Some e, z)"
    and "let z = repo_run (outcome_upsert pq) (outcome_findById pq atof) ops1 t'
         in outcome_findById pq atof (oc_predictionId oc) z = (Some oc, z)"
    and "let z = repo_run (round_upsert pq) (round_findById pq atof) ops2 v'
         in round_findById pq atof (cr_gameId r) z = (Some r, z)"
  unfolding Let_def
  by (rule predictions.read_your_writes [OF assms(1,2)] outcomes.read_your_writes [OF assms(3,4)] rounds.read_your_writes [OF assms(5,6)])+

end
