(* ===== verification/Mpsc.thy ===== *)
theory Mpsc
  imports Queues
begin

text \<open>
  \<open>MpscQueue\<close> (\<open>include/concurrency/mpsc_queue.hpp\<close>): a bounded ring for many producers and one consumer without locks. Each
  slot has a sequence number that says whose turn it is. A call is a sequence of atomic steps, one per access to shared memory,
  and any number of producers are interleaved with the consumer; the accesses are sequentially consistent, which the
  acquire and release orders of the code give for the data of a slot. Positions are machine words.
\<close>

section \<open>The queue and its atomic steps\<close>

record 'a MpscQueue =
  mq_cap :: u64
  mq_mask :: u64
  mq_slots :: "(u64 \<times> 'a) list"
  mq_head :: u64
  mq_tail :: u64
  mq_pushes :: u64
  mq_pops :: u64

text \<open>The constructor; its loop is that of \<open>SpscQueue\<close>. \<open>d\<close> is the value-initialised datum of a slot.\<close>

definition MpscQueue_new :: "'a \<Rightarrow> u64 \<Rightarrow> 'a MpscQueue option" where
  "MpscQueue_new d capacity_pow2 =
     (case spsc_grow capacity_pow2 2 of
        None \<Rightarrow> None
      | Some c \<Rightarrow> Some \<lparr>mq_cap = c, mq_mask = c - 1, mq_slots = map (\<lambda>i. (of_nat i, d)) [0..<unat c],
                        mq_head = 0, mq_tail = 0, mq_pushes = 0, mq_pops = 0\<rparr>)"

definition mq_idx :: "'a MpscQueue \<Rightarrow> u64 \<Rightarrow> nat" where
  "mq_idx q pos = unat (pos AND mq_mask q)"

definition mq_seq :: "'a MpscQueue \<Rightarrow> u64 \<Rightarrow> u64" where
  "mq_seq q pos = fst (mq_slots q ! mq_idx q pos)"

definition mq_data :: "'a MpscQueue \<Rightarrow> u64 \<Rightarrow> 'a" where
  "mq_data q pos = snd (mq_slots q ! mq_idx q pos)"

definition mq_set_seq :: "u64 \<Rightarrow> u64 \<Rightarrow> 'a MpscQueue \<Rightarrow> 'a MpscQueue" where
  "mq_set_seq pos v q = q\<lparr>mq_slots := (mq_slots q)[mq_idx q pos := (v, mq_data q pos)]\<rparr>"

definition mq_set_data :: "u64 \<Rightarrow> 'a \<Rightarrow> 'a MpscQueue \<Rightarrow> 'a MpscQueue" where
  "mq_set_data pos x q = q\<lparr>mq_slots := (mq_slots q)[mq_idx q pos := (mq_seq q pos, x)]\<rparr>"

text \<open>Where a call of \<open>try_push\<close> stands: before its first load of the tail, in the loop with a position, with the sequence number
  of the slot read, with the position claimed, with the datum written, with the slot published, returned.\<close>

datatype 'a producer =
    P_Start 'a
  | P_Loop 'a u64
  | P_Check 'a u64 u64
  | P_Claimed 'a u64
  | P_Written u64
  | P_Published
  | P_Done bool

text \<open>One step. \<open>compare_exchange_weak\<close> may fail although the tail is as expected (\<open>spurious\<close>); when it fails it loads the tail.\<close>

fun push_step :: "bool \<Rightarrow> 'a producer \<Rightarrow> 'a MpscQueue \<Rightarrow> 'a producer \<times> 'a MpscQueue" where
  "push_step spurious (P_Start x) q = (P_Loop x (mq_tail q), q)"
| "push_step spurious (P_Loop x pos) q = (P_Check x pos (mq_seq q pos), q)"
| "push_step spurious (P_Check x pos sq) q =
     (let dif = sint sq - sint pos
      in if dif = 0
         then if mq_tail q = pos \<and> \<not> spurious then (P_Claimed x pos, q\<lparr>mq_tail := pos + 1\<rparr>) else (P_Loop x (mq_tail q), q)
         else if dif < 0 then (P_Done False, q)
         else (P_Loop x (mq_tail q), q))"
| "push_step spurious (P_Claimed x pos) q = (P_Written pos, mq_set_data pos x q)"
| "push_step spurious (P_Written pos) q = (P_Published, mq_set_seq pos (pos + 1) q)"
| "push_step spurious P_Published q = (P_Done True, q\<lparr>mq_pushes := mq_pushes q + 1\<rparr>)"
| "push_step spurious (P_Done b) q = (P_Done b, q)"

text \<open>The same for \<open>try_pop\<close>; only the consumer writes the head, so its load and the load of the sequence number are one step.\<close>

datatype 'a consumer =
    C_Start
  | C_Ready u64
  | C_Got u64 'a
  | C_Released u64 'a
  | C_Moved 'a
  | C_Done "'a option"

fun pop_step :: "'a consumer \<Rightarrow> 'a MpscQueue \<Rightarrow> 'a consumer \<times> 'a MpscQueue" where
  "pop_step C_Start q =
     (let pos = mq_head q in if mq_seq q pos \<noteq> pos + 1 then (C_Done None, q) else (C_Ready pos, q))"
| "pop_step (C_Ready pos) q = (C_Got pos (mq_data q pos), q)"
| "pop_step (C_Got pos x) q = (C_Released pos x, mq_set_seq pos (pos + mq_mask q + 1) q)"
| "pop_step (C_Released pos x) q = (C_Moved x, q\<lparr>mq_head := pos + 1\<rparr>)"
| "pop_step (C_Moved x) q = (C_Done (Some x), q\<lparr>mq_pops := mq_pops q + 1\<rparr>)"
| "pop_step (C_Done r) q = (C_Done r, q)"

definition mq_size_approx :: "'a MpscQueue \<Rightarrow> u64" where
  "mq_size_approx q = mq_tail q - mq_head q"

section \<open>Interleaved calls\<close>

text \<open>A run: the queue, the producers, the consumer, and two histories: the items in the order their positions were claimed, and
  the items in the order they were taken.\<close>

record 'a mrun =
  mr_q :: "'a MpscQueue"
  mr_prod :: "nat \<Rightarrow> 'a producer"
  mr_cons :: "'a consumer"
  mr_items :: "'a list"
  mr_out :: "'a list"

fun claims :: "'a producer \<Rightarrow> 'a producer \<Rightarrow> 'a list" where
  "claims (P_Check x _ _) (P_Claimed _ _) = [x]"
| "claims _ _ = []"

fun takes :: "'a consumer \<Rightarrow> 'a list" where
  "takes (C_Released _ x) = [x]"
| "takes _ = []"

inductive mstep :: "'a mrun \<Rightarrow> 'a mrun \<Rightarrow> bool" where
  call_push: "mr_prod s i = P_Done b \<Longrightarrow> mstep s (s\<lparr>mr_prod := (mr_prod s)(i := P_Start x)\<rparr>)"
| push: "push_step spurious (mr_prod s i) (mr_q s) = (l, q) \<Longrightarrow>
    mstep s (s\<lparr>mr_q := q, mr_prod := (mr_prod s)(i := l), mr_items := mr_items s @ claims (mr_prod s i) l\<rparr>)"
| call_pop: "mr_cons s = C_Done r \<Longrightarrow> mstep s (s\<lparr>mr_cons := C_Start\<rparr>)"
| pop: "pop_step (mr_cons s) (mr_q s) = (l, q) \<Longrightarrow>
    mstep s (s\<lparr>mr_q := q, mr_cons := l, mr_out := mr_out s @ takes (mr_cons s)\<rparr>)"

inductive mreachable :: "'a \<Rightarrow> u64 \<Rightarrow> 'a mrun \<Rightarrow> bool" for d n where
  start: "MpscQueue_new d n = Some q \<Longrightarrow>
    mreachable d n \<lparr>mr_q = q, mr_prod = (\<lambda>i. P_Done True), mr_cons = C_Done None, mr_items = [], mr_out = []\<rparr>"
| step: "mreachable d n s \<Longrightarrow> mstep s s' \<Longrightarrow> mreachable d n s'"

section \<open>The invariant\<close>

text \<open>Slots by unbounded positions.\<close>

definition sqn :: "'a MpscQueue \<Rightarrow> nat \<Rightarrow> nat" where
  "sqn q p = unat (fst (mq_slots q ! (p mod length (mq_slots q))))"

definition dat :: "'a MpscQueue \<Rightarrow> nat \<Rightarrow> 'a" where
  "dat q p = snd (mq_slots q ! (p mod length (mq_slots q)))"

fun holds :: "'a producer \<Rightarrow> nat \<Rightarrow> bool" where
  "holds (P_Claimed x w) p \<longleftrightarrow> unat w = p"
| "holds (P_Written w) p \<longleftrightarrow> unat w = p"
| "holds _ p \<longleftrightarrow> False"

definition held :: "(nat \<Rightarrow> 'a producer) \<Rightarrow> nat \<Rightarrow> bool" where
  "held ps p \<longleftrightarrow> (\<exists>i. holds (ps i) p)"

fun prod_ok :: "'a MpscQueue \<Rightarrow> 'a list \<Rightarrow> 'a producer \<Rightarrow> bool" where
  "prod_ok q xs (P_Loop x w) \<longleftrightarrow> unat w \<le> length xs"
| "prod_ok q xs (P_Check x w sq) \<longleftrightarrow> unat w \<le> length xs \<and> unat sq \<le> sqn q (unat w)"
| "prod_ok q xs (P_Claimed x w) \<longleftrightarrow> xs ! unat w = x"
| "prod_ok q xs (P_Written w) \<longleftrightarrow> dat q (unat w) = xs ! unat w"
| "prod_ok q xs _ \<longleftrightarrow> True"

fun lag :: "'a consumer \<Rightarrow> nat" where
  "lag (C_Released _ _) = 1"
| "lag _ = 0"

fun cons_ok :: "nat \<Rightarrow> 'a list \<Rightarrow> (nat \<Rightarrow> 'a producer) \<Rightarrow> 'a consumer \<Rightarrow> bool" where
  "cons_ok n xs ps (C_Ready w) \<longleftrightarrow> unat w = n \<and> n < length xs \<and> \<not> held ps n"
| "cons_ok n xs ps (C_Got w x) \<longleftrightarrow> unat w = n \<and> n < length xs \<and> \<not> held ps n \<and> x = xs ! n"
| "cons_ok n xs ps (C_Released w x) \<longleftrightarrow> unat w = n \<and> n < length xs \<and> x = xs ! n"
| "cons_ok n xs ps _ \<longleftrightarrow> True"

text \<open>The slot of a position between the head \<open>h\<close> and a lap above it: free, being filled, or filled.\<close>

definition slot_ok :: "'a MpscQueue \<Rightarrow> 'a list \<Rightarrow> (nat \<Rightarrow> 'a producer) \<Rightarrow> nat \<Rightarrow> bool" where
  "slot_ok q xs ps p \<longleftrightarrow>
     (if p < length xs \<and> \<not> held ps p then sqn q p = Suc p \<and> dat q p = xs ! p else sqn q p = p)"

definition ring_ok :: "nat \<Rightarrow> 'a MpscQueue \<Rightarrow> bool" where
  "ring_ok k q \<longleftrightarrow> 1 \<le> k \<and> k \<le> 62 \<and> mq_cap q = 2 ^ k \<and> mq_mask q = mask k \<and> length (mq_slots q) = 2 ^ k"

definition minv :: "nat \<Rightarrow> 'a mrun \<Rightarrow> bool" where
  "minv k s \<longleftrightarrow>
     (let q = mr_q s; xs = mr_items s; ps = mr_prod s; n = length (mr_out s); h = n + lag (mr_cons s)
      in ring_ok k q \<and> unat (mq_tail q) = length xs \<and> unat (mq_head q) = n \<and> mr_out s = take n xs \<and>
         h \<le> length xs \<and> length xs \<le> h + 2 ^ k \<and>
         (\<forall>p. h \<le> p \<and> p < h + 2 ^ k \<longrightarrow> slot_ok q xs ps p) \<and>
         (\<forall>i p. holds (ps i) p \<longrightarrow> h \<le> p \<and> p < length xs) \<and>
         (\<forall>i j p. holds (ps i) p \<longrightarrow> holds (ps j) p \<longrightarrow> i = j) \<and>
         (\<forall>i. prod_ok q xs (ps i)) \<and> cons_ok n xs ps (mr_cons s))"

lemma sqn_cong: "mq_slots q' = mq_slots q \<Longrightarrow> sqn q' = sqn q" "mq_slots q' = mq_slots q \<Longrightarrow> dat q' = dat q"
  by (auto simp: sqn_def dat_def)

lemma slots_cong:
  assumes "mq_slots q' = mq_slots q"
  shows "slot_ok q' = slot_ok q" and "prod_ok q' = prod_ok q"
proof -
  show "slot_ok q' = slot_ok q" using sqn_cong [OF assms] by (simp add: slot_ok_def fun_eq_iff)
  have "prod_ok q' xs l = prod_ok q xs l" for xs l using sqn_cong [OF assms] by (cases l) auto
  then show "prod_ok q' = prod_ok q" by blast
qed

lemma mq_idx_mod: "ring_ok k q \<Longrightarrow> mq_idx q w = unat w mod 2 ^ k"
  by (simp add: mq_idx_def ring_ok_def unat_and_mask)

lemma unat_mq_seq: "ring_ok k q \<Longrightarrow> unat (mq_seq q w) = sqn q (unat w)"
  by (simp add: mq_seq_def mq_idx_mod sqn_def) (simp add: ring_ok_def)

lemma mq_data_dat: "ring_ok k q \<Longrightarrow> mq_data q w = dat q (unat w)"
  by (simp add: mq_data_def mq_idx_mod dat_def) (simp add: ring_ok_def)

lemma set_seq_view:
  assumes "ring_ok k q"
  shows "ring_ok k (mq_set_seq w v q)"
    and "sqn (mq_set_seq w v q) p = (if p mod 2 ^ k = unat w mod 2 ^ k then unat v else sqn q p)"
    and "dat (mq_set_seq w v q) p = dat q p"
  using assms by (auto simp: mq_set_seq_def mq_data_def ring_ok_def sqn_def dat_def mq_idx_mod nth_list_update)

lemma set_data_view:
  assumes "ring_ok k q"
  shows "ring_ok k (mq_set_data w x q)"
    and "dat (mq_set_data w x q) p = (if p mod 2 ^ k = unat w mod 2 ^ k then x else dat q p)"
    and "sqn (mq_set_data w x q) p = sqn q p"
  using assms by (auto simp: mq_set_data_def mq_seq_def ring_ok_def sqn_def dat_def mq_idx_mod nth_list_update)

lemma same_slot:
  assumes "p mod n = p' mod n" and "h \<le> p" and "p < h + n" and "h \<le> p'" and "p' < h + (n :: nat)"
  shows "p = p'"
proof -
  have "x mod n = y mod n \<Longrightarrow> h \<le> x \<Longrightarrow> x \<le> y \<Longrightarrow> y < h + n \<Longrightarrow> x = y" for x y
  proof -
    assume a: "x mod n = y mod n" "h \<le> x" "x \<le> y" "y < h + n"
    then have "n dvd y - x" by (metis mod_eq_dvd_iff_nat)
    moreover have "y - x < n" using a by linarith
    ultimately show "x = y" using a(3) nat_dvd_not_less [of "y - x" n] by (cases "y - x = 0") auto
  qed
  from this [of p p'] this [of p' p] assms show ?thesis by (metis nat_le_linear)
qed

lemma held_quiet: "\<forall>p. \<not> holds (ps i) p \<Longrightarrow> \<forall>p. \<not> holds l p \<Longrightarrow> held (ps(i := l)) = held ps"
  by (auto simp: held_def fun_eq_iff)

lemma held_same: "\<forall>p. holds (ps i) p = holds l p \<Longrightarrow> held (ps(i := l)) = held ps"
  unfolding held_def fun_eq_iff by (metis fun_upd_apply)

text \<open>A step of a producer that holds no slot before or after it and writes no slot.\<close>

lemma minv_quiet:
  assumes inv: "minv k s" and quiet: "\<forall>p. \<not> holds (mr_prod s i) p" "\<forall>p. \<not> holds l p"
    and ok: "prod_ok (mr_q s) (mr_items s) l"
    and q: "mq_slots q = mq_slots (mr_q s)" "mq_mask q = mq_mask (mr_q s)" "mq_tail q = mq_tail (mr_q s)" "mq_head q = mq_head (mr_q s)"
      "mq_cap q = mq_cap (mr_q s)"
  shows "minv k (s\<lparr>mr_q := q, mr_prod := (mr_prod s)(i := l)\<rparr>)"
proof -
  have h: "held ((mr_prod s)(i := l)) = held (mr_prod s)" by (rule held_quiet) (use quiet in simp_all)
  have c: "cons_ok n xs ((mr_prod s)(i := l)) c = cons_ok n xs (mr_prod s) c" for n xs c by (cases c) (simp_all add: h)
  have sl: "slot_ok (mr_q s) xs ((mr_prod s)(i := l)) p = slot_ok (mr_q s) xs (mr_prod s) p" for xs p
    by (simp add: slot_ok_def h)
  have r: "ring_ok k q = ring_ok k (mr_q s)" using q by (simp add: ring_ok_def)
  show ?thesis using inv ok quiet unfolding minv_def Let_def
    by (auto simp: r c sl slots_cong [OF q(1)] q)
qed

text \<open>The invariant by name.\<close>

lemma minvD:
  assumes "minv k s"
  defines "n \<equiv> length (mr_out s)" and "h \<equiv> length (mr_out s) + lag (mr_cons s)" and "T \<equiv> length (mr_items s)"
  shows "ring_ok k (mr_q s)" "unat (mq_tail (mr_q s)) = T" "unat (mq_head (mr_q s)) = n" "mr_out s = take n (mr_items s)"
    "h \<le> T" "T \<le> h + 2 ^ k" "h \<le> p \<Longrightarrow> p < h + 2 ^ k \<Longrightarrow> slot_ok (mr_q s) (mr_items s) (mr_prod s) p"
    "holds (mr_prod s i) p \<Longrightarrow> h \<le> p \<and> p < T" "holds (mr_prod s i) p \<Longrightarrow> holds (mr_prod s j) p \<Longrightarrow> i = j"
    "prod_ok (mr_q s) (mr_items s) (mr_prod s i)" "cons_ok n (mr_items s) (mr_prod s) (mr_cons s)"
  using assms(1) unfolding minv_def Let_def n_def h_def T_def by blast+

lemma minvI:
  assumes "ring_ok k q" "unat (mq_tail q) = length xs" "unat (mq_head q) = length zs" "zs = take (length zs) xs"
    "length zs + lag c \<le> length xs" "length xs \<le> length zs + lag c + 2 ^ k"
    "\<And>p. length zs + lag c \<le> p \<Longrightarrow> p < length zs + lag c + 2 ^ k \<Longrightarrow> slot_ok q xs ps p"
    "\<And>i p. holds (ps i) p \<Longrightarrow> length zs + lag c \<le> p \<and> p < length xs"
    "\<And>i j p. holds (ps i) p \<Longrightarrow> holds (ps j) p \<Longrightarrow> i = j"
    "\<And>i. prod_ok q xs (ps i)" "cons_ok (length zs) xs ps c"
  shows "minv k \<lparr>mr_q = q, mr_prod = ps, mr_cons = c, mr_items = xs, mr_out = zs\<rparr>"
  using assms unfolding minv_def Let_def by simp

lemma prod_ok_append:
  "prod_ok q xs l \<Longrightarrow> (\<And>p. holds l p \<Longrightarrow> p < length xs) \<Longrightarrow> prod_ok q (xs @ ys) l"
  by (cases l) (auto simp: nth_append)

lemma pow_bounds: "ring_ok k q \<Longrightarrow> 2 \<le> (2 :: nat) ^ k"
  by (cases k) (auto simp: ring_ok_def)

lemma unat_succ_small: "unat (w :: u64) < 2 ^ 63 \<Longrightarrow> unat (w + 1) = Suc (unat w)"
  by (subst unat_word_ariths) simp

text \<open>A position the tail has reached and whose slot is ready for it is less than a lap above the head.\<close>

lemma ready_below_lap:
  assumes inv: "minv k s" and "length (mr_items s) \<le> sqn (mr_q s) (length (mr_items s))"
  shows "length (mr_items s) < length (mr_out s) + lag (mr_cons s) + 2 ^ k"
proof (rule ccontr)
  let ?h = "length (mr_out s) + lag (mr_cons s)" and ?T = "length (mr_items s)"
  assume "\<not> ?thesis"
  then have T: "?T = ?h + 2 ^ k" using minvD(6) [OF inv] by linarith
  have two: "2 \<le> (2 :: nat) ^ k" using pow_bounds [OF minvD(1) [OF inv]] .
  have "sqn (mr_q s) ?T = sqn (mr_q s) ?h" using minvD(1) [OF inv] by (simp add: T sqn_def ring_ok_def)
  moreover have "sqn (mr_q s) ?h \<le> Suc ?h" using minvD(7) [OF inv, of ?h] by (auto simp: slot_ok_def split: if_splits)
  ultimately show False using assms(2) T two by linarith
qed

lemma claim_keeps:
  assumes inv: "minv k s" and st: "mr_prod s i = P_Check x w w" and tail: "mq_tail (mr_q s) = w"
    and room: "length (mr_items s) < 2 ^ 63"
  shows "minv k \<lparr>mr_q = (mr_q s)\<lparr>mq_tail := w + 1\<rparr>, mr_prod = (mr_prod s)(i := P_Claimed x w), mr_cons = mr_cons s,
    mr_items = mr_items s @ [x], mr_out = mr_out s\<rparr>"
proof -
  let ?q = "mr_q s" and ?q' = "(mr_q s)\<lparr>mq_tail := w + 1\<rparr>" and ?xs = "mr_items s" and ?ps = "mr_prod s"
  let ?ps' = "?ps(i := P_Claimed x w)" and ?T = "length (mr_items s)" and ?h = "length (mr_out s) + lag (mr_cons s)"
  note I = minvD [OF inv]
  have w: "unat w = ?T" using I(2) tail by simp
  have "?T \<le> sqn ?q ?T" using I(10) [of i] st w by simp
  note lap = ready_below_lap [OF inv this]
  have hs: "holds (?ps' j) p \<longleftrightarrow> (if j = i then p = ?T else holds (?ps j) p)" for j p using w by auto
  have no: "\<not> holds (?ps i) p" for p by (simp add: st)
  have hp: "held ?ps' p \<longleftrightarrow> held ?ps p \<or> p = ?T" for p
  proof
    show "held ?ps' p \<Longrightarrow> held ?ps p \<or> p = ?T" unfolding held_def hs by (auto split: if_splits)
    show "held ?ps p \<or> p = ?T \<Longrightarrow> held ?ps' p" unfolding held_def hs using no by metis
  qed
  have below: "held ?ps p \<Longrightarrow> p < ?T" for p using I(8) by (auto simp: held_def)
  have sl: "sqn ?q' = sqn ?q" "dat ?q' = dat ?q" by (auto intro: sqn_cong)
  show ?thesis
  proof (rule minvI)
    show "slot_ok ?q' (?xs @ [x]) ?ps' p" if "?h \<le> p" "p < ?h + 2 ^ k" for p
      using I(7) [OF that] below [of p] by (auto simp: slot_ok_def sl hp nth_append less_Suc_eq split: if_splits)
    show "?h \<le> p \<and> p < length (?xs @ [x])" if "holds (?ps' j) p" for j p
      using that [unfolded hs] I(8) [of j p] I(5) by (cases "j = i") simp_all
    show "j = j'" if "holds (?ps' j) p" "holds (?ps' j') p" for j j' p
      using that [unfolded hs] I(8) [of j p] I(8) [of j' p] I(9) [of j p j'] by (cases "j = i"; cases "j' = i") simp_all
    show "prod_ok ?q' (?xs @ [x]) (?ps' j)" for j
    proof (cases "j = i")
      case True
      then show ?thesis using w by simp
    next
      case False
      have "prod_ok ?q (?xs @ [x]) (?ps j)" by (rule prod_ok_append [OF I(10)]) (use I(8) in blast)
      then show ?thesis using False slots_cong(2) [of ?q' ?q] by simp
    qed
    have "cons_ok (length (mr_out s)) ?xs ?ps c \<Longrightarrow> cons_ok (length (mr_out s)) (?xs @ [x]) ?ps' c" for c
      by (cases c) (auto simp: hp nth_append)
    then show "cons_ok (length (mr_out s)) (?xs @ [x]) ?ps' (mr_cons s)" using I(11) .
    show "ring_ok k ?q'" using I(1) by (simp add: ring_ok_def)
    show "unat (mq_tail ?q') = length (?xs @ [x])" using unat_succ_small w room by simp
    show "length (?xs @ [x]) \<le> ?h + 2 ^ k" using lap by simp
    show "mr_out s = take (length (mr_out s)) (?xs @ [x])" using I(4,5) by simp
  qed (use I(3,5) in simp_all)
qed

lemma write_keeps:
  assumes inv: "minv k s" and st: "mr_prod s i = P_Claimed x w"
  shows "minv k \<lparr>mr_q = mq_set_data w x (mr_q s), mr_prod = (mr_prod s)(i := P_Written w), mr_cons = mr_cons s,
    mr_items = mr_items s, mr_out = mr_out s\<rparr>"
proof -
  let ?q = "mr_q s" and ?q' = "mq_set_data w x (mr_q s)" and ?xs = "mr_items s" and ?ps = "mr_prod s"
  let ?ps' = "?ps(i := P_Written w)" and ?p = "unat w" and ?h = "length (mr_out s) + lag (mr_cons s)"
  note I = minvD [OF inv] and V = set_data_view [OF minvD(1) [OF inv], of w x]
  have p: "holds (?ps i) ?p" "?h \<le> ?p" "?p < length ?xs" using st I(8) [of i ?p] by simp_all
  have hp: "held ?ps' = held ?ps" by (rule held_same) (simp add: st)
  have hs: "holds (?ps' j) p = holds (?ps j) p" for j p by (simp add: st)
  have same: "p mod 2 ^ k = ?p mod 2 ^ k \<Longrightarrow> ?h \<le> p \<Longrightarrow> p < ?h + 2 ^ k \<Longrightarrow> p = ?p" for p
    using same_slot [of p "2 ^ k" ?p ?h] p I(6) by simp
  show ?thesis
  proof (rule minvI)
    show "slot_ok ?q' ?xs ?ps' p" if "?h \<le> p" "p < ?h + 2 ^ k" for p
    proof (cases "p = ?p")
      case True
      then have "held ?ps p" using p(1) by (auto simp: held_def)
      then show ?thesis using I(7) [OF that] by (simp add: slot_ok_def hp V)
    next
      case False
      then show ?thesis using I(7) [OF that] same [OF _ that] by (auto simp: slot_ok_def hp V)
    qed
    show "prod_ok ?q' ?xs (?ps' j)" for j
    proof (cases "j = i")
      case True
      then show ?thesis using I(10) [of i] st by (simp add: V)
    next
      case False
      have no: "holds (?ps j) p \<Longrightarrow> p mod 2 ^ k \<noteq> ?p mod 2 ^ k" for p
        using I(8) [of j p] I(6) same [of p] I(9) [of j ?p i] p(1) False by auto
      show ?thesis using I(10) [of j] False no by (cases "?ps j") (simp_all add: V)
    qed
    show "cons_ok (length (mr_out s)) ?xs ?ps' (mr_cons s)" using I(11) by (cases "mr_cons s") (simp_all add: hp)
    show "?h \<le> p \<and> p < length ?xs" if "holds (?ps' j) p" for j p using that I(8) hs by blast
    show "j = j'" if "holds (?ps' j) p" "holds (?ps' j') p" for j j' p using that I(9) hs by blast
    show "unat (mq_tail ?q') = length ?xs" "unat (mq_head ?q') = length (mr_out s)" using I(2,3) by (simp_all add: mq_set_data_def)
  qed (use I V in simp_all)
qed

text \<open>Raising the sequence number of a slot keeps what producers know of it.\<close>

lemma set_seq_prod_ok:
  assumes "ring_ok k q" and "prod_ok q xs l" and "sqn q (unat w) \<le> unat v"
  shows "prod_ok (mq_set_seq w v q) xs l"
proof -
  have up: "sqn q p \<le> sqn (mq_set_seq w v q) p" for p
    using assms(1,3) by (auto simp: set_seq_view [OF assms(1)]) (simp add: sqn_def ring_ok_def)
  show ?thesis
  proof (cases l)
    case (P_Check x u sq)
    then show ?thesis using assms(2) up [of "unat u"] by simp
  qed (use assms(2) in \<open>simp_all add: set_seq_view [OF assms(1)]\<close>)
qed

lemma publish_keeps:
  assumes inv: "minv k s" and st: "mr_prod s i = P_Written w" and room: "length (mr_items s) < 2 ^ 63"
  shows "minv k \<lparr>mr_q = mq_set_seq w (w + 1) (mr_q s), mr_prod = (mr_prod s)(i := P_Published), mr_cons = mr_cons s,
    mr_items = mr_items s, mr_out = mr_out s\<rparr>"
proof -
  let ?q = "mr_q s" and ?q' = "mq_set_seq w (w + 1) (mr_q s)" and ?xs = "mr_items s" and ?ps = "mr_prod s"
  let ?ps' = "?ps(i := P_Published)" and ?p = "unat w" and ?h = "length (mr_out s) + lag (mr_cons s)"
  note I = minvD [OF inv] and V = set_seq_view [OF minvD(1) [OF inv], of w "w + 1"]
  have p: "holds (?ps i) ?p" "?h \<le> ?p" "?p < length ?xs" using st I(8) [of i ?p] by simp_all
  have w1: "unat (w + 1) = Suc ?p" using unat_succ_small [of w] p(3) room by simp
  have win: "?p < ?h + 2 ^ k" using p(3) I(6) by linarith
  have hd: "held ?ps ?p" using p(1) by (auto simp: held_def)
  then have sq: "sqn ?q ?p = ?p" using I(7) [OF p(2) win] by (simp add: slot_ok_def)
  have hs: "holds (?ps' j) p \<longleftrightarrow> holds (?ps j) p \<and> j \<noteq> i" for j p by simp
  have hp: "held ?ps' p \<longleftrightarrow> held ?ps p \<and> p \<noteq> ?p" for p
  proof
    show "held ?ps' p \<Longrightarrow> held ?ps p \<and> p \<noteq> ?p" unfolding held_def hs using I(9) p(1) by blast
    show "held ?ps p \<and> p \<noteq> ?p \<Longrightarrow> held ?ps' p" unfolding held_def hs using st by (metis holds.simps(2))
  qed
  show ?thesis
  proof (rule minvI)
    show "slot_ok ?q' ?xs ?ps' p" if "?h \<le> p" "p < ?h + 2 ^ k" for p
    proof (cases "p = ?p")
      case True
      then show ?thesis using I(10) [of i] st p(3) by (simp add: slot_ok_def hp V w1)
    next
      case False
      then have "p mod 2 ^ k \<noteq> ?p mod 2 ^ k" using same_slot [of p "2 ^ k" ?p ?h] that p(2) win by blast
      then show ?thesis using I(7) [OF that] False by (simp add: slot_ok_def hp V)
    qed
    show "prod_ok ?q' ?xs (?ps' j)" for j
      using set_seq_prod_ok [OF I(1) I(10) [of j], of w "w + 1"] sq w1 by simp
    show "cons_ok (length (mr_out s)) ?xs ?ps' (mr_cons s)" using I(11) by (cases "mr_cons s") (simp_all add: hp)
    show "?h \<le> p \<and> p < length ?xs" if "holds (?ps' j) p" for j p using that [unfolded hs] I(8) by blast
    show "j = j'" if "holds (?ps' j) p" "holds (?ps' j') p" for j j' p using that [unfolded hs] I(9) by blast
    show "unat (mq_tail ?q') = length ?xs" "unat (mq_head ?q') = length (mr_out s)" using I(2,3) by (simp_all add: mq_set_seq_def)
  qed (use I V in simp_all)
qed

lemma push_keeps:
  assumes inv: "minv k s" and st: "push_step sp (mr_prod s i) (mr_q s) = (l, q)"
    and room: "length (mr_items s) < 2 ^ 63"
  shows "minv k (s\<lparr>mr_q := q, mr_prod := (mr_prod s)(i := l), mr_items := mr_items s @ claims (mr_prod s i) l\<rparr>)"
proof -
  let ?s = "s\<lparr>mr_q := q, mr_prod := (mr_prod s)(i := l)\<rparr>"
  note I = minvD [OF inv]
  have whole: "s\<lparr>mr_q := q, mr_prod := ps, mr_items := xs\<rparr> =
      \<lparr>mr_q = q, mr_prod = ps, mr_cons = mr_cons s, mr_items = xs, mr_out = mr_out s\<rparr>" for ps xs
    by (cases s) simp
  have quiet: "s\<lparr>mr_q := q, mr_prod := (mr_prod s)(i := l), mr_items := mr_items s\<rparr> = ?s" by (cases s) simp
  show ?thesis
  proof (cases "mr_prod s i")
    case (P_Start x)
    then have "minv k ?s" using st I(2) by (intro minv_quiet [OF inv]) auto
    then show ?thesis using P_Start quiet by simp
  next
    case (P_Loop x w)
    then have "minv k ?s" using st I(10) [of i] by (intro minv_quiet [OF inv]) (auto simp: unat_mq_seq [OF I(1)])
    then show ?thesis using P_Loop quiet by simp
  next
    case (P_Check x w sq)
    show ?thesis
    proof (cases "sint sq - sint w = 0 \<and> mq_tail (mr_q s) = w \<and> \<not> sp")
      case True
      then have "sq = w" by (auto intro: signed_word_eqI)
      then show ?thesis using claim_keeps [OF inv _ _ room, of i x w] True st P_Check unfolding whole by auto
    next
      case False
      then have l: "l = P_Done False \<or> l = P_Loop x (mq_tail (mr_q s))" "q = mr_q s"
        using st P_Check by (auto simp: Let_def split: if_splits)
      then have "minv k ?s" using I(2) P_Check by (intro minv_quiet [OF inv]) auto
      then show ?thesis using P_Check l quiet by auto
    qed
  next
    case (P_Claimed x w)
    then show ?thesis using write_keeps [OF inv P_Claimed] st unfolding whole by auto
  next
    case (P_Written w)
    then show ?thesis using publish_keeps [OF inv P_Written room] st unfolding whole by auto
  next
    case P_Published
    then have "minv k ?s" using st by (intro minv_quiet [OF inv]) auto
    then show ?thesis using P_Published quiet by simp
  next
    case (P_Done b)
    then have "l = P_Done b" "q = mr_q s" using st by simp_all
    then have "minv k ?s" by (intro minv_quiet [OF inv]) (simp_all add: P_Done)
    then show ?thesis using P_Done quiet by simp
  qed
qed

lemma release_keeps:
  assumes inv: "minv k s" and st: "mr_cons s = C_Got w x" and room: "length (mr_items s) + 2 ^ k < 2 ^ 63"
  shows "minv k \<lparr>mr_q = mq_set_seq w (w + mq_mask (mr_q s) + 1) (mr_q s), mr_prod = mr_prod s, mr_cons = C_Released w x,
    mr_items = mr_items s, mr_out = mr_out s\<rparr>"
proof -
  let ?v = "w + mq_mask (mr_q s) + 1" let ?q = "mr_q s" and ?q' = "mq_set_seq w ?v (mr_q s)" and ?xs = "mr_items s" and ?ps = "mr_prod s"
  let ?n = "length (mr_out s)"
  note I = minvD [OF inv] and V = set_seq_view [OF minvD(1) [OF inv], of w ?v]
  have c: "unat w = ?n" "?n < length ?xs" "\<not> held ?ps ?n" "x = ?xs ! ?n" using I(11) st by simp_all
  have k: "k \<le> 62" "mq_mask ?q = mask k" using I(1) by (simp_all add: ring_ok_def)
  have e: "?v = w + 2 ^ k" by (simp add: k(2) mask_eq_exp_minus_1)
  have "unat ((2 :: u64) ^ k) = 2 ^ k" using k(1) by (simp add: unat_two_power)
  then have v: "unat ?v = ?n + 2 ^ k" unfolding e by (subst unat_word_ariths(1)) (use room c in simp)
  have sq: "sqn ?q ?n = Suc ?n" using I(7) [of ?n] st c by (simp add: slot_ok_def)
  show ?thesis
  proof (rule minvI)
    show "slot_ok ?q' ?xs ?ps p" if p: "?n + lag (C_Released w x) \<le> p" "p < ?n + lag (C_Released w x) + 2 ^ k" for p
    proof (cases "p = ?n + 2 ^ k")
      case True
      then have "\<not> p < length ?xs" using I(6) st by simp
      then show ?thesis using True by (simp add: slot_ok_def V v c(1))
    next
      case False
      then have "p mod 2 ^ k \<noteq> ?n mod 2 ^ k" using same_slot [of p "2 ^ k" ?n ?n] p by auto
      then show ?thesis using I(7) [of p] p False st by (simp add: slot_ok_def V c(1))
    qed
    show "?n + lag (C_Released w x) \<le> p \<and> p < length ?xs" if h: "holds (?ps j) p" for j p
    proof -
      have "p \<noteq> ?n" using h c(3) by (auto simp: held_def)
      then show ?thesis using I(8) [OF h] st by simp
    qed
    show "prod_ok ?q' ?xs (?ps j)" for j using set_seq_prod_ok [OF I(1) I(10) [of j], of w ?v] sq v c(1) pow_bounds [OF I(1)] by simp
    show "unat (mq_tail ?q') = length ?xs" "unat (mq_head ?q') = ?n" using I(2,3) by (simp_all add: mq_set_seq_def)
    show "ring_ok k ?q'" by (rule V(1))
  qed (use I c st in auto)
qed

lemma pop_keeps:
  assumes inv: "minv k s" and st: "pop_step (mr_cons s) (mr_q s) = (l, q)" and room: "length (mr_items s) + 2 ^ k < 2 ^ 63"
  shows "minv k (s\<lparr>mr_q := q, mr_cons := l, mr_out := mr_out s @ takes (mr_cons s)\<rparr>)"
proof -
  let ?n = "length (mr_out s)"
  note I = minvD [OF inv]
  have whole: "s\<lparr>mr_q := q, mr_cons := c, mr_out := zs\<rparr> =
      \<lparr>mr_q = q, mr_prod = mr_prod s, mr_cons = c, mr_items = mr_items s, mr_out = zs\<rparr>" for c zs
    by (cases s) simp
  have quiet: "minv k (s\<lparr>mr_q := q, mr_cons := l, mr_out := mr_out s\<rparr>)"
    if "lag l = 0" "lag (mr_cons s) = 0" "cons_ok ?n (mr_items s) (mr_prod s) l" and q: "mq_slots q = mq_slots (mr_q s)"
      "mq_mask q = mq_mask (mr_q s)" "mq_tail q = mq_tail (mr_q s)" "mq_head q = mq_head (mr_q s)"
      "mq_cap q = mq_cap (mr_q s)"
  proof -
    have "ring_ok k q" using I(1) q by (simp add: ring_ok_def)
    then show ?thesis unfolding whole by (rule minvI) (use I that slots_cong [OF q(1)] in auto)
  qed
  show ?thesis
  proof (cases "mr_cons s")
    case C_Start
    have n: "unat (mq_head (mr_q s)) = ?n" "unat (mq_head (mr_q s) + 1) = Suc ?n"
      using I(3,5) room unat_succ_small [of "mq_head (mr_q s)"] by simp_all
    have "?n < length (mr_items s) \<and> \<not> held (mr_prod s) ?n" if "mq_seq (mr_q s) (mq_head (mr_q s)) = mq_head (mr_q s) + 1"
      using that I(7) [of ?n] C_Start unat_mq_seq [OF I(1), of "mq_head (mr_q s)"] n by (auto simp: slot_ok_def split: if_splits)
    then show ?thesis using quiet st C_Start n by (auto simp: Let_def split: if_splits)
  next
    case (C_Ready w)
    then have "dat (mr_q s) ?n = mr_items s ! ?n" using I(7) [of ?n] I(11) by (simp add: slot_ok_def)
    then show ?thesis using quiet st C_Ready I(11) mq_data_dat [OF I(1), of w] by auto
  next
    case (C_Got w x)
    then show ?thesis using release_keeps [OF inv C_Got room] st unfolding whole by auto
  next
    case (C_Released w x)
    have c: "unat w = ?n" "?n < length (mr_items s)" "x = mr_items s ! ?n" using I(11) C_Released by simp_all
    have l: "l = C_Moved x" "q = (mr_q s)\<lparr>mq_head := w + 1\<rparr>" using st C_Released by simp_all
    have sl: "mq_slots q = mq_slots (mr_q s)" by (simp add: l)
    have "ring_ok k q" using I(1) by (simp add: ring_ok_def l)
    moreover have "unat (mq_head q) = Suc ?n" using unat_succ_small [of w] c room by (simp add: l)
    moreover have "mr_out s @ [x] = take (Suc ?n) (mr_items s)" using I(4) c by (simp add: take_Suc_conv_app_nth)
    ultimately show ?thesis using C_Released unfolding whole
      by (intro minvI) (use I c slots_cong [OF sl] in \<open>auto simp: l\<close>)
  next
    case (C_Moved x)
    then show ?thesis using quiet st by auto
  next
    case (C_Done r)
    then have "l = C_Done r" "q = mr_q s" using st by simp_all
    then show ?thesis using quiet by (simp add: C_Done)
  qed
qed

lemma minv_start:
  assumes "MpscQueue_new d n = Some q" and "n \<le> 2 ^ 62"
  shows "\<exists>k. minv k \<lparr>mr_q = q, mr_prod = (\<lambda>i. P_Done True), mr_cons = C_Done None, mr_items = [], mr_out = []\<rparr>"
proof -
  have "n \<le> 2 ^ 63" using assms(2) by (simp add: word_le_nat_alt)
  then obtain j where j: "1 \<le> j" "j \<le> 63" "spsc_grow n (2 ^ 1) = Some (2 ^ j)" "j = 1 \<or> 2 ^ (j - 1) < n"
    using spsc_grow_pow [of 1 n] by auto
  have "j \<noteq> 63" using j(4) assms(2) by (auto simp: word_less_nat_alt word_le_nat_alt)
  then have j62: "j \<le> 62" using j(2) by simp
  have u: "unat ((2 :: u64) ^ j) = 2 ^ j" using j by (intro unat_two_power) simp
  have q: "q = \<lparr>mq_cap = 2 ^ j, mq_mask = mask j, mq_slots = map (\<lambda>i. (of_nat i, d)) [0..<2 ^ j], mq_head = 0, mq_tail = 0,
      mq_pushes = 0, mq_pops = 0\<rparr>"
    using assms(1) j(3) u by (simp add: MpscQueue_new_def mask_eq_exp_minus_1)
  have lt: "(2 :: nat) ^ j < 2 ^ 64" using j(2) by (intro power_strict_increasing) auto
  have "ring_ok j q" using j j62 by (simp add: ring_ok_def q)
  moreover have "slot_ok q [] (\<lambda>i. P_Done True) p" if "p < 2 ^ j" for p
    using that lt by (simp add: slot_ok_def sqn_def q unat_of_nat)
  ultimately show ?thesis by (intro exI [of _ j] minvI) (auto simp: q)
qed

lemma mstep_items: "mstep s s' \<Longrightarrow> length (mr_items s) \<le> length (mr_items s')"
  by (induction rule: mstep.induct) simp_all

lemma mstep_keeps:
  assumes "mstep s s'" and "minv k s" and "length (mr_items s) + 2 ^ k < 2 ^ 63"
  shows "minv k s'"
  using assms
proof (induction rule: mstep.induct)
  case (call_push s i b x)
  then show ?case using minv_quiet [OF call_push(2), of i "P_Start x" "mr_q s"] by simp
next
  case (push sp s i l q)
  then show ?case using push_keeps [OF push(2,1)] by simp
next
  case (call_pop s r)
  have e: "s\<lparr>mr_cons := C_Start\<rparr> = \<lparr>mr_q = mr_q s, mr_prod = mr_prod s, mr_cons = C_Start, mr_items = mr_items s, mr_out = mr_out s\<rparr>"
    by (cases s) simp
  show ?case unfolding e using minvD [OF call_pop(2)] call_pop(1) by (intro minvI) auto
next
  case (pop s l q)
  then show ?case using pop_keeps [OF pop(2,1)] by simp
qed

lemma minv_cap: "minv k s \<Longrightarrow> unat (mq_cap (mr_q s)) = 2 ^ k"
  using minvD(1) [of k s] by (auto simp: ring_ok_def intro: unat_two_power)

lemma minv_reachable:
  "mreachable d n s \<Longrightarrow> n \<le> 2 ^ 62 \<Longrightarrow> length (mr_items s) + unat (mq_cap (mr_q s)) < 2 ^ 63 \<Longrightarrow> \<exists>k. minv k s"
proof (induction rule: mreachable.induct)
  case (start q)
  then show ?case by (intro minv_start)
next
  case (step s s')
  have cap: "mq_cap (mr_q s') = mq_cap (mr_q s)" using step(2)
  proof (induction rule: mstep.induct)
    case (push sp s i l q)
    then show ?case by (cases "mr_prod s i") (auto simp: Let_def mq_set_seq_def mq_set_data_def split: if_splits)
  next
    case (pop s l q)
    then show ?case by (cases "mr_cons s") (auto simp: Let_def mq_set_seq_def split: if_splits)
  qed simp_all
  then have room: "length (mr_items s) + unat (mq_cap (mr_q s)) < 2 ^ 63" using step.prems(2) mstep_items [OF step(2)] by simp
  then obtain k where k: "minv k s" using step.IH step.prems(1) by blast
  then show ?case using mstep_keeps [OF step(2) k] room minv_cap [OF k] by auto
qed

section \<open>Many producers, one order\<close>

lemma slot_in_window: "0 < (n :: nat) \<Longrightarrow> \<exists>p. h \<le> p \<and> p < h + n \<and> p mod n = w mod n"
proof -
  assume n: "0 < n"
  let ?p = "h + (w + n * h - h) mod n"
  have "?p mod n = (h + (w + n * h - h)) mod n" by (simp add: mod_add_right_eq)
  also have "h + (w + n * h - h) = w + n * h" using n by (simp add: trans_le_add2)
  finally have "?p mod n = w mod n" by simp
  then show ?thesis using n by (intro exI [of _ ?p]) simp
qed

lemma sint_below: "unat (w :: u64) < 2 ^ 63 \<Longrightarrow> sint w = int (unat w)"
proof -
  assume a: "unat w < 2 ^ 63"
  have "uint w = int (unat w)" by simp
  then have "uint w < 2 ^ 63" using a by (metis of_nat_less_iff of_nat_numeral of_nat_power)
  moreover have "- (2 ^ 63) \<le> uint w" by (rule order_trans [of _ 0]) simp_all
  ultimately have "signed_take_bit 63 (uint w) = uint w" by (intro signed_take_bit_int_eq_self)
  then show ?thesis by (simp add: sint_uint)
qed

lemma sqn_range:
  assumes inv: "minv k s"
  obtains p where "length (mr_out s) + lag (mr_cons s) \<le> p" "p < length (mr_out s) + lag (mr_cons s) + 2 ^ k" "p mod 2 ^ k = w mod 2 ^ k"
    "sqn (mr_q s) w = p \<or> sqn (mr_q s) w = Suc p"
proof -
  let ?h = "length (mr_out s) + lag (mr_cons s)"
  obtain p where p: "?h \<le> p" "p < ?h + 2 ^ k" "p mod 2 ^ k = w mod 2 ^ k" using slot_in_window [of "2 ^ k" ?h w] by auto
  have "sqn (mr_q s) w = sqn (mr_q s) p" using minvD(1) [OF inv] p(3) by (simp add: sqn_def ring_ok_def)
  then show thesis using that [OF p] minvD(7) [OF inv p(1,2)] by (auto simp: slot_ok_def split: if_splits)
qed

lemma full_is_full:
  assumes inv: "minv k s" and st: "mr_prod s i = P_Loop x w" and room: "length (mr_items s) + 2 ^ k < 2 ^ 63"
    and neg: "sint (mq_seq (mr_q s) w) - sint w < 0"
  shows "length (mr_items s) = length (mr_out s) + lag (mr_cons s) + 2 ^ k"
proof -
  let ?h = "length (mr_out s) + lag (mr_cons s)" and ?T = "length (mr_items s)"
  note I = minvD [OF inv]
  have w: "unat w \<le> ?T" using I(10) [of i] st by simp
  obtain p where p: "?h \<le> p" "p < ?h + 2 ^ k" "p mod 2 ^ k = unat w mod 2 ^ k" "sqn (mr_q s) (unat w) = p \<or> sqn (mr_q s) (unat w) = Suc p"
    using sqn_range [OF inv, of "unat w"] by blast
  have u: "unat (mq_seq (mr_q s) w) = sqn (mr_q s) (unat w)" by (rule unat_mq_seq [OF I(1)])
  have "unat (mq_seq (mr_q s) w) < 2 ^ 63" using u p(2,4) I(5) room by linarith
  then have sq: "sint (mq_seq (mr_q s) w) = int (sqn (mr_q s) (unat w))" using sint_below [of "mq_seq (mr_q s) w"] u by metis
  have "sint w = int (unat w)" by (rule sint_below) (use w room in linarith)
  then have "sqn (mr_q s) (unat w) < unat w" using neg sq by linarith
  then have "p < unat w" using p(4) by linarith
  then have "?h + 2 ^ k \<le> unat w" using same_slot [OF p(3) p(1,2)] p(1) by linarith
  then show ?thesis using w I(6) by linarith
qed

text \<open>C16: The queue is first in, first out under any interleaving of any number of producers with the consumer, as long as fewer than
  \<open>2^63\<close> items less the capacity were pushed. What the consumer took is, item by item, what was claimed first; at most the
  capacity is in the queue; producers at work write different slots, none of them the slot the consumer reads; a producer is
  refused only when the queue is full; and the consumer finds nothing only when the queue is empty or the next
  item is still being written.\<close>

theorem mpsc_fifo:
  assumes "mreachable d n s" and "n \<le> 2 ^ 62" and "length (mr_items s) + unat (mq_cap (mr_q s)) < 2 ^ 63"
  shows "mr_out s = take (length (mr_out s)) (mr_items s) \<and>
    length (mr_items s) \<le> length (mr_out s) + lag (mr_cons s) + unat (mq_cap (mr_q s)) \<and>
    (\<forall>i j p p'. holds (mr_prod s i) p \<and> holds (mr_prod s j) p' \<and> i \<noteq> j \<longrightarrow>
       p mod unat (mq_cap (mr_q s)) \<noteq> p' mod unat (mq_cap (mr_q s))) \<and>
    (\<forall>i p w. mr_cons s = C_Ready w \<and> holds (mr_prod s i) p \<longrightarrow>
       p mod unat (mq_cap (mr_q s)) \<noteq> unat w mod unat (mq_cap (mr_q s))) \<and>
    (\<forall>i x w. mr_prod s i = P_Loop x w \<and> sint (mq_seq (mr_q s) w) - sint w < 0 \<longrightarrow>
       length (mr_items s) = length (mr_out s) + lag (mr_cons s) + unat (mq_cap (mr_q s))) \<and>
    (mr_cons s = C_Start \<and> mq_seq (mr_q s) (mq_head (mr_q s)) \<noteq> mq_head (mr_q s) + 1 \<longrightarrow>
       length (mr_items s) = length (mr_out s) \<or> held (mr_prod s) (length (mr_out s)))"
proof -
  let ?h = "length (mr_out s) + lag (mr_cons s)" and ?n = "length (mr_out s)"
  obtain k where inv: "minv k s" using minv_reachable [OF assms] by blast
  note I = minvD [OF inv] and N = minv_cap [OF inv]
  have room: "length (mr_items s) + 2 ^ k < 2 ^ 63" using assms(3) N by simp
  have slots: "p mod 2 ^ k \<noteq> p' mod 2 ^ k" if "p \<noteq> p'" "?h \<le> p" "p < length (mr_items s)" "?h \<le> p'" "p' < length (mr_items s)" for p p'
    using same_slot [of p "2 ^ k" p' ?h] that I(6) by linarith
  have a: "p mod 2 ^ k \<noteq> p' mod 2 ^ k" if "holds (mr_prod s i) p" "holds (mr_prod s j) p'" "i \<noteq> j" for i j p p'
    using slots [of p p'] I(8) [OF that(1)] I(8) [OF that(2)] I(9) [of i p j] that by blast
  have b: "p mod 2 ^ k \<noteq> unat w mod 2 ^ k" if "mr_cons s = C_Ready w" "holds (mr_prod s i) p" for i p w
    using slots [of p ?n] I(8) [OF that(2)] I(11) that by (auto simp: held_def)
  have c: "length (mr_items s) = ?n \<or> held (mr_prod s) ?n" if "mr_cons s = C_Start" "mq_seq (mr_q s) (mq_head (mr_q s)) \<noteq> mq_head (mr_q s) + 1"
  proof (rule ccontr)
    assume "\<not> ?thesis"
    then have "sqn (mr_q s) ?n = Suc ?n" using I(5) I(7) [of ?n] that(1) by (auto simp: slot_ok_def)
    then have "unat (mq_seq (mr_q s) (mq_head (mr_q s))) = unat (mq_head (mr_q s) + 1)"
      using unat_mq_seq [OF I(1), of "mq_head (mr_q s)"] I(3,5) room unat_succ_small [of "mq_head (mr_q s)"] by simp
    then show False using that(2) unat_eqI by blast
  qed
  show ?thesis unfolding N using I(4,6) a b c full_is_full [OF inv _ room] by blast
qed

text \<open>Runs by a schedule.\<close>

datatype 'a mact = Call_push nat 'a | Push_by nat | Call_pop | Pop_on

fun mexec :: "'a mact \<Rightarrow> 'a mrun \<Rightarrow> 'a mrun" where
  "mexec (Call_push i x) s = (case mr_prod s i of P_Done b \<Rightarrow> s\<lparr>mr_prod := (mr_prod s)(i := P_Start x)\<rparr> | _ \<Rightarrow> s)"
| "mexec (Push_by i) s =
     (case push_step False (mr_prod s i) (mr_q s) of (l, q) \<Rightarrow>
        s\<lparr>mr_q := q, mr_prod := (mr_prod s)(i := l), mr_items := mr_items s @ claims (mr_prod s i) l\<rparr>)"
| "mexec Call_pop s = (case mr_cons s of C_Done r \<Rightarrow> s\<lparr>mr_cons := C_Start\<rparr> | _ \<Rightarrow> s)"
| "mexec Pop_on s =
     (case pop_step (mr_cons s) (mr_q s) of (l, q) \<Rightarrow> s\<lparr>mr_q := q, mr_cons := l, mr_out := mr_out s @ takes (mr_cons s)\<rparr>)"

lemma mexec_reachable: "mreachable d n s \<Longrightarrow> mreachable d n (mexec a s)"
  by (cases a) (auto split: producer.splits consumer.splits prod.splits intro: mreachable.step mstep.intros)

lemma mexecs_reachable: "mreachable d n s \<Longrightarrow> mreachable d n (fold mexec as s)"
  by (induction "as" arbitrary: s) (simp_all add: mexec_reachable)

definition demo_ring :: "nat mrun" where
  "demo_ring =
     \<lparr>mr_q = \<lparr>mq_cap = 2, mq_mask = 1, mq_slots = [(0, 0), (1, 0)], mq_head = 0, mq_tail = 0, mq_pushes = 0, mq_pops = 0\<rparr>,
      mr_prod = (\<lambda>i. P_Done True), mr_cons = C_Done None, mr_items = [], mr_out = []\<rparr>"

text \<open>Two producers claim a position each, the second publishes first and the consumer finds nothing; then the first publishes and the
  consumer takes its item.\<close>

definition demo_schedule :: "nat mact list" where
  "demo_schedule =
     [Call_push 0 5, Call_push 1 6] @ replicate 3 (Push_by 0) @ replicate 6 (Push_by 1) @ [Call_pop, Pop_on] @ replicate 3 (Push_by 0) @
     [Call_pop] @ replicate 5 Pop_on"

lemma demo_ring_reachable: "mreachable 0 2 demo_ring"
proof -
  have "spsc_grow 2 2 = Some 2" by (subst spsc_grow.simps) simp
  moreover have "[0..<unat (2 :: u64)] = [0, 1]" by (simp add: upt_rec)
  ultimately have "MpscQueue_new (0 :: nat) 2 = Some (mr_q demo_ring)"
    by (simp add: MpscQueue_new_def demo_ring_def)
  from mreachable.start [OF this] show ?thesis by (simp add: demo_ring_def)
qed

lemma demo_ring_run:
  "mr_items (fold mexec demo_schedule demo_ring) = [5, 6]" "length (mr_out (fold mexec demo_schedule demo_ring)) = 1"
  "mq_cap (mr_q (fold mexec demo_schedule demo_ring)) = 2"
  by (code_simp)+

theorem mpsc_fifo_witness:
  "mreachable 0 2 (fold mexec demo_schedule demo_ring) \<and> mr_out (fold mexec demo_schedule demo_ring) = [5]"
proof -
  have r: "mreachable 0 2 (fold mexec demo_schedule demo_ring)" by (rule mexecs_reachable [OF demo_ring_reachable])
  have "mr_out (fold mexec demo_schedule demo_ring) =
      take (length (mr_out (fold mexec demo_schedule demo_ring))) (mr_items (fold mexec demo_schedule demo_ring))"
    using mpsc_fifo [OF r] by (simp add: demo_ring_run word_le_nat_alt)
  then show ?thesis using r by (simp add: demo_ring_run)
qed

end
