(* ===== verification/Supervisor.thy ===== *)
theory Supervisor
  imports Database Readiness
begin

text \<open>
  Who may act, and when: \<open>LiveSupervisor\<close> (a lease in the database with an epoch), \<open>GateCache\<close> and \<open>LiveBoot\<close> of
  \<open>include/live\<close>, and \<open>SessionStore\<close> of \<open>include/auth\<close>. The meaning of the statements on the table of leases is that of SQL;
  the predicate \<open>lease_server\<close> states it of a server.
\<close>

section \<open>The supervisor\<close>

record LsConfig =
  lc_workerId :: string
  lc_lockKey :: string
  lc_leaseTtlSeconds :: int

definition LsConfig_default :: LsConfig where
  "LsConfig_default = \<lparr>lc_workerId = [], lc_lockKey = ''prediction_worker'', lc_leaseTtlSeconds = 8\<rparr>"

definition ensureWorkerId :: "int \<Rightarrow> TimestampMs \<Rightarrow> LsConfig \<Rightarrow> LsConfig" where
  "ensureWorkerId pid now cfg =
     (if lc_workerId cfg \<noteq> [] then cfg else cfg\<lparr>lc_workerId := ''worker-'' @ show_int pid @ ''-'' @ show_int now\<rparr>)"

text \<open>\<open>told\<close> is what \<open>on_authority_\<close> was called with, when it is set.\<close>

record LiveSupervisor =
  ls_cfg :: LsConfig
  ls_has_authority :: bool
  ls_epoch :: u64
  ls_renewals :: u64
  ls_told :: "bool list"

definition LiveSupervisor_new :: "int \<Rightarrow> TimestampMs \<Rightarrow> LsConfig \<Rightarrow> LiveSupervisor" where
  "LiveSupervisor_new pid now cfg =
     \<lparr>ls_cfg = ensureWorkerId pid now cfg, ls_has_authority = False, ls_epoch = 0, ls_renewals = 0, ls_told = []\<rparr>"

definition gainAuthority :: "LiveSupervisor \<Rightarrow> LiveSupervisor" where
  "gainAuthority l = l\<lparr>ls_has_authority := True, ls_told := ls_told l @ [True]\<rparr>"

definition loseAuthority :: "LiveSupervisor \<Rightarrow> LiveSupervisor" where
  "loseAuthority l = (if ls_has_authority l then l\<lparr>ls_has_authority := False, ls_told := ls_told l @ [False]\<rparr> else l)"

definition lease_upsert_sql :: string where
  "lease_upsert_sql =
     ''INSERT INTO worker_leases (lock_key, owner_id, epoch, expires_at_ms) VALUES ($1,$2,1,$3) '' @
     ''ON CONFLICT (lock_key) DO UPDATE SET owner_id=EXCLUDED.owner_id, epoch=worker_leases.epoch+1, '' @
     ''expires_at_ms=EXCLUDED.expires_at_ms WHERE worker_leases.expires_at_ms < $4 OR worker_leases.owner_id=$2''"

definition lease_epoch_sql :: string where
  "lease_epoch_sql = ''SELECT epoch FROM worker_leases WHERE lock_key=$1 AND owner_id=$2''"

definition lease_renew_sql :: string where
  "lease_renew_sql = ''UPDATE worker_leases SET expires_at_ms=$1 WHERE lock_key=$2 AND owner_id=$3 AND epoch=$4''"

definition lease_owner_sql :: string where
  "lease_owner_sql = ''SELECT owner_id, epoch FROM worker_leases WHERE lock_key=$1''"

definition lease_delete_sql :: string where
  "lease_delete_sql = ''DELETE FROM worker_leases WHERE lock_key=$1 AND owner_id=$2 AND epoch=$3''"

text \<open>The epoch after a successful upsert: the one read back, or the next one when no row of ours is found.\<close>

definition read_epoch :: "QueryResult Result \<Rightarrow> u64 \<Rightarrow> u64" where
  "read_epoch qr ep =
     (case qr of
        Inr r \<Rightarrow> (case qr_rows r of (v # _) # _ \<Rightarrow> word_of_int (strtoll v) | _ \<Rightarrow> ep + 1)
      | Inl _ \<Rightarrow> ep + 1)"

definition ls_acquire :: "('c, 'w) libpq \<Rightarrow> TimestampMs \<Rightarrow> LiveSupervisor \<Rightarrow> 'c Db option \<Rightarrow> 'w \<Rightarrow> unit Result \<times> LiveSupervisor \<times> 'c Db option \<times> 'w" where
  "ls_acquire pq now l db w =
     (case db of
        Some (Pg d) \<Rightarrow>
          let cfg = ls_cfg l;
              (r, d, w) = executeParams pq lease_upsert_sql
                [lc_lockKey cfg, lc_workerId cfg, show_int (now + lc_leaseTtlSeconds cfg * 1000), show_int now] d w
          in case r of
               Inl e \<Rightarrow> (Inl (mkError (err_code e) (err_message e)), l\<lparr>ls_has_authority := False\<rparr>, Some (Pg d), w)
             | Inr _ \<Rightarrow>
                 let (qr, d, w) = pg_query pq lease_epoch_sql [lc_lockKey cfg, lc_workerId cfg] d w
                 in (Inr (), gainAuthority (l\<lparr>ls_epoch := read_epoch qr (ls_epoch l)\<rparr>), Some (Pg d), w)
      | _ \<Rightarrow> (Inr (), gainAuthority (l\<lparr>ls_epoch := ls_epoch l + 1\<rparr>), db, w))"

definition owns :: "string \<Rightarrow> QueryResult Result \<Rightarrow> bool" where
  "owns wid qr = (case qr of Inr r \<Rightarrow> (case qr_rows r of (v # _) # _ \<Rightarrow> v = wid | _ \<Rightarrow> False) | Inl _ \<Rightarrow> False)"

definition ls_renew :: "('c, 'w) libpq \<Rightarrow> TimestampMs \<Rightarrow> LiveSupervisor \<Rightarrow> 'c Db option \<Rightarrow> 'w \<Rightarrow> unit Result \<times> LiveSupervisor \<times> 'c Db option \<times> 'w" where
  "ls_renew pq now l db w =
     (if \<not> ls_has_authority l then (Inl (mkError EC_AuthFailed ''no authority''), l, db, w)
      else case db of
             None \<Rightarrow> (Inr (), l, db, w)
           | Some (Base b) \<Rightarrow> (Inr (), l\<lparr>ls_renewals := ls_renewals l + 1\<rparr>, db, w)
           | Some (Pg d) \<Rightarrow>
               let cfg = ls_cfg l;
                   (r, d, w) = executeParams pq lease_renew_sql
                     [show_int (now + lc_leaseTtlSeconds cfg * 1000), lc_lockKey cfg, lc_workerId cfg, show_nat (unat (ls_epoch l))] d w
               in case r of
                    Inl e \<Rightarrow> (Inl (mkError (err_code e) (err_message e)), loseAuthority l, Some (Pg d), w)
                  | Inr _ \<Rightarrow>
                      let (qr, d, w) = pg_query pq lease_owner_sql [lc_lockKey cfg] d w
                      in if \<not> owns (lc_workerId cfg) qr
                         then (Inl (mkError EC_AuthFailed ''lease ownership lost''), loseAuthority l, Some (Pg d), w)
                         else (Inr (), l\<lparr>ls_renewals := ls_renewals l + 1\<rparr>, Some (Pg d), w))"

definition ls_release :: "('c, 'w) libpq \<Rightarrow> LiveSupervisor \<Rightarrow> 'c Db option \<Rightarrow> 'w \<Rightarrow> LiveSupervisor \<times> 'c Db option \<times> 'w" where
  "ls_release pq l db w =
     (case db of
        Some (Pg d) \<Rightarrow>
          (case executeParams pq lease_delete_sql [lc_lockKey (ls_cfg l), lc_workerId (ls_cfg l), show_nat (unat (ls_epoch l))] d w of
             (_, d, w) \<Rightarrow> (loseAuthority l, Some (Pg d), w))
      | _ \<Rightarrow> (loseAuthority l, db, w))"

definition ls_checkEpoch :: "u64 \<Rightarrow> LiveSupervisor \<Rightarrow> bool" where
  "ls_checkEpoch expected l \<longleftrightarrow> ls_has_authority l \<and> ls_epoch l = expected"

section \<open>The table of leases\<close>

record lease =
  le_owner :: string
  le_epoch :: int
  le_expires :: int

type_synonym leases = "string \<rightharpoonup> lease"

text \<open>What the five statements mean. A comparison or an assignment of a number is one of the number its text denotes.\<close>

definition lease_upsert :: "string \<Rightarrow> string \<Rightarrow> int \<Rightarrow> int \<Rightarrow> leases \<Rightarrow> leases" where
  "lease_upsert k wid expires now t =
     (case t k of
        None \<Rightarrow> t(k \<mapsto> \<lparr>le_owner = wid, le_epoch = 1, le_expires = expires\<rparr>)
      | Some r \<Rightarrow>
          if le_expires r < now \<or> le_owner r = wid
          then t(k \<mapsto> \<lparr>le_owner = wid, le_epoch = le_epoch r + 1, le_expires = expires\<rparr>) else t)"

definition lease_renew :: "int \<Rightarrow> string \<Rightarrow> string \<Rightarrow> int \<Rightarrow> leases \<Rightarrow> leases" where
  "lease_renew expires k wid ep t =
     (case t k of Some r \<Rightarrow> if le_owner r = wid \<and> le_epoch r = ep then t(k \<mapsto> r\<lparr>le_expires := expires\<rparr>) else t | None \<Rightarrow> t)"

definition lease_delete :: "string \<Rightarrow> string \<Rightarrow> int \<Rightarrow> leases \<Rightarrow> leases" where
  "lease_delete k wid ep t =
     (case t k of Some r \<Rightarrow> if le_owner r = wid \<and> le_epoch r = ep then t(k := None) else t | None \<Rightarrow> t)"

definition lease_sql :: "string \<Rightarrow> string list \<Rightarrow> leases \<Rightarrow> PGresult \<times> leases" where
  "lease_sql s ps t =
     (if s = lease_upsert_sql then (Pg_command_ok, lease_upsert (ps ! 0) (ps ! 1) (strtoll (ps ! 2)) (strtoll (ps ! 3)) t)
      else if s = lease_renew_sql then (Pg_command_ok, lease_renew (strtoll (ps ! 0)) (ps ! 1) (ps ! 2) (strtoll (ps ! 3)) t)
      else if s = lease_delete_sql then (Pg_command_ok, lease_delete (ps ! 0) (ps ! 1) (strtoll (ps ! 2)) t)
      else if s = lease_epoch_sql
      then (Pg_tuples_ok [''epoch'']
             (case t (ps ! 0) of Some r \<Rightarrow> if le_owner r = ps ! 1 then [[Some (show_int (le_epoch r))]] else [] | None \<Rightarrow> []), t)
      else if s = lease_owner_sql
      then (Pg_tuples_ok [''owner_id'', ''epoch'']
             (case t (ps ! 0) of Some r \<Rightarrow> [[Some (le_owner r), Some (show_int (le_epoch r))]] | None \<Rightarrow> []), t)
      else (Pg_error, t))"

definition lease_statements :: "string list" where
  "lease_statements = [lease_upsert_sql, lease_renew_sql, lease_delete_sql, lease_epoch_sql, lease_owner_sql]"

text \<open>A server that runs these statements on its table, or fails and leaves the table as it is.\<close>

definition lease_server :: "('c, 'w) libpq \<Rightarrow> ('w \<Rightarrow> leases) \<Rightarrow> bool" where
  "lease_server pq tab \<longleftrightarrow>
     (\<forall>c s ps w r w'. s \<in> set lease_statements \<longrightarrow> pq_execParams pq c s ps w = (r, w') \<longrightarrow>
        (r = Pg_error \<and> tab w' = tab w) \<or> (r, tab w') = lease_sql s ps (tab w))"

lemma lease_texts [simp]:
  "s \<in> set lease_statements \<Longrightarrow> c_str s = s"
proof -
  have n: "CHR 0x00 \<notin> set lease_upsert_sql" "CHR 0x00 \<notin> set lease_renew_sql" "CHR 0x00 \<notin> set lease_delete_sql"
    "CHR 0x00 \<notin> set lease_epoch_sql" "CHR 0x00 \<notin> set lease_owner_sql"
    by (simp_all add: lease_upsert_sql_def lease_renew_sql_def lease_delete_sql_def lease_epoch_sql_def lease_owner_sql_def)
  show "s \<in> set lease_statements \<Longrightarrow> c_str s = s" using n by (auto simp: lease_statements_def)
qed

lemma lease_members [simp]:
  "lease_upsert_sql \<in> set lease_statements" "lease_renew_sql \<in> set lease_statements" "lease_delete_sql \<in> set lease_statements"
  "lease_epoch_sql \<in> set lease_statements" "lease_owner_sql \<in> set lease_statements"
  by (simp_all add: lease_statements_def)

lemma lease_distinct:
  "lease_renew_sql \<noteq> lease_upsert_sql" "lease_delete_sql \<noteq> lease_upsert_sql" "lease_delete_sql \<noteq> lease_renew_sql"
  "lease_epoch_sql \<noteq> lease_upsert_sql" "lease_epoch_sql \<noteq> lease_renew_sql" "lease_epoch_sql \<noteq> lease_delete_sql"
  "lease_owner_sql \<noteq> lease_upsert_sql" "lease_owner_sql \<noteq> lease_renew_sql" "lease_owner_sql \<noteq> lease_delete_sql"
  "lease_owner_sql \<noteq> lease_epoch_sql"
  by (simp_all add: lease_upsert_sql_def lease_renew_sql_def lease_delete_sql_def lease_epoch_sql_def lease_owner_sql_def)

lemma lease_execute:
  assumes L: "lease_server pq tab" and s: "s \<in> set lease_statements" and run: "executeParams pq s ps d w = (r, d', w')"
  shows "pg_conn d' = pg_conn d \<and>
    (if Result_ok r then tab w' = snd (lease_sql s (map c_str ps) (tab w)) else tab w' = tab w \<or> tab w' = snd (lease_sql s (map c_str ps) (tab w)))"
proof (cases "pg_conn d")
  case None
  then show ?thesis using run by (auto simp: executeParams_def pg_run_def)
next
  case (Some c)
  have R: "pg_run pq (\<lambda>c. pq_execParams pq c s (map c_str ps)) d w = (r, d', w')" using run s by (simp add: executeParams_def)
  have law: "pq_execParams pq c s (map c_str ps) w = (g, w') \<Longrightarrow>
      (g = Pg_error \<and> tab w' = tab w) \<or> (g, tab w') = lease_sql s (map c_str ps) (tab w)" for g
    using L s unfolding lease_server_def by blast
  show ?thesis using pg_run_conn [OF R] law by (cases rule: pg_run_cases [OF R Some]) (auto simp: prod_eq_iff)
qed

lemma lease_query:
  assumes L: "lease_server pq tab" and s: "s \<in> {lease_epoch_sql, lease_owner_sql}" and run: "pg_query pq s ps d w = (qr, d', w')"
  shows "pg_conn d' = pg_conn d \<and> tab w' = tab w \<and>
    (\<forall>x. qr = Inr x \<longrightarrow> (\<exists>cols rows. fst (lease_sql s (map c_str ps) (tab w)) = Pg_tuples_ok cols rows \<and>
       qr_rows x = map (map (\<lambda>v. case v of None \<Rightarrow> [] | Some t \<Rightarrow> t)) rows))"
proof (cases "pg_conn d")
  case None
  then show ?thesis using run by (auto simp: pg_query_def)
next
  case (Some c)
  have m: "s \<in> set lease_statements" using s by auto
  have same: "snd (lease_sql s (map c_str ps) (tab w)) = tab w" using s by (auto simp: lease_sql_def lease_distinct)
  have law: "pq_execParams pq c s (map c_str ps) w = (g, v) \<Longrightarrow>
      tab v = tab w \<and> (g = Pg_error \<or> g = fst (lease_sql s (map c_str ps) (tab w)))" for g v
    using L m same unfolding lease_server_def by (metis fst_conv snd_conv)
  show ?thesis
  proof (cases "pq_status pq c w")
    case False
    then show ?thesis using run Some by (auto simp: pg_query_def)
  next
    case True
    obtain g v where g: "pq_execParams pq c s (map c_str ps) w = (g, v)" by (cases "pq_execParams pq c s (map c_str ps) w")
    then show ?thesis using run Some True law [OF g] m by (cases g) (auto simp: pg_query_def, metis)
  qed
qed

section \<open>The row of a lease is exclusive\<close>

text \<open>Another worker's statements leave an unexpired row alone.\<close>

definition clean :: "string \<Rightarrow> bool" where
  "clean s \<longleftrightarrow> CHR 0x00 \<notin> set s"

definition stamp_ok :: "int \<Rightarrow> bool" where
  "stamp_ok t \<longleftrightarrow> - (2 ^ 63) \<le> t \<and> t < 2 ^ 63"

lemma upsert_other:
  "t k = Some r \<Longrightarrow> le_owner r \<noteq> wid \<Longrightarrow> now \<le> le_expires r \<Longrightarrow> lease_upsert k' wid x now t k = Some r"
  by (auto simp: lease_upsert_def split: option.splits)

lemma renew_other: "t k = Some r \<Longrightarrow> le_owner r \<noteq> wid \<Longrightarrow> lease_renew x k' wid ep t k = Some r"
  by (auto simp: lease_renew_def split: option.splits)

lemma delete_other: "t k = Some r \<Longrightarrow> le_owner r \<noteq> wid \<Longrightarrow> lease_delete k' wid ep t k = Some r"
  by (auto simp: lease_delete_def split: option.splits)

datatype ls_op = Acquire TimestampMs | Renew TimestampMs | Release

fun ls_exec :: "('c, 'w) libpq \<Rightarrow> ls_op \<Rightarrow> LiveSupervisor \<Rightarrow> 'c Db option \<Rightarrow> 'w \<Rightarrow> LiveSupervisor \<times> 'c Db option \<times> 'w" where
  "ls_exec pq (Acquire now) l db w = snd (ls_acquire pq now l db w)"
| "ls_exec pq (Renew now) l db w = snd (ls_renew pq now l db w)"
| "ls_exec pq Release l db w = ls_release pq l db w"

fun op_before :: "TimestampMs \<Rightarrow> ls_op \<Rightarrow> bool" where
  "op_before t (Acquire now) \<longleftrightarrow> stamp_ok now \<and> now \<le> t"
| "op_before t (Renew now) \<longleftrightarrow> True"
| "op_before t Release \<longleftrightarrow> True"

lemma acquire_other:
  assumes L: "lease_server pq tab" and row: "tab w k = Some r" "le_owner r \<noteq> lc_workerId (ls_cfg l)"
    and cl: "clean (lc_workerId (ls_cfg l))" and now: "stamp_ok now" "now \<le> le_expires r"
    and run: "ls_acquire pq now l db w = (res, l', db', w')"
  shows "ls_cfg l' = ls_cfg l \<and> tab w' k = Some r"
proof (cases "\<exists>d. db = Some (Pg d)")
  case False
  then show ?thesis using run row by (auto simp: ls_acquire_def gainAuthority_def split: option.splits Db.splits)
next
  case True
  then obtain d where d: "db = Some (Pg d)" by blast
  let ?cfg = "ls_cfg l" let ?ps = "[lc_lockKey ?cfg, lc_workerId ?cfg, show_int (now + lc_leaseTtlSeconds ?cfg * 1000), show_int now]"
  obtain r1 d1 w1 where one: "executeParams pq lease_upsert_sql ?ps d w = (r1, d1, w1)" by (metis prod_cases3)
  obtain qr d2 w2 where two: "pg_query pq lease_epoch_sql [lc_lockKey ?cfg, lc_workerId ?cfg] d1 w1 = (qr, d2, w2)" by (metis prod_cases3)
  have "strtoll (show_int now) = now" using now(1) by (intro strtoll_show_int) (simp_all add: stamp_ok_def)
  then have "snd (lease_sql lease_upsert_sql (map c_str ?ps) (tab w)) k = Some r"
    using upsert_other [of "tab w" k r "lc_workerId ?cfg" now] row now(2) cl by (simp add: lease_sql_def clean_def)
  then have t1: "tab w1 k = Some r" using lease_execute [OF L _ one] row(1) by (auto split: if_splits)
  then have "tab w2 k = Some r" using lease_query [OF L _ two] by simp
  then show ?thesis using run d one two t1 by (cases r1) (auto simp: ls_acquire_def gainAuthority_def)
qed

lemma renew_other_row:
  assumes L: "lease_server pq tab" and row: "tab w k = Some r" "le_owner r \<noteq> lc_workerId (ls_cfg l)"
    and cl: "clean (lc_workerId (ls_cfg l))" and run: "ls_renew pq now l db w = (res, l', db', w')"
  shows "ls_cfg l' = ls_cfg l \<and> tab w' k = Some r"
proof (cases "\<exists>d. db = Some (Pg d)")
  case False
  then show ?thesis using run row by (auto simp: ls_renew_def split: option.splits Db.splits if_splits)
next
  case True
  then obtain d where d: "db = Some (Pg d)" by blast
  let ?cfg = "ls_cfg l"
  let ?ps = "[show_int (now + lc_leaseTtlSeconds ?cfg * 1000), lc_lockKey ?cfg, lc_workerId ?cfg, show_nat (unat (ls_epoch l))]"
  obtain r1 d1 w1 where one: "executeParams pq lease_renew_sql ?ps d w = (r1, d1, w1)" by (metis prod_cases3)
  obtain qr d2 w2 where two: "pg_query pq lease_owner_sql [lc_lockKey ?cfg] d1 w1 = (qr, d2, w2)" by (metis prod_cases3)
  have "snd (lease_sql lease_renew_sql (map c_str ?ps) (tab w)) k = Some r"
    using renew_other [of "tab w" k r "lc_workerId ?cfg"] row cl by (simp add: lease_sql_def lease_distinct clean_def)
  then have t1: "tab w1 k = Some r" using lease_execute [OF L _ one] row(1) by (auto split: if_splits)
  then have "tab w2 k = Some r" using lease_query [OF L _ two] by simp
  then show ?thesis using run d one two t1 row
    by (cases r1) (auto simp: ls_renew_def loseAuthority_def split: if_splits)
qed

lemma release_other:
  assumes L: "lease_server pq tab" and row: "tab w k = Some r" "le_owner r \<noteq> lc_workerId (ls_cfg l)"
    and cl: "clean (lc_workerId (ls_cfg l))" and run: "ls_release pq l db w = (l', db', w')"
  shows "ls_cfg l' = ls_cfg l \<and> tab w' k = Some r"
proof (cases "\<exists>d. db = Some (Pg d)")
  case False
  then show ?thesis using run row by (auto simp: ls_release_def loseAuthority_def split: option.splits Db.splits if_splits)
next
  case True
  then obtain d where d: "db = Some (Pg d)" by blast
  let ?ps = "[lc_lockKey (ls_cfg l), lc_workerId (ls_cfg l), show_nat (unat (ls_epoch l))]"
  obtain r1 d1 w1 where one: "executeParams pq lease_delete_sql ?ps d w = (r1, d1, w1)" by (metis prod_cases3)
  have "snd (lease_sql lease_delete_sql (map c_str ?ps) (tab w)) k = Some r"
    using delete_other [of "tab w" k r "lc_workerId (ls_cfg l)"] row cl by (simp add: lease_sql_def lease_distinct clean_def)
  then have "tab w1 k = Some r" using lease_execute [OF L _ one] row(1) by (auto split: if_splits)
  then show ?thesis using run d one by (auto simp: ls_release_def loseAuthority_def)
qed

lemma exec_other:
  assumes "lease_server pq tab" and "tab w k = Some r" and "le_owner r \<noteq> lc_workerId (ls_cfg l)"
    and "clean (lc_workerId (ls_cfg l))" and "op_before (le_expires r) op" and run: "ls_exec pq op l db w = (l', db', w')"
  shows "ls_cfg l' = ls_cfg l \<and> tab w' k = Some r"
proof (cases op)
  case (Acquire now)
  obtain res where "ls_acquire pq now l db w = (res, l', db', w')" using run Acquire by (cases "ls_acquire pq now l db w") simp
  then show ?thesis using acquire_other [OF assms(1-4), of now db] assms(5) Acquire by auto
next
  case (Renew now)
  obtain res where "ls_renew pq now l db w = (res, l', db', w')" using run Renew by (cases "ls_renew pq now l db w") simp
  then show ?thesis by (rule renew_other_row [OF assms(1-4)])
next
  case Release
  then show ?thesis using release_other [OF assms(1-4)] run by simp
qed

text \<open>Any number of workers, each with its own supervisor and connection.\<close>

definition worker_step :: "('c, 'w) libpq \<Rightarrow> nat \<times> ls_op \<Rightarrow> (nat \<Rightarrow> LiveSupervisor \<times> 'c Db option) \<times> 'w \<Rightarrow>
    (nat \<Rightarrow> LiveSupervisor \<times> 'c Db option) \<times> 'w" where
  "worker_step pq a s =
     (case (a, s) of ((i, op), (ws, w)) \<Rightarrow>
        case ls_exec pq op (fst (ws i)) (snd (ws i)) w of (l, db, w) \<Rightarrow> (ws(i := (l, db)), w))"

definition worker_id :: "LiveSupervisor \<times> 'c Db option \<Rightarrow> string" where
  "worker_id x = lc_workerId (ls_cfg (fst x))"


text \<open>Acquiring is not owning. Where another worker holds the lease and it has not expired, \<open>acquire\<close> may still succeed, and whenever
  it does it grants authority although the row keeps its owner; only the next \<open>renew\<close>, whose
  check fails, takes the authority away again.\<close>

theorem acquire_without_lease:
  assumes L: "lease_server pq tab" and "tab w (lc_lockKey (ls_cfg l)) = Some r" and "le_owner r \<noteq> lc_workerId (ls_cfg l)"
    and "clean (lc_workerId (ls_cfg l))" and "clean (lc_lockKey (ls_cfg l))" and "stamp_ok now" and "now \<le> le_expires r"
    and run: "ls_acquire pq now l (Some (Pg d)) w = (Inr u, l', db', w')"
  shows "ls_has_authority l' \<and> tab w' (lc_lockKey (ls_cfg l)) = Some r \<and>
    (case ls_renew pq now' l' db' w' of (res, l'', _) \<Rightarrow> \<not> Result_ok res \<and> \<not> ls_has_authority l'')"
proof -
  note A = acquire_other [OF assms(1-4,6,7) run]
  have auth: "ls_has_authority l'" and db: "\<exists>d'. db' = Some (Pg d')"
    using run by (auto simp: ls_acquire_def gainAuthority_def Let_def split: prod.splits sum.splits)
  then obtain d' where d': "db' = Some (Pg d')" by blast
  let ?cfg = "ls_cfg l"
  let ?ps = "[show_int (now' + lc_leaseTtlSeconds ?cfg * 1000), lc_lockKey ?cfg, lc_workerId ?cfg, show_nat (unat (ls_epoch l'))]"
  obtain r1 d1 w1 where one: "executeParams pq lease_renew_sql ?ps d' w' = (r1, d1, w1)" by (metis prod_cases3)
  obtain qr d2 w2 where two: "pg_query pq lease_owner_sql [lc_lockKey ?cfg] d1 w1 = (qr, d2, w2)" by (metis prod_cases3)
  have "snd (lease_sql lease_renew_sql (map c_str ?ps) (tab w')) (lc_lockKey ?cfg) = Some r"
    using renew_other [of "tab w'" "lc_lockKey ?cfg" r "lc_workerId ?cfg"] A assms(3,4) by (simp add: lease_sql_def lease_distinct clean_def)
  then have t1: "tab w1 (lc_lockKey ?cfg) = Some r" using lease_execute [OF L _ one] A by (auto split: if_splits)
  have "\<not> owns (lc_workerId ?cfg) qr"
    using lease_query [OF L _ two] t1 assms(3,5)
    by (cases qr) (auto simp: owns_def lease_sql_def lease_distinct clean_def)
  then have "case ls_renew pq now' l' db' w' of (res, l'', _) \<Rightarrow> \<not> Result_ok res \<and> \<not> ls_has_authority l''"
    using auth d' one two A by (cases r1) (auto simp: ls_renew_def loseAuthority_def)
  then show ?thesis using auth A by blast
qed

definition lease_libpq :: "(unit, leases) libpq" where
  "lease_libpq =
     \<lparr>pq_connectdb = (\<lambda>s w. ((), w)), pq_status = (\<lambda>c w. True), pq_exec = (\<lambda>c s w. (Pg_command_ok, w)),
      pq_execParams = (\<lambda>c. lease_sql), pq_errorMessage = (\<lambda>c w. ''refused''), pq_finish = (\<lambda>c w. w)\<rparr>"

lemma lease_libpq_server: "lease_server lease_libpq (\<lambda>w. w)"
  by (auto simp: lease_server_def lease_libpq_def)

definition demo_leases :: leases where
  "demo_leases = [''prediction_worker'' \<mapsto> \<lparr>le_owner = ''w1'', le_epoch = 3, le_expires = 9000\<rparr>]"

definition demo_worker :: "string \<Rightarrow> LiveSupervisor" where
  "demo_worker i = LiveSupervisor_new 1 0 (LsConfig_default\<lparr>lc_workerId := i\<rparr>)"

lemma demo_worker_cfg [simp]:
  "lc_workerId (ls_cfg (demo_worker (a # s))) = a # s" "lc_lockKey (ls_cfg (demo_worker (a # s))) = ''prediction_worker''"
  by (simp_all add: demo_worker_def LiveSupervisor_new_def ensureWorkerId_def LsConfig_default_def)


theorem acquire_without_lease_witness:
  "\<exists>u l' db' w'. ls_acquire lease_libpq 5000 (demo_worker ''w2'') (Some (Pg demo_pg)) demo_leases = (Inr u, l', db', w') \<and>
     ls_has_authority l' \<and> w' ''prediction_worker'' = Some \<lparr>le_owner = ''w1'', le_epoch = 3, le_expires = 9000\<rparr>"
proof -
  obtain r l' db' w' where e: "ls_acquire lease_libpq 5000 (demo_worker ''w2'') (Some (Pg demo_pg)) demo_leases = (r, l', db', w')"
    by (metis prod_cases4)
  have "Result_ok (fst (ls_acquire lease_libpq 5000 (demo_worker ''w2'') (Some (Pg demo_pg)) demo_leases))"
    by (simp add: ls_acquire_def executeParams_def pg_run_def demo_pg_def lease_libpq_def lease_sql_def Let_def split: prod.split)
  then obtain u where r: "r = Inr u" by (cases r) (simp_all add: e)
  have "ls_has_authority l' \<and> w' (lc_lockKey (ls_cfg (demo_worker ''w2''))) = Some \<lparr>le_owner = ''w1'', le_epoch = 3, le_expires = 9000\<rparr> \<and>
    (case ls_renew lease_libpq 6000 l' db' w' of (res, l'', _) \<Rightarrow> \<not> Result_ok res \<and> \<not> ls_has_authority l'')"
    by (rule acquire_without_lease [OF lease_libpq_server _ _ _ _ _ _ e [unfolded r]])
      (simp_all add: demo_leases_def clean_def stamp_ok_def)
  then show ?thesis using e r by auto
qed

section \<open>The gate and the sessions\<close>

record GateCache =
  gc_worker_id :: string
  gc_epoch :: u64
  gc_authority :: bool
  gc_last_hb_ms :: TimestampMs

definition gc_setWorkerId :: "string \<Rightarrow> GateCache \<Rightarrow> GateCache" where
  "gc_setWorkerId i g = g\<lparr>gc_worker_id := i\<rparr>"

definition gc_setEpoch :: "u64 \<Rightarrow> GateCache \<Rightarrow> GateCache" where
  "gc_setEpoch e g = g\<lparr>gc_epoch := e\<rparr>"

definition gc_setHasAuthority :: "bool \<Rightarrow> GateCache \<Rightarrow> GateCache" where
  "gc_setHasAuthority v g = g\<lparr>gc_authority := v\<rparr>"

definition gc_allow :: "u64 \<Rightarrow> GateCache \<Rightarrow> bool" where
  "gc_allow expectedEpoch g \<longleftrightarrow> gc_authority g \<and> gc_epoch g = expectedEpoch"

definition gc_noteHeartbeat :: "TimestampMs \<Rightarrow> GateCache \<Rightarrow> GateCache" where
  "gc_noteHeartbeat now g = g\<lparr>gc_last_hb_ms := now\<rparr>"

definition gc_isStale :: "TimestampMs \<Rightarrow> int \<Rightarrow> GateCache \<Rightarrow> bool" where
  "gc_isStale now maxAgeMs g \<longleftrightarrow> gc_last_hb_ms g = 0 \<or> now - gc_last_hb_ms g > maxAgeMs"

record Session =
  se_id :: string
  se_userId :: string
  se_expiresAtMs :: TimestampMs
  se_role :: string

type_synonym SessionStore = "string \<rightharpoonup> Session"

text \<open>\<open>create\<close> reads the clock twice.\<close>

definition ss_create :: "TimestampMs \<Rightarrow> TimestampMs \<Rightarrow> string \<Rightarrow> string \<Rightarrow> int \<Rightarrow> SessionStore \<Rightarrow> string \<times> SessionStore" where
  "ss_create now now' userId role ttlMs m =
     (let i = userId @ ''-'' @ show_int now
      in (i, m(i \<mapsto> \<lparr>se_id = i, se_userId = userId, se_expiresAtMs = now' + ttlMs, se_role = role\<rparr>)))"

definition ss_get :: "TimestampMs \<Rightarrow> string \<Rightarrow> SessionStore \<Rightarrow> Session option" where
  "ss_get now i m = (case m i of None \<Rightarrow> None | Some s \<Rightarrow> if se_expiresAtMs s < now then None else Some s)"

definition ss_revoke :: "string \<Rightarrow> SessionStore \<Rightarrow> SessionStore" where
  "ss_revoke i m = m(i := None)"

definition ss_authorize :: "TimestampMs \<Rightarrow> string \<Rightarrow> string \<Rightarrow> SessionStore \<Rightarrow> bool" where
  "ss_authorize now i minRole m =
     (case ss_get now i m of
        None \<Rightarrow> False
      | Some s \<Rightarrow>
          if minRole = ''viewer'' then True
          else if minRole = ''operator'' then se_role s = ''operator'' \<or> se_role s = ''admin''
          else if minRole = ''admin'' then se_role s = ''admin''
          else False)"

lemma authorize_spec:
  "ss_authorize now i need m \<longleftrightarrow>
     (\<exists>s. m i = Some s \<and> now \<le> se_expiresAtMs s \<and>
        (need = ''viewer'' \<or> need = ''operator'' \<and> se_role s \<in> {''operator'', ''admin''} \<or> need = ''admin'' \<and> se_role s = ''admin''))"
  by (auto simp: ss_authorize_def ss_get_def split: option.splits if_splits)

text \<open>A session lives from its creation to its expiry or its revocation, and two created in the same millisecond for one user are one.\<close>

lemma session_lifecycle:
  "ss_get now (fst (ss_create t t' u r ttl m)) (snd (ss_create t t' u r ttl m)) =
     (if t' + ttl < now then None else Some \<lparr>se_id = u @ ''-'' @ show_int t, se_userId = u, se_expiresAtMs = t' + ttl, se_role = r\<rparr>)"
  "\<not> ss_authorize now i need (ss_revoke i m)"
  "fst (ss_create t t' u r ttl m) = fst (ss_create t t'' u r' ttl' m')"
  by (simp_all add: ss_create_def ss_get_def Let_def ss_authorize_def ss_revoke_def)

section \<open>Booting\<close>

text \<open>\<open>LiveBoot::run\<close>: what the deployment supplies are functions on its state \<open>'w\<close>; the lease is taken by \<open>acq\<close>. An absent
  dependency is \<open>None\<close>. A step gives the message of the exception it throws, or none.\<close>

record 'w BootDeps =
  bd_validateSchema :: "('w \<Rightarrow> unit Result \<times> 'w) option"
  bd_acquire :: "('w \<Rightarrow> unit Result \<times> 'w) option"
  bd_seed :: "('w \<Rightarrow> unit Result \<times> 'w) option"
  bd_prewarm :: "('w \<Rightarrow> 'w) option"
  bd_startPoll :: "('w \<Rightarrow> 'w) option"

record BootResult =
  br_ok :: bool
  br_finalStage :: ReadinessStage
  br_durationMs :: int
  br_error :: string

definition boot_try :: "('w \<Rightarrow> unit Result \<times> 'w) option \<Rightarrow> 'w \<Rightarrow> string option \<times> 'w" where
  "boot_try f w =
     (case f of
        None \<Rightarrow> (None, w)
      | Some g \<Rightarrow> (case g w of (Inl e, w) \<Rightarrow> (Some (err_message e), w) | (Inr _, w) \<Rightarrow> (None, w)))"

definition boot_do :: "('w \<Rightarrow> 'w) option \<Rightarrow> 'w \<Rightarrow> 'w" where
  "boot_do f w = (case f of None \<Rightarrow> w | Some g \<Rightarrow> g w)"

definition boot_failed :: "int \<Rightarrow> string \<Rightarrow> ReadinessBarrier \<Rightarrow> BootResult" where
  "boot_failed ms msg b = \<lparr>br_ok = False, br_finalStage = rb_stage b, br_durationMs = ms, br_error = msg\<rparr>"

text \<open>The events each \<open>advanceTo\<close> hands to the drain handler are collected in order; \<open>ms\<close> is the difference of the two clock
  readings. The durations of the single stages are a measurement and left out.\<close>

definition boot_run :: "int \<Rightarrow> 'w BootDeps \<Rightarrow> ReadinessBarrier \<Rightarrow> 'w \<Rightarrow> BootResult \<times> CrashEvent list \<times> ReadinessBarrier \<times> 'w" where
  "boot_run ms deps b w =
     (let (_, es0, b) = advanceTo Rs_Booting b
      in case boot_try (bd_validateSchema deps) w of
           (Some msg, w) \<Rightarrow> (boot_failed ms msg b, es0, b, w)
         | (None, w) \<Rightarrow>
             (case boot_try (bd_acquire deps) w of
                (Some msg, w) \<Rightarrow> (boot_failed ms msg b, es0, b, w)
              | (None, w) \<Rightarrow>
                  let (_, es1, b) = advanceTo Rs_MinimalStateReady b
                  in case boot_try (bd_seed deps) w of
                       (Some msg, w) \<Rightarrow> (boot_failed ms msg b, es0 @ es1, b, w)
                     | (None, w) \<Rightarrow>
                         let (_, es2, b) = advanceTo Rs_PredictionStateReady b;
                             w = boot_do (bd_startPoll deps) (boot_do (bd_prewarm deps) w);
                             (_, es3, b) = advanceTo Rs_LiveN1Ready b;
                             (_, es4, b) = advanceTo Rs_FullHydrationReady b
                         in (\<lparr>br_ok = True, br_finalStage = rb_stage b, br_durationMs = ms, br_error = []\<rparr>, es0 @ es1 @ es2 @ es3 @ es4, b, w)))"

lemma advance_simps:
  "rb_stage b = Rs_Booting \<Longrightarrow> advanceTo Rs_Booting b = (False, [], b)"
  "rb_stage b = Rs_Booting \<Longrightarrow> advanceTo Rs_MinimalStateReady b = (True, [], b\<lparr>rb_stage := Rs_MinimalStateReady\<rparr>)"
  "rb_stage b = Rs_MinimalStateReady \<Longrightarrow> advanceTo Rs_PredictionStateReady b = (True, [], b\<lparr>rb_stage := Rs_PredictionStateReady\<rparr>)"
  "rb_stage b = Rs_PredictionStateReady \<Longrightarrow>
     advanceTo Rs_LiveN1Ready b = (True, if rb_has_drain_handler b then rb_held b else [], b\<lparr>rb_stage := Rs_LiveN1Ready, rb_held := []\<rparr>)"
  "rb_stage b = Rs_LiveN1Ready \<Longrightarrow>
     advanceTo Rs_FullHydrationReady b = (True, if rb_has_drain_handler b then rb_held b else [], b\<lparr>rb_stage := Rs_FullHydrationReady, rb_held := []\<rparr>)"
  by (simp_all add: advanceTo_def rb_cas_def drainHeld_def rb_take_def Let_def)

text \<open>The error of the first of the three steps that fails.\<close>

definition first_error :: "'w BootDeps \<Rightarrow> 'w \<Rightarrow> string option" where
  "first_error deps w =
     (case boot_try (bd_validateSchema deps) w of
        (Some msg, _) \<Rightarrow> Some msg
      | (None, w) \<Rightarrow> (case boot_try (bd_acquire deps) w of (Some msg, _) \<Rightarrow> Some msg | (None, w) \<Rightarrow> fst (boot_try (bd_seed deps) w)))"

text \<open>Booting opens the gate only when every step succeeded. From a barrier that is booting, the boot succeeds exactly when the schema is
  valid, the lease is acquired and the seeding works; then the barrier is at its last stage and the held events were handed over
  once, in order. Otherwise the error of the first failing step is reported, no event is handed over or lost, and the
  barrier is not live.\<close>

theorem boot_all_steps:
  assumes "rb_stage b = Rs_Booting" and "rb_has_drain_handler b" and "boot_run ms deps b w = (br, es, b', w')"
  shows "if br_ok br
    then rb_stage b' = Rs_FullHydrationReady \<and> es = rb_held b \<and> rb_held b' = [] \<and>
      first_error deps w = None
    else es = [] \<and> rb_held b' = rb_held b \<and> \<not> isLiveReady b' \<and> br_finalStage br = rb_stage b' \<and>
      first_error deps w = Some (br_error br)"
proof -
  obtain m1 w1 where one: "boot_try (bd_validateSchema deps) w = (m1, w1)" by (cases "boot_try (bd_validateSchema deps) w")
  obtain m2 w2 where two: "boot_try (bd_acquire deps) w1 = (m2, w2)" by (cases "boot_try (bd_acquire deps) w1")
  obtain m3 w3 where three: "boot_try (bd_seed deps) w2 = (m3, w3)" by (cases "boot_try (bd_seed deps) w2")
  note B = assms(3) [symmetric, unfolded boot_run_def, simplified one two three advance_simps assms(1)]
  show ?thesis
  proof (cases m1; cases m2; cases m3)
    assume m: "m1 = None" "m2 = None" "m3 = None"
    then show ?thesis using B one two three assms(1,2) by (simp add: advance_simps first_error_def)
  qed (use B one two three assms(1) in \<open>auto simp: boot_failed_def isLiveReady_def advance_simps first_error_def\<close>)
qed

definition demo_deps :: "unit BootDeps" where
  "demo_deps =
     \<lparr>bd_validateSchema = None, bd_acquire = Some (\<lambda>w. (Inr (), w)), bd_seed = Some (\<lambda>w. (Inl (mkError EC_IoError ''no seed''), w)),
      bd_prewarm = None, bd_startPoll = None\<rparr>"

definition demo_barrier :: ReadinessBarrier where
  "demo_barrier = (setDrainHandler (ReadinessBarrier_new 4))\<lparr>rb_held := [CrashEvent_default]\<rparr>"

theorem boot_all_steps_witness:
  "(case boot_run 12 demo_deps demo_barrier () of (br, es, b', w') \<Rightarrow> \<not> br_ok br \<and> es = [] \<and> rb_held b' = [CrashEvent_default]) \<and>
   (case boot_run 12 (demo_deps\<lparr>bd_seed := None\<rparr>) demo_barrier () of (br, es, b', w') \<Rightarrow> br_ok br \<and> es = [CrashEvent_default])"
proof -
  have b: "rb_stage demo_barrier = Rs_Booting" "rb_has_drain_handler demo_barrier" "rb_held demo_barrier = [CrashEvent_default]"
    by (simp_all add: demo_barrier_def setDrainHandler_def ReadinessBarrier_new_def)
  have e: "first_error demo_deps () = Some ''no seed''" "first_error (demo_deps\<lparr>bd_seed := None\<rparr>) () = None"
    by (simp_all add: first_error_def boot_try_def demo_deps_def mkError_def)
  obtain br es b' w' where r: "boot_run 12 demo_deps demo_barrier () = (br, es, b', w')" by (metis prod_cases4)
  obtain br1 es1 b1 w1 where r1: "boot_run 12 (demo_deps\<lparr>bd_seed := None\<rparr>) demo_barrier () = (br1, es1, b1, w1)" by (metis prod_cases4)
  show ?thesis using boot_all_steps [OF b(1,2) r] boot_all_steps [OF b(1,2) r1] e b(3) r r1 by (auto split: if_splits)
qed

end
