(* ===== verification/Workers.thy ===== *)
theory Workers
  imports Queues "HOL-Library.Multiset"
begin

text \<open>
  \<open>WorkerPool\<close> (\<open>include/concurrency/worker_pool.hpp\<close>) and \<open>Worker\<close> (\<open>worker.hpp\<close>): bounded queues of tasks with work stealing. A
  \<open>Task\<close> is an optional callable; a task that was moved from is the empty one, which runs as nothing. A call works on the queues as
  it finds them; what other threads do while \<open>submit\<close> waits is an argument.
\<close>

section \<open>The pool\<close>

type_synonym 'a Task = "'a option"

record 'a WorkerPool =
  wp_n :: nat
  wp_queues :: "'a Task BoundedQueue list"
  wp_running :: bool
  wp_submits :: u64
  wp_drops :: u64
  wp_steals :: u64

definition WorkerPool_new :: "nat \<Rightarrow> nat \<Rightarrow> 'a WorkerPool" where
  "WorkerPool_new num_workers queue_capacity =
     (let n = (if num_workers \<noteq> 0 then num_workers else 1)
      in \<lparr>wp_n = n, wp_queues = replicate n (BoundedQueue_new None queue_capacity), wp_running = False, wp_submits = 0,
          wp_drops = 0, wp_steals = 0\<rparr>)"

text \<open>The scan for the shortest queue: the first of the shortest.\<close>

fun shortest :: "nat \<Rightarrow> nat \<Rightarrow> nat \<Rightarrow> nat list \<Rightarrow> nat" where
  "shortest best bestSize i [] = best"
| "shortest best bestSize i (s # ss) = (if s < bestSize then shortest i s (Suc i) ss else shortest best bestSize (Suc i) ss)"

definition best_queue :: "'a WorkerPool \<Rightarrow> nat" where
  "best_queue p =
     (case map bq_size (wp_queues p) of [] \<Rightarrow> 0 | s # ss \<Rightarrow> shortest 0 s 1 ss)"

definition wp_offer :: "nat \<Rightarrow> 'a Task \<Rightarrow> 'a WorkerPool \<Rightarrow> bool \<times> 'a WorkerPool" where
  "wp_offer i t p =
     (case bq_try_push (wp_queues p ! i) t of
        (ok, q) \<Rightarrow> (ok, p\<lparr>wp_queues := (wp_queues p)[i := q], wp_submits := (if ok then wp_submits p + 1 else wp_submits p)\<rparr>))"

text \<open>The second loop of \<open>try_submit\<close>. The task was moved into the first \<open>try_push\<close>, so what it offers is an empty one.\<close>

fun offer_all :: "nat list \<Rightarrow> 'a Task \<Rightarrow> 'a WorkerPool \<Rightarrow> bool \<times> 'a WorkerPool" where
  "offer_all [] t p = (False, p\<lparr>wp_drops := wp_drops p + 1\<rparr>)"
| "offer_all (i # is) t p = (case wp_offer i t p of (True, p) \<Rightarrow> (True, p) | (False, p) \<Rightarrow> offer_all is None p)"

definition submit_to :: "nat \<Rightarrow> 'a Task \<Rightarrow> 'a WorkerPool \<Rightarrow> bool \<times> 'a WorkerPool" where
  "submit_to best t p =
     (case wp_offer best t p of
        (True, p) \<Rightarrow> (True, p)
      | (False, p) \<Rightarrow> offer_all [0..<wp_n p] None p)"

definition try_submit :: "'a Task \<Rightarrow> 'a WorkerPool \<Rightarrow> bool \<times> 'a WorkerPool" where
  "try_submit t p = submit_to (best_queue p) t p"

text \<open>\<open>submit\<close>: after a failed \<open>try_submit\<close>, which took the task, a timed push of what is left of it. \<open>others\<close> is what the
  other threads do meanwhile; a timeout that is not positive waits without end.\<close>

definition wp_submit :: "('a WorkerPool \<Rightarrow> 'a WorkerPool) \<Rightarrow> 'a Task \<Rightarrow> int \<Rightarrow> 'a WorkerPool \<Rightarrow> (bool \<times> 'a WorkerPool) option" where
  "wp_submit others t timeout p =
     (case try_submit t p of
        (True, p) \<Rightarrow> Some (True, p)
      | (False, p) \<Rightarrow>
          let p = others p
          in case bq_push (wp_queues p ! 0) None timeout of
               None \<Rightarrow> None
             | Some (True, q) \<Rightarrow> Some (True, p\<lparr>wp_queues := (wp_queues p)[0 := q], wp_submits := wp_submits p + 1\<rparr>)
             | Some (False, q) \<Rightarrow> Some (False, p\<lparr>wp_queues := (wp_queues p)[0 := q], wp_drops := wp_drops p + 1\<rparr>))"

text \<open>A worker takes from its own queue, or from the first other one that has a task.\<close>

fun steal :: "nat list \<Rightarrow> 'a WorkerPool \<Rightarrow> 'a Task option \<times> 'a WorkerPool" where
  "steal [] p = (None, p)"
| "steal (j # js) p =
     (case bq_try_pop (wp_queues p ! j) of
        (Some t, q) \<Rightarrow> (Some t, p\<lparr>wp_queues := (wp_queues p)[j := q], wp_steals := wp_steals p + 1\<rparr>)
      | (None, q) \<Rightarrow> steal js (p\<lparr>wp_queues := (wp_queues p)[j := q]\<rparr>))"

definition worker_take :: "nat \<Rightarrow> 'a WorkerPool \<Rightarrow> 'a Task option \<times> 'a WorkerPool" where
  "worker_take i p =
     (case bq_try_pop (wp_queues p ! i) of
        (Some t, q) \<Rightarrow> (Some t, p\<lparr>wp_queues := (wp_queues p)[i := q]\<rparr>)
      | (None, q) \<Rightarrow> steal (map (\<lambda>j. (i + j) mod wp_n p) [1..<wp_n p]) (p\<lparr>wp_queues := (wp_queues p)[i := q]\<rparr>))"

definition wp_start :: "'a WorkerPool \<Rightarrow> 'a WorkerPool" where
  "wp_start p = p\<lparr>wp_running := True\<rparr>"

definition wp_stop :: "'a WorkerPool \<Rightarrow> 'a WorkerPool" where
  "wp_stop p = p\<lparr>wp_running := False, wp_queues := map bq_close (wp_queues p)\<rparr>"

definition wp_queue_size :: "'a WorkerPool \<Rightarrow> nat" where
  "wp_queue_size p = sum_list (map bq_size (wp_queues p))"

section \<open>Every task once\<close>

text \<open>The queues of a pool have one capacity and are open or closed together.\<close>

definition wp_inv :: "nat \<Rightarrow> bool \<Rightarrow> 'a WorkerPool \<Rightarrow> bool" where
  "wp_inv c cl p \<longleftrightarrow>
     0 < wp_n p \<and> length (wp_queues p) = wp_n p \<and> (\<forall>q \<in> set (wp_queues p). bq_inv q \<and> bq_cap q = c \<and> bq_closed q = cl)"

definition wp_tasks :: "'a WorkerPool \<Rightarrow> 'a Task multiset" where
  "wp_tasks p = (\<Sum>q \<leftarrow> wp_queues p. mset (bq_list q))"

lemma sum_list_update_mset:
  "i < length xs \<Longrightarrow> (\<Sum>x \<leftarrow> xs[i := y]. f x) + f (xs ! i) = (\<Sum>x \<leftarrow> xs. f x :: 'b multiset) + f y"
  by (induction xs arbitrary: i) (auto simp: nth_Cons' gr0_conv_Suc split: nat.splits)

lemma tasks_update:
  assumes "i < length (wp_queues p)" and "mset (bq_list q) = mset (bq_list (wp_queues p ! i)) + m"
  shows "wp_tasks (p\<lparr>wp_queues := (wp_queues p)[i := q]\<rparr>) = wp_tasks p + m"
  using sum_list_update_mset [OF assms(1), of "\<lambda>q. mset (bq_list q)" q] assms(2) by (simp add: wp_tasks_def ac_simps)

lemma wp_inv_nth: "wp_inv c cl p \<Longrightarrow> i < wp_n p \<Longrightarrow> bq_inv (wp_queues p ! i) \<and> bq_cap (wp_queues p ! i) = c \<and> bq_closed (wp_queues p ! i) = cl"
  by (simp add: wp_inv_def)

lemma wp_inv_update:
  "wp_inv c cl p \<Longrightarrow> bq_inv q \<Longrightarrow> bq_cap q = c \<Longrightarrow> bq_closed q = cl \<Longrightarrow> wp_inv c cl (p\<lparr>wp_queues := (wp_queues p)[i := q]\<rparr>)"
  by (auto simp: wp_inv_def dest!: set_update_subset_insert [THEN subsetD])

lemma wp_frame [simp]:
  "wp_inv c cl (p\<lparr>wp_submits := n\<rparr>) = wp_inv c cl p" "wp_tasks (p\<lparr>wp_submits := n\<rparr>) = wp_tasks p"
  "wp_inv c cl (p\<lparr>wp_drops := n\<rparr>) = wp_inv c cl p" "wp_tasks (p\<lparr>wp_drops := n\<rparr>) = wp_tasks p"
  "wp_inv c cl (p\<lparr>wp_steals := n\<rparr>) = wp_inv c cl p" "wp_tasks (p\<lparr>wp_steals := n\<rparr>) = wp_tasks p"
  by (simp_all add: wp_inv_def wp_tasks_def)

lemma shortest_least:
  "best < i \<Longrightarrow> length pre = i \<Longrightarrow> pre ! best = bestSize \<Longrightarrow> (\<forall>s \<in> set pre. bestSize \<le> s) \<Longrightarrow>
   shortest best bestSize i ss < length (pre @ ss) \<and> (\<forall>s \<in> set (pre @ ss). (pre @ ss) ! shortest best bestSize i ss \<le> s)"
proof (induction ss arbitrary: best bestSize i pre)
  case Nil
  then show ?case by simp
next
  case (Cons s ss)
  show ?case
  proof (cases "s < bestSize")
    case True
    have "\<forall>x \<in> set (pre @ [s]). s \<le> x" using True Cons.prems(4) by fastforce
    moreover have "(pre @ [s]) ! i = s" using Cons.prems(2) by (simp add: nth_append)
    ultimately show ?thesis using Cons.IH [of i "Suc i" "pre @ [s]" s] True Cons.prems(2) by simp
  next
    case False
    have "\<forall>x \<in> set (pre @ [s]). bestSize \<le> x" using False Cons.prems(4) by auto
    moreover have "(pre @ [s]) ! best = bestSize" using Cons.prems(1-3) by (simp add: nth_append)
    ultimately show ?thesis using Cons.IH [of best "Suc i" "pre @ [s]" bestSize] False Cons.prems(1,2) by simp
  qed
qed

lemma best_queue_least:
  assumes "wp_inv c cl p"
  shows "best_queue p < wp_n p \<and> (\<forall>i < wp_n p. bq_size (wp_queues p ! best_queue p) \<le> bq_size (wp_queues p ! i))"
proof -
  obtain s ss where e: "map bq_size (wp_queues p) = s # ss" using assms by (cases "wp_queues p") (auto simp: wp_inv_def)
  have n: "length (wp_queues p) = wp_n p" using assms by (simp add: wp_inv_def)
  have "best_queue p < length (s # ss) \<and> (\<forall>x \<in> set (s # ss). (s # ss) ! best_queue p \<le> x)"
    using shortest_least [of 0 1 "[s]" s ss] by (simp add: best_queue_def e)
  then have "best_queue p < length (wp_queues p) \<and> (\<forall>x \<in> set (map bq_size (wp_queues p)). map bq_size (wp_queues p) ! best_queue p \<le> x)"
    by (metis e length_map)
  then show ?thesis using n by auto
qed

text \<open>An offer at any queue: the task is stored and the offer accepted, or nothing but a counter changes.\<close>

lemma wp_offer_cases:
  assumes "wp_inv c cl p" and "i < wp_n p" and "wp_offer i t p = (ok, p')"
  shows "wp_inv c cl p' \<and> wp_n p' = wp_n p \<and> wp_tasks p' = wp_tasks p + (if ok then {#t#} else {#}) \<and>
         ok = (\<not> cl \<and> bq_size (wp_queues p ! i) < c) \<and> (\<not> ok \<longrightarrow> p' = p)"
proof -
  let ?q = "wp_queues p ! i"
  have q: "bq_inv ?q" "bq_cap ?q = c" "bq_closed ?q = cl" using wp_inv_nth [OF assms(1,2)] by simp_all
  have len: "i < length (wp_queues p)" using assms(1,2) by (simp add: wp_inv_def)
  show ?thesis
  proof (cases "cl \<or> c \<le> bq_size ?q")
    case True
    then have "bq_try_push ?q t = (False, ?q)" using q by (simp add: bq_try_push_def)
    then show ?thesis using assms(3) assms(1) True by (auto simp: wp_offer_def)
  next
    case False
    let ?q' = "bq_store ?q t"
    have push: "bq_try_push ?q t = (True, ?q')" using False q by (simp add: bq_try_push_def)
    have st: "bq_inv ?q'" "bq_list ?q' = bq_list ?q @ [t]" using bq_store_ok [of ?q t] q False by simp_all
    have keep: "bq_cap ?q' = c" "bq_closed ?q' = cl" using q by (simp_all add: bq_store_def)
    have p': "p' = p\<lparr>wp_queues := (wp_queues p)[i := ?q']\<rparr>\<lparr>wp_submits := wp_submits p + 1\<rparr>" "ok"
      using assms(3) push by (simp_all add: wp_offer_def)
    show ?thesis
      using wp_inv_update [OF assms(1) st(1) keep] tasks_update [OF len, of ?q' "{#t#}"] st(2) False p' by simp
  qed
qed

text \<open>When the shortest queue has no room no queue has, so the second loop only counts the drop.\<close>

lemma offer_all_full:
  "wp_inv c cl p \<Longrightarrow> \<forall>i \<in> set is. i < wp_n p \<and> (cl \<or> c \<le> bq_size (wp_queues p ! i)) \<Longrightarrow>
   offer_all is t p = (False, p\<lparr>wp_drops := wp_drops p + 1\<rparr>)"
proof (induction "is" arbitrary: t)
  case Nil
  then show ?case by simp
next
  case (Cons i "is")
  obtain ok p' where o': "wp_offer i t p = (ok, p')" by fastforce
  have "\<not> ok \<and> p' = p" using wp_offer_cases [OF Cons.prems(1) _ o'] Cons.prems(2) by auto
  then show ?case using Cons o' by simp
qed

lemma try_submit_spec:
  assumes "wp_inv c cl p" and "try_submit t p = (ok, p')"
  shows "wp_inv c cl p' \<and> wp_n p' = wp_n p \<and> wp_tasks p' = wp_tasks p + (if ok then {#t#} else {#}) \<and>
         ok = (\<not> cl \<and> (\<exists>i < wp_n p. bq_size (wp_queues p ! i) < c))"
proof -
  let ?b = "best_queue p"
  note best = best_queue_least [OF assms(1)]
  obtain k r where o': "wp_offer ?b t p = (k, r)" by fastforce
  note h = wp_offer_cases [OF assms(1) conjunct1 [OF best] o']
  show ?thesis
  proof (cases k)
    case True
    then show ?thesis using h assms(2) o' best by (auto simp: try_submit_def submit_to_def)
  next
    case False
    have all: "cl \<or> c \<le> bq_size (wp_queues p ! i)" if "i < wp_n p" for i
      using h best False that by (meson le_trans not_less)
    then have full: "\<forall>i \<in> set [0..<wp_n p]. i < wp_n p \<and> (cl \<or> c \<le> bq_size (wp_queues p ! i))" by simp
    have "offer_all [0..<wp_n p] None p = (False, p\<lparr>wp_drops := wp_drops p + 1\<rparr>)"
      by (rule offer_all_full [OF assms(1) full])
    moreover have "\<not> (\<not> cl \<and> (\<exists>i < wp_n p. bq_size (wp_queues p ! i) < c))" using all by (meson not_less)
    ultimately show ?thesis using h assms o' False by (auto simp: try_submit_def submit_to_def)
  qed
qed

lemma steal_spec:
  "wp_inv c cl p \<Longrightarrow> \<forall>j \<in> set js. j < wp_n p \<Longrightarrow> steal js p = (r, p') \<Longrightarrow>
   wp_inv c cl p' \<and> wp_n p' = wp_n p \<and> wp_tasks p = wp_tasks p' + (case r of None \<Rightarrow> {#} | Some t \<Rightarrow> {#t#}) \<and>
   (r = None \<longrightarrow> (\<forall>j \<in> set js. bq_list (wp_queues p ! j) = []))"
proof (induction js)
  case Nil
  then show ?case by simp
next
  case (Cons j js)
  let ?q = "wp_queues p ! j"
  have j: "j < wp_n p" "j < length (wp_queues p)" using Cons.prems by (auto simp: wp_inv_def)
  have q: "bq_inv ?q" "bq_cap ?q = c" "bq_closed ?q = cl" using wp_inv_nth [OF Cons.prems(1) j(1)] by simp_all
  show ?case
  proof (cases "bq_list ?q")
    case Nil
    then have "bq_try_pop ?q = (None, ?q)" by (metis bq_list_length bq_try_pop_def list.size(3))
    then show ?thesis using Cons Nil by simp
  next
    case (Cons y ys)
    then have "bq_size ?q \<noteq> 0" by (metis bq_list_length length_0_conv list.distinct(1))
    then have pop: "bq_try_pop ?q = bq_take ?q" by (simp add: bq_try_pop_def)
    obtain q' where t: "bq_take ?q = (Some y, q')" "bq_inv q'" "bq_list q' = ys" "bq_cap q' = c" "bq_closed q' = cl"
      using bq_take_ok [OF q(1) Cons] q(2,3) by auto
    let ?p = "p\<lparr>wp_queues := (wp_queues p)[j := q']\<rparr>"
    have len: "j < length (wp_queues ?p)" using j(2) by simp
    have "wp_tasks (?p\<lparr>wp_queues := (wp_queues ?p)[j := ?q]\<rparr>) = wp_tasks ?p + {#y#}"
      by (rule tasks_update [OF len]) (use Cons t(3) j(2) in simp)
    then have "wp_tasks p = wp_tasks ?p + {#y#}" by simp
    then show ?thesis
      using wp_inv_update [OF Cons.prems(1) t(2,4,5)] \<open>steal (j # js) p = (r, p')\<close> pop t(1) by auto
  qed
qed

text \<open>A worker's own queue and the ones it steals from are all the queues, so it goes without a task only when there is none. Its
  own queue is the first of the steal order, up to the counter.\<close>

lemma worker_take_steal:
  "worker_take i p = (case steal (i # map (\<lambda>j. (i + j) mod wp_n p) [1..<wp_n p]) p of
     (r, p') \<Rightarrow> (r, if bq_size (wp_queues p ! i) \<noteq> 0 then p'\<lparr>wp_steals := wp_steals p\<rparr> else p'))"
  by (auto simp: worker_take_def bq_try_pop_def bq_take_def Let_def split: prod.splits option.splits)

lemma steal_order_all:
  assumes "i < (n :: nat)" and "k < n"
  shows "k \<in> set (i # map (\<lambda>j. (i + j) mod n) [1..<n])"
proof (cases "k = i")
  case False
  let ?j = "(n + k - i) mod n"
  have "?j \<noteq> 0"
  proof
    assume "?j = 0"
    then have "(i + ?j) mod n = i" using assms(1) by simp
    moreover have "(i + ?j) mod n = k" using assms by (simp add: mod_simps)
    ultimately show False using False by simp
  qed
  moreover have "?j < n" using assms by simp
  moreover have "(i + ?j) mod n = k" using assms by (simp add: mod_simps)
  ultimately have "k \<in> (\<lambda>j. (i + j) mod n) ` {1..<n}" by (intro image_eqI [of _ _ ?j]) auto
  then show ?thesis by simp
qed simp

lemma no_tasks_sum: "\<forall>q \<in> set qs. bq_list q = [] \<Longrightarrow> (\<Sum>q \<leftarrow> qs. mset (bq_list q)) = {#}"
  by (induction qs) auto

lemma worker_take_spec:
  assumes "wp_inv c cl p" and "i < wp_n p" and "worker_take i p = (r, p')"
  shows "wp_inv c cl p' \<and> wp_n p' = wp_n p \<and> wp_tasks p = wp_tasks p' + (case r of None \<Rightarrow> {#} | Some t \<Rightarrow> {#t#}) \<and>
         (r = None \<longrightarrow> wp_tasks p = {#})"
proof -
  let ?js = "i # map (\<lambda>j. (i + j) mod wp_n p) [1..<wp_n p]"
  obtain r' p'' where s: "steal ?js p = (r', p'')" by (cases "steal ?js p")
  have "\<forall>j \<in> set ?js. j < wp_n p" using assms(2) by auto
  note h = steal_spec [OF assms(1) this s]
  have "(r', if bq_size (wp_queues p ! i) \<noteq> 0 then p''\<lparr>wp_steals := wp_steals p\<rparr> else p'') = (r, p')"
    using assms(3) unfolding worker_take_steal s prod.case .
  then have r: "r' = r" and p': "p' = p''\<lparr>wp_steals := wp_steals p\<rparr> \<or> p' = p''" by (auto split: if_splits)
  from p' have fr: "wp_inv c cl p' = wp_inv c cl p''" "wp_n p' = wp_n p''" "wp_tasks p' = wp_tasks p''"
    by (elim disjE; simp)+
  have len: "length (wp_queues p) = wp_n p" using assms(1) by (simp add: wp_inv_def)
  have none: "wp_tasks p = {#}" if n: "r = None"
  proof -
    have empty: "\<forall>j \<in> set ?js. bq_list (wp_queues p ! j) = []"
      using conjunct2 [OF conjunct2 [OF conjunct2 [OF h]]] unfolding r n by (rule mp) (rule refl)
    have "\<forall>q \<in> set (wp_queues p). bq_list q = []"
    proof
      fix q
      assume "q \<in> set (wp_queues p)"
      then obtain k where k: "k < length (wp_queues p)" "wp_queues p ! k = q" unfolding in_set_conv_nth by blast
      have "bq_list (wp_queues p ! k) = []" by (rule bspec [OF empty steal_order_all [OF assms(2)]]) (use k(1) len in simp)
      then show "bq_list q = []" by (simp only: k(2))
    qed
    then show ?thesis unfolding wp_tasks_def by (rule no_tasks_sum)
  qed
  show ?thesis using h none unfolding fr r by blast
qed

section \<open>Any run of the pool\<close>

datatype 'a pool_op = Submit 'a | Take nat

text \<open>The submissions and worker iterations in the order in which they happen: the tasks accepted and the tasks run.\<close>

fun pool_run :: "'a pool_op list \<Rightarrow> 'a WorkerPool \<Rightarrow> 'a list \<times> 'a Task list \<times> 'a WorkerPool" where
  "pool_run [] p = ([], [], p)"
| "pool_run (Submit t # ops) p =
     (case try_submit (Some t) p of
        (ok, p) \<Rightarrow> case pool_run ops p of (acc, fin, p) \<Rightarrow> (if ok then t # acc else acc, fin, p))"
| "pool_run (Take i # ops) p =
     (case worker_take i p of
        (r, p) \<Rightarrow> case pool_run ops p of (acc, fin, p) \<Rightarrow> (acc, (case r of None \<Rightarrow> fin | Some t \<Rightarrow> t # fin), p))"

lemma pool_run_account:
  "wp_inv c cl p \<Longrightarrow> \<forall>i. Take i \<in> set ops \<longrightarrow> i < wp_n p \<Longrightarrow> pool_run ops p = (acc, fin, p') \<Longrightarrow>
   wp_inv c cl p' \<and> wp_n p' = wp_n p \<and> wp_tasks p + mset (map Some acc) = mset fin + wp_tasks p'"
proof (induction ops arbitrary: p acc fin)
  case Nil
  then show ?case by simp
next
  case (Cons x ops)
  show ?case
  proof (cases x)
    case (Submit t)
    obtain ok q where s: "try_submit (Some t) p = (ok, q)" by fastforce
    obtain a r where w: "pool_run ops q = (a, r, p')" "acc = (if ok then t # a else a)" "fin = r"
      using Cons.prems(3) Submit s by (auto split: prod.splits)
    note h = try_submit_spec [OF Cons.prems(1) s]
    have "wp_inv c cl p' \<and> wp_n p' = wp_n q \<and> wp_tasks q + mset (map Some a) = mset r + wp_tasks p'"
      by (rule Cons.IH [OF _ _ w(1)]) (use h Cons.prems(2) in simp_all)
    then show ?thesis using conjunct1 [OF conjunct2 [OF conjunct2 [OF h]]] conjunct1 [OF conjunct2 [OF h]] w(2,3)
      by (cases ok) (auto simp: ac_simps)
  next
    case (Take i)
    obtain o' q where s: "worker_take i p = (o', q)" by fastforce
    obtain r where w: "pool_run ops q = (acc, r, p')" "fin = (case o' of None \<Rightarrow> r | Some t \<Rightarrow> t # r)"
      using Cons.prems(3) Take s by (auto split: prod.splits)
    have i: "i < wp_n p" using Cons.prems(2) Take by simp
    note h = worker_take_spec [OF Cons.prems(1) i s]
    have "wp_inv c cl p' \<and> wp_n p' = wp_n q \<and> wp_tasks q + mset (map Some acc) = mset r + wp_tasks p'"
      by (rule Cons.IH [OF _ _ w(1)]) (use h Cons.prems(2) in simp_all)
    then show ?thesis using h w(2) by (auto simp: ac_simps split: option.splits)
  qed
qed

lemma pool_new_inv: "wp_inv (bq_cap (BoundedQueue_new (None :: 'a Task) c)) False (WorkerPool_new n c :: 'a WorkerPool)"
  by (simp add: wp_inv_def WorkerPool_new_def Let_def) (simp add: BoundedQueue_new_def Let_def)

lemma pool_new_tasks: "wp_tasks (WorkerPool_new n c) = {#}"
  unfolding wp_tasks_def by (rule no_tasks_sum) (simp add: WorkerPool_new_def Let_def)

text \<open>Over any sequence of submissions and worker iterations, stealing included, every accepted task is run exactly once or still
  queued, nothing else is ever run (no empty task), and a worker that is left without work proves that no accepted task
  is waiting in any queue.\<close>

theorem pool_runs_once:
  assumes "\<forall>i. Take i \<in> set ops \<longrightarrow> i < (if n = 0 then 1 else n)"
    and "pool_run ops (WorkerPool_new n c) = (acc, fin, p)"
  shows "mset (map Some acc) = mset fin + wp_tasks p \<and>
         (\<forall>i. i < wp_n p \<and> fst (worker_take i p) = None \<longrightarrow> mset fin = mset (map Some acc))"
proof -
  have "wp_n (WorkerPool_new n c :: 'a WorkerPool) = (if n = 0 then 1 else n)" by (simp add: WorkerPool_new_def Let_def)
  then have ops: "\<forall>i. Take i \<in> set ops \<longrightarrow> i < wp_n (WorkerPool_new n c :: 'a WorkerPool)" using assms(1) by simp
  note h = pool_run_account [OF pool_new_inv ops assms(2)]
  have "wp_tasks p = {#}" if "i < wp_n p" "fst (worker_take i p) = None" for i
    using worker_take_spec [OF conjunct1 [OF h] that(1), of None "snd (worker_take i p)"] that(2) by (metis prod.collapse)
  then show ?thesis using h by (auto simp: pool_new_tasks)
qed

theorem pool_runs_once_witness:
  "\<exists>p. pool_run [Submit (7 :: int), Submit 8, Take 0, Take 0] (WorkerPool_new 2 1) = ([7, 8], [Some 7, Some 8], p) \<and>
       wp_tasks p = {#}"
proof -
  let ?r = "pool_run [Submit (7 :: int), Submit 8, Take 0, Take 0] (WorkerPool_new 2 1)"
  have "fst ?r = [7, 8]" "fst (snd ?r) = [Some 7, Some 8]" by code_simp+
  then obtain p where r: "?r = ([7, 8], [Some 7, Some 8], p)" by (metis prod.collapse)
  have "mset (map Some [7 :: int, 8]) = mset [Some 7, Some 8] + wp_tasks p" using pool_runs_once [OF _ r] by simp
  then have "wp_tasks p = {#}" by simp
  with r show ?thesis by blast
qed

text \<open>What a concurrent submission can do between the scan and the push: the queue chosen has filled up, another has room, and the
  caller is told that its task was accepted while an empty one was queued in its place.\<close>

lemma raced_task_lost:
  "wp_inv c False p \<Longrightarrow> best < wp_n p \<Longrightarrow> c \<le> bq_size (wp_queues p ! best) \<Longrightarrow> bq_size (wp_queues p ! 0) < c \<Longrightarrow>
   fst (submit_to best (Some t) p) \<and> wp_tasks (snd (submit_to best (Some t) p)) = wp_tasks p + {#None#}"
  for t
proof -
  assume a: "wp_inv c False p" "best < wp_n p" "c \<le> bq_size (wp_queues p ! best)" "bq_size (wp_queues p ! 0) < c"
  obtain k r where o': "wp_offer best (Some t) p = (k, r)" by fastforce
  have k: "\<not> k" "r = p" using wp_offer_cases [OF a(1,2) o'] a(3) by auto
  have n: "[0..<wp_n p] = 0 # [1..<wp_n p]" "0 < wp_n p" using a(2) by (simp_all add: upt_rec)
  obtain k' r' where o2: "wp_offer 0 None p = (k', r')" by fastforce
  have "k' \<and> wp_tasks r' = wp_tasks p + {#None#}" using wp_offer_cases [OF a(1) n(2) o2] a(4) by auto
  then show ?thesis using o' k o2 by (simp add: submit_to_def n(1))
qed

text \<open>Stopping closes the queues; the tasks still in them are never run.\<close>

lemma stop_keeps_tasks: "wp_inv c cl p \<Longrightarrow> wp_tasks (wp_stop p) = wp_tasks p \<and> wp_inv c True (wp_stop p)"
  by (auto simp: wp_stop_def wp_inv_def wp_tasks_def bq_close_keeps comp_def bq_close_def bq_list_def bq_inv_def)

section \<open>A single worker\<close>

text \<open>\<open>Worker\<close> drains one queue. Running a task returns, throws an exception with a text, or throws something else.\<close>

datatype task_end = Returned | Threw string | ThrewOther

record WorkerHealth =
  wh_name :: string
  wh_running :: bool
  wh_lastTickMs :: int
  wh_tasksProcessed :: u64
  wh_lastError :: string

record Worker =
  wk_name :: string
  wk_running :: bool
  wk_last_tick_ms :: int
  wk_tasks :: u64
  wk_last_error :: string
  wk_reported :: "(string \<times> string) list"

definition Worker_new :: "string \<Rightarrow> Worker" where
  "Worker_new name = \<lparr>wk_name = name, wk_running = False, wk_last_tick_ms = 0, wk_tasks = 0, wk_last_error = [], wk_reported = []\<rparr>"

definition wk_start :: "int \<Rightarrow> Worker \<Rightarrow> Worker" where
  "wk_start now w = (if wk_running w then w else w\<lparr>wk_running := True, wk_last_tick_ms := now\<rparr>)"

definition wk_stop :: "Worker \<Rightarrow> Worker" where
  "wk_stop w = w\<lparr>wk_running := False\<rparr>"

definition wk_health :: "Worker \<Rightarrow> WorkerHealth" where
  "wk_health w = \<lparr>wh_name = wk_name w, wh_running = wk_running w, wh_lastTickMs = wk_last_tick_ms w,
     wh_tasksProcessed = wk_tasks w, wh_lastError = wk_last_error w\<rparr>"

definition wk_error :: "bool \<Rightarrow> string \<Rightarrow> Worker \<Rightarrow> Worker" where
  "wk_error handler e w =
     w\<lparr>wk_last_error := e, wk_reported := (if handler then wk_reported w @ [(wk_name w, e)] else wk_reported w)\<rparr>"

text \<open>One iteration of \<open>run\<close>: \<open>handler\<close> says whether an error handler is set, \<open>exec\<close> what running a task does (an empty task
  returns). The iteration gives the task it ran.\<close>

definition wk_iterate :: "bool \<Rightarrow> ('a \<Rightarrow> task_end) \<Rightarrow> int \<Rightarrow> 'a Task BoundedQueue \<Rightarrow> Worker \<Rightarrow>
    'a Task option \<times> 'a Task BoundedQueue \<times> Worker" where
  "wk_iterate handler exec now q w =
     (case bq_pop q of
        (None, q) \<Rightarrow> (None, q, w)
      | (Some t, q) \<Rightarrow>
          let w = w\<lparr>wk_last_tick_ms := now\<rparr>
          in (Some t, q,
              case (case t of None \<Rightarrow> Returned | Some f \<Rightarrow> exec f) of
                Returned \<Rightarrow> w\<lparr>wk_tasks := wk_tasks w + 1\<rparr>
              | Threw e \<Rightarrow> wk_error handler e w
              | ThrewOther \<Rightarrow> wk_error handler ''unknown exception'' w))"

text \<open>The loop, with the clock readings of the iterations before the stop is requested.\<close>

fun wk_run :: "bool \<Rightarrow> ('a \<Rightarrow> task_end) \<Rightarrow> int list \<Rightarrow> 'a Task BoundedQueue \<Rightarrow> Worker \<Rightarrow>
    'a Task list \<times> 'a Task BoundedQueue \<times> Worker" where
  "wk_run handler exec [] q w = ([], q, wk_stop w)"
| "wk_run handler exec (now # nows) q w =
     (if \<not> wk_running w then ([], q, wk_stop w)
      else case wk_iterate handler exec now q w of
        (r, q, w) \<Rightarrow> case wk_run handler exec nows q w of
          (ts, q, w) \<Rightarrow> (case r of None \<Rightarrow> ts | Some t \<Rightarrow> t # ts, q, w))"

text \<open>A task that throws stops nothing: with as many iterations as tasks the worker runs all of them, in order.\<close>

lemma wk_run_in_order:
  "bq_inv q \<Longrightarrow> wk_running w \<Longrightarrow> length nows = bq_size q \<Longrightarrow> fst (wk_run handler exec nows q w) = bq_list q"
proof (induction nows arbitrary: q w)
  case Nil
  then have "bq_list q = []" by (metis bq_list_length length_0_conv list.size(3))
  then show ?case by simp
next
  case (Cons now nows)
  obtain y ys where y: "bq_list q = y # ys" using Cons.prems(3) by (metis bq_list_length length_0_conv list.exhaust list.size(4) nat.simps(3) add_Suc_right)
  then obtain q' where q': "bq_take q = (Some y, q')" "bq_inv q'" "bq_list q' = ys" using bq_take_ok [OF Cons.prems(1) y] by blast
  have "bq_pop q = (Some y, q')" using q'(1) Cons.prems(3) by (simp add: bq_pop_def)
  then obtain w' where it: "wk_iterate handler exec now q w = (Some y, q', w')" "wk_running w'"
    using Cons.prems(2) by (auto simp: wk_iterate_def wk_error_def Let_def split: task_end.splits option.splits)
  have "bq_size q' = length nows" using q'(3) y Cons.prems(3) by (metis bq_list_length length_Cons nat.inject)
  then show ?case using Cons.IH [OF q'(2) it(2)] q'(3) y it(1) Cons.prems(2) by (auto split: prod.splits)
qed

end
