(* ===== verification/Maintain.thy ===== *)
theory Maintain
  imports Persist Repos Readiness Attempts
begin

text \<open>
  Care of the stored data: \<open>MigrationRunner\<close> (\<open>include/persistence/migration_runner.hpp\<close>) and \<open>RetentionManager\<close>
  (\<open>persistence/retention.hpp\<close>). The migration files (name and content, or no content when a file cannot be read) and the embedded
  schema texts are arguments.
\<close>

section \<open>Migrations\<close>

record MigrationRunner =
  mg_applied :: u64

definition ensure_sql :: string where
  "ensure_sql =
     ''CREATE TABLE IF NOT EXISTS schema_migrations ('' @
     ''id TEXT PRIMARY KEY, checksum TEXT NOT NULL, applied_at_ms BIGINT NOT NULL)''"

definition applied_sql :: string where
  "applied_sql = ''SELECT 1 FROM schema_migrations WHERE id=$1''"

definition record_sql :: string where
  "record_sql = ''INSERT INTO schema_migrations(id,checksum,applied_at_ms) VALUES($1,$2,$3) ON CONFLICT DO NOTHING''"

text \<open>The texts between the semicolons; nothing follows a semicolon at the end.\<close>

function pieces :: "string \<Rightarrow> string list" where
  "pieces s =
     (if s = [] then []
      else takeWhile (\<lambda>c. c \<noteq> CHR '';'') s #
           (case dropWhile (\<lambda>c. c \<noteq> CHR '';'') s of [] \<Rightarrow> [] | _ # rest \<Rightarrow> pieces rest))"
  by pat_completeness auto
termination
proof (relation "measure length")
  fix s x rest
  assume "dropWhile (\<lambda>c. c \<noteq> CHR '';'') s = x # rest"
  then have "length (x # rest) \<le> length s" by (metis length_dropWhile_le)
  then show "(rest, s) \<in> measure length" by simp
qed simp

declare pieces.simps [simp del]

definition blank :: "char \<Rightarrow> bool" where
  "blank c \<longleftrightarrow> c = CHR '' '' \<or> c = CHR 0x0A \<or> c = CHR 0x09 \<or> c = CHR 0x0D"

definition statement_text :: "string \<Rightarrow> string" where
  "statement_text = dropWhile blank"

text \<open>A piece is run unless nothing but blanks and dashes is in it.\<close>

definition runnable :: "string \<Rightarrow> bool" where
  "runnable s \<longleftrightarrow> \<not> list_all (\<lambda>c. blank c \<or> c = CHR ''-'') s"

definition statements :: "string \<Rightarrow> string list" where
  "statements sql = filter runnable (map statement_text (pieces sql))"

fun run_statements :: "('c, 'w) libpq \<Rightarrow> string list \<Rightarrow> 'c Db \<Rightarrow> 'w \<Rightarrow> unit Result \<times> 'c Db \<times> 'w" where
  "run_statements pq [] d w = (Inr (), d, w)"
| "run_statements pq (s # ss) d w =
     (case db_execute pq s d w of
        (Inl e, d, w) \<Rightarrow>
          (case d of
             Pg p \<Rightarrow> (case pg_execute pq ''ROLLBACK'' p w of (_, p, w) \<Rightarrow> (Inl e, Pg p, w))
           | Base b \<Rightarrow> (Inl e, Base b, w))
      | (Inr _, d, w) \<Rightarrow> run_statements pq ss d w)"

text \<open>The end of a migration: its record and the commit, whose result is not looked at.\<close>

fun record_migration :: "('c, 'w) libpq \<Rightarrow> TimestampMs \<Rightarrow> string \<Rightarrow> 'c Db \<Rightarrow> 'w \<Rightarrow> unit Result \<times> 'c Db \<times> 'w" where
  "record_migration pq now i (Pg p) w =
     (case executeParams pq record_sql [i, ''sha-pending'', show_int now] p w of
        (Inl e, p, w) \<Rightarrow> (case pg_execute pq ''ROLLBACK'' p w of (_, p, w) \<Rightarrow> (Inl e, Pg p, w))
      | (Inr _, p, w) \<Rightarrow> (case pg_execute pq ''COMMIT'' p w of (_, p, w) \<Rightarrow> (Inr (), Pg p, w)))"
| "record_migration pq now i (Base b) w = (Inr (), Base b, w)"

fun begin_migration :: "('c, 'w) libpq \<Rightarrow> 'c Db \<Rightarrow> 'w \<Rightarrow> unit Result \<times> 'c Db \<times> 'w" where
  "begin_migration pq (Pg p) w = (case pg_execute pq ''BEGIN'' p w of (r, p, w) \<Rightarrow> (r, Pg p, w))"
| "begin_migration pq (Base b) w = (Inr (), Base b, w)"

definition applySql :: "('c, 'w) libpq \<Rightarrow> TimestampMs \<Rightarrow> string \<Rightarrow> string \<Rightarrow> MigrationRunner \<Rightarrow> 'c Db \<Rightarrow> 'w \<Rightarrow>
    unit Result \<times> MigrationRunner \<times> 'c Db \<times> 'w" where
  "applySql pq now i sql m d w =
     (case begin_migration pq d w of
        (Inl e, d, w) \<Rightarrow> (Inl e, m, d, w)
      | (Inr _, d, w) \<Rightarrow>
          (case run_statements pq (statements sql) d w of
             (Inl e, d, w) \<Rightarrow> (Inl e, m, d, w)
           | (Inr _, d, w) \<Rightarrow>
               (case record_migration pq now i d w of
                  (Inl e, d, w) \<Rightarrow> (Inl e, m, d, w)
                | (Inr _, d, w) \<Rightarrow> (Inr (), m\<lparr>mg_applied := mg_applied m + 1\<rparr>, d, w))))"

fun isApplied :: "('c, 'w) libpq \<Rightarrow> string \<Rightarrow> 'c Db \<Rightarrow> 'w \<Rightarrow> bool \<times> 'c Db \<times> 'w" where
  "isApplied pq i (Pg p) w =
     (case pg_query pq applied_sql [i] p w of
        (Inr q, p, w) \<Rightarrow> (qr_rows q \<noteq> [], Pg p, w)
      | (Inl _, p, w) \<Rightarrow> (False, Pg p, w))"
| "isApplied pq i (Base b) w = (False, Base b, w)"

text \<open>The files in the order of their names; \<open>clk\<close> is the clock by the number of files left.\<close>

fun apply_files :: "('c, 'w) libpq \<Rightarrow> (nat \<Rightarrow> TimestampMs) \<Rightarrow> (string \<times> string option) list \<Rightarrow> MigrationRunner \<Rightarrow> 'c Db \<Rightarrow> 'w \<Rightarrow>
    unit Result \<times> MigrationRunner \<times> 'c Db \<times> 'w" where
  "apply_files pq clk [] m d w = (Inr (), m, d, w)"
| "apply_files pq clk ((i, content) # fs) m d w =
     (case isApplied pq i d w of
        (True, d, w) \<Rightarrow> apply_files pq clk fs m d w
      | (False, d, w) \<Rightarrow>
          (case content of
             None \<Rightarrow> (Inl (mkError EC_IoError (''cannot read '' @ i)), m, d, w)
           | Some sql \<Rightarrow>
               (case applySql pq (clk (length fs)) i sql m d w of
                  (Inl e, m, d, w) \<Rightarrow> (Inl e, m, d, w)
                | (Inr _, m, d, w) \<Rightarrow> apply_files pq clk fs m d w)))"

fun apply_embedded :: "('c, 'w) libpq \<Rightarrow> (nat \<Rightarrow> TimestampMs) \<Rightarrow> string list \<Rightarrow> MigrationRunner \<Rightarrow> 'c Db \<Rightarrow> 'w \<Rightarrow>
    unit Result \<times> MigrationRunner \<times> 'c Db \<times> 'w" where
  "apply_embedded pq clk [] m d w = (Inr (), m, d, w)"
| "apply_embedded pq clk (sql # sqls) m d w =
     (case applySql pq (clk (length sqls)) (''embedded_'' @ show_nat (unat (mg_applied m))) sql m d w of
        (Inl e, m, d, w) \<Rightarrow> (Inl e, m, d, w)
      | (Inr _, m, d, w) \<Rightarrow> apply_embedded pq clk sqls m d w)"

definition applyAll :: "('c, 'w) libpq \<Rightarrow> (nat \<Rightarrow> TimestampMs) \<Rightarrow> (string \<times> string option) list \<Rightarrow> string list \<Rightarrow> MigrationRunner \<Rightarrow> 'c Db \<Rightarrow> 'w \<Rightarrow>
    unit Result \<times> MigrationRunner \<times> 'c Db \<times> 'w" where
  "applyAll pq clk files embedded m d w =
     (case db_execute pq ensure_sql d w of
        (Inl e, d, w) \<Rightarrow> (Inl e, m, d, w)
      | (Inr _, d, w) \<Rightarrow> if files \<noteq> [] then apply_files pq clk files m d w else apply_embedded pq clk embedded m d w)"

section \<open>Retention\<close>

record RetentionPolicy =
  rp_roundsMaxAgeMs :: int
  rp_predictionsMaxAgeMs :: int
  rp_outcomesMaxAgeMs :: int
  rp_outboxDeliveredMaxAgeMs :: int
  rp_maxInMemoryRounds :: nat
  rp_maxInMemoryPredictions :: nat

definition RetentionPolicy_default :: RetentionPolicy where
  "RetentionPolicy_default =
     \<lparr>rp_roundsMaxAgeMs = 7 * 24 * 3600 * 1000, rp_predictionsMaxAgeMs = 3 * 24 * 3600 * 1000, rp_outcomesMaxAgeMs = 7 * 24 * 3600 * 1000,
      rp_outboxDeliveredMaxAgeMs = 2 * 24 * 3600 * 1000, rp_maxInMemoryRounds = 10000, rp_maxInMemoryPredictions = 5000\<rparr>"

record RetentionManager =
  rm_policy :: RetentionPolicy
  rm_runs :: u64
  rm_statements :: u64

definition prune_sql :: "TimestampMs \<Rightarrow> RetentionPolicy \<Rightarrow> string list" where
  "prune_sql now p =
     [''DELETE FROM crash_rounds WHERE crashed_at_ms > 0 AND crashed_at_ms < '' @ show_int (now - rp_roundsMaxAgeMs p),
      ''DELETE FROM predictions WHERE created_at_ms > 0 AND created_at_ms < '' @ show_int (now - rp_predictionsMaxAgeMs p),
      ''DELETE FROM outcomes WHERE resolved_at_ms > 0 AND resolved_at_ms < '' @ show_int (now - rp_outcomesMaxAgeMs p),
      ''DELETE FROM notification_outbox WHERE state = 3 AND delivered_at_ms > 0 AND delivered_at_ms < '' @
        show_int (now - rp_outboxDeliveredMaxAgeMs p)]"

fun prune_all :: "('c, 'w) libpq \<Rightarrow> string list \<Rightarrow> RetentionManager \<Rightarrow> 'c Db \<Rightarrow> 'w \<Rightarrow> unit Result \<times> RetentionManager \<times> 'c Db \<times> 'w" where
  "prune_all pq [] m d w = (Inr (), m\<lparr>rm_runs := rm_runs m + 1\<rparr>, d, w)"
| "prune_all pq (s # ss) m d w =
     (case db_execute pq s d w of
        (Inl e, d, w) \<Rightarrow> (Inl e, m, d, w)
      | (Inr _, d, w) \<Rightarrow> prune_all pq ss (m\<lparr>rm_statements := rm_statements m + 1\<rparr>) d w)"

definition pruneDatabase :: "('c, 'w) libpq \<Rightarrow> TimestampMs \<Rightarrow> RetentionManager \<Rightarrow> 'c Db option \<Rightarrow> 'w \<Rightarrow>
    unit Result \<times> RetentionManager \<times> 'c Db option \<times> 'w" where
  "pruneDatabase pq now m db w =
     (case db of
        Some d \<Rightarrow>
          if \<not> db_up d then (Inr (), m, db, w)
          else (case prune_all pq (prune_sql now (rm_policy m)) m d w of (r, m, d, w) \<Rightarrow> (r, m, Some d, w))
      | None \<Rightarrow> (Inr (), m, db, w))"

section \<open>The statements of a migration\<close>

lemma pieces_step:
  assumes "s \<noteq> []"
  obtains (last) "pieces s = [s]" "CHR '';'' \<notin> set s"
    | (more) t rest where "s = t @ CHR '';'' # rest" "pieces s = t # pieces rest" "CHR '';'' \<notin> set t"
proof -
  let ?P = "\<lambda>c. c \<noteq> CHR '';''"
  have t: "CHR '';'' \<notin> set (takeWhile ?P s)" by (auto dest: set_takeWhileD)
  show thesis
  proof (cases "dropWhile ?P s")
    case Nil
    have all: "takeWhile ?P s = s" using takeWhile_dropWhile_id [of ?P s] unfolding Nil by simp
    have "pieces s = [s]" by (subst pieces.simps) (simp only: assms Nil all if_False list.case)
    then show thesis using last t unfolding all by blast
  next
    case (Cons x rest)
    have "\<not> ?P (hd (dropWhile ?P s))" by (rule hd_dropWhile) (simp only: Cons list.distinct not_False_eq_True)
    then have x: "x = CHR '';''" unfolding Cons list.sel by simp
    have "s = takeWhile ?P s @ x # rest" using takeWhile_dropWhile_id [of ?P s] unfolding Cons by (rule sym)
    moreover have "pieces s = takeWhile ?P s # pieces rest" by (subst pieces.simps) (simp only: assms Cons if_False list.case)
    ultimately show thesis using more t unfolding x by blast
  qed
qed

text \<open>Cutting at the semicolons loses nothing: the pieces, each with its semicolon, are the text again.\<close>

lemma pieces_rejoin: "concat (map (\<lambda>p. p @ '';'') (pieces s)) = s \<or> concat (map (\<lambda>p. p @ '';'') (pieces s)) = s @ '';''"
proof (induction s rule: length_induct)
  case (1 s)
  show ?case
  proof (cases "s = []")
    case False
    then show ?thesis
    proof (cases rule: pieces_step)
      case (more t rest)
      then have "length rest < length s" by simp
      then show ?thesis using 1 more(1,2) by auto
    qed simp
  qed (simp add: pieces.simps)
qed

lemma piece_no_semicolon: "p \<in> set (pieces s) \<Longrightarrow> CHR '';'' \<notin> set p"
proof (induction s rule: length_induct)
  case (1 s)
  then have "s \<noteq> []" by (auto simp: pieces.simps)
  then show ?case
  proof (cases rule: pieces_step)
    case (more t rest)
    then have "length rest < length s" by simp
    then show ?thesis using 1 more(2,3) by auto
  qed (use 1 in auto)
qed

section \<open>A migration is applied as a whole\<close>

lemma exec_recorder:
  "pg_conn p = Some () \<Longrightarrow> \<exists>p'. pg_conn p' = Some () \<and> pg_execute (recorder good) s p w =
     (if good (c_str s) then Inr () else Inl (mkError EC_DatabaseError ''refused''), p', w @ [c_str s])"
  by (auto simp: pg_execute_def pg_run_def recorder_def)

lemma execParams_recorder:
  "pg_conn p = Some () \<Longrightarrow> \<exists>p'. pg_conn p' = Some () \<and> executeParams (recorder good) s ps p w =
     (if good (c_str s) then Inr () else Inl (mkError EC_DatabaseError ''refused''), p', w @ [c_str s])"
  by (auto simp: executeParams_def pg_run_def recorder_def)

lemma run_statements_recorder:
  "pg_conn p = Some () \<Longrightarrow>
   \<exists>r p'. pg_conn p' = Some () \<and>
     (if list_all good (map c_str ss)
      then run_statements (recorder good) ss (Pg p) w = (Inr (), Pg p', w @ map c_str ss)
      else run_statements (recorder good) ss (Pg p) w =
             (Inl r, Pg p', w @ takeWhile good (map c_str ss) @ [hd (dropWhile good (map c_str ss)), c_str ''ROLLBACK'']))"
proof (induction ss arbitrary: p w)
  case (Cons s ss)
  obtain p1 where e: "pg_conn p1 = Some ()" "pg_execute (recorder good) s p w =
      (if good (c_str s) then Inr () else Inl (mkError EC_DatabaseError ''refused''), p1, w @ [c_str s])"
    using exec_recorder [OF Cons.prems] by blast
  show ?case
  proof (cases "good (c_str s)")
    case True
    then show ?thesis using Cons.IH [OF e(1), of "w @ [c_str s]"] e(2) by (auto split: if_splits)
  next
    case False
    obtain p2 r2 where "pg_conn p2 = Some ()" "pg_execute (recorder good) ''ROLLBACK'' p1 (w @ [c_str s]) = (r2, p2, w @ [c_str s] @ [c_str ''ROLLBACK''])"
      using exec_recorder [OF e(1), of good "''ROLLBACK''" "w @ [c_str s]"] by auto
    then show ?thesis using False e(2) by auto
  qed
qed simp



end
