(* ===== verification/Http.thy ===== *)
theory Http
  imports Float64 Types
begin

text \<open>
  HTTP: the requests and responses of \<open>delivery/telegram/http_client.hpp\<close>, the recording stub that is its default client, and the client
  over libcurl (\<open>delivery/http/curl_http_client.hpp\<close>). A client used through the virtual interface is a function on a state. libcurl is a
  parameter: whether a handle can be made, and what performing a request gives. \<open>strtod\<close> of the C library, which the readers of
  response bodies use, is modelled here too.
\<close>

section \<open>Requests and clients\<close>

record HttpRequest =
  hq_method :: string
  hq_host :: string
  hq_path :: string
  hq_port :: int
  hq_tls :: bool
  hq_headers :: "(string \<times> string) list"
  hq_body :: string
  hq_timeout_ms :: int

definition HttpRequest_default :: HttpRequest where
  "HttpRequest_default =
     \<lparr>hq_method = ''POST'', hq_host = [], hq_path = [], hq_port = 443, hq_tls = True, hq_headers = [], hq_body = [], hq_timeout_ms = 10000\<rparr>"

record HttpResponse =
  hs_status :: int
  hs_body :: string
  hs_headers :: "(string \<times> string) list"

definition hs_ok :: "HttpResponse \<Rightarrow> bool" where
  "hs_ok r \<longleftrightarrow> 200 \<le> hs_status r \<and> hs_status r < 300"

type_synonym 'h http_request = "HttpRequest \<Rightarrow> 'h \<Rightarrow> HttpResponse Result \<times> 'h"

text \<open>The fields both clients keep.\<close>

record HttpClient =
  ht_history :: "HttpRequest list"
  ht_requests :: u64
  ht_failures :: u64
  ht_fail_next :: bool
  ht_last_ms :: TimestampMs

definition ht_record :: "HttpRequest \<Rightarrow> HttpClient \<Rightarrow> HttpClient" where
  "ht_record req h =
     h\<lparr>ht_history := (let l = ht_history h @ [req] in if length l > 256 then tl l else l), ht_requests := ht_requests h + 1\<rparr>"

definition ht_request :: "TimestampMs \<Rightarrow> HttpClient http_request" where
  "ht_request now req h =
     (let h = ht_record req h
      in if ht_fail_next h then
           (Inl (mkError EC_NetworkError ''injected failure''), h\<lparr>ht_fail_next := False, ht_failures := ht_failures h + 1\<rparr>)
         else (Inr \<lparr>hs_status = 200,
                    hs_body = ''{'' @ [CHR 0x22] @ ''ok'' @ [CHR 0x22] @ '':true,'' @ [CHR 0x22] @ ''result'' @ [CHR 0x22] @ '':{'' @ [CHR 0x22] @
                      ''message_id'' @ [CHR 0x22] @ '':1}}'', hs_headers = []\<rparr>, h\<lparr>ht_last_ms := now\<rparr>))"

definition ht_failNext :: "HttpClient \<Rightarrow> HttpClient" where
  "ht_failNext h = h\<lparr>ht_fail_next := True\<rparr>"

section \<open>libcurl\<close>

definition curl_url :: "HttpRequest \<Rightarrow> string" where
  "curl_url req =
     (if hq_tls req then ''https://'' @ hq_host req @ (if hq_port req \<noteq> 443 then '':'' @ show_int (hq_port req) else [])
      else ''http://'' @ hq_host req @ (if hq_port req \<noteq> 80 then '':'' @ show_int (hq_port req) else [])) @ hq_path req"

definition curl_headers :: "HttpRequest \<Rightarrow> string list" where
  "curl_headers req =
     map (\<lambda>(k, v). k @ '': '' @ v) (hq_headers req) @
     (if hq_body req \<noteq> [] \<and> ''Content-Type'' \<notin> fst ` set (hq_headers req) then [''Content-Type: application/json''] else [])"

text \<open>The body goes out with a POST, and with any other method but GET when it is not empty.\<close>

definition curl_body :: "HttpRequest \<Rightarrow> string option" where
  "curl_body req =
     (if hq_method req = ''POST'' then Some (hq_body req)
      else if hq_method req = ''GET'' then None
      else if hq_body req \<noteq> [] then Some (hq_body req) else None)"

text \<open>\<open>curlHeaderCb\<close> on one line; the map keeps the last value of a key.\<close>

definition curl_header_line :: "string \<Rightarrow> (string \<times> string) list \<Rightarrow> (string \<times> string) list" where
  "curl_header_line line hs =
     (if CHR '':'' \<notin> set line then hs
      else let key = takeWhile (\<lambda>c. c \<noteq> CHR '':'') line;
               val = dropWhile (\<lambda>c. c = CHR '' '' \<or> c = CHR 0x09) (drop (length key + 1) line);
               val = rev (dropWhile (\<lambda>c. c = CHR 0x0d \<or> c = CHR 0x0a) (rev val))
           in (key, val) # filter (\<lambda>(k, _). k \<noteq> key) hs)"

text \<open>What a transfer gives: an error text, or status, body and header lines.\<close>

record 'w Curl =
  cu_init :: "'w \<Rightarrow> bool \<times> 'w"
  cu_perform :: "string \<Rightarrow> string \<Rightarrow> string list \<Rightarrow> string option \<Rightarrow> int \<Rightarrow> 'w \<Rightarrow> (string + int \<times> string \<times> string list) \<times> 'w"

definition curl_request :: "'w Curl \<Rightarrow> TimestampMs \<Rightarrow> (HttpClient \<times> 'w) http_request" where
  "curl_request cu now req st =
     (case st of (h, w) \<Rightarrow>
      let h = ht_record req h; failed = h\<lparr>ht_failures := ht_failures h + 1\<rparr>
      in if ht_fail_next h then (Inl (mkError EC_NetworkError ''injected failure''), failed\<lparr>ht_fail_next := False\<rparr>, w)
      else (case cu_init cu w of
              (False, w) \<Rightarrow> (Inl (mkError EC_NetworkError ''curl_easy_init failed''), failed, w)
            | (True, w) \<Rightarrow>
                (case cu_perform cu (hq_method req) (curl_url req) (curl_headers req) (curl_body req) (hq_timeout_ms req) w of
                   (Inl e, w) \<Rightarrow> (Inl (mkError EC_NetworkError (''curl: '' @ e)), failed, w)
                 | (Inr (status, body, lines), w) \<Rightarrow>
                     let resp = \<lparr>hs_status = status, hs_body = body, hs_headers = fold curl_header_line lines []\<rparr>
                     in (Inr resp, (if hs_ok resp then h else failed)\<lparr>ht_last_ms := now\<rparr>, w))))"

section \<open>Reading a number\<close>

definition is_blank :: "char \<Rightarrow> bool" where
  "is_blank c \<longleftrightarrow> c = CHR '' '' \<or> (9 \<le> (of_char c :: nat) \<and> (of_char c :: nat) \<le> 13)"

definition to_lower :: "char \<Rightarrow> char" where
  "to_lower c = (if 65 \<le> (of_char c :: nat) \<and> (of_char c :: nat) \<le> 90 then char_of ((of_char c :: nat) + 32) else c)"

definition hex_value :: "char \<Rightarrow> nat option" where
  "hex_value c =
     (let n = of_char (to_lower c) in if 48 \<le> n \<and> n \<le> 57 then Some (n - 48) else if 97 \<le> n \<and> n \<le> 102 then Some (n - 87) else None)"

definition hex_nat :: "string \<Rightarrow> nat" where
  "hex_nat s = foldl (\<lambda>a c. a * 16 + (case hex_value c of Some d \<Rightarrow> d | None \<Rightarrow> 0)) 0 s"

text \<open>An exponent after its mark: value and length, or nothing when no digit follows.\<close>

definition exponent_part :: "char \<Rightarrow> string \<Rightarrow> int \<times> nat" where
  "exponent_part mark s =
     (case s of
        [] \<Rightarrow> (0, 0)
      | c # cs \<Rightarrow>
          if to_lower c \<noteq> mark then (0, 0)
          else let neg = (case cs of d # _ \<Rightarrow> d = CHR ''-'' | [] \<Rightarrow> False);
                   sgn = (case cs of d # _ \<Rightarrow> if d = CHR ''-'' \<or> d = CHR ''+'' then 1 else 0 | [] \<Rightarrow> 0);
                   ds = takeWhile is_digit (drop sgn cs)
               in if ds = [] then (0, 0) else ((if neg then - int (read_nat ds) else int (read_nat ds)), 1 + sgn + length ds))"

text \<open>Digits with a point: the digits before it, those after it, and the length.\<close>

definition pointed :: "(char \<Rightarrow> bool) \<Rightarrow> string \<Rightarrow> string \<times> string \<times> nat" where
  "pointed digit s =
     (let a = takeWhile digit s; r = drop (length a) s
      in case r of
           c # cs \<Rightarrow> if c = CHR ''.'' then (let b = takeWhile digit cs in (a, b, if a = [] \<and> b = [] then 0 else length a + 1 + length b)) else (a, [], length a)
         | [] \<Rightarrow> (a, [], length a))"

text \<open>The number without its sign, and its length; length zero is no number.\<close>

definition unsigned_number :: "string \<Rightarrow> double \<times> nat" where
  "unsigned_number s =
     (let low = map to_lower s
      in if take 8 low = ''infinity'' then (PInf, 8)
      else if take 3 low = ''inf'' then (PInf, 3)
      else if take 3 low = ''nan'' then
        (NaN, (let r = drop 3 s; n = length (takeWhile (\<lambda>c. is_digit c \<or> (97 \<le> (of_char (to_lower c) :: nat) \<and> (of_char (to_lower c) :: nat) \<le> 122) \<or> c = CHR ''_'') (tl r))
               in if r \<noteq> [] \<and> hd r = CHR ''('' \<and> drop n (tl r) \<noteq> [] \<and> hd (drop n (tl r)) = CHR '')'' then 3 + n + 2 else 3))
      else (case (if take 2 low = ''0x'' then pointed (\<lambda>c. hex_value c \<noteq> None) (drop 2 s) else ([], [], 0)) of
              (ha, hb, hn) \<Rightarrow>
                if hn > 0 then
                  (let (e, en) = exponent_part (CHR ''p'') (drop (2 + hn) s)
                   in (rnd (of_nat (hex_nat (ha @ hb)) * 2 powi (e - 4 * int (length hb))), 2 + hn + en))
                else (case pointed is_digit s of
                        (a, b, n) \<Rightarrow>
                          if n = 0 then (Fin 0, 0)
                          else let (e, en) = exponent_part (CHR ''e'') (drop n s)
                               in (rnd (of_nat (read_nat (a @ b)) * 10 powi (e - int (length b))), n + en))))"

definition strtod :: "string \<Rightarrow> double \<times> nat" where
  "strtod s =
     (let ws = length (takeWhile is_blank s); r = drop ws s;
          sgn = (case r of c # _ \<Rightarrow> if c = CHR ''-'' \<or> c = CHR ''+'' then 1 else 0 | [] \<Rightarrow> 0);
          (v, n) = unsigned_number (drop sgn r)
      in if n = 0 then (Fin 0, 0) else (if sgn = 1 \<and> hd r = CHR ''-'' then dneg v else v, ws + sgn + n))"


end
