(* ===== verification/Rest.thy ===== *)
theory Rest
  imports Http Frames Readiness Router
begin

text \<open>
  Rounds over HTTP: the history client (\<open>ingestion/rest/crash_history_client.hpp\<close>), the poll worker (\<open>rest/poll_worker.hpp\<close>) and the poll
  recovery (\<open>ingestion/poll_recovery.hpp\<close>). The HTTP client behind the interface is a function on its own state; the cache of recent
  rounds, a global object in the sources, is passed along.

  The reader of a response body looks for its keys with \<open>std::string::find\<close>, whose \<open>npos\<close> plus one is zero. Its loop runs on fuel; the theorems
  say when it ends and when it never does. A time stamp too large for 64 bits, or not a number, has no meaning in C++.
\<close>

section \<open>One round\<close>

record FetchedRound =
  fr_gameId :: string
  fr_multiplier :: double
  fr_hash :: string
  fr_salt :: string
  fr_beganAtMs :: TimestampMs
  fr_crashedAtMs :: TimestampMs

definition fr_valid :: "FetchedRound \<Rightarrow> bool" where
  "fr_valid r \<longleftrightarrow> fr_gameId r \<noteq> [] \<and> dle (Fin 1) (fr_multiplier r) \<and> dle (fr_multiplier r) (Fin 1000000) \<and> fr_crashedAtMs r > 0"

definition dquote :: string where
  "dquote = [CHR 0x22]"

definition fr_findNum :: "string \<Rightarrow> string \<Rightarrow> double option" where
  "fr_findNum json key =
     (let needle = dquote @ key @ dquote @ '':''
      in case sv_find json needle 0 of
           None \<Rightarrow> None
         | Some pos \<Rightarrow>
             let rest = dropWhile (\<lambda>c. c = CHR '' '' \<or> c = CHR 0x22) (drop (pos + length needle) json);
                 (v, n) = strtod (takeWhile (\<lambda>c. c \<noteq> CHR 0x00) rest)
             in if n = 0 then None else Some v)"

definition fr_findStr :: "string \<Rightarrow> string \<Rightarrow> string" where
  "fr_findStr json key =
     (let needle = dquote @ key @ dquote @ '':'' @ dquote
      in case sv_find json needle 0 of None \<Rightarrow> [] | Some pos \<Rightarrow>
         case sv_find json dquote (pos + length needle) of None \<Rightarrow> [] | Some fin \<Rightarrow>
           take (fin - (pos + length needle)) (drop (pos + length needle) json))"

definition fr_toMs :: "double option \<Rightarrow> TimestampMs option" where
  "fr_toMs v =
     (case v of
        None \<Rightarrow> Some 0
      | Some d \<Rightarrow>
          if dless d (Fin 1000000000000) then Some 0
          else (case d of Fin q \<Rightarrow> if trunc_rat q < 2 ^ 63 then Some (trunc_rat q) else None | _ \<Rightarrow> None))"

text \<open>The first of three time stamps that is there.\<close>

definition fr_crashed :: "string \<Rightarrow> TimestampMs option" where
  "fr_crashed json =
     (case fr_toMs (fr_findNum json ''endTime'') of
        None \<Rightarrow> None
      | Some t \<Rightarrow>
          if t \<noteq> 0 then Some t
          else (case fr_toMs (fr_findNum json ''beginTime'') of
                  None \<Rightarrow> None
                | Some t \<Rightarrow> if t \<noteq> 0 then Some t else fr_toMs (fr_findNum json ''prepareTime'')))"

text \<open>\<open>None\<close>: no meaning; \<open>Some None\<close>: refused.\<close>

definition parseFetchedRound :: "string \<Rightarrow> string \<Rightarrow> FetchedRound option option" where
  "parseFetchedRound gameId json =
     (if gameId = [] \<or> \<not> list_all is_digit gameId \<or> json = [] then Some None
      else case fr_findNum json ''rate'' of
             None \<Rightarrow> Some None
           | Some rate \<Rightarrow>
               if dless rate (Fin 1) \<or> dless (Fin 1000000) rate then Some None
               else (case fr_crashed json of
                       None \<Rightarrow> None
                     | Some crashed \<Rightarrow>
                         if crashed = 0 then Some None
                         else (case fr_toMs (fr_findNum json ''beginTime'') of
                                 None \<Rightarrow> None
                               | Some began \<Rightarrow>
                                   Some (Some \<lparr>fr_gameId = gameId, fr_multiplier = rate, fr_hash = fr_findStr json ''hash'', fr_salt = fr_findStr json ''salt'',
                                               fr_beganAtMs = began, fr_crashedAtMs = crashed\<rparr>))))"

section \<open>A page\<close>

text \<open>\<open>pos + 1\<close> on a position that may be \<open>npos\<close>.\<close>

definition after :: "nat option \<Rightarrow> nat" where
  "after p = (case p of None \<Rightarrow> 0 | Some n \<Rightarrow> n + 1)"

text \<open>The text up to the closing quote, with backslashes taken off, and the position of the quote.\<close>

fun ph_scan :: "string \<Rightarrow> nat \<Rightarrow> string \<times> nat" where
  "ph_scan [] i = ([], i)"
| "ph_scan [c] i = (if c = CHR 0x22 then ([], i) else ([c], i + 1))"
| "ph_scan (c # d # ds) i =
     (if c = CHR 0x5c then (case ph_scan ds (i + 2) of (s, j) \<Rightarrow> (d # s, j))
      else if c = CHR 0x22 then ([], i)
      else (case ph_scan (d # ds) (i + 1) of (s, j) \<Rightarrow> (c # s, j)))"

text \<open>What one turn of the loop finds: the end, a position to go on at, or an id with its detail and the position after it.\<close>

datatype ph_found = Ph_end | Ph_skip nat | Ph_round string string nat

definition ph_find :: "string \<Rightarrow> nat \<Rightarrow> ph_found" where
  "ph_find body pos =
     (case sv_find body (dquote @ ''gameId'' @ dquote) pos of
        None \<Rightarrow> Ph_end
      | Some gid \<Rightarrow>
          (let colon = sv_find body '':'' gid; q1 = sv_find body dquote (after colon); q2 = sv_find body dquote (after q1)
           in case (q1, q2) of
                (Some a, Some b) \<Rightarrow>
                  (let gameId = take (b - a - 1) (drop (a + 1) body)
                   in case sv_find body (dquote @ ''gameDetail'' @ dquote) b of
                        None \<Rightarrow> Ph_skip (b + 1)
                      | Some dp \<Rightarrow>
                          if dp > b + 500 then Ph_skip (b + 1)
                          else (case sv_find body dquote (after (sv_find body '':'' dp)) of
                                  None \<Rightarrow> Ph_skip (b + 1)
                                | Some dq \<Rightarrow> (case ph_scan (drop (dq + 1) body) (dq + 1) of (detail, i) \<Rightarrow> Ph_round gameId detail (i + 1))))
              | _ \<Rightarrow> Ph_end))"

text \<open>A round that is valid and not in the cache of recent rounds is new.\<close>

definition ph_keep :: "TimestampMs \<Rightarrow> FetchedRound option \<Rightarrow> FetchedRound list \<times> RecentRoundCache \<Rightarrow> FetchedRound list \<times> RecentRoundCache" where
  "ph_keep now r st =
     (case st of (out, cache) \<Rightarrow>
      case r of
        None \<Rightarrow> (out, cache)
      | Some fr \<Rightarrow>
          if fr_valid fr \<and> \<not> rc_contains (fr_gameId fr) cache then
            (out @ [fr], rc_put now \<lparr>rr_gameId = fr_gameId fr, rr_multiplier = fr_multiplier fr, rr_endedAtMs = fr_crashedAtMs fr,
                                     rr_cachedAtMs = 0, rr_hash = fr_hash fr\<rparr> cache)
          else (out, cache))"

datatype 'a ph_run = Ph_done 'a | Ph_undefined | Ph_running

fun ph_loop :: "(nat \<Rightarrow> TimestampMs) \<Rightarrow> nat \<Rightarrow> string \<Rightarrow> nat \<Rightarrow> FetchedRound list \<times> RecentRoundCache \<Rightarrow> (FetchedRound list \<times> RecentRoundCache) ph_run" where
  "ph_loop ms 0 body pos st = Ph_running"
| "ph_loop ms (Suc k) body pos st =
     (if pos \<ge> length body then Ph_done st
      else case ph_find body pos of
             Ph_end \<Rightarrow> Ph_done st
           | Ph_skip pos \<Rightarrow> ph_loop ms k body pos st
           | Ph_round gameId detail pos \<Rightarrow>
               (case parseFetchedRound gameId detail of
                  None \<Rightarrow> Ph_undefined
                | Some r \<Rightarrow> ph_loop ms k body pos (ph_keep (ms k) r st)))"

definition parseHistoryBody :: "(nat \<Rightarrow> TimestampMs) \<Rightarrow> string \<Rightarrow> RecentRoundCache \<Rightarrow> (FetchedRound list \<times> RecentRoundCache) ph_run" where
  "parseHistoryBody ms body cache = ph_loop ms (length body + 1) body 0 ([], cache)"

section \<open>When the reader ends\<close>

lemma find_from_spec:
  "find_from key s pos = Some n \<Longrightarrow> pos \<le> n \<and> n + length key \<le> pos + length s \<and> take (length key) (drop (n - pos) s) = key"
proof (induction key s pos rule: find_from.induct)
  case (2 key c cs pos)
  show ?case
  proof (cases "take (length key) (c # cs) = key")
    case True
    then have "length key \<le> length (c # cs)" by (metis length_take min.cobounded1 min.commute)
    then show ?thesis using 2(2) True by simp
  next
    case False
    then have "find_from key cs (pos + 1) = Some n" using 2(2) by simp
    then have "pos + 1 \<le> n \<and> n + length key \<le> pos + 1 + length cs \<and> take (length key) (drop (n - (pos + 1)) cs) = key" using 2(1) False by blast
    then show ?thesis by (simp add: drop_Cons' Suc_diff_le)
  qed
qed (simp split: if_splits)

lemma sv_find_spec:
  assumes "sv_find s key p = Some n"
  shows "p \<le> n" and "n + length key \<le> length s" and "take (length key) (drop n s) = key"
  using assms find_from_spec [of key "drop p s" p n] by (auto simp: sv_find_def split: if_splits)

lemma find_from_later: "find_from key s pos = Some n \<Longrightarrow> d \<le> n - pos \<Longrightarrow> find_from key (drop d s) (pos + d) = Some n"
proof (induction d arbitrary: s pos)
  case (Suc d)
  then have "n \<noteq> pos" by simp
  then obtain c cs where s: "s = c # cs" and "take (length key) (c # cs) \<noteq> key" using Suc.prems(1) by (cases s) (auto split: if_splits)
  then have "find_from key cs (pos + 1) = Some n" using Suc.prems(1) by simp
  from Suc.IH [OF this] Suc.prems(2) show ?case by (simp add: s)
qed simp

lemma sv_find_later:
  assumes "sv_find s key p = Some n" "p \<le> p'" "p' \<le> n"
  shows "sv_find s key p' = Some n"
proof -
  have "find_from key (drop p s) p = Some n" using assms(1) by (auto simp: sv_find_def split: if_splits)
  from find_from_later [OF this, of "p' - p"] assms(2,3) have "find_from key (drop p' s) p' = Some n" by simp
  moreover have "p' \<le> length s" using sv_find_spec(2) [OF assms(1)] assms(3) by simp
  ultimately show ?thesis by (simp add: sv_find_def)
qed

lemma find_from_char: "c \<in> set s \<Longrightarrow> find_from [c] s pos \<noteq> None"
  by (induction s arbitrary: pos) auto

text \<open>Every occurrence of a key has a colon somewhere after it.\<close>

definition colon_after :: "string \<Rightarrow> string \<Rightarrow> bool" where
  "colon_after body key \<longleftrightarrow> (\<forall>n < length body. take (length key) (drop n body) = key \<longrightarrow> CHR '':'' \<in> set (drop n body))"

lemma colon_found:
  assumes "colon_after body key" "key \<noteq> []" "sv_find body key p = Some n"
  obtains c where "sv_find body '':'' n = Some c" "n \<le> c"
proof -
  have "0 < length key" using assms(2) by simp
  then have n: "n < length body" "take (length key) (drop n body) = key" using sv_find_spec(2,3) [OF assms(3)] by linarith+
  then have "CHR '':'' \<in> set (drop n body)" using assms(1) by (simp add: colon_after_def)
  then obtain c where "sv_find body '':'' n = Some c" using find_from_char [of "CHR '':''" "drop n body" n] n(1) by (auto simp: sv_find_def)
  then show thesis using that sv_find_spec(1) by blast
qed

lemma scan_later: "ph_scan s i = (t, j) \<Longrightarrow> i \<le> j"
  by (induction s i arbitrary: t j rule: ph_scan.induct) (fastforce split: if_splits prod.splits)+

abbreviation id_key :: string where "id_key \<equiv> dquote @ ''gameId'' @ dquote"

abbreviation detail_key :: string where "detail_key \<equiv> dquote @ ''gameDetail'' @ dquote"

definition ph_next :: "ph_found \<Rightarrow> nat option" where
  "ph_next f = (case f of Ph_end \<Rightarrow> None | Ph_skip p \<Rightarrow> Some p | Ph_round _ _ p \<Rightarrow> Some p)"

lemma find_advances:
  assumes "colon_after body id_key" "colon_after body detail_key" "ph_next (ph_find body pos) = Some pos'"
  shows "pos < pos'"
proof -
  obtain g where g: "sv_find body id_key pos = Some g" using assms(3) by (auto simp: ph_find_def ph_next_def split: option.splits)
  obtain c where c: "sv_find body '':'' g = Some c" "g \<le> c" using colon_found [OF assms(1) _ g] by auto
  let ?q1 = "sv_find body dquote (after (Some c))"
  obtain a b where ab: "?q1 = Some a" "sv_find body dquote (after (Some a)) = Some b"
    using assms(3) g c(1) by (auto simp: ph_find_def ph_next_def Let_def split: option.splits)
  have b: "pos < b" using sv_find_spec(1) [OF g] c(2) sv_find_spec(1) [OF ab(1)] sv_find_spec(1) [OF ab(2)] by (simp add: after_def)
  show ?thesis
  proof (cases "pos' = b + 1")
    case False
    then obtain dp dq where d: "sv_find body detail_key b = Some dp" "sv_find body dquote (after (sv_find body '':'' dp)) = Some dq"
        "pos' = snd (ph_scan (drop (dq + 1) body) (dq + 1)) + 1"
      using assms(3) g c(1) ab by (auto simp: ph_find_def ph_next_def Let_def split: option.splits if_splits prod.splits)
    obtain c2 where c2: "sv_find body '':'' dp = Some c2" "dp \<le> c2" using colon_found [OF assms(2) _ d(1)] by auto
    have "dq + 1 < pos'" using scan_later [of "drop (dq + 1) body" "dq + 1"] d(3) by (metis Suc_eq_plus1 less_Suc_eq_le prod.collapse)
    then show ?thesis using b sv_find_spec(1) [OF d(1)] c2(2) sv_find_spec(1) [OF d(2)] c2(1) by (simp add: after_def)
  qed (use b in simp)
qed

lemma loop_ends:
  assumes "colon_after body id_key" "colon_after body detail_key"
  shows "length body - pos < k \<Longrightarrow> ph_loop ms k body pos st \<noteq> Ph_running"
proof (induction k arbitrary: pos st)
  case (Suc k)
  show ?case
  proof (cases "pos < length body")
    case True
    have adv: "pos < p" if "ph_next (ph_find body pos) = Some p" for p using find_advances [OF assms that] .
    have "ph_loop ms k body p st' \<noteq> Ph_running" if "pos < p" for p st' using Suc.IH [of p st'] Suc.prems True that by simp
    then show ?thesis using True adv by (auto simp: ph_next_def split: ph_found.splits option.splits)
  qed simp
qed simp

definition fr_sound :: "FetchedRound \<Rightarrow> bool" where
  "fr_sound r \<longleftrightarrow> fr_valid r \<and> list_all is_digit (fr_gameId r)"

lemma parse_digits: "parseFetchedRound g json = Some (Some r) \<Longrightarrow> list_all is_digit (fr_gameId r)"
  by (auto simp: parseFetchedRound_def split: if_splits option.splits)

lemma keep_sound: "parseFetchedRound g json = Some r \<Longrightarrow> list_all fr_sound (fst st) \<Longrightarrow> list_all fr_sound (fst (ph_keep now r st))"
  by (cases st) (auto simp: ph_keep_def fr_sound_def parse_digits split: option.splits)

lemma loop_sound: "ph_loop ms k body pos st = Ph_done st' \<Longrightarrow> list_all fr_sound (fst st) \<Longrightarrow> list_all fr_sound (fst st')"
proof (induction k arbitrary: pos st)
  case (Suc k)
  then show ?case
  proof (cases "pos < length body")
    case True
    show ?thesis
    proof (cases "ph_find body pos")
      case (Ph_round g json p)
      then obtain r where r: "parseFetchedRound g json = Some r" "ph_loop ms k body p (ph_keep (ms k) r st) = Ph_done st'"
        using Suc.prems(1) True by (auto split: option.splits)
      then show ?thesis using Suc.IH keep_sound Suc.prems(2) by blast
    qed (use Suc True in auto)
  qed simp
qed simp

text \<open>Reading a page of the history ends within one turn per character, if after every key for an id or a detail there is still a
  colon in the body, whatever else the server sends; and every round it then gives has an id of digits only, a
  multiplier between one and a million and a time of crash.\<close>

theorem history_reader_ends:
  assumes "colon_after body id_key" "colon_after body detail_key"
  shows "parseHistoryBody ms body cache \<noteq> Ph_running \<and>
    (\<forall>out cache'. parseHistoryBody ms body cache = Ph_done (out, cache') \<longrightarrow>
      list_all (\<lambda>r. fr_gameId r \<noteq> [] \<and> list_all is_digit (fr_gameId r) \<and> dle (Fin 1) (fr_multiplier r) \<and> dle (fr_multiplier r) (Fin 1000000) \<and>
        0 < fr_crashedAtMs r) out)"
proof -
  have "list_all fr_sound out" if "parseHistoryBody ms body cache = Ph_done (out, cache')" for out cache'
    using loop_sound [of ms "length body + 1" body 0 "([], cache)" "(out, cache')"] that by (simp add: parseHistoryBody_def)
  then show ?thesis using loop_ends [OF assms, of 0 "length body + 1" ms "([], cache)"]
    by (auto simp: parseHistoryBody_def fr_sound_def fr_valid_def list_all_iff)
qed


definition cut_page :: string where
  "cut_page = ''{'' @ dquote @ ''list'' @ dquote @ '':[{'' @ dquote @ ''gameId'' @ dquote"


definition whole_page :: string where
  "whole_page = ''{'' @ dquote @ ''gameId'' @ dquote @ '':'' @ dquote @ ''7'' @ dquote @ '',''  @ dquote @ ''gameDetail'' @ dquote @ '':'' @ dquote @ ''{}'' @ dquote @ ''}''"

lemma colon_after_code: "colon_after body key \<longleftrightarrow> list_all (\<lambda>n. take (length key) (drop n body) = key \<longrightarrow> CHR '':'' \<in> set (drop n body)) [0..<length body]"
  by (auto simp: colon_after_def list_all_iff)

theorem history_reader_ends_witness: "parseHistoryBody (\<lambda>_. 0) whole_page (RecentRoundCache_new 8) \<noteq> Ph_running"
proof -
  have "colon_after whole_page id_key" "colon_after whole_page detail_key" by (simp_all add: colon_after_code whole_page_def dquote_def upt_rec)
  from history_reader_ends [OF this] show ?thesis by blast
qed

section \<open>The history client\<close>

record CrashHistoryClient =
  hc_successes :: u64
  hc_failures :: u64

definition history_body :: "int \<Rightarrow> int \<Rightarrow> string" where
  "history_body page pageSize =
     ''{'' @ dquote @ ''gameName'' @ dquote @ '':'' @ dquote @ ''crash'' @ dquote @ '','' @ dquote @ ''page'' @ dquote @ '':'' @ show_int page @
     '','' @ dquote @ ''pageSize'' @ dquote @ '':'' @ show_int pageSize @ ''}''"

definition history_request :: "int \<Rightarrow> int \<Rightarrow> HttpRequest" where
  "history_request page pageSize =
     HttpRequest_default\<lparr>hq_method := ''POST'', hq_host := ''bc.game'', hq_path := ''/api/game/bet/multi/history'', hq_port := 443, hq_tls := True,
       hq_timeout_ms := 2500,
       hq_headers := [(''Content-Type'', ''application/json''), (''Origin'', ''https://bc.game''), (''User-Agent'', ''Mozilla/5.0 (compatible; CrashCore/1.0)'')],
       hq_body := history_body page pageSize\<rparr>"

text \<open>The client, the HTTP client below it and the cache of recent rounds.\<close>

type_synonym 'h hc_state = "CrashHistoryClient \<times> 'h \<times> RecentRoundCache"

definition fetchPage :: "'h http_request \<Rightarrow> (nat \<Rightarrow> TimestampMs) \<Rightarrow> int \<Rightarrow> int \<Rightarrow> 'h hc_state \<Rightarrow> (FetchedRound list Result \<times> 'h hc_state) ph_run" where
  "fetchPage http ms page pageSize st =
     (case st of (c, h, cache) \<Rightarrow>
      case http (history_request (if page < 1 then 1 else page) pageSize) h of
        (Inl e, h) \<Rightarrow> Ph_done (Inl (mkError (err_code e) (err_message e)), c\<lparr>hc_failures := hc_failures c + 1\<rparr>, h, cache)
      | (Inr resp, h) \<Rightarrow>
          if \<not> hs_ok resp then Ph_done (Inl (mkError EC_NetworkError ''history HTTP error''), c\<lparr>hc_failures := hc_failures c + 1\<rparr>, h, cache)
          else (case parseHistoryBody ms (hs_body resp) cache of
                  Ph_done (out, cache) \<Rightarrow> Ph_done (Inr out, c\<lparr>hc_successes := hc_successes c + 1\<rparr>, h, cache)
                | Ph_undefined \<Rightarrow> Ph_undefined
                | Ph_running \<Rightarrow> Ph_running))"

section \<open>The poll worker\<close>

record PollConfig =
  pf_intervalMs :: int
  pf_minBackoffMs :: int
  pf_maxBackoffMs :: int
  pf_coldMaxPages :: nat
  pf_warmMaxPages :: nat
  pf_pageSize :: int

definition PollConfig_default :: PollConfig where
  "PollConfig_default =
     \<lparr>pf_intervalMs = 5000, pf_minBackoffMs = 1000, pf_maxBackoffMs = 30000, pf_coldMaxPages = 20, pf_warmMaxPages = 2, pf_pageSize = 50\<rparr>"

text \<open>\<open>pw_handed\<close>: the calls of the owner's handler.\<close>

record PollWorker =
  pw_cfg :: PollConfig
  pw_router :: "EventRouter option"
  pw_running :: bool
  pw_cold :: bool
  pw_pages :: u64
  pw_rounds :: u64
  pw_errors :: u64
  pw_consecutive_fails :: u64
  pw_handed :: "FetchedRound list"

definition PollWorker_new :: "EventRouter option \<Rightarrow> PollConfig \<Rightarrow> PollWorker" where
  "PollWorker_new router cfg =
     \<lparr>pw_cfg = cfg, pw_router = router, pw_running = False, pw_cold = True, pw_pages = 0, pw_rounds = 0, pw_errors = 0, pw_consecutive_fails = 0,
      pw_handed = []\<rparr>"

definition pw_start :: "PollWorker \<Rightarrow> PollWorker" where
  "pw_start w = (if pw_running w then w else w\<lparr>pw_running := True, pw_cold := True\<rparr>)"

definition pw_stop :: "PollWorker \<Rightarrow> PollWorker" where
  "pw_stop w = w\<lparr>pw_running := False\<rparr>"

text \<open>The event made of a fetched round.\<close>

definition fr_event :: "TimestampMs \<Rightarrow> FetchedRound \<Rightarrow> CrashEvent" where
  "fr_event now fr =
     CrashEvent_default\<lparr>ev_kind := Ev_End, ev_gameId := fr_gameId fr, ev_roundId := fr_gameId fr, ev_crashPoint := fr_multiplier fr, ev_hash := fr_hash fr,
       ev_beganAtMs := fr_beganAtMs fr, ev_endedAtMs := fr_crashedAtMs fr,
       ev_eventTimeMs := (if fr_crashedAtMs fr \<noteq> 0 then fr_crashedAtMs fr else now), ev_valid := True\<rparr>"

definition fr_route :: "(nat \<Rightarrow> TimestampMs) \<Rightarrow> (nat \<Rightarrow> NanoTime) \<Rightarrow> FetchedRound \<Rightarrow> EventRouter \<Rightarrow> EventRouter" where
  "fr_route ms ns fr r = snd (er_route (ns 0) (ns 1) (fr_event (ms 0) fr) r)"

definition pw_pull :: "'h http_request \<Rightarrow> (nat \<Rightarrow> TimestampMs) \<Rightarrow> int \<Rightarrow> FetchedRound list \<times> PollWorker \<times> 'h hc_state \<Rightarrow>
    (FetchedRound list \<times> PollWorker \<times> 'h hc_state) ph_run" where
  "pw_pull http ms page st =
     (case st of (batch, w, hc) \<Rightarrow>
      case fetchPage http ms page (pf_pageSize (pw_cfg w)) hc of
        Ph_done (Inl e, hc) \<Rightarrow>
          Ph_done (batch, w\<lparr>pw_pages := pw_pages w + 1, pw_errors := pw_errors w + 1, pw_consecutive_fails := pw_consecutive_fails w + 1\<rparr>, hc)
      | Ph_done (Inr rs, hc) \<Rightarrow> Ph_done (batch @ rs, w\<lparr>pw_pages := pw_pages w + 1, pw_consecutive_fails := 0\<rparr>, hc)
      | Ph_undefined \<Rightarrow> Ph_undefined
      | Ph_running \<Rightarrow> Ph_running)"

text \<open>The pages from the \<open>p\<close>th on, \<open>n\<close> of them: the loop stops after a page but the first that brings nothing.\<close>

fun pw_pull_all :: "'h http_request \<Rightarrow> (nat \<Rightarrow> nat \<Rightarrow> TimestampMs) \<Rightarrow> nat \<Rightarrow> nat \<Rightarrow> FetchedRound list \<times> PollWorker \<times> 'h hc_state \<Rightarrow>
    (FetchedRound list \<times> PollWorker \<times> 'h hc_state) ph_run" where
  "pw_pull_all http ms p 0 st = Ph_done st"
| "pw_pull_all http ms p (Suc n) (batch, w, hc) =
     (if \<not> pw_running w then Ph_done (batch, w, hc)
      else (case pw_pull http (ms p) (int p) (batch, w, hc) of
              Ph_done (batch', w, hc) \<Rightarrow>
                if length batch' = length batch \<and> p > 1 then Ph_done (batch', w, hc) else pw_pull_all http ms (p + 1) n (batch', w, hc)
            | Ph_undefined \<Rightarrow> Ph_undefined
            | Ph_running \<Rightarrow> Ph_running))"

definition pw_ingest :: "(nat \<Rightarrow> TimestampMs) \<Rightarrow> (nat \<Rightarrow> NanoTime) \<Rightarrow> FetchedRound \<Rightarrow> PollWorker \<Rightarrow> PollWorker" where
  "pw_ingest ms ns fr w =
     w\<lparr>pw_handed := pw_handed w @ [fr], pw_router := map_option (fr_route ms ns fr) (pw_router w), pw_rounds := pw_rounds w + 1\<rparr>"

definition fetchAndIngest :: "'h http_request \<Rightarrow> (nat \<Rightarrow> nat \<Rightarrow> TimestampMs) \<Rightarrow> (nat \<Rightarrow> NanoTime) \<Rightarrow> nat \<Rightarrow> PollWorker \<Rightarrow> 'h hc_state \<Rightarrow>
    (nat \<times> PollWorker \<times> 'h hc_state) ph_run" where
  "fetchAndIngest http ms ns maxPages w hc =
     (case pw_pull_all http ms 1 maxPages ([], w, hc) of
        Ph_done (batch, w, hc) \<Rightarrow> Ph_done (length batch, fold (pw_ingest (ms 0) ns) batch w, hc)
      | Ph_undefined \<Rightarrow> Ph_undefined
      | Ph_running \<Rightarrow> Ph_running)"

definition pw_max_pages :: "PollWorker \<Rightarrow> nat" where
  "pw_max_pages w = (if pw_cold w then pf_coldMaxPages (pw_cfg w) else pf_warmMaxPages (pw_cfg w))"

definition pw_tickOnce :: "'h http_request \<Rightarrow> (nat \<Rightarrow> nat \<Rightarrow> TimestampMs) \<Rightarrow> (nat \<Rightarrow> NanoTime) \<Rightarrow> PollWorker \<Rightarrow> 'h hc_state \<Rightarrow>
    (nat \<times> PollWorker \<times> 'h hc_state) ph_run" where
  "pw_tickOnce http ms ns w hc = fetchAndIngest http ms ns (pw_max_pages w) w hc"

text \<open>The pause after a turn, with the two draws of the jitter.\<close>

definition pw_sleep :: "int \<Rightarrow> int \<Rightarrow> PollWorker \<Rightarrow> int" where
  "pw_sleep j1 j2 w =
     (if pw_errors w > 0
      then min (pf_maxBackoffMs (pw_cfg w)) (pf_minBackoffMs (pw_cfg w) * 2 ^ unat (min (pw_consecutive_fails w) 5)) + j2
      else pf_intervalMs (pw_cfg w) + j1)"

text \<open>One turn of the loop.\<close>

definition pw_turn :: "'h http_request \<Rightarrow> (nat \<Rightarrow> nat \<Rightarrow> TimestampMs) \<Rightarrow> (nat \<Rightarrow> NanoTime) \<Rightarrow> int \<Rightarrow> int \<Rightarrow> PollWorker \<Rightarrow> 'h hc_state \<Rightarrow>
    (int \<times> PollWorker \<times> 'h hc_state) ph_run" where
  "pw_turn http ms ns j1 j2 w hc =
     (case fetchAndIngest http ms ns (pw_max_pages w) w hc of
        Ph_done (n, w, hc) \<Rightarrow> (let w = (if n > 0 then w\<lparr>pw_cold := False\<rparr> else w) in Ph_done (pw_sleep j1 j2 w, w, hc))
      | Ph_undefined \<Rightarrow> Ph_undefined
      | Ph_running \<Rightarrow> Ph_running)"

section \<open>Poll recovery\<close>

record PollRecovery =
  pv_router :: "EventRouter option"
  pv_fetched :: u64
  pv_ticks :: u64
  pv_injected :: u64
  pv_errors :: u64

definition pv_inject :: "(nat \<Rightarrow> TimestampMs) \<Rightarrow> (nat \<Rightarrow> NanoTime) \<Rightarrow> FetchedRound \<Rightarrow> PollRecovery \<Rightarrow> PollRecovery" where
  "pv_inject ms ns fr v = v\<lparr>pv_router := map_option (fr_route ms ns fr) (pv_router v), pv_injected := pv_injected v + 1\<rparr>"

definition pv_injectHistory :: "NanoTime \<Rightarrow> NanoTime \<Rightarrow> CrashEvent \<Rightarrow> PollRecovery \<Rightarrow> PollRecovery" where
  "pv_injectHistory t0 t1 ev v = v\<lparr>pv_router := map_option (\<lambda>r. snd (er_route t0 t1 ev r)) (pv_router v), pv_injected := pv_injected v + 1\<rparr>"

text \<open>The pages of a tick; rounds of a page are routed before the next is asked for.\<close>

fun pv_pages :: "'h http_request \<Rightarrow> (nat \<Rightarrow> nat \<Rightarrow> TimestampMs) \<Rightarrow> (nat \<Rightarrow> NanoTime) \<Rightarrow> int list \<Rightarrow> nat \<Rightarrow> PollRecovery \<Rightarrow> 'h hc_state \<Rightarrow>
    (nat Result \<times> PollRecovery \<times> 'h hc_state) ph_run" where
  "pv_pages http ms ns [] n v hc = Ph_done (Inr n, v, hc)"
| "pv_pages http ms ns (p # ps) n v hc =
     (case fetchPage http (ms (nat p)) p 50 hc of
        Ph_done (Inl e, hc) \<Rightarrow> Ph_done (Inl (mkError (err_code e) (err_message e)), v\<lparr>pv_errors := pv_errors v + 1\<rparr>, hc)
      | Ph_done (Inr rs, hc) \<Rightarrow> pv_pages http ms ns ps (n + length rs) (fold (pv_inject (ms 0) ns) rs v) hc
      | Ph_undefined \<Rightarrow> Ph_undefined
      | Ph_running \<Rightarrow> Ph_running)"

definition pv_tick :: "'h http_request \<Rightarrow> (nat \<Rightarrow> nat \<Rightarrow> TimestampMs) \<Rightarrow> (nat \<Rightarrow> NanoTime) \<Rightarrow> PollRecovery \<Rightarrow> 'h hc_state \<Rightarrow>
    (unit Result \<times> PollRecovery \<times> 'h hc_state) ph_run" where
  "pv_tick http ms ns v hc =
     (case pv_pages http ms ns [1, 2] 0 (v\<lparr>pv_ticks := pv_ticks v + 1\<rparr>) hc of
        Ph_done (Inr n, v, hc) \<Rightarrow> Ph_done (Inr (), v\<lparr>pv_fetched := pv_fetched v + of_nat n\<rparr>, hc)
      | Ph_done (Inl e, v, hc) \<Rightarrow> Ph_done (Inl e, v, hc)
      | Ph_undefined \<Rightarrow> Ph_undefined
      | Ph_running \<Rightarrow> Ph_running)"

section \<open>What a pass takes in\<close>

lemma body_sound: "parseHistoryBody ms body cache = Ph_done (out, cache') \<Longrightarrow> list_all fr_sound out"
  using loop_sound [of ms "length body + 1" body 0 "([], cache)" "(out, cache')"] by (simp add: parseHistoryBody_def)

lemma fetch_sound: "fetchPage http ms page n st = Ph_done (Inr rs, st') \<Longrightarrow> list_all fr_sound rs"
  by (auto simp: fetchPage_def split: prod.splits sum.splits if_splits ph_run.splits dest: body_sound)

lemma pull_sound:
  assumes "pw_pull http ms p (batch, w, hc) = Ph_done (batch', w', hc')"
  shows "(\<exists>rs. batch' = batch @ rs \<and> list_all fr_sound rs) \<and> pw_handed w' = pw_handed w \<and> pw_router w' = pw_router w \<and> pw_rounds w' = pw_rounds w"
  using assms by (auto simp: pw_pull_def dest: fetch_sound split: ph_run.splits prod.splits sum.splits)

lemma pull_all_sound:
  "pw_pull_all http ms p n (batch, w, hc) = Ph_done (batch', w', hc') \<Longrightarrow> list_all fr_sound batch \<Longrightarrow>
   list_all fr_sound batch' \<and> pw_handed w' = pw_handed w \<and> pw_router w' = pw_router w \<and> pw_rounds w' = pw_rounds w"
proof (induction n arbitrary: p batch w hc)
  case (Suc n)
  show ?case
  proof (cases "pw_running w")
    case True
    then obtain b1 w1 hc1 where q: "pw_pull http (ms p) (int p) (batch, w, hc) = Ph_done (b1, w1, hc1)"
      using Suc.prems(1) by (auto split: ph_run.splits)
    note one = pull_sound [OF q]
    then have b1: "list_all fr_sound b1" using Suc.prems(2) by auto
    show ?thesis
    proof (cases "length b1 = length batch \<and> p > 1")
      case True
      then show ?thesis using Suc.prems(1) \<open>pw_running w\<close> q one b1 by simp
    next
      case False
      then have "pw_pull_all http ms (p + 1) n (b1, w1, hc1) = Ph_done (batch', w', hc')" using Suc.prems(1) \<open>pw_running w\<close> q by (simp split: if_splits)
      from Suc.IH [OF this b1] show ?thesis using one by simp
    qed
  qed (use Suc.prems in simp)
qed simp

lemma ingest_fold:
  "pw_handed (fold (pw_ingest ms ns) rs w) = pw_handed w @ rs \<and> pw_rounds (fold (pw_ingest ms ns) rs w) = pw_rounds w + of_nat (length rs) \<and>
   pw_router (fold (pw_ingest ms ns) rs w) = map_option (fold (fr_route ms ns) rs) (pw_router w)"
  by (induction rs arbitrary: w) (simp_all add: pw_ingest_def option.map_comp comp_def option.map_id)


text \<open>A server that always gives the same empty list.\<close>

definition demo_http :: "nat http_request" where
  "demo_http req h = (Inr \<lparr>hs_status = 200, hs_body = ''[]'', hs_headers = []\<rparr>, h + 1)"


text \<open>The pause: never longer than interval or longest backoff, with the jitter; and once a request has failed it is the shortest
  backoff after every success, however long ago the failure was.\<close>

lemma poll_sleep_bounded:
  assumes "0 \<le> j1" "j1 \<le> 500" "0 \<le> j2" "j2 \<le> 500"
  shows "pw_sleep j1 j2 w \<le> max (pf_intervalMs (pw_cfg w)) (pf_maxBackoffMs (pw_cfg w)) + 500"
  using assms by (auto simp: pw_sleep_def)

lemma poll_sleep_after_failure:
  "pw_errors w > 0 \<Longrightarrow> pw_consecutive_fails w = 0 \<Longrightarrow> pw_sleep j1 j2 w = min (pf_maxBackoffMs (pw_cfg w)) (pf_minBackoffMs (pw_cfg w)) + j2"
  by (simp add: pw_sleep_def)

end
