(* ===== verification/Seeder.thy ===== *)
theory Seeder
  imports Rest Repos Attempts
begin

text \<open>
  The cold start seeder (\<open>live/cold_start_seeder.hpp\<close>): it fills the cache of recent rounds from the database and, when that has too
  few, from the history server, whose rounds it also stores. The repository, the history client and the rolling history may each be missing,
  as the null pointers of the sources.
\<close>

record SeedConfig =
  sf_minHistory :: nat
  sf_targetHistory :: nat
  sf_restPages :: nat

definition SeedConfig_default :: SeedConfig where
  "SeedConfig_default = \<lparr>sf_minHistory = 50, sf_targetHistory = 200, sf_restPages = 5\<rparr>"

definition cs_cached :: "CrashRound \<Rightarrow> CachedRound" where
  "cs_cached r = \<lparr>rr_gameId = cr_gameId r, rr_multiplier = cr_multiplier r, rr_endedAtMs = cr_crashedAtMs r, rr_cachedAtMs = 0, rr_hash = cr_hash r\<rparr>"

definition cs_event :: "CrashRound \<Rightarrow> CrashEvent" where
  "cs_event r =
     CrashEvent_default\<lparr>ev_gameId := cr_gameId r, ev_crashPoint := cr_multiplier r, ev_endedAtMs := cr_crashedAtMs r, ev_kind := Ev_End, ev_valid := True\<rparr>"

definition cs_fetched :: "FetchedRound \<Rightarrow> CachedRound" where
  "cs_fetched fr =
     \<lparr>rr_gameId = fr_gameId fr, rr_multiplier = fr_multiplier fr, rr_endedAtMs = fr_crashedAtMs fr, rr_cachedAtMs = 0, rr_hash = fr_hash fr\<rparr>"

text \<open>A round to store, with the fields the seeder sets; the others keep their defaults.\<close>

definition cs_round :: "FetchedRound \<Rightarrow> CrashRound" where
  "cs_round fr =
     \<lparr>cr_gameId = fr_gameId fr, cr_multiplier = fr_multiplier fr, cr_hash = fr_hash fr, cr_salt = [], cr_beganAtMs = fr_beganAtMs fr,
      cr_crashedAtMs = fr_crashedAtMs fr, cr_sequence = 0, cr_hasHash = False, cr_hasSalt = False\<rparr>"

type_synonym ('c, 'w) rounds = "CrashRoundRepository \<times> 'c Db \<times> 'w"

text \<open>The database's rounds: their number, and what is left of repository, cache and rolling history.\<close>

definition cs_database :: "('c, 'w) libpq \<Rightarrow> (string \<Rightarrow> double) \<Rightarrow> string list \<Rightarrow> TimestampMs \<Rightarrow> SeedConfig \<Rightarrow> ('c, 'w) rounds option \<Rightarrow> RecentRoundCache \<Rightarrow>
    RollingHistoryBuffer option \<Rightarrow> nat \<times> ('c, 'w) rounds option \<times> RecentRoundCache \<times> RollingHistoryBuffer option" where
  "cs_database pq atof ks now cfg rounds cache rolling =
     (case rounds of
        None \<Rightarrow> (0, None, cache, rolling)
      | Some s \<Rightarrow>
          (case round_findRecent pq atof ks (sf_targetHistory cfg) s of
             (rows, s) \<Rightarrow>
               (length rows, Some s, fold (\<lambda>r. rc_put now (cs_cached r)) rows cache,
                map_option (fold (\<lambda>r. rh_pushFromEvent now (cs_event r)) rows) rolling)))"

definition cs_take :: "('c, 'w) libpq \<Rightarrow> TimestampMs \<Rightarrow> FetchedRound \<Rightarrow> ('c, 'w) rounds option \<times> RecentRoundCache \<Rightarrow>
    ('c, 'w) rounds option \<times> RecentRoundCache" where
  "cs_take pq now fr st =
     (case st of (rounds, cache) \<Rightarrow> (map_option (\<lambda>s. snd (round_upsert pq (cs_round fr) s)) rounds, rc_put now (cs_fetched fr) cache))"

text \<open>The server's pages; a page that fails is passed over.\<close>

fun cs_pages :: "('c, 'w) libpq \<Rightarrow> 'h http_request \<Rightarrow> (nat \<Rightarrow> TimestampMs) \<Rightarrow> SeedConfig \<Rightarrow> nat list \<Rightarrow>
    nat \<times> ('c, 'w) rounds option \<times> 'h hc_state \<Rightarrow> (nat \<times> ('c, 'w) rounds option \<times> 'h hc_state) ph_run" where
  "cs_pages pq http ms cfg [] st = Ph_done st"
| "cs_pages pq http ms cfg (p # ps) (loaded, rounds, hc) =
     (case fetchPage http ms (int p) 50 hc of
        Ph_done (Inl e, hc) \<Rightarrow> cs_pages pq http ms cfg ps (loaded, rounds, hc)
      | Ph_done (Inr rs, c, h, cache) \<Rightarrow>
          (case fold (cs_take pq (ms 0)) rs (rounds, cache) of
             (rounds, cache) \<Rightarrow>
               let loaded = loaded + length rs
               in if loaded \<ge> sf_targetHistory cfg then Ph_done (loaded, rounds, c, h, cache)
                  else cs_pages pq http ms cfg ps (loaded, rounds, c, h, cache))
      | Ph_undefined \<Rightarrow> Ph_undefined
      | Ph_running \<Rightarrow> Ph_running)"

record ('c, 'w, 'h) SeedState =
  ss_rounds :: "('c, 'w) rounds option"
  ss_history :: "(CrashHistoryClient \<times> 'h) option"
  ss_cache :: RecentRoundCache
  ss_rolling :: "RollingHistoryBuffer option"
  ss_seeded :: nat

definition cs_seed :: "('c, 'w) libpq \<Rightarrow> (string \<Rightarrow> double) \<Rightarrow> string list \<Rightarrow> 'h http_request \<Rightarrow> TimestampMs \<Rightarrow> (nat \<Rightarrow> TimestampMs) \<Rightarrow> SeedConfig \<Rightarrow>
    ('c, 'w, 'h) SeedState \<Rightarrow> (unit Result \<times> ('c, 'w, 'h) SeedState) ph_run" where
  "cs_seed pq atof ks http now ms cfg s =
     (case cs_database pq atof ks now cfg (ss_rounds s) (ss_cache s) (ss_rolling s) of
        (loaded, rounds, cache, rolling) \<Rightarrow>
          let s = s\<lparr>ss_rounds := rounds, ss_cache := cache, ss_rolling := rolling, ss_seeded := loaded\<rparr>
          in case ss_history s of
               None \<Rightarrow> Ph_done (Inr (), s)
             | Some (c, h) \<Rightarrow>
                 if loaded \<ge> sf_minHistory cfg then Ph_done (Inr (), s)
                 else (case cs_pages pq http ms cfg [1..<Suc (sf_restPages cfg)] (loaded, rounds, c, h, cache) of
                         Ph_done (loaded, rounds, c, h, cache) \<Rightarrow>
                           Ph_done (Inr (), s\<lparr>ss_rounds := rounds, ss_history := Some (c, h), ss_cache := cache, ss_seeded := loaded\<rparr>)
                       | Ph_undefined \<Rightarrow> Ph_undefined
                       | Ph_running \<Rightarrow> Ph_running))"

section \<open>Lemmas\<close>

text \<open>Without a repository and a history client, as the application makes it, the seeder answers success and loads nothing.\<close>

lemma seed_without_sources:
  assumes "ss_rounds s = None" "ss_history s = None"
  shows "cs_seed pq atof ks http now ms cfg s = Ph_done (Inr (), s\<lparr>ss_seeded := 0\<rparr>)"
  using assms by (simp add: cs_seed_def cs_database_def)

text \<open>Seeding never reports an error, and the rounds of the server do not reach the rolling history.\<close>

lemma seed_rolling:
  assumes "cs_seed pq atof ks http now ms cfg s = Ph_done (r, s')"
  shows "r = Inr () \<and> ss_rolling s' = snd (snd (snd (cs_database pq atof ks now cfg (ss_rounds s) (ss_cache s) (ss_rolling s))))"
  using assms by (auto simp: cs_seed_def Let_def split: prod.splits option.splits if_splits ph_run.splits)

lemma seed_pages_grow: "cs_pages pq http ms cfg ps (n, rounds, hc) = Ph_done (n', rest) \<Longrightarrow> n \<le> n'"
proof (induction ps arbitrary: n rounds hc)
  case (Cons p ps)
  then show ?case by (fastforce simp: Let_def split: ph_run.splits prod.splits sum.splits if_splits)
qed simp

end
