(* ===== verification/App.thy ===== *)
theory App
  imports Pipeline Notify Maintain Seeder
begin

text \<open>
  The core of \<open>Application\<close> (\<open>include/application/application.hpp\<close>): the handlers it installs and the loop it runs. The components
  the application owns and lends to the pipeline loop (decoder, router, prediction client, live validator, outbox with its
  leases) are those of \<open>ap_pipe\<close>, so that both see the same state; the loop has no handlers of its own here. The transaction object
  is put together from the database, the outbox repository and the hand-off when it is used, since it only points to them.
  The metric registry, the funnel, the global statistics, the skew monitor, the diagnostics and the log are written and never read by
  these parts, and left out.

  What comes from outside is in a record: the readings of the clocks and the orders of hash maps (\<open>Env\<close> of the pipeline), the
  map order of the forensics and of the targets, libpq and the prediction engine.
\<close>

section \<open>State\<close>

record ('c, 'w, 'e) Outside =
  os_env :: Env
  os_trace :: "DeliveryForensics \<Rightarrow> string"
  os_targets :: "TargetCoordinator \<Rightarrow> string list"
  os_pq :: "('c, 'w) libpq"
  os_engine :: "'e Engine"

abbreviation os_ms :: "('c, 'w, 'e) Outside \<Rightarrow> nat list \<Rightarrow> TimestampMs" where
  "os_ms x \<equiv> en_ms (os_env x)"

abbreviation os_ns :: "('c, 'w, 'e) Outside \<Rightarrow> nat list \<Rightarrow> NanoTime" where
  "os_ns x \<equiv> en_ns (os_env x)"

record ('c, 'w, 'e) Application =
  ap_pipe :: "'e InProcessPredictionClient PipelineLoop"
  ap_handoff :: DurableHandoff
  ap_attempts :: PredictionAttemptCoordinator
  ap_n1 :: N1Coordinator
  ap_targets :: TargetCoordinator
  ap_history :: RollingHistoryBuffer
  ap_cooldown :: LossCooldownTracker
  ap_violations :: u64
  ap_feedback :: ExactlyOnceFeedback
  ap_forensics :: DeliveryForensics
  ap_temporal :: TemporalGuard
  ap_db :: "'c Db option"
  ap_outbox_repo :: "OutboxRepository option"
  ap_durable_tx :: "u64 option"
  ap_retention :: "RetentionManager option"
  ap_metrics :: Metrics
  ap_world :: 'w

definition ap_inc :: "Counter \<Rightarrow> ('c, 'w, 'e) Application \<Rightarrow> ('c, 'w, 'e) Application" where
  "ap_inc c a = a\<lparr>ap_metrics := mx_inc c 1 (ap_metrics a)\<rparr>"

abbreviation ap_validator :: "('c, 'w, 'e) Application \<Rightarrow> LiveValidator" where
  "ap_validator a \<equiv> pl_validator (ap_pipe a)"

definition ap_set_validator :: "LiveValidator \<Rightarrow> ('c, 'w, 'e) Application \<Rightarrow> ('c, 'w, 'e) Application" where
  "ap_set_validator v a = a\<lparr>ap_pipe := (ap_pipe a)\<lparr>pl_validator := v\<rparr>\<rparr>"

text \<open>The hand-off with the outbox behind it.\<close>

definition ap_hand :: "('c, 'w, 'e) Application \<Rightarrow> Outbox \<times> DurableHandoff" where
  "ap_hand a = (fst (pl_outbox (ap_pipe a)), ap_handoff a)"

definition ap_set_hand :: "Outbox \<times> DurableHandoff \<Rightarrow> ('c, 'w, 'e) Application \<Rightarrow> ('c, 'w, 'e) Application" where
  "ap_set_hand h a = a\<lparr>ap_pipe := (ap_pipe a)\<lparr>pl_outbox := (fst h, snd (pl_outbox (ap_pipe a)))\<rparr>, ap_handoff := snd h\<rparr>"

text \<open>The transaction object. It has the hand-off, so the outbox it also points to is never used directly.\<close>

definition ap_tx :: "u64 \<Rightarrow> ('c, 'w, 'e) Application \<Rightarrow> 'c DurablePredictionTx" where
  "ap_tx n a =
     \<lparr>dt_db = ap_db a, dt_repo = ap_outbox_repo a, dt_pub = \<lparr>pb_handoff = Some (ap_hand a), pb_memory = None\<rparr>, dt_durable_ok = n\<rparr>"

definition ap_set_tx :: "'c DurablePredictionTx \<Rightarrow> 'w \<Rightarrow> ('c, 'w, 'e) Application \<Rightarrow> ('c, 'w, 'e) Application" where
  "ap_set_tx t w a =
     (case pb_handoff (dt_pub t) of Some h \<Rightarrow> ap_set_hand h a | None \<Rightarrow> a)
       \<lparr>ap_db := dt_db t, ap_outbox_repo := dt_repo t, ap_durable_tx := Some (dt_durable_ok t), ap_world := w\<rparr>"

definition ap_note :: "('c, 'w, 'e) Outside \<Rightarrow> TimestampMs \<Rightarrow> string \<Rightarrow> DeliveryStage \<Rightarrow> string \<Rightarrow> ('c, 'w, 'e) Application \<Rightarrow> ('c, 'w, 'e) Application" where
  "ap_note x now i st outboxId a = a\<lparr>ap_forensics := fo_note now (os_trace x (ap_forensics a)) i st outboxId [] (ap_forensics a)\<rparr>"

section \<open>The response handler\<close>

definition ap_publish_memory :: "('c, 'w, 'e) Outside \<Rightarrow> nat list \<Rightarrow> PredictionEvent \<Rightarrow> Signal \<Rightarrow> ('c, 'w, 'e) Application \<Rightarrow>
    bool \<times> ('c, 'w, 'e) Application" where
  "ap_publish_memory x p pev sig a =
     (case dh_publishPrediction (os_ms x (0 # p)) sig (ap_hand a) of
        (r, h) \<Rightarrow>
          let a = ap_set_hand h a
          in if Result_ok r
             then (True, ap_note x (os_ms x (1 # p)) (pe_predictionId pev) Ds_Published [] (ap_inc Mc_OutboxPublished a))
             else (False, a))"

definition ap_publish :: "('c, 'w, 'e) Outside \<Rightarrow> nat list \<Rightarrow> PredictionEvent \<Rightarrow> Signal \<Rightarrow> ('c, 'w, 'e) Application \<Rightarrow>
    bool \<times> ('c, 'w, 'e) Application" where
  "ap_publish x p pev sig a =
     (case ap_durable_tx a of
        None \<Rightarrow> ap_publish_memory x (0 # p) pev sig a
      | Some n \<Rightarrow>
          (case persistPrediction (os_pq x) (\<lambda>j. os_ms x (j # 1 # p)) pev sig (ap_tx n a) (ap_world a) of
             (dr, t, w) \<Rightarrow>
               let a = ap_set_tx t w a
               in if du_ok dr
                  then (True, ap_note x (os_ms x (2 # p)) (pe_predictionId pev) Ds_Published (pe_predictionId pev @ ''-pred'')
                                (ap_inc Mc_OutboxPublished a))
                  else ap_publish_memory x (3 # p) pev sig a))"

definition ap_respond :: "('c, 'w, 'e) Outside \<Rightarrow> nat list \<Rightarrow> PredictionResponse \<Rightarrow> ('c, 'w, 'e) Application \<Rightarrow> ('c, 'w, 'e) Application" where
  "ap_respond x p resp a =
     (let a = ap_inc Mc_PredictionsSubmitted a;
          att = ap_attempts a;
          a = a\<lparr>ap_attempts := snd (snd (pa_complete (os_ms x (0 # p)) (en_attempts (os_env x) att) resp att))\<rparr>
      in if \<not> isActionable resp then a
      else let a = ap_inc Mc_PredictionsActionable a;
               pev = fromResponse (os_ms x (1 # p)) (os_ns x (1 # p)) resp (rs_targetRoundId resp) (Fin 0);
               (reg, v) = lv_registerPrediction (en_rounds (os_env x) (lv_registry (ap_validator a))) pev (ap_validator a);
               a = ap_set_validator v a
      in if \<not> Result_ok reg then a
      else let a = a\<lparr>ap_targets := tc_markPredicted (rs_targetRoundId resp)
                         (snd (tc_claim (os_ms x (2 # p)) (rs_targetRoundId resp) (pe_predictionId pev) (ap_targets a)))\<rparr>;
               (published, a) = ap_publish x (3 # p) pev (signalFromPrediction (os_ms x (4 # p)) pev) a
      in if published then a else a\<lparr>ap_targets := snd (tc_release (rs_targetRoundId resp) (ap_targets a))\<rparr>)"

section \<open>The outcome handler\<close>

definition feedback_sql :: string where
  "feedback_sql =
     ''INSERT INTO feedback_events (prediction_id, round_id, outcome, actual_mult, delivered, created_at_ms) '' @
     ''VALUES ($1,$2,$3,$4,true,$5) ON CONFLICT DO NOTHING''"

definition feedback_params :: "TimestampMs \<Rightarrow> Outcome \<Rightarrow> string list" where
  "feedback_params now oc =
     [oc_predictionId oc, oc_roundId oc, (if oc_isWin oc \<or> oc_result oc = Out_Win then ''win'' else ''loss''),
      fixedn 6 (oc_actualMult oc), show_int now]"

text \<open>\<open>ExactlyOnceFeedback::apply\<close> with its database. The adaptive edge is one object, which the feedback changes and the prediction
  client reads.\<close>

definition ap_apply :: "('c, 'w, 'e) Outside \<Rightarrow> TimestampMs \<Rightarrow> Outcome \<Rightarrow> ('c, 'w, 'e) Application \<Rightarrow> bool \<times> ('c, 'w, 'e) Application" where
  "ap_apply x now oc a =
     (let (r, db, w) =
            (case ap_db a of
               Some (Pg d) \<Rightarrow>
                 if fst (eo_apply None oc (ap_feedback a))
                 then (case executeParams (os_pq x) feedback_sql (feedback_params now oc) d (ap_world a) of
                         (r, d, w) \<Rightarrow> (Some (Result_ok r), Some (Pg d), w))
                 else (None, ap_db a, ap_world a)
             | _ \<Rightarrow> (None, ap_db a, ap_world a));
          (applied, fb) = eo_apply r oc (ap_feedback a);
          pl = ap_pipe a
      in (applied, a\<lparr>ap_feedback := fb, ap_pipe := pl\<lparr>pl_pred := (pl_pred pl)\<lparr>ip_edge := eo_edge fb\<rparr>\<rparr>, ap_db := db, ap_world := w\<rparr>))"

definition ap_publish_outcome :: "('c, 'w, 'e) Outside \<Rightarrow> nat list \<Rightarrow> Outcome \<Rightarrow> Signal \<Rightarrow> ('c, 'w, 'e) Application \<Rightarrow> ('c, 'w, 'e) Application" where
  "ap_publish_outcome x p oc sig a =
     (let memory = (\<lambda>now a. case dh_publishOutcome now sig (ap_hand a) of
            (r, h) \<Rightarrow> let a = ap_set_hand h a in if Result_ok r then ap_inc Mc_OutboxPublished a else a)
      in case ap_durable_tx a of
           None \<Rightarrow> memory (os_ms x (0 # p)) a
         | Some n \<Rightarrow>
             (case persistOutcome (os_pq x) (os_ms x (1 # p)) (os_ms x (2 # p)) oc sig (ap_tx n a) (ap_world a) of
                (dr, t, w) \<Rightarrow>
                  let a = ap_set_tx t w a
                  in if du_ok dr then ap_inc Mc_OutboxPublished a else memory (os_ms x (3 # p)) a))"

definition ap_outcome :: "('c, 'w, 'e) Outside \<Rightarrow> nat list \<Rightarrow> Outcome \<Rightarrow> ('c, 'w, 'e) Application \<Rightarrow> ('c, 'w, 'e) Application" where
  "ap_outcome x p oc a =
     (let a = a\<lparr>ap_cooldown := lc_noteOutcome (os_ms x (0 # p)) oc (ap_cooldown a),
                ap_violations := snd (checkOutcome oc (ap_violations a))\<rparr>;
          a = (if oc_isWin oc then ap_inc Mc_OutcomesWin a
               else if oc_result oc = Out_Loss then ap_inc Mc_OutcomesLoss a else a);
          a = a\<lparr>ap_targets := tc_markResolved (os_ms x (1 # p)) (oc_roundId oc) (ap_targets a)\<rparr>;
          (applied, a) = ap_apply x (os_ms x (2 # p)) oc a;
          a = (if applied then ap_note x (os_ms x (3 # p)) (oc_predictionId oc) Ds_Delivered [] a else a)
      in ap_publish_outcome x (4 # p) oc (signalFromOutcome (os_ms x (5 # p)) oc) a)"

section \<open>The event handler\<close>

definition ap_onEvent :: "('c, 'w, 'e) Outside \<Rightarrow> nat list \<Rightarrow> CrashEvent \<Rightarrow> ('c, 'w, 'e) Application \<Rightarrow> ('c, 'w, 'e) Application" where
  "ap_onEvent x p ev a =
     (let a = ap_inc Mc_EventsReceived a;
          a = a\<lparr>ap_history := rh_pushFromEvent (os_ms x (0 # p)) ev (ap_history a)\<rparr>;
          a = (if ev_kind ev = Ev_Start \<or> ev_kind ev = Ev_Prepare then
                 let rid = (if ev_gameId ev = [] then ev_roundId ev else ev_gameId ev);
                     g = noteTargetStarted (os_ms x (2 # p)) rid (if ev_beganAtMs ev > 0 then ev_beganAtMs ev else os_ms x (3 # p)) (ap_temporal a);
                     (_, g, db, w) = killStaleForTarget (os_pq x) (os_ms x (4 # p)) rid g (ap_db a) (ap_world a)
                 in a\<lparr>ap_targets := tc_noteRoundStart (os_ms x (1 # p)) rid (ap_targets a), ap_temporal := g, ap_db := db, ap_world := w\<rparr>
               else a)
      in a\<lparr>ap_violations := snd (checkEndEvent ev (ap_violations a))\<rparr>)"

section \<open>The loop\<close>

fun ap_respond_all :: "('c, 'w, 'e) Outside \<Rightarrow> nat list \<Rightarrow> nat \<Rightarrow> PredictionResponse list \<Rightarrow> ('c, 'w, 'e) Application \<Rightarrow> ('c, 'w, 'e) Application" where
  "ap_respond_all x p i [] a = a"
| "ap_respond_all x p i (r # rs) a = ap_respond_all x p (Suc i) rs (ap_respond x (i # p) r a)"

fun ap_outcome_all :: "('c, 'w, 'e) Outside \<Rightarrow> nat list \<Rightarrow> nat \<Rightarrow> Outcome list \<Rightarrow> ('c, 'w, 'e) Application \<Rightarrow> ('c, 'w, 'e) Application" where
  "ap_outcome_all x p i [] a = a"
| "ap_outcome_all x p i (oc # ocs) a = ap_outcome_all x p (Suc i) ocs (ap_outcome x (i # p) oc a)"

definition ap_validate :: "('c, 'w, 'e) Outside \<Rightarrow> nat list \<Rightarrow> CrashEvent \<Rightarrow> ('c, 'w, 'e) Application \<Rightarrow> ('c, 'w, 'e) Application" where
  "ap_validate x p ev a =
     (let (result, _, _, v) = lv_onGameEnd (\<lambda>j. os_ms x (j # 0 # p)) (os_ns x (0 # p), os_ns x (1 # p))
                                (os_ns x (2 # p), os_ns x (3 # p)) ev (ap_validator a)
      in ap_outcome_all x (1 # p) 0 (vr_outcomes result) (ap_set_validator v a))"

text \<open>\<open>N1Coordinator::onRoundEnd\<close> on the components it shares with the application. The client calls the response handler before it
  returns, so the coordinator goes on where the handler left off.\<close>

definition ap_n1_view :: "('c, 'w, 'e) Application \<Rightarrow> 'e N1State" where
  "ap_n1_view a =
     \<lparr>ns_client = pl_pred (ap_pipe a), ns_validator = ap_validator a, ns_handoff = Some (ap_hand a), ns_metrics = Some (ap_metrics a),
      ns_tracker = pl_tracker (ap_pipe a), ns_coord = ap_n1 a\<rparr>"

definition ap_n1_set :: "'e N1State \<Rightarrow> ('c, 'w, 'e) Application \<Rightarrow> ('c, 'w, 'e) Application" where
  "ap_n1_set s a =
     (let a = (case ns_handoff s of Some h \<Rightarrow> ap_set_hand h a | None \<Rightarrow> a)
      in a\<lparr>ap_pipe := (ap_pipe a)\<lparr>pl_pred := ns_client s, pl_validator := ns_validator s, pl_tracker := ns_tracker s\<rparr>,
           ap_metrics := (case ns_metrics s of Some m \<Rightarrow> m | None \<Rightarrow> ap_metrics a), ap_n1 := ns_coord s\<rparr>)"

definition ap_onRoundEnd :: "('c, 'w, 'e) Outside \<Rightarrow> nat list \<Rightarrow> CrashEvent \<Rightarrow> ('c, 'w, 'e) Application \<Rightarrow>
    PredictionResponse Result \<times> ('c, 'w, 'e) Application" where
  "ap_onRoundEnd x p ev a =
     (if ev_kind ev \<noteq> Ev_End \<or> \<not> ev_valid ev then (Inl (mkError EC_InvalidArgument ''N1 requires valid End event''), a)
      else let now = os_ms x (0 # p); t0 = os_ns x (0 # p); t1 = os_ns x (1 # p);
               (r, handled, c) = ip_predictNextAfterEnd (os_engine x) now t0 t1 ev (pl_pred (ap_pipe a));
               a = ap_respond_all x (1 # p) 0 handled (a\<lparr>ap_pipe := (ap_pipe a)\<lparr>pl_pred := c\<rparr>\<rparr>);
               (res, s) = n1_conclude now t0 t1 (en_rounds (os_env x) (lv_registry (ap_validator a))) ev r (ap_n1_view a)
           in (res, ap_n1_set s a))"

fun ap_drainValidations :: "('c, 'w, 'e) Outside \<Rightarrow> nat list \<Rightarrow> nat \<Rightarrow> ('c, 'w, 'e) Application \<Rightarrow> ('c, 'w, 'e) Application" where
  "ap_drainValidations x p 0 a = a"
| "ap_drainValidations x p (Suc k) a =
     (case er_popValidation (pl_router (ap_pipe a)) of
        (None, r) \<Rightarrow> a\<lparr>ap_pipe := (ap_pipe a)\<lparr>pl_router := r\<rparr>\<rparr>
      | (Some ev, r) \<Rightarrow>
          let a = a\<lparr>ap_pipe := (ap_pipe a)\<lparr>pl_router := r\<rparr>, ap_history := rh_pushFromEvent (os_ms x (0 # k # p)) ev (ap_history a)\<rparr>;
              a = ap_validate x (1 # k # p) ev a
          in ap_drainValidations x p k (snd (ap_onRoundEnd x (2 # k # p) ev a)))"

text \<open>The prediction queue carries the same ends; with a coordinator they are taken out and nothing else.\<close>

fun ap_drainPredictions :: "nat \<Rightarrow> ('c, 'w, 'e) Application \<Rightarrow> ('c, 'w, 'e) Application" where
  "ap_drainPredictions 0 a = a"
| "ap_drainPredictions (Suc k) a =
     (case er_popPrediction (pl_router (ap_pipe a)) of
        (None, r) \<Rightarrow> a\<lparr>ap_pipe := (ap_pipe a)\<lparr>pl_router := r\<rparr>\<rparr>
      | (Some _, r) \<Rightarrow> ap_drainPredictions k (a\<lparr>ap_pipe := (ap_pipe a)\<lparr>pl_router := r\<rparr>\<rparr>))"

definition ap_expire :: "('c, 'w, 'e) Outside \<Rightarrow> nat list \<Rightarrow> ('c, 'w, 'e) Application \<Rightarrow> ('c, 'w, 'e) Application" where
  "ap_expire x p a =
     (let att = ap_attempts a
      in a\<lparr>ap_pipe := pl_expire (os_env x) (0 # p) (ap_pipe a),
           ap_attempts := snd (snd (pa_expireTimeouts (os_ms x (1 # p)) (en_attempts (os_env x) att) att))\<rparr>)"

definition drainQueues :: "('c, 'w, 'e) Outside \<Rightarrow> nat list \<Rightarrow> ('c, 'w, 'e) Application \<Rightarrow> ('c, 'w, 'e) Application" where
  "drainQueues x p a =
     (let a = ap_drainValidations x (0 # p) (unat (sq_cap (er_to_validation (pl_router (ap_pipe a))))) a;
          a = ap_drainPredictions (unat (sq_cap (er_to_prediction (pl_router (ap_pipe a))))) a
      in ap_expire x (1 # p) a)"

definition onBinaryFrame :: "('c, 'w, 'e) Outside \<Rightarrow> bytes \<Rightarrow> ('c, 'w, 'e) Application \<Rightarrow> unit Result \<times> ('c, 'w, 'e) Application" where
  "onBinaryFrame x data a =
     (case onFrame (os_env x) (\<lambda>p. ip_submit (os_engine x) (os_ms x p) (os_ns x (0 # p)) (os_ns x (1 # p))) data (ap_pipe a) of
        (r, pl) \<Rightarrow> (r, a\<lparr>ap_pipe := pl\<rparr>))"

text \<open>The poll worker's handler; the worker also routes the round itself.\<close>

definition ap_poll :: "('c, 'w, 'e) Outside \<Rightarrow> nat list \<Rightarrow> FetchedRound \<Rightarrow> ('c, 'w, 'e) Application \<Rightarrow> ('c, 'w, 'e) Application" where
  "ap_poll x p fr a =
     (let ev = fr_event (os_ms x (0 # p)) fr; a = a\<lparr>ap_history := rh_pushFromEvent (os_ms x (1 # p)) ev (ap_history a)\<rparr>
      in snd (ap_onRoundEnd x (2 # p) ev a))"

text \<open>Seeding the prediction engine from the rolling history, before and after the cold start, and its prewarming at boot.\<close>

definition ap_multipliers :: "nat \<Rightarrow> ('c, 'w, 'e) Application \<Rightarrow> double list" where
  "ap_multipliers n a = filter (dless (Fin 0)) (map hr_multiplier (rh_last n (ap_history a)))"

definition ap_seed :: "('c, 'w, 'e) Outside \<Rightarrow> nat list \<Rightarrow> ('c, 'w, 'e) Application \<Rightarrow> ('c, 'w, 'e) Application" where
  "ap_seed x p a =
     (let cps = ap_multipliers 256 a in if cps = [] then a else ap_n1_set (n1_seedHistory (os_engine x) (os_ms x p) cps (ap_n1_view a)) a)"

definition ap_prewarm :: "('c, 'w, 'e) Outside \<Rightarrow> ('c, 'w, 'e) Application \<Rightarrow> ('c, 'w, 'e) Application" where
  "ap_prewarm x a =
     (let c = pl_pred (ap_pipe a)
      in a\<lparr>ap_pipe := (ap_pipe a)\<lparr>pl_pred := c\<lparr>ip_state := fold (\<lambda>m. pe_observe (os_engine x) m None) (ap_multipliers 64 a) (ip_state c)\<rparr>\<rparr>\<rparr>)"

text \<open>One turn of \<open>run\<close>, without the wait at its end; \<open>stuckMaxAgeMs\<close> is a value of the configuration.\<close>

definition ap_turn :: "('c, 'w, 'e) Outside \<Rightarrow> int \<Rightarrow> ('c, 'w, 'e) Application \<Rightarrow> ('c, 'w, 'e) Application" where
  "ap_turn x stuckMaxAgeMs a =
     (let a = drainQueues x [0] a;
          pl = ap_pipe a;
          v = pl_validator pl;
          pl = pl\<lparr>pl_validator := snd (lv_expireStale (os_ms x [1]) 300000 (en_rounds (os_env x) (lv_registry v)) v)\<rparr>;
          ts = snd (tc_expireOlderThan (os_ms x [2]) stuckMaxAgeMs (os_targets x (ap_targets a)) (ap_targets a));
          pl = pl\<lparr>pl_outbox := snd (lf_recoverExpiredLeases (os_ms x [3]) (en_leases (os_env x) (snd (pl_outbox pl))) (pl_outbox pl))\<rparr>;
          a = a\<lparr>ap_pipe := pl, ap_targets := ts\<rparr>
      in case ap_retention a of
           None \<Rightarrow> a
         | Some m \<Rightarrow>
             (case pruneDatabase (os_pq x) (os_ms x [4]) m (ap_db a) (ap_world a) of
                (_, m, db, w) \<Rightarrow> a\<lparr>ap_retention := Some m, ap_db := db, ap_world := w\<rparr>))"

section \<open>What the handlers leave alone\<close>

text \<open>The handlers reach the back of the pipeline only, never its router; those of predictions leave the client alone as well.\<close>

definition ap_router :: "('c, 'w, 'e) Application \<Rightarrow> EventRouter" where
  "ap_router a = pl_router (ap_pipe a)"

text \<open>Whether the pipeline loop has handlers of its own, which the application turns off.\<close>

definition ap_owns :: "('c, 'w, 'e) Application \<Rightarrow> bool" where
  "ap_owns a = pl_ownsHandlers (ap_pipe a)"

definition ap_front :: "('c, 'w, 'e) Application \<Rightarrow> EventRouter \<times> bool" where
  "ap_front a = (ap_router a, ap_owns a)"

definition ap_client :: "('c, 'w, 'e) Application \<Rightarrow> 'e InProcessPredictionClient" where
  "ap_client a = pl_pred (ap_pipe a)"

lemma ap_inc_frame [frame_simps]:
  "ap_pipe (ap_inc c a) = ap_pipe a" "ap_handoff (ap_inc c a) = ap_handoff a" "ap_targets (ap_inc c a) = ap_targets a"
  "ap_db (ap_inc c a) = ap_db a" "ap_world (ap_inc c a) = ap_world a" "ap_feedback (ap_inc c a) = ap_feedback a"
  "ap_n1 (ap_inc c a) = ap_n1 a" "ap_hand (ap_inc c a) = ap_hand a" "ap_durable_tx (ap_inc c a) = ap_durable_tx a"
  "ap_forensics (ap_inc c a) = ap_forensics a" "ap_attempts (ap_inc c a) = ap_attempts a"
  "ap_metrics (ap_inc c a) = mx_inc c 1 (ap_metrics a)"
  by (simp_all add: ap_inc_def ap_hand_def)

lemma ap_set_hand_frame [frame_simps]:
  "ap_router (ap_set_hand h a) = ap_router a" "ap_client (ap_set_hand h a) = ap_client a" "ap_validator (ap_set_hand h a) = ap_validator a"
  "ap_targets (ap_set_hand h a) = ap_targets a" "ap_feedback (ap_set_hand h a) = ap_feedback a" "ap_n1 (ap_set_hand h a) = ap_n1 a"
  "ap_hand (ap_set_hand h a) = h" "ap_metrics (ap_set_hand h a) = ap_metrics a" "ap_db (ap_set_hand h a) = ap_db a"
  "ap_world (ap_set_hand h a) = ap_world a" "ap_front (ap_set_hand h a) = ap_front a"
  by (simp_all add: ap_set_hand_def ap_router_def ap_client_def ap_hand_def ap_front_def ap_owns_def)

lemma ap_set_tx_frame [frame_simps]:
  "ap_router (ap_set_tx t w a) = ap_router a" "ap_client (ap_set_tx t w a) = ap_client a" "ap_validator (ap_set_tx t w a) = ap_validator a"
  "ap_targets (ap_set_tx t w a) = ap_targets a" "ap_feedback (ap_set_tx t w a) = ap_feedback a" "ap_n1 (ap_set_tx t w a) = ap_n1 a"
  "ap_metrics (ap_set_tx t w a) = ap_metrics a" "ap_front (ap_set_tx t w a) = ap_front a"
  by (simp_all add: ap_set_tx_def ap_set_hand_def ap_router_def ap_client_def ap_front_def ap_owns_def split: option.splits)

lemma ap_note_frame [frame_simps]:
  "ap_pipe (ap_note x now i st oid a) = ap_pipe a" "ap_targets (ap_note x now i st oid a) = ap_targets a"
  "ap_feedback (ap_note x now i st oid a) = ap_feedback a" "ap_n1 (ap_note x now i st oid a) = ap_n1 a"
  "ap_metrics (ap_note x now i st oid a) = ap_metrics a"
  by (simp_all add: ap_note_def)

lemma ap_view_cong [frame_simps]:
  "ap_router (ap_inc c a) = ap_router a" "ap_client (ap_inc c a) = ap_client a"
  "ap_router (ap_note x now i st oid a) = ap_router a" "ap_client (ap_note x now i st oid a) = ap_client a"
  "ap_router (ap_set_validator v a) = ap_router a" "ap_client (ap_set_validator v a) = ap_client a"
  "ap_router (a\<lparr>ap_targets := ts\<rparr>) = ap_router a" "ap_client (a\<lparr>ap_targets := ts\<rparr>) = ap_client a"
  "ap_router (a\<lparr>ap_attempts := att\<rparr>) = ap_router a" "ap_client (a\<lparr>ap_attempts := att\<rparr>) = ap_client a"
  "ap_front (ap_inc c a) = ap_front a" "ap_front (ap_note x now i st oid a) = ap_front a" "ap_front (ap_set_validator v a) = ap_front a"
  "ap_front (a\<lparr>ap_targets := ts\<rparr>) = ap_front a" "ap_front (a\<lparr>ap_attempts := att\<rparr>) = ap_front a"
  by (simp_all add: ap_router_def ap_client_def ap_set_validator_def ap_front_def ap_owns_def frame_simps)

lemma ap_set_validator_frame [frame_simps]:
  "ap_validator (ap_set_validator v a) = v" "ap_targets (ap_set_validator v a) = ap_targets a" "ap_feedback (ap_set_validator v a) = ap_feedback a"
  "ap_n1 (ap_set_validator v a) = ap_n1 a" "ap_metrics (ap_set_validator v a) = ap_metrics a"
  by (simp_all add: ap_set_validator_def)

text \<open>What publishing a prediction leaves alone, and its counter.\<close>

definition ap_back :: "('c, 'w, 'e) Application \<Rightarrow> (EventRouter \<times> bool) \<times> 'e InProcessPredictionClient \<times> LiveValidator \<times> TargetCoordinator \<times>
    ExactlyOnceFeedback \<times> N1Coordinator" where
  "ap_back a = (ap_front a, ap_client a, ap_validator a, ap_targets a, ap_feedback a, ap_n1 a)"

lemma publish_memory_frame:
  assumes "ap_publish_memory x p pev sig a = (published, a')"
  shows "ap_back a' = ap_back a \<and> ap_metrics a' = (if published then mx_inc Mc_OutboxPublished 1 (ap_metrics a) else ap_metrics a)"
  using assms
  by (auto simp: ap_publish_memory_def ap_back_def Let_def frame_simps split: prod.splits if_splits)

lemma publish_frame:
  assumes "ap_publish x p pev sig a = (published, a')"
  shows "ap_back a' = ap_back a \<and> ap_metrics a' = (if published then mx_inc Mc_OutboxPublished 1 (ap_metrics a) else ap_metrics a)"
proof (cases "ap_durable_tx a")
  case None
  then show ?thesis using assms by (intro publish_memory_frame [of x "0 # p" pev sig a]) (simp add: ap_publish_def)
next
  case (Some n)
  obtain dr t w where q: "persistPrediction (os_pq x) (\<lambda>j. os_ms x (j # 1 # p)) pev sig (ap_tx n a) (ap_world a) = (dr, t, w)"
    by (metis prod_cases3)
  have tx: "ap_back (ap_set_tx t w a) = ap_back a" "ap_metrics (ap_set_tx t w a) = ap_metrics a" by (simp_all add: ap_back_def frame_simps)
  show ?thesis
  proof (cases "du_ok dr")
    case True
    then show ?thesis using assms Some q tx by (auto simp: ap_publish_def ap_back_def Let_def frame_simps)
  next
    case False
    then have "ap_publish_memory x (3 # p) pev sig (ap_set_tx t w a) = (published, a')" using assms Some q by (simp add: ap_publish_def Let_def)
    then show ?thesis using publish_memory_frame tx by metis
  qed
qed

section \<open>One prediction per answer\<close>

lemma register_again:
  assumes "lv_registerPrediction ks pev v = (r, v1)" and "pr_size ks (pr_add pev (lv_registry v)) \<le> pr_max (lv_registry v)"
    and "pe_predictionId pev' = pe_predictionId pev" and "pe_targetRoundId pev' = pe_targetRoundId pev"
    and "lv_registerPrediction ks' pev' v1 = (r', v2)"
  shows "\<not> Result_ok r' \<and> pr_by_round (lv_registry v2) = pr_by_round (lv_registry v1) \<and> pr_by_id (lv_registry v2) = pr_by_id (lv_registry v1)"
proof -
  let ?reg = "lv_registry v"
  have max: "pr_max (pr_add pev ?reg) = pr_max ?reg" by (simp add: pr_add_def)
  have prune: "pr_pruneIfNeeded ks (pr_add pev ?reg) = pr_add pev ?reg" using assms(2) by (simp add: pr_pruneIfNeeded_def Let_def max)
  have dup: "pr_is_dup pev' (lv_registry v1)" if "pe_targetRoundId pev \<noteq> []"
  proof (cases "pr_is_dup pev ?reg")
    case True
    then show ?thesis using assms(1,3,4) that by (auto simp: lv_registerPrediction_def pr_register_def pr_is_dup_def pr_list_def)
  next
    case False
    then have "lv_registry v1 = pr_add pev ?reg" using assms(1) that prune by (auto simp: lv_registerPrediction_def pr_register_def)
    then show ?thesis by (simp add: pr_is_dup_def pr_list_add assms(3,4))
  qed
  then show ?thesis using assms(4,5)
    by (cases "pe_targetRoundId pev = []") (auto simp: lv_registerPrediction_def pr_register_def)
qed

lemma predictNext_handled:
  assumes "ip_predictNextAfterEnd E now t0 t1 ev c = (r, handled, c')" and "ip_has_handler c"
  obtains resp where "r = Inr resp" "handled = [resp]" "ip_edge c' = ip_edge c"
proof -
  have "ip_has_handler (ip_observeEnd E now ev c)" using assms(2) by (simp add: ip_observeEnd_def Let_def)
  then have "\<exists>resp. r = Inr resp \<and> handled = [resp] \<and> ip_edge c' = ip_edge c" using assms(1)
    by (auto simp: ip_predictNextAfterEnd_def ip_submit_def ip_pollResponse_def Let_def case_prod_beta split: sum.splits prod.splits)
  then show thesis using that by blast
qed

text \<open>The event the handler makes of an answer, its registration, and the target it claims.\<close>

definition ap_event :: "('c, 'w, 'e) Outside \<Rightarrow> nat list \<Rightarrow> PredictionResponse \<Rightarrow> PredictionEvent" where
  "ap_event x p resp = fromResponse (os_ms x (1 # p)) (os_ns x (1 # p)) resp (rs_targetRoundId resp) (Fin 0)"

definition ap_register :: "('c, 'w, 'e) Outside \<Rightarrow> nat list \<Rightarrow> PredictionResponse \<Rightarrow> ('c, 'w, 'e) Application \<Rightarrow> unit Result \<times> LiveValidator" where
  "ap_register x p resp a =
     lv_registerPrediction (en_rounds (os_env x) (lv_registry (ap_validator a))) (ap_event x p resp) (ap_validator a)"

definition ap_claim :: "('c, 'w, 'e) Outside \<Rightarrow> nat list \<Rightarrow> PredictionResponse \<Rightarrow> TargetCoordinator \<Rightarrow> TargetCoordinator" where
  "ap_claim x p resp ts =
     tc_markPredicted (rs_targetRoundId resp) (snd (tc_claim (os_ms x (2 # p)) (rs_targetRoundId resp) (rs_predictionId resp) ts))"

lemma ap_event_simps [simp]: "pe_predictionId (ap_event x p resp) = rs_predictionId resp" "pe_targetRoundId (ap_event x p resp) = rs_targetRoundId resp"
  by (simp_all add: ap_event_def fromResponse_def)

text \<open>The handler refuses, or registers, claims and publishes.\<close>

lemma respond_skip: "\<not> isActionable resp \<Longrightarrow> ap_back (ap_respond x p resp a) = ap_back a"
  by (simp add: ap_respond_def Let_def ap_back_def frame_simps)

lemma respond_refused:
  "isActionable resp \<Longrightarrow> ap_register x p resp a = (Inl e, v) \<Longrightarrow>
   ap_back (ap_respond x p resp a) = (ap_front a, ap_client a, v, ap_targets a, ap_feedback a, ap_n1 a)"
  by (simp add: ap_respond_def Let_def ap_back_def frame_simps ap_register_def ap_event_def)

lemma respond_registered:
  assumes "isActionable resp" and "ap_register x p resp a = (Inr (), v)"
  obtains published a3 where
    "ap_back a3 = (ap_front a, ap_client a, v, ap_claim x p resp (ap_targets a), ap_feedback a, ap_n1 a)"
    "ap_metrics a3 Mc_OutboxPublished = ap_metrics a Mc_OutboxPublished + (if published then 1 else 0)"
    "ap_respond x p resp a = (if published then a3 else a3\<lparr>ap_targets := snd (tc_release (rs_targetRoundId resp) (ap_targets a3))\<rparr>)"
proof -
  define a2 where "a2 = (ap_set_validator v (ap_inc Mc_PredictionsActionable ((ap_inc Mc_PredictionsSubmitted a)
    \<lparr>ap_attempts := snd (snd (pa_complete (os_ms x (0 # p)) (en_attempts (os_env x) (ap_attempts a)) resp (ap_attempts a)))\<rparr>)))
    \<lparr>ap_targets := ap_claim x p resp (ap_targets a)\<rparr>"
  let ?pev = "ap_event x p resp"
  obtain pub a3 where pub: "ap_publish x (3 # p) ?pev (signalFromPrediction (os_ms x (4 # p)) ?pev) a2 = (pub, a3)"
    by (cases "ap_publish x (3 # p) ?pev (signalFromPrediction (os_ms x (4 # p)) ?pev) a2")
  have rest: "ap_back a2 = (ap_front a, ap_client a, v, ap_claim x p resp (ap_targets a), ap_feedback a, ap_n1 a)"
    by (simp add: ap_back_def a2_def frame_simps)
  have met: "ap_metrics a2 Mc_OutboxPublished = ap_metrics a Mc_OutboxPublished" by (simp add: a2_def frame_simps mx_inc_def)
  have "ap_respond x p resp a = (if pub then a3 else a3\<lparr>ap_targets := snd (tc_release (rs_targetRoundId resp) (ap_targets a3))\<rparr>)"
    using assms pub ap_event_simps(1) [of x p resp]
    by (simp add: ap_respond_def Let_def frame_simps a2_def ap_register_def ap_event_def ap_claim_def)
  then show thesis using that [of a3 pub] publish_frame [OF pub] rest met by (simp add: mx_inc_def)
qed

lemma respond_validator: "isActionable resp \<Longrightarrow> ap_validator (ap_respond x p resp a) = snd (ap_register x p resp a)"
proof (cases "ap_register x p resp a")
  case (Pair r v)
  assume act: "isActionable resp"
  show ?thesis
  proof (cases r)
    case (Inl e)
    then show ?thesis using respond_refused [OF act, of x p a e v] Pair by (simp add: ap_back_def)
  next
    case (Inr u)
    then have "ap_register x p resp a = (Inr (), v)" using Pair by simp
    then obtain published a3 where
      b: "ap_back a3 = (ap_front a, ap_client a, v, ap_claim x p resp (ap_targets a), ap_feedback a, ap_n1 a)"
      and e: "ap_respond x p resp a = (if published then a3 else a3\<lparr>ap_targets := snd (tc_release (rs_targetRoundId resp) (ap_targets a3))\<rparr>)"
      using respond_registered [OF act] by blast
    show ?thesis using b Pair by (cases published) (simp_all add: e ap_back_def)
  qed
qed

lemma respond_keeps:
  "ap_front (ap_respond x p resp a) = ap_front a \<and> ap_client (ap_respond x p resp a) = ap_client a \<and>
   ap_feedback (ap_respond x p resp a) = ap_feedback a \<and> ap_n1 (ap_respond x p resp a) = ap_n1 a"
proof (cases "isActionable resp")
  case False
  then show ?thesis using respond_skip [of resp x p a] by (simp add: ap_back_def)
next
  case act: True
  obtain r v where one: "ap_register x p resp a = (r, v)" by (cases "ap_register x p resp a")
  show ?thesis
  proof (cases r)
    case (Inl e)
    then show ?thesis using respond_refused [OF act, of x p a e v] one by (simp add: ap_back_def)
  next
    case (Inr u)
    then have "ap_register x p resp a = (Inr (), v)" using one by simp
    then obtain published a3 where
      b: "ap_back a3 = (ap_front a, ap_client a, v, ap_claim x p resp (ap_targets a), ap_feedback a, ap_n1 a)"
      and e: "ap_respond x p resp a = (if published then a3 else a3\<lparr>ap_targets := snd (tc_release (rs_targetRoundId resp) (ap_targets a3))\<rparr>)"
      using respond_registered [OF act] by blast
    show ?thesis using b by (cases published) (simp_all add: e ap_back_def frame_simps)
  qed
qed

text \<open>The registry has room for one more prediction, so that registering one drops no other. A walk of a hash map meets each key once.\<close>

definition ap_room :: "('c, 'w, 'e) Outside \<Rightarrow> ('c, 'w, 'e) Application \<Rightarrow> bool" where
  "ap_room x a \<longleftrightarrow> (let reg = lv_registry (ap_validator a); ks = en_rounds (os_env x) reg in distinct ks \<and> pr_size ks reg < pr_max reg)"

lemma pr_size_add_le: "distinct ks \<Longrightarrow> pr_size ks (pr_add pev reg) \<le> Suc (pr_size ks reg)"
proof (cases "pe_targetRoundId pev \<in> set ks")
  case False
  then have "map (\<lambda>k. length (pr_list (pr_add pev reg) k)) ks = map (\<lambda>k. length (pr_list reg k)) ks" by (auto simp: pr_list_add)
  then show ?thesis by (simp only: pr_size_def)
qed (simp add: pr_size_add)

text \<open>After the handler the coordinator cannot register the same prediction once more.\<close>

lemma respond_no_second:
  assumes "isActionable resp" and "ap_room x a" and "pe_predictionId pev' = rs_predictionId resp" and "pe_targetRoundId pev' = rs_targetRoundId resp"
    and "lv_registerPrediction ks' pev' (ap_validator (ap_respond x p resp a)) = (r', v2)"
  shows "\<not> Result_ok r' \<and> pr_by_round (lv_registry v2) = pr_by_round (lv_registry (ap_validator (ap_respond x p resp a))) \<and>
    pr_by_id (lv_registry v2) = pr_by_id (lv_registry (ap_validator (ap_respond x p resp a)))"
proof -
  obtain r v where one: "ap_register x p resp a = (r, v)" by (cases "ap_register x p resp a")
  have v: "ap_validator (ap_respond x p resp a) = v" using respond_validator [OF assms(1), of x p a] one by simp
  have room: "pr_size (en_rounds (os_env x) (lv_registry (ap_validator a))) (pr_add (ap_event x p resp) (lv_registry (ap_validator a)))
     \<le> pr_max (lv_registry (ap_validator a))" using assms(2) pr_size_add_le [of "en_rounds (os_env x) (lv_registry (ap_validator a))" "ap_event x p resp" "lv_registry (ap_validator a)"]
    by (simp add: ap_room_def Let_def)
  show ?thesis unfolding v
    by (rule register_again [OF one [unfolded ap_register_def] room]) (use assms(3,4) assms(5) [unfolded v] in simp_all)
qed


section \<open>Claims follow publications\<close>

definition tc_free :: "string \<Rightarrow> TargetCoordinator \<Rightarrow> bool" where
  "tc_free i ts \<longleftrightarrow> (case tc_targets ts i of None \<Rightarrow> True | Some t \<Rightarrow> tr_state t = Tg_Available)"

lemma claim_free:
  assumes "tc_free (rs_targetRoundId resp) ts"
  obtains t where "tc_targets (ap_claim x p resp ts) (rs_targetRoundId resp) = Some t" "tr_state t = Tg_Predicted" "tr_predictionId t = rs_predictionId resp"
  using assms that by (auto simp: tc_free_def ap_claim_def tc_claim_def tc_markPredicted_def split: option.splits)


section \<open>The invariant of the application\<close>

text \<open>The router is in a good state, the prediction client and the feedback see the same adaptive edge, and the pipeline loop has no
  handlers of its own.\<close>

definition ap_inv :: "('c, 'w, 'e) Application \<Rightarrow> bool" where
  "ap_inv a \<longleftrightarrow> er_inv (ap_router a) \<and> ip_edge (ap_client a) = eo_edge (ap_feedback a) \<and> \<not> ap_owns a"

text \<open>What a handler does to the router and the two ends of the edge.\<close>

definition ap_keeps :: "('c, 'w, 'e) Application \<Rightarrow> ('c, 'w, 'e) Application \<Rightarrow> bool" where
  "ap_keeps a a' \<longleftrightarrow> ap_front a' = ap_front a \<and>
     (ip_edge (ap_client a) = eo_edge (ap_feedback a) \<longrightarrow> ip_edge (ap_client a') = eo_edge (ap_feedback a'))"

lemma keeps_refl [simp]: "ap_keeps a a"
  by (simp add: ap_keeps_def)

lemma keeps_trans: "ap_keeps a b \<Longrightarrow> ap_keeps b c \<Longrightarrow> ap_keeps a c"
  by (simp add: ap_keeps_def)

lemma keeps_respond: "ap_keeps a (ap_respond x p resp a)"
  using respond_keeps [of x p resp a] by (simp add: ap_keeps_def)

lemma keeps_respond_all: "ap_keeps a (ap_respond_all x p i rs a)"
  by (induction rs arbitrary: a i) (simp, simp, rule keeps_trans [OF keeps_respond])

lemma keeps_publish_outcome: "ap_keeps a (ap_publish_outcome x p oc sig a)"
  by (auto simp: ap_publish_outcome_def ap_keeps_def Let_def frame_simps split: option.splits prod.splits)

lemma keeps_apply: "ap_apply x now oc a = (applied, a') \<Longrightarrow> ap_keeps a a'"
  by (auto simp: ap_apply_def ap_keeps_def Let_def ap_router_def ap_client_def ap_front_def ap_owns_def split: prod.splits)

lemma keeps_outcome: "ap_keeps a (ap_outcome x p oc a)"
proof -
  define b where "b = (let a = a\<lparr>ap_cooldown := lc_noteOutcome (os_ms x (0 # p)) oc (ap_cooldown a),
                ap_violations := snd (checkOutcome oc (ap_violations a))\<rparr>;
          a = (if oc_isWin oc then ap_inc Mc_OutcomesWin a
               else if oc_result oc = Out_Loss then ap_inc Mc_OutcomesLoss a else a)
      in a\<lparr>ap_targets := tc_markResolved (os_ms x (1 # p)) (oc_roundId oc) (ap_targets a)\<rparr>)"
  obtain applied c where c: "ap_apply x (os_ms x (2 # p)) oc b = (applied, c)" by (metis prod.exhaust)
  let ?d = "if applied then ap_note x (os_ms x (3 # p)) (oc_predictionId oc) Ds_Delivered [] c else c"
  have e: "ap_outcome x p oc a = ap_publish_outcome x (4 # p) oc (signalFromOutcome (os_ms x (5 # p)) oc) ?d"
    using c by (simp add: ap_outcome_def b_def Let_def)
  have "ap_keeps a b" by (simp add: b_def ap_keeps_def Let_def ap_router_def ap_client_def ap_front_def ap_owns_def frame_simps)
  moreover have "ap_keeps c ?d" by (simp add: ap_keeps_def frame_simps)
  ultimately have "ap_keeps a ?d" using keeps_trans keeps_apply [OF c] by blast
  then show ?thesis unfolding e by (rule keeps_trans [OF _ keeps_publish_outcome])
qed

lemma keeps_outcome_all: "ap_keeps a (ap_outcome_all x p i ocs a)"
  by (induction ocs arbitrary: a i) (simp, simp, rule keeps_trans [OF keeps_outcome])

lemma keeps_validate: "ap_keeps a (ap_validate x p ev a)"
proof -
  have "ap_keeps a (ap_set_validator v a)" for v by (simp add: ap_keeps_def frame_simps)
  then show ?thesis using keeps_outcome_all keeps_trans by (auto simp: ap_validate_def Let_def split: prod.splits) blast
qed

lemma observe_edge [simp]: "ip_edge (ip_observeEnd E now ev c) = ip_edge c"
  by (simp add: ip_observeEnd_def Let_def)

lemma submit_edge: "ip_edge (snd (snd (ip_submit E now t0 t1 req c))) = ip_edge c"
  by (cases "pe_predict E (rq_targetRoundId req) (op_defaultTarget (ip_opt c)) (ip_warm E c)")
    (simp add: ip_submit_def Let_def split: sum.split)

lemma poll_edge: "ip_edge (snd (ip_pollResponse i c)) = ip_edge c"
  by (simp add: ip_pollResponse_def split: option.split)

lemma predictNext_edge:
  assumes "ip_predictNextAfterEnd E now t0 t1 ev c = (r, handled, c')"
  shows "ip_edge c' = ip_edge c"
proof -
  obtain r1 h c1 where s: "ip_submit E now t0 t1 (n1_request now t0 ev) (ip_observeEnd E now ev c) = (r1, h, c1)" by (metis prod_cases3)
  obtain q c2 where q: "ip_pollResponse (rq_correlationId (n1_request now t0 ev)) c1 = (q, c2)" by (metis prod.exhaust)
  have "ip_edge c1 = ip_edge c" "ip_edge c2 = ip_edge c1"
    using submit_edge [of E now t0 t1 "n1_request now t0 ev" "ip_observeEnd E now ev c"]
      poll_edge [of "rq_correlationId (n1_request now t0 ev)" c1] by (simp_all add: s q)
  moreover have "c' = c1 \<or> c' = c2"
    using assms by (simp add: ip_predictNextAfterEnd_def s q Let_def split: sum.splits option.splits)
  ultimately show ?thesis by auto
qed

lemma conclude_client: "n1_conclude now t0 t1 ks ev r s = (res, s') \<Longrightarrow> ns_client s' = ns_client s"
  by (auto simp: n1_conclude_def n1_register_def Let_def split: sum.splits prod.splits if_splits)

lemma keeps_n1_set: "ns_client s = ap_client a \<Longrightarrow> ap_keeps a (ap_n1_set s a)"
  by (simp add: ap_n1_set_def ap_keeps_def ap_router_def ap_client_def ap_front_def ap_owns_def ap_set_hand_def Let_def split: option.splits)

lemma keeps_onRoundEnd: "ap_keeps a (snd (ap_onRoundEnd x p ev a))"
proof (cases "ev_kind ev \<noteq> Ev_End \<or> \<not> ev_valid ev")
  case False
  let ?now = "os_ms x (0 # p)" and ?t0 = "os_ns x (0 # p)" and ?t1 = "os_ns x (1 # p)"
  obtain r0 handled c where q: "ip_predictNextAfterEnd (os_engine x) ?now ?t0 ?t1 ev (ap_client a) = (r0, handled, c)" by (metis prod_cases3)
  define a0 where "a0 = a\<lparr>ap_pipe := (ap_pipe a)\<lparr>pl_pred := c\<rparr>\<rparr>"
  define a1 where "a1 = ap_respond_all x (1 # p) 0 handled a0"
  obtain res s where con: "n1_conclude ?now ?t0 ?t1 (en_rounds (os_env x) (lv_registry (ap_validator a1))) ev r0 (ap_n1_view a1) = (res, s)"
    by (metis prod.exhaust)
  have e: "snd (ap_onRoundEnd x p ev a) = ap_n1_set s a1"
    using False q con by (simp add: ap_onRoundEnd_def Let_def ap_client_def a0_def a1_def)
  have "ap_keeps a a0" using predictNext_edge [OF q] by (simp add: ap_keeps_def a0_def ap_router_def ap_client_def ap_front_def ap_owns_def)
  then have "ap_keeps a a1" unfolding a1_def by (rule keeps_trans [OF _ keeps_respond_all])
  moreover have "ns_client s = ap_client a1" using conclude_client [OF con] by (simp add: ap_n1_view_def ap_client_def)
  ultimately show ?thesis unfolding e by (blast intro: keeps_trans keeps_n1_set)
qed (auto simp: ap_onRoundEnd_def)

lemma seed_edge: "ip_edge (ns_client (n1_seedHistory E now cps s)) = ip_edge (ns_client s)"
proof -
  have "ip_edge (fold (\<lambda>cp c. if dless (Fin 0) cp \<and> is_finite cp
            then ip_observeEnd E now (CrashEvent_default\<lparr>ev_kind := Ev_End, ev_valid := True, ev_crashPoint := cp,
                   ev_gameId := ''seed'', ev_roundId := ''seed''\<rparr>) c else c) cps c) = ip_edge c" for c
    by (induction cps arbitrary: c) simp_all
  then show ?thesis by (simp add: n1_seedHistory_def)
qed

lemma keeps_start:
  "ap_keeps a (ap_poll x p fr a)" "ap_keeps a (ap_seed x p a)" "ap_keeps a (ap_prewarm x a)" "ap_keeps a (ap_onEvent x p ev a)"
proof -
  have "ap_keeps a (a\<lparr>ap_history := h\<rparr>)" for h by (simp add: ap_keeps_def ap_router_def ap_client_def ap_front_def ap_owns_def)
  then show "ap_keeps a (ap_poll x p fr a)" unfolding ap_poll_def Let_def by (rule keeps_trans [OF _ keeps_onRoundEnd])
  show "ap_keeps a (ap_seed x p a)"
    by (auto simp: seed_edge ap_seed_def Let_def ap_keeps_def ap_n1_set_def ap_n1_view_def ap_router_def ap_client_def ap_front_def ap_owns_def ap_set_hand_def split: option.splits)
  show "ap_keeps a (ap_prewarm x a)" by (simp add: ap_prewarm_def Let_def ap_keeps_def ap_router_def ap_client_def ap_front_def ap_owns_def)
  show "ap_keeps a (ap_onEvent x p ev a)"
    by (simp add: ap_onEvent_def Let_def ap_keeps_def ap_router_def ap_client_def ap_front_def ap_owns_def frame_simps split: prod.splits)
qed

section \<open>The loop empties the queues\<close>

lemma ap_drainValidations_ok:
  "ap_inv a \<Longrightarrow> length (sq_list (er_to_validation (ap_router a))) < k \<Longrightarrow>
   ap_inv (ap_drainValidations x p k a) \<and> val_router (ap_router a) (ap_router (ap_drainValidations x p k a))"
proof (induction k arbitrary: a)
  case (Suc k)
  have inv: "er_inv (pl_router (ap_pipe a))" using Suc.prems(1) by (simp add: ap_inv_def ap_router_def ap_front_def ap_owns_def)
  show ?case
  proof (cases rule: popValidation_cases [OF inv, case_names none some])
    case none
    then show ?thesis using Suc.prems inv by (simp add: val_router_def ap_router_def)
  next
    case (some ev q)
    let ?b = "a\<lparr>ap_pipe := (ap_pipe a)\<lparr>pl_router := (pl_router (ap_pipe a))\<lparr>er_to_validation := q\<rparr>\<rparr>,
                ap_history := rh_pushFromEvent (os_ms x (0 # k # p)) ev (ap_history a)\<rparr>"
    define c where "c = snd (ap_onRoundEnd x (2 # k # p) ev (ap_validate x (1 # k # p) ev ?b))"
    have step: "ap_drainValidations x p (Suc k) a = ap_drainValidations x p k c" using some(1) by (simp add: c_def Let_def)
    have k: "ap_keeps ?b c" unfolding c_def by (rule keeps_trans [OF keeps_validate keeps_onRoundEnd])
    have b: "ap_router ?b = (ap_router a)\<lparr>er_to_validation := q\<rparr>" "ap_inv ?b"
      using Suc.prems(1) some(3) by (simp_all add: ap_router_def ap_inv_def ap_client_def ap_owns_def)
    then have c: "ap_router c = (ap_router a)\<lparr>er_to_validation := q\<rparr>" "ap_inv c" using k by (auto simp: ap_keeps_def ap_inv_def ap_front_def)
    have "length (sq_list (er_to_validation (ap_router c))) < k" using Suc.prems(2) some(2) c(1) by (simp add: ap_router_def)
    from Suc.IH [OF c(2) this] show ?thesis unfolding step using c(1) by (simp add: val_router_def)
  qed
qed simp

lemma ap_drainPredictions_ok:
  "ap_inv a \<Longrightarrow> length (sq_list (er_to_prediction (ap_router a))) < k \<Longrightarrow>
   ap_inv (ap_drainPredictions k a) \<and> pred_router (ap_router a) (ap_router (ap_drainPredictions k a))"
proof (induction k arbitrary: a)
  case (Suc k)
  have inv: "er_inv (pl_router (ap_pipe a))" using Suc.prems(1) by (simp add: ap_inv_def ap_router_def ap_front_def ap_owns_def)
  show ?case
  proof (cases rule: popPrediction_cases [OF inv, case_names none some])
    case none
    then show ?thesis using Suc.prems inv by (simp add: pred_router_def ap_router_def)
  next
    case (some ev q)
    let ?b = "a\<lparr>ap_pipe := (ap_pipe a)\<lparr>pl_router := (pl_router (ap_pipe a))\<lparr>er_to_prediction := q\<rparr>\<rparr>\<rparr>"
    have step: "ap_drainPredictions (Suc k) a = ap_drainPredictions k ?b" using some(1) by simp
    have b: "ap_router ?b = (ap_router a)\<lparr>er_to_prediction := q\<rparr>" "ap_inv ?b"
      using Suc.prems(1) some(3) by (simp_all add: ap_router_def ap_inv_def ap_client_def ap_owns_def)
    have "length (sq_list (er_to_prediction (ap_router ?b))) < k" using Suc.prems(2) some(2) b(1) by (simp add: ap_router_def)
    from Suc.IH [OF b(2) this] show ?thesis unfolding step using b(1) by (simp add: pred_router_def)
  qed
qed simp

lemma expire_keeps: "ap_router (ap_expire x p a) = ap_router a" "ap_client (ap_expire x p a) = ap_client a" "ap_feedback (ap_expire x p a) = ap_feedback a" "ap_owns (ap_expire x p a) = ap_owns a"
  by (simp_all add: ap_expire_def Let_def ap_router_def ap_client_def ap_front_def ap_owns_def pl_expire_def split: prod.splits)

lemma app_drained:
  assumes "ap_inv a"
  shows "let a' = drainQueues x p a in
    ap_inv a' \<and> sq_list (er_to_validation (ap_router a')) = [] \<and> sq_list (er_to_prediction (ap_router a')) = [] \<and>
    er_drops_pred (ap_router a') = er_drops_pred (ap_router a) \<and> er_drops_val (ap_router a') = er_drops_val (ap_router a)"
proof -
  define b where "b = ap_drainValidations x (0 # p) (unat (sq_cap (er_to_validation (ap_router a)))) a"
  define c where "c = ap_drainPredictions (unat (sq_cap (er_to_prediction (ap_router b)))) b"
  have e: "drainQueues x p a = ap_expire x (1 # p) c" by (simp add: drainQueues_def Let_def b_def c_def ap_router_def)
  have "sq_inv (er_to_validation (ap_router a))" using assms by (simp add: ap_inv_def er_inv_def)
  from ap_drainValidations_ok [OF assms sq_fuel [OF this], of x "0 # p"]
  have B: "ap_inv b" "val_router (ap_router a) (ap_router b)" by (simp_all add: b_def)
  then have "sq_inv (er_to_prediction (ap_router b))" by (simp add: ap_inv_def er_inv_def)
  from ap_drainPredictions_ok [OF B(1) sq_fuel [OF this]]
  have C: "ap_inv c" "pred_router (ap_router b) (ap_router c)" by (simp_all add: c_def)
  show ?thesis using B C unfolding e by (simp add: Let_def ap_inv_def expire_keeps val_router_def pred_router_def)
qed

text \<open>C7: One call of \<open>drainQueues\<close> empties the prediction and the validation queue, whatever the engine, the database and the
  clocks answer to the handlers on the way; it drops nothing, keeps the router well formed, and the client and the feedback go on sharing one
  adaptive edge.\<close>

theorem app_drain_complete:
  assumes "ap_inv a"
  shows "let a' = drainQueues x p a in
    ap_inv a' \<and> sq_list (er_to_validation (ap_router a')) = [] \<and> sq_list (er_to_prediction (ap_router a')) = [] \<and>
    er_drops_pred (ap_router a') = er_drops_pred (ap_router a) \<and> er_drops_val (ap_router a') = er_drops_val (ap_router a)"
  using assms by (rule app_drained)

section \<open>Every run of the application\<close>

lemma routed_pred: "pl_pred (pl_routed e ev st) = pl_pred st"
  by (simp add: pl_routed_def pl_inc_def Let_def case_prod_beta)

lemma fresh_unowned:
  assumes "\<not> pl_ownsHandlers st"
  shows "pl_router (onFresh e submit ev st) = snd (er_route (en_ns e [3]) (en_ns e [4]) ev (pl_router st))"
    "pl_pred (onFresh e submit ev st) = pl_pred st" "\<not> pl_ownsHandlers (onFresh e submit ev st)"
  using assms by (simp_all add: onFresh_eq drain_def pl_expire_def Let_def routed_fields routed_pred)

lemma observed_parts:
  "pl_router (pl_observed e data ev st) = pl_router st" "pl_pred (pl_observed e data ev st) = pl_pred st"
  "pl_ownsHandlers (pl_observed e data ev st) = pl_ownsHandlers st"
  using observed_fields(1) [of e data ev st] by (simp_all add: pl_core_def)

lemma inc_parts: "pl_router (pl_inc c st) = pl_router st" "pl_pred (pl_inc c st) = pl_pred st" "pl_ownsHandlers (pl_inc c st) = pl_ownsHandlers st"
  by (simp_all add: pl_inc_def)

lemma frame_unowned:
  assumes "\<not> pl_ownsHandlers st" "er_inv (pl_router st)"
  shows "er_inv (pl_router (snd (onFrame e submit data st)))" "pl_pred (snd (onFrame e submit data st)) = pl_pred st"
    "\<not> pl_ownsHandlers (snd (onFrame e submit data st))"
  using assms by (auto simp: onFrame_eq Let_def fresh_unowned observed_parts inc_parts er_inv_route split: sum.splits)

lemma frame_inv: "ap_inv a \<Longrightarrow> ap_inv (snd (onBinaryFrame x data a))"
  using frame_unowned [of "ap_pipe a"]
  by (simp add: onBinaryFrame_def ap_inv_def ap_router_def ap_client_def ap_owns_def case_prod_beta)

lemma keeps_inv: "ap_keeps a a' \<Longrightarrow> ap_inv a \<Longrightarrow> ap_inv a'"
  by (auto simp: ap_keeps_def ap_inv_def ap_front_def)

text \<open>What the threads of the application do to its state, one call at a time: a frame from the transport, the handler of an event, a round
  routed by the native socket, the poll worker or the recovery, the poll handler, the seeding at boot, and a turn of the loop. Every call
  may find another outside.\<close>

definition ap_route :: "NanoTime \<Rightarrow> NanoTime \<Rightarrow> CrashEvent \<Rightarrow> ('c, 'w, 'e) Application \<Rightarrow> ('c, 'w, 'e) Application" where
  "ap_route t0 t1 ev a = a\<lparr>ap_pipe := (ap_pipe a)\<lparr>pl_router := snd (er_route t0 t1 ev (pl_router (ap_pipe a)))\<rparr>\<rparr>"

inductive ap_step :: "('c, 'w, 'e) Application \<Rightarrow> ('c, 'w, 'e) Application \<Rightarrow> bool" where
  step_frame: "ap_step a (snd (onBinaryFrame x data a))"
| step_event: "ap_step a (ap_onEvent x p ev a)"
| step_route: "ap_step a (ap_route t0 t1 ev a)"
| step_poll: "ap_step a (ap_poll x p fr a)"
| step_seed: "ap_step a (ap_seed x p a)"
| step_prewarm: "ap_step a (ap_prewarm x a)"
| step_turn: "ap_step a (ap_turn x age a)"

lemma route_inv: "ap_inv a \<Longrightarrow> ap_inv (ap_route t0 t1 ev a)"
  by (simp add: ap_route_def ap_inv_def ap_router_def ap_client_def ap_owns_def er_inv_route)

lemma turn_keeps: "ap_keeps (drainQueues x [0] a) (ap_turn x age a)"
  by (simp add: ap_turn_def Let_def ap_keeps_def ap_front_def ap_router_def ap_client_def ap_owns_def split: option.splits prod.splits)


section \<open>A small application\<close>

definition demo_outside :: "(unit, server, nat) Outside" where
  "demo_outside =
     \<lparr>os_env = demo_env\<lparr>en_rounds := (\<lambda>_. [''7'', ''8''])\<rparr>, os_trace = (\<lambda>_. []), os_targets = (\<lambda>_. []), os_pq = demo_libpq, os_engine = demo_engine\<rparr>"

definition demo_app :: "EventRouter \<Rightarrow> (unit, server, nat) Application" where
  "demo_app r =
     \<lparr>ap_pipe = PipelineLoop_new \<lparr>de_tracker = None, de_decoded = 0, de_invalid = 0\<rparr> r
        ((InProcessPredictionClient_new demo_options 0 None)\<lparr>ip_has_handler := True\<rparr>) demo_validator (Outbox_new 16, OutboxLifecycle_new 30000) None False,
      ap_handoff = \<lparr>dh_pred_published = {}, dh_out_of_order = 0\<rparr>, ap_attempts = PredictionAttemptCoordinator_new None 50,
      ap_n1 = ns_coord demo_n1, ap_targets = TargetCoordinator_new, ap_history = RollingHistoryBuffer_new 256,
      ap_cooldown = LossCooldownTracker_new 3 1000, ap_violations = 0, ap_feedback = ExactlyOnceFeedback_new None,
      ap_forensics = \<lparr>fo_traces = Map.empty, fo_events = 0\<rparr>, ap_temporal = demo_guard, ap_db = Some (Pg demo_pg),
      ap_outbox_repo = Some OutboxRepository_new, ap_durable_tx = Some 0, ap_retention = None, ap_metrics = (\<lambda>_. 0), ap_world = demo_server []\<rparr>"

definition demo_answer :: PredictionResponse where
  "demo_answer = PredictionResponse_default\<lparr>rs_predictionId := ''q'', rs_targetRoundId := ''8'', rs_decision := Dec_Enter, rs_confidence := Fin 1, rs_valid := True\<rparr>"

definition demo_round :: FetchedRound where
  "demo_round = \<lparr>fr_gameId = ''7'', fr_multiplier = Fin 2, fr_hash = [], fr_salt = [], fr_beganAtMs = 0, fr_crashedAtMs = 1000\<rparr>"

lemma demo_app_fields:
  "ap_router (demo_app r) = r" "ap_validator (demo_app r) = demo_validator" "ip_edge (ap_client (demo_app r)) = None" "ip_has_handler (ap_client (demo_app r))"
  "eo_edge (ap_feedback (demo_app r)) = None" "\<not> ap_owns (demo_app r)" "ap_targets (demo_app r) = TargetCoordinator_new"
  by (simp_all add: demo_app_def ap_router_def ap_client_def ap_front_def ap_owns_def PipelineLoop_new_def InProcessPredictionClient_new_def ExactlyOnceFeedback_new_def)

lemma demo_app_inv: "EventRouter_new 8 None = Some r \<Longrightarrow> ap_inv (demo_app r)"
  using er_new_inv [of 8 None r] by (simp add: ap_inv_def demo_app_fields)

lemma demo_app_room: "ap_room demo_outside (demo_app r)"
  by (simp add: ap_room_def demo_app_fields Let_def demo_outside_def demo_validator_def pr_size_def pr_list_add)
    (simp add: pr_add_def PredictionRegistry_new_def pr_list_def)

theorem app_drain_complete_witness:
  "\<exists>r. EventRouter_new 8 None = Some r \<and>
    (let a' = drainQueues demo_outside [] (demo_app r) in
     ap_inv a' \<and> sq_list (er_to_validation (ap_router a')) = [] \<and> sq_list (er_to_prediction (ap_router a')) = [] \<and>
     er_drops_pred (ap_router a') = er_drops_pred r \<and> er_drops_val (ap_router a') = er_drops_val r)"
proof -
  obtain r where r: "EventRouter_new 8 None = Some r" using demo_router by blast
  show ?thesis using r app_drain_complete [OF demo_app_inv [OF r], of demo_outside "[]"] by (auto simp: Let_def demo_app_fields)
qed




end
