(* ===== verification/Signing.thy ===== *)
theory Signing
  imports Frames
begin

text \<open>
  Secrets and the signature of the socket query: \<open>security/secret_provider.hpp\<close>, \<open>ingestion/signing/hmac.hpp\<close>, \<open>crypto.hpp\<close>,
  \<open>signature.hpp\<close>, \<open>external_signer_client.hpp\<close> and \<open>native_sign.hpp\<close>.

  OpenSSL's HMAC, the environment of the process and the POSIX calls on the signer's socket are arguments. The random bytes of a
  nonce are the list of the generator's draws. Reading the clock gives an argument, one for the cache and one for the signer client.
\<close>

section \<open>Secrets\<close>

record EnvSecretProvider =
  es_overrides :: "string \<rightharpoonup> string"

text \<open>\<open>getenv\<close> is the argument; an empty variable counts as unset.\<close>

definition es_get :: "(string \<Rightarrow> string option) \<Rightarrow> string \<Rightarrow> EnvSecretProvider \<Rightarrow> string option" where
  "es_get getenv key p =
     (case es_overrides p key of
        Some v \<Rightarrow> Some v
      | None \<Rightarrow> (case getenv key of Some v \<Rightarrow> if v = [] then None else Some v | None \<Rightarrow> None))"

definition es_set :: "string \<Rightarrow> string \<Rightarrow> EnvSecretProvider \<Rightarrow> EnvSecretProvider" where
  "es_set key v p = p\<lparr>es_overrides := (es_overrides p)(key \<mapsto> v)\<rparr>"

record MapSecretProvider =
  ms_map :: "string \<rightharpoonup> string"

definition ms_get :: "string \<Rightarrow> MapSecretProvider \<Rightarrow> string option" where
  "ms_get key p = ms_map p key"

definition ms_set :: "string \<Rightarrow> string \<Rightarrow> MapSecretProvider \<Rightarrow> MapSecretProvider" where
  "ms_set key v p = p\<lparr>ms_map := (ms_map p)(key \<mapsto> v)\<rparr>"

text \<open>What the virtual interface promises.\<close>

locale secret_provider =
  fixes get :: "string \<Rightarrow> 'p \<Rightarrow> string option" and put :: "string \<Rightarrow> string \<Rightarrow> 'p \<Rightarrow> 'p"
  assumes get_put: "get k (put k v p) = Some v"
    and get_put_other: "k \<noteq> k' \<Longrightarrow> get k (put k' v p) = get k p"
begin

lemma last_put_wins: "get k (fold (\<lambda>(k, v). put k v) kvs p) = (case map_of (rev kvs) k of Some v \<Rightarrow> Some v | None \<Rightarrow> get k p)"
proof (induction kvs arbitrary: p)
  case (Cons kv kvs)
  obtain k' v where "kv = (k', v)" by (cases kv)
  then show ?case using Cons.IH [of "put k' v p"]
    by (cases "k = k'") (simp_all add: get_put get_put_other map_add_def split: option.splits)
qed simp

end

interpretation es: secret_provider "es_get env" es_set
  by unfold_locales (simp_all add: es_get_def es_set_def)

interpretation ms: secret_provider ms_get ms_set
  by unfold_locales (simp_all add: ms_get_def ms_set_def)

section \<open>Hexadecimal text\<close>

definition hex_digit :: "nat \<Rightarrow> char" where
  "hex_digit n = char_of (if n < 10 then 48 + n else 87 + n)"

definition hex_byte :: "u8 \<Rightarrow> string" where
  "hex_byte b = [hex_digit (unat b div 16), hex_digit (unat b mod 16)]"

definition toHex :: "bytes \<Rightarrow> string" where
  "toHex bs = concat (map hex_byte bs)"

definition hmacSha256Hex :: "(string \<Rightarrow> string \<Rightarrow> bytes) \<Rightarrow> string \<Rightarrow> string \<Rightarrow> string" where
  "hmacSha256Hex HMAC key data = toHex (HMAC key data)"

text \<open>\<open>rng() & 0xff\<close>, once per byte.\<close>

definition randomHex :: "u64 list \<Rightarrow> string" where
  "randomHex draws = toHex (map (\<lambda>r. ucast (r AND 0xff)) draws)"

definition constantTimeEqual :: "bytes \<Rightarrow> bytes \<Rightarrow> string" where
  "constantTimeEqual a b =
     (if length a \<noteq> length b then ''0''
      else if fold (\<lambda>(x, y) diff. diff OR (x XOR y)) (zip a b) 0 = (0 :: u8) then ''1'' else ''0'')"

lemma or_eq_0: "a OR b = 0 \<longleftrightarrow> a = 0 \<and> b = (0 :: 'a :: len word)"
  by (auto simp: bit_eq_iff bit_simps)

lemma xor_eq_0: "a XOR b = 0 \<longleftrightarrow> a = (b :: 'a :: len word)"
  by (auto simp: bit_eq_iff bit_simps)

lemma fold_diff: "fold (\<lambda>(x, y) diff. diff OR (x XOR y)) ps d = (0 :: u8) \<longleftrightarrow> d = 0 \<and> (\<forall>(x, y) \<in> set ps. x = y)"
  by (induction ps arbitrary: d) (auto simp: or_eq_0 xor_eq_0)

lemma hex_digit_inj: "a < 16 \<Longrightarrow> b < 16 \<Longrightarrow> hex_digit a = hex_digit b \<Longrightarrow> a = b"
  unfolding hex_digit_def by (auto simp: char_of_eq_iff take_bit_eq_mod split: if_splits)

lemma hex_byte_inj: "hex_byte a = hex_byte b \<Longrightarrow> a = b"
proof -
  assume eq: "hex_byte a = hex_byte b"
  have lt: "unat c div 16 < 16" "unat c mod 16 < 16" for c :: u8
    using unsigned_less [of c, where ?'a = nat] by (simp_all add: less_mult_imp_div_less)
  have "unat a div 16 = unat b div 16" "unat a mod 16 = unat b mod 16"
    using eq lt hex_digit_inj unfolding hex_byte_def by auto
  then have "unat a = unat b" by (metis div_mult_mod_eq)
  then show "a = b" by (simp add: word_unat_eq_iff)
qed

lemma toHex_inj: "toHex a = toHex b \<Longrightarrow> a = b"
proof (induction a arbitrary: b)
  case Nil
  then show ?case by (cases b) (simp_all add: toHex_def hex_byte_def)
next
  case (Cons x a)
  then obtain y b' where b: "b = y # b'" by (cases b) (simp_all add: toHex_def hex_byte_def)
  have "hex_byte x = hex_byte y \<and> toHex a = toHex b'" using Cons.prems by (simp add: b toHex_def hex_byte_def)
  then show ?case using Cons.IH hex_byte_inj by (simp add: b)
qed

section \<open>The signer process\<close>

record SocketSignature =
  sg_p :: string
  sg_t :: string
  sg_ua :: string
  sg_at_ms :: TimestampMs
  sg_valid :: bool

definition SocketSignature_none :: SocketSignature where
  "SocketSignature_none = \<lparr>sg_p = [], sg_t = [], sg_ua = [], sg_at_ms = 0, sg_valid = False\<rparr>"

text \<open>The calls on a Unix socket: what \<open>socket\<close>, \<open>connect\<close>, \<open>write\<close> and \<open>read\<close> return; a failed \<open>read\<close> gives no text.\<close>

record 'w Posix =
  px_socket :: "'w \<Rightarrow> int \<times> 'w"
  px_connect :: "int \<Rightarrow> string \<Rightarrow> 'w \<Rightarrow> bool \<times> 'w"
  px_write :: "int \<Rightarrow> string \<Rightarrow> 'w \<Rightarrow> int \<times> 'w"
  px_read :: "int \<Rightarrow> nat \<Rightarrow> 'w \<Rightarrow> string option \<times> 'w"
  px_close :: "int \<Rightarrow> 'w \<Rightarrow> 'w"

record ExternalSignerClient =
  xs_path :: string
  xs_fd :: int
  xs_connected :: bool
  xs_successes :: u64
  xs_failures :: u64

definition ExternalSignerClient_new :: "string \<Rightarrow> ExternalSignerClient" where
  "ExternalSignerClient_new path = \<lparr>xs_path = path, xs_fd = - 1, xs_connected = False, xs_successes = 0, xs_failures = 0\<rparr>"

text \<open>\<open>sun_path\<close> has room for 107 characters.\<close>

definition xs_connect :: "'w Posix \<Rightarrow> ExternalSignerClient \<Rightarrow> 'w \<Rightarrow> unit Result \<times> ExternalSignerClient \<times> 'w" where
  "xs_connect px c w =
     (if xs_fd c \<ge> 0 then (Inr (), c, w)
      else let (fd, w) = px_socket px w; c = c\<lparr>xs_fd := fd\<rparr>
      in if fd < 0 then (Inl (mkError EC_NetworkError ''socket() failed''), c, w)
      else let (ok, w) = px_connect px fd (take 107 (takeWhile (\<lambda>ch. ch \<noteq> CHR 0x00) (xs_path c))) w
      in if \<not> ok then
           (Inl (mkError EC_ConnectionFailed (''connect to signer UDS failed: '' @ xs_path c)), c\<lparr>xs_fd := - 1\<rparr>, px_close px fd w)
         else (Inr (), c\<lparr>xs_connected := True\<rparr>, w))"

definition xs_disconnect :: "'w Posix \<Rightarrow> ExternalSignerClient \<Rightarrow> 'w \<Rightarrow> ExternalSignerClient \<times> 'w" where
  "xs_disconnect px c w =
     (if xs_fd c \<ge> 0 then (c\<lparr>xs_fd := - 1, xs_connected := False\<rparr>, px_close px (xs_fd c) w)
      else (c\<lparr>xs_connected := False\<rparr>, w))"

definition quoted :: "string \<Rightarrow> string" where
  "quoted s = CHR 0x22 # s @ [CHR 0x22]"

definition xs_escape :: "string \<Rightarrow> string" where
  "xs_escape ua = concat (map (\<lambda>c. if c = CHR 0x22 \<or> c = CHR 0x5c then [CHR 0x5c, c] else [c]) ua)"

definition xs_request :: "string \<Rightarrow> TimestampMs \<Rightarrow> string" where
  "xs_request ua ts =
     ''{'' @ quoted ''op'' @ '':'' @ quoted ''sign'' @ '','' @ quoted ''ua'' @ '':'' @ quoted (xs_escape ua) @ '','' @ quoted ''ts'' @ '':'' @
     show_int ts @ ''}'' @ [CHR 0x0a]"

definition xs_extract :: "string \<Rightarrow> string \<Rightarrow> string" where
  "xs_extract resp key =
     (let needle = quoted key @ [CHR '':'', CHR 0x22]
      in case sv_find resp needle 0 of None \<Rightarrow> [] | Some pos \<Rightarrow>
         case sv_find resp [CHR 0x22] (pos + length needle) of None \<Rightarrow> [] | Some fin \<Rightarrow>
           take (fin - (pos + length needle)) (drop (pos + length needle) resp))"

definition xs_drop :: "'w Posix \<Rightarrow> ExternalSignerClient \<Rightarrow> 'w \<Rightarrow> ExternalSignerClient \<times> 'w" where
  "xs_drop px c w =
     (c\<lparr>xs_failures := xs_failures c + 1, xs_fd := - 1, xs_connected := False\<rparr>, if xs_fd c \<ge> 0 then px_close px (xs_fd c) w else w)"

text \<open>The answer of the signer once it is read.\<close>

definition xs_answer :: "string \<Rightarrow> TimestampMs \<Rightarrow> string \<Rightarrow> ExternalSignerClient \<Rightarrow> SocketSignature Result \<times> ExternalSignerClient" where
  "xs_answer ua ts resp c =
     (let bad = c\<lparr>xs_failures := xs_failures c + 1\<rparr>
      in if sv_find resp (quoted ''ok'' @ '':true'') 0 = None \<and> sv_find resp (quoted ''ok'' @ '': true'') 0 = None
         then (Inl (mkError EC_AuthFailed (''signer rejected: '' @ resp)), bad)
         else let p = xs_extract resp ''p''; t = xs_extract resp ''t''
              in if p = [] \<or> t = [] then (Inl (mkError EC_AuthFailed ''signer response missing p/t''), bad)
                 else (Inr \<lparr>sg_p = p, sg_t = t, sg_ua = ua, sg_at_ms = ts, sg_valid = True\<rparr>, c\<lparr>xs_successes := xs_successes c + 1\<rparr>))"

definition xs_sign :: "'w Posix \<Rightarrow> TimestampMs \<Rightarrow> string \<Rightarrow> ExternalSignerClient \<Rightarrow> 'w \<Rightarrow> SocketSignature Result \<times> ExternalSignerClient \<times> 'w" where
  "xs_sign px ts ua c w =
     (case (if xs_fd c < 0 then xs_connect px c w else (Inr (), c, w)) of
        (Inl e, c, w) \<Rightarrow> (Inl (mkError (err_code e) (err_message e)), c, w)
      | (Inr _, c, w) \<Rightarrow>
          let req = xs_request ua ts; (nw, w) = px_write px (xs_fd c) req w
          in if nw \<noteq> int (length req) then
               (case xs_drop px c w of (c, w) \<Rightarrow> (Inl (mkError EC_NetworkError ''signer write failed''), c, w))
             else (case px_read px (xs_fd c) 2047 w of
                     (got, w) \<Rightarrow>
                       (case got of
                          Some (ch # resp) \<Rightarrow> (case xs_answer ua ts (ch # resp) c of (r, c) \<Rightarrow> (r, c, w))
                        | _ \<Rightarrow> (case xs_drop px c w of (c, w) \<Rightarrow> (Inl (mkError EC_NetworkError ''signer read failed''), c, w)))))"

section \<open>The cached signature\<close>

definition DEFAULT_UA :: string where
  "DEFAULT_UA = ''Mozilla/5.0 (Windows NT 10.0; Win64; x64) AppleWebKit/537.36 '' @ ''(KHTML, like Gecko) Chrome/122.0.0.0 Safari/537.36''"

record 'w SignOutside =
  so_px :: "'w Posix"
  so_secret :: "string \<Rightarrow> string option"
  so_hmac :: "string \<Rightarrow> string \<Rightarrow> bytes"

record NativeSign =
  sn_external :: "ExternalSignerClient option"
  sn_cached :: SocketSignature
  sn_fresh_ms :: int
  sn_stale_ms :: int
  sn_cache_hits :: u64
  sn_refreshes :: u64
  sn_stale_serves :: u64
  sn_failures :: u64

definition NativeSign_new :: NativeSign where
  "NativeSign_new =
     \<lparr>sn_external = None, sn_cached = SocketSignature_none, sn_fresh_ms = 60000, sn_stale_ms = 600000, sn_cache_hits = 0, sn_refreshes = 0,
      sn_stale_serves = 0, sn_failures = 0\<rparr>"

definition sn_ua :: "'w SignOutside \<Rightarrow> string" where
  "sn_ua x = (case so_secret x ''BC_USER_AGENT'' of Some v \<Rightarrow> v | None \<Rightarrow> DEFAULT_UA)"

text \<open>The local signature: HMAC over time, user agent and nonce.\<close>

definition sn_local :: "'w SignOutside \<Rightarrow> TimestampMs \<Rightarrow> u64 list \<Rightarrow> SocketSignature" where
  "sn_local x now draws =
     (case so_secret x ''BC_SIGN_KEY'' of
        None \<Rightarrow> SocketSignature_none
      | Some key \<Rightarrow>
          if key = [] then SocketSignature_none
          else \<lparr>sg_p = hmacSha256Hex (so_hmac x) key (show_int now @ ''|'' @ sn_ua x @ ''|'' @ randomHex draws), sg_t = show_int now,
                sg_ua = sn_ua x, sg_at_ms = now, sg_valid = True\<rparr>)"

definition refreshUnlocked :: "'w SignOutside \<Rightarrow> TimestampMs \<Rightarrow> TimestampMs \<Rightarrow> u64 list \<Rightarrow> NativeSign \<Rightarrow> 'w \<Rightarrow>
    SocketSignature \<times> NativeSign \<times> 'w" where
  "refreshUnlocked x now ts draws s w =
     (case sn_external s of
        None \<Rightarrow> (sn_local x now draws, s, w)
      | Some ext \<Rightarrow>
          (case xs_sign (so_px x) ts (sn_ua x) ext w of
             (r, ext, w) \<Rightarrow>
               let s = s\<lparr>sn_external := Some ext\<rparr>
               in case r of
                    Inr sig \<Rightarrow> if sg_valid sig then (sig\<lparr>sg_at_ms := now\<rparr>, s, w) else (sn_local x now draws, s, w)
                  | Inl _ \<Rightarrow> (sn_local x now draws, s, w)))"

definition signSocketQuery :: "'w SignOutside \<Rightarrow> TimestampMs \<Rightarrow> TimestampMs \<Rightarrow> u64 list \<Rightarrow> NativeSign \<Rightarrow> 'w \<Rightarrow>
    SocketSignature \<times> NativeSign \<times> 'w" where
  "signSocketQuery x now ts draws s w =
     (let c = sn_cached s
      in if sg_valid c \<and> now - sg_at_ms c < sn_fresh_ms s then (c, s\<lparr>sn_cache_hits := sn_cache_hits s + 1\<rparr>, w)
      else (case refreshUnlocked x now ts draws s w of
              (fresh, s, w) \<Rightarrow>
                if sg_valid fresh then (fresh, s\<lparr>sn_cached := fresh, sn_refreshes := sn_refreshes s + 1\<rparr>, w)
                else if sg_valid c \<and> now - sg_at_ms c < sn_stale_ms s then (c, s\<lparr>sn_stale_serves := sn_stale_serves s + 1\<rparr>, w)
                else (SocketSignature_none, s\<lparr>sn_failures := sn_failures s + 1\<rparr>, w)))"

section \<open>What is signed\<close>

text \<open>Reading a quoted JSON string back: up to the first quote without a backslash.\<close>

fun read_quoted :: "string \<Rightarrow> (string \<times> string) option" where
  "read_quoted [] = None"
| "read_quoted (c # cs) =
     (if c = CHR 0x22 then Some ([], cs)
      else if c = CHR 0x5c then (case cs of [] \<Rightarrow> None | d # ds \<Rightarrow> map_option (\<lambda>(s, r). (d # s, r)) (read_quoted ds))
      else map_option (\<lambda>(s, r). (c # s, r)) (read_quoted cs))"

lemma read_escape: "read_quoted (xs_escape ua @ CHR 0x22 # rest) = Some (ua, rest)"
  by (induction ua) (auto simp: xs_escape_def)

text \<open>The time-safe comparison answers yes exactly for equal texts: it looks at every byte and one difference anywhere is
  kept to the end.\<close>

theorem constantTimeEqual_iff: "constantTimeEqual a b = ''1'' \<longleftrightarrow> a = b"
proof -
  have "a = b" if "length a = length b" "\<forall>(x, y) \<in> set (zip a b). x = y"
    using that by (induction a b rule: list_induct2) auto
  then show ?thesis by (auto simp: constantTimeEqual_def fold_diff zip_same)
qed

text \<open>Where a signature comes from: an answer of the signer process, or the configured key applied to time, user agent and a nonce.\<close>

definition genuine :: "'w SignOutside \<Rightarrow> SocketSignature \<Rightarrow> bool" where
  "genuine x sig \<longleftrightarrow>
     (\<exists>resp ts c c' s. xs_answer (sn_ua x) ts resp c = (Inr s, c') \<and> sig = s\<lparr>sg_at_ms := sg_at_ms sig\<rparr>) \<or>
     (\<exists>key draws. so_secret x ''BC_SIGN_KEY'' = Some key \<and> key \<noteq> [] \<and> sig = sn_local x (sg_at_ms sig) draws)"

definition sn_inv :: "'w SignOutside \<Rightarrow> TimestampMs \<Rightarrow> NativeSign \<Rightarrow> bool" where
  "sn_inv x now s \<longleftrightarrow> (sg_valid (sn_cached s) \<longrightarrow> genuine x (sn_cached s) \<and> sg_at_ms (sn_cached s) \<le> now)"

lemma local_genuine: "sg_valid (sn_local x now draws) \<Longrightarrow> genuine x (sn_local x now draws) \<and> sg_at_ms (sn_local x now draws) = now"
  by (auto simp: genuine_def sn_local_def SocketSignature_none_def split: option.splits if_splits)

lemma xs_sign_answer:
  assumes "xs_sign px ts ua c w = (Inr sig, c', w')"
  obtains resp c1 where "xs_answer ua ts resp c1 = (Inr sig, c')"
  using assms that by (auto simp: xs_sign_def Let_def split: prod.splits if_splits sum.splits option.splits list.splits)

lemma refresh_genuine:
  assumes "refreshUnlocked x now ts draws s w = (sig, s', w')"
  shows "sn_cached s' = sn_cached s \<and> sn_fresh_ms s' = sn_fresh_ms s \<and> sn_stale_ms s' = sn_stale_ms s \<and>
    (sg_valid sig \<longrightarrow> genuine x sig \<and> sg_at_ms sig = now)"
proof (cases "sn_external s")
  case None
  then show ?thesis using assms local_genuine [of x now draws] by (auto simp: refreshUnlocked_def)
next
  case (Some ext)
  obtain r ext' w1 where r: "xs_sign (so_px x) ts (sn_ua x) ext w = (r, ext', w1)" by (metis prod_cases3)
  show ?thesis
  proof (cases "\<exists>sig. r = Inr sig \<and> sg_valid sig")
    case True
    then obtain sg where sg: "r = Inr sg" "sg_valid sg" by blast
    obtain resp c1 where "xs_answer (sn_ua x) ts resp c1 = (Inr sg, ext')" using xs_sign_answer [OF r [unfolded sg(1)]] by blast
    then have "genuine x (sg\<lparr>sg_at_ms := now\<rparr>)" unfolding genuine_def by force
    then show ?thesis using assms Some r sg by (auto simp: refreshUnlocked_def Let_def)
  next
    case False
    then have "sig = sn_local x now draws" "s' = s\<lparr>sn_external := Some ext'\<rparr>" using assms Some r
      by (auto simp: refreshUnlocked_def Let_def split: sum.splits)
    then show ?thesis using local_genuine [of x now draws] by simp
  qed
qed

lemma sign_step:
  assumes "signSocketQuery x now ts draws s w = (sig, s', w')" "sn_inv x t s" "t \<le> now" "sn_fresh_ms s \<le> sn_stale_ms s" "0 < sn_stale_ms s"
  shows "sn_inv x now s' \<and> sn_fresh_ms s' = sn_fresh_ms s \<and> sn_stale_ms s' = sn_stale_ms s \<and>
    (sg_valid sig \<longrightarrow> genuine x sig \<and> sg_at_ms sig \<le> now \<and> now - sg_at_ms sig < sn_stale_ms s)"
proof (cases "sg_valid (sn_cached s) \<and> now - sg_at_ms (sn_cached s) < sn_fresh_ms s")
  case True
  then show ?thesis using assms by (auto simp: signSocketQuery_def Let_def sn_inv_def)
next
  case False
  obtain fresh s1 w1 where f: "refreshUnlocked x now ts draws s w = (fresh, s1, w1)" by (metis prod_cases3)
  then show ?thesis using False assms refresh_genuine [OF f]
    by (auto simp: signSocketQuery_def Let_def sn_inv_def SocketSignature_none_def split: if_splits)
qed

text \<open>A run of calls, each with its readings of the clock and its draws.\<close>

fun sn_run :: "'w SignOutside \<Rightarrow> (TimestampMs \<times> TimestampMs \<times> u64 list) list \<Rightarrow> NativeSign \<Rightarrow> 'w \<Rightarrow> SocketSignature list" where
  "sn_run x [] s w = []"
| "sn_run x ((now, ts, draws) # cs) s w = (case signSocketQuery x now ts draws s w of (sig, s, w) \<Rightarrow> sig # sn_run x cs s w)"

lemma sign_run:
  "sn_inv x t s \<Longrightarrow> sn_fresh_ms s \<le> sn_stale_ms s \<Longrightarrow> 0 < sn_stale_ms s \<Longrightarrow> sorted (t # map fst cs) \<Longrightarrow>
   list_all2 (\<lambda>(now, _) sig. sg_valid sig \<longrightarrow> genuine x sig \<and> sg_at_ms sig \<le> now \<and> now - sg_at_ms sig < sn_stale_ms s) cs (sn_run x cs s w)"
proof (induction cs arbitrary: t s w)
  case (Cons c cs)
  obtain now ts draws where c: "c = (now, ts, draws)" by (metis prod_cases3)
  obtain sig s' w' where q: "signSocketQuery x now ts draws s w = (sig, s', w')" by (metis prod_cases3)
  have "t \<le> now" using Cons.prems(4) by (simp add: c)
  note step = sign_step [OF q Cons.prems(1) this Cons.prems(2,3)]
  have "list_all2 (\<lambda>(now, _) sig. sg_valid sig \<longrightarrow> genuine x sig \<and> sg_at_ms sig \<le> now \<and> now - sg_at_ms sig < sn_stale_ms s') cs (sn_run x cs s' w')"
    using step Cons.prems(2-4) by (intro Cons.IH [of now]) (simp_all add: c)
  then show ?case using step by (simp add: c q)
qed simp


definition demo_sign :: "unit SignOutside" where
  "demo_sign =
     \<lparr>so_px = \<lparr>px_socket = (\<lambda>w. (3, w)), px_connect = (\<lambda>_ _ w. (True, w)), px_write = (\<lambda>_ s w. (int (length s), w)), px_read = (\<lambda>_ _ w. (None, w)),
        px_close = (\<lambda>_ w. w)\<rparr>,
      so_secret = [''BC_SIGN_KEY'' \<mapsto> ''k''], so_hmac = (\<lambda>k d. [1, 2])\<rparr>"

definition demo_calls :: "(TimestampMs \<times> TimestampMs \<times> u64 list) list" where
  "demo_calls = [(1000, 1001, [7]), (2000, 2001, [8]), (70000, 70001, [9])]"


end
