(* ===== verification/Transport.thy ===== *)
theory Transport
  imports Signing "HOL-Library.Monad_Syntax"
begin

text \<open>
  The WebSocket transport: reconnect policy (\<open>ingestion/reconnect_policy.hpp\<close>), heartbeat (\<open>heartbeat/*.hpp\<close>), Socket.IO client
  (\<open>socketio/socketio_client.hpp\<close>), connection, session and client (\<open>websocket/*.hpp\<close>) and the handshake helpers
  (\<open>transport_handshake.hpp\<close>).

  Boost.Beast and the operating system are a parameter: a handshake that comes up, fails or throws, a write that is taken or
  throws, a close. An operation that would call into a destroyed object, or start a thread over one that was never joined, gives
  \<^const>\<open>None\<close>: C++ gives such a run no meaning, or ends the process. Callbacks are what an operation returns to its caller when they come last
  in it, and are carried out in place otherwise.
\<close>

section \<open>Reconnect policy\<close>

record ReconnectPolicy =
  rc_baseMs :: int
  rc_maxMs :: int
  rc_wafBackoffMs :: int
  rc_maxAttempts :: int
  rc_jitterRatio :: double

definition ReconnectPolicy_default :: ReconnectPolicy where
  "ReconnectPolicy_default =
     \<lparr>rc_baseMs = 500, rc_maxMs = 30000, rc_wafBackoffMs = 12000, rc_maxAttempts = 100, rc_jitterRatio = rnd (1 / 5)\<rparr>"

text \<open>\<open>draw\<close> is the value of the distribution; the cast truncates.\<close>

definition applyJitter :: "double \<Rightarrow> int \<Rightarrow> ReconnectPolicy \<Rightarrow> int" where
  "applyJitter draw delay p =
     (if dle (rc_jitterRatio p) (Fin 0) then delay else max 1 (trunc_rat (fin_val (dmul (of_integer delay) draw))))"

definition rc_exact :: "int \<Rightarrow> ReconnectPolicy \<Rightarrow> int" where
  "rc_exact attempt p = min (rc_maxMs p) (rc_baseMs p * 2 ^ nat (min 20 (max 0 attempt)))"

definition delayMs :: "double \<Rightarrow> int \<Rightarrow> bool \<Rightarrow> ReconnectPolicy \<Rightarrow> int" where
  "delayMs draw attempt wafBlocked p =
     (if wafBlocked then rc_wafBackoffMs p
      else let attempt = (if attempt < 0 then 0 else attempt);
               attempt = (if attempt > 20 then 20 else attempt);
               d = rc_baseMs p * 2 ^ nat attempt;
               d = (if d > rc_maxMs p then rc_maxMs p else d)
           in applyJitter draw d p)"

definition shouldGiveUp :: "int \<Rightarrow> ReconnectPolicy \<Rightarrow> bool" where
  "shouldGiveUp attempt p \<longleftrightarrow> attempt \<ge> rc_maxAttempts p"

section \<open>Heartbeat\<close>

record HeartbeatMonitor =
  hb_interval_ms :: int
  hb_timeout_ms :: int
  hb_lastPingMs :: TimestampMs
  hb_lastPongMs :: TimestampMs
  hb_pingsSent :: u64
  hb_pongsReceived :: u64
  hb_timedOut :: bool

definition HeartbeatMonitor_new :: HeartbeatMonitor where
  "HeartbeatMonitor_new =
     \<lparr>hb_interval_ms = 25000, hb_timeout_ms = 60000, hb_lastPingMs = 0, hb_lastPongMs = 0, hb_pingsSent = 0, hb_pongsReceived = 0, hb_timedOut = False\<rparr>"

definition hb_onPingSent :: "TimestampMs \<Rightarrow> HeartbeatMonitor \<Rightarrow> HeartbeatMonitor" where
  "hb_onPingSent now h = h\<lparr>hb_lastPingMs := now, hb_pingsSent := hb_pingsSent h + 1\<rparr>"

definition hb_onPongReceived :: "TimestampMs \<Rightarrow> HeartbeatMonitor \<Rightarrow> HeartbeatMonitor" where
  "hb_onPongReceived now h = h\<lparr>hb_lastPongMs := now, hb_pongsReceived := hb_pongsReceived h + 1, hb_timedOut := False\<rparr>"

definition hb_late :: "TimestampMs \<Rightarrow> HeartbeatMonitor \<Rightarrow> bool" where
  "hb_late now h \<longleftrightarrow> hb_lastPingMs h > 0 \<and> now - hb_lastPingMs h > hb_timeout_ms h \<and> hb_lastPongMs h < hb_lastPingMs h"

text \<open>The answer false goes with a call of the timeout handler.\<close>

definition hb_check :: "TimestampMs \<Rightarrow> HeartbeatMonitor \<Rightarrow> bool \<times> HeartbeatMonitor" where
  "hb_check now h = (if hb_late now h then (False, h\<lparr>hb_timedOut := True\<rparr>) else (True, h))"

definition hb_shouldPing :: "TimestampMs \<Rightarrow> HeartbeatMonitor \<Rightarrow> bool" where
  "hb_shouldPing now h \<longleftrightarrow> hb_lastPingMs h = 0 \<or> now - hb_lastPingMs h \<ge> hb_interval_ms h"

section \<open>Socket.IO client\<close>

record SocketIoClient =
  si_has_send :: bool
  si_has_packet :: bool
  si_has_frame :: bool
  si_heartbeat :: HeartbeatMonitor
  si_sid :: string
  si_ping_interval_ms :: int
  si_ping_timeout_ms :: int
  si_connected :: bool
  si_joined :: bool
  si_frames_rx :: u64
  si_opens :: u64
  si_joins :: u64

definition SocketIoClient_new :: SocketIoClient where
  "SocketIoClient_new =
     \<lparr>si_has_send = False, si_has_packet = False, si_has_frame = False, si_heartbeat = HeartbeatMonitor_new, si_sid = [], si_ping_interval_ms = 25000,
      si_ping_timeout_ms = 60000, si_connected = False, si_joined = False, si_frames_rx = 0, si_opens = 0, si_joins = 0\<rparr>"

definition BC_SOCKET_NSP :: string where
  "BC_SOCKET_NSP = ''/g/cm''"

text \<open>The calls of the handlers an operation makes.\<close>

datatype sio_call = Call_state bool | Call_packet SocketIoPacket | Call_frame bytes

text \<open>\<open>send_\<close> acts on the state of whoever installed it.\<close>

type_synonym 's send_fn = "bytes \<Rightarrow> 's \<Rightarrow> (bool \<times> 's) option"

definition joinCrashNamespace :: "'s send_fn \<Rightarrow> SocketIoClient \<Rightarrow> 's \<Rightarrow> (unit Result \<times> sio_call list \<times> SocketIoClient \<times> 's) option" where
  "joinCrashNamespace send c s =
     (if \<not> si_has_send c then Some (Inl (mkError EC_InternalError ''send not configured''), [], c, s)
      else do {
        (ok, s) \<leftarrow> send (encodeConnect BC_SOCKET_NSP) s;
        if \<not> ok then Some (Inl (mkError EC_NetworkError ''connect frame send failed''), [], c, s)
        else do {
          (ok, s) \<leftarrow> send (encodeJoin BC_SOCKET_NSP ''join'') s;
          if \<not> ok then Some (Inl (mkError EC_NetworkError ''join frame send failed''), [], c, s)
          else Some (Inr (), [Call_state True], c\<lparr>si_joined := True, si_connected := True, si_joins := si_joins c + 1\<rparr>, s)
        }
      })"

definition sio_ping :: "'s send_fn \<Rightarrow> TimestampMs \<Rightarrow> TimestampMs \<Rightarrow> SocketIoClient \<Rightarrow> 's \<Rightarrow> (SocketIoClient \<times> 's) option" where
  "sio_ping send t0 t1 c s =
     (let c = c\<lparr>si_heartbeat := hb_onPingSent t0 (si_heartbeat c)\<rparr>
      in if si_has_send c then do {
           (ok, s) \<leftarrow> send encodePong s;
           Some (c\<lparr>si_heartbeat := hb_onPongReceived t1 (si_heartbeat c)\<rparr>, s)
         } else Some (c, s))"

definition sio_open :: "bytes \<Rightarrow> SocketIoClient \<Rightarrow> SocketIoClient option" where
  "sio_open data c = do {
     p \<leftarrow> parseOpen data;
     Some (c\<lparr>si_sid := pk_sid p,
             si_ping_interval_ms := (if pk_pingInterval p > 0 then pk_pingInterval p else si_ping_interval_ms c),
             si_ping_timeout_ms := (if pk_pingTimeout p > 0 then pk_pingTimeout p else si_ping_timeout_ms c),
             si_opens := si_opens c + 1\<rparr>)
   }"

definition sio_onBinaryFrame :: "'s send_fn \<Rightarrow> TimestampMs \<Rightarrow> TimestampMs \<Rightarrow> bytes \<Rightarrow> SocketIoClient \<Rightarrow> 's \<Rightarrow>
    (sio_call list \<times> SocketIoClient \<times> 's) option" where
  "sio_onBinaryFrame send t0 t1 data c s =
     (let c = c\<lparr>si_frames_rx := si_frames_rx c + 1\<rparr>
      in if data = [] then Some ([], c, s)
      else if isPing data then do { (c, s) \<leftarrow> sio_ping send t0 t1 c s; Some ([], c, s) }
      else if isPong data then Some ([], c\<lparr>si_heartbeat := hb_onPongReceived t0 (si_heartbeat c)\<rparr>, s)
      else if isOpenFrame data then do { c \<leftarrow> sio_open data c; Some ([], c, s) }
      else if isClose data then Some ([Call_state False], c\<lparr>si_connected := False, si_joined := False\<rparr>, s)
      else Some ((if data ! 0 = 0x04 \<and> si_has_packet c then [Call_packet (parsePacket data)] else []) @
                 (if si_has_frame c then [Call_frame data] else []), c, s))"

definition sio_tick :: "'s send_fn \<Rightarrow> TimestampMs \<Rightarrow> TimestampMs \<Rightarrow> TimestampMs \<Rightarrow> SocketIoClient \<Rightarrow> 's \<Rightarrow> (SocketIoClient \<times> 's) option" where
  "sio_tick send t0 t1 t2 c s =
     (if \<not> si_connected c then Some (c, s)
      else do {
        (c, s) \<leftarrow> (if hb_shouldPing t0 (si_heartbeat c) \<and> si_has_send c then do {
                      (ok, s) \<leftarrow> send encodePing s;
                      Some (c\<lparr>si_heartbeat := hb_onPingSent t1 (si_heartbeat c)\<rparr>, s)
                    } else Some (c, s));
        Some (c\<lparr>si_heartbeat := snd (hb_check t2 (si_heartbeat c))\<rparr>, s)
      })"

text \<open>What the Socket.IO client leaves alone is what its send function leaves alone.\<close>

locale quiet_send =
  fixes send :: "'s send_fn" and P :: "'s \<Rightarrow> bool"
  assumes keep: "send data s = Some (ok, s') \<Longrightarrow> P s \<Longrightarrow> P s'"
begin

lemma join_keeps: "joinCrashNamespace send c s = Some (r, calls, c', s') \<Longrightarrow> P s \<Longrightarrow> P s'"
  by (auto simp: joinCrashNamespace_def split: if_splits Option.bind_splits prod.splits dest!: keep)

lemma frame_keeps: "sio_onBinaryFrame send t0 t1 data c s = Some (calls, c', s') \<Longrightarrow> P s \<Longrightarrow> P s'"
  by (auto simp: sio_onBinaryFrame_def sio_ping_def sio_open_def Let_def split: if_splits Option.bind_splits prod.splits dest!: keep)

lemma tick_keeps: "sio_tick send t0 t1 t2 c s = Some (c', s') \<Longrightarrow> P s \<Longrightarrow> P s'"
  by (auto simp: sio_tick_def split: if_splits Option.bind_splits prod.splits dest!: keep)

end

section \<open>Configuration\<close>

record WebSocketConfig =
  ws_host :: string
  ws_path :: string
  ws_port :: string
  ws_tls :: bool
  ws_handshake_timeout_ms :: int
  ws_read_timeout_ms :: int
  ws_reconnect_base_ms :: int
  ws_reconnect_max_ms :: int
  ws_max_reconnect_attempts :: int
  ws_user_agent :: string
  ws_auto_reconnect :: bool
  ws_extra_query :: string

definition WebSocketConfig_default :: WebSocketConfig where
  "WebSocketConfig_default =
     \<lparr>ws_host = ''bc.game'', ws_path = ''/socket.io/?EIO=3&transport=websocket'', ws_port = ''443'', ws_tls = True, ws_handshake_timeout_ms = 10000,
      ws_read_timeout_ms = 60000, ws_reconnect_base_ms = 500, ws_reconnect_max_ms = 30000, ws_max_reconnect_attempts = 50,
      ws_user_agent = DEFAULT_UA, ws_auto_reconnect = True, ws_extra_query = []\<rparr>"

definition with_query :: "string \<Rightarrow> string \<Rightarrow> string" where
  "with_query path q = (if q = [] then path else path @ (if CHR ''?'' \<in> set path then ''&'' else ''?'') @ q)"

definition buildWebSocketUrl :: "WebSocketConfig \<Rightarrow> string" where
  "buildWebSocketUrl cfg =
     (if ws_tls cfg then ''wss://'' else ''ws://'') @ ws_host cfg @
     (if ws_port cfg \<noteq> ''443'' \<and> ws_port cfg \<noteq> ''80'' then '':'' @ ws_port cfg else []) @ with_query (ws_path cfg) (ws_extra_query cfg)"

section \<open>Connection and session\<close>

record WebSocketMetrics =
  wm_frames_rx :: u64
  wm_frames_tx :: u64
  wm_bytes_rx :: u64
  wm_bytes_tx :: u64
  wm_reconnects :: u64
  wm_errors :: u64
  wm_handshake_ok :: u64
  wm_handshake_fail :: u64
  wm_last_rx_ms :: TimestampMs
  wm_last_tx_ms :: TimestampMs
  wm_connected_since_ms :: TimestampMs

definition WebSocketMetrics_new :: WebSocketMetrics where
  "WebSocketMetrics_new =
     \<lparr>wm_frames_rx = 0, wm_frames_tx = 0, wm_bytes_rx = 0, wm_bytes_tx = 0, wm_reconnects = 0, wm_errors = 0, wm_handshake_ok = 0,
      wm_handshake_fail = 0, wm_last_rx_ms = 0, wm_last_tx_ms = 0, wm_connected_since_ms = 0\<rparr>"

definition wm_onRx :: "TimestampMs \<Rightarrow> nat \<Rightarrow> WebSocketMetrics \<Rightarrow> WebSocketMetrics" where
  "wm_onRx now n m = m\<lparr>wm_frames_rx := wm_frames_rx m + 1, wm_bytes_rx := wm_bytes_rx m + of_nat n, wm_last_rx_ms := now\<rparr>"

definition wm_onTx :: "TimestampMs \<Rightarrow> nat \<Rightarrow> WebSocketMetrics \<Rightarrow> WebSocketMetrics" where
  "wm_onTx now n m = m\<lparr>wm_frames_tx := wm_frames_tx m + 1, wm_bytes_tx := wm_bytes_tx m + of_nat n, wm_last_tx_ms := now\<rparr>"

text \<open>How opening a stream ends: up, without a server name, or with an exception, before or after the stream object is made.\<close>

datatype handshake = Hs_Up | Hs_NoSni | Hs_Threw bool string

record 'w Boost =
  bo_open :: "string \<Rightarrow> string \<Rightarrow> string \<Rightarrow> string \<Rightarrow> 'w \<Rightarrow> handshake \<times> 'w"
  bo_write :: "bytes \<Rightarrow> 'w \<Rightarrow> string option \<times> 'w"
  bo_close :: "'w \<Rightarrow> 'w"

text \<open>\<open>WebSocketConnection\<close> and, when \<open>wc_beast\<close> is set, \<open>BeastWebSocketConnection\<close>. \<open>wc_thread\<close>: the reading thread can be joined.\<close>

record WebSocketConnection =
  wc_cfg :: WebSocketConfig
  wc_beast :: bool
  wc_connected :: bool
  wc_stream :: bool
  wc_running :: bool
  wc_thread :: bool
  wc_tx_log :: "bytes list"

text \<open>The session with the metrics of its client. Its handlers on the connection keep the last error and clear \<open>connected_\<close>.\<close>

record WebSocketSession =
  se_conn :: WebSocketConnection
  se_metrics :: WebSocketMetrics
  se_running :: bool
  se_connected :: bool
  se_reconnects :: u64
  se_fails :: int
  se_last_error :: string
  se_pump :: bool

definition WebSocketSession_new :: "WebSocketConfig \<Rightarrow> bool \<Rightarrow> WebSocketSession" where
  "WebSocketSession_new cfg useBeast =
     \<lparr>se_conn = \<lparr>wc_cfg = cfg, wc_beast = useBeast, wc_connected = False, wc_stream = False, wc_running = False, wc_thread = False, wc_tx_log = []\<rparr>,
      se_metrics = WebSocketMetrics_new, se_running = False, se_connected = False, se_reconnects = 0, se_fails = 0, se_last_error = [], se_pump = False\<rparr>"

definition se_set :: "(WebSocketConnection \<Rightarrow> WebSocketConnection) \<Rightarrow> WebSocketSession \<Rightarrow> WebSocketSession" where
  "se_set f se = se\<lparr>se_conn := f (se_conn se)\<rparr>"

definition reportError :: "string \<Rightarrow> WebSocketSession \<Rightarrow> WebSocketSession" where
  "reportError msg se = se\<lparr>se_metrics := (se_metrics se)\<lparr>wm_errors := wm_errors (se_metrics se) + 1\<rparr>, se_last_error := msg\<rparr>"

definition wc_up :: "TimestampMs \<Rightarrow> WebSocketSession \<Rightarrow> WebSocketSession" where
  "wc_up now se =
     (se_set (\<lambda>c. c\<lparr>wc_connected := True\<rparr>) se)
       \<lparr>se_metrics := (se_metrics se)\<lparr>wm_handshake_ok := wm_handshake_ok (se_metrics se) + 1, wm_connected_since_ms := now\<rparr>\<rparr>"

text \<open>The request target; the query is always appended.\<close>

definition wc_target :: "WebSocketConfig \<Rightarrow> string" where
  "wc_target cfg = with_query (if ws_path cfg = [] then ''/socket.io/'' else ws_path cfg) (ws_extra_query cfg)"

text \<open>Assigning a new thread over one that was not joined ends the process.\<close>

definition wc_connect :: "'w Boost \<Rightarrow> TimestampMs \<Rightarrow> WebSocketSession \<Rightarrow> 'w \<Rightarrow> (unit Result \<times> WebSocketSession \<times> 'w) option" where
  "wc_connect b now se w =
     (let c = se_conn se; cfg = wc_cfg c
      in if wc_connected c then Some (Inr (), se, w)
      else if \<not> wc_beast c then Some (Inr (), wc_up now se, w)
      else (case bo_open b (if ws_host cfg = [] then ''api.bc.game'' else ws_host cfg) (if ws_port cfg = [] then ''443'' else ws_port cfg)
                   (wc_target cfg) (if ws_user_agent cfg = [] then ''CrashCore/1.0'' else ws_user_agent cfg) w of
              (Hs_NoSni, w) \<Rightarrow> Some (Inl (mkError EC_ConnectionFailed ''SNI set failed''), se_set (\<lambda>c. c\<lparr>wc_stream := True\<rparr>) se, w)
            | (Hs_Threw made what, w) \<Rightarrow>
                Some (Inl (mkError EC_ConnectionFailed what),
                      reportError (''Beast connect: '' @ what) (se_set (\<lambda>c. c\<lparr>wc_stream := wc_stream c \<or> made, wc_connected := False\<rparr>) se), w)
            | (Hs_Up, w) \<Rightarrow>
                if wc_thread c then None
                else Some (Inr (), se_set (\<lambda>c. c\<lparr>wc_stream := True, wc_running := True, wc_thread := True\<rparr>) (wc_up now se), w)))"

definition wc_close :: "'w Boost \<Rightarrow> WebSocketSession \<Rightarrow> 'w \<Rightarrow> WebSocketSession \<times> 'w" where
  "wc_close b se w =
     (let c = se_conn se; was = wc_connected c;
          w = (if wc_beast c \<and> was \<and> wc_stream c then bo_close b w else w);
          se = (if wc_beast c then se_set (\<lambda>c. c\<lparr>wc_running := False, wc_connected := False, wc_thread := False, wc_stream := False\<rparr>) se
                else se_set (\<lambda>c. c\<lparr>wc_connected := False\<rparr>) se)
      in (if was then se\<lparr>se_connected := False\<rparr> else se, w))"

definition wc_log :: "bytes \<Rightarrow> WebSocketConnection \<Rightarrow> WebSocketConnection" where
  "wc_log data c = c\<lparr>wc_tx_log := (let l = wc_tx_log c @ [data] in if length l > 256 then tl l else l)\<rparr>"

definition wc_send :: "'w Boost \<Rightarrow> TimestampMs \<Rightarrow> bytes \<Rightarrow> WebSocketSession \<times> 'w \<Rightarrow> unit Result \<times> WebSocketSession \<times> 'w" where
  "wc_send b now data st =
     (case st of (se, w) \<Rightarrow>
      let c = se_conn se; sent = se_set (wc_log data) (se\<lparr>se_metrics := wm_onTx now (length data) (se_metrics se)\<rparr>)
      in if \<not> wc_connected c \<or> wc_beast c \<and> \<not> wc_stream c then (Inl (mkError EC_ConnectionFailed ''not connected''), se, w)
      else if \<not> wc_beast c then (Inr (), sent, w)
      else (case bo_write b data w of
              (None, w) \<Rightarrow> (Inr (), sent, w)
            | (Some what, w) \<Rightarrow> (Inl (mkError EC_NetworkError what), reportError (''Beast send: '' @ what) se, w)))"

text \<open>The function the session installs in the Socket.IO client.\<close>

definition se_send :: "'w Boost \<Rightarrow> TimestampMs \<Rightarrow> (WebSocketSession \<times> 'w) send_fn" where
  "se_send b now data st = (case wc_send b now data st of (r, st) \<Rightarrow> Some (Result_ok r, st))"

text \<open>A read that fails: the connection is down, its thread ends but is not joined. \<open>reported\<close> is the message when it is not a close.\<close>

definition wc_lost :: "string option \<Rightarrow> WebSocketSession \<Rightarrow> WebSocketSession" where
  "wc_lost reported se =
     (let se = (case reported of Some msg \<Rightarrow> if wc_running (se_conn se) then reportError msg se else se | None \<Rightarrow> se)
      in (se_set (\<lambda>c. c\<lparr>wc_connected := False\<rparr>) se)\<lparr>se_connected := False\<rparr>)"

definition doConnect :: "'w Boost \<Rightarrow> TimestampMs \<Rightarrow> WebSocketSession \<Rightarrow> SocketIoClient \<Rightarrow> 'w \<Rightarrow>
    (unit Result \<times> WebSocketSession \<times> SocketIoClient \<times> 'w) option" where
  "doConnect b now se c w = do {
     (r, se, w) \<leftarrow> wc_connect b now se w;
     if \<not> Result_ok r
     then Some (r, se\<lparr>se_metrics := (se_metrics se)\<lparr>wm_handshake_fail := wm_handshake_fail (se_metrics se) + 1\<rparr>\<rparr>, c, w)
     else do {
       (j, _, c, se, w) \<leftarrow> joinCrashNamespace (se_send b now) c (se, w);
       if \<not> Result_ok j then (case wc_close b se w of (se, w) \<Rightarrow> Some (j, se, c, w))
       else Some (Inr (), se\<lparr>se_connected := True, se_fails := 0\<rparr>, c, w)
     }
   }"

definition se_start :: "'w Boost \<Rightarrow> TimestampMs \<Rightarrow> WebSocketSession \<Rightarrow> SocketIoClient \<Rightarrow> 'w \<Rightarrow>
    (unit Result \<times> WebSocketSession \<times> SocketIoClient \<times> 'w) option" where
  "se_start b now se c w =
     (if se_running se then Some (Inr (), se, c, w)
      else do {
        (r, se, c, w) \<leftarrow> doConnect b now (se\<lparr>se_running := True\<rparr>) c w;
        if \<not> Result_ok r then Some (r, se\<lparr>se_running := False\<rparr>, c, w)
        else Some (Inr (), se\<lparr>se_pump := ws_auto_reconnect (wc_cfg (se_conn se))\<rparr>, c, w)
      })"

definition se_stop :: "'w Boost \<Rightarrow> WebSocketSession \<Rightarrow> 'w \<Rightarrow> WebSocketSession \<times> 'w" where
  "se_stop b se w = (case wc_close b (se\<lparr>se_running := False, se_pump := False\<rparr>) w of (se, w) \<Rightarrow> (se\<lparr>se_connected := False\<rparr>, w))"

definition reconnect_delay :: "WebSocketConfig \<Rightarrow> int \<Rightarrow> int" where
  "reconnect_delay cfg fails = min (ws_reconnect_max_ms cfg) (ws_reconnect_base_ms cfg * 2 ^ nat (min fails 10))"

text \<open>The answer also has the wait before the attempt.\<close>

definition attemptReconnect :: "'w Boost \<Rightarrow> TimestampMs \<Rightarrow> WebSocketSession \<Rightarrow> SocketIoClient \<Rightarrow> 'w \<Rightarrow>
    (int \<times> WebSocketSession \<times> SocketIoClient \<times> 'w) option" where
  "attemptReconnect b now se c w =
     (let cfg = wc_cfg (se_conn se)
      in if se_fails se \<ge> ws_max_reconnect_attempts cfg then Some (0, se, c, w)
      else let delay = reconnect_delay cfg (se_fails se);
               se = se\<lparr>se_fails := se_fails se + 1, se_reconnects := se_reconnects se + 1,
                       se_metrics := (se_metrics se)\<lparr>wm_reconnects := wm_reconnects (se_metrics se) + 1\<rparr>\<rparr>
           in do { (_, se, c, w) \<leftarrow> doConnect b now se c w; Some (delay, se, c, w) })"

text \<open>One turn of the pump, without its pause.\<close>

definition pumpLoop_step :: "'w Boost \<Rightarrow> (nat \<Rightarrow> TimestampMs) \<Rightarrow> WebSocketSession \<Rightarrow> SocketIoClient \<Rightarrow> 'w \<Rightarrow>
    (int \<times> WebSocketSession \<times> SocketIoClient \<times> 'w) option" where
  "pumpLoop_step b ms se c w = do {
     (c, se, w) \<leftarrow> sio_tick (se_send b (ms 0)) (ms 1) (ms 2) (ms 3) c (se, w);
     if \<not> wc_connected (se_conn se) \<and> ws_auto_reconnect (wc_cfg (se_conn se))
     then attemptReconnect b (ms 4) (se\<lparr>se_connected := False\<rparr>) c w
     else Some (0, se, c, w)
   }"

section \<open>Client\<close>

record WebSocketClient =
  cl_cfg :: WebSocketConfig
  cl_session :: "WebSocketSession option"
  cl_running :: bool

text \<open>The constructor with the signature it was given, if it has a signer.\<close>

definition signed_query :: "SocketSignature option \<Rightarrow> string" where
  "signed_query sig =
     (case sig of
        Some q \<Rightarrow> if sg_valid q then ''p='' @ sg_p q @ ''&t='' @ sg_t q @ ''&'' @ ''EIO=3&transport=websocket'' else ''EIO=3&transport=websocket''
      | None \<Rightarrow> ''EIO=3&transport=websocket'')"

definition WebSocketClient_new :: "WebSocketConfig \<Rightarrow> SocketSignature option \<Rightarrow> WebSocketClient" where
  "WebSocketClient_new cfg sig = \<lparr>cl_cfg = cfg\<lparr>ws_extra_query := signed_query sig\<rparr>, cl_session = None, cl_running = False\<rparr>"

definition cl_start :: "'w Boost \<Rightarrow> TimestampMs \<Rightarrow> WebSocketClient \<Rightarrow> SocketIoClient \<Rightarrow> 'w \<Rightarrow>
    (unit Result \<times> WebSocketClient \<times> SocketIoClient \<times> 'w) option" where
  "cl_start b now cl c w = do {
     (r, se, c, w) \<leftarrow> se_start b now (WebSocketSession_new (cl_cfg cl) True) (c\<lparr>si_has_send := True\<rparr>) w;
     Some (r, cl\<lparr>cl_session := Some se, cl_running := (if Result_ok r then True else cl_running cl)\<rparr>, c, w)
   }"

definition cl_stop :: "'w Boost \<Rightarrow> WebSocketClient \<Rightarrow> 'w \<Rightarrow> WebSocketClient \<times> 'w" where
  "cl_stop b cl w =
     (case cl_session cl of
        None \<Rightarrow> (cl\<lparr>cl_running := False\<rparr>, w)
      | Some se \<Rightarrow> (case se_stop b se w of (se, w) \<Rightarrow> (cl\<lparr>cl_running := False, cl_session := Some se\<rparr>, w)))"

section \<open>Handshake\<close>

record HandshakeParams =
  hp_host :: string
  hp_path :: string
  hp_eio :: string
  hp_transport :: string
  hp_origin :: string
  hp_userAgent :: string
  hp_secure :: bool

definition HandshakeParams_default :: HandshakeParams where
  "HandshakeParams_default =
     \<lparr>hp_host = ''socketv4.bc.game'', hp_path = ''/socket.io/'', hp_eio = ''3'', hp_transport = ''websocket'', hp_origin = ''https://bc.game'',
      hp_userAgent = DEFAULT_UA, hp_secure = True\<rparr>"

definition buildSocketPath :: "HandshakeParams \<Rightarrow> SocketSignature \<Rightarrow> string" where
  "buildSocketPath p sig =
     hp_path p @ [if CHR ''?'' \<in> set (hp_path p) then CHR ''&'' else CHR ''?''] @ ''EIO='' @ hp_eio p @ ''&transport='' @ hp_transport p @
     (if sg_valid sig then ''&p='' @ sg_p sig @ ''&t='' @ sg_t sig else [])"

definition makeWsConfig :: "HandshakeParams \<Rightarrow> SocketSignature \<Rightarrow> ReconnectPolicy \<Rightarrow> WebSocketConfig" where
  "makeWsConfig hp sig policy =
     WebSocketConfig_default\<lparr>ws_host := hp_host hp, ws_path := buildSocketPath hp sig, ws_port := (if hp_secure hp then ''443'' else ''80''),
       ws_tls := hp_secure hp, ws_user_agent := hp_userAgent hp, ws_auto_reconnect := True, ws_reconnect_base_ms := rc_baseMs policy,
       ws_reconnect_max_ms := rc_maxMs policy, ws_max_reconnect_attempts := rc_maxAttempts policy,
       ws_extra_query := (if sg_valid sig then ''p='' @ sg_p sig @ ''&t='' @ sg_t sig else [])\<rparr>"

definition handshakeHeaders :: "HandshakeParams \<Rightarrow> (string \<times> string) list" where
  "handshakeHeaders hp =
     [(''Origin'', hp_origin hp), (''User-Agent'', hp_userAgent hp), (''Cache-Control'', ''no-cache''), (''Pragma'', ''no-cache''),
      (''Accept-Encoding'', ''gzip, deflate, br''), (''Accept-Language'', ''en-US,en;q=0.9'')]"

datatype HandshakeStage =
  Hg_Idle | Hg_ResolvingSign | Hg_OpeningTcp | Hg_TlsHandshake | Hg_HttpUpgrade | Hg_EngineOpen | Hg_NamespaceConnect | Hg_NamespaceJoin | Hg_Live | Hg_Failed

record HandshakeStateMachine =
  hm_stage :: HandshakeStage
  hm_last_error :: string
  hm_transitions :: u64
  hm_failures :: u64

definition hm_advance :: "HandshakeStage \<Rightarrow> HandshakeStateMachine \<Rightarrow> HandshakeStateMachine" where
  "hm_advance st m = m\<lparr>hm_stage := st, hm_transitions := hm_transitions m + 1\<rparr>"

definition hm_fail :: "string \<Rightarrow> HandshakeStateMachine \<Rightarrow> HandshakeStateMachine" where
  "hm_fail reason m = m\<lparr>hm_stage := Hg_Failed, hm_last_error := reason, hm_failures := hm_failures m + 1\<rparr>"

text \<open>The signature is asked for and its absence accepted.\<close>

definition simulateSuccess :: "'w SignOutside \<Rightarrow> TimestampMs \<Rightarrow> TimestampMs \<Rightarrow> u64 list \<Rightarrow> NativeSign option \<Rightarrow> HandshakeStateMachine \<Rightarrow> 'w \<Rightarrow>
    unit Result \<times> NativeSign option \<times> HandshakeStateMachine \<times> 'w" where
  "simulateSuccess x now ts draws sign m w =
     (let m = hm_advance Hg_ResolvingSign m;
          (sign, w) = (case sign of None \<Rightarrow> (None, w) | Some s \<Rightarrow> (case signSocketQuery x now ts draws s w of (_, s, w) \<Rightarrow> (Some s, w)));
          m = fold hm_advance [Hg_OpeningTcp, Hg_TlsHandshake, Hg_HttpUpgrade, Hg_EngineOpen, Hg_NamespaceConnect, Hg_NamespaceJoin, Hg_Live] m
      in (Inr (), sign, m, w))"

section \<open>Backoff\<close>

lemma rc_exact_mono:
  assumes "0 \<le> rc_baseMs p" "i \<le> j"
  shows "rc_exact i p \<le> rc_exact j p"
proof -
  have "rc_baseMs p * 2 ^ nat (min 20 (max 0 i)) \<le> rc_baseMs p * 2 ^ nat (min 20 (max 0 j))"
    using assms by (intro mult_left_mono power_increasing) (auto simp: nat_mono)
  then show ?thesis by (simp add: rc_exact_def min_le_iff_disj)
qed

lemma rc_exact_range:
  assumes "0 < rc_baseMs p" "rc_baseMs p \<le> rc_maxMs p"
  shows "rc_baseMs p \<le> rc_exact i p \<and> rc_exact i p \<le> rc_maxMs p"
proof -
  have "rc_baseMs p * 1 \<le> rc_baseMs p * 2 ^ nat (min 20 (max 0 i))" using assms(1) by (intro mult_left_mono) auto
  then show ?thesis using assms(2) by (simp add: rc_exact_def)
qed

lemma delay_exact: "delayMs draw i False p = applyJitter draw (rc_exact i p) p"
  by (auto simp: delayMs_def Let_def rc_exact_def min_def max_def)

lemma trunc_le: "0 \<le> q \<Longrightarrow> q \<le> of_int n \<Longrightarrow> trunc_rat q \<le> n"
  by (simp add: trunc_rat_def) linarith

lemma jitter_range:
  assumes "1 \<le> d" "d < 2 ^ 52" "draw = Fin r" "0 \<le> r" "r \<le> 2"
  shows "1 \<le> applyJitter draw d p \<and> applyJitter draw d p \<le> 2 * d"
proof -
  have d: "of_integer d = Fin (of_int d)" using representable_int [of d] assms(1,2) by (simp add: of_integer_def representable_def)
  have lo: "dle (Fin 0) (rnd (of_int d * r))" using assms by (intro rnd_nonneg) simp
  have rep: "representable (of_int (2 * d))" using assms(1,2) by (intro representable_int) simp
  have le: "of_int d * r \<le> of_int (2 * d)" using mult_left_mono [of r 2 "of_int d :: rat"] assms by simp
  have hi: "dle (rnd (of_int d * r)) (Fin (of_int (2 * d)))" using rnd_le_representable [OF rep le] .
  obtain q where q: "rnd (of_int d * r) = Fin q" "0 \<le> q" "q \<le> of_int (2 * d)" using dle_finD [OF lo hi] by blast
  then show ?thesis using assms(1,3) trunc_le [OF q(2,3)] by (simp add: applyJitter_def d)
qed

text \<open>The wait before a reconnect attempt: without jitter it is the base doubled once per attempt and cut off at the maximum, so it never
  shrinks from one attempt to the next and stays between base and maximum; with jitter, whatever factor up to two the
  generator draws, it is at least one millisecond and at most twice the exact wait.\<close>

theorem reconnect_delay_bounded:
  assumes "0 < rc_baseMs p" "rc_baseMs p \<le> rc_maxMs p" "rc_maxMs p < 2 ^ 52" "0 \<le> r" "r \<le> 2"
  shows "(dle (rc_jitterRatio p) (Fin 0) \<longrightarrow>
      delayMs (Fin r) i False p = min (rc_maxMs p) (rc_baseMs p * 2 ^ nat (min 20 (max 0 i))) \<and>
      (\<forall>j \<ge> i. delayMs (Fin r) i False p \<le> delayMs (Fin r) j False p)) \<and>
    1 \<le> delayMs (Fin r) i False p \<and> delayMs (Fin r) i False p \<le> 2 * rc_maxMs p"
proof -
  note range = rc_exact_range [OF assms(1,2), of i]
  have "1 \<le> rc_exact i p" "rc_exact i p < 2 ^ 52" using range assms(1,3) by simp_all
  note jit = jitter_range [OF this refl assms(4,5), of p]
  have "delayMs (Fin r) j False p = rc_exact j p" if "dle (rc_jitterRatio p) (Fin 0)" for j using that by (simp add: delay_exact applyJitter_def)
  then show ?thesis using jit range rc_exact_mono [of p i] assms(1) by (simp add: delay_exact) (auto simp: rc_exact_def)
qed

theorem reconnect_delay_bounded_witness:
  "1 \<le> delayMs (Fin (11 / 10)) 3 False ReconnectPolicy_default \<and> delayMs (Fin (11 / 10)) 3 False ReconnectPolicy_default \<le> 60000"
  using reconnect_delay_bounded [of ReconnectPolicy_default "11 / 10" 3] by (simp add: ReconnectPolicy_default_def)

section \<open>The heartbeat never expires\<close>

datatype sio_event = Tick TimestampMs TimestampMs TimestampMs | Frame TimestampMs TimestampMs bytes

fun sio_exec :: "'s send_fn \<Rightarrow> sio_event \<Rightarrow> SocketIoClient \<times> 's \<Rightarrow> (SocketIoClient \<times> 's) option" where
  "sio_exec send (Tick t0 t1 t2) (c, s) = sio_tick send t0 t1 t2 c s"
| "sio_exec send (Frame t0 t1 data) (c, s) = map_option snd (sio_onBinaryFrame send t0 t1 data c s)"

fun sio_run :: "'s send_fn \<Rightarrow> sio_event list \<Rightarrow> SocketIoClient \<times> 's \<Rightarrow> (SocketIoClient \<times> 's) option" where
  "sio_run send [] st = Some st"
| "sio_run send (e # es) st = do { st \<leftarrow> sio_exec send e st; sio_run send es st }"

text \<open>A tick takes at most the time by which the timeout exceeds the interval.\<close>

fun brisk :: "int \<Rightarrow> sio_event \<Rightarrow> bool" where
  "brisk slack (Tick t0 t1 t2) \<longleftrightarrow> t0 \<le> t1 \<and> t2 - t0 \<le> slack"
| "brisk slack (Frame t0 t1 data) \<longleftrightarrow> True"

definition hb_quiet :: "int \<Rightarrow> int \<Rightarrow> SocketIoClient \<Rightarrow> bool" where
  "hb_quiet i t c \<longleftrightarrow> si_has_send c \<and> hb_interval_ms (si_heartbeat c) = i \<and> hb_timeout_ms (si_heartbeat c) = t \<and> \<not> hb_timedOut (si_heartbeat c)"

lemmas hb_defs = hb_onPingSent_def hb_onPongReceived_def hb_check_def hb_late_def hb_shouldPing_def

lemma quiet_tick:
  assumes "sio_tick send t0 t1 t2 c s = Some (c', s')" "hb_quiet i t c" "t0 \<le> t1" "t2 - t0 \<le> t - i" "0 \<le> i"
  shows "hb_quiet i t c'"
  using assms by (auto simp: sio_tick_def hb_quiet_def hb_defs Let_def split: if_splits prod.splits Option.bind_splits)

lemma quiet_frame:
  assumes "sio_onBinaryFrame send t0 t1 data c s = Some (calls, c', s')" "hb_quiet i t c"
  shows "hb_quiet i t c'"
  using assms by (auto simp: sio_onBinaryFrame_def sio_ping_def sio_open_def hb_quiet_def hb_defs Let_def split: if_splits prod.splits Option.bind_splits)

lemma quiet_exec:
  assumes "sio_exec send e (c, s) = Some (c', s')" "hb_quiet i t c" "brisk (t - i) e" "0 \<le> i"
  shows "hb_quiet i t c'"
proof (cases e)
  case (Tick t0 t1 t2)
  then show ?thesis using assms quiet_tick [of send t0 t1 t2 c s c' s' i t] by simp
next
  case (Frame t0 t1 data)
  then obtain calls where "sio_onBinaryFrame send t0 t1 data c s = Some (calls, c', s')" using assms(1) by auto
  then show ?thesis by (rule quiet_frame [OF _ assms(2)])
qed

lemma quiet_run: "sio_run send es (c, s) = Some (c', s') \<Longrightarrow> hb_quiet i t c \<Longrightarrow> list_all (brisk (t - i)) es \<Longrightarrow> 0 \<le> i \<Longrightarrow> hb_quiet i t c'"
proof (induction es arbitrary: c s)
  case (Cons e es)
  then obtain c1 s1 where e: "sio_exec send e (c, s) = Some (c1, s1)" "sio_run send es (c1, s1) = Some (c', s')"
    by (auto split: Option.bind_splits)
  then show ?case using Cons.IH [OF e(2)] quiet_exec [OF e(1)] Cons.prems by auto
qed simp

text \<open>C36: The heartbeat of the Socket.IO client never reports a dead peer: with the interval of 25 and the timeout of 60 seconds the sources
  configure, over any run of ticks that take less than 35 seconds each and any frames or silence between them, the timeout flag stays
  off, since a tick sends a new ping, and so restarts the clock the timeout is measured by, before it checks.\<close>

theorem heartbeat_never_expires:
  assumes "sio_run send es (SocketIoClient_new\<lparr>si_has_send := True, si_connected := up\<rparr>, s) = Some (c', s')" "list_all (brisk 35000) es"
  shows "\<not> hb_timedOut (si_heartbeat c')"
proof -
  have "hb_quiet 25000 60000 (SocketIoClient_new\<lparr>si_has_send := True, si_connected := up\<rparr>)"
    by (simp add: hb_quiet_def SocketIoClient_new_def HeartbeatMonitor_new_def)
  then show ?thesis using quiet_run [OF assms(1), of 25000 60000] assms(2) by (simp add: hb_quiet_def)
qed

theorem heartbeat_never_expires_witness:
  "\<exists>c' s'. sio_run (\<lambda>data log. Some (True, log @ [data])) [Tick 1000 1000 1000, Tick 100000 100000 100000, Tick 900000 900000 900000]
      (SocketIoClient_new\<lparr>si_has_send := True, si_connected := True\<rparr>, []) = Some (c', s') \<and>
    s' = [encodePing, encodePing, encodePing] \<and> \<not> hb_timedOut (si_heartbeat c')"
proof -
  let ?run = "sio_run (\<lambda>data log. Some (True, log @ [data])) [Tick 1000 1000 1000, Tick 100000 100000 100000, Tick 900000 900000 900000]
      (SocketIoClient_new\<lparr>si_has_send := True, si_connected := True\<rparr>, [])"
  have "\<exists>c'. ?run = Some (c', [encodePing, encodePing, encodePing])"
    by (simp add: sio_tick_def SocketIoClient_new_def HeartbeatMonitor_new_def hb_defs)
  then obtain c' where c: "?run = Some (c', [encodePing, encodePing, encodePing])" by blast
  show ?thesis using heartbeat_never_expires [OF c] c by simp
qed

section \<open>Reconnecting a session\<close>

lemma set_simps [frame_simps]:
  "se_conn (se_set f se) = f (se_conn se)" "se_metrics (se_set f se) = se_metrics se" "se_running (se_set f se) = se_running se"
  "se_fails (se_set f se) = se_fails se" "se_pump (se_set f se) = se_pump se"
  by (simp_all add: se_set_def)

lemma report_simps [frame_simps]: "se_conn (reportError m se) = se_conn se" "se_running (reportError m se) = se_running se" "se_fails (reportError m se) = se_fails se"
  by (simp_all add: reportError_def)

text \<open>What sending never changes.\<close>

definition wc_link :: "WebSocketSession \<Rightarrow> WebSocketConfig \<times> bool \<times> bool \<times> bool \<times> bool" where
  "wc_link se = (let c = se_conn se in (wc_cfg c, wc_beast c, wc_connected c, wc_stream c, wc_thread c))"

lemma send_link: "se_send b now data (se, w) = Some (ok, se', w') \<Longrightarrow> wc_link se' = wc_link se"
  by (auto simp: se_send_def wc_send_def wc_link_def wc_log_def Let_def frame_simps split: prod.splits if_splits option.splits)

interpretation link: quiet_send "se_send b now" "\<lambda>st. wc_link (fst st) = l"
  by unfold_locales (auto dest: send_link)

text \<open>Once started, a Beast session has its reading thread, and losing the connection does not take it away.\<close>

lemma start_thread:
  assumes "se_start b now (WebSocketSession_new cfg True) c w = Some (Inr (), se, c', w')"
  shows "wc_beast (se_conn se) \<and> wc_connected (se_conn se) \<and> wc_thread (se_conn se) \<and> wc_cfg (se_conn se) = cfg \<and> se_fails se = 0"
proof -
  let ?new = "(WebSocketSession_new cfg True)\<lparr>se_running := True\<rparr>"
  obtain r1 se1 w1 where one: "wc_connect b now ?new w = Some (r1, se1, w1)" and ok1: "Result_ok r1"
    using assms by (auto simp: se_start_def doConnect_def WebSocketSession_new_def split: Option.bind_splits if_splits)
  have conn: "wc_link se1 = (cfg, True, True, True, True)"
    using one ok1 by (auto simp: wc_connect_def WebSocketSession_new_def Let_def wc_up_def wc_link_def frame_simps split: prod.splits handshake.splits if_splits)
  obtain j calls se2 w2 where two: "joinCrashNamespace (se_send b now) c (se1, w1) = Some (j, calls, c', se2, w2)" and
      se: "se = se2\<lparr>se_connected := True, se_fails := 0, se_pump := ws_auto_reconnect (wc_cfg (se_conn se2))\<rparr>"
    using assms one ok1 by (auto simp: se_start_def doConnect_def WebSocketSession_new_def split: Option.bind_splits if_splits prod.splits)
  have "wc_link se2 = (cfg, True, True, True, True)" using link.join_keeps [OF two] conn by simp
  then show ?thesis by (simp add: se wc_link_def Let_def)
qed

text \<open>C37: A session that reconnects by itself brings the process down: after it was started over Beast and its connection was then
  lost, the first attempt whose handshake succeeds assigns a new reading thread over the old one, which ended but was never
  joined, and C++ terminates the process there.\<close>

theorem reconnect_terminates_process:
  assumes "se_start b now (WebSocketSession_new cfg True) c w = Some (Inr (), se, c', w')"
    and "0 < ws_max_reconnect_attempts cfg" and "\<And>h p t u v. fst (bo_open b h p t u v) = Hs_Up"
  shows "attemptReconnect b now2 (wc_lost reported se) c2 w2 = None"
proof -
  note st = start_thread [OF assms(1)]
  define lost where "lost = wc_lost reported se"
  have l: "wc_beast (se_conn lost)" "\<not> wc_connected (se_conn lost)" "wc_thread (se_conn lost)" "wc_cfg (se_conn lost) = cfg" "se_fails lost = 0"
    using st by (simp_all add: lost_def wc_lost_def Let_def frame_simps split: option.splits)
  define again where "again = lost\<lparr>se_fails := se_fails lost + 1, se_reconnects := se_reconnects lost + 1,
    se_metrics := (se_metrics lost)\<lparr>wm_reconnects := wm_reconnects (se_metrics lost) + 1\<rparr>\<rparr>"
  have "se_conn again = se_conn lost" by (simp add: again_def)
  then have "wc_connect b now2 again w2 = None" using l(1-3) by (simp add: wc_connect_def Let_def case_prod_beta assms(3))
  then have "doConnect b now2 again c2 w2 = None" by (simp add: doConnect_def)
  then show ?thesis unfolding lost_def [symmetric] using l(4,5) assms(2) by (simp add: attemptReconnect_def Let_def again_def)
qed

definition demo_boost :: "nat Boost" where
  "demo_boost = \<lparr>bo_open = (\<lambda>_ _ _ _ w. (Hs_Up, w + 1)), bo_write = (\<lambda>_ w. (None, w)), bo_close = (\<lambda>w. w)\<rparr>"

lemma demo_session: "\<exists>se c' w'. se_start demo_boost 1 (WebSocketSession_new WebSocketConfig_default True)
      (SocketIoClient_new\<lparr>si_has_send := True\<rparr>) 0 = Some (Inr (), se, c', w')"
  by (simp add: se_start_def doConnect_def wc_connect_def demo_boost_def WebSocketSession_new_def wc_up_def joinCrashNamespace_def SocketIoClient_new_def
      se_send_def wc_send_def wc_log_def Let_def frame_simps)

theorem reconnect_terminates_process_witness:
  "\<exists>se c' w'. se_start demo_boost 1 (WebSocketSession_new WebSocketConfig_default True) (SocketIoClient_new\<lparr>si_has_send := True\<rparr>) 0 =
      Some (Inr (), se, c', w') \<and> attemptReconnect demo_boost 9 (wc_lost (Some ''reset'') se) c' w' = None"
proof -
  obtain se c' w' where s: "se_start demo_boost 1 (WebSocketSession_new WebSocketConfig_default True) (SocketIoClient_new\<lparr>si_has_send := True\<rparr>) 0 =
      Some (Inr (), se, c', w')" using demo_session by blast
  have "attemptReconnect demo_boost 9 (wc_lost (Some ''reset'') se) c' w' = None"
    by (rule reconnect_terminates_process [OF s]) (simp_all add: WebSocketConfig_default_def demo_boost_def)
  then show ?thesis using s by blast
qed

end
