(* ===== verification/Socket.thy ===== *)
theory Socket
  imports Transport Router Decoder
begin

text \<open>
  The socket of the crash game, \<open>NativeBcGameSocket\<close> (\<open>ingestion/native_bc_socket.hpp\<close>): it owns the Socket.IO client and the
  WebSocket client, turns packets into events for the router and the owner's handlers, and has a status, a watchdog and a
  reconnect worker. The decoder and the router, which it shares with the application, are part of the state here.

  The handlers of the owner are the list of the calls they got. The readings of the clocks, the draws of the signer and Boost come from
  outside; the watchdog, the reconnect worker and the reading thread are steps that may come in any order. \<^const>\<open>None\<close> is again a run C++ gives
  no meaning: a call of the send function of a session that was destroyed, or a worker that joins itself.
\<close>

section \<open>State\<close>

datatype NativeSocketStatus = Ns_Stopped | Ns_Connecting | Ns_SocketOpen | Ns_Connected | Ns_Degraded | Ns_Reconnecting | Ns_WafBlocked

fun status_text :: "NativeSocketStatus \<Rightarrow> string" where
  "status_text Ns_Stopped = ''stopped''"
| "status_text Ns_Connecting = ''connecting''"
| "status_text Ns_SocketOpen = ''socket_open''"
| "status_text Ns_Connected = ''connected''"
| "status_text Ns_Degraded = ''degraded''"
| "status_text Ns_Reconnecting = ''reconnecting''"
| "status_text Ns_WafBlocked = ''waf_blocked''"

record NativeSocketConfig =
  nc_host :: string
  nc_path :: string
  nc_nsp :: string
  nc_reconnectBaseMs :: int
  nc_reconnectMaxMs :: int
  nc_wafBackoffMs :: int
  nc_degradedMs :: int
  nc_staleMs :: int
  nc_pingMs :: int
  nc_maxReconnectAttempts :: int

definition NativeSocketConfig_default :: NativeSocketConfig where
  "NativeSocketConfig_default =
     \<lparr>nc_host = ''socketv4.bc.game'', nc_path = ''/socket.io/'', nc_nsp = ''/g/cm'', nc_reconnectBaseMs = 150, nc_reconnectMaxMs = 1500,
      nc_wafBackoffMs = 12000, nc_degradedMs = 15000, nc_staleMs = 90000, nc_pingMs = 5000, nc_maxReconnectAttempts = 100\<rparr>"

text \<open>The reconnect worker: none yet, waiting before it starts the socket, starting it, or through but not joined.\<close>

datatype worker = Wk_none | Wk_waiting int | Wk_starting | Wk_through

datatype nb_call = On_event CrashEvent | On_status NativeSocketStatus string

record NativeBcGameSocket =
  nb_cfg :: NativeSocketConfig
  nb_decoder :: EventDecoder
  nb_router :: EventRouter
  nb_sign :: "NativeSign option"
  nb_worker :: worker
  nb_sio :: SocketIoClient
  nb_client :: "WebSocketClient option"
  nb_calls :: "nb_call list"
  nb_current_game_id :: string
  nb_last_error :: string
  nb_status :: NativeSocketStatus
  nb_last_event_ms :: TimestampMs
  nb_last_ed_ms :: TimestampMs
  nb_last_frame_ms :: TimestampMs
  nb_joined_at_ms :: TimestampMs
  nb_frames_rx :: u64
  nb_events_emitted :: u64
  nb_reconnects :: u64
  nb_intentional_stop :: bool
  nb_watchdog :: bool

definition NativeBcGameSocket_new :: "EventDecoder \<Rightarrow> EventRouter \<Rightarrow> NativeSign option \<Rightarrow> NativeSocketConfig \<Rightarrow> NativeBcGameSocket" where
  "NativeBcGameSocket_new decoder router sign cfg =
     \<lparr>nb_cfg = cfg, nb_decoder = decoder, nb_router = router, nb_sign = sign, nb_worker = Wk_none,
      nb_sio = SocketIoClient_new\<lparr>si_has_packet := True\<rparr>, nb_client = None, nb_calls = [], nb_current_game_id = [], nb_last_error = [],
      nb_status = Ns_Stopped, nb_last_event_ms = 0, nb_last_ed_ms = 0, nb_last_frame_ms = 0, nb_joined_at_ms = 0, nb_frames_rx = 0,
      nb_events_emitted = 0, nb_reconnects = 0, nb_intentional_stop = False, nb_watchdog = False\<rparr>"

record 'w SocketOutside =
  sk_ms :: "nat list \<Rightarrow> TimestampMs"
  sk_ns :: "nat list \<Rightarrow> NanoTime"
  sk_exp :: "double \<Rightarrow> double"
  sk_draws :: "nat list \<Rightarrow> u64 list"
  sk_sign :: "'w SignOutside"
  sk_boost :: "'w Boost"

record ConnectionHealth =
  ch_connected :: bool
  ch_lastMessageMs :: TimestampMs
  ch_reconnects :: u64
  ch_lastError :: string

definition nb_health :: "NativeBcGameSocket \<Rightarrow> ConnectionHealth" where
  "nb_health st =
     \<lparr>ch_connected = (nb_status st = Ns_Connected \<or> nb_status st = Ns_Degraded), ch_lastMessageMs = nb_last_event_ms st,
      ch_reconnects = nb_reconnects st, ch_lastError = nb_last_error st\<rparr>"

section \<open>Packets\<close>

definition setStatus :: "NativeSocketStatus \<Rightarrow> string \<Rightarrow> NativeBcGameSocket \<Rightarrow> NativeBcGameSocket" where
  "setStatus s detail st =
     (let prev = nb_status st; st = st\<lparr>nb_status := s\<rparr>
      in if prev = s \<and> detail = [] then st else st\<lparr>nb_last_error := detail, nb_calls := nb_calls st @ [On_status s detail]\<rparr>)"

text \<open>The send function the session put into the Socket.IO client.\<close>

definition nb_send :: "'w Boost \<Rightarrow> TimestampMs \<Rightarrow> (WebSocketClient option \<times> 'w) send_fn" where
  "nb_send b now data s = do {
     cl \<leftarrow> fst s;
     se \<leftarrow> cl_session cl;
     (case wc_send b now data (se, snd s) of (r, se, w) \<Rightarrow> Some (Result_ok r, Some (cl\<lparr>cl_session := Some se\<rparr>), w))
   }"

definition nb_tracked :: "string \<Rightarrow> bool" where
  "nb_tracked e \<longleftrightarrow> e \<in> {''pr'', ''bg'', ''pg'', ''ed'', ''st''}"

text \<open>A packet that connects a namespace: the room is joined once.\<close>

definition nb_connect_packet :: "'w SocketOutside \<Rightarrow> nat list \<Rightarrow> SocketIoPacket \<Rightarrow> NativeBcGameSocket \<Rightarrow> 'w \<Rightarrow> (NativeBcGameSocket \<times> 'w) option" where
  "nb_connect_packet x p pkt st w =
     (if (pk_nsp pkt = nc_nsp (nb_cfg st) \<or> pk_nsp pkt = []) \<and> \<not> si_joined (nb_sio st) then do {
        (j, _, c, cl, w) \<leftarrow> joinCrashNamespace (nb_send (sk_boost x) (sk_ms x (0 # p))) (nb_sio st) (nb_client st, w);
        let st = st\<lparr>nb_sio := c, nb_client := cl\<rparr>;
        Some (if Result_ok j then (setStatus Ns_Connected ''joined'' st)\<lparr>nb_joined_at_ms := sk_ms x (1 # p)\<rparr> else st, w)
      } else Some (st, w))"

text \<open>An event of the game.\<close>

definition nb_event :: "'w SocketOutside \<Rightarrow> nat list \<Rightarrow> CrashEvent \<Rightarrow> NativeBcGameSocket \<Rightarrow> NativeBcGameSocket" where
  "nb_event x p ev st =
     (let st = st\<lparr>nb_last_event_ms := sk_ms x (0 # p)\<rparr>;
          st = (if ev_kind ev = Ev_End then
                  let st = st\<lparr>nb_last_ed_ms := sk_ms x (1 # p)\<rparr>
                  in if nb_status st \<in> {Ns_SocketOpen, Ns_Degraded, Ns_Connected} then setStatus Ns_Connected ''ed'' st else st
                else st);
          st = (if ev_gameId ev \<noteq> [] then st\<lparr>nb_current_game_id := ev_gameId ev\<rparr> else st)
      in st\<lparr>nb_router := snd (er_route (sk_ns x (0 # p)) (sk_ns x (1 # p)) ev (nb_router st)), nb_events_emitted := nb_events_emitted st + 1,
            nb_calls := nb_calls st @ [On_event ev]\<rparr>)"

definition onPacket :: "'w SocketOutside \<Rightarrow> nat list \<Rightarrow> SocketIoPacket \<Rightarrow> NativeBcGameSocket \<Rightarrow> 'w \<Rightarrow> (NativeBcGameSocket \<times> 'w) option" where
  "onPacket x p pkt st w =
     (if pk_kind pkt = Pk_Connect then nb_connect_packet x (0 # p) pkt st w
      else if pk_kind pkt \<noteq> Pk_Event \<or> \<not> nb_tracked (pk_event pkt) then Some (st, w)
      else (case decodeEventPacket (sk_exp x) (sk_ns x (1 # p)) (sk_ms x (1 # p)) pkt Src_NativeSocket (sk_ns x (2 # p)) (nb_decoder st) of
              (r, d) \<Rightarrow>
                let st = st\<lparr>nb_decoder := d\<rparr>
                in Some (case r of Inl _ \<Rightarrow> st | Inr ev \<Rightarrow> nb_event x (2 # p) ev st, w)))"

text \<open>The handlers the socket put into the Socket.IO client.\<close>

fun nb_handle :: "'w SocketOutside \<Rightarrow> nat list \<Rightarrow> sio_call list \<Rightarrow> NativeBcGameSocket \<Rightarrow> 'w \<Rightarrow> (NativeBcGameSocket \<times> 'w) option" where
  "nb_handle x p [] st w = Some (st, w)"
| "nb_handle x p (Call_state up # cs) st w = nb_handle x (1 # p) cs (if up then st else setStatus Ns_Reconnecting ''transport down'' st) w"
| "nb_handle x p (Call_packet pkt # cs) st w = do { (st, w) \<leftarrow> onPacket x (0 # p) pkt st w; nb_handle x (1 # p) cs st w }"
| "nb_handle x p (Call_frame data # cs) st w = nb_handle x (1 # p) cs st w"

definition nb_feed :: "'w SocketOutside \<Rightarrow> nat list \<Rightarrow> bytes \<Rightarrow> NativeBcGameSocket \<Rightarrow> 'w \<Rightarrow> (NativeBcGameSocket \<times> 'w) option" where
  "nb_feed x p data st w = do {
     (calls, c, cl, w) \<leftarrow> sio_onBinaryFrame (nb_send (sk_boost x) (sk_ms x (0 # p))) (sk_ms x (1 # p)) (sk_ms x (2 # p)) data (nb_sio st) (nb_client st, w);
     nb_handle x (3 # p) calls (st\<lparr>nb_sio := c, nb_client := cl\<rparr>) w
   }"

text \<open>Frames handed in by the owner.\<close>

definition onRawFrame :: "'w SocketOutside \<Rightarrow> nat list \<Rightarrow> bytes \<Rightarrow> NativeBcGameSocket \<Rightarrow> 'w \<Rightarrow> (NativeBcGameSocket \<times> 'w) option" where
  "onRawFrame x p data st w =
     (let st = st\<lparr>nb_frames_rx := nb_frames_rx st + 1, nb_last_frame_ms := sk_ms x (0 # p)\<rparr>;
          st = (if isOpenFrame data then setStatus Ns_SocketOpen ''engine open'' st else st)
      in nb_feed x (1 # p) data st w)"

text \<open>Frames from the transport: the session hands them straight to the Socket.IO client.\<close>

definition nb_data :: "'w SocketOutside \<Rightarrow> nat list \<Rightarrow> bytes \<Rightarrow> NativeBcGameSocket \<Rightarrow> 'w \<Rightarrow> (NativeBcGameSocket \<times> 'w) option" where
  "nb_data x p data st w = do {
     cl \<leftarrow> nb_client st;
     se \<leftarrow> cl_session cl;
     let se = se\<lparr>se_metrics := wm_onRx (sk_ms x (0 # p)) (length data) (se_metrics se)\<rparr>;
     let st = st\<lparr>nb_client := Some (cl\<lparr>cl_session := Some se\<rparr>)\<rparr>;
     if data = [] then Some (st, w) else nb_feed x (1 # p) data st w
   }"

definition nb_lost :: "string option \<Rightarrow> NativeBcGameSocket \<Rightarrow> NativeBcGameSocket" where
  "nb_lost reported st = st\<lparr>nb_client := map_option (\<lambda>cl. cl\<lparr>cl_session := map_option (wc_lost reported) (cl_session cl)\<rparr>) (nb_client st)\<rparr>"

section \<open>Starting and reconnecting\<close>

definition nb_delay :: "bool \<Rightarrow> NativeBcGameSocket \<Rightarrow> int" where
  "nb_delay waf st =
     (if waf then nc_wafBackoffMs (nb_cfg st)
      else min (nc_reconnectMaxMs (nb_cfg st)) (nc_reconnectBaseMs (nb_cfg st) * (1 + int (unat (nb_reconnects st mod 10)))))"

text \<open>Dropping the transport.\<close>

definition nb_drop :: "'w Boost \<Rightarrow> NativeBcGameSocket \<Rightarrow> 'w \<Rightarrow> NativeBcGameSocket \<times> 'w" where
  "nb_drop b st w =
     (case nb_client st of None \<Rightarrow> (st, w) | Some cl \<Rightarrow> (st\<lparr>nb_client := None\<rparr>, snd (cl_stop b cl w)))"

text \<open>The previous worker is waited for with the stop flag set, so that it does not start the socket, and the flag is cleared again.\<close>

definition scheduleReconnect :: "'w SocketOutside \<Rightarrow> bool \<Rightarrow> NativeBcGameSocket \<Rightarrow> 'w \<Rightarrow> (NativeBcGameSocket \<times> 'w) option" where
  "scheduleReconnect x waf st w =
     (if nb_intentional_stop st then Some (st, w)
      else let st = setStatus (if waf then Ns_WafBlocked else Ns_Reconnecting) (if waf then ''waf'' else ''reconnect'') st;
               st = st\<lparr>nb_reconnects := nb_reconnects st + 1\<rparr>;
               (st, w) = nb_drop (sk_boost x) st w
           in if nb_worker st = Wk_starting then None else Some (st\<lparr>nb_worker := Wk_waiting (nb_delay waf st)\<rparr>, w))"

text \<open>The configuration of the client; the query is the client's own.\<close>

definition nb_wcfg :: "NativeBcGameSocket \<Rightarrow> WebSocketConfig" where
  "nb_wcfg st =
     WebSocketConfig_default\<lparr>ws_host := nc_host (nb_cfg st), ws_path := nc_path (nb_cfg st), ws_auto_reconnect := False,
       ws_reconnect_base_ms := nc_reconnectBaseMs (nb_cfg st), ws_reconnect_max_ms := nc_reconnectMaxMs (nb_cfg st)\<rparr>"

definition nb_signed :: "'w SocketOutside \<Rightarrow> nat list \<Rightarrow> NativeBcGameSocket \<Rightarrow> 'w \<Rightarrow> SocketSignature option \<times> NativeBcGameSocket \<times> 'w" where
  "nb_signed x p st w =
     (case nb_sign st of
        None \<Rightarrow> (None, st, w)
      | Some s \<Rightarrow> (case signSocketQuery (sk_sign x) (sk_ms x (0 # p)) (sk_ms x (1 # p)) (sk_draws x p) s w of
                     (sig, s, w) \<Rightarrow> (Some sig, st\<lparr>nb_sign := Some s\<rparr>, w)))"

definition nb_live :: "NativeBcGameSocket \<Rightarrow> bool" where
  "nb_live st \<longleftrightarrow> nb_status st \<noteq> Ns_Stopped \<and> nb_status st \<noteq> Ns_WafBlocked"

definition nb_start :: "'w SocketOutside \<Rightarrow> nat list \<Rightarrow> NativeBcGameSocket \<Rightarrow> 'w \<Rightarrow> (unit Result \<times> NativeBcGameSocket \<times> 'w) option" where
  "nb_start x p st w =
     (if nb_live st then Some (Inr (), st, w)
      else let st = setStatus Ns_Connecting ''start'' (st\<lparr>nb_intentional_stop := False\<rparr>);
               (_, st, w) = nb_signed x (0 # p) st w;
               (sig, st, w) = nb_signed x (1 # p) st w
           in do {
             (r, cl, c, w) \<leftarrow> cl_start (sk_boost x) (sk_ms x (2 # p)) (WebSocketClient_new (nb_wcfg st) sig) (nb_sio st) w;
             let st = st\<lparr>nb_client := Some cl, nb_sio := c\<rparr>;
             (case r of
                Inl e \<Rightarrow> do {
                  (st, w) \<leftarrow> scheduleReconnect x False (setStatus Ns_Reconnecting (err_message e) st) w;
                  Some (r, st, w)
                }
              | Inr _ \<Rightarrow>
                  let st = setStatus Ns_SocketOpen ''transport up'' st;
                      st = (if si_joined (nb_sio st)
                            then (setStatus Ns_Connected ''namespace joined'' st)\<lparr>nb_joined_at_ms := sk_ms x (3 # p)\<rparr> else st)
                  in Some (Inr (), st\<lparr>nb_watchdog := True\<rparr>, w))
           })"

definition nb_stop :: "'w SocketOutside \<Rightarrow> NativeBcGameSocket \<Rightarrow> 'w \<Rightarrow> NativeBcGameSocket \<times> 'w" where
  "nb_stop x st w =
     (case nb_drop (sk_boost x) (st\<lparr>nb_intentional_stop := True, nb_watchdog := False\<rparr>) w of (st, w) \<Rightarrow> (setStatus Ns_Stopped ''stop'' st, w))"

text \<open>The worker after its wait.\<close>

definition nb_fire :: "'w SocketOutside \<Rightarrow> nat list \<Rightarrow> NativeBcGameSocket \<Rightarrow> 'w \<Rightarrow> (NativeBcGameSocket \<times> 'w) option" where
  "nb_fire x p st w =
     (if nb_intentional_stop st then Some (st\<lparr>nb_worker := Wk_through\<rparr>, w)
      else do { (_, st, w) \<leftarrow> nb_start x p (st\<lparr>nb_worker := Wk_starting\<rparr>) w; Some (st\<lparr>nb_worker := Wk_through\<rparr>, w) })"

section \<open>The watchdog\<close>

definition checkDegraded :: "TimestampMs \<Rightarrow> NativeBcGameSocket \<Rightarrow> NativeBcGameSocket" where
  "checkDegraded now st =
     (if nb_status st \<noteq> Ns_Connected \<and> nb_status st \<noteq> Ns_Degraded then st
      else if nb_last_event_ms st = 0 then st
      else if now - nb_last_event_ms st > nc_degradedMs (nb_cfg st) \<and> nb_status st \<noteq> Ns_Degraded then setStatus Ns_Degraded ''event age'' st
      else st)"

definition checkStale :: "'w SocketOutside \<Rightarrow> TimestampMs \<Rightarrow> NativeBcGameSocket \<Rightarrow> 'w \<Rightarrow> (NativeBcGameSocket \<times> 'w) option" where
  "checkStale x now st w =
     (if \<not> nb_live st \<or> nb_last_frame_ms st = 0 then Some (st, w)
      else if now - nb_last_frame_ms st > nc_staleMs (nb_cfg st) then scheduleReconnect x False st w
      else Some (st, w))"

text \<open>One turn of its loop.\<close>

definition nb_watch :: "'w SocketOutside \<Rightarrow> nat list \<Rightarrow> NativeBcGameSocket \<Rightarrow> 'w \<Rightarrow> (NativeBcGameSocket \<times> 'w) option" where
  "nb_watch x p st w =
     (if nb_intentional_stop st then Some (st, w)
      else do {
        (st, w) \<leftarrow> checkStale x (sk_ms x (1 # p)) (checkDegraded (sk_ms x (0 # p)) st) w;
        (c, cl, w) \<leftarrow> sio_tick (nb_send (sk_boost x) (sk_ms x (2 # p))) (sk_ms x (3 # p)) (sk_ms x (4 # p)) (sk_ms x (5 # p)) (nb_sio st) (nb_client st, w);
        Some (st\<lparr>nb_sio := c, nb_client := cl\<rparr>, w)
      })"

section \<open>Down for good\<close>

definition cl_down :: "WebSocketClient option \<Rightarrow> bool" where
  "cl_down cl \<longleftrightarrow> (case cl of None \<Rightarrow> True | Some c \<Rightarrow> (case cl_session c of None \<Rightarrow> True | Some se \<Rightarrow> \<not> wc_connected (se_conn se)))"

lemma nb_send_down:
  assumes "nb_send b now data s = Some (ok, s')" "cl_down (fst s)"
  shows "cl_down (fst s')"
proof -
  obtain cl se where c: "fst s = Some cl" "cl_session cl = Some se" using assms(1) by (auto simp: nb_send_def split: Option.bind_splits)
  obtain r se' w' where q: "wc_send b now data (se, snd s) = (r, se', w')" by (metis prod_cases3)
  have "se_send b now data (se, snd s) = Some (Result_ok r, se', w')" by (simp add: se_send_def q)
  from send_link [OF this] have "wc_connected (se_conn se') = wc_connected (se_conn se)" by (simp add: wc_link_def Let_def)
  then show ?thesis using assms c q by (auto simp: nb_send_def cl_down_def)
qed

interpretation down: quiet_send "nb_send b now" "\<lambda>s. cl_down (fst s)"
  by unfold_locales (rule nb_send_down)

definition nb_off :: "NativeBcGameSocket \<Rightarrow> bool" where
  "nb_off st \<longleftrightarrow> nb_live st \<and> cl_down (nb_client st)"

lemma setStatus_simps [frame_simps]:
  "nb_status (setStatus s d st) = s" "nb_client (setStatus s d st) = nb_client st" "nb_sio (setStatus s d st) = nb_sio st"
  "nb_worker (setStatus s d st) = nb_worker st" "nb_cfg (setStatus s d st) = nb_cfg st" "nb_intentional_stop (setStatus s d st) = nb_intentional_stop st"
  "nb_events_emitted (setStatus s d st) = nb_events_emitted st" "nb_decoder (setStatus s d st) = nb_decoder st" "nb_router (setStatus s d st) = nb_router st"
  "nb_last_event_ms (setStatus s d st) = nb_last_event_ms st" "nb_last_frame_ms (setStatus s d st) = nb_last_frame_ms st"
  "nb_reconnects (setStatus s d st) = nb_reconnects st" "nb_sign (setStatus s d st) = nb_sign st"
  by (simp_all add: setStatus_def Let_def)

lemma off_setStatus: "s \<noteq> Ns_Stopped \<Longrightarrow> s \<noteq> Ns_WafBlocked \<Longrightarrow> nb_off st \<Longrightarrow> nb_off (setStatus s d st)"
  by (simp add: nb_off_def nb_live_def frame_simps)

lemma off_client: "nb_off st \<Longrightarrow> cl_down cl \<Longrightarrow> nb_off (st\<lparr>nb_sio := c, nb_client := cl\<rparr>)"
  by (simp add: nb_off_def nb_live_def)

lemma off_event: "nb_off st \<Longrightarrow> nb_off (nb_event x p ev st)"
  by (simp add: nb_event_def nb_off_def nb_live_def Let_def frame_simps)

lemma off_connect_packet:
  assumes "nb_connect_packet x p pkt st w = Some (st', w')" "nb_off st"
  shows "nb_off st'"
proof (cases "(pk_nsp pkt = nc_nsp (nb_cfg st) \<or> pk_nsp pkt = []) \<and> \<not> si_joined (nb_sio st)")
  case True
  then obtain j calls c cl w1 where q: "joinCrashNamespace (nb_send (sk_boost x) (sk_ms x (0 # p))) (nb_sio st) (nb_client st, w) = Some (j, calls, c, cl, w1)"
    and st': "st' = (if Result_ok j then (setStatus Ns_Connected ''joined'' (st\<lparr>nb_sio := c, nb_client := cl\<rparr>))\<lparr>nb_joined_at_ms := sk_ms x (1 # p)\<rparr>
         else st\<lparr>nb_sio := c, nb_client := cl\<rparr>)"
    using assms(1) by (auto simp: nb_connect_packet_def Let_def split: Option.bind_splits)
  have "cl_down cl" using down.join_keeps [OF q] assms(2) by (simp add: nb_off_def)
  then show ?thesis using assms(2) by (simp add: st' nb_off_def nb_live_def frame_simps)
qed (use assms in \<open>auto simp: nb_connect_packet_def\<close>)

lemma off_decoder [simp]: "nb_off (st\<lparr>nb_decoder := d\<rparr>) = nb_off st"
  by (simp add: nb_off_def nb_live_def)

lemma off_onPacket: "onPacket x p pkt st w = Some (st', w') \<Longrightarrow> nb_off st \<Longrightarrow> nb_off st'"
  by (auto simp: onPacket_def Let_def off_event split: if_splits prod.splits sum.splits dest: off_connect_packet)

lemma off_handle: "nb_handle x p calls st w = Some (st', w') \<Longrightarrow> nb_off st \<Longrightarrow> nb_off st'"
proof (induction x p calls st w rule: nb_handle.induct)
  case (2 x p up cs st w)
  then show ?case by (simp add: off_setStatus)
next
  case (3 x p pkt cs st w)
  then show ?case by (auto split: Option.bind_splits dest: off_onPacket)
qed simp_all

lemma off_feed:
  assumes "nb_feed x p data st w = Some (st', w')" "nb_off st"
  shows "nb_off st'"
proof -
  obtain calls c cl w1 where q: "sio_onBinaryFrame (nb_send (sk_boost x) (sk_ms x (0 # p))) (sk_ms x (1 # p)) (sk_ms x (2 # p)) data (nb_sio st)
      (nb_client st, w) = Some (calls, c, cl, w1)" and h: "nb_handle x (3 # p) calls (st\<lparr>nb_sio := c, nb_client := cl\<rparr>) w1 = Some (st', w')"
    using assms(1) by (auto simp: nb_feed_def split: Option.bind_splits)
  have "cl_down cl" using down.frame_keeps [OF q] assms(2) by (simp add: nb_off_def)
  then show ?thesis using off_handle [OF h] off_client [OF assms(2)] by blast
qed

lemma off_onRawFrame: "onRawFrame x p data st w = Some (st', w') \<Longrightarrow> nb_off st \<Longrightarrow> nb_off st'"
  unfolding onRawFrame_def Let_def by (erule off_feed) (simp add: nb_off_def nb_live_def frame_simps)

lemma off_data:
  assumes "nb_data x p data st w = Some (st', w')" "nb_off st"
  shows "nb_off st'"
proof -
  obtain cl se where c: "nb_client st = Some cl" "cl_session cl = Some se" using assms(1) by (auto simp: nb_data_def split: Option.bind_splits)
  let ?st = "st\<lparr>nb_client := Some (cl\<lparr>cl_session := Some (se\<lparr>se_metrics := wm_onRx (sk_ms x (0 # p)) (length data) (se_metrics se)\<rparr>)\<rparr>)\<rparr>"
  have "nb_off ?st" using assms(2) c by (simp add: nb_off_def nb_live_def cl_down_def)
  then show ?thesis using assms(1) c off_feed [of x "1 # p" data ?st w st' w'] by (auto simp: nb_data_def Let_def split: if_splits)
qed

lemma off_lost: "nb_off st \<Longrightarrow> nb_off (nb_lost m st)"
  by (auto simp: nb_off_def nb_live_def nb_lost_def cl_down_def wc_lost_def Let_def frame_simps split: option.splits)

lemma drop_simps:
  assumes "nb_drop b st w = (st', w')"
  shows "nb_client st' = None" "nb_status st' = nb_status st" "nb_worker st' = nb_worker st" "nb_calls st' = nb_calls st"
    "nb_events_emitted st' = nb_events_emitted st"
  using assms by (auto simp: nb_drop_def split: option.splits)

lemma off_schedule: "scheduleReconnect x False st w = Some (st', w') \<Longrightarrow> nb_off st \<Longrightarrow> nb_off st'"
  by (auto simp: scheduleReconnect_def Let_def nb_off_def nb_live_def cl_down_def frame_simps drop_simps(1,2) split: if_splits prod.splits)

lemma live_start: "nb_live st \<Longrightarrow> nb_start x p st w = Some (Inr (), st, w)"
  by (simp add: nb_start_def)

lemma off_fire: "nb_fire x p st w = Some (st', w') \<Longrightarrow> nb_off st \<Longrightarrow> nb_off st'"
  by (auto simp: nb_fire_def nb_off_def live_start nb_live_def split: if_splits)

lemma off_watch:
  assumes "nb_watch x p st w = Some (st', w')" "nb_off st"
  shows "nb_off st'"
proof (cases "nb_intentional_stop st")
  case False
  let ?d = "checkDegraded (sk_ms x (0 # p)) st"
  obtain st1 w1 where one: "checkStale x (sk_ms x (1 # p)) ?d w = Some (st1, w1)" using assms(1) False by (auto simp: nb_watch_def split: Option.bind_splits)
  have "nb_off ?d" using assms(2) by (simp add: checkDegraded_def off_setStatus)
  then have off1: "nb_off st1" using one off_schedule by (auto simp: checkStale_def split: if_splits)
  obtain c cl w2 where t: "sio_tick (nb_send (sk_boost x) (sk_ms x (2 # p))) (sk_ms x (3 # p)) (sk_ms x (4 # p)) (sk_ms x (5 # p)) (nb_sio st1)
      (nb_client st1, w1) = Some (c, cl, w2)" and st': "st' = st1\<lparr>nb_sio := c, nb_client := cl\<rparr>"
    using assms(1) False one by (auto simp: nb_watch_def split: Option.bind_splits)
  have "cl_down cl" using down.tick_keeps [OF t] off1 by (simp add: nb_off_def)
  then show ?thesis using off1 by (simp add: st' off_client)
qed (use assms in \<open>simp add: nb_watch_def\<close>)

text \<open>The steps of the threads around the socket, in any order: frames of the transport, its loss, frames of the owner, turns of
  the watchdog, and the reconnect worker after its wait.\<close>

inductive nb_step :: "'w SocketOutside \<Rightarrow> NativeBcGameSocket \<times> 'w \<Rightarrow> NativeBcGameSocket \<times> 'w \<Rightarrow> bool" for x where
  step_data: "nb_data x p data st w = Some s' \<Longrightarrow> nb_step x (st, w) s'"
| step_lost: "nb_step x (st, w) (nb_lost reported st, w)"
| step_inject: "onRawFrame x p data st w = Some s' \<Longrightarrow> nb_step x (st, w) s'"
| step_watch: "nb_watchdog st \<Longrightarrow> nb_watch x p st w = Some s' \<Longrightarrow> nb_step x (st, w) s'"
| step_fire: "nb_worker st = Wk_waiting d \<Longrightarrow> nb_fire x p st w = Some s' \<Longrightarrow> nb_step x (st, w) s'"

lemma off_step: "nb_step x s s' \<Longrightarrow> nb_off (fst s) \<Longrightarrow> nb_off (fst s')"
proof (induction rule: nb_step.induct)
  case (step_data p data st w s')
  then show ?case using off_data [of x p data st w "fst s'" "snd s'"] by simp
next
  case (step_inject p data st w s')
  then show ?case using off_onRawFrame [of x p data st w "fst s'" "snd s'"] by simp
next
  case (step_watch st p w s')
  then show ?case using off_watch [of x p st w "fst s'" "snd s'"] by simp
next
  case (step_fire st d p w s')
  then show ?case using off_fire [of x p st w "fst s'" "snd s'"] by simp
qed (simp add: off_lost)

text \<open>C20: A socket whose transport is gone never gets another one by itself. Once it was started and the connection is down (the first
  attempt failed, the stream broke, or the watchdog dropped it), no sequence of steps of the watchdog, the reconnect worker and
  arriving frames brings a connection up again: the reconnect worker calls \<open>start\<close>, which only acts on a stopped or blocked socket and
  answers success without doing anything on one that is reconnecting. Only the owner can help, by stopping it first.\<close>

theorem lost_connection_stays_lost:
  assumes "nb_live st" "cl_down (nb_client st)" "(nb_step x)\<^sup>*\<^sup>* (st, w) (st', w')"
  shows "nb_live st' \<and> cl_down (nb_client st') \<and> nb_start x p st' w' = Some (Inr (), st', w')"
proof -
  have "nb_off (fst (st', w'))" using assms(3)
  proof (induction rule: rtranclp_induct)
    case base
    then show ?case using assms(1,2) by (simp add: nb_off_def)
  next
    case (step s s')
    then show ?case using off_step by blast
  qed
  then show ?thesis by (simp add: nb_off_def live_start)
qed

definition refusing_boost :: "nat Boost" where
  "refusing_boost = \<lparr>bo_open = (\<lambda>_ _ _ _ w. (Hs_Threw False ''refused'', w + 1)), bo_write = (\<lambda>_ w. (None, w)), bo_close = (\<lambda>w. w)\<rparr>"

definition demo_socket_outside :: "nat Boost \<Rightarrow> nat SocketOutside" where
  "demo_socket_outside b =
     \<lparr>sk_ms = (\<lambda>p. 1000 + int (length p)), sk_ns = (\<lambda>p. 0), sk_exp = (\<lambda>x. x), sk_draws = (\<lambda>_. []),
      sk_sign = \<lparr>so_px = \<lparr>px_socket = (\<lambda>w. (- 1, w)), px_connect = (\<lambda>_ _ w. (False, w)), px_write = (\<lambda>_ _ w. (- 1, w)),
        px_read = (\<lambda>_ _ w. (None, w)), px_close = (\<lambda>_ w. w)\<rparr>, so_secret = (\<lambda>_. None), so_hmac = (\<lambda>_ _. [])\<rparr>, sk_boost = b\<rparr>"

definition demo_socket :: "EventRouter \<Rightarrow> NativeBcGameSocket" where
  "demo_socket r = NativeBcGameSocket_new \<lparr>de_tracker = None, de_decoded = 0, de_invalid = 0\<rparr> r None NativeSocketConfig_default"

lemma demo_refused:
  "\<exists>e st. nb_start (demo_socket_outside refusing_boost) [] (demo_socket r) 0 = Some (Inl e, st, 1) \<and> nb_status st = Ns_Reconnecting \<and>
     nb_client st = None \<and> nb_worker st = Wk_waiting 300 \<and> \<not> nb_intentional_stop st"
  by (simp add: nb_start_def demo_socket_def NativeBcGameSocket_new_def nb_live_def nb_signed_def cl_start_def se_start_def doConnect_def wc_connect_def
      WebSocketClient_new_def WebSocketSession_new_def refusing_boost_def demo_socket_outside_def Let_def scheduleReconnect_def nb_drop_def cl_stop_def
      se_stop_def wc_close_def nb_delay_def NativeSocketConfig_default_def frame_simps reportError_def se_set_def setStatus_def nb_wcfg_def)

theorem lost_connection_stays_lost_witness:
  "\<forall>r. \<exists>e st st'. nb_start (demo_socket_outside refusing_boost) [] (demo_socket r) 0 = Some (Inl e, st, 1) \<and>
    nb_fire (demo_socket_outside demo_boost) [7] st 1 = Some (st', 1) \<and>
    nb_live st' \<and> cl_down (nb_client st') \<and> nb_start (demo_socket_outside demo_boost) [9] st' 1 = Some (Inr (), st', 1)"
proof
  fix r
  let ?x = "demo_socket_outside demo_boost"
  obtain e st where s: "nb_start (demo_socket_outside refusing_boost) [] (demo_socket r) 0 = Some (Inl e, st, 1)" "nb_status st = Ns_Reconnecting"
      "nb_client st = None" "nb_worker st = Wk_waiting 300" "\<not> nb_intentional_stop st"
    using demo_refused by blast
  have live: "nb_live st" "cl_down (nb_client st)" using s by (simp_all add: nb_live_def cl_down_def)
  obtain st' where f: "nb_fire ?x [7] st 1 = Some (st', 1)" using s(2,5) by (simp add: nb_fire_def live_start nb_live_def)
  then have "(nb_step ?x)\<^sup>*\<^sup>* (st, 1) (st', 1)" using step_fire [OF s(4), of ?x "[7]" 1 "(st', 1)"] by blast
  from lost_connection_stays_lost [OF live this, of "[9]"]
  show "\<exists>e st st'. nb_start (demo_socket_outside refusing_boost) [] (demo_socket r) 0 = Some (Inl e, st, 1) \<and>
    nb_fire ?x [7] st 1 = Some (st', 1) \<and> nb_live st' \<and> cl_down (nb_client st') \<and> nb_start ?x [9] st' 1 = Some (Inr (), st', 1)"
    using s(1) f by blast
qed

section \<open>What the owner is told\<close>

fun reported :: "nb_call list \<Rightarrow> NativeSocketStatus \<Rightarrow> NativeSocketStatus" where
  "reported [] s = s"
| "reported (On_status t _ # cs) s = reported cs t"
| "reported (On_event _ # cs) s = reported cs s"

fun events_of :: "nb_call list \<Rightarrow> CrashEvent list" where
  "events_of [] = []"
| "events_of (On_event ev # cs) = ev # events_of cs"
| "events_of (On_status _ _ # cs) = events_of cs"

lemma reported_append [simp]: "reported (a @ b) s = reported b (reported a s)"
  by (induction a s rule: reported.induct) simp_all

lemma events_append [simp]: "events_of (a @ b) = events_of a @ events_of b"
  by (induction a rule: events_of.induct) simp_all

definition nb_told :: "NativeBcGameSocket \<Rightarrow> bool" where
  "nb_told st \<longleftrightarrow> reported (nb_calls st) Ns_Stopped = nb_status st \<and> nb_events_emitted st = of_nat (length (events_of (nb_calls st)))"

lemma told_cong: "nb_calls st' = nb_calls st \<Longrightarrow> nb_status st' = nb_status st \<Longrightarrow> nb_events_emitted st' = nb_events_emitted st \<Longrightarrow> nb_told st' = nb_told st"
  by (simp add: nb_told_def)

lemma told_setStatus: "nb_told st \<Longrightarrow> nb_told (setStatus s d st)"
  by (simp add: nb_told_def setStatus_def Let_def)

lemma told_update [simp]:
  "nb_told (st\<lparr>nb_sio := c\<rparr>) = nb_told st" "nb_told (st\<lparr>nb_decoder := d\<rparr>) = nb_told st" "nb_told (st\<lparr>nb_client := cl\<rparr>) = nb_told st"
  "nb_told (st\<lparr>nb_joined_at_ms := t\<rparr>) = nb_told st" "nb_told (st\<lparr>nb_worker := k\<rparr>) = nb_told st" "nb_told (st\<lparr>nb_watchdog := b\<rparr>) = nb_told st"
  "nb_told (st\<lparr>nb_intentional_stop := b\<rparr>) = nb_told st" "nb_told (st\<lparr>nb_sign := g\<rparr>) = nb_told st" "nb_told (st\<lparr>nb_reconnects := n\<rparr>) = nb_told st"
  "nb_told (st\<lparr>nb_frames_rx := n, nb_last_frame_ms := t\<rparr>) = nb_told st"
  "nb_told (st\<lparr>nb_last_event_ms := t\<rparr>) = nb_told st" "nb_told (st\<lparr>nb_last_ed_ms := t\<rparr>) = nb_told st" "nb_told (st\<lparr>nb_current_game_id := g'\<rparr>) = nb_told st"
  "nb_told (st\<lparr>nb_intentional_stop := b, nb_watchdog := b'\<rparr>) = nb_told st"
  by (rule told_cong; simp)+

lemma told_event: "nb_told st \<Longrightarrow> nb_told (nb_event x p ev st)"
proof -
  have add: "nb_told st \<Longrightarrow> nb_told (st\<lparr>nb_router := r, nb_events_emitted := nb_events_emitted st + 1, nb_calls := nb_calls st @ [On_event ev]\<rparr>)" for st r
    by (simp add: nb_told_def)
  show "nb_told st \<Longrightarrow> nb_told (nb_event x p ev st)" unfolding nb_event_def Let_def by (rule add) (simp add: told_setStatus)
qed

lemma told_onPacket: "onPacket x p pkt st w = Some (st', w') \<Longrightarrow> nb_told st \<Longrightarrow> nb_told st'"
  by (auto simp: onPacket_def nb_connect_packet_def Let_def told_event told_setStatus split: if_splits prod.splits sum.splits Option.bind_splits)

lemma told_handle: "nb_handle x p calls st w = Some (st', w') \<Longrightarrow> nb_told st \<Longrightarrow> nb_told st'"
proof (induction x p calls st w rule: nb_handle.induct)
  case (2 x p up cs st w)
  then show ?case by (simp add: told_setStatus)
next
  case (3 x p pkt cs st w)
  then show ?case by (auto split: Option.bind_splits dest: told_onPacket)
qed simp_all

lemma told_feed: "nb_feed x p data st w = Some (st', w') \<Longrightarrow> nb_told st \<Longrightarrow> nb_told st'"
  by (auto simp: nb_feed_def split: Option.bind_splits dest!: told_handle)

lemma told_drop: "nb_drop b st w = (st', w') \<Longrightarrow> nb_told st' = nb_told st"
  by (rule told_cong) (simp_all add: drop_simps)

lemma told_schedule: "scheduleReconnect x waf st w = Some (st', w') \<Longrightarrow> nb_told st \<Longrightarrow> nb_told st'"
  by (auto simp: scheduleReconnect_def Let_def told_drop told_setStatus split: if_splits prod.splits)

lemma told_start:
  assumes "nb_start x p st w = Some (r, st', w')" "nb_told st"
  shows "nb_told st'"
proof (cases "nb_live st")
  case False
  let ?s0 = "setStatus Ns_Connecting ''start'' (st\<lparr>nb_intentional_stop := False\<rparr>)"
  obtain g1 s1 w1 where one: "nb_signed x (0 # p) ?s0 w = (g1, s1, w1)" by (metis prod_cases3)
  obtain g2 s2 w2 where two: "nb_signed x (1 # p) s1 w1 = (g2, s2, w2)" by (metis prod_cases3)
  have sig: "nb_signed x q s v = (g, s', v') \<Longrightarrow> nb_told s \<Longrightarrow> nb_told s'" for q s v g s' v'
    by (auto simp: nb_signed_def split: option.splits prod.splits)
  have "nb_told ?s0" by (rule told_setStatus) (simp add: assms(2))
  then have t2: "nb_told s2" using sig one two by blast
  obtain rr cl c w3 where cl: "cl_start (sk_boost x) (sk_ms x (2 # p)) (WebSocketClient_new (nb_wcfg s2) g2) (nb_sio s2) w2 = Some (rr, cl, c, w3)"
    using assms(1) False one two by (auto simp: nb_start_def Let_def split: Option.bind_splits)
  show ?thesis
  proof (cases rr)
    case (Inl e)
    then show ?thesis using assms(1) False one two cl t2
      by (auto simp: nb_start_def Let_def split: Option.bind_splits dest!: told_schedule intro: told_setStatus)
  next
    case (Inr u)
    then show ?thesis using assms(1) False one two cl t2 by (auto simp: nb_start_def Let_def told_setStatus)
  qed
qed (use assms in \<open>simp add: live_start\<close>)

lemma told_watch:
  assumes "nb_watch x p st w = Some (st', w')" "nb_told st"
  shows "nb_told st'"
proof -
  have "nb_told (checkDegraded t st)" for t using assms(2) by (simp add: checkDegraded_def told_setStatus)
  moreover have "checkStale x t s v = Some (s', v') \<Longrightarrow> nb_told s \<Longrightarrow> nb_told s'" for t s v s' v'
    by (auto simp: checkStale_def split: if_splits dest: told_schedule)
  ultimately show ?thesis using assms by (auto simp: nb_watch_def split: if_splits Option.bind_splits)
qed

lemma told_step: "nb_step x s s' \<Longrightarrow> nb_told (fst s) \<Longrightarrow> nb_told (fst s')"
proof (induction rule: nb_step.induct)
  case (step_data p data st w s')
  then show ?case by (cases s') (auto simp: nb_data_def Let_def split: Option.bind_splits if_splits dest: told_feed)
next
  case (step_inject p data st w s')
  then show ?case by (cases s') (auto simp: onRawFrame_def Let_def told_setStatus split: if_splits dest!: told_feed)
next
  case (step_watch st p w s')
  then show ?case by (cases s') (auto dest: told_watch)
next
  case (step_fire st d p w s')
  then show ?case by (cases s') (auto simp: nb_fire_def split: if_splits Option.bind_splits dest: told_start)
qed (simp add: nb_lost_def)

text \<open>Everything that can happen to a socket, the owner's calls included.\<close>

inductive nb_reach :: "'w SocketOutside \<Rightarrow> NativeBcGameSocket \<times> 'w \<Rightarrow> NativeBcGameSocket \<times> 'w \<Rightarrow> bool" for x s where
  reach_self: "nb_reach x s s"
| reach_step: "nb_reach x s s1 \<Longrightarrow> nb_step x s1 s2 \<Longrightarrow> nb_reach x s s2"
| reach_start: "nb_reach x s (st, w) \<Longrightarrow> nb_start x p st w = Some (r, st', w') \<Longrightarrow> nb_reach x s (st', w')"
| reach_stop: "nb_reach x s (st, w) \<Longrightarrow> nb_stop x st w = s2 \<Longrightarrow> nb_reach x s s2"

lemma told_reach: "nb_reach x s s' \<Longrightarrow> nb_told (fst s) \<Longrightarrow> nb_told (fst s')"
proof (induction rule: nb_reach.induct)
  case (reach_step s1 s2)
  then show ?case using told_step by blast
next
  case (reach_start st w p r st' w')
  then show ?case using told_start by auto
next
  case (reach_stop st w s2)
  obtain st1 w1 where d: "nb_drop (sk_boost x) (st\<lparr>nb_intentional_stop := True, nb_watchdog := False\<rparr>) w = (st1, w1)" by (metis prod.exhaust)
  have "nb_told st1" using told_drop [OF d] reach_stop by simp
  then show ?case using reach_stop(2) d by (auto simp: nb_stop_def intro: told_setStatus)
qed simp

text \<open>Whatever happens to a socket, the owner's calls, frames, losses, turns of the watchdog and of the reconnect worker in any
  order, the status its handlers were last told is the status it has, and it has counted as many events as it handed to the event handlers.\<close>

theorem owner_knows_status:
  assumes "nb_reach x (NativeBcGameSocket_new d r sign cfg, w) (st, w')"
  shows "reported (nb_calls st) Ns_Stopped = nb_status st \<and> nb_events_emitted st = of_nat (length (events_of (nb_calls st)))"
proof -
  have "nb_told (NativeBcGameSocket_new d r sign cfg)" by (simp add: nb_told_def NativeBcGameSocket_new_def)
  then show ?thesis using told_reach [OF assms] by (simp add: nb_told_def)
qed

theorem owner_knows_status_witness:
  "\<forall>r. \<exists>st. nb_reach (demo_socket_outside refusing_boost) (demo_socket r, 0) (st, 1) \<and> nb_status st = Ns_Stopped \<and>
    reported (nb_calls st) Ns_Stopped = nb_status st \<and> nb_events_emitted st = of_nat (length (events_of (nb_calls st)))"
proof
  fix r
  let ?x = "demo_socket_outside refusing_boost"
  obtain e st where s: "nb_start ?x [] (demo_socket r) 0 = Some (Inl e, st, 1)" "nb_client st = None" using demo_refused by blast
  have "nb_reach ?x (demo_socket r, 0) (st, 1)" by (rule reach_start [OF reach_self s(1)])
  then have two: "nb_reach ?x (demo_socket r, 0) (nb_stop ?x st 1)" by (rule reach_stop) simp
  obtain st' where st': "nb_stop ?x st 1 = (st', 1)" "nb_status st' = Ns_Stopped" using s(2) by (simp add: nb_stop_def nb_drop_def frame_simps)
  show "\<exists>st. nb_reach ?x (demo_socket r, 0) (st, 1) \<and> nb_status st = Ns_Stopped \<and>
    reported (nb_calls st) Ns_Stopped = nb_status st \<and> nb_events_emitted st = of_nat (length (events_of (nb_calls st)))"
    using owner_knows_status [OF two [unfolded st' demo_socket_def]] st' two by (auto simp: demo_socket_def)
qed

section \<open>A send function that outlives its session\<close>

text \<open>The watchdog that dropped a stale transport goes on to tick the Socket.IO client, which still has the send function of the session
  just destroyed: if it was connected and a ping is due, the run has no meaning.\<close>

lemma stale_watch_undefined:
  assumes "\<not> nb_intentional_stop st" "nb_live st" "nb_last_frame_ms st \<noteq> 0" "sk_ms x (1 # p) - nb_last_frame_ms st > nc_staleMs (nb_cfg st)"
    and "si_connected (nb_sio st)" "si_has_send (nb_sio st)" "hb_shouldPing (sk_ms x (3 # p)) (si_heartbeat (nb_sio st))"
  shows "nb_watch x p st w = None"
proof -
  let ?d = "checkDegraded (sk_ms x (0 # p)) st"
  have d: "nb_live ?d" "nb_last_frame_ms ?d = nb_last_frame_ms st" "nb_cfg ?d = nb_cfg st" "nb_sio ?d = nb_sio st" "\<not> nb_intentional_stop ?d"
    using assms(1,2) by (simp_all add: checkDegraded_def nb_live_def frame_simps)
  have "nb_watch x p st w = None \<or> (\<exists>st1 w1. scheduleReconnect x False ?d w = Some (st1, w1))"
    using assms(1-4) d by (cases "scheduleReconnect x False ?d w") (simp_all add: nb_watch_def checkStale_def)
  then show ?thesis
  proof
    assume "\<exists>st1 w1. scheduleReconnect x False ?d w = Some (st1, w1)"
    then obtain st1 w1 where sc: "scheduleReconnect x False ?d w = Some (st1, w1)" by blast
    obtain st2 w2 where dr: "nb_drop (sk_boost x) ((setStatus Ns_Reconnecting ''reconnect'' ?d)\<lparr>nb_reconnects := nb_reconnects ?d + 1\<rparr>) w = (st2, w2)"
      by (metis prod.exhaust)
    have "st1 = st2\<lparr>nb_worker := Wk_waiting (nb_delay False st2)\<rparr>"
      using sc dr d(5) by (auto simp: scheduleReconnect_def Let_def frame_simps split: if_splits)
    moreover have "nb_sio st2 = nb_sio ?d" using dr by (auto simp: nb_drop_def frame_simps split: option.splits)
    ultimately have "nb_client st1 = None" "nb_sio st1 = nb_sio st" using drop_simps(1) [OF dr] d(4) by simp_all
    then show ?thesis using assms d sc by (simp add: nb_watch_def checkStale_def sio_tick_def nb_send_def)
  qed
qed

end
