(* ===== verification/Feed.thy ===== *)
theory Feed
  imports Socket
begin

text \<open>
  The crash feed (\<open>ingestion/crash_feed.hpp\<close>), the transport facade over it (\<open>ingestion/native_transport.hpp\<close>) and the socket
  diagnostics (\<open>ingestion/socket_diagnostics.hpp\<close>). The feed decodes and routes frames; the facade signs, opens a client that reconnects by
  itself and hands its frames to the feed. The lemmas: every frame of the feed is an event for the router and the owner or counted
  as an error, and through an open transport the feed sees exactly the frames that are not Engine.IO control.
\<close>

section \<open>The feed\<close>

datatype FeedState = Fe_Stopped | Fe_Connecting | Fe_Connected | Fe_Degraded | Fe_Reconnecting

record CrashFeed =
  fe_decoder :: EventDecoder
  fe_router :: EventRouter
  fe_state :: FeedState
  fe_last_event_ms :: TimestampMs
  fe_frames :: u64
  fe_decode_errors :: u64
  fe_starts :: u64
  fe_reconnects :: u64
  fe_handed :: "CrashEvent list"

definition CrashFeed_new :: "EventDecoder \<Rightarrow> EventRouter \<Rightarrow> CrashFeed" where
  "CrashFeed_new d r =
     \<lparr>fe_decoder = d, fe_router = r, fe_state = Fe_Stopped, fe_last_event_ms = 0, fe_frames = 0, fe_decode_errors = 0, fe_starts = 0,
      fe_reconnects = 0, fe_handed = []\<rparr>"

text \<open>A signer that has a signature is not asked again.\<close>

definition fe_start :: "'w SocketOutside \<Rightarrow> nat list \<Rightarrow> NativeSign option \<Rightarrow> CrashFeed \<Rightarrow> 'w \<Rightarrow> unit Result \<times> NativeSign option \<times> CrashFeed \<times> 'w" where
  "fe_start x p sign f w =
     (let up = f\<lparr>fe_state := Fe_Connected, fe_starts := fe_starts f + 1\<rparr>
      in case sign of
           None \<Rightarrow> (Inr (), sign, up, w)
         | Some s \<Rightarrow>
             if sg_valid (sn_cached s) then (Inr (), sign, up, w)
             else (case signSocketQuery (sk_sign x) (sk_ms x (0 # p)) (sk_ms x (1 # p)) (sk_draws x p) s w of
                     (sig, s, w) \<Rightarrow>
                       if \<not> sg_valid sig then (Inl (mkError EC_SignatureError ''sign not ready''), Some s, f\<lparr>fe_state := Fe_Degraded\<rparr>, w)
                       else (Inr (), Some s, up, w)))"

definition fe_stop :: "CrashFeed \<Rightarrow> CrashFeed" where
  "fe_stop f = f\<lparr>fe_state := Fe_Stopped\<rparr>"

definition fe_onFrame :: "'w SocketOutside \<Rightarrow> nat list \<Rightarrow> bytes \<Rightarrow> CrashFeed \<Rightarrow> CrashEvent Result \<times> CrashFeed" where
  "fe_onFrame x p data f =
     (let f = f\<lparr>fe_frames := fe_frames f + 1\<rparr>;
          (r, d) = decodeBinary (sk_exp x) (sk_ns x (0 # p)) (sk_ns x (1 # p)) (sk_ms x (0 # p)) data Src_NativeSocket (fe_decoder f);
          f = f\<lparr>fe_decoder := d\<rparr>
      in case r of
           Inl e \<Rightarrow> (Inl e, f\<lparr>fe_decode_errors := fe_decode_errors f + 1\<rparr>)
         | Inr ev \<Rightarrow>
             (Inr ev, f\<lparr>fe_last_event_ms := sk_ms x (1 # p), fe_router := snd (er_route (sk_ns x (2 # p)) (sk_ns x (3 # p)) ev (fe_router f)),
                        fe_handed := fe_handed f @ [ev]\<rparr>))"

definition fe_health :: "CrashFeed \<Rightarrow> ConnectionHealth" where
  "fe_health f = \<lparr>ch_connected = (fe_state f = Fe_Connected), ch_lastMessageMs = fe_last_event_ms f, ch_reconnects = fe_reconnects f, ch_lastError = []\<rparr>"

section \<open>The transport\<close>

record NativeTransport =
  nt_sign :: NativeSign
  nt_sio :: SocketIoClient
  nt_feed :: CrashFeed
  nt_ws :: "WebSocketClient option"
  nt_running :: bool

text \<open>The query the first signature gives is replaced by the client's own, over the second.\<close>

definition nt_start :: "'w SocketOutside \<Rightarrow> nat list \<Rightarrow> NativeTransport \<Rightarrow> 'w \<Rightarrow> (unit Result \<times> NativeTransport \<times> 'w) option" where
  "nt_start x p t w =
     (let (_, s, w) = signSocketQuery (sk_sign x) (sk_ms x (0 # p)) (sk_ms x (1 # p)) (sk_draws x (0 # p)) (nt_sign t) w;
          (sig, s, w) = signSocketQuery (sk_sign x) (sk_ms x (2 # p)) (sk_ms x (3 # p)) (sk_draws x (1 # p)) s w
      in do {
        (r, cl, c, w) \<leftarrow> cl_start (sk_boost x) (sk_ms x (4 # p)) (WebSocketClient_new WebSocketConfig_default (Some sig)) (nt_sio t) w;
        let t = t\<lparr>nt_sign := s, nt_ws := Some cl, nt_sio := c\<rparr>;
        if \<not> Result_ok r then Some (r, t, w)
        else (case fe_start x (5 # p) (Some (nt_sign t)) (nt_feed t) w of
                (fr, s, f, w) \<Rightarrow>
                  let t = t\<lparr>nt_sio := (nt_sio t)\<lparr>si_has_frame := True\<rparr>, nt_feed := f, nt_sign := (case s of Some s \<Rightarrow> s | None \<Rightarrow> nt_sign t)\<rparr>
                  in if \<not> Result_ok fr then Some (fr, t, w) else Some (Inr (), t\<lparr>nt_running := True\<rparr>, w))
      })"

definition nt_stop :: "'w SocketOutside \<Rightarrow> NativeTransport \<Rightarrow> 'w \<Rightarrow> NativeTransport \<times> 'w" where
  "nt_stop x t w =
     (case nt_ws t of
        None \<Rightarrow> (t\<lparr>nt_running := False, nt_feed := fe_stop (nt_feed t)\<rparr>, w)
      | Some cl \<Rightarrow> (case cl_stop (sk_boost x) cl w of (cl, w) \<Rightarrow> (t\<lparr>nt_running := False, nt_ws := Some cl, nt_feed := fe_stop (nt_feed t)\<rparr>, w)))"

text \<open>The facade installs the frame handler only.\<close>

fun nt_handle :: "'w SocketOutside \<Rightarrow> nat list \<Rightarrow> sio_call list \<Rightarrow> CrashFeed \<Rightarrow> CrashFeed" where
  "nt_handle x p [] f = f"
| "nt_handle x p (Call_frame data # cs) f = nt_handle x (1 # p) cs (snd (fe_onFrame x (0 # p) data f))"
| "nt_handle x p (_ # cs) f = nt_handle x (1 # p) cs f"

definition nt_inject :: "'w SocketOutside \<Rightarrow> nat list \<Rightarrow> bytes \<Rightarrow> NativeTransport \<Rightarrow> 'w \<Rightarrow> (NativeTransport \<times> 'w) option" where
  "nt_inject x p data t w =
     (case nt_ws t of
        None \<Rightarrow> Some (t\<lparr>nt_feed := snd (fe_onFrame x (0 # p) data (nt_feed t))\<rparr>, w)
      | Some cl \<Rightarrow>
          (case cl_session cl of
             None \<Rightarrow> Some (t, w)
           | Some se \<Rightarrow>
               let se = se\<lparr>se_metrics := wm_onRx (sk_ms x (1 # p)) (length data) (se_metrics se)\<rparr>
               in do {
                 (calls, c, ws, w) \<leftarrow> sio_onBinaryFrame (nb_send (sk_boost x) (sk_ms x (2 # p))) (sk_ms x (3 # p)) (sk_ms x (4 # p)) data (nt_sio t)
                     (Some (cl\<lparr>cl_session := Some se\<rparr>), w);
                 Some (t\<lparr>nt_sio := c, nt_ws := ws, nt_feed := nt_handle x (5 # p) calls (nt_feed t)\<rparr>, w)
               }))"

section \<open>Diagnostics\<close>

record DiagnosticEvent =
  dg_atMs :: TimestampMs
  dg_kind :: string
  dg_detail :: string
  dg_framesRx :: u64
  dg_reconnects :: u64

record SocketDiagnostics =
  sd_max :: nat
  sd_events :: "DiagnosticEvent list"
  sd_frames :: u64
  sd_bytes_rx :: u64
  sd_errors :: u64
  sd_notes :: u64
  sd_last_error :: string

definition sd_note :: "TimestampMs \<Rightarrow> string \<Rightarrow> string \<Rightarrow> u64 \<Rightarrow> u64 \<Rightarrow> SocketDiagnostics \<Rightarrow> SocketDiagnostics" where
  "sd_note now kind detail framesRx reconnects s =
     s\<lparr>sd_events := trim (sd_max s) (sd_events s @ [\<lparr>dg_atMs = now, dg_kind = kind, dg_detail = detail, dg_framesRx = framesRx, dg_reconnects = reconnects\<rparr>]),
       sd_notes := sd_notes s + 1\<rparr>"

definition sd_noteStatus :: "TimestampMs \<Rightarrow> NativeSocketStatus \<Rightarrow> string \<Rightarrow> SocketDiagnostics \<Rightarrow> SocketDiagnostics" where
  "sd_noteStatus now st detail = sd_note now (status_text st) detail 0 0"

definition sd_noteFrame :: "nat \<Rightarrow> SocketDiagnostics \<Rightarrow> SocketDiagnostics" where
  "sd_noteFrame n s = s\<lparr>sd_bytes_rx := sd_bytes_rx s + of_nat n, sd_frames := sd_frames s + 1\<rparr>"

definition sd_noteError :: "TimestampMs \<Rightarrow> string \<Rightarrow> SocketDiagnostics \<Rightarrow> SocketDiagnostics" where
  "sd_noteError now err s =
     (let s = sd_note now ''error'' err 0 0 (s\<lparr>sd_last_error := err\<rparr>) in s\<lparr>sd_errors := sd_errors s + 1\<rparr>)"

definition sd_recent :: "nat \<Rightarrow> SocketDiagnostics \<Rightarrow> DiagnosticEvent list" where
  "sd_recent n s = drop (length (sd_events s) - n) (sd_events s)"

definition sd_summary :: "SocketDiagnostics \<Rightarrow> string" where
  "sd_summary s =
     ''frames='' @ show_nat (unat (sd_frames s)) @ '' bytes='' @ show_nat (unat (sd_bytes_rx s)) @ '' errors='' @ show_nat (unat (sd_errors s)) @
     '' notes='' @ show_nat (unat (sd_notes s)) @ '' last_error='' @ sd_last_error s"

section \<open>Lemmas\<close>

definition fe_inv :: "CrashFeed \<Rightarrow> bool" where
  "fe_inv f \<longleftrightarrow> fe_frames f = fe_decode_errors f + of_nat (length (fe_handed f))"

lemma feed_frame_accounted: "fe_inv f \<Longrightarrow> fe_inv (snd (fe_onFrame x p data f))"
  by (auto simp: fe_onFrame_def fe_inv_def Let_def split: prod.splits sum.splits)

lemma feed_run_accounted: "fe_inv (fold (\<lambda>(p, data) f. snd (fe_onFrame x p data f)) frames (CrashFeed_new d r))"
proof -
  have "fe_inv f \<Longrightarrow> fe_inv (fold (\<lambda>(p, data) f. snd (fe_onFrame x p data f)) frames f)" for f
    by (induction frames arbitrary: f) (auto intro: feed_frame_accounted)
  then show ?thesis by (simp add: fe_inv_def CrashFeed_new_def)
qed

definition control_frame :: "bytes \<Rightarrow> bool" where
  "control_frame data \<longleftrightarrow> data = [] \<or> isPing data \<or> isPong data \<or> isOpenFrame data \<or> isClose data"

lemma inject_reaches_feed:
  assumes "nt_inject x p data t w = Some (t', w')" "nt_ws t = Some cl" "cl_session cl = Some se" "si_has_frame (nt_sio t)" "\<not> si_has_packet (nt_sio t)"
  shows "nt_feed t' = (if control_frame data then nt_feed t else snd (fe_onFrame x (0 # 5 # p) data (nt_feed t)))"
  using assms
  by (auto simp: nt_inject_def control_frame_def sio_onBinaryFrame_def Let_def split: if_splits Option.bind_splits prod.splits)

lemma diagnostics_bounded: "length (sd_events s) \<le> sd_max s \<Longrightarrow> length (sd_events (sd_note now k d f r s)) \<le> sd_max (sd_note now k d f r s)"
  by (simp add: sd_note_def length_trim)

end
