(* ===== verification/Config.thy ===== *)
theory Config
  imports Signing Database Router Outcomes
begin

text \<open>
  Configuration: the reader of TOML-like files (\<open>config/toml_config.hpp\<close>), the configuration of the application
  (\<open>application/application_config.hpp\<close>), the credentials and the secure configuration read from a secret provider
  (\<open>security/credentials.hpp\<close>, \<open>security/secure_config.hpp\<close>), and what \<open>main\<close> makes of its arguments (\<open>src/main.cpp\<close>). The file
  system is a function from paths to texts, a secret provider a function from keys to values.
\<close>

section \<open>Files\<close>

text \<open>\<open>getline\<close> over a text.\<close>

function getlines :: "char \<Rightarrow> string \<Rightarrow> string list" where
  "getlines d s = (if s = [] then [] else takeWhile (\<lambda>c. c \<noteq> d) s # getlines d (drop 1 (dropWhile (\<lambda>c. c \<noteq> d) s)))"
  by pat_completeness auto
termination
proof (relation "measure (\<lambda>(d, s). length s)")
  fix d :: char and s :: string
  assume "s \<noteq> []"
  moreover have "length (drop 1 (dropWhile (\<lambda>c. c \<noteq> d) s)) \<le> length s - 1" by (simp add: diff_le_mono length_dropWhile_le)
  ultimately show "((d, drop 1 (dropWhile (\<lambda>c. c \<noteq> d) s)), d, s) \<in> measure (\<lambda>(d, s). length s)" by (cases s) auto
qed simp

declare getlines.simps [simp del]

definition tm_trim :: "string \<Rightarrow> string" where
  "tm_trim s = rev (dropWhile Database.is_space (rev (dropWhile Database.is_space s)))"

type_synonym TomlConfig = "string \<rightharpoonup> (string \<rightharpoonup> string)"

definition tm_put :: "string \<Rightarrow> string \<Rightarrow> string \<Rightarrow> TomlConfig \<Rightarrow> TomlConfig" where
  "tm_put sec key v cfg = cfg(sec \<mapsto> (case cfg sec of None \<Rightarrow> [key \<mapsto> v] | Some m \<Rightarrow> m(key \<mapsto> v)))"

text \<open>Without its quotes, when it has a pair of them.\<close>

definition tm_unquote :: "string \<Rightarrow> string" where
  "tm_unquote v =
     (if length v \<ge> 2 \<and> (hd v = CHR 0x22 \<and> last v = CHR 0x22 \<or> hd v = CHR 0x27 \<and> last v = CHR 0x27)
      then take (length v - 2) (drop 1 v) else v)"

definition tm_line :: "string \<Rightarrow> string \<times> TomlConfig \<Rightarrow> string \<times> TomlConfig" where
  "tm_line line st =
     (case st of (current, cfg) \<Rightarrow>
      let l = tm_trim (takeWhile (\<lambda>c. c \<noteq> CHR ''#'') line)
      in if l = [] then (current, cfg)
         else if hd l = CHR ''['' \<and> last l = CHR '']'' then (take (length l - 2) (drop 1 l), cfg)
         else if CHR ''='' \<notin> set l then (current, cfg)
         else (current, tm_put current (tm_trim (takeWhile (\<lambda>c. c \<noteq> CHR ''='') l))
                          (tm_unquote (tm_trim (drop 1 (dropWhile (\<lambda>c. c \<noteq> CHR ''='') l)))) cfg))"

definition loadString :: "string \<Rightarrow> TomlConfig" where
  "loadString s = snd (fold tm_line (getlines (CHR 0x0A) s) (''global'', Map.empty))"

definition loadFile :: "(string \<Rightarrow> string option) \<Rightarrow> string \<Rightarrow> TomlConfig Result" where
  "loadFile read path = (case read path of None \<Rightarrow> Inl (mkError EC_ConfigError (''cannot open '' @ path)) | Some s \<Rightarrow> Inr (loadString s))"

definition tm_get :: "TomlConfig \<Rightarrow> string \<Rightarrow> string \<Rightarrow> string \<Rightarrow> string" where
  "tm_get cfg sec key fallback =
     (case cfg sec of None \<Rightarrow> fallback | Some m \<Rightarrow> (case m key of None \<Rightarrow> fallback | Some v \<Rightarrow> v))"

text \<open>\<open>std::stoll\<close>; \<open>None\<close> is either of its exceptions.\<close>

definition stoll :: "string \<Rightarrow> int option" where
  "stoll s =
     (let s = dropWhile Database.is_space (c_str s);
          neg = (s \<noteq> [] \<and> hd s = CHR ''-'');
          ds = takeWhile is_digit (if s \<noteq> [] \<and> (hd s = CHR ''-'' \<or> hd s = CHR ''+'') then tl s else s);
          n = (if neg then - int (read_nat ds) else int (read_nat ds))
      in if ds = [] \<or> n < - (2 ^ 63) \<or> 2 ^ 63 \<le> n then None else Some n)"

definition tm_getInt :: "TomlConfig \<Rightarrow> string \<Rightarrow> string \<Rightarrow> int \<Rightarrow> int" where
  "tm_getInt cfg sec key fallback =
     (let s = tm_get cfg sec key [] in if s = [] then fallback else case stoll s of Some n \<Rightarrow> n | None \<Rightarrow> fallback)"

definition tm_getBool :: "TomlConfig \<Rightarrow> string \<Rightarrow> string \<Rightarrow> bool \<Rightarrow> bool" where
  "tm_getBool cfg sec key fallback =
     (let s = tm_get cfg sec key []
      in if s = [] then fallback
         else if s \<in> {''true'', ''1'', ''yes''} then True
         else if s \<in> {''false'', ''0'', ''no''} then False
         else fallback)"

section \<open>The configuration of the application\<close>

record ApplicationConfig =
  ac_host :: string
  ac_path :: string
  ac_nsp :: string
  ac_eventQueueCapacity :: u64
  ac_workerCount :: u64
  ac_outboxCapacity :: u64
  ac_predictionTimeoutMs :: int
  ac_heartbeatIntervalMs :: int
  ac_enableTelegram :: bool
  ac_enablePersistence :: bool
  ac_logLevel :: string
  ac_degradedMs :: int
  ac_staleMs :: int
  ac_signFreshMs :: int
  ac_signStaleMs :: int
  ac_stuckMaxAgeMs :: int
  ac_lossCooldownMs :: int
  ac_lossCooldownThreshold :: int
  ac_enableNativeSocket :: bool
  ac_enablePollWorker :: bool
  ac_enableNotificationWorker :: bool
  ac_pollIntervalMs :: int
  ac_enableRealtimePipeline :: bool
  ac_socketHost :: string
  ac_statsPort :: "16 word"
  ac_qualityEdge :: double
  ac_reducedEdge :: double
  ac_minConfidence :: double
  ac_deliveryDeadlineMs :: int
  ac_enableDurableOutbox :: bool
  ac_enableClockSkewMonitor :: bool
  ac_enableFunnelMetrics :: bool
  ac_enableDeliveryForensics :: bool

definition ApplicationConfig_default :: ApplicationConfig where
  "ApplicationConfig_default =
     \<lparr>ac_host = ''bc.game'', ac_path = ''/game/crash'', ac_nsp = ''/g/cm'', ac_eventQueueCapacity = 4096, ac_workerCount = 4, ac_outboxCapacity = 2048,
      ac_predictionTimeoutMs = 50, ac_heartbeatIntervalMs = 25000, ac_enableTelegram = True, ac_enablePersistence = False, ac_logLevel = ''info'',
      ac_degradedMs = 15000, ac_staleMs = 90000, ac_signFreshMs = 60000, ac_signStaleMs = 600000, ac_stuckMaxAgeMs = 180000, ac_lossCooldownMs = 60000,
      ac_lossCooldownThreshold = 3, ac_enableNativeSocket = True, ac_enablePollWorker = True, ac_enableNotificationWorker = True,
      ac_pollIntervalMs = 5000, ac_enableRealtimePipeline = True, ac_socketHost = ''socketv4.bc.game'', ac_statsPort = 8080,
      ac_qualityEdge = rnd (2 / 100), ac_reducedEdge = rnd (5 / 1000), ac_minConfidence = rnd (55 / 100), ac_deliveryDeadlineMs = 5000,
      ac_enableDurableOutbox = True, ac_enableClockSkewMonitor = True, ac_enableFunnelMetrics = True, ac_enableDeliveryForensics = True\<rparr>"

text \<open>Sizes go through a signed 64-bit integer, the threshold is cut to 32 bits.\<close>

definition tm_getSize :: "TomlConfig \<Rightarrow> string \<Rightarrow> string \<Rightarrow> u64 \<Rightarrow> u64" where
  "tm_getSize cfg sec key fallback = word_of_int (tm_getInt cfg sec key (sint fallback))"

definition toApplicationConfig :: "TomlConfig \<Rightarrow> ApplicationConfig" where
  "toApplicationConfig t =
     (let c = ApplicationConfig_default
      in c\<lparr>ac_host := tm_get t ''ingestion'' ''host'' (ac_host c),
           ac_path := tm_get t ''ingestion'' ''path'' (ac_path c),
           ac_nsp := tm_get t ''ingestion'' ''nsp'' (ac_nsp c),
           ac_eventQueueCapacity := tm_getSize t ''concurrency'' ''event_queue_capacity'' (ac_eventQueueCapacity c),
           ac_workerCount := tm_getSize t ''concurrency'' ''worker_count'' (ac_workerCount c),
           ac_outboxCapacity := tm_getSize t ''delivery'' ''outbox_capacity'' (ac_outboxCapacity c),
           ac_predictionTimeoutMs := tm_getInt t ''prediction'' ''timeout_ms'' (ac_predictionTimeoutMs c),
           ac_heartbeatIntervalMs := tm_getInt t ''ingestion'' ''heartbeat_ms'' (ac_heartbeatIntervalMs c),
           ac_enableTelegram := tm_getBool t ''delivery'' ''enable_telegram'' (ac_enableTelegram c),
           ac_enablePersistence := tm_getBool t ''persistence'' ''enabled'' (ac_enablePersistence c),
           ac_logLevel := tm_get t ''logging'' ''level'' (ac_logLevel c),
           ac_degradedMs := tm_getInt t ''ingestion'' ''degraded_ms'' (ac_degradedMs c),
           ac_staleMs := tm_getInt t ''ingestion'' ''stale_ms'' (ac_staleMs c),
           ac_stuckMaxAgeMs := tm_getInt t ''validation'' ''stuck_max_age_ms'' (ac_stuckMaxAgeMs c),
           ac_lossCooldownMs := tm_getInt t ''validation'' ''loss_cooldown_ms'' (ac_lossCooldownMs c),
           ac_lossCooldownThreshold := sint (word_of_int (tm_getInt t ''validation'' ''loss_cooldown_threshold'' (ac_lossCooldownThreshold c)) :: 32 word),
           ac_enableNativeSocket := tm_getBool t ''ingestion'' ''enable_native_socket'' (ac_enableNativeSocket c),
           ac_socketHost := tm_get t ''ingestion'' ''socket_host'' (ac_socketHost c)\<rparr>)"

section \<open>Credentials\<close>

record TelegramCredentials =
  tl_botToken :: string
  tl_chatId :: string
  tl_extraChatIds :: "string list"

definition tl_valid :: "TelegramCredentials \<Rightarrow> bool" where
  "tl_valid c \<longleftrightarrow> tl_botToken c \<noteq> [] \<and> (tl_chatId c \<noteq> [] \<or> tl_extraChatIds c \<noteq> [])"

definition trim_blanks :: "string \<Rightarrow> string" where
  "trim_blanks s = rev (dropWhile (\<lambda>c. c = CHR '' '') (rev (dropWhile (\<lambda>c. c = CHR '' '') s)))"

definition splitCommaIds :: "string \<Rightarrow> string list" where
  "splitCommaIds s = filter (\<lambda>i. i \<noteq> []) (map trim_blanks (getlines (CHR '','') s))"

type_synonym secrets = "string \<Rightarrow> string option"

definition or_empty :: "string option \<Rightarrow> string" where
  "or_empty v = (case v of None \<Rightarrow> [] | Some s \<Rightarrow> s)"

definition loadTelegramCredentials :: "secrets \<Rightarrow> TelegramCredentials" where
  "loadTelegramCredentials sp =
     (let group = or_empty (sp ''TELEGRAM_GROUP_CHAT_ID'')
      in \<lparr>tl_botToken = or_empty (sp ''TELEGRAM_BOT_TOKEN''), tl_chatId = or_empty (sp ''TELEGRAM_CHAT_ID''),
          tl_extraChatIds = (if group \<noteq> [] then [group] else []) @ splitCommaIds (or_empty (sp ''TELEGRAM_EXTRA_CHAT_IDS''))\<rparr>)"

record BcGameCredentials =
  bg_signKey :: string
  bg_userAgent :: string

definition bg_valid :: "BcGameCredentials \<Rightarrow> bool" where
  "bg_valid c \<longleftrightarrow> bg_signKey c \<noteq> []"

definition loadBcGameCredentials :: "secrets \<Rightarrow> BcGameCredentials" where
  "loadBcGameCredentials sp = \<lparr>bg_signKey = or_empty (sp ''BC_SIGN_KEY''), bg_userAgent = or_empty (sp ''BC_USER_AGENT'')\<rparr>"

text \<open>The credentials of the database are its connection string.\<close>

definition loadDatabaseCredentials :: "secrets \<Rightarrow> string" where
  "loadDatabaseCredentials sp = or_empty (sp ''DATABASE_URL'')"

record SecureConfig =
  sc_telegram :: TelegramCredentials
  sc_database :: string
  sc_bcgame :: BcGameCredentials
  sc_logLevel :: string
  sc_production :: bool

definition loadSecureConfig :: "secrets \<Rightarrow> SecureConfig Result" where
  "loadSecureConfig sp =
     Inr \<lparr>sc_telegram = loadTelegramCredentials sp, sc_database = loadDatabaseCredentials sp, sc_bcgame = loadBcGameCredentials sp,
          sc_logLevel = (case sp ''LOG_LEVEL'' of Some v \<Rightarrow> v | None \<Rightarrow> ''info''),
          sc_production = (case sp ''NODE_ENV'' of Some v \<Rightarrow> v = ''production'' | None \<Rightarrow> False)\<rparr>"

text \<open>Passwords (\<open>auth/password_hash.hpp\<close>), over the keyed hash of the signer.\<close>

definition hashPassword :: "(string \<Rightarrow> string \<Rightarrow> string) \<Rightarrow> string \<Rightarrow> string \<Rightarrow> string" where
  "hashPassword hmac password salt = hmac salt password"

definition verifyPassword :: "(string \<Rightarrow> string \<Rightarrow> string) \<Rightarrow> string \<Rightarrow> string \<Rightarrow> string \<Rightarrow> bool" where
  "verifyPassword hmac password salt hash \<longleftrightarrow> hashPassword hmac password salt = hash"

section \<open>\<open>main\<close>\<close>

record MainArgs =
  ma_cfg :: ApplicationConfig
  ma_configPath :: string
  ma_selfCheck :: bool
  ma_printAudit :: bool

definition MainArgs_none :: MainArgs where
  "MainArgs_none = \<lparr>ma_cfg = ApplicationConfig_default, ma_configPath = [], ma_selfCheck = False, ma_printAudit = False\<rparr>"

fun main_args :: "string list \<Rightarrow> MainArgs \<Rightarrow> MainArgs" where
  "main_args [] m = m"
| "main_args (a # as) m =
     (if a = ''--debug'' then main_args as (m\<lparr>ma_cfg := (ma_cfg m)\<lparr>ac_logLevel := ''debug''\<rparr>\<rparr>)
      else if a = ''--no-telegram'' then main_args as (m\<lparr>ma_cfg := (ma_cfg m)\<lparr>ac_enableTelegram := False\<rparr>\<rparr>)
      else if a = ''--self-check'' then main_args as (m\<lparr>ma_selfCheck := True\<rparr>)
      else if a = ''--audit'' then main_args as (m\<lparr>ma_printAudit := True\<rparr>)
      else if a = ''--config'' then (case as of [] \<Rightarrow> m | p # as \<Rightarrow> main_args as (m\<lparr>ma_configPath := p\<rparr>))
      else main_args as m)"

text \<open>The ways \<open>main\<close> goes on: the application is built with the first configuration and runs with the second.\<close>

datatype main_end = Main_self_check | Main_audit | Main_failed string | Main_runs ApplicationConfig ApplicationConfig

definition main_start :: "(string \<Rightarrow> string option) \<Rightarrow> string list \<Rightarrow> main_end" where
  "main_start read argv =
     (let m = main_args argv MainArgs_none
      in if ma_selfCheck m then Main_self_check
         else if ma_printAudit m then Main_audit
         else if ma_configPath m = [] then Main_runs (ma_cfg m) (ma_cfg m)
         else (case loadFile read (ma_configPath m) of
                 Inl e \<Rightarrow> Main_failed (err_message e)
               | Inr t \<Rightarrow> Main_runs (ma_cfg m) (toApplicationConfig t)))"

text \<open>Two of the parts the constructor of the application sizes by the configuration it is given.\<close>

definition app_router :: "ApplicationConfig \<Rightarrow> LatencyTracker option \<Rightarrow> EventRouter option" where
  "app_router cfg tracker = EventRouter_new (ac_eventQueueCapacity cfg) tracker"

definition app_cooldown :: "ApplicationConfig \<Rightarrow> LossCooldownTracker" where
  "app_cooldown cfg = LossCooldownTracker_new (ac_lossCooldownThreshold cfg) (ac_lossCooldownMs cfg)"

section \<open>Reading back what was written\<close>

lemma getlines_step: "d \<notin> set l \<Longrightarrow> getlines d (l @ d # r) = l # getlines d r"
  by (subst getlines.simps) (induction l, auto)

lemma getlines_nil [simp]: "getlines d [] = []"
  by (subst getlines.simps) simp

definition trimmed :: "string \<Rightarrow> bool" where
  "trimmed s \<longleftrightarrow> (s \<noteq> [] \<longrightarrow> \<not> Database.is_space (hd s) \<and> \<not> Database.is_space (last s))"

lemma tm_trim_trimmed: "trimmed s \<Longrightarrow> tm_trim s = s"
proof (cases s)
  case (Cons c cs)
  assume t: "trimmed s"
  have "dropWhile Database.is_space s = s" using t Cons by (simp add: trimmed_def)
  moreover have "dropWhile Database.is_space (rev s) = rev s" using t Cons by (cases "rev s") (auto simp: trimmed_def hd_rev [symmetric])
  ultimately show ?thesis by (simp add: tm_trim_def)
qed (simp add: tm_trim_def)

lemma dropWhile_hd: "s \<noteq> [] \<Longrightarrow> \<not> P (hd s) \<Longrightarrow> dropWhile P (s @ r) = s @ r"
  by (cases s) simp_all

lemma space_blank: "Database.is_space (CHR '' '')"
  by (simp add: Database.is_space_def)

lemma tm_trim_left: "trimmed s \<Longrightarrow> tm_trim (CHR '' '' # s) = s"
  using tm_trim_trimmed [of s] by (simp add: tm_trim_def space_blank)

lemma tm_trim_right:
  assumes "trimmed s" "s \<noteq> []"
  shows "tm_trim (s @ '' '') = s"
proof -
  have "dropWhile Database.is_space (s @ '' '') = s @ '' ''" using assms by (simp add: dropWhile_hd trimmed_def)
  moreover have "dropWhile Database.is_space (rev s) = rev s"
    using assms dropWhile_hd [of "rev s" Database.is_space "[]"] by (simp add: trimmed_def hd_rev)
  ultimately show ?thesis by (simp add: tm_trim_def space_blank)
qed

text \<open>An assignment as it is written in a file.\<close>

type_synonym assignment = "string \<times> string \<times> string"

definition tm_value_line :: "string \<Rightarrow> string \<Rightarrow> string" where
  "tm_value_line key v = key @ '' = '' @ [CHR 0x22] @ v @ [CHR 0x22]"

definition tm_written :: "assignment list \<Rightarrow> string" where
  "tm_written as = concat (map (\<lambda>(sec, key, v). (''['' @ sec @ '']'') @ [CHR 0x0A] @ tm_value_line key v @ [CHR 0x0A]) as)"

definition tm_clean :: "assignment \<Rightarrow> bool" where
  "tm_clean a \<longleftrightarrow> (case a of (sec, key, v) \<Rightarrow>
     set (sec @ key @ v) \<inter> {CHR 0x0A, CHR ''#''} = {} \<and> CHR ''='' \<notin> set key \<and> key \<noteq> [] \<and> trimmed key)"

lemma no_comment: "CHR ''#'' \<notin> set l \<Longrightarrow> takeWhile (\<lambda>c. c \<noteq> CHR ''#'') l = l"
  by (induction l) auto

lemma cut_at: "c \<notin> set a \<Longrightarrow> takeWhile (\<lambda>x. x \<noteq> c) (a @ c # r) = a" "c \<notin> set a \<Longrightarrow> dropWhile (\<lambda>x. x \<noteq> c) (a @ c # r) = c # r"
  by (induction a) auto

lemma section_line:
  assumes "CHR ''#'' \<notin> set sec"
  shows "tm_line (''['' @ sec @ '']'') (cur, cfg) = (sec, cfg)"
proof -
  have "takeWhile (\<lambda>c. c \<noteq> CHR ''#'') (''['' @ sec @ '']'') = ''['' @ sec @ '']''" using assms by (intro no_comment) simp
  moreover have "tm_trim (''['' @ sec @ '']'') = ''['' @ sec @ '']''" by (rule tm_trim_trimmed) (simp add: trimmed_def Database.is_space_def)
  ultimately show ?thesis by (simp add: tm_line_def Let_def)
qed

lemma value_line:
  assumes "tm_clean (sec, key, v)"
  shows "tm_line (tm_value_line key v) (cur, cfg) = (cur, tm_put cur key v cfg)"
proof -
  let ?l = "tm_value_line key v" and ?q = "[CHR 0x22] @ v @ [CHR 0x22]"
  have c: "CHR ''#'' \<notin> set ?l" "CHR ''='' \<notin> set key" "key \<noteq> []" "trimmed key" using assms by (auto simp: tm_clean_def tm_value_line_def)
  have t: "tm_trim ?l = ?l"
    using c(3,4) by (intro tm_trim_trimmed) (simp add: trimmed_def tm_value_line_def Database.is_space_def)
  have "?l = (key @ '' '') @ CHR ''='' # CHR '' '' # ?q" "CHR ''='' \<notin> set (key @ '' '')" using c(2) by (simp_all add: tm_value_line_def)
  then have k: "takeWhile (\<lambda>c. c \<noteq> CHR ''='') ?l = key @ '' ''" "dropWhile (\<lambda>c. c \<noteq> CHR ''='') ?l = CHR ''='' # CHR '' '' # ?q"
    using cut_at [of "CHR ''=''" "key @ '' ''"] by simp_all
  have q: "trimmed ?q" "tm_unquote ?q = v" by (simp_all add: trimmed_def Database.is_space_def tm_unquote_def)
  have kv: "tm_trim (takeWhile (\<lambda>c. c \<noteq> CHR ''='') ?l) = key" by (simp only: k tm_trim_right [OF c(4,3)])
  have "drop 1 (dropWhile (\<lambda>c. c \<noteq> CHR ''='') ?l) = CHR '' '' # ?q" unfolding k(2) by simp
  then have vv: "tm_unquote (tm_trim (drop 1 (dropWhile (\<lambda>c. c \<noteq> CHR ''='') ?l))) = v" by (simp only: tm_trim_left [OF q(1)] q(2))
  have "last ?l \<noteq> CHR '']''" "CHR ''='' \<in> set ?l" "?l \<noteq> []" by (simp_all add: tm_value_line_def)
  then show ?thesis by (simp only: tm_line_def Let_def no_comment [OF c(1)] t kv vv prod.case) simp
qed

lemma written_read:
  assumes "list_all tm_clean as"
  shows "\<exists>cur'. fold tm_line (getlines (CHR 0x0A) (tm_written as)) (cur, cfg) = (cur', fold (\<lambda>(sec, key, v). tm_put sec key v) as cfg)"
  using assms
proof (induction as arbitrary: cur cfg)
  case (Cons a as)
  obtain sec key v where a: "a = (sec, key, v)" by (metis prod_cases3)
  then have c: "tm_clean (sec, key, v)" using Cons.prems by simp
  then have n: "CHR 0x0A \<notin> set (''['' @ sec @ '']'')" "CHR 0x0A \<notin> set (tm_value_line key v)" "CHR ''#'' \<notin> set sec"
    by (auto simp: tm_clean_def tm_value_line_def)
  have "tm_written (a # as) = (''['' @ sec @ '']'') @ CHR 0x0A # (tm_value_line key v @ CHR 0x0A # tm_written as)" by (simp add: tm_written_def a)
  then have "getlines (CHR 0x0A) (tm_written (a # as)) = (''['' @ sec @ '']'') # tm_value_line key v # getlines (CHR 0x0A) (tm_written as)"
    using getlines_step n by metis
  then show ?case using Cons.IH [of sec "tm_put sec key v cfg"] Cons.prems section_line [OF n(3)] value_line [OF c] by (simp add: a)
qed (simp add: tm_written_def)

lemma get_put: "tm_get (tm_put s k v cfg) sec key d = (if s = sec \<and> k = key then v else tm_get cfg sec key d)"
  by (auto simp: tm_get_def tm_put_def split: option.split)

lemma get_none: "tm_get Map.empty sec key d = d"
  by (simp add: tm_get_def)

lemma get_assigned:
  "tm_get (fold (\<lambda>(sec, key, v). tm_put sec key v) as cfg) sec key d =
   (case map_of (rev (map (\<lambda>(s, k, v). ((s, k), v)) as)) (sec, key) of Some v \<Rightarrow> v | None \<Rightarrow> tm_get cfg sec key d)"
proof (induction as arbitrary: cfg)
  case (Cons a as)
  obtain s k v where a: "a = (s, k, v)" by (metis prod_cases3)
  show ?case by (simp add: a Cons.IH get_put map_add_def split: option.split)
qed simp

lemma config_read:
  assumes "list_all tm_clean as"
  shows "tm_get (loadString (tm_written as)) sec key d =
    (case map_of (rev (map (\<lambda>(s, k, v). ((s, k), v)) as)) (sec, key) of Some v \<Rightarrow> v | None \<Rightarrow> d)"
proof -
  obtain cur where "fold tm_line (getlines (CHR 0x0A) (tm_written as)) (''global'', Map.empty) = (cur, fold (\<lambda>(sec, key, v). tm_put sec key v) as Map.empty)"
    using written_read [OF assms] by blast
  then show ?thesis by (simp add: loadString_def get_assigned get_none split: option.split)
qed

text \<open>C39: What is written to a configuration file is read back: for any assignments in sections, with values that may contain anything but
  a comment mark or a line break, every key then has the value it was assigned last, and a key that was never assigned has the fallback.\<close>

theorem config_roundtrip:
  assumes "list_all tm_clean as"
  shows "tm_get (loadString (tm_written as)) sec key d =
    (case map_of (rev (map (\<lambda>(s, k, v). ((s, k), v)) as)) (sec, key) of Some v \<Rightarrow> v | None \<Rightarrow> d)"
  using assms by (rule config_read)

theorem config_roundtrip_witness:
  "tm_get (loadString (tm_written [(''ingestion'', ''host'', ''a = b''), (''logging'', ''level'', ''info''), (''ingestion'', ''host'', ''[c]'')])) ''ingestion'' ''host'' [] = ''[c]''"
proof -
  have "list_all tm_clean [(''ingestion'', ''host'', ''a = b''), (''logging'', ''level'', ''info''), (''ingestion'', ''host'', ''[c]'')]"
    by (simp add: tm_clean_def trimmed_def Database.is_space_def)
  from config_roundtrip [OF this, of "''ingestion''" "''host''" "[]"] show ?thesis by simp
qed

lemma stoll_show_int:
  assumes "- (2 ^ 63) \<le> i" "i < 2 ^ 63"
  shows "stoll (show_int i) = Some i"
proof (cases "i < 0")
  case True
  then have "show_int i = CHR ''-'' # show_nat (nat (- i))" by (simp add: show_int_def)
  moreover have "c_str (show_int i) = show_int i" by simp
  ultimately show ?thesis using assms True by (simp add: stoll_def Database.is_space_def takeWhile_digits Let_def)
next
  case False
  obtain c cs where e: "show_nat (nat i) = c # cs" by (cases "show_nat (nat i)") auto
  have "c_str (show_int i) = show_int i" by simp
  moreover have "c \<noteq> CHR ''-''" "c \<noteq> CHR ''+''" "\<not> Database.is_space c" using digits_only_show_nat [of c "nat i"] e by auto
  moreover have "show_int i = c # cs" using False e by (simp add: show_int_def)
  moreover have "takeWhile is_digit (c # cs) = c # cs" "read_nat (c # cs) = nat i" using takeWhile_digits [of "nat i"] e by (simp_all) (metis read_show_nat)
  ultimately show ?thesis using assms False by (simp add: stoll_def Let_def)
qed

text \<open>A number written to the file is the number the configuration has.\<close>

lemma config_number:
  assumes "list_all tm_clean as" "map_of (rev (map (\<lambda>(s, k, v). ((s, k), v)) as)) (sec, key) = Some (show_int i)" "- (2 ^ 63) \<le> i" "i < 2 ^ 63"
  shows "tm_getInt (loadString (tm_written as)) sec key d = i"
proof -
  have "show_int i \<noteq> []" by (simp add: show_int_def)
  then show ?thesis using assms(2) stoll_show_int [OF assms(3,4)] by (simp add: tm_getInt_def config_read [OF assms(1)])
qed

section \<open>The file takes the place of the arguments\<close>

lemma main_args_cfg:
  "ac_eventQueueCapacity (ma_cfg (main_args as m)) = ac_eventQueueCapacity (ma_cfg m) \<and>
   ac_outboxCapacity (ma_cfg (main_args as m)) = ac_outboxCapacity (ma_cfg m) \<and>
   ac_lossCooldownThreshold (ma_cfg (main_args as m)) = ac_lossCooldownThreshold (ma_cfg m) \<and>
   ac_lossCooldownMs (ma_cfg (main_args as m)) = ac_lossCooldownMs (ma_cfg m)"
  by (induction as m rule: main_args.induct) (auto split: list.split)



section \<open>Chat ids\<close>

lemma getlines_sep: "l \<in> set (getlines d s) \<Longrightarrow> d \<notin> set l"
proof (induction d s rule: getlines.induct)
  case (1 d s)
  have "d \<notin> set (takeWhile (\<lambda>c. c \<noteq> d) s)" using set_takeWhileD by fastforce
  then show ?case using 1 by (subst (asm) getlines.simps) (auto split: if_splits)
qed

lemma hd_dropWhile_not: "dropWhile P s \<noteq> [] \<Longrightarrow> \<not> P (hd (dropWhile P s))"
  by (induction s) auto

lemma splitCommaIds_clean:
  assumes "i \<in> set (splitCommaIds s)"
  shows "i \<noteq> [] \<and> CHR '','' \<notin> set i \<and> last i \<noteq> CHR '' ''"
proof -
  obtain l where l: "l \<in> set (getlines (CHR '','') s)" "i = trim_blanks l" "i \<noteq> []" using assms by (auto simp: splitCommaIds_def)
  let ?r = "dropWhile (\<lambda>c. c = CHR '' '') (rev (dropWhile (\<lambda>c. c = CHR '' '') l))"
  have "set i \<subseteq> set l" by (auto simp: l(2) trim_blanks_def dest!: set_dropWhileD)
  moreover have "?r \<noteq> []" "last i = hd ?r" using l(2,3) by (auto simp: trim_blanks_def last_rev)
  ultimately show ?thesis using l(3) getlines_sep [OF l(1)] hd_dropWhile_not [of "\<lambda>c. c = CHR '' ''"] by auto
qed

end
