(* ===== verification/Telegram.thy ===== *)
theory Telegram
  imports Http Config Notify
begin

text \<open>
  Telegram: the requests of the Bot API (\<open>delivery/telegram/telegram_api.hpp\<close>), the client with its retries (\<open>telegram_client.hpp\<close>),
  the dispatcher to several chats (\<open>telegram_dispatcher.hpp\<close>) and the message texts (\<open>message_format.hpp\<close>), over an HTTP client that
  is any function on a state. The client's sending function is what the sinks of \<open>Notify\<close> take. The external signer
  (\<open>ingestion/signing/external_signer.hpp\<close>), which also asks over HTTP, is here too. Pauses between attempts are part of the answer.
\<close>

section \<open>Requests\<close>

definition sendMessagePath :: "string \<Rightarrow> string" where
  "sendMessagePath botToken = ''/bot'' @ botToken @ ''/sendMessage''"

definition getMePath :: "string \<Rightarrow> string" where
  "getMePath botToken = ''/bot'' @ botToken @ ''/getMe''"

definition json_char :: "char \<Rightarrow> string" where
  "json_char c =
     (if c = CHR 0x22 then [CHR 0x5c, CHR 0x22]
      else if c = CHR 0x5c then [CHR 0x5c, CHR 0x5c]
      else if c = CHR 0x0A then [CHR 0x5c, CHR ''n'']
      else if c = CHR 0x0D then [CHR 0x5c, CHR ''r'']
      else if c = CHR 0x09 then [CHR 0x5c, CHR ''t'']
      else if (of_char c :: nat) < 32 then [CHR 0x5c, CHR ''u'', CHR ''0'', CHR ''0''] @ hex_byte (of_char c)
      else [c])"

definition escapeJson :: "string \<Rightarrow> string" where
  "escapeJson s = concat (map json_char s)"

definition buildSendMessageBody :: "string \<Rightarrow> string \<Rightarrow> string \<Rightarrow> bool \<Rightarrow> string" where
  "buildSendMessageBody chatId msg parseMode silent =
     ''{'' @ [CHR 0x22] @ ''chat_id'' @ [CHR 0x22] @ '':'' @ [CHR 0x22] @ escapeJson chatId @ [CHR 0x22] @ '','' @ [CHR 0x22] @ ''text'' @ [CHR 0x22] @
     '':'' @ [CHR 0x22] @ escapeJson msg @ [CHR 0x22] @
     (if parseMode \<noteq> [] then '','' @ [CHR 0x22] @ ''parse_mode'' @ [CHR 0x22] @ '':'' @ [CHR 0x22] @ escapeJson parseMode @ [CHR 0x22] else []) @
     (if silent then '','' @ [CHR 0x22] @ ''disable_notification'' @ [CHR 0x22] @ '':true'' else []) @ ''}''"

section \<open>The client\<close>

record TelegramResponse =
  tp_ok :: bool
  tp_messageId :: int
  tp_description :: string
  tp_raw :: string
  tp_errorCode :: int

record TelegramRequest =
  tq_method :: string
  tq_chatId :: string
  tq_text :: string
  tq_parseMode :: string
  tq_disableNotification :: bool

record TelegramClient =
  tk_creds :: TelegramCredentials
  tk_sent :: u64
  tk_failed :: u64
  tk_last_sent_ms :: TimestampMs

definition TelegramClient_new :: "TelegramCredentials \<Rightarrow> TelegramClient" where
  "TelegramClient_new creds = \<lparr>tk_creds = creds, tk_sent = 0, tk_failed = 0, tk_last_sent_ms = 0\<rparr>"

text \<open>The number after the colon that follows a key.\<close>

definition json_number :: "string \<Rightarrow> string \<Rightarrow> int option" where
  "json_number body key =
     (case sv_find body key 0 of
        None \<Rightarrow> None
      | Some p \<Rightarrow> (case sv_find body '':'' p of None \<Rightarrow> None | Some colon \<Rightarrow> Some (strtoll (drop (colon + 1) body))))"

definition parseResponse :: "HttpResponse \<Rightarrow> TelegramResponse Result" where
  "parseResponse http =
     (let body = hs_body http
      in if \<not> hs_ok http then
           (let description = ''HTTP '' @ show_int (hs_status http)
            in if hs_status http = 429 then
                 Inl (mkError EC_RateLimited (''rate limited retry_after='' @
                   show_int (case json_number body ([CHR 0x22] @ ''retry_after'' @ [CHR 0x22]) of Some n \<Rightarrow> n | None \<Rightarrow> 1)))
               else if hs_status http = 401 \<or> hs_status http = 403 then Inl (mkError EC_AuthFailed description)
               else Inl (mkError EC_NetworkError description))
         else let ok = (sv_find body ([CHR 0x22] @ ''ok'' @ [CHR 0x22] @ '':true'') 0 \<noteq> None \<or> sv_find body ([CHR 0x22] @ ''ok'' @ [CHR 0x22] @ '': true'') 0 \<noteq> None)
              in if \<not> ok then Inl (mkError EC_NetworkError ''telegram ok=false'')
                 else Inr \<lparr>tp_ok = True,
                           tp_messageId = (case json_number body ([CHR 0x22] @ ''message_id'' @ [CHR 0x22]) of Some n \<Rightarrow> n | None \<Rightarrow> 0),
                           tp_description = [], tp_raw = body, tp_errorCode = 0\<rparr>)"

definition tk_request :: "TelegramCredentials \<Rightarrow> string \<Rightarrow> int \<Rightarrow> HttpRequest" where
  "tk_request creds msg timeoutMs =
     HttpRequest_default\<lparr>hq_method := ''POST'', hq_host := ''api.telegram.org'', hq_port := 443, hq_tls := True,
       hq_path := sendMessagePath (tl_botToken creds), hq_body := buildSendMessageBody (tl_chatId creds) msg [] False,
       hq_headers := [(''Content-Type'', ''application/json''), (''User-Agent'', ''CrashCore/1.0'')],
       hq_timeout_ms := (if timeoutMs > 0 then timeoutMs else 10000)\<rparr>"

definition sendMessage :: "'h http_request \<Rightarrow> string \<Rightarrow> int \<Rightarrow> TelegramClient \<times> 'h \<Rightarrow> TelegramResponse Result \<times> TelegramClient \<times> 'h" where
  "sendMessage http msg timeoutMs st =
     (case st of (c, h) \<Rightarrow>
      if \<not> tl_valid (tk_creds c) then (Inl (mkError EC_AuthFailed ''telegram credentials missing''), c, h)
      else (case http (tk_request (tk_creds c) msg timeoutMs) h of
              (Inl e, h) \<Rightarrow> (Inl e, c\<lparr>tk_failed := tk_failed c + 1\<rparr>, h)
            | (Inr resp, h) \<Rightarrow> (parseResponse resp, c, h)))"

text \<open>The pause after a failed attempt, in milliseconds; the product with the server's number is not cut to 64 bits.\<close>

definition tk_wait :: "nat \<Rightarrow> Error \<Rightarrow> int" where
  "tk_wait i e =
     (if err_code e = EC_RateLimited then
        (case sv_find (err_message e) ''retry_after='' 0 of
           None \<Rightarrow> 500 * (int i + 1)
         | Some p \<Rightarrow> (let sec = strtoll (drop (p + 12) (err_message e)) in if sec > 0 then sec * 1000 else 500 * (int i + 1)))
      else 100 * (int i + 1))"

text \<open>The attempts from the \<open>i\<close>th on, \<open>k\<close> at most. The second part of the answer is the answers of all attempts, the third the pauses.\<close>

fun tk_retry :: "'h http_request \<Rightarrow> (nat \<Rightarrow> TimestampMs) \<Rightarrow> string \<Rightarrow> nat \<Rightarrow> nat \<Rightarrow> Error \<Rightarrow> TelegramClient \<times> 'h \<Rightarrow>
    TelegramResponse Result \<times> TelegramResponse Result list \<times> int list \<times> TelegramClient \<times> 'h" where
  "tk_retry http ms msg i 0 lastErr (c, h) = (Inl lastErr, [], [], c\<lparr>tk_failed := tk_failed c + 1\<rparr>, h)"
| "tk_retry http ms msg i (Suc k) lastErr st =
     (case sendMessage http msg (-1) st of
        (Inr r, c, h) \<Rightarrow> (Inr r, [Inr r], [], c\<lparr>tk_sent := tk_sent c + 1, tk_last_sent_ms := ms i\<rparr>, h)
      | (Inl e, c, h) \<Rightarrow>
          if err_code e = EC_AuthFailed then (Inl e, [Inl e], [], c\<lparr>tk_failed := tk_failed c + 1\<rparr>, h)
          else (case tk_retry http ms msg (i + 1) k e (c, h) of (r, rs, ws, st) \<Rightarrow> (r, Inl e # rs, tk_wait i e # ws, st)))"

definition sendMessageWithRetry :: "'h http_request \<Rightarrow> (nat \<Rightarrow> TimestampMs) \<Rightarrow> string \<Rightarrow> nat \<Rightarrow> TelegramClient \<times> 'h \<Rightarrow>
    TelegramResponse Result \<times> TelegramResponse Result list \<times> int list \<times> TelegramClient \<times> 'h" where
  "sendMessageWithRetry http ms msg maxRetries st = tk_retry http ms msg 0 maxRetries (mkError EC_NetworkError ''no attempt'') st"

text \<open>Of a request only the text is used.\<close>

definition sendRequest :: "'h http_request \<Rightarrow> (nat \<Rightarrow> TimestampMs) \<Rightarrow> TelegramRequest \<Rightarrow> TelegramClient \<times> 'h \<Rightarrow>
    TelegramResponse Result \<times> TelegramResponse Result list \<times> int list \<times> TelegramClient \<times> 'h" where
  "sendRequest http ms treq st = sendMessageWithRetry http ms (tq_text treq) 3 st"

text \<open>The function the sinks call.\<close>

definition tk_send :: "'h http_request \<Rightarrow> (nat \<Rightarrow> TimestampMs) \<Rightarrow> string \<Rightarrow> TelegramClient \<times> 'h \<Rightarrow> unit Result \<times> TelegramClient \<times> 'h" where
  "tk_send http ms msg st =
     (case sendMessageWithRetry http ms msg 3 st of (r, _, _, st) \<Rightarrow> (Result_map (\<lambda>_. ()) r, st))"

section \<open>The dispatcher\<close>

record SendResult =
  sx_ok :: bool
  sx_status :: int
  sx_error :: string
  sx_chatId :: string
  sx_durationMs :: int

record ChatHealth =
  cz_chatId :: string
  cz_success :: u64
  cz_failure :: u64
  cz_lastSuccessMs :: TimestampMs
  cz_lastFailureMs :: TimestampMs
  cz_lastError :: string

definition ChatHealth_new :: ChatHealth where
  "ChatHealth_new = \<lparr>cz_chatId = [], cz_success = 0, cz_failure = 0, cz_lastSuccessMs = 0, cz_lastFailureMs = 0, cz_lastError = []\<rparr>"

record TelegramDispatcher =
  td_creds :: TelegramCredentials
  td_chat_ids :: "string list"
  td_health :: "string \<rightharpoonup> ChatHealth"

definition TelegramDispatcher_new :: "TelegramCredentials \<Rightarrow> string list \<Rightarrow> TelegramDispatcher" where
  "TelegramDispatcher_new creds extra =
     \<lparr>td_creds = creds, td_chat_ids = (if tl_valid creds then [tl_chatId creds] else []) @ filter (\<lambda>c. c \<noteq> []) extra, td_health = Map.empty\<rparr>"

definition td_ready :: "TelegramDispatcher \<Rightarrow> bool" where
  "td_ready d \<longleftrightarrow> tl_valid (td_creds d) \<and> td_chat_ids d \<noteq> []"

definition td_chat :: "string \<Rightarrow> TelegramDispatcher \<Rightarrow> ChatHealth" where
  "td_chat i d = (case td_health d i of None \<Rightarrow> ChatHealth_new | Some h \<Rightarrow> h)"

definition noteSuccess :: "TimestampMs \<Rightarrow> string \<Rightarrow> TelegramDispatcher \<Rightarrow> TelegramDispatcher" where
  "noteSuccess now i d =
     (let h = td_chat i d in d\<lparr>td_health := (td_health d)(i \<mapsto> h\<lparr>cz_chatId := i, cz_success := cz_success h + 1, cz_lastSuccessMs := now\<rparr>)\<rparr>)"

definition noteFailure :: "TimestampMs \<Rightarrow> string \<Rightarrow> string \<Rightarrow> TelegramDispatcher \<Rightarrow> TelegramDispatcher" where
  "noteFailure now i err d =
     (let h = td_chat i d
      in d\<lparr>td_health := (td_health d)(i \<mapsto> h\<lparr>cz_chatId := i, cz_failure := cz_failure h + 1, cz_lastFailureMs := now, cz_lastError := err\<rparr>)\<rparr>)"

text \<open>A client of its own for the chat; \<open>took\<close> is the time the sending took.\<close>

definition sendToChat :: "'h http_request \<Rightarrow> TimestampMs \<Rightarrow> int \<Rightarrow> string \<Rightarrow> string \<Rightarrow> int \<Rightarrow> TelegramDispatcher \<times> 'h \<Rightarrow> SendResult \<times> TelegramDispatcher \<times> 'h" where
  "sendToChat http now took chatId msg timeoutMs st =
     (case st of (d, h) \<Rightarrow>
      case sendMessage http msg timeoutMs (TelegramClient_new ((td_creds d)\<lparr>tl_chatId := chatId\<rparr>), h) of
        (Inr _, _, h) \<Rightarrow> (\<lparr>sx_ok = True, sx_status = 200, sx_error = [], sx_chatId = chatId, sx_durationMs = took\<rparr>, noteSuccess now chatId d, h)
      | (Inl e, _, h) \<Rightarrow>
          (\<lparr>sx_ok = False, sx_status = (if err_code e = EC_RateLimited then 429 else if err_code e = EC_AuthFailed then 401 else 0),
            sx_error = err_message e, sx_chatId = chatId, sx_durationMs = took\<rparr>, noteFailure now chatId (err_message e) d, h))"

fun td_send_all :: "'h http_request \<Rightarrow> (nat \<Rightarrow> TimestampMs) \<Rightarrow> (nat \<Rightarrow> int) \<Rightarrow> string \<Rightarrow> nat \<Rightarrow> string list \<Rightarrow> TelegramDispatcher \<times> 'h \<Rightarrow>
    SendResult list \<times> TelegramDispatcher \<times> 'h" where
  "td_send_all http ms took msg i [] st = ([], st)"
| "td_send_all http ms took msg i (c # cs) st =
     (case sendToChat http (ms i) (took i) c msg 2000 st of
        (r, st) \<Rightarrow> (case td_send_all http ms took msg (i + 1) cs st of (rs, st) \<Rightarrow> (r # rs, st)))"

definition broadcast :: "'h http_request \<Rightarrow> (nat \<Rightarrow> TimestampMs) \<Rightarrow> (nat \<Rightarrow> int) \<Rightarrow> string \<Rightarrow> TelegramDispatcher \<times> 'h \<Rightarrow> SendResult list \<times> TelegramDispatcher \<times> 'h" where
  "broadcast http ms took msg st = td_send_all http ms took msg 0 (td_chat_ids (fst st)) st"

definition broadcastOk :: "'h http_request \<Rightarrow> (nat \<Rightarrow> TimestampMs) \<Rightarrow> (nat \<Rightarrow> int) \<Rightarrow> string \<Rightarrow> TelegramDispatcher \<times> 'h \<Rightarrow> bool \<times> TelegramDispatcher \<times> 'h" where
  "broadcastOk http ms took msg st = (case broadcast http ms took msg st of (rs, st) \<Rightarrow> (list_ex sx_ok rs, st))"

section \<open>Message texts\<close>

definition fmtMult :: "double \<Rightarrow> string" where
  "fmtMult m = fixedn 2 m @ ''x''"

definition fmtProb :: "double \<Rightarrow> string" where
  "fmtProb p = fixedn 1 (dmul p (Fin 100)) @ ''%''"

definition fmtConfidence :: "double \<Rightarrow> string" where
  "fmtConfidence c = fixedn 2 c"

record PredictionForMessage =
  pm_predictionId :: string
  pm_targetMultiplier :: double
  pm_probability :: double
  pm_confidence :: double
  pm_regimeName :: string
  pm_lastRoundMultiplier :: "double option"
  pm_generatedAt :: string

record ValidationForMessage =
  vm_predictionId :: string
  vm_gameId :: string
  vm_targetMultiplier :: double
  vm_actualMultiplier :: double
  vm_probability :: double
  vm_result :: string
  vm_resolvedAt :: string

definition fromPredictionEvent :: "PredictionEvent \<Rightarrow> PredictionForMessage" where
  "fromPredictionEvent e =
     \<lparr>pm_predictionId = pe_predictionId e, pm_targetMultiplier = pe_targetMult e, pm_probability = pe_confidence e, pm_confidence = pe_confidence e,
      pm_regimeName = [], pm_lastRoundMultiplier = None, pm_generatedAt = show_int (pe_createdAtMs e)\<rparr>"

definition fromOutcome :: "Outcome \<Rightarrow> ValidationForMessage" where
  "fromOutcome oc =
     \<lparr>vm_predictionId = oc_predictionId oc, vm_gameId = oc_roundId oc, vm_targetMultiplier = oc_targetMult oc, vm_actualMultiplier = oc_actualMult oc,
      vm_probability = Fin 0,
      vm_result = (if oc_result oc = Out_Stale then ''STALE'' else if oc_result oc = Out_Void then ''VOID'' else if oc_isWin oc then ''WIN'' else ''LOSS''),
      vm_resolvedAt = show_int (oc_resolvedAtMs oc)\<rparr>"

definition formatPredictionMessage :: "PredictionForMessage \<Rightarrow> string" where
  "formatPredictionMessage p =
     [CHR 0xF0, CHR 0x9F, CHR 0x8E, CHR 0xAF] @ '' PREDICTION'' @ [CHR 0x0A] @ ''Target: '' @ fmtMult (pm_targetMultiplier p) @ [CHR 0x0A] @
     ''Prob: '' @ fmtProb (pm_probability p) @ [CHR 0x0A] @ ''Confidence: '' @ fmtConfidence (pm_confidence p) @ [CHR 0x0A] @
     ''Regime: '' @ (if pm_regimeName p = [] then ''n/a'' else pm_regimeName p) @
     (case pm_lastRoundMultiplier p of None \<Rightarrow> [] | Some m \<Rightarrow> [CHR 0x0A] @ ''Last: '' @ fmtMult m)"

definition formatValidationMessage :: "ValidationForMessage \<Rightarrow> string" where
  "formatValidationMessage v =
     (if vm_result v = ''WIN'' then [CHR 0xE2, CHR 0x9C, CHR 0x85] @ '' WIN''
      else if vm_result v = ''LOSS'' then [CHR 0xE2, CHR 0x9D, CHR 0x8C] @ '' LOSS'' else vm_result v) @
     '' @ '' @ fmtMult (vm_actualMultiplier v) @ [CHR 0x0A] @ ''Target: '' @ fmtMult (vm_targetMultiplier v) @ [CHR 0x0A] @ ''Game: '' @ vm_gameId v"

section \<open>The external signer\<close>

text \<open>The endpoint is asked, its answer is not used: the local signer signs.\<close>

definition ext_sign :: "'h http_request \<Rightarrow> ('w \<Rightarrow> SocketSignature \<times> 'w) \<Rightarrow> string \<Rightarrow> 'h \<Rightarrow> 'w \<Rightarrow> SocketSignature Result \<times> 'h \<times> 'w" where
  "ext_sign http local endpoint h w =
     (let h = (if endpoint \<noteq> [] then snd (http (HttpRequest_default\<lparr>hq_method := ''POST'', hq_path := endpoint, hq_body := ''{}''\<rparr>) h) else h)
      in case local w of (sig, w) \<Rightarrow> (if sg_valid sig then Inr sig else Inl (mkError EC_AuthFailed ''sign failed''), h, w))"

section \<open>What reaches the server\<close>

text \<open>A strict reader of JSON strings, from after the opening quote: escapes are decoded, raw control characters refused.\<close>

fun read_json :: "string \<Rightarrow> (string \<times> string) option" where
  "read_json [] = None"
| "read_json (c # cs) =
     (if c = CHR 0x22 then Some ([], cs)
      else if c = CHR 0x5c then
        (case cs of
           [] \<Rightarrow> None
         | d # ds \<Rightarrow>
             if d = CHR 0x22 \<or> d = CHR 0x5c \<or> d = CHR ''/'' then map_option (\<lambda>(s, r). (d # s, r)) (read_json ds)
             else if d = CHR ''n'' then map_option (\<lambda>(s, r). (CHR 0x0A # s, r)) (read_json ds)
             else if d = CHR ''r'' then map_option (\<lambda>(s, r). (CHR 0x0D # s, r)) (read_json ds)
             else if d = CHR ''t'' then map_option (\<lambda>(s, r). (CHR 0x09 # s, r)) (read_json ds)
             else if d = CHR ''u'' \<and> length ds \<ge> 4 \<and> list_all (\<lambda>x. hex_value x \<noteq> None) (take 4 ds) \<and> hex_nat (take 4 ds) < 256
               then map_option (\<lambda>(s, r). (char_of (hex_nat (take 4 ds)) # s, r)) (read_json (drop 4 ds))
             else None)
      else if (of_char c :: nat) < 32 then None
      else map_option (\<lambda>(s, r). (c # s, r)) (read_json cs))"

lemma hex_value_digit: "k < 16 \<Longrightarrow> hex_value (hex_digit k) = Some k"
  by (auto simp: hex_value_def to_lower_def hex_digit_def Let_def)

lemma read_control:
  assumes "(of_char c :: nat) < 32"
  shows "read_json ([CHR 0x5c, CHR ''u'', CHR ''0'', CHR ''0''] @ hex_byte (of_char c) @ r) = map_option (\<lambda>(s, q). (c # s, q)) (read_json r)"
proof -
  let ?n = "of_char c :: nat"
  have u: "unat (of_char c :: u8) = ?n" using assms by (simp add: of_char_def unat_of_nat)
  have z: "hex_value (CHR ''0'') = Some 0" by (simp add: hex_value_def to_lower_def Let_def)
  have d: "hex_value (hex_digit (?n div 16)) = Some (?n div 16)" "hex_value (hex_digit (?n mod 16)) = Some (?n mod 16)"
    using assms by (simp_all add: hex_value_digit)
  have "hex_nat [CHR ''0'', CHR ''0'', hex_digit (?n div 16), hex_digit (?n mod 16)] = ?n" by (simp add: hex_nat_def z d)
  then show ?thesis using assms by (simp add: hex_byte_def u z d)
qed

lemma read_escapeJson: "read_json (escapeJson s @ CHR 0x22 # rest) = Some (s, rest)"
proof (induction s)
  case (Cons c s)
  let ?r = "escapeJson s @ CHR 0x22 # rest"
  have e: "escapeJson (c # s) @ CHR 0x22 # rest = json_char c @ ?r" by (simp add: escapeJson_def)
  have "read_json (json_char c @ ?r) = map_option (\<lambda>(s, r). (c # s, r)) (read_json ?r)"
  proof (cases "c \<in> {CHR 0x22, CHR 0x5c, CHR 0x0A, CHR 0x0D, CHR 0x09}")
    case False
    then show ?thesis using read_control [of c ?r] by (auto simp: json_char_def)
  qed (auto simp: json_char_def)
  then show ?case unfolding e by (simp add: Cons.IH)
qed (simp add: escapeJson_def)

text \<open>The two fields of a message as a reader of the body finds them, with what follows the second.\<close>

definition strip :: "string \<Rightarrow> string \<Rightarrow> string option" where
  "strip p s = (if take (length p) s = p then Some (drop (length p) s) else None)"

lemma strip_app [simp]: "strip p (p @ s) = Some s"
  by (simp add: strip_def)

definition body_fields :: "string \<Rightarrow> (string \<times> string \<times> string) option" where
  "body_fields b =
     (case strip (''{'' @ [CHR 0x22] @ ''chat_id'' @ [CHR 0x22] @ '':'' @ [CHR 0x22]) b of
        None \<Rightarrow> None
      | Some r \<Rightarrow>
          (case read_json r of
             None \<Rightarrow> None
           | Some (chat, r) \<Rightarrow>
               (case strip ('','' @ [CHR 0x22] @ ''text'' @ [CHR 0x22] @ '':'' @ [CHR 0x22]) r of
                  None \<Rightarrow> None
                | Some r \<Rightarrow> map_option (\<lambda>(msg, r). (chat, msg, r)) (read_json r))))"

text \<open>C38: A message reaches the server as it is: whatever bytes the message and the chat id contain, a strict reader of the body the client
  sends finds one chat id and one text, equal to those given, and the object ends right after, so that neither can add fields to the request.\<close>

theorem message_body_intact:
  "body_fields (hq_body (tk_request creds msg timeout)) = Some (tl_chatId creds, msg, ''}'')"
proof -
  let ?k1 = "''{'' @ [CHR 0x22] @ ''chat_id'' @ [CHR 0x22] @ '':'' @ [CHR 0x22]" and ?k2 = "'','' @ [CHR 0x22] @ ''text'' @ [CHR 0x22] @ '':'' @ [CHR 0x22]"
  have b: "hq_body (tk_request creds msg timeout) = ?k1 @ (escapeJson (tl_chatId creds) @ CHR 0x22 # (?k2 @ (escapeJson msg @ CHR 0x22 # ''}'')))"
    by (simp add: tk_request_def buildSendMessageBody_def)
  have r: "read_json (escapeJson (tl_chatId creds) @ CHR 0x22 # (?k2 @ (escapeJson msg @ CHR 0x22 # ''}''))) = Some (tl_chatId creds, ?k2 @ (escapeJson msg @ CHR 0x22 # ''}''))"
    by (rule read_escapeJson)
  show ?thesis by (simp only: b body_fields_def strip_app option.case r prod.case read_escapeJson option.map)
qed

section \<open>Attempts\<close>

definition tried :: "nat \<Rightarrow> TelegramResponse Result \<Rightarrow> TelegramResponse Result list \<Rightarrow> u64 \<Rightarrow> u64 \<Rightarrow> bool" where
  "tried n r rs before now \<longleftrightarrow>
     length rs \<le> n \<and> list_all (\<lambda>a. \<exists>e. a = Inl e \<and> err_code e \<noteq> EC_AuthFailed) (butlast rs) \<and>
     (case r of
        Inr x \<Rightarrow> rs \<noteq> [] \<and> last rs = Inr x \<and> now = before + 1
      | Inl e \<Rightarrow> now = before \<and> (n = 0 \<or> rs \<noteq> [] \<and> last rs = Inl e \<and> (length rs = n \<or> err_code e = EC_AuthFailed)))"

abbreviation asked :: "'h http_request \<Rightarrow> TelegramCredentials \<Rightarrow> string \<Rightarrow> 'h \<Rightarrow> 'h" where
  "asked http creds msg h \<equiv> snd (http (tk_request creds msg (-1)) h)"

lemma send_once:
  assumes "tl_valid (tk_creds c)"
  shows "case sendMessage http msg (-1) (c, h) of (r, c', h') \<Rightarrow>
    h' = asked http (tk_creds c) msg h \<and> tk_creds c' = tk_creds c \<and> tk_sent c' = tk_sent c"
  using assms by (auto simp: sendMessage_def split: prod.splits sum.splits)

lemma tried_more:
  assumes "tried k r rs before now" "err_code e \<noteq> EC_AuthFailed" "k = 0 \<Longrightarrow> r = Inl e"
  shows "tried (Suc k) r (Inl e # rs) before now"
  using assms by (cases r) (auto simp: tried_def)

lemma retry_tried:
  assumes "tl_valid (tk_creds c)" "tk_retry http ms msg i k e0 (c, h) = (r, rs, ws, c', h')"
  shows "tried k r rs (tk_sent c) (tk_sent c') \<and> h' = (asked http (tk_creds c) msg ^^ length rs) h \<and> (k = 0 \<longrightarrow> r = Inl e0)"
  using assms
proof (induction k arbitrary: i e0 c h r rs ws c' h')
  case (Suc k)
  obtain a c1 h1 where a: "sendMessage http msg (-1) (c, h) = (a, c1, h1)" by (metis prod_cases3)
  have c1: "h1 = asked http (tk_creds c) msg h" "tk_creds c1 = tk_creds c" "tk_sent c1 = tk_sent c" using send_once [OF Suc.prems(1), of http msg h] a by auto
  show ?case
  proof (cases a)
    case (Inr x)
    then show ?thesis using Suc.prems(2) a c1 by (auto simp: tried_def)
  next
    case (Inl e)
    show ?thesis
    proof (cases "err_code e = EC_AuthFailed")
      case True
      then show ?thesis using Suc.prems(2) a c1 Inl by (auto simp: tried_def)
    next
      case False
      obtain r2 rs2 ws2 c2 h2 where q: "tk_retry http ms msg (i + 1) k e (c1, h1) = (r2, rs2, ws2, c2, h2)" by (metis prod.exhaust)
      have p: "r = r2" "rs = Inl e # rs2" "c' = c2" "h' = h2" using Suc.prems(2) a Inl False q by auto
      have ih: "tried k r2 rs2 (tk_sent c) (tk_sent c2)" "h2 = (asked http (tk_creds c) msg ^^ length rs2) h1" "k = 0 \<longrightarrow> r2 = Inl e"
        using Suc.IH [OF _ q] Suc.prems(1) c1 by auto
      then show ?thesis using tried_more [OF ih(1) False] by (simp add: p c1(1)) (simp add: funpow_swap1 [where f = "asked http (tk_creds c) msg"])
    qed
  qed
qed (auto simp: tried_def)

text \<open>Sending with retries makes at most the given number of attempts, all with the same request, and stops at the first that succeeds or
  that the server refuses for its credentials: every attempt before the last is an error of another kind. Success is reported for an
  acknowledged last attempt and counted once; a failure is the last attempt's error, after all attempts or a refusal.\<close>

theorem telegram_tries:
  assumes "tl_valid (tk_creds c)" "sendMessageWithRetry http ms msg n (c, h) = (r, rs, ws, c', h')"
  shows "length rs \<le> n \<and> h' = ((\<lambda>h. snd (http (tk_request (tk_creds c) msg (-1)) h)) ^^ length rs) h \<and>
    list_all (\<lambda>a. \<exists>e. a = Inl e \<and> err_code e \<noteq> EC_AuthFailed) (butlast rs) \<and>
    (case r of
       Inr x \<Rightarrow> rs \<noteq> [] \<and> last rs = Inr x \<and> tk_sent c' = tk_sent c + 1
     | Inl e \<Rightarrow> tk_sent c' = tk_sent c \<and> (n = 0 \<or> rs \<noteq> [] \<and> last rs = Inl e \<and> (length rs = n \<or> err_code e = EC_AuthFailed)))"
  using retry_tried [OF assms(1), of http ms msg 0 n "mkError EC_NetworkError ''no attempt''" h r rs ws c' h'] assms(2)
  by (simp add: sendMessageWithRetry_def tried_def)

definition demo_flaky :: "nat http_request" where
  "demo_flaky req n =
     (if n = 0 then Inr \<lparr>hs_status = 500, hs_body = [], hs_headers = []\<rparr>
      else fst (ht_request 0 req \<lparr>ht_history = [], ht_requests = 0, ht_failures = 0, ht_fail_next = False, ht_last_ms = 0\<rparr>), n + 1)"

definition demo_client :: TelegramClient where
  "demo_client = TelegramClient_new \<lparr>tl_botToken = ''t'', tl_chatId = ''1'', tl_extraChatIds = []\<rparr>"

lemma demo_flaky_answers:
  "fst (demo_flaky req 0) = Inr \<lparr>hs_status = 500, hs_body = [], hs_headers = []\<rparr>" "snd (demo_flaky req n) = n + 1"
  "\<exists>x. fst (demo_flaky req 1) = Inr x \<and> Result_ok (parseResponse x)"
proof -
  have "Result_ok (parseResponse \<lparr>hs_status = 200,
                    hs_body = ''{'' @ [CHR 0x22] @ ''ok'' @ [CHR 0x22] @ '':true,'' @ [CHR 0x22] @ ''result'' @ [CHR 0x22] @ '':{'' @ [CHR 0x22] @
                      ''message_id'' @ [CHR 0x22] @ '':1}}'', hs_headers = []\<rparr>)" by code_simp
  then show "\<exists>x. fst (demo_flaky req 1) = Inr x \<and> Result_ok (parseResponse x)" by (simp add: demo_flaky_def ht_request_def ht_record_def Let_def)
qed (simp_all add: demo_flaky_def)

theorem telegram_tries_witness:
  "\<exists>x rs ws c' h'. sendMessageWithRetry demo_flaky (\<lambda>_. 0) ''hi'' 3 (demo_client, 0) = (Inr x, rs, ws, c', h') \<and>
     length rs = 2 \<and> last rs = Inr x \<and> tk_sent c' = 1"
proof -
  obtain y where y: "fst (demo_flaky (tk_request (tk_creds demo_client) ''hi'' (-1)) 1) = Inr y" "Result_ok (parseResponse y)"
    using demo_flaky_answers(3) by blast
  then obtain x where x: "parseResponse y = Inr x" by (cases "parseResponse y") auto
  have v: "tl_valid (tk_creds demo_client)" by (simp add: demo_client_def TelegramClient_new_def tl_valid_def)
  have a: "demo_flaky (tk_request (tk_creds demo_client) ''hi'' (-1)) 0 = (Inr \<lparr>hs_status = 500, hs_body = [], hs_headers = []\<rparr>, 1)"
    "demo_flaky (tk_request (tk_creds demo_client) ''hi'' (-1)) 1 = (Inr y, 2)"
    using demo_flaky_answers(1,2) [of "tk_request (tk_creds demo_client) ''hi'' (-1)"] demo_flaky_answers(2) [of "tk_request (tk_creds demo_client) ''hi'' (-1)" 1] y(1)
    by (simp_all add: prod_eq_iff)
  have p: "parseResponse \<lparr>hs_status = 500, hs_body = [], hs_headers = []\<rparr> = Inl (mkError EC_NetworkError (''HTTP '' @ show_int 500))"
    by (simp add: parseResponse_def hs_ok_def)
  obtain r rs ws c' h' where q: "sendMessageWithRetry demo_flaky (\<lambda>_. 0) ''hi'' 3 (demo_client, 0) = (r, rs, ws, c', h')" by (metis prod.exhaust)
  have e: "r = Inr x" "length rs = 2" using q v by (auto simp: sendMessageWithRetry_def numeral_3_eq_3 sendMessage_def a a(2) [unfolded One_nat_def] p x mkError_def)
  show ?thesis using telegram_tries [OF v q] q e by (auto simp: demo_client_def TelegramClient_new_def)
qed

section \<open>Broadcasts\<close>

lemma send_to_chat:
  "case sendToChat http now took chatId msg t (d, h) of (r, d', h') \<Rightarrow>
     sx_chatId r = chatId \<and>
     cz_success (td_chat i d') = cz_success (td_chat i d) + (if sx_ok r \<and> chatId = i then 1 else 0) \<and>
     cz_failure (td_chat i d') = cz_failure (td_chat i d) + (if \<not> sx_ok r \<and> chatId = i then 1 else 0)"
  by (auto simp: sendToChat_def noteSuccess_def noteFailure_def td_chat_def Let_def split: prod.splits sum.splits)

definition sx_count :: "bool \<Rightarrow> string \<Rightarrow> SendResult list \<Rightarrow> u64" where
  "sx_count ok i rs = of_nat (length (filter (\<lambda>r. sx_ok r = ok \<and> sx_chatId r = i) rs))"

lemma td_counts:
  "case td_send_all http ms took msg k ids st of (rs, st') \<Rightarrow>
     map sx_chatId rs = ids \<and>
     cz_success (td_chat i (fst st')) = cz_success (td_chat i (fst st)) + sx_count True i rs \<and>
     cz_failure (td_chat i (fst st')) = cz_failure (td_chat i (fst st)) + sx_count False i rs"
proof (induction ids arbitrary: k st)
  case (Cons c cs)
  obtain d h where st: "st = (d, h)" by (metis prod.exhaust)
  obtain r d1 h1 where r: "sendToChat http (ms k) (took k) c msg 2000 (d, h) = (r, d1, h1)" by (metis prod_cases3)
  obtain rs st2 where rs: "td_send_all http ms took msg (k + 1) cs (d1, h1) = (rs, st2)" by (metis prod.exhaust)
  have "td_send_all http ms took msg k (c # cs) st = (r # rs, st2)" using r rs by (simp add: st)
  moreover note Cons.IH [where k = "k + 1" and st = "(d1, h1)"] send_to_chat [where http = http and now = "ms k" and took = "took k" and chatId = c and msg = msg and t = 2000 and d = d and h = h and i = i]
  ultimately show ?case using r rs by (auto simp: st sx_count_def)
qed (simp add: sx_count_def)

text \<open>A broadcast never gives up on the way: it answers one result for every chat of the dispatcher, in their order, and the success and
  failure counts of every chat go up by exactly the results that name it.\<close>

theorem broadcast_accounted:
  "case broadcast http ms took msg (d, h) of (rs, d', h') \<Rightarrow>
     map sx_chatId rs = td_chat_ids d \<and>
     cz_success (td_chat i d') = cz_success (td_chat i d) + of_nat (length (filter (\<lambda>r. sx_ok r \<and> sx_chatId r = i) rs)) \<and>
     cz_failure (td_chat i d') = cz_failure (td_chat i d) + of_nat (length (filter (\<lambda>r. \<not> sx_ok r \<and> sx_chatId r = i) rs))"
  using td_counts [where http = http and ms = ms and took = took and msg = msg and k = 0 and ids = "td_chat_ids d" and st = "(d, h)" and i = i] by (auto simp: broadcast_def sx_count_def split: prod.splits)

text \<open>A primary chat that is not configured is written to all the same when there are extra ones.\<close>

lemma empty_chat_addressed:
  "tl_botToken c \<noteq> [] \<Longrightarrow> tl_chatId c = [] \<Longrightarrow> tl_extraChatIds c \<noteq> [] \<Longrightarrow> [] \<in> set (td_chat_ids (TelegramDispatcher_new c (tl_extraChatIds c)))"
  by (simp add: TelegramDispatcher_new_def tl_valid_def)

end
