(* ===== verification/Engine.thy ===== *)
theory Engine
  imports Pipeline Feed Telegram
begin

text \<open>
  The event engine (\<open>application/event_engine.hpp\<close>): the event loop and the socket of the game on one decoder and one router, with
  the diagnostics, the loss cooldown and the invariant checker. A frame goes to the loop first and then into the socket, which
  decodes and routes it a second time. The decoder and the router are kept in the loop and handed to the socket for the time of
  a call. The repositories are the lists of what they were given; the batch writer, which gets nothing, is left out.

  \<open>Env\<close> has what the loop reads from outside, \<open>SocketOutside\<close> what the socket does.
\<close>

section \<open>State\<close>

record EventEngineConfig =
  ec_queueCapacity :: u64
  ec_outboxCapacity :: nat
  ec_enableTelegram :: bool
  ec_enablePersistence :: bool
  ec_predictionTimeoutMs :: int
  ec_stuckMaxAgeMs :: int

definition EventEngineConfig_default :: EventEngineConfig where
  "EventEngineConfig_default =
     \<lparr>ec_queueCapacity = 4096, ec_outboxCapacity = 2048, ec_enableTelegram = False, ec_enablePersistence = False,
      ec_predictionTimeoutMs = 50, ec_stuckMaxAgeMs = 180000\<rparr>"

record EventEngine =
  eg_secrets :: secrets
  eg_cfg :: EventEngineConfig
  eg_sign :: NativeSign
  eg_loop :: "PredictionClient PipelineLoop"
  eg_stuck :: StuckRecovery
  eg_cooldown :: LossCooldownTracker
  eg_violations :: u64
  eg_diagnostics :: SocketDiagnostics
  eg_native :: "NativeBcGameSocket option"
  eg_telegram :: "TelegramDispatcher option"
  eg_db :: "Database option"
  eg_saved_rounds :: "CrashEvent list"
  eg_saved_outcomes :: "Outcome list"
  eg_running :: bool

text \<open>The constructor; \<open>None\<close> when the router cannot be built. The feedback dispatcher is the validator's own.\<close>

definition EventEngine_new :: "secrets \<Rightarrow> EventEngineConfig \<Rightarrow> LatencyTracker \<Rightarrow> PredictionContract \<Rightarrow> FeedbackDispatcher \<Rightarrow> EventEngine option" where
  "EventEngine_new sp cfg latency contract fb =
     (case EventRouter_new (ec_queueCapacity cfg) (Some latency) of
        None \<Rightarrow> None
      | Some router \<Rightarrow> Some
          \<lparr>eg_secrets = sp, eg_cfg = cfg, eg_sign = NativeSign_new,
           eg_loop = PipelineLoop_new \<lparr>de_tracker = Some latency, de_decoded = 0, de_invalid = 0\<rparr> router
             \<lparr>pc_contract = contract, pc_has_handler = True, pc_pending = Map.empty, pc_submitted = 0\<rparr>
             (LiveValidator_new fb (Some latency)) (Outbox_new (ec_outboxCapacity cfg), OutboxLifecycle_new 30000) (Some latency) True,
           eg_stuck = \<lparr>sr_max_age_ms = ec_stuckMaxAgeMs cfg, sr_recovered = 0\<rparr>, eg_cooldown = LossCooldownTracker_new 3 60000,
           eg_violations = 0,
           eg_diagnostics = \<lparr>sd_max = 200, sd_events = [], sd_frames = 0, sd_bytes_rx = 0, sd_errors = 0, sd_notes = 0, sd_last_error = []\<rparr>,
           eg_native = None, eg_telegram = None, eg_db = None, eg_saved_rounds = [], eg_saved_outcomes = [], eg_running = False\<rparr>)"

text \<open>The client is the stub of the base class.\<close>

definition eg_submit :: "Env \<Rightarrow> PredictionClient submit" where
  "eg_submit e p req c = pc_submit (en_ms e (9 # p)) (en_ns e (9 # p)) req c"

section \<open>Handlers\<close>

text \<open>What the engine's outcome handler does besides the loop's own.\<close>

definition eg_outcome :: "TimestampMs \<Rightarrow> Outcome \<Rightarrow> EventEngine \<Rightarrow> EventEngine" where
  "eg_outcome now oc st =
     st\<lparr>eg_cooldown := lc_noteOutcome now oc (eg_cooldown st), eg_violations := snd (checkOutcome oc (eg_violations st)),
        eg_saved_outcomes := eg_saved_outcomes st @ (if eg_db st \<noteq> None then [oc] else [])\<rparr>"

fun eg_outcomes :: "Env \<Rightarrow> nat list \<Rightarrow> nat \<Rightarrow> Outcome list \<Rightarrow> EventEngine \<Rightarrow> EventEngine" where
  "eg_outcomes e p i [] st = st"
| "eg_outcomes e p i (oc # ocs) st = eg_outcomes e p (Suc i) ocs (eg_outcome (en_ms e (i # p)) oc st)"

text \<open>The outcomes the validator hands out while its queue is drained, and during one frame.\<close>

fun drained_outcomes :: "Env \<Rightarrow> nat list \<Rightarrow> nat \<Rightarrow> 'c PipelineLoop \<Rightarrow> Outcome list" where
  "drained_outcomes e p 0 st = []"
| "drained_outcomes e p (Suc k) st =
     (case er_popValidation (pl_router st) of
        (None, r) \<Rightarrow> []
      | (Some ev, r) \<Rightarrow>
          vr_outcomes (fst (lv_onGameEnd (\<lambda>j. en_ms e (j # 0 # k # p)) (en_ns e (0 # k # p), en_ns e (1 # k # p))
                              (en_ns e (2 # k # p), en_ns e (3 # k # p)) ev (pl_validator st))) @
          drained_outcomes e p k (pl_validate e (k # p) ev (st\<lparr>pl_router := r\<rparr>)))"

definition drain_outcomes :: "Env \<Rightarrow> 'c submit \<Rightarrow> nat list \<Rightarrow> 'c PipelineLoop \<Rightarrow> Outcome list" where
  "drain_outcomes e submit p st =
     (if pl_ownsHandlers st then
        let st = drainPredictions e submit (0 # p) (unat (sq_cap (er_to_prediction (pl_router st)))) st
        in drained_outcomes e (1 # p) (unat (sq_cap (er_to_validation (pl_router st)))) st
      else [])"

definition frame_outcomes :: "Env \<Rightarrow> 'c submit \<Rightarrow> bytes \<Rightarrow> 'c PipelineLoop \<Rightarrow> Outcome list" where
  "frame_outcomes e submit data st =
     (case pl_event e data (pl_decoder st) of
        Inl _ \<Rightarrow> []
      | Inr ev \<Rightarrow>
          let (fresh, f) = df_accept ev (pl_dupes st); st1 = (pl_observed e data ev st)\<lparr>pl_dupes := f\<rparr>
          in if pl_early e ev (pl_realtime st) \<or> \<not> fresh then [] else drain_outcomes e submit [3] (pl_routed e ev st1))"

text \<open>The handler of the socket's events.\<close>

definition eg_event :: "TimestampMs \<Rightarrow> NativeBcGameSocket \<Rightarrow> CrashEvent \<Rightarrow> EventEngine \<Rightarrow> EventEngine" where
  "eg_event now nb ev st =
     st\<lparr>eg_diagnostics := sd_note now ''event'' (ev_rawEventName ev) (nb_frames_rx nb) (nb_reconnects nb) (eg_diagnostics st),
        eg_violations := snd (checkEndEvent ev (eg_violations st)),
        eg_saved_rounds := eg_saved_rounds st @ (if ev_kind ev = Ev_End \<and> eg_db st \<noteq> None then [ev] else [])\<rparr>"

fun eg_events :: "(nat list \<Rightarrow> TimestampMs) \<Rightarrow> nat list \<Rightarrow> NativeBcGameSocket \<Rightarrow> nb_call list \<Rightarrow> EventEngine \<Rightarrow> EventEngine" where
  "eg_events ms p nb [] st = st"
| "eg_events ms p nb (On_event ev # cs) st = eg_events ms (1 # p) nb cs (eg_event (ms (0 # p)) nb ev st)"
| "eg_events ms p nb (On_status s d # cs) st = eg_events ms (1 # p) nb cs st"

text \<open>The socket after a call, with the shared parts back in their places and its calls of the handlers served.\<close>

definition eg_native_back :: "(nat list \<Rightarrow> TimestampMs) \<Rightarrow> nat list \<Rightarrow> nat \<Rightarrow> NativeBcGameSocket \<Rightarrow> EventEngine \<Rightarrow> EventEngine" where
  "eg_native_back ms p before nb st =
     eg_events ms p nb (drop before (nb_calls nb))
       (st\<lparr>eg_native := Some nb, eg_loop := (eg_loop st)\<lparr>pl_decoder := nb_decoder nb, pl_router := nb_router nb\<rparr>\<rparr>)"

definition eg_native_in :: "NativeBcGameSocket \<Rightarrow> EventEngine \<Rightarrow> NativeBcGameSocket" where
  "eg_native_in nb st = nb\<lparr>nb_decoder := pl_decoder (eg_loop st), nb_router := pl_router (eg_loop st)\<rparr>"

section \<open>Operations\<close>

definition eg_telegram_start :: "EventEngine \<Rightarrow> EventEngine" where
  "eg_telegram_start st =
     (if ec_enableTelegram (eg_cfg st) then
        (case (eg_secrets st ''TELEGRAM_BOT_TOKEN'', eg_secrets st ''TELEGRAM_CHAT_ID'') of
           (Some tok, Some chat) \<Rightarrow>
             st\<lparr>eg_telegram := Some (TelegramDispatcher_new \<lparr>tl_botToken = tok, tl_chatId = chat, tl_extraChatIds = []\<rparr> [])\<rparr>
         | _ \<Rightarrow> st)
      else st)"

text \<open>The database is an object of the base class, and whether it connects is not looked at.\<close>

definition eg_persistence_start :: "EventEngine \<Rightarrow> EventEngine" where
  "eg_persistence_start st =
     (if ec_enablePersistence (eg_cfg st) then
        st\<lparr>eg_db := Some (snd (base_connect \<lparr>db_creds = or_empty (eg_secrets st ''DATABASE_URL''), db_connected = False, db_executions = 0\<rparr>))\<rparr>
      else st)"

text \<open>A socket of an earlier start is stopped when the new one takes its place.\<close>

definition eg_start :: "'w SocketOutside \<Rightarrow> EventEngine \<Rightarrow> 'w \<Rightarrow> (EventEngine \<times> 'w) option" where
  "eg_start x st w =
     (let st = eg_persistence_start (eg_telegram_start st);
          nb = NativeBcGameSocket_new (pl_decoder (eg_loop st)) (pl_router (eg_loop st)) (Some (eg_sign st)) NativeSocketConfig_default;
          w = (case eg_native st of None \<Rightarrow> w | Some old \<Rightarrow> snd (nb_stop x old w))
      in do {
        (_, nb, w) \<leftarrow> nb_start x [0] nb w;
        Some ((eg_native_back (sk_ms x) [1] 0 nb st)\<lparr>eg_running := True\<rparr>, w)
      })"

definition eg_stop :: "'w SocketOutside \<Rightarrow> EventEngine \<Rightarrow> 'w \<Rightarrow> EventEngine \<times> 'w" where
  "eg_stop x st w =
     (let st = st\<lparr>eg_running := False\<rparr>
      in case eg_native st of
           None \<Rightarrow> (st, w)
         | Some nb \<Rightarrow> (case nb_stop x nb w of (nb, w) \<Rightarrow> (st\<lparr>eg_native := Some nb\<rparr>, w)))"

text \<open>The second way in.\<close>

definition eg_inject :: "'w SocketOutside \<Rightarrow> nat list \<Rightarrow> bytes \<Rightarrow> EventEngine \<Rightarrow> 'w \<Rightarrow> (EventEngine \<times> 'w) option" where
  "eg_inject x p data st w =
     (case eg_native st of
        None \<Rightarrow> Some (st, w)
      | Some nb \<Rightarrow> do {
          (nb', w) \<leftarrow> onRawFrame x (0 # p) data (eg_native_in nb st) w;
          Some (eg_native_back (sk_ms x) (1 # p) (length (nb_calls nb)) nb' st, w)
        })"

text \<open>The first way in.\<close>

definition eg_frame :: "Env \<Rightarrow> bytes \<Rightarrow> EventEngine \<Rightarrow> unit Result \<times> EventEngine" where
  "eg_frame e data st =
     (let ocs = frame_outcomes e (eg_submit e) data (eg_loop st);
          (r, loop) = onFrame e (eg_submit e) data (eg_loop st)
      in (r, eg_outcomes e [7] 0 ocs (st\<lparr>eg_loop := loop\<rparr>)))"

definition processFrame :: "Env \<Rightarrow> 'w SocketOutside \<Rightarrow> nat list \<Rightarrow> bytes \<Rightarrow> EventEngine \<Rightarrow> 'w \<Rightarrow> (unit Result \<times> EventEngine \<times> 'w) option" where
  "processFrame e x p data st w =
     (if \<not> eg_running st then Some (Inl (mkError EC_Shutdown ''engine stopped''), st, w)
      else let st = st\<lparr>eg_diagnostics := sd_noteFrame (length data) (eg_diagnostics st)\<rparr>
           in if classifyFrame data = Fc_Malformed \<or> classifyFrame data = Fc_Truncated then
                Some (Inl (mkError EC_ParseError ''malformed''),
                      st\<lparr>eg_diagnostics := sd_noteError (en_ms e [8]) ''malformed frame'' (eg_diagnostics st)\<rparr>, w)
              else let (r, st) = eg_frame e data st
                   in do { (st, w) \<leftarrow> eg_inject x p data st w; Some (r, st, w) })"

fun process_frames :: "(nat \<Rightarrow> Env) \<Rightarrow> 'w SocketOutside \<Rightarrow> nat \<Rightarrow> bytes list \<Rightarrow> EventEngine \<Rightarrow> 'w \<Rightarrow> (unit Result \<times> EventEngine \<times> 'w) option" where
  "process_frames es x i [] st w = Some (Inr (), st, w)"
| "process_frames es x i (f # fs) st w = do {
     (r, st, w) \<leftarrow> processFrame (es i) x [i] f st w;
     (case r of
        Inl err \<Rightarrow> if err_code err \<noteq> EC_ParseError then Some (r, st, w) else process_frames es x (Suc i) fs st w
      | Inr _ \<Rightarrow> process_frames es x (Suc i) fs st w)
   }"

text \<open>After the frames of a whole round; an error has returned before.\<close>

definition eg_settle :: "Env \<Rightarrow> EventEngine \<Rightarrow> EventEngine" where
  "eg_settle e st =
     (let ocs = drain_outcomes e (eg_submit e) [4] (eg_loop st);
          st = eg_outcomes e [7] 0 ocs (st\<lparr>eg_loop := drain e (eg_submit e) [4] (eg_loop st)\<rparr>);
          v = pl_validator (eg_loop st);
          (_, s, reg) = sr_scan (en_ms e [6]) (en_rounds e (lv_registry v)) (eg_stuck st) (lv_registry v)
      in st\<lparr>eg_stuck := s, eg_loop := (eg_loop st)\<lparr>pl_validator := v\<lparr>lv_registry := reg\<rparr>\<rparr>\<rparr>)"

definition processSyntheticRound :: "(double \<Rightarrow> double) \<Rightarrow> (nat \<Rightarrow> Env) \<Rightarrow> 'w SocketOutside \<Rightarrow> u64 \<Rightarrow> double \<Rightarrow> EventEngine \<Rightarrow> 'w \<Rightarrow>
    (unit Result \<times> EventEngine \<times> 'w) option" where
  "processSyntheticRound libm_log es x gameId finalMult st w = do {
     frames \<leftarrow> syntheticRoundFrames libm_log gameId finalMult 8;
     (r, st, w) \<leftarrow> process_frames es x 0 frames st w;
     Some (if Result_ok r then (Inr (), eg_settle (es (length frames)) st, w) else (r, st, w))
   }"

section \<open>The second way in\<close>

lemma decoded_event_shape:
  assumes "fst (decodeEventPacket ex t1 now pkt src rcv d) = Inr ev"
  shows "ev_roundId ev = ev_gameId ev \<and> ev_kind ev = mapEventName (pk_event pkt) \<and>
    (ev_valid ev \<longrightarrow> ev_gameId ev \<noteq> [] \<or> ev_kind ev \<in> {Ev_Progress, Ev_Connect, Ev_Heartbeat})"
  using assms by (auto simp: decodeEventPacket_def Let_def apply_payload_def CrashEvent_default_def split: if_splits option.splits)

text \<open>What an injected frame can do to the router: nothing, or route the event the frame carries.\<close>

lemma event_router: "nb_router (nb_event x p ev st) = snd (er_route (sk_ns x (0 # p)) (sk_ns x (1 # p)) ev (nb_router st))"
  by (simp add: nb_event_def Let_def frame_simps)

lemma packet_router:
  assumes "onPacket x p pkt st w = Some (st', w')"
  shows "nb_router st' = nb_router st \<or>
    (\<exists>ex t1 now rcv d t0 t2 ev. pk_kind pkt = Pk_Event \<and> fst (decodeEventPacket ex t1 now pkt Src_NativeSocket rcv d) = Inr ev \<and>
       nb_router st' = snd (er_route t0 t2 ev (nb_router st)))"
proof (cases "pk_kind pkt = Pk_Event \<and> nb_tracked (pk_event pkt)")
  case True
  obtain r d where q: "decodeEventPacket (sk_exp x) (sk_ns x (1 # p)) (sk_ms x (1 # p)) pkt Src_NativeSocket (sk_ns x (2 # p)) (nb_decoder st) = (r, d)"
    by (metis prod.exhaust)
  show ?thesis
  proof (cases r)
    case (Inr ev)
    have "nb_router st' = snd (er_route (sk_ns x (0 # 2 # p)) (sk_ns x (1 # 2 # p)) ev (nb_router st))"
      using assms True q Inr by (auto simp: onPacket_def Let_def event_router)
    moreover have "fst (decodeEventPacket (sk_exp x) (sk_ns x (1 # p)) (sk_ms x (1 # p)) pkt Src_NativeSocket (sk_ns x (2 # p)) (nb_decoder st)) = Inr ev"
      using q Inr by simp
    ultimately show ?thesis using True by blast
  next
    case Inl
    then show ?thesis using assms True q by (auto simp: onPacket_def Let_def)
  qed
next
  case False
  then show ?thesis using assms
    by (auto simp: onPacket_def nb_connect_packet_def Let_def frame_simps split: if_splits Option.bind_splits prod.splits)
qed

lemma state_router: "nb_handle x p [Call_state up] st w = Some (st', w') \<Longrightarrow> nb_router st' = nb_router st"
  by (auto simp: frame_simps split: if_splits)

lemma inject_router:
  assumes "onRawFrame x p data st w = Some (st', w')"
  shows "nb_router st' = nb_router st \<or>
    (data \<noteq> [] \<and> \<not> isPing data \<and> \<not> isPong data \<and> \<not> isOpenFrame data \<and> \<not> isClose data \<and> data ! 0 = 0x04 \<and>
     (\<exists>ex t1 now rcv d t0 t2 ev. pk_kind (parsePacket data) = Pk_Event \<and>
       fst (decodeEventPacket ex t1 now (parsePacket data) Src_NativeSocket rcv d) = Inr ev \<and>
       nb_router st' = snd (er_route t0 t2 ev (nb_router st))))"
proof -
  define s where "s = (let st = st\<lparr>nb_frames_rx := nb_frames_rx st + 1, nb_last_frame_ms := sk_ms x (0 # p)\<rparr>
    in if isOpenFrame data then setStatus Ns_SocketOpen ''engine open'' st else st)"
  have r: "nb_router s = nb_router st" by (simp add: s_def Let_def frame_simps)
  have f: "nb_feed x (1 # p) data s w = Some (st', w')" using assms by (simp add: onRawFrame_def s_def Let_def)
  then obtain calls c cl w1 where c: "sio_onBinaryFrame (nb_send (sk_boost x) (sk_ms x (0 # 1 # p))) (sk_ms x (1 # 1 # p)) (sk_ms x (2 # 1 # p)) data (nb_sio s)
      (nb_client s, w) = Some (calls, c, cl, w1)" and h: "nb_handle x (3 # 1 # p) calls (s\<lparr>nb_sio := c, nb_client := cl\<rparr>) w1 = Some (st', w')"
    by (auto simp: nb_feed_def split: Option.bind_splits)
  let ?s = "s\<lparr>nb_sio := c, nb_client := cl\<rparr>"
  have cases: "calls = [] \<or> (\<exists>up. calls = [Call_state up]) \<or>
     (data \<noteq> [] \<and> \<not> isPing data \<and> \<not> isPong data \<and> \<not> isOpenFrame data \<and> \<not> isClose data \<and>
       (calls = [Call_frame data] \<or>
        data ! 0 = 0x04 \<and> (calls = [Call_packet (parsePacket data)] \<or> calls = [Call_packet (parsePacket data), Call_frame data])))"
    using c by (auto simp: sio_onBinaryFrame_def Let_def split: if_splits Option.bind_splits prod.splits)
  have n: "nb_router st' = nb_router ?s" if "calls = [] \<or> (\<exists>up. calls = [Call_state up]) \<or> calls = [Call_frame data]"
    using that h by (auto simp: frame_simps split: if_splits)
  have p: "\<exists>p2 w2. onPacket x p2 (parsePacket data) ?s w1 = Some (st', w2)"
    if "calls = [Call_packet (parsePacket data)] \<or> calls = [Call_packet (parsePacket data), Call_frame data]"
    using that h by (intro exI [of _ "0 # 3 # 1 # p"] exI [of _ w']) (auto split: Option.bind_splits)
  show ?thesis
  proof (cases "calls = [] \<or> (\<exists>up. calls = [Call_state up]) \<or> calls = [Call_frame data]")
    case True
    then show ?thesis using n r by simp
  next
    case False
    then have d: "data \<noteq> [] \<and> \<not> isPing data \<and> \<not> isPong data \<and> \<not> isOpenFrame data \<and> \<not> isClose data \<and> data ! 0 = 0x04"
      and q: "calls = [Call_packet (parsePacket data)] \<or> calls = [Call_packet (parsePacket data), Call_frame data]" using cases by blast+
    obtain p2 w2 where "onPacket x p2 (parsePacket data) ?s w1 = Some (st', w2)" using p [OF q] by blast
    from packet_router [OF this] d r show ?thesis by simp
  qed
qed

text \<open>Routing an event whose key the router knows.\<close>

lemma route_known:
  assumes "er_inv r" "ev_gameId ev \<noteq> [] \<Longrightarrow> er_key ev \<in> set (er_seen_order r)" "ev_gameId ev = [] \<Longrightarrow> ev_valid ev \<Longrightarrow> ev_kind ev \<noteq> Ev_End"
  shows "sq_list (er_to_prediction (snd (er_route t0 t1 ev r))) = sq_list (er_to_prediction r) \<and>
    sq_list (er_to_validation (snd (er_route t0 t1 ev r))) = sq_list (er_to_validation r)"
proof (cases "ev_gameId ev = []")
  case True
  then show ?thesis using assms(3) by (auto simp: er_route_def er_fanout_def Let_def)
next
  case False
  have k: "er_key (ev\<lparr>ev_routedAtNs := t0\<rparr>) = er_key ev" by (simp add: er_key_def)
  have "er_lru r" using assms(1) by (simp add: er_inv_def)
  from er_remember_seen [OF this, of "er_key ev"] assms(2) [OF False] False show ?thesis by (simp add: er_route_def Let_def k)
qed

lemma route_remembers:
  assumes "er_inv r" "ev_valid ev" "ev_gameId ev \<noteq> []"
  shows "er_key ev \<in> set (er_seen_order (snd (er_route t0 t1 ev r)))"
proof -
  have k: "er_key (ev\<lparr>ev_routedAtNs := t0\<rparr>) = er_key ev" by (simp add: er_key_def)
  have f: "er_seen_order (snd (er_fanout v q)) = er_seen_order q" for v q by (simp add: er_fanout_def Let_def case_prod_beta)
  have "er_lru r" using assms(1) by (simp add: er_inv_def)
  then have "er_key ev \<in> set (er_seen_order (snd (er_remember (er_key ev) r)))" by (rule er.offer_recent) (simp add: er_limit_def)
  then show ?thesis using assms(2,3) by (simp add: er_route_def Let_def k case_prod_beta f)
qed

text \<open>The event of a frame of the game, and the event the socket finds in the same frame.\<close>

lemma round_frame:
  assumes "pl_event e data d = Inr ev" "ev_kind ev \<notin> {Ev_Heartbeat, Ev_Connect}"
  shows "fst (decodeEventPacket (en_exp e) (en_ns e [2]) (en_ms e [0]) (parsePacket data) Src_NativeSocket (en_ns e [1]) d) = Inr ev"
  using assms by (auto simp: pl_event_def decodeBinary_def Let_def CrashEvent_default_def split: if_splits)

lemma same_frame_key:
  assumes "fst (decodeEventPacket ex t1 now pkt src rcv d) = Inr ev" "fst (decodeEventPacket ex' t1' now' pkt src rcv' d') = Inr ev'"
  shows "er_key ev' = er_key ev \<and> ev_gameId ev' = ev_gameId ev \<and> ev_kind ev' = ev_kind ev \<and> ev_valid ev' = ev_valid ev"
proof -
  have s: "same_event ev' ev" using decodeEventPacket_again [OF assms(1), of ex' t1' now' rcv' d'] assms(2) by simp
  have g: "ev_roundId ev = ev_gameId ev" "ev_roundId ev' = ev_gameId ev'"
    using decoded_event_shape [OF assms(1)] decoded_event_shape [OF assms(2)] by simp_all
  show ?thesis using s unfolding same_event_def key_simps by (auto simp: event_id_def g er_key_def split: if_splits)
qed

lemma outcomes_loop [simp]: "eg_loop (eg_outcomes e p i ocs st) = eg_loop st" "eg_native (eg_outcomes e p i ocs st) = eg_native st"
  by (induction ocs arbitrary: i st) (simp_all add: eg_outcome_def)

lemma events_loop [simp]: "eg_loop (eg_events ms p nb cs st) = eg_loop st" "eg_running (eg_events ms p nb cs st) = eg_running st"
  by (induction ms p nb cs st rule: eg_events.induct) (simp_all add: eg_event_def)

lemma frame_loop: "eg_loop (snd (eg_frame e data st)) = snd (onFrame e (eg_submit e) data (eg_loop st))"
  by (simp add: eg_frame_def Let_def case_prod_beta)

lemma processFrame_loop:
  assumes "processFrame e x p data st w = Some (Inr (), st', w')"
  shows "(\<exists>nb nb2 w1 w2 q. onRawFrame x q data nb w1 = Some (nb2, w2) \<and> nb_router nb = pl_router (snd (onFrame e (eg_submit e) data (eg_loop st))) \<and>
      eg_loop st' = (snd (onFrame e (eg_submit e) data (eg_loop st)))\<lparr>pl_decoder := nb_decoder nb2, pl_router := nb_router nb2\<rparr>) \<or>
    eg_loop st' = snd (onFrame e (eg_submit e) data (eg_loop st))"
proof -
  define s where "s = st\<lparr>eg_diagnostics := sd_noteFrame (length data) (eg_diagnostics st)\<rparr>"
  obtain r s2 where r: "eg_frame e data s = (r, s2)" by (metis prod.exhaust)
  have l: "eg_loop s2 = snd (onFrame e (eg_submit e) data (eg_loop st))" using frame_loop [of e data s] r by (simp add: s_def)
  have i: "eg_inject x p data s2 w = Some (st', w')"
    using assms r by (auto simp: processFrame_def s_def Let_def split: if_splits Option.bind_splits)
  show ?thesis
  proof (cases "eg_native s2")
    case None
    then show ?thesis using i l by (simp add: eg_inject_def)
  next
    case (Some nb)
    then obtain nb2 where n: "onRawFrame x (0 # p) data (eg_native_in nb s2) w = Some (nb2, w')"
      and st': "st' = eg_native_back (sk_ms x) (1 # p) (length (nb_calls nb)) nb2 s2"
      using i by (auto simp: eg_inject_def split: Option.bind_splits)
    show ?thesis using n l by (intro disjI1 exI [of _ "eg_native_in nb s2"] exI [of _ nb2]) (auto simp: st' eg_native_back_def eg_native_in_def)
  qed
qed

lemma frame_routed_once:
  assumes inv: "pl_inv (eg_loop st)" "pl_ownsHandlers (eg_loop st)"
    and ev: "pl_event e data (pl_decoder (eg_loop st)) = Inr ev" "ev_valid ev" "ev_kind ev \<notin> {Ev_Heartbeat, Ev_Connect}"
    and new: "makeKey ev \<notin> set (df_order (pl_dupes (eg_loop st)))"
    and run: "processFrame e x p data st w = Some (Inr (), st', w')"
  shows "pl_inv (eg_loop st') \<and> pl_idle (eg_loop st') \<and>
    (\<exists>d r. eg_loop st' = (snd (onFrame e (eg_submit e) data (eg_loop st)))\<lparr>pl_decoder := d, pl_router := r\<rparr>)"
proof -
  obtain s where s: "onFrame e (eg_submit e) data (eg_loop st) = (Inr (), onFresh e (eg_submit e) ev s)" "pl_core s = pl_core (eg_loop st)" "pl_inv s"
    using onFrame_new [OF inv(1) ev(1) early_not_round [OF ev(3,2)] ev(2) new, of "eg_submit e"] by blast
  let ?L = "onFresh e (eg_submit e) ev s"
  have own: "pl_ownsHandlers s" using inv(2) s(2) by (simp add: pl_core_def)
  have L: "pl_inv ?L" "pl_idle ?L" "er_inv (pl_router ?L)" using onFresh_ok(1,4) [OF s(3), of e "eg_submit e" ev] own by (simp_all add: pl_inv_def)
  have i: "back_ok (pl_routed e ev s)" "er_inv (pl_router (pl_routed e ev s))" "er_inv (pl_router s)"
    using s(3) er_inv_route by (simp_all add: pl_inv_def routed_fields)
  have "er_seen_order (pl_router ?L) = er_seen_order (pl_router (pl_routed e ev s))"
    using drain_pops_all [OF i(1,2), of e "eg_submit e" "[3]"] by (simp add: onFresh_eq Let_def)
  then have seen: "ev_gameId ev \<noteq> [] \<Longrightarrow> er_key ev \<in> set (er_seen_order (pl_router ?L))"
    using route_remembers [OF i(3) ev(2)] by (simp add: routed_fields)
  note D = round_frame [OF ev(1,3)]
  have kind: "ev_gameId ev = [] \<Longrightarrow> ev_kind ev \<noteq> Ev_End" using decoded_event_shape [OF D] ev(2) by auto
  from processFrame_loop [OF run] s(1)
  consider (out) "eg_loop st' = ?L"
    | (twice) nb nb2 w1 w2 q where "onRawFrame x q data nb w1 = Some (nb2, w2)" "nb_router nb = pl_router ?L"
        "eg_loop st' = ?L\<lparr>pl_decoder := nb_decoder nb2, pl_router := nb_router nb2\<rparr>" by auto
  then show ?thesis
  proof cases
    case out
    then show ?thesis using L s(1) by (intro conjI exI [of _ "pl_decoder ?L"] exI [of _ "pl_router ?L"]) simp_all
  next
    case twice
    have "er_inv (nb_router nb2) \<and> sq_list (er_to_prediction (nb_router nb2)) = [] \<and> sq_list (er_to_validation (nb_router nb2)) = []"
    proof (cases "nb_router nb2 = nb_router nb")
      case True
      then show ?thesis using L twice(2) by (simp add: pl_idle_def)
    next
      case False
      then obtain ex t1 now rcv d t0 t2 ev' where q: "fst (decodeEventPacket ex t1 now (parsePacket data) Src_NativeSocket rcv d) = Inr ev'"
        "nb_router nb2 = snd (er_route t0 t2 ev' (nb_router nb))" using inject_router [OF twice(1)] by blast
      have k: "er_key ev' = er_key ev" "ev_gameId ev' = ev_gameId ev" "ev_kind ev' = ev_kind ev" using same_frame_key [OF D q(1)] by simp_all
      have "sq_list (er_to_prediction (nb_router nb2)) = sq_list (er_to_prediction (pl_router ?L)) \<and>
          sq_list (er_to_validation (nb_router nb2)) = sq_list (er_to_validation (pl_router ?L))"
        unfolding q(2) twice(2) using seen kind by (intro route_known [OF L(3)]) (simp_all add: k)
      moreover have "er_inv (nb_router nb2)" unfolding q(2) twice(2) by (rule er_inv_route [OF L(3)])
      ultimately show ?thesis using L(2) by (simp add: pl_idle_def)
    qed
    then show ?thesis using L(1) s(1) by (simp add: twice(3) pl_inv_def back_ok_def pl_idle_def) blast
  qed
qed

text \<open>C9: A frame that goes both ways is routed once: when a frame with a round event the loop has not seen is processed without an error,
  the loop ends exactly as if it had been given the frame alone, but for the decoder and the router, all invariants hold, and no end of
  a round is left in a queue for a second prediction or a second settlement, whatever the socket does with the same bytes.\<close>

theorem engine_routes_once:
  assumes "pl_inv (eg_loop st)" and "pl_ownsHandlers (eg_loop st)"
    and "pl_event e data (pl_decoder (eg_loop st)) = Inr ev" and "ev_valid ev" and "ev_kind ev \<notin> {Ev_Heartbeat, Ev_Connect}"
    and "makeKey ev \<notin> set (df_order (pl_dupes (eg_loop st)))" and "processFrame e x p data st w = Some (Inr (), st', w')"
  shows "pl_inv (eg_loop st') \<and> pl_idle (eg_loop st') \<and>
    (\<exists>d r. eg_loop st' = (snd (onFrame e (eg_submit e) data (eg_loop st)))\<lparr>pl_decoder := d, pl_router := r\<rparr>)"
  using assms by (rule frame_routed_once)

definition demo_event_engine :: "EventRouter \<Rightarrow> EventEngine" where
  "demo_event_engine r =
     \<lparr>eg_secrets = (\<lambda>_. None), eg_cfg = EventEngineConfig_default, eg_sign = NativeSign_new, eg_loop = demo_loop r,
      eg_stuck = \<lparr>sr_max_age_ms = 180000, sr_recovered = 0\<rparr>, eg_cooldown = LossCooldownTracker_new 3 60000, eg_violations = 0,
      eg_diagnostics = \<lparr>sd_max = 200, sd_events = [], sd_frames = 0, sd_bytes_rx = 0, sd_errors = 0, sd_notes = 0, sd_last_error = []\<rparr>,
      eg_native = Some (demo_socket r), eg_telegram = None, eg_db = None, eg_saved_rounds = [], eg_saved_outcomes = [], eg_running = True\<rparr>"

lemma packet_injected:
  assumes "data \<noteq> []" "data ! 0 = 0x04" "pk_kind (parsePacket data) = Pk_Event"
  shows "\<exists>nb2. onRawFrame x p data nb w = Some (nb2, w)"
proof -
  have c: "\<not> isPing data" "\<not> isPong data" "\<not> isOpenFrame data" "\<not> isClose data" using assms(2) by (simp_all add: isPing_def isPong_def isOpenFrame_def isClose_def)
  have o: "\<exists>st'. onPacket x q (parsePacket data) st w = Some (st', w)" for q st using assms(3) by (simp add: onPacket_def Let_def case_prod_beta)
  have h: "\<exists>st'. nb_handle x q ((if b then [Call_packet (parsePacket data)] else []) @ (if f then [Call_frame data] else [])) st w = Some (st', w)" for q b f st
    using o [of "0 # q" st] by auto
  show ?thesis using assms(1) c h by (simp add: onRawFrame_def nb_feed_def sio_onBinaryFrame_def Let_def)
qed

lemma processed:
  assumes "eg_running st" "classifyFrame data = Fc_BinaryPacket" "pl_event e data (pl_decoder (eg_loop st)) = Inr ev"
    and "data \<noteq> []" "data ! 0 = 0x04" "pk_kind (parsePacket data) = Pk_Event"
  shows "\<exists>st'. processFrame e x p data st w = Some (Inr (), st', w)"
proof -
  have r: "fst (onFrame e (eg_submit e) data (eg_loop st)) = Inr ()" by (simp add: onFrame_eq assms(3))
  have i: "\<exists>st'. eg_inject x p data s w = Some (st', w)" for s
  proof (cases "eg_native s")
    case (Some nb)
    then show ?thesis using packet_injected [OF assms(4-6), of x "0 # p" "eg_native_in nb s" w] by (auto simp: eg_inject_def)
  qed (simp add: eg_inject_def)
  let ?s = "st\<lparr>eg_diagnostics := sd_noteFrame (length data) (eg_diagnostics st)\<rparr>"
  obtain s2 where f: "eg_frame e data ?s = (Inr (), s2)" using r by (simp add: eg_frame_def Let_def case_prod_beta)
  obtain st' where "eg_inject x p data s2 w = Some (st', w)" using i by blast
  then show ?thesis using assms(1,2) f by (simp add: processFrame_def Let_def)
qed

theorem engine_routes_once_witness:
  "\<exists>r st'. EventRouter_new 8 None = Some r \<and>
    processFrame demo_env (demo_socket_outside demo_boost) [0] demo_frame (demo_event_engine r) 0 = Some (Inr (), st', 0) \<and>
    pl_inv (eg_loop st') \<and> pl_idle (eg_loop st')"
proof -
  obtain r where r: "EventRouter_new 8 None = Some r" using demo_router by blast
  obtain ev where ev: "pl_event demo_env demo_frame (pl_decoder (eg_loop (demo_event_engine r))) = Inr ev" "ev_kind ev = Ev_End" "ev_valid ev"
    using demo_frame_event by blast
  have f: "classifyFrame demo_frame = Fc_BinaryPacket" "pk_kind (parsePacket demo_frame) = Pk_Event"
    by (simp_all add: demo_frame_def classify_encodeEvent parse_encodeEvent SocketIoPacket_default_def)
  have d: "demo_frame \<noteq> []" "demo_frame ! 0 = 0x04" by (simp_all add: demo_frame_def encodeEvent_def)
  have l: "eg_loop (demo_event_engine r) = demo_loop r" "eg_running (demo_event_engine r)" "df_order (pl_dupes (demo_loop r)) = []"
    by (simp_all add: demo_event_engine_def demo_loop_def PipelineLoop_new_def DuplicateFilter_new_def)
  obtain st' where st': "processFrame demo_env (demo_socket_outside demo_boost) [0] demo_frame (demo_event_engine r) 0 = Some (Inr (), st', 0)"
    using processed [OF l(2) f(1) ev(1) d f(2), of "demo_socket_outside demo_boost" "[0]" 0] by blast
  from engine_routes_once [OF _ _ ev(1,3) _ _ st'] demo_loop_ok [OF r] ev(2) l have "pl_inv (eg_loop st') \<and> pl_idle (eg_loop st')" by simp
  then show ?thesis using r st' by blast
qed

section \<open>The stub behind the engine\<close>

definition lp_quiet :: "Outbox \<Rightarrow> 'c PipelineLoop \<Rightarrow> bool" where
  "lp_quiet b st \<longleftrightarrow> pr_by_round (lv_registry (pl_validator st)) = Map.empty \<and> lf_leases (snd (pl_outbox st)) = Map.empty \<and> fst (pl_outbox st) = b"

lemma quiet_cong: "pl_validator st = pl_validator st2 \<Longrightarrow> pl_outbox st = pl_outbox st2 \<Longrightarrow> lp_quiet b st = lp_quiet b st2"
  by (simp add: lp_quiet_def)

lemma quiet_upd [simp]:
  "lp_quiet b (pl_inc c st) = lp_quiet b st" "lp_quiet b (st\<lparr>pl_pred := x\<rparr>) = lp_quiet b st" "lp_quiet b (st\<lparr>pl_attempts := a\<rparr>) = lp_quiet b st"
  "lp_quiet b (st\<lparr>pl_router := r\<rparr>) = lp_quiet b st" "lp_quiet b (st\<lparr>pl_decoder := d\<rparr>) = lp_quiet b st" "lp_quiet b (st\<lparr>pl_tracker := t\<rparr>) = lp_quiet b st"
  "lp_quiet b (st\<lparr>pl_realtime := rt\<rparr>) = lp_quiet b st" "lp_quiet b (st\<lparr>pl_dupes := f\<rparr>) = lp_quiet b st"
  by (simp_all add: lp_quiet_def frame_simps)

lemma quiet_submit: "lp_quiet b st \<Longrightarrow> lp_quiet b (snd (pl_submit e (eg_submit e') p req st))"
  by (simp add: pl_submit_def eg_submit_def pc_submit_def stub_response_def onPredictionResponse_def isActionable_def Let_def)

lemma quiet_predict: "lp_quiet b st \<Longrightarrow> lp_quiet b (pl_predict e (eg_submit e') p ev st)"
  using quiet_submit by (simp add: pl_predict_def pl_begin_def Let_def case_prod_beta)

lemma quiet_predictions: "lp_quiet b st \<Longrightarrow> lp_quiet b (drainPredictions e (eg_submit e') p k st)"
  by (induction k arbitrary: st) (auto simp: quiet_predict split: prod.split option.split)

lemma remember_registry [simp]: "lv_registry (snd (lv_remember g v)) = lv_registry v"
  by (simp add: lv_remember_def Let_def case_prod_beta)

lemma quiet_game_end:
  assumes "pr_by_round (lv_registry v) = Map.empty"
  shows "case lv_onGameEnd clock t s ev v of (res, fed, hook, v') \<Rightarrow> vr_outcomes res = [] \<and> lv_registry v' = lv_registry v"
  using assms by (simp add: lv_onGameEnd_def om_match_def pr_takeForRound_def Let_def case_prod_beta)

lemma quiet_validate:
  assumes "lp_quiet b st"
  shows "lp_quiet b (pl_validate e p ev st)"
proof -
  obtain res fed hook v where r: "lv_onGameEnd (\<lambda>j. en_ms e (j # 0 # p)) (en_ns e (0 # p), en_ns e (1 # p)) (en_ns e (2 # p), en_ns e (3 # p)) ev (pl_validator st) = (res, fed, hook, v)"
    by (metis prod_cases4)
  then have "vr_outcomes res = []" "lv_registry v = lv_registry (pl_validator st)"
    using quiet_game_end [of "pl_validator st" "\<lambda>j. en_ms e (j # 0 # p)" "(en_ns e (0 # p), en_ns e (1 # p))" "(en_ns e (2 # p), en_ns e (3 # p))" ev] assms
    by (simp_all add: lp_quiet_def)
  then show ?thesis using assms r by (simp add: pl_validate_def lp_quiet_def)
qed

lemma quiet_validations: "lp_quiet b st \<Longrightarrow> lp_quiet b (drainValidations e p k st) \<and> drained_outcomes e p k st = []"
proof (induction k arbitrary: st)
  case (Suc k)
  obtain o1 r where q: "er_popValidation (pl_router st) = (o1, r)" by (metis prod.exhaust)
  have "vr_outcomes (fst (lv_onGameEnd (\<lambda>j. en_ms e (j # 0 # k # p)) (en_ns e (0 # k # p), en_ns e (1 # k # p))
      (en_ns e (2 # k # p), en_ns e (3 # k # p)) ev (pl_validator st))) = []" for ev
    using quiet_game_end [of "pl_validator st" "\<lambda>j. en_ms e (j # 0 # k # p)" "(en_ns e (0 # k # p), en_ns e (1 # k # p))" "(en_ns e (2 # k # p), en_ns e (3 # k # p))" ev]
      Suc.prems by (simp add: lp_quiet_def case_prod_beta)
  moreover have "lp_quiet b (pl_validate e (k # p) ev (st\<lparr>pl_router := r\<rparr>))" for ev using Suc.prems by (intro quiet_validate) simp
  ultimately show ?case using Suc.IH Suc.prems q by (cases o1) simp_all
qed simp

lemma quiet_registry: "pr_by_round r = Map.empty \<Longrightarrow> pr_expireStale now a ks r = (0, r)"
  by (induction now a ks r rule: pr_expireStale.induct) simp_all

lemma quiet_leases: "lf_leases l = Map.empty \<Longrightarrow> lf_collect now ks l = ([], l)"
  by (induction now ks l rule: lf_collect.induct) simp_all

lemma quiet_expire: "lp_quiet b st \<Longrightarrow> lp_quiet b (pl_expire e p st)"
  by (cases "pl_outbox st")
    (simp add: pl_expire_def lp_quiet_def Let_def lv_expireStale_def quiet_registry lf_recoverExpiredLeases_def quiet_leases case_prod_beta)

lemma quiet_drain:
  assumes "lp_quiet b st"
  shows "lp_quiet b (drain e (eg_submit e') p st)" "drain_outcomes e (eg_submit e') p st = []"
proof -
  have "lp_quiet b (drainPredictions e (eg_submit e') (0 # p) k st)" for k by (rule quiet_predictions [OF assms])
  note v = quiet_validations [OF this, of e "Suc 0 # p"]
  show "lp_quiet b (drain e (eg_submit e') p st)" using assms by (simp add: drain_def Let_def v [THEN conjunct1] quiet_expire)
  show "drain_outcomes e (eg_submit e') p st = []" using v by (simp add: drain_outcomes_def Let_def)
qed

lemma stub_frame:
  assumes "lp_quiet b st"
  shows "lp_quiet b (snd (onFrame e (eg_submit e) data st))" "frame_outcomes e (eg_submit e) data st = []"
proof -
  have o: "lp_quiet b (pl_observed e data ev s) = lp_quiet b s" for ev and s :: "PredictionClient PipelineLoop" by (simp add: pl_observed_def Let_def)
  have r: "lp_quiet b (pl_routed e ev s) = lp_quiet b s" for ev and s :: "PredictionClient PipelineLoop"
    by (rule quiet_cong) (simp_all add: pl_routed_def Let_def case_prod_beta frame_simps)
  have q: "lp_quiet b ((pl_observed e data ev st)\<lparr>pl_dupes := f\<rparr>)" for ev f using assms by (simp add: o)
  have d: "lp_quiet b (onFresh e (eg_submit e) ev ((pl_observed e data ev st)\<lparr>pl_dupes := f\<rparr>))" for ev f
    using quiet_drain(1) [of b "pl_routed e ev ((pl_observed e data ev st)\<lparr>pl_dupes := f\<rparr>)" e e "[3]"] q [where ev = ev and f = f] by (simp add: onFresh_eq Let_def r)
  show "lp_quiet b (snd (onFrame e (eg_submit e) data st))"
    using assms q d by (simp add: onFrame_eq Let_def o split: sum.split)
  show "frame_outcomes e (eg_submit e) data st = []"
    using quiet_drain(2) [of b _ e e "[3]"] q by (simp add: frame_outcomes_def Let_def r case_prod_beta split: sum.split)
qed

definition eg_quiet :: "Outbox \<Rightarrow> LossCooldownTracker \<Rightarrow> EventEngine \<Rightarrow> bool" where
  "eg_quiet b c st \<longleftrightarrow> lp_quiet b (eg_loop st) \<and> eg_cooldown st = c \<and> eg_saved_outcomes st = []"

lemma eg_quiet_events [simp]: "eg_quiet b c (eg_events ms p nb cs st) = eg_quiet b c st"
  by (induction ms p nb cs st rule: eg_events.induct) (simp_all add: eg_quiet_def eg_event_def)

lemma eg_quiet_back [simp]: "eg_quiet b c (eg_native_back ms p k nb st) = eg_quiet b c st"
  by (simp add: eg_native_back_def) (simp add: eg_quiet_def lp_quiet_def)

lemma eg_quiet_inject: "eg_inject x p data st w = Some (st', w') \<Longrightarrow> eg_quiet b c st' = eg_quiet b c st"
  by (auto simp: eg_inject_def split: option.splits Option.bind_splits)

lemma eg_quiet_frame: "eg_quiet b c st \<Longrightarrow> eg_quiet b c (snd (eg_frame e data st))"
  using stub_frame [of b "eg_loop st" e data] by (simp add: eg_frame_def eg_quiet_def Let_def case_prod_beta)

lemma eg_quiet_process:
  assumes "processFrame e x p data st w = Some (r, st', w')" "eg_quiet b c st"
  shows "eg_quiet b c st'"
proof -
  have d: "eg_quiet b c (st\<lparr>eg_diagnostics := s\<rparr>)" for s using assms(2) by (simp add: eg_quiet_def)
  let ?s = "st\<lparr>eg_diagnostics := sd_noteFrame (length data) (eg_diagnostics st)\<rparr>"
  obtain r1 s2 where f: "eg_frame e data ?s = (r1, s2)" by (metis prod.exhaust)
  have q: "eg_quiet b c s2" using eg_quiet_frame [OF d, of e data "sd_noteFrame (length data) (eg_diagnostics st)"] f by simp
  show ?thesis using assms(1) d assms(2) f eg_quiet_inject [of x p data s2 w st' w'] q
    by (auto simp: processFrame_def Let_def split: if_splits Option.bind_splits)
qed

lemma eg_quiet_frames: "process_frames es x i fs st w = Some (r, st', w') \<Longrightarrow> eg_quiet b c st \<Longrightarrow> eg_quiet b c st'"
proof (induction fs arbitrary: i st w)
  case (Cons f fs)
  obtain r1 st1 w1 where p: "processFrame (es i) x [i] f st w = Some (r1, st1, w1)" using Cons.prems(1) by (auto split: Option.bind_splits)
  note q = eg_quiet_process [OF p Cons.prems(2)]
  show ?case using Cons.prems(1) p q Cons.IH [of "Suc i" st1 w1] by (auto split: sum.splits if_splits)
qed simp

lemma eg_quiet_settle: "eg_quiet b c st \<Longrightarrow> eg_quiet b c (eg_settle e st)"
  using quiet_drain [of b "eg_loop st" e e "[4]"]
  by (simp add: eg_settle_def Let_def eg_quiet_def sr_scan_def case_prod_beta quiet_registry lp_quiet_def)

text \<open>The steps of an engine: its owner's calls, frames from the network, and the socket's watchdog and worker.\<close>

inductive eg_step :: "'w SocketOutside \<Rightarrow> EventEngine \<times> 'w \<Rightarrow> EventEngine \<times> 'w \<Rightarrow> bool" for x where
  eg_started: "eg_start x st w = Some (st', w') \<Longrightarrow> eg_step x (st, w) (st', w')"
| eg_stopped: "eg_step x (st, w) (eg_stop x st w)"
| eg_framed: "processFrame e x p data st w = Some (r, st', w') \<Longrightarrow> eg_step x (st, w) (st', w')"
| eg_round: "processSyntheticRound libm_log es x gameId finalMult st w = Some (r, st', w') \<Longrightarrow> eg_step x (st, w) (st', w')"
| eg_network: "eg_native st = Some nb \<Longrightarrow> nb_data x p data (eg_native_in nb st) w = Some (nb', w') \<Longrightarrow>
    eg_step x (st, w) (eg_native_back (sk_ms x) p (length (nb_calls nb)) nb' st, w')"
| eg_watch: "eg_native st = Some nb \<Longrightarrow> nb_watch x p (eg_native_in nb st) w = Some (nb', w') \<Longrightarrow>
    eg_step x (st, w) (eg_native_back (sk_ms x) p (length (nb_calls nb)) nb' st, w')"
| eg_fire: "eg_native st = Some nb \<Longrightarrow> nb_fire x p (eg_native_in nb st) w = Some (nb', w') \<Longrightarrow>
    eg_step x (st, w) (eg_native_back (sk_ms x) p (length (nb_calls nb)) nb' st, w')"

inductive_cases eg_stepE: "eg_step x s s'"

lemma eg_quiet_start:
  assumes "eg_start x st w = Some (st', w')"
  shows "eg_quiet b c st' = eg_quiet b c st"
proof -
  have u: "eg_quiet b c (s\<lparr>eg_running := r\<rparr>) = eg_quiet b c s" "eg_quiet b c (s\<lparr>eg_db := d\<rparr>) = eg_quiet b c s"
    "eg_quiet b c (s\<lparr>eg_telegram := t\<rparr>) = eg_quiet b c s" for s r d t by (simp_all add: eg_quiet_def)
  have t: "eg_quiet b c (eg_persistence_start (eg_telegram_start s)) = eg_quiet b c s" for s
    by (simp add: eg_persistence_start_def eg_telegram_start_def u split: option.split)
  show ?thesis using assms by (auto simp: eg_start_def Let_def u t split: Option.bind_splits)
qed

lemma eg_quiet_stop: "eg_quiet b c (fst (eg_stop x st w)) = eg_quiet b c st"
  by (simp add: eg_stop_def Let_def eg_quiet_def split: option.split prod.split)

lemma eg_quiet_round: "processSyntheticRound libm_log es x gameId finalMult st w = Some (r, st', w') \<Longrightarrow> eg_quiet b c st \<Longrightarrow> eg_quiet b c st'"
  using eg_quiet_frames [where b = b and c = c and es = es and x = x and i = 0 and st = st and w = w] eg_quiet_settle [where b = b and c = c]
  by (auto simp: processSyntheticRound_def split: Option.bind_splits if_splits)

lemma eg_quiet_step: "eg_step x s s' \<Longrightarrow> eg_quiet b c (fst s) \<Longrightarrow> eg_quiet b c (fst s')"
  by (induction rule: eg_step.induct) (auto simp: eg_quiet_start eg_quiet_stop dest: eg_quiet_process eg_quiet_round)

lemma eg_quiet_steps: "(eg_step x)\<^sup>*\<^sup>* s s' \<Longrightarrow> eg_quiet b c (fst s) \<Longrightarrow> eg_quiet b c (fst s')"
  by (induction rule: rtranclp_induct) (auto intro: eg_quiet_step)

lemma eg_new_quiet: "EventEngine_new sp cfg latency contract fb = Some st \<Longrightarrow>
    eg_quiet (Outbox_new (ec_outboxCapacity cfg)) (LossCooldownTracker_new 3 60000) st"
  by (auto simp: EventEngine_new_def eg_quiet_def lp_quiet_def PipelineLoop_new_def LiveValidator_new_def PredictionRegistry_new_def
      OutboxLifecycle_new_def split: option.splits)

text \<open>C10: The engine never predicts: its client is the stub of the base class, so however it is started, stopped and fed, from frames, whole
  rounds or the network, no prediction is ever registered, nothing is published to the outbox, no outcome is saved, and the loss
  cooldown keeps the state it was made with.\<close>

theorem engine_never_predicts:
  assumes "EventEngine_new sp cfg latency contract fb = Some st0" and "(eg_step x)\<^sup>*\<^sup>* (st0, w0) (st, w)"
  shows "pr_by_round (lv_registry (pl_validator (eg_loop st))) = Map.empty \<and> fst (pl_outbox (eg_loop st)) = Outbox_new (ec_outboxCapacity cfg) \<and>
    eg_saved_outcomes st = [] \<and> eg_cooldown st = LossCooldownTracker_new 3 60000"
  using eg_quiet_steps [OF assms(2)] eg_new_quiet [OF assms(1)] by (auto simp: eg_quiet_def lp_quiet_def)

lemma demo_started:
  assumes "eg_native st = None"
  shows "\<exists>st' w. eg_start (demo_socket_outside refusing_boost) st 0 = Some (st', w) \<and> eg_running st'"
proof -
  have n: "eg_native (eg_persistence_start (eg_telegram_start st)) = None"
    using assms by (simp add: eg_persistence_start_def eg_telegram_start_def split: option.split)
  have "\<exists>r nb w. nb_start (demo_socket_outside refusing_boost) [0] (NativeBcGameSocket_new d q (Some g) NativeSocketConfig_default) 0 = Some (r, nb, w)" for d q g
    by (simp add: nb_start_def NativeBcGameSocket_new_def nb_live_def nb_signed_def cl_start_def se_start_def doConnect_def wc_connect_def
        WebSocketClient_new_def WebSocketSession_new_def refusing_boost_def demo_socket_outside_def Let_def scheduleReconnect_def nb_drop_def cl_stop_def
        se_stop_def wc_close_def frame_simps reportError_def se_set_def case_prod_beta)
  then obtain r nb w where "nb_start (demo_socket_outside refusing_boost) [0]
      (NativeBcGameSocket_new (pl_decoder (eg_loop (eg_persistence_start (eg_telegram_start st)))) (pl_router (eg_loop (eg_persistence_start (eg_telegram_start st))))
        (Some (eg_sign (eg_persistence_start (eg_telegram_start st)))) NativeSocketConfig_default) 0 = Some (r, nb, w)" by blast
  then show ?thesis by (simp add: eg_start_def n Let_def)
qed

definition demo_latency :: LatencyTracker where
  "demo_latency = \<lparr>lt_count = (\<lambda>_. 0), lt_sum = (\<lambda>_. 0), lt_max = (\<lambda>_. 0), lt_buckets = (\<lambda>_ _. 0)\<rparr>"

definition demo_new_engine :: "EventEngine option" where
  "demo_new_engine =
     EventEngine_new (\<lambda>_. None) (EventEngineConfig_default\<lparr>ec_queueCapacity := 8\<rparr>) demo_latency
       \<lparr>ct_interfaceVersion = ''1'', ct_timeoutMs = 50, ct_preferSharedMemory = False\<rparr> demo_dispatcher"

lemma demo_frame_processed:
  assumes "eg_running st"
  shows "\<exists>st'. processFrame demo_env (demo_socket_outside refusing_boost) [0] demo_frame st w = Some (Inr (), st', w)"
proof -
  obtain ev where "pl_event demo_env demo_frame (pl_decoder (eg_loop st)) = Inr ev" using demo_frame_event by blast
  moreover have "classifyFrame demo_frame = Fc_BinaryPacket" "pk_kind (parsePacket demo_frame) = Pk_Event"
    by (simp_all add: demo_frame_def classify_encodeEvent parse_encodeEvent SocketIoPacket_default_def)
  moreover have "demo_frame \<noteq> []" "demo_frame ! 0 = 0x04" by (simp_all add: demo_frame_def encodeEvent_def)
  ultimately show ?thesis using processed [OF assms, of demo_frame demo_env ev "demo_socket_outside refusing_boost" "[0]" w] by blast
qed

theorem engine_never_predicts_witness:
  "\<exists>st0 st1 w1 st2. demo_new_engine = Some st0 \<and> eg_start (demo_socket_outside refusing_boost) st0 0 = Some (st1, w1) \<and>
     processFrame demo_env (demo_socket_outside refusing_boost) [0] demo_frame st1 w1 = Some (Inr (), st2, w1) \<and>
     fst (pl_outbox (eg_loop st2)) = Outbox_new 2048 \<and> eg_saved_outcomes st2 = []"
proof -
  let ?x = "demo_socket_outside refusing_boost"
  obtain r where r: "EventRouter_new 8 (Some demo_latency) = Some r"
    using SpscQueue_new_ok [of 8 CrashEvent_default] by (auto simp: EventRouter_new_def)
  obtain st0 where st0: "demo_new_engine = Some st0" "eg_native st0 = None"
    using r by (simp add: demo_new_engine_def EventEngine_new_def EventEngineConfig_default_def)
  obtain st1 w1 where st1: "eg_start ?x st0 0 = Some (st1, w1)" "eg_running st1" using demo_started [OF st0(2)] by blast
  obtain st2 where st2: "processFrame demo_env ?x [0] demo_frame st1 w1 = Some (Inr (), st2, w1)" using demo_frame_processed [OF st1(2)] by blast
  have "(eg_step ?x)\<^sup>*\<^sup>* (st0, 0) (st2, w1)" using eg_started [OF st1(1)] eg_framed [OF st2] by (meson r_into_rtranclp rtranclp.rtrancl_into_rtrancl)
  from engine_never_predicts [OF st0(1) [unfolded demo_new_engine_def] this] st0(1) st1(1) st2
  show ?thesis by (simp add: EventEngineConfig_default_def) blast
qed

end
