(* ===== verification/Spec2Isabelle.thy ===== *)
theory Spec2Isabelle
  imports Frames WsFrame Pipeline Lifecycle Readiness Sql Notify Persist Repos Mpsc Supervisor Workers App Engine
begin

text \<open>
  \<^bold>\<open>CrashCore: a verified model of the event core\<close>

  CrashCore is a C++ server that follows the rounds of a crash game over a Socket.IO feed, asks a prediction
  engine about the round after the one that just ended, judges its predictions when their round ends, and
  delivers signals through an outbox. This library translates the program's own logic into HOL definitions and proves
  the properties that make it correct. File names below are relative to \<open>src/include/\<close>.

  \<^bold>\<open>The parts of the program and how they interact\<close>

  A frame from the socket is unwrapped (\<open>ingestion/websocket/ws_frame.hpp\<close>), parsed as an Engine.IO / Socket.IO packet
  with a protobuf payload (\<open>ingestion/socketio/\<close>) and decoded to a \<open>CrashEvent\<close> (\<open>ingestion/event_decoder.hpp\<close>).
  The realtime pipeline (\<open>realtime/\<close>) normalises and validates it, the duplicate filter drops repetitions, the round
  registry and the statistics follow it, and the router (\<open>ingestion/event_router.hpp\<close>) queues the ends of rounds for
  prediction, validation and persistence. The prediction side (\<open>prediction_interface/\<close>, \<open>prediction/acie/\<close>) opens an
  attempt, asks the client and turns its answer into an entry or a skip; the validation side (\<open>validation/\<close>,
  \<open>feedback/\<close>) registers predictions, settles them when their round ends and feeds outcomes back; the
  delivery side (\<open>delivery/outbox/\<close>) publishes signals at most once and retries failed ones. \<open>PipelineLoop\<close>
  (\<open>application/pipeline_loop.hpp\<close>) is the loop that connects all of them.

  Around this core, the orchestrator (\<open>orchestration/\<close>) starts and stops the components, the supervisor (\<open>live/\<close>) takes
  a lease on the database and boots the process behind a readiness barrier (\<open>observability/\<close>), the persistence layer
  (\<open>persistence/\<close>) writes rounds, predictions, outcomes and the outbox table through libpq, and the durable
  delivery (\<open>delivery/outbox/durable_prediction_tx.hpp\<close>, \<open>temporal_auth.hpp\<close>, \<open>delivery/notification_worker.hpp\<close>) commits a
  prediction before its signal is sent and refuses signals whose round has begun.

  At the edges, the socket of the game (\<open>ingestion/native_bc_socket.hpp\<close>) owns a Socket.IO client and a WebSocket client over Boost and
  reconnects with signed queries (\<open>ingestion/signing/\<close>); the poll worker and the seeder read finished rounds over HTTP (\<open>ingestion/rest/\<close>,
  \<open>live/cold_start_seeder.hpp\<close>, \<open>delivery/http/\<close>); Telegram is written to over HTTP (\<open>delivery/telegram/\<close>); the configuration comes from
  a file, the arguments and the environment (\<open>config/\<close>, \<open>security/\<close>). \<open>Application\<close> (\<open>application/application.hpp\<close>) wires the production
  process, \<open>EventEngine\<close> (\<open>application/event_engine.hpp\<close>) a self-contained one.

  \<^bold>\<open>The theories\<close>

  \<^item> \<open>Prelude\<close>: the collections \<open>key_simps\<close> and \<open>frame_simps\<close>, decimal rendering of numbers and its inverse, keys joined by
    separators, and \<open>trim\<close>, the bounded window that many components keep.
  \<^item> \<open>Float64\<close>: IEEE double arithmetic with rounding to nearest even, infinities and NaN, on rational values. The
    exponential function of the C library is an argument wherever it is used.
  \<^item> \<open>Types\<close>: \<open>common/types.hpp\<close>, \<open>errors.hpp\<close>, \<open>result.hpp\<close>, \<open>ingestion/crash_event.hpp\<close>. \<open>Result<T>\<close> is
    \<open>Error + T\<close>, 64-bit counters are words and wrap, time stamps are integers.
  \<^item> \<open>Queues\<close>: \<open>concurrency/bounded_queue.hpp\<close> and \<open>spsc_queue.hpp\<close>. The locale \<open>bounded_fifo\<close> is the contract of a
    bounded queue; both queues interpret it, and every component that owns a queue uses the facts of the
    interpretations.
  \<^item> \<open>Wire\<close>, \<open>Frames\<close>, \<open>WsFrame\<close>, \<open>Decoder\<close>: the codecs, with their round trips, bounds of every read, and the exact
    condition under which the varint codec is its own inverse.
  \<^item> \<open>Dedupe\<close>: \<open>duplicate_filter.hpp\<close> and \<open>sequence_tracker.hpp\<close>, and the locales \<open>key_memory\<close>, \<open>dedupe\<close> and
    \<open>fifo_window\<close> of a bounded memory of keys, each extending the one before. The duplicate filter, the router, the
    realtime validator, the live validator and the two feedback components interpret them.
  \<^item> \<open>Realtime\<close>, \<open>Router\<close>, \<open>Rounds\<close>, \<open>Timing\<close>: the realtime pipeline, the router as a transition system with an
    invariant over reachable states, the life cycle of a round, and clocks and latencies.
  \<^item> \<open>Registry\<close>, \<open>Outcomes\<close>, \<open>Validation\<close>, \<open>Feedback\<close>: pending predictions, their judgement, the settlement of a round
    and the feedback of outcomes.
  \<^item> \<open>Acie\<close>, \<open>Attempts\<close>, \<open>N1\<close>: the strategy gate, the adaptive edge and the risk engine; attempts, targets and history; the
    client and the coordinator of the next round. The vendored prediction engine is a record of functions, an argument of
    the definitions, and the theorems hold for every engine.
  \<^item> \<open>Outbox\<close>: outbox, worker, leases and hand-off. The interleavings of publishers and workers are an inductive step
    relation.
  \<^item> \<open>Pipeline\<close>: \<open>PipelineLoop\<close>, the composition of the parts above.
  \<^item> \<open>Mpsc\<close>, \<open>Workers\<close>: the queue of many producers, with one step per atomic access, and the pool of workers that steal from
    each other (\<open>concurrency/mpsc_queue.hpp\<close>, \<open>worker_pool.hpp\<close>, \<open>worker.hpp\<close>).
  \<^item> \<open>Lifecycle\<close>, \<open>Readiness\<close>, \<open>Supervisor\<close>: registry, orchestrator, start-up and shutdown; the readiness barrier and the
    cache of recent rounds; lease, epoch, boot sequence, gate and sessions.
  \<^item> \<open>Sql\<close>, \<open>Database\<close>, \<open>Persist\<close>, \<open>Repos\<close>: the text of the statements, the database classes and transactions over
    libpq, the connection pool and the batch writer, and the repositories with their caches, whose shared contract is the
    locale \<open>repository\<close>.
  \<^item> \<open>Durable\<close>, \<open>Notify\<close>: the transaction of a prediction, the outbox table, the temporal guard and the notification worker.

  \<^item> \<open>Maintain\<close>: the migration runner and the retention of old rows.
  \<^item> \<open>Http\<close>, \<open>Rest\<close>, \<open>Seeder\<close>: HTTP requests and responses through libcurl, the pages of finished rounds and their reader, the
    poll worker and the cold start.
  \<^item> \<open>Signing\<close>: the signer of socket queries with its cache, the client of the signer process, the secret providers.
  \<^item> \<open>Transport\<close>, \<open>Socket\<close>, \<open>Feed\<close>: reconnect policy, heartbeat, Socket.IO client, WebSocket session and client with the
    handshake; the socket of the game as a transition system of calls, frames, watchdog and reconnect worker; the crash feed,
    the transport facade and the diagnostics.
  \<^item> \<open>Config\<close>, \<open>Telegram\<close>: configuration files, credentials and the arguments of \<open>main\<close>; the Bot API client with its retries, the
    dispatcher to several chats and the message texts.
  \<^item> \<open>App\<close>: what \<open>Application\<close> installs and runs: the handlers of events, responses, outcomes and polled rounds, the draining of
    the queues, seeding, and the turn of its loop, as one step relation.
  \<^item> \<open>Engine\<close>: \<open>EventEngine\<close>, the composition of \<open>Pipeline\<close> and \<open>Socket\<close> on one decoder and one router.

  A class is a record whose fields have a two-letter prefix and the name of the member; a method is a definition of the
  same name with that prefix, taking the object last and returning it updated. A method that calls back returns the list of
  arguments handed to the callback, or takes the callback as a function on the state of whoever installed it.

  \<^bold>\<open>What the lemmas show\<close>

  Codecs: what is encoded is decoded again, no read leaves the buffer, malformed input is an error value. Streams: an event,
  an outcome, a signal or a frame passes a filter once within the filter's window, and what a repetition changes is
  a counter. Life cycles: an ended round is frozen, only ends of rounds reach prediction and validation, a round is
  settled once and with exactly its pending predictions, a superseded attempt and a second claim are refused. Decisions: an
  entry is made only with enough edge, confidence and samples, and stakes and the adaptive edge stay in their bounds.
  Durability: a prediction is committed with its claim and its outbox row or not at all, and published only then; the batch writer
  sends what it accepted once and in order; string fields cannot break out of a statement. Control: the orchestrator starts
  everything or stops what it started, the boot opens the barrier only after every step, a lease row has one owner until it
  expires, and a late signal is not sent. Concurrency: the lock-free queue is first in, first out under every interleaving, an
  accepted task is run once, a pooled connection has one owner. Progress: the worker empties the outbox whatever the sink does, and the loop settles a round in the frame that ends it.
  Edges: a signature that is served is one the signer made, a failed migration changes nothing, a page of history yields only sound
  rounds, what is written to a configuration file is read back, and no message can change the request that carries it. Composition: the
  application predicts a round once, in whatever order events, frames and polled rounds arrive, its state stays well-formed, and
  a frame that reaches the event engine on two ways is routed once. Some lemmas state what the code does where that is not what it
  means to do, such as the reconnect that never happens; the manifest lists them.

  \<^bold>\<open>Modelling choices\<close>

  The reader of history pages runs on fuel, the length of the body and one, which its termination theorem shows to be enough when
  every key has its colon. A run that C++ gives no meaning (a throw out of a thread, a call of a destroyed object, a cast out of range)
  is \<open>None\<close>. Boost, libcurl, HMAC, the random generator and the file system are arguments.

  Readings of the clocks are arguments; where one call makes several, they are separate arguments, or indexed by the path of
  the call in \<open>Pipeline\<close>. The iteration order of a hash map is an argument, a list of its keys. Mutexes and atomics are one step per
  critical section. Loops that pop a queue run on fuel, the capacity of the queue, and \<open>Pipeline.drain_pops_all\<close> shows that
  this is enough; the worker's loop takes its number of iterations as an argument, and the theorem on it
  gives a number that suffices. The constructor of the ring queue is a partial function, since its loop does not end for a
  capacity above \<open>2^63\<close>. A latency tracker shared by pointer is a separate optional tracker in each component that has one:
  measurements never influence behaviour.

  libpq is a record of functions on a state of the server, an argument of every definition that talks to the database. Theorems about
  transactions assume the documented behaviour of PostgreSQL as the predicate \<open>Database.transactional\<close> (a block is committed as a
  whole, a failed statement aborts it, a lost connection ends it), those about leases as \<open>Supervisor.lease_server\<close> (the four lease
  statements act on the rows of their table as their text says, or fail and change nothing); both are
  instantiated with concrete servers in the witnesses. Numbers are printed and read by definitions, doubles by arguments.

  \<^bold>\<open>Not modelled\<close>

  The bodies of the libraries (Boost, libcurl, libpq, OpenSSL, POSIX calls), which are arguments; the construction, threads, start, stop and
  health reports of \<open>application/application.hpp\<close>; logging and metrics export; the numbered families of accumulators under
  \<open>prediction/online/\<close> and the models and features beside them, which nothing includes; generated scenario and fixture tables; the
  TypeScript dashboard; the vendored prediction engine, which is a parameter.
\<close>

end
